(* ===== verification/Reo_Prelude.thy ===== *)
theory Reo_Prelude
  imports Main "HOL-Library.Word" "HOL-Library.AList" "HOL-Library.Monad_Syntax"
begin

text \<open>
  The prelude of the development: the names of the machine integers, the outcomes of a
  Rust function (a value, an error value, a panic), and the parts of Rust's standard
  library that the sources use: \<open>HashMap\<close>, \<open>HashSet\<close>, \<open>BTreeMap\<close>,
  \<open>Vec::binary_search\<close>, \<open>Vec::pop\<close>.

  A function that can panic but returns no \<open>Result\<close> is modelled with type
  \<open>'a option\<close>, where \<open>None\<close> is the panic; a function that returns a
  \<open>Result<T, E>\<close> and can also panic has type \<open>('t, 'e) res\<close>. Loops that the types do
  not bound take fuel; \<open>OutOfFuel\<close> says that the loop was still running when it was used up.

  A hash container is the list of its entries, in the order in which an iteration visits
  them. Rust does not specify that order. A theorem about an operation takes the lists that
  it is given in any order; the lists that the operations build have one order, in which a
  new key comes last, so what the model runs is one of the runs that the source may make.
\<close>

section \<open>Machine integers and outcomes\<close>

type_synonym u8 = "8 word"
type_synonym u16 = "16 word"
type_synonym u32 = "32 word"
type_synonym u64 = "64 word"
type_synonym usize = "64 word"

named_theorems outcome_simps \<open>rewrite rules for the binds of panicking and failing code\<close>
named_theorems wf_intros \<open>every operation keeps the well-formedness of what it returns\<close>

datatype ('a, 'e) res = Ok 'a | Err 'e | Panic | OutOfFuel

fun bind_res :: "('a, 'e) res \<Rightarrow> ('a \<Rightarrow> ('b, 'e) res) \<Rightarrow> ('b, 'e) res" where
  "bind_res (Ok x) f = f x"
| "bind_res (Err e) f = Err e"
| "bind_res Panic f = Panic"
| "bind_res OutOfFuel f = OutOfFuel"

text \<open>An \<open>unwrap\<close> or an \<open>assert!\<close> inside code that returns a \<open>Result\<close>.\<close>

definition unwrap :: "'a option \<Rightarrow> ('a, 'e) res" where
  "unwrap x = (case x of None \<Rightarrow> Panic | Some y \<Rightarrow> Ok y)"

definition rassert :: "bool \<Rightarrow> (unit, 'e) res" where
  "rassert b = (if b then Ok () else Panic)"

text \<open>Indexing panics out of range.\<close>

definition vec_get :: "'a list \<Rightarrow> nat \<Rightarrow> ('a, 'e) res" where
  "vec_get xs i = (if i < length xs then Ok (xs ! i) else Panic)"

definition oassert :: "bool \<Rightarrow> unit option" where
  "oassert b = (if b then Some () else None)"

lemma bind_res_Ok_iff [outcome_simps]:
  "bind_res m f = Ok y \<longleftrightarrow> (\<exists>x. m = Ok x \<and> f x = Ok y)"
  by (cases m) auto

lemma unwrap_simps [simp, outcome_simps]:
  "unwrap None = Panic" "unwrap (Some x) = Ok x"
  by (simp_all add: unwrap_def)

lemma unwrap_Ok_iff [outcome_simps]: "unwrap x = Ok y \<longleftrightarrow> x = Some y"
  by (cases x) auto

lemma oassert_Some_iff [simp, outcome_simps]: "oassert b = Some u \<longleftrightarrow> b"
  by (simp add: oassert_def)

lemma rassert_Ok_iff [simp, outcome_simps]: "rassert b = Ok u \<longleftrightarrow> b"
  by (simp add: rassert_def)

lemma bind_res_cong [fundef_cong]:
  assumes "m = m'" and "\<And>x. m' = Ok x \<Longrightarrow> f x = f' x"
  shows "bind_res m f = bind_res m' f'"
  using assms by (cases m') auto

lemma unat_of_nat_u32: "n < 2 ^ 32 \<Longrightarrow> unat (of_nat n :: u32) = n"
  by (simp add: unat_of_nat)

section \<open>Interfaces of the containers\<close>

text \<open>
  What a client relies on of a map: what a lookup returns after an insertion, and that
  insertion keeps the representation well formed.
\<close>

locale map_contract =
  fixes get :: "'m \<Rightarrow> 'k \<Rightarrow> 'v option"
    and ins :: "'k \<Rightarrow> 'v \<Rightarrow> 'm \<Rightarrow> 'm"
    and wf :: "'m \<Rightarrow> bool"
  assumes get_ins: "wf m \<Longrightarrow> get (ins k v m) = (get m)(k \<mapsto> v)"
    and wf_ins: "wf m \<Longrightarrow> wf (ins k v m)"
begin

text \<open>Rust's \<open>extend\<close>: the entries are inserted one after the other.\<close>

lemma wf_extend: "wf m \<Longrightarrow> wf (fold (\<lambda>(k, v). ins k v) kvs m)"
  by (induction kvs arbitrary: m) (auto simp: wf_ins)

lemma get_extend: "wf m \<Longrightarrow> get (fold (\<lambda>(k, v). ins k v) kvs m) = get m ++ map_of (rev kvs)"
proof (induction kvs arbitrary: m)
  case Nil
  then show ?case by simp
next
  case (Cons kv kvs)
  obtain k v where kv: "kv = (k, v)" by (cases kv)
  have "get (fold (\<lambda>(k, v). ins k v) (kv # kvs) m) = get (ins k v m) ++ map_of (rev kvs)"
    using Cons by (simp add: kv wf_ins)
  also have "\<dots> = get m ++ map_of (rev (kv # kvs))"
    using Cons.prems by (auto simp: kv get_ins map_add_def fun_eq_iff split: option.splits)
  finally show ?case .
qed

end

text \<open>What a client relies on of a set.\<close>

locale set_contract =
  fixes elems :: "'s \<Rightarrow> 'a set"
    and ins :: "'a \<Rightarrow> 's \<Rightarrow> 's"
    and mem :: "'s \<Rightarrow> 'a \<Rightarrow> bool"
    and wf :: "'s \<Rightarrow> bool"
  assumes elems_ins: "wf s \<Longrightarrow> elems (ins x s) = insert x (elems s)"
    and mem_iff: "wf s \<Longrightarrow> mem s x \<longleftrightarrow> x \<in> elems s"
    and wf_ins: "wf s \<Longrightarrow> wf (ins x s)"
begin

lemma mem_ins: "wf s \<Longrightarrow> mem (ins x s) y \<longleftrightarrow> y = x \<or> mem s y"
  by (simp add: mem_iff elems_ins wf_ins)

lemma ins_all: "wf s \<Longrightarrow> wf (fold ins xs s) \<and> elems (fold ins xs s) = elems s \<union> set xs"
  by (induction xs arbitrary: s) (auto simp: elems_ins wf_ins)

end

section \<open>Hash maps and hash sets\<close>

type_synonym ('k, 'v) hash_map = "('k \<times> 'v) list"
type_synonym 'a hash_set = "'a list"

abbreviation hm_get :: "('k, 'v) hash_map \<Rightarrow> 'k \<Rightarrow> 'v option" where
  "hm_get \<equiv> map_of"

abbreviation hm_insert :: "'k \<Rightarrow> 'v \<Rightarrow> ('k, 'v) hash_map \<Rightarrow> ('k, 'v) hash_map" where
  "hm_insert \<equiv> AList.update"

abbreviation hm_keys :: "('k, 'v) hash_map \<Rightarrow> 'k list" where
  "hm_keys m \<equiv> map fst m"

abbreviation hm_wf :: "('k, 'v) hash_map \<Rightarrow> bool" where
  "hm_wf m \<equiv> distinct (map fst m)"

text \<open>\<open>HashSet::insert\<close>, \<open>remove\<close> and \<open>retain\<close>.\<close>

abbreviation hs_insert :: "'a \<Rightarrow> 'a hash_set \<Rightarrow> 'a hash_set" where
  "hs_insert \<equiv> List.insert"

abbreviation hs_remove :: "'a \<Rightarrow> 'a hash_set \<Rightarrow> 'a hash_set" where
  "hs_remove \<equiv> removeAll"

abbreviation hs_retain :: "('a \<Rightarrow> bool) \<Rightarrow> 'a hash_set \<Rightarrow> 'a hash_set" where
  "hs_retain \<equiv> filter"

interpretation hm: map_contract map_of AList.update "\<lambda>m. distinct (map fst m)"
  by unfold_locales (simp_all add: update_conv' distinct_update)

interpretation hs: set_contract set List.insert "\<lambda>s x. x \<in> set s" distinct
  by unfold_locales simp_all

lemma hm_keys_insert: "set (hm_keys (hm_insert k v m)) = insert k (set (hm_keys m))"
  by (induction m) auto

lemma hm_get_insert: "hm_get (hm_insert k v m) k' = (if k' = k then Some v else hm_get m k')"
  by (simp add: update_conv')

lemma hm_get_keys: "hm_get m k \<noteq> None \<longleftrightarrow> k \<in> set (hm_keys m)"
  by (induction m) auto

lemma hm_get_Some_iff: "hm_wf m \<Longrightarrow> hm_get m k = Some v \<longleftrightarrow> (k, v) \<in> set m"
  by (metis map_of_is_SomeI map_of_SomeD)

lemma map_le_Some_iff: "f \<subseteq>\<^sub>m g \<longleftrightarrow> (\<forall>k v. f k = Some v \<longrightarrow> g k = Some v)"
  unfolding map_le_def by (metis domD domI)

lemma map_of_rev_distinct: "hm_wf m \<Longrightarrow> map_of (rev m) = map_of m"
proof (rule ext)
  fix k
  assume wf: "hm_wf m"
  then have "hm_wf (rev m)" by (simp add: rev_map [symmetric])
  then have "map_of (rev m) k = Some v \<longleftrightarrow> map_of m k = Some v" for v
    using wf by (simp add: hm_get_Some_iff)
  then show "map_of (rev m) k = map_of m k"
    by (metis not_None_eq)
qed

lemma map_of_filter_key:
  "map_of (filter (\<lambda>(j, v). P j) m) k = (if P k then map_of m k else None)"
  by (induction m) auto

section \<open>Ordered maps\<close>

text \<open>A \<open>BTreeMap\<close> is the list of its entries in increasing order of the keys.\<close>

type_synonym ('k, 'v) btree_map = "('k \<times> 'v) list"

fun btm_insert :: "'k::linorder \<Rightarrow> 'v \<Rightarrow> ('k, 'v) btree_map \<Rightarrow> ('k, 'v) btree_map" where
  "btm_insert k v [] = [(k, v)]"
| "btm_insert k v (e # m) =
     (if fst e < k then e # btm_insert k v m
      else if fst e = k then (k, v) # m
      else (k, v) # e # m)"

definition btm_wf :: "('k::linorder, 'v) btree_map \<Rightarrow> bool" where
  "btm_wf m \<longleftrightarrow> sorted_wrt (<) (map fst m)"

lemma btm_wf_Nil [simp]: "btm_wf []"
  by (simp add: btm_wf_def)

lemma btm_wf_Cons [simp]: "btm_wf (e # m) \<longleftrightarrow> (\<forall>x \<in> set m. fst e < fst x) \<and> btm_wf m"
  by (auto simp: btm_wf_def)

lemma btm_wf_distinct: "btm_wf m \<Longrightarrow> distinct (map fst m)"
  by (simp add: btm_wf_def strict_sorted_iff)

lemma btm_keys_insert: "fst ` set (btm_insert k v m) = insert k (fst ` set m)"
  by (induction m) auto

lemma btm_get_insert: "map_of (btm_insert k v m) = (map_of m)(k \<mapsto> v)"
  by (induction m) (auto simp: fun_eq_iff)

lemma btm_wf_insert: "btm_wf m \<Longrightarrow> btm_wf (btm_insert k v m)"
proof (induction m)
  case Nil
  then show ?case by simp
next
  case (Cons e m)
  have "\<forall>x \<in> set (btm_insert k v m). fst e < fst x" if "fst e < k"
  proof
    fix x assume "x \<in> set (btm_insert k v m)"
    then have "fst x \<in> insert k (fst ` set m)"
      using btm_keys_insert [of k v m] by (metis imageI)
    then show "fst e < fst x" using that Cons.prems by auto
  qed
  with Cons show ?case by (auto simp: not_less le_less)
qed

interpretation btm: map_contract map_of btm_insert btm_wf
  by unfold_locales (simp_all add: btm_get_insert btm_wf_insert)

text \<open>Two ordered maps with the same entries are the same list: equality is extensional.\<close>

lemma btm_map_of_set: "btm_wf m \<Longrightarrow> map_of m k = Some v \<longleftrightarrow> (k, v) \<in> set m"
  using hm_get_Some_iff [OF btm_wf_distinct] .

lemma btm_ext:
  assumes "btm_wf m" "btm_wf m'" "map_of m = map_of m'"
  shows "m = m'"
proof -
  have "set m = set m'"
    using assms by (auto simp flip: btm_map_of_set)
  moreover have "inj_on fst (set m \<union> set m')"
    using btm_wf_distinct [OF assms(1)] \<open>set m = set m'\<close> by (simp add: distinct_map)
  ultimately show ?thesis
    using assms(1,2) unfolding btm_wf_def strict_sorted_iff
    by (intro map_sorted_distinct_set_unique [of fst]) auto
qed

end
