(* ===== verification/Common_Ids.thy ===== *)
theory Common_Ids
  imports Reo_Prelude
begin

text \<open>
  The identifiers of \<open>src/common.rs\<close> and the identifier allocation of
  \<open>src/runtime/mod.rs\<close>: ports, components and speculative variables are pairs of a
  connector identifier and a 32-bit suffix, ordered lexicographically (the derived
  \<open>Ord\<close>); suffixes come from a \<open>U32Stream\<close>, which panics at its last value.
  The lemmas show that allocation is fresh: a manager never hands out the same identifier
  twice, whatever the sequence of allocations.
\<close>

section \<open>Identifiers\<close>

datatype Id = MkId (connector_id: u32) (u32_suffix: u32)

datatype ComponentId = ComponentId Id
datatype PortId = PortId Id
datatype SpecVar = SpecVar PortId
datatype SpecVal = SpecVal u16

instantiation Id :: linorder
begin

definition less_eq_Id :: "Id \<Rightarrow> Id \<Rightarrow> bool" where
  "less_eq_Id a b \<longleftrightarrow> connector_id a < connector_id b \<or>
     connector_id a = connector_id b \<and> u32_suffix a \<le> u32_suffix b"

definition less_Id :: "Id \<Rightarrow> Id \<Rightarrow> bool" where
  "less_Id a b \<longleftrightarrow> connector_id a < connector_id b \<or>
     connector_id a = connector_id b \<and> u32_suffix a < u32_suffix b"

instance
  by standard (auto simp: less_eq_Id_def less_Id_def Id.expand)

end

instantiation PortId :: linorder
begin

definition less_eq_PortId :: "PortId \<Rightarrow> PortId \<Rightarrow> bool" where
  "less_eq_PortId p q \<longleftrightarrow> (case (p, q) of (PortId a, PortId b) \<Rightarrow> a \<le> b)"

definition less_PortId :: "PortId \<Rightarrow> PortId \<Rightarrow> bool" where
  "less_PortId p q \<longleftrightarrow> (case (p, q) of (PortId a, PortId b) \<Rightarrow> a < b)"

instance
  by standard (auto simp: less_eq_PortId_def less_PortId_def split: PortId.splits)

end

instantiation SpecVar :: linorder
begin

definition less_eq_SpecVar :: "SpecVar \<Rightarrow> SpecVar \<Rightarrow> bool" where
  "less_eq_SpecVar p q \<longleftrightarrow> (case (p, q) of (SpecVar a, SpecVar b) \<Rightarrow> a \<le> b)"

definition less_SpecVar :: "SpecVar \<Rightarrow> SpecVar \<Rightarrow> bool" where
  "less_SpecVar p q \<longleftrightarrow> (case (p, q) of (SpecVar a, SpecVar b) \<Rightarrow> a < b)"

instance
  by standard (auto simp: less_eq_SpecVar_def less_SpecVar_def split: SpecVar.splits)

end

lemmas id_order_defs =
  less_eq_Id_def less_Id_def less_eq_PortId_def less_PortId_def
  less_eq_SpecVar_def less_SpecVar_def

text \<open>\<open>IdParts::id_parts\<close> of a port.\<close>

fun id_parts :: "PortId \<Rightarrow> u32 \<times> u32" where
  "id_parts (PortId i) = (connector_id i, u32_suffix i)"

section \<open>Small types\<close>

datatype Polarity = Putter | Getter

fun polarity_not :: "Polarity \<Rightarrow> Polarity" where
  "polarity_not Putter = Getter"
| "polarity_not Getter = Putter"

datatype EndpointPolarity = Active | Passive

text \<open>
  A payload is a reference-counted byte vector that is copied before it is written when it
  is shared (\<open>Arc::make_mut\<close>), so it behaves as a value.
\<close>

type_synonym Payload = "u8 list"

definition concatenate_with :: "Payload \<Rightarrow> Payload \<Rightarrow> Payload" where
  "concatenate_with me other = me @ other"

definition FIRING :: SpecVal where "FIRING = SpecVal 1"
definition SILENT :: SpecVal where "SILENT = SpecVal 0"

definition is_firing :: "SpecVal \<Rightarrow> bool" where
  "is_firing v \<longleftrightarrow> v = FIRING"

lemma firing_not_silent [simp]: "FIRING \<noteq> SILENT" "SILENT \<noteq> FIRING"
  by (simp_all add: FIRING_def SILENT_def)

datatype Route = LocalComponent | NetEndpoint nat | UdpEndpoint nat

section \<open>Streams of suffixes\<close>

record U32Stream =
  snext :: u32

definition u32_MAX :: u32 where "u32_MAX = - 1"

definition U32Stream_next :: "U32Stream \<Rightarrow> (u32 \<times> U32Stream) option" where
  "U32Stream_next s =
     (if snext s = u32_MAX then None
      else let s' = s\<lparr>snext := snext s + 1\<rparr> in Some (snext s' - 1, s'))"

definition saturating_add :: "u32 \<Rightarrow> u32 \<Rightarrow> u32" where
  "saturating_add a b = (if unat a + unat b < 2 ^ 32 then a + b else u32_MAX)"

definition n_skipped :: "U32Stream \<Rightarrow> u32 \<Rightarrow> U32Stream" where
  "n_skipped s n = s\<lparr>snext := saturating_add (snext s) n\<rparr>"

lemma unat_u32_MAX: "unat u32_MAX = 2 ^ 32 - 1"
  by (simp add: u32_MAX_def unsigned_minus_1_eq_mask mask_eq_exp_minus_1)

lemma U32Stream_next_Some:
  "U32Stream_next s = Some (n, s') \<longleftrightarrow>
     snext s \<noteq> u32_MAX \<and> n = snext s \<and> s' = s\<lparr>snext := snext s + 1\<rparr>"
  by (auto simp: U32Stream_next_def Let_def)

lemma unat_succ_no_wrap: "(x :: u32) \<noteq> u32_MAX \<Longrightarrow> unat (x + 1) = Suc (unat x)"
  by (simp add: u32_MAX_def unatSuc eq_neg_iff_add_eq_0 add.commute)

lemma U32Stream_next_unat:
  "U32Stream_next s = Some (n, s') \<Longrightarrow> unat n = unat (snext s) \<and> unat (snext s') = Suc (unat n)"
  by (auto simp: U32Stream_next_Some unat_succ_no_wrap)

lemma unat_saturating_add: "unat (saturating_add a b) = min (unat a + unat b) (2 ^ 32 - 1)"
  by (auto simp: saturating_add_def unat_u32_MAX unat_add_lem [THEN iffD1] min_def)

section \<open>The identifier manager\<close>

record IdManager =
  idm_connector_id :: u32
  port_suffix_stream :: U32Stream
  component_suffix_stream :: U32Stream

record SpecVarStream =
  svs_connector_id :: u32
  svs_suffix_stream :: U32Stream

definition IdManager_new :: "u32 \<Rightarrow> IdManager" where
  "IdManager_new cid =
     \<lparr>idm_connector_id = cid, port_suffix_stream = \<lparr>snext = 0\<rparr>,
      component_suffix_stream = \<lparr>snext = 0\<rparr>\<rparr>"

definition new_port_id :: "IdManager \<Rightarrow> (PortId \<times> IdManager) option" where
  "new_port_id m = do {
     (suffix, s) \<leftarrow> U32Stream_next (port_suffix_stream m);
     Some (PortId (MkId (idm_connector_id m) suffix), m\<lparr>port_suffix_stream := s\<rparr>)
   }"

definition new_component_id :: "IdManager \<Rightarrow> (ComponentId \<times> IdManager) option" where
  "new_component_id m = do {
     (suffix, s) \<leftarrow> U32Stream_next (component_suffix_stream m);
     Some (ComponentId (MkId (idm_connector_id m) suffix), m\<lparr>component_suffix_stream := s\<rparr>)
   }"

definition SKIP_N :: u32 where "SKIP_N = 100"

definition new_spec_var_stream :: "IdManager \<Rightarrow> SpecVarStream" where
  "new_spec_var_stream m =
     \<lparr>svs_connector_id = idm_connector_id m,
      svs_suffix_stream = n_skipped (port_suffix_stream m) SKIP_N\<rparr>"

definition SpecVarStream_next :: "SpecVarStream \<Rightarrow> (SpecVar \<times> SpecVarStream) option" where
  "SpecVarStream_next s = do {
     (suffix, s') \<leftarrow> U32Stream_next (svs_suffix_stream s);
     Some (SpecVar (PortId (MkId (svs_connector_id s) suffix)), s\<lparr>svs_suffix_stream := s'\<rparr>)
   }"

text \<open>
  The ports a manager has handed out: those of its own connector whose suffix is below the
  next one. Likewise for components.
\<close>

definition port_allocated :: "IdManager \<Rightarrow> PortId \<Rightarrow> bool" where
  "port_allocated m p \<longleftrightarrow> (case p of PortId i \<Rightarrow>
     connector_id i = idm_connector_id m \<and> u32_suffix i < snext (port_suffix_stream m))"

definition component_allocated :: "IdManager \<Rightarrow> ComponentId \<Rightarrow> bool" where
  "component_allocated m c \<longleftrightarrow> (case c of ComponentId i \<Rightarrow>
     connector_id i = idm_connector_id m \<and> u32_suffix i < snext (component_suffix_stream m))"

lemmas allocated_defs = port_allocated_def component_allocated_def

lemma new_port_id_Some:
  "new_port_id m = Some (p, m') \<longleftrightarrow>
     snext (port_suffix_stream m) \<noteq> u32_MAX \<and>
     p = PortId (MkId (idm_connector_id m) (snext (port_suffix_stream m))) \<and>
     m' = m\<lparr>port_suffix_stream := (port_suffix_stream m)\<lparr>snext := snext (port_suffix_stream m) + 1\<rparr>\<rparr>"
  by (auto simp: new_port_id_def U32Stream_next_Some bind_eq_Some_conv)

lemma new_component_id_Some:
  "new_component_id m = Some (c, m') \<longleftrightarrow>
     snext (component_suffix_stream m) \<noteq> u32_MAX \<and>
     c = ComponentId (MkId (idm_connector_id m) (snext (component_suffix_stream m))) \<and>
     m' = m\<lparr>component_suffix_stream :=
              (component_suffix_stream m)\<lparr>snext := snext (component_suffix_stream m) + 1\<rparr>\<rparr>"
  by (auto simp: new_component_id_def U32Stream_next_Some bind_eq_Some_conv)

lemma less_succ_no_wrap: "(x :: u32) \<noteq> u32_MAX \<Longrightarrow> y < x + 1 \<longleftrightarrow> y < x \<or> y = x"
  by (auto simp: word_less_nat_alt unat_succ_no_wrap less_Suc_eq word_unat_eq_iff)

lemma new_port_id_allocated:
  assumes "new_port_id m = Some (p, m')"
  shows "port_allocated m' q \<longleftrightarrow> port_allocated m q \<or> q = p" and "\<not> port_allocated m p"
  using assms
  by (auto simp: new_port_id_Some port_allocated_def less_succ_no_wrap Id.expand split: PortId.splits)

lemma new_port_id_frame:
  assumes "new_port_id m = Some (p, m')"
  shows "component_allocated m' c \<longleftrightarrow> component_allocated m c"
    and "idm_connector_id m' = idm_connector_id m"
  using assms by (auto simp: new_port_id_Some component_allocated_def split: ComponentId.splits)

lemma new_component_id_allocated:
  assumes "new_component_id m = Some (c, m')"
  shows "component_allocated m' d \<longleftrightarrow> component_allocated m d \<or> d = c"
    and "\<not> component_allocated m c"
  using assms
  by (auto simp: new_component_id_Some component_allocated_def less_succ_no_wrap Id.expand
      split: ComponentId.splits)

lemma new_component_id_frame:
  assumes "new_component_id m = Some (c, m')"
  shows "port_allocated m' p \<longleftrightarrow> port_allocated m p"
    and "idm_connector_id m' = idm_connector_id m"
  using assms by (auto simp: new_component_id_Some port_allocated_def split: PortId.splits)

text \<open>A run of allocations: \<open>n\<close> ports, one after the other.\<close>

fun new_port_ids :: "nat \<Rightarrow> IdManager \<Rightarrow> (PortId list \<times> IdManager) option" where
  "new_port_ids 0 m = Some ([], m)"
| "new_port_ids (Suc n) m = do {
     (p, m') \<leftarrow> new_port_id m;
     (ps, m'') \<leftarrow> new_port_ids n m';
     Some (p # ps, m'')
   }"

lemma new_port_ids_allocated:
  "new_port_ids n m = Some (ps, m') \<Longrightarrow>
     length ps = n \<and> distinct ps \<and> (\<forall>q. port_allocated m' q \<longleftrightarrow> port_allocated m q \<or> q \<in> set ps) \<and>
     (\<forall>q \<in> set ps. \<not> port_allocated m q)"
proof (induction n arbitrary: m ps m')
  case 0
  then show ?case by simp
next
  case (Suc n)
  then obtain p m1 qs where p: "new_port_id m = Some (p, m1)"
    and qs: "new_port_ids n m1 = Some (qs, m')" and ps: "ps = p # qs"
    by (auto simp: bind_eq_Some_conv)
  from Suc.IH [OF qs] new_port_id_allocated [OF p] show ?case
    by (auto simp: ps)
qed

lemma new_port_ids_bound:
  "new_port_ids n m = Some (ps, m') \<Longrightarrow> unat (snext (port_suffix_stream m)) + n \<le> unat u32_MAX"
proof (induction n arbitrary: m ps)
  case 0
  show ?case by (simp add: u32_MAX_def word_le_nat_alt [symmetric])
next
  case (Suc n)
  then obtain p m1 qs where p: "new_port_id m = Some (p, m1)" and qs: "new_port_ids n m1 = Some (qs, m')"
    by (auto simp: bind_eq_Some_conv)
  from Suc.IH [OF qs] p show ?case by (auto simp: new_port_id_Some unat_succ_no_wrap)
qed

section \<open>Properties\<close>

text \<open>
  Identifiers never collide. Any run of allocations from one manager that does not
  panic yields pairwise distinct ports, none of which was allocated before, and afterwards
  the manager counts exactly these as allocated in addition; no wrap-around of the 32-bit
  suffix can reuse one, because the stream panics at its last value.
\<close>

theorem new_port_ids_fresh:
  assumes "new_port_ids n m = Some (ps, m')"
  shows "length ps = n \<and> distinct ps \<and> unat (snext (port_suffix_stream m)) + n \<le> unat u32_MAX \<and>
    (\<forall>q. (port_allocated m' q \<longleftrightarrow> port_allocated m q \<or> q \<in> set ps) \<and> \<not> (port_allocated m q \<and> q \<in> set ps))"
  using new_port_ids_allocated [OF assms] new_port_ids_bound [OF assms] by auto

theorem new_port_ids_fresh_witness:
  "\<exists>ps m'. new_port_ids 2 (IdManager_new 7) = Some (ps, m') \<and>
     ps = [PortId (MkId 7 0), PortId (MkId 7 1)] \<and> length ps = 2 \<and> distinct ps"
proof -
  have "\<exists>m'. new_port_ids 2 (IdManager_new 7) = Some ([PortId (MkId 7 0), PortId (MkId 7 1)], m')"
    by (simp add: numeral_2_eq_2 new_port_id_def U32Stream_next_def IdManager_new_def u32_MAX_def)
  then show ?thesis using new_port_ids_fresh by blast
qed

end
