(* ===== verification/Eval_Store.thy ===== *)
theory Eval_Store
  imports Common_Ids
begin

text \<open>
  Values of the protocol language and the store of a component
  (\<open>src/protocol/eval/value.rs\<close> up to the value groups, and
  \<open>src/protocol/eval/store.rs\<close>). The heap is a list of regions; freed regions are kept
  in a deque and reused. An index out of range panics. Copying and dropping follow heap
  positions, which the types do not bound, so they take fuel; the theory \<open>Eval_Heap\<close> shows how
  much is enough for a value that owns a tree of regions.
\<close>

section \<open>Values\<close>

type_synonym StackPos = u32
type_synonym HeapPos = u32

datatype ValueId = Stack StackPos | Heap HeapPos u32

datatype Value =
    VUnassigned
  | VPrevStackBoundary int
  | VRef ValueId
  | VBinding StackPos
  | VInput PortId
  | VOutput PortId
  | VMessage HeapPos
  | VNull
  | VBool bool
  | VChar u32
  | VString HeapPos
  | VUInt8 u8
  | VUInt16 u16
  | VUInt32 u32
  | VUInt64 u64
  | VSInt8 u8
  | VSInt16 u16
  | VSInt32 u32
  | VSInt64 u64
  | VArray HeapPos
  | VEnum u64
  | VUnion u64 HeapPos
  | VStruct HeapPos

fun get_heap_pos :: "Value \<Rightarrow> HeapPos option" where
  "get_heap_pos (VMessage v) = Some v"
| "get_heap_pos (VString v) = Some v"
| "get_heap_pos (VArray v) = Some v"
| "get_heap_pos (VUnion _ v) = Some v"
| "get_heap_pos (VStruct v) = Some v"
| "get_heap_pos _ = None"

text \<open>The same value with its heap position replaced (\<open>unreachable!\<close> otherwise).\<close>

fun with_heap_pos :: "Value \<Rightarrow> HeapPos \<Rightarrow> Value option" where
  "with_heap_pos (VMessage _) p = Some (VMessage p)"
| "with_heap_pos (VString _) p = Some (VString p)"
| "with_heap_pos (VArray _) p = Some (VArray p)"
| "with_heap_pos (VUnion tag _) p = Some (VUnion tag p)"
| "with_heap_pos (VStruct _) p = Some (VStruct p)"
| "with_heap_pos _ p = None"

fun is_unsigned_integer :: "Value \<Rightarrow> bool" where
  "is_unsigned_integer (VUInt8 _) = True"
| "is_unsigned_integer (VUInt16 _) = True"
| "is_unsigned_integer (VUInt32 _) = True"
| "is_unsigned_integer (VUInt64 _) = True"
| "is_unsigned_integer _ = False"

fun is_signed_integer :: "Value \<Rightarrow> bool" where
  "is_signed_integer (VSInt8 _) = True"
| "is_signed_integer (VSInt16 _) = True"
| "is_signed_integer (VSInt32 _) = True"
| "is_signed_integer (VSInt64 _) = True"
| "is_signed_integer _ = False"

definition is_integer :: "Value \<Rightarrow> bool" where
  "is_integer v \<longleftrightarrow> is_unsigned_integer v \<or> is_signed_integer v"

fun as_unsigned_integer :: "Value \<Rightarrow> u64 option" where
  "as_unsigned_integer (VUInt8 v) = Some (ucast v)"
| "as_unsigned_integer (VUInt16 v) = Some (ucast v)"
| "as_unsigned_integer (VUInt32 v) = Some (ucast v)"
| "as_unsigned_integer (VUInt64 v) = Some v"
| "as_unsigned_integer _ = None"

fun as_signed_integer :: "Value \<Rightarrow> u64 option" where
  "as_signed_integer (VSInt8 v) = Some (scast v)"
| "as_signed_integer (VSInt16 v) = Some (scast v)"
| "as_signed_integer (VSInt32 v) = Some (scast v)"
| "as_signed_integer (VSInt64 v) = Some v"
| "as_signed_integer _ = None"

section \<open>The store\<close>

record Store =
  stack :: "Value list"
  cur_stack_boundary :: nat
  heap_regions :: "Value list list"
  free_regions :: "HeapPos list"

definition Store_new :: Store where
  "Store_new = \<lparr>stack = [VPrevStackBoundary (- 1)], cur_stack_boundary = 0, heap_regions = [], free_regions = []\<rparr>"

definition region :: "Store \<Rightarrow> HeapPos \<Rightarrow> (Value list, 'e) res" where
  "region st pos = vec_get (heap_regions st) (unat pos)"

definition set_region :: "HeapPos \<Rightarrow> Value list \<Rightarrow> Store \<Rightarrow> Store" where
  "set_region pos vs st = st\<lparr>heap_regions := (heap_regions st)[unat pos := vs]\<rparr>"

definition reserve_stack :: "u32 \<Rightarrow> Store \<Rightarrow> Store" where
  "reserve_stack unique_stack_idx st =
     (let new_size = cur_stack_boundary st + unat unique_stack_idx + 1 in
      if length (stack st) < new_size
      then st\<lparr>stack := stack st @ replicate (new_size - length (stack st)) VUnassigned\<rparr>
      else st)"

text \<open>A freed region is taken from the back of the deque, else a new one is made.\<close>

definition alloc_heap :: "Store \<Rightarrow> HeapPos \<times> Store" where
  "alloc_heap st =
     (case free_regions st of
        [] \<Rightarrow> (of_nat (length (heap_regions st)), st\<lparr>heap_regions := heap_regions st @ [[]]\<rparr>)
      | _ \<Rightarrow> (last (free_regions st), st\<lparr>free_regions := butlast (free_regions st)\<rparr>))"

definition read_ref :: "Store \<Rightarrow> ValueId \<Rightarrow> (Value, 'e) res" where
  "read_ref st address =
     (case address of
        Stack pos \<Rightarrow> vec_get (stack st) (cur_stack_boundary st + 1 + unat pos)
      | Heap heap_pos region_idx \<Rightarrow> bind_res (region st heap_pos) (\<lambda>vs. vec_get vs (unat region_idx)))"

definition maybe_read_ref :: "Store \<Rightarrow> Value \<Rightarrow> (Value, 'e) res" where
  "maybe_read_ref st v = (case v of VRef value_id \<Rightarrow> read_ref st value_id | _ \<Rightarrow> Ok v)"

text \<open>Overwriting the value at an address, as through \<open>read_mut_ref\<close>.\<close>

definition set_ref :: "ValueId \<Rightarrow> Value \<Rightarrow> Store \<Rightarrow> Store" where
  "set_ref address v st =
     (case address of
        Stack pos \<Rightarrow> st\<lparr>stack := (stack st)[cur_stack_boundary st + 1 + unat pos := v]\<rparr>
      | Heap heap_pos region_idx \<Rightarrow>
          set_region heap_pos ((heap_regions st ! unat heap_pos)[unat region_idx := v]) st)"

text \<open>
  \<open>drop_heap_pos\<close> reads the region anew in each iteration, by index; dropping a nested
  value can only change other regions on a heap without cycles, but the model follows the
  code on every heap.
\<close>

fun drop_heap_pos :: "nat \<Rightarrow> HeapPos \<Rightarrow> Store \<Rightarrow> (Store, 'e) res"
and drop_values :: "nat \<Rightarrow> HeapPos \<Rightarrow> nat list \<Rightarrow> Store \<Rightarrow> (Store, 'e) res" where
  "drop_heap_pos 0 heap_pos st = OutOfFuel"
| "drop_heap_pos (Suc fuel) heap_pos st =
     bind_res (region st heap_pos) (\<lambda>vs.
     bind_res (drop_values fuel heap_pos [0 ..< length vs] st) (\<lambda>st'.
     bind_res (region st' heap_pos) (\<lambda>_.
     Ok ((set_region heap_pos [] st')\<lparr>free_regions := free_regions st' @ [heap_pos]\<rparr>))))"
| "drop_values fuel heap_pos [] st = Ok st"
| "drop_values fuel heap_pos (value_idx # idxs) st =
     bind_res (region st heap_pos) (\<lambda>vs.
     bind_res (vec_get vs value_idx) (\<lambda>v.
     bind_res (case get_heap_pos v of
                 Some other_heap_pos \<Rightarrow> (case fuel of 0 \<Rightarrow> OutOfFuel | Suc f \<Rightarrow> drop_heap_pos f other_heap_pos st)
               | None \<Rightarrow> Ok st) (\<lambda>st'.
     drop_values fuel heap_pos idxs st')))"

definition drop_value :: "nat \<Rightarrow> HeapPos option \<Rightarrow> Store \<Rightarrow> (Store, 'e) res" where
  "drop_value fuel p st = (case p of Some heap_pos \<Rightarrow> drop_heap_pos fuel heap_pos st | None \<Rightarrow> Ok st)"

fun clone_value :: "nat \<Rightarrow> Value \<Rightarrow> Store \<Rightarrow> (Value \<times> Store, 'e) res"
and clone_values :: "nat \<Rightarrow> HeapPos \<Rightarrow> HeapPos \<Rightarrow> nat list \<Rightarrow> Store \<Rightarrow> (Store, 'e) res" where
  "clone_value 0 v st = OutOfFuel"
| "clone_value (Suc fuel) v st =
     (case get_heap_pos v of
        None \<Rightarrow>
          (case v of
             VRef address \<Rightarrow> bind_res (read_ref st address) (\<lambda>w. clone_value fuel w st)
           | _ \<Rightarrow> Ok (v, st))
      | Some source_heap_pos \<Rightarrow>
          (let (target_heap_pos, st1) = alloc_heap st in
           bind_res (region st1 source_heap_pos) (\<lambda>vs.
           bind_res (clone_values fuel source_heap_pos target_heap_pos [0 ..< length vs] st1) (\<lambda>st2.
           bind_res (unwrap (with_heap_pos v target_heap_pos)) (\<lambda>v'.
           Ok (v', st2))))))"
| "clone_values fuel src tgt [] st = Ok st"
| "clone_values fuel src tgt (value_idx # idxs) st =
     bind_res (region st src) (\<lambda>vs.
     bind_res (vec_get vs value_idx) (\<lambda>v.
     bind_res (case fuel of 0 \<Rightarrow> OutOfFuel | Suc f \<Rightarrow> clone_value f v st) (\<lambda>(cloned, st1).
     bind_res (region st1 tgt) (\<lambda>ws.
     clone_values fuel src tgt idxs (set_region tgt (ws @ [cloned]) st1)))))"

definition read_copy :: "nat \<Rightarrow> ValueId \<Rightarrow> Store \<Rightarrow> (Value \<times> Store, 'e) res" where
  "read_copy fuel address st = bind_res (read_ref st address) (\<lambda>v. clone_value fuel v st)"

definition read_take_ownership :: "nat \<Rightarrow> Value \<Rightarrow> Store \<Rightarrow> (Value \<times> Store, 'e) res" where
  "read_take_ownership fuel v st =
     (case v of
        VRef address \<Rightarrow> bind_res (read_ref st address) (\<lambda>w. clone_value fuel w st)
      | _ \<Rightarrow> Ok (v, st))"

text \<open>The value that is overwritten is dropped first.\<close>

definition store_write :: "nat \<Rightarrow> ValueId \<Rightarrow> Value \<Rightarrow> Store \<Rightarrow> (Store, 'e) res" where
  "store_write fuel address v st =
     bind_res (read_ref st address) (\<lambda>old.
     bind_res (drop_value fuel (get_heap_pos old) st) (\<lambda>st'.
     bind_res (read_ref st' address) (\<lambda>_.
     Ok (set_ref address v st'))))"

fun clear_stack_loop :: "nat \<Rightarrow> nat list \<Rightarrow> Store \<Rightarrow> (Store, 'e) res" where
  "clear_stack_loop fuel [] st = Ok st"
| "clear_stack_loop fuel (idx # idxs) st =
     bind_res (vec_get (stack st) idx) (\<lambda>v.
     bind_res (drop_value fuel (get_heap_pos v) st) (\<lambda>st'.
     clear_stack_loop fuel idxs (st'\<lparr>stack := (stack st')[idx := VUnassigned]\<rparr>)))"

definition clear_stack :: "nat \<Rightarrow> nat \<Rightarrow> Store \<Rightarrow> (Store, 'e) res" where
  "clear_stack fuel unique_stack_idx st =
     clear_stack_loop fuel [cur_stack_boundary st + unique_stack_idx + 1 ..< length (stack st)] st"

end
