(* ===== verification/Eval_Heap.thy ===== *)
theory Eval_Heap
  imports Eval_Store
begin

text \<open>
  Ownership in the simulated heap of \<open>src/protocol/eval/store.rs\<close>. A value owns the region
  of its heap position and what the values in that region own. \<open>owned\<close> says which tree a
  value stands for and which regions it owns, in the order in which \<open>drop_heap_pos\<close> frees
  them. Copying yields the same tree in regions that nothing else owns, and dropping frees
  the owned regions and no others. The tree also bounds the fuel of both.
\<close>

section \<open>Live regions\<close>

definition live :: "Store \<Rightarrow> HeapPos \<Rightarrow> bool" where
  "live st p \<longleftrightarrow> unat p < length (heap_regions st) \<and> p \<notin> set (free_regions st)"

definition store_wf :: "Store \<Rightarrow> bool" where
  "store_wf st \<longleftrightarrow> length (heap_regions st) \<le> 2 ^ 32 \<and> distinct (free_regions st) \<and>
     (\<forall>p \<in> set (free_regions st). unat p < length (heap_regions st) \<and> heap_regions st ! unat p = [])"

definition same_region :: "Store \<Rightarrow> Store \<Rightarrow> HeapPos \<Rightarrow> bool" where
  "same_region st st' p \<longleftrightarrow> live st' p \<and> heap_regions st' ! unat p = heap_regions st ! unat p"

text \<open>Nothing that is live is lost, and only the regions of \<open>T\<close> may have changed.\<close>

definition extends_but :: "HeapPos set \<Rightarrow> Store \<Rightarrow> Store \<Rightarrow> bool" where
  "extends_but T st st' \<longleftrightarrow> stack st' = stack st \<and> cur_stack_boundary st' = cur_stack_boundary st \<and>
     (\<forall>p. live st p \<longrightarrow> live st' p \<and> (p \<notin> T \<longrightarrow> heap_regions st' ! unat p = heap_regions st ! unat p))"

abbreviation extends :: "Store \<Rightarrow> Store \<Rightarrow> bool" where
  "extends \<equiv> extends_but {}"

lemma extends_refl [simp]: "extends_but T st st"
  by (simp add: extends_but_def)

lemma extends_trans: "extends_but T st st' \<Longrightarrow> extends_but T st' st'' \<Longrightarrow> extends_but T st st''"
  by (auto simp: extends_but_def)

lemma extends_mono: "extends_but T st st' \<Longrightarrow> T \<subseteq> T' \<Longrightarrow> extends_but T' st st'"
  by (auto simp: extends_but_def)

lemma unat_eq: "unat p = unat q \<longleftrightarrow> p = q"
  by (simp add: word_unat_eq_iff)

lemma region_live: "live st p \<Longrightarrow> region st p = Ok (heap_regions st ! unat p)"
  by (simp add: region_def vec_get_def live_def)

lemma store_wf_new: "store_wf Store_new"
  by (simp add: store_wf_def Store_new_def)

lemma set_region_fields [simp]:
  "stack (set_region p vs st) = stack st" "cur_stack_boundary (set_region p vs st) = cur_stack_boundary st"
  "free_regions (set_region p vs st) = free_regions st" "length (heap_regions (set_region p vs st)) = length (heap_regions st)"
  by (simp_all add: set_region_def)

lemma live_set_region [simp]: "live (set_region p vs st) q \<longleftrightarrow> live st q"
  by (simp add: live_def)

lemma set_region_nth: "live st q \<Longrightarrow> heap_regions (set_region p vs st) ! unat q = (if q = p then vs else heap_regions st ! unat q)"
  by (auto simp: set_region_def live_def nth_list_update unat_eq)

lemma store_wf_set_region: "store_wf st \<Longrightarrow> live st p \<Longrightarrow> store_wf (set_region p vs st)"
  by (auto simp: store_wf_def set_region_def live_def nth_list_update unat_eq)

lemma extends_set_region: "extends_but {p} st (set_region p vs st)"
  by (auto simp: extends_but_def set_region_nth)

lemma extends_set_fresh: "extends st st' \<Longrightarrow> \<not> live st p \<Longrightarrow> extends st (set_region p vs st')"
  by (auto simp: extends_but_def set_region_nth)

lemma alloc_heap_last: "free_regions st = ps @ [q] \<Longrightarrow> alloc_heap st = (q, st\<lparr>free_regions := ps\<rparr>)"
  by (cases ps) (simp_all add: alloc_heap_def)

text \<open>An allocated region is empty and was not live.\<close>

lemma alloc_heap_fresh:
  assumes wf: "store_wf st" and room: "length (heap_regions st) < 2 ^ 32" and "alloc_heap st = (p, st')"
  shows "\<not> live st p" "live st' p" "heap_regions st' ! unat p = []" "extends st st'" "store_wf st'"
    "length (heap_regions st') \<le> Suc (length (heap_regions st))" "live st' q \<longleftrightarrow> live st q \<or> q = p"
proof -
  have "\<not> live st p \<and> live st' p \<and> heap_regions st' ! unat p = [] \<and> extends st st' \<and> store_wf st' \<and>
    length (heap_regions st') \<le> Suc (length (heap_regions st)) \<and> (live st' q \<longleftrightarrow> live st q \<or> q = p)"
  proof (cases "free_regions st" rule: rev_cases)
    case Nil
    have p: "p = of_nat (length (heap_regions st))" "st' = st\<lparr>heap_regions := heap_regions st @ [[]]\<rparr>"
      using assms(3) Nil by (simp_all add: alloc_heap_def)
    have "unat p = length (heap_regions st)" using p room by (simp add: unat_of_nat)
    with p Nil room show ?thesis by (auto simp: live_def extends_but_def store_wf_def nth_append less_Suc_eq simp flip: unat_eq)
  next
    case (snoc ps q)
    then have p: "p = q" "st' = st\<lparr>free_regions := ps\<rparr>"
      using assms(3) by (simp_all add: alloc_heap_last)
    with snoc wf show ?thesis by (auto simp: live_def extends_but_def store_wf_def)
  qed
  then show "\<not> live st p" "live st' p" "heap_regions st' ! unat p = []" "extends st st'" "store_wf st'"
    "length (heap_regions st') \<le> Suc (length (heap_regions st))" "live st' q \<longleftrightarrow> live st q \<or> q = p" by simp_all
qed

section \<open>Ownership\<close>

text \<open>
  The tree a value stands for: a leaf holds a value without a heap position, a node the
  kind of the value (with heap position 0) and the trees of its elements.
\<close>

datatype vtree = Leaf Value | Node Value "vtree list"

fun depth :: "vtree \<Rightarrow> nat" where
  "depth (Leaf v) = 1"
| "depth (Node k ts) = 2 + fold max (map depth ts) 0"

fun nodes :: "vtree \<Rightarrow> nat" where
  "nodes (Leaf v) = 0"
| "nodes (Node k ts) = Suc (sum_list (map nodes ts))"

inductive owned :: "Store \<Rightarrow> Value \<Rightarrow> vtree \<Rightarrow> HeapPos list \<Rightarrow> bool"
  and owned_all :: "Store \<Rightarrow> Value list \<Rightarrow> vtree list \<Rightarrow> HeapPos list \<Rightarrow> bool"
  for st where
  leaf: "get_heap_pos v = None \<Longrightarrow> \<forall>a. v \<noteq> VRef a \<Longrightarrow> owned st v (Leaf v) []"
| node: "get_heap_pos v = Some p \<Longrightarrow> with_heap_pos v 0 = Some k \<Longrightarrow> live st p \<Longrightarrow>
    owned_all st (heap_regions st ! unat p) ts F \<Longrightarrow> owned st v (Node k ts) (F @ [p])"
| owned_nil: "owned_all st [] [] []"
| owned_cons: "owned st v t F \<Longrightarrow> owned_all st vs ts G \<Longrightarrow> owned_all st (v # vs) (t # ts) (F @ G)"

inductive_simps owned_all_simps: "owned_all st [] ts G" "owned_all st (v # vs) ts G"
inductive_cases owned_leafE: "owned st v (Leaf w) F"
inductive_cases owned_nodeE: "owned st v (Node k ts) F"

text \<open>A reference denotes the value at its address, any other value itself.\<close>

definition denotes :: "Store \<Rightarrow> Value \<Rightarrow> vtree \<Rightarrow> HeapPos list \<Rightarrow> bool" where
  "denotes st v t F \<longleftrightarrow> (\<exists>w. maybe_read_ref st v = (Ok w :: (Value, unit) res) \<and> owned st w t F)"

lemma owned_live: "owned st v t F \<Longrightarrow> p \<in> set F \<Longrightarrow> live st p"
  and owned_all_live: "owned_all st vs ts F \<Longrightarrow> p \<in> set F \<Longrightarrow> live st p"
  by (induction rule: owned_owned_all.inducts) auto

lemma owned_frame: "owned st v t F \<Longrightarrow> \<forall>p \<in> set F. same_region st st' p \<Longrightarrow> owned st' v t F"
  and owned_all_frame: "owned_all st vs ts F \<Longrightarrow> \<forall>p \<in> set F. same_region st st' p \<Longrightarrow> owned_all st' vs ts F"
proof (induction rule: owned_owned_all.inducts)
  case (node v p k ts F)
  then show ?case by (intro owned_owned_all.node) (auto simp: same_region_def)
qed (auto intro: owned_owned_all.intros)

lemma owned_extends: "owned st v t F \<Longrightarrow> extends_but T st st' \<Longrightarrow> set F \<inter> T = {} \<Longrightarrow> owned st' v t F"
  by (rule owned_frame, assumption) (auto simp: same_region_def extends_but_def dest!: owned_live)

lemma owned_all_extends: "owned_all st vs ts F \<Longrightarrow> extends_but T st st' \<Longrightarrow> set F \<inter> T = {} \<Longrightarrow> owned_all st' vs ts F"
  by (rule owned_all_frame, assumption) (auto simp: same_region_def extends_but_def dest!: owned_all_live)

lemma owned_not_ref: "owned st v t F \<Longrightarrow> v \<noteq> VRef a"
  by (cases rule: owned.cases) auto

lemma owned_maybe_read_ref: "owned st v t F \<Longrightarrow> maybe_read_ref st v = Ok v"
  by (auto simp: maybe_read_ref_def dest: owned_not_ref split: Value.splits)

lemma owned_denotes: "owned st v t F \<Longrightarrow> denotes st v t F"
  by (auto simp: denotes_def owned_maybe_read_ref)

lemma owned_det: "owned st v t F \<Longrightarrow> owned st v u G \<Longrightarrow> t = u \<and> F = G"
  and owned_all_det: "owned_all st vs ts F \<Longrightarrow> owned_all st vs us G \<Longrightarrow> ts = us \<and> F = G"
proof (induction arbitrary: u G and us G rule: owned_owned_all.inducts)
  case (leaf v)
  from leaf.prems leaf.hyps show ?case by (cases rule: owned.cases) auto
next
  case (node v p k ts F)
  note nd = node
  from node.prems show ?case
  proof (cases rule: owned.cases)
    case (node p' k' ts' F')
    with nd(1,2) have "p' = p" "k' = k" by auto
    with node nd(5) show ?thesis by blast
  qed (use nd(1) in simp_all)
next
  case owned_nil
  then show ?case by (simp add: owned_all_simps)
next
  case (owned_cons v t F vs ts G)
  from owned_cons.prems show ?case
    by (auto simp: owned_all_simps dest!: owned_cons(2,4))
qed

lemma owned_all_length: "owned_all st vs ts F \<Longrightarrow> length ts = length vs"
  by (induction vs arbitrary: ts F) (auto simp: owned_all_simps)

lemma owned_all_append:
  "owned_all st vs ts F \<Longrightarrow> owned_all st ws us G \<Longrightarrow> owned_all st (vs @ ws) (ts @ us) (F @ G)"
proof (induction vs arbitrary: ts F)
  case (Cons v vs)
  from Cons.prems obtain t ts' F' G' where "ts = t # ts'" "F = F' @ G'" "owned st v t F'" "owned_all st vs ts' G'"
    by (auto simp: owned_all_simps)
  then show ?case using Cons.IH [of ts' G'] Cons.prems(2) by (auto intro: owned_cons)
qed (auto simp: owned_all_simps)

lemma fold_max_Cons: "fold max (x # xs) (0 :: nat) = max x (fold max xs 0)"
proof -
  have "fold max xs a = max a (fold max xs 0)" for a :: nat
  proof (induction xs arbitrary: a)
    case (Cons x xs)
    from Cons [of "max x a"] Cons [of x] show ?case by simp
  qed simp
  from this [of x] show ?thesis by simp
qed

lemma Cons_eq_drop:
  assumes "v # vs = drop k xs" shows "k < length xs" "xs ! k = v" "vs = drop (Suc k) xs"
proof -
  show k: "k < length xs" using assms by (cases "k < length xs") simp_all
  from Cons_nth_drop_Suc [OF this] assms show "xs ! k = v" "vs = drop (Suc k) xs" by (metis list.inject)+
qed

section \<open>Copying\<close>

text \<open>
  What a copy yields: a value with the same tree, whose regions were not live before; and
  what was live before is unchanged.
\<close>

definition copied :: "Store \<Rightarrow> vtree \<Rightarrow> Value \<Rightarrow> Store \<Rightarrow> bool" where
  "copied st t v' st' \<longleftrightarrow> extends st st' \<and> store_wf st' \<and>
     (\<exists>F'. owned st' v' t F' \<and> distinct F' \<and> (\<forall>p \<in> set F'. \<not> live st p) \<and> (\<forall>p. live st' p \<longleftrightarrow> live st p \<or> p \<in> set F')) \<and>
     length (heap_regions st') \<le> length (heap_regions st) + nodes t"

definition copied_all :: "HeapPos \<Rightarrow> Store \<Rightarrow> vtree list \<Rightarrow> Value list \<Rightarrow> Store \<Rightarrow> bool" where
  "copied_all tgt st ts vs' st' \<longleftrightarrow> extends_but {tgt} st st' \<and> store_wf st' \<and> live st' tgt \<and>
     heap_regions st' ! unat tgt = heap_regions st ! unat tgt @ vs' \<and>
     (\<exists>F'. owned_all st' vs' ts F' \<and> distinct F' \<and> (\<forall>p \<in> set F'. \<not> live st p) \<and> (\<forall>p. live st' p \<longleftrightarrow> live st p \<or> p \<in> set F')) \<and>
     length (heap_regions st') \<le> length (heap_regions st) + sum_list (map nodes ts)"

lemma copied_all_nil: "store_wf st \<Longrightarrow> live st tgt \<Longrightarrow> copied_all tgt st [] [] st"
  by (simp add: copied_all_def owned_all_simps)

lemma copied_all_cons:
  assumes c: "copied st t c st2" and tgt: "live st tgt"
    and cs: "copied_all tgt (set_region tgt (heap_regions st2 ! unat tgt @ [c]) st2) ts cs st'"
  shows "copied_all tgt st (t # ts) (c # cs) st'"
proof -
  let ?st3 = "set_region tgt (heap_regions st2 ! unat tgt @ [c]) st2"
  have tgt2: "live st2 tgt" "heap_regions st2 ! unat tgt = heap_regions st ! unat tgt"
    using c tgt by (auto simp: copied_def extends_but_def)
  from c obtain F where F: "owned st2 c t F" "distinct F" "\<forall>p \<in> set F. \<not> live st p" "\<forall>p. live st2 p \<longleftrightarrow> live st p \<or> p \<in> set F"
    by (auto simp: copied_def)
  from cs obtain G where G: "owned_all st' cs ts G" "distinct G" "\<forall>p \<in> set G. \<not> live st2 p"
      "\<forall>p. live st' p \<longleftrightarrow> live st2 p \<or> p \<in> set G"
    by (auto simp: copied_all_def)
  have ext: "extends_but {tgt} st st2" "extends_but {tgt} st2 ?st3" "extends_but {tgt} ?st3 st'"
    using c cs extends_set_region by (auto simp: copied_def copied_all_def intro: extends_mono)
  have "set F \<inter> {tgt} = {}" using F(3) tgt by auto
  then have "owned st' c t F" using F(1) ext by (blast intro: owned_extends)
  then have "owned_all st' (c # cs) (t # ts) (F @ G)" using G(1) by (rule owned_cons)
  moreover have "distinct (F @ G)" using F(2) G(2,3) owned_live [OF F(1)] by auto
  moreover have "\<forall>p \<in> set (F @ G). \<not> live st p" using F(3) G(3) ext(1) by (auto simp: extends_but_def)
  moreover have "\<forall>p. live st' p \<longleftrightarrow> live st p \<or> p \<in> set (F @ G)" using F(4) G(4) by auto
  moreover have "heap_regions st' ! unat tgt = heap_regions st ! unat tgt @ c # cs"
    using cs tgt2 by (simp add: copied_all_def set_region_nth)
  moreover have "extends_but {tgt} st st'" using ext by (blast intro: extends_trans)
  ultimately show ?thesis using c cs unfolding copied_all_def copied_def by (intro conjI exI [of _ "F @ G"]) auto
qed

lemma copied_node:
  assumes "copied_all tgt st2 ts vs' st'"
    and fresh: "\<not> live st1 tgt" "live st2 tgt" "heap_regions st2 ! unat tgt = []" "extends st1 st2" "store_wf st2"
      "length (heap_regions st2) \<le> Suc (length (heap_regions st1))" "\<And>q. live st2 q \<longleftrightarrow> live st1 q \<or> q = tgt"
    and v': "get_heap_pos v' = Some tgt" "with_heap_pos v' 0 = Some k"
  shows "copied st1 (Node k ts) v' st'"
proof -
  from assms(1) obtain G where G: "owned_all st' vs' ts G" "distinct G" "\<forall>q \<in> set G. \<not> live st2 q"
      "\<forall>q. live st' q \<longleftrightarrow> live st2 q \<or> q \<in> set G"
    and st': "extends_but {tgt} st2 st'" "store_wf st'" "live st' tgt" "heap_regions st' ! unat tgt = vs'"
      "length (heap_regions st') \<le> length (heap_regions st2) + sum_list (map nodes ts)"
    by (auto simp: copied_all_def fresh(3))
  have "owned st' v' (Node k ts) (G @ [tgt])"
    using v' st' G by (auto intro: owned_owned_all.node)
  moreover have "distinct (G @ [tgt])" using G fresh(2) by auto
  moreover have "\<forall>q \<in> set (G @ [tgt]). \<not> live st1 q"
    using G(3) fresh(1,4) by (auto simp: extends_but_def)
  moreover have "extends st1 st'" using fresh(1,4) st'(1) by (auto simp: extends_but_def)
  moreover have "\<forall>q. live st' q \<longleftrightarrow> live st1 q \<or> q \<in> set (G @ [tgt])" using G(4) fresh(7) by auto
  ultimately show ?thesis using st' fresh(6) unfolding copied_def by (intro conjI exI [of _ "G @ [tgt]"]) auto
qed

lemma clone_owned:
  "owned st v t F \<Longrightarrow> extends st st1 \<Longrightarrow> store_wf st1 \<Longrightarrow> length (heap_regions st1) + nodes t \<le> 2 ^ 32 \<Longrightarrow>
     \<exists>v' st'. (\<forall>fuel \<ge> depth t. clone_value fuel v st1 = (Ok (v', st') :: (Value \<times> Store, 'e) res)) \<and> copied st1 t v' st'"
  and clone_owned_all:
  "owned_all st vs ts F \<Longrightarrow> extends st st1 \<Longrightarrow> store_wf st1 \<Longrightarrow> length (heap_regions st1) + sum_list (map nodes ts) \<le> 2 ^ 32 \<Longrightarrow>
     live st src \<Longrightarrow> \<not> live st tgt \<Longrightarrow> live st1 tgt \<Longrightarrow> vs = drop k (heap_regions st ! unat src) \<Longrightarrow>
     \<exists>vs' st'. (\<forall>fuel > fold max (map depth ts) 0. clone_values fuel src tgt [k ..< length (heap_regions st ! unat src)] st1 = (Ok st' :: (Store, 'e) res)) \<and>
       copied_all tgt st1 ts vs' st'"
proof (induction arbitrary: st1 and st1 src tgt k rule: owned_owned_all.inducts)
  case (leaf v)
  have "clone_value fuel v st1 = (Ok (v, st1) :: (Value \<times> Store, 'e) res)" if "fuel \<ge> 1" for fuel
    using that leaf.hyps by (cases fuel) (auto split: Value.splits)
  moreover have "copied st1 (Leaf v) v st1"
    using leaf owned_owned_all.leaf [of v st1] by (auto simp: copied_def)
  ultimately show ?case by auto
next
  case (node v p k ts F)
  obtain tgt st2 where alloc: "alloc_heap st1 = (tgt, st2)" by fastforce
  have room: "length (heap_regions st1) < 2 ^ 32" using node.prems(3) by simp
  note fresh = alloc_heap_fresh [OF node.prems(2) room alloc]
  have ext2: "extends st st2" using node.prems(1) fresh(4) by (rule extends_trans)
  have src: "live st2 p" "heap_regions st2 ! unat p = heap_regions st ! unat p"
    using ext2 node(3) by (auto simp: extends_but_def)
  have "\<not> live st tgt" using fresh(1) node.prems(1) by (auto simp: extends_but_def)
  moreover have "length (heap_regions st2) + sum_list (map nodes ts) \<le> 2 ^ 32"
    using node.prems(3) fresh(6) by simp
  ultimately obtain vs' st' where cl: "\<forall>fuel > fold max (map depth ts) 0.
      clone_values fuel p tgt [0 ..< length (heap_regions st ! unat p)] st2 = (Ok st' :: (Store, 'e) res)" "copied_all tgt st2 ts vs' st'"
    using node(5) [OF ext2 fresh(5) _ node(3) _ fresh(2), of 0, unfolded drop_0, OF _ _ refl] by blast
  obtain v' where v': "with_heap_pos v tgt = Some v'" "get_heap_pos v' = Some tgt" "with_heap_pos v' 0 = Some k"
    using node.hyps(1,2) by (cases v) auto
  have "clone_value fuel v st1 = (Ok (v', st') :: (Value \<times> Store, 'e) res)" if "fuel \<ge> depth (Node k ts)" for fuel
  proof -
    from that obtain f where "fuel = Suc f" "f > fold max (map depth ts) 0" by (cases fuel) auto
    with cl(1) node.hyps(1) alloc v'(1) src show ?thesis by (simp add: region_live)
  qed
  moreover have "copied st1 (Node k ts) v' st'" by (rule copied_node [OF cl(2) fresh v'(2,3)])
  ultimately show ?case by blast
next
  case owned_nil
  then show ?case by (auto intro!: exI [of _ "[]"] exI [of _ st1] copied_all_nil)
next
  case (owned_cons v t F vs ts G)
  have k: "k < length (heap_regions st ! unat src)" "heap_regions st ! unat src ! k = v"
    "vs = drop (Suc k) (heap_regions st ! unat src)"
    using Cons_eq_drop [OF owned_cons.prems(7)] by simp_all
  obtain c st2 where c: "\<forall>fuel \<ge> depth t. clone_value fuel v st1 = (Ok (c, st2) :: (Value \<times> Store, 'e) res)" "copied st1 t c st2"
    using owned_cons(2) [OF owned_cons.prems(1,2)] owned_cons.prems(3) by auto
  let ?st3 = "set_region tgt (heap_regions st2 ! unat tgt @ [c]) st2"
  have tgt: "live st2 tgt" using c(2) owned_cons.prems(6) by (auto simp: copied_def extends_but_def)
  have ext: "extends st ?st3"
    using c(2) owned_cons.prems(1,5) by (auto simp: copied_def intro: extends_set_fresh extends_trans)
  have src: "live st1 src" "heap_regions st1 ! unat src = heap_regions st ! unat src"
    using owned_cons.prems(1,4) by (auto simp: extends_but_def)
  have "store_wf ?st3" using c(2) tgt by (auto simp: copied_def intro: store_wf_set_region)
  moreover have "length (heap_regions ?st3) + sum_list (map nodes ts) \<le> 2 ^ 32"
    using c(2) owned_cons.prems(3) by (simp add: copied_def)
  ultimately obtain cs st' where cs: "\<forall>fuel > fold max (map depth ts) 0.
      clone_values fuel src tgt [Suc k ..< length (heap_regions st ! unat src)] ?st3 = (Ok st' :: (Store, 'e) res)" "copied_all tgt ?st3 ts cs st'"
    using owned_cons(4) [OF ext _ _ owned_cons.prems(4,5) _ k(3)] tgt by (metis live_set_region)
  have "clone_values fuel src tgt [k ..< length (heap_regions st ! unat src)] st1 = (Ok st' :: (Store, 'e) res)"
    if "fuel > fold max (map depth (t # ts)) 0" for fuel
  proof -
    have "depth t < fuel" "fold max (map depth ts) 0 < fuel" using that fold_max_Cons [of "depth t" "map depth ts"] by auto
    then obtain f where f: "fuel = Suc f" "depth t \<le> f" by (cases fuel) auto
    with \<open>fold max (map depth ts) 0 < fuel\<close> cs(1) c(1) k src tgt show ?thesis
      by (simp add: upt_rec [of k] region_live vec_get_def)
  qed
  moreover have "copied_all tgt st1 (t # ts) (c # cs) st'"
    by (rule copied_all_cons [OF c(2) owned_cons.prems(6) cs(2)])
  ultimately show ?case by blast
qed

section \<open>Dropping\<close>

definition released :: "HeapPos list \<Rightarrow> Store \<Rightarrow> Store" where
  "released F st = st\<lparr>heap_regions := fold (\<lambda>p r. r[unat p := []]) F (heap_regions st), free_regions := free_regions st @ F\<rparr>"

lemma released_Nil [simp]: "released [] st = st"
  by (simp add: released_def)

lemma released_append: "released (F @ G) st = released G (released F st)"
  by (simp add: released_def)

lemma released_single: "released [p] st = (set_region p [] st)\<lparr>free_regions := free_regions st @ [p]\<rparr>"
  by (simp add: released_def set_region_def)

lemma length_cleared: "length (fold (\<lambda>p r. r[unat p := []]) F rs) = length rs"
  by (induction F arbitrary: rs) auto

lemma nth_cleared:
  "unat q < length rs \<Longrightarrow> fold (\<lambda>p r. r[unat p := []]) F rs ! unat q = (if q \<in> set F then [] else rs ! unat q)"
  by (induction F arbitrary: rs) (auto simp: nth_list_update unat_eq)

lemma live_released [simp]: "live (released F st) p \<longleftrightarrow> live st p \<and> p \<notin> set F"
  by (auto simp: live_def released_def length_cleared)

lemma released_nth: "live st p \<Longrightarrow> heap_regions (released F st) ! unat p = (if p \<in> set F then [] else heap_regions st ! unat p)"
  by (simp add: released_def nth_cleared live_def)

lemma released_fields [simp]:
  "stack (released F st) = stack st" "cur_stack_boundary (released F st) = cur_stack_boundary st"
  "free_regions (released F st) = free_regions st @ F" "length (heap_regions (released F st)) = length (heap_regions st)"
  by (simp_all add: released_def length_cleared)

lemma store_wf_released: "store_wf st \<Longrightarrow> distinct F \<Longrightarrow> \<forall>p \<in> set F. live st p \<Longrightarrow> store_wf (released F st)"
  by (auto simp: store_wf_def live_def released_def length_cleared nth_cleared)

lemma same_region_released: "same_region st st1 p \<Longrightarrow> p \<notin> set F \<Longrightarrow> same_region st (released F st1) p"
  by (simp add: same_region_def released_nth)

lemma drop_owned_gen:
  "owned st v t F \<Longrightarrow> \<forall>p \<in> set F. same_region st st1 p \<Longrightarrow> distinct F \<Longrightarrow> depth t \<le> fuel \<Longrightarrow>
     (case get_heap_pos v of None \<Rightarrow> F = [] | Some p \<Rightarrow> drop_heap_pos fuel p st1 = (Ok (released F st1) :: (Store, 'e) res))"
  and drop_owned_all:
  "owned_all st vs ts F \<Longrightarrow> \<forall>p \<in> set F. same_region st st1 p \<Longrightarrow> distinct F \<Longrightarrow> src \<notin> set F \<Longrightarrow> same_region st st1 src \<Longrightarrow>
     vs = drop k (heap_regions st ! unat src) \<Longrightarrow> fold max (map depth ts) 0 < fuel \<Longrightarrow>
     drop_values fuel src [k ..< length (heap_regions st ! unat src)] st1 = (Ok (released F st1) :: (Store, 'e) res)"
proof (induction arbitrary: st1 fuel and st1 src k fuel rule: owned_owned_all.inducts)
  case (leaf v)
  then show ?case by simp
next
  case (node v p k ts F)
  from node.prems(3) obtain f where f: "fuel = Suc f" "fold max (map depth ts) 0 < f" by (cases fuel) auto
  have p: "same_region st st1 p" "p \<notin> set F" "distinct F" using node.prems(1,2) by auto
  have "drop_values f p [0 ..< length (heap_regions st ! unat p)] st1 = (Ok (released F st1) :: (Store, 'e) res)"
    using node(5) [of st1 p 0 f] node.prems(1) p f(2) by simp
  with f(1) node(1) p show ?case
    by (simp add: region_live same_region_def released_append released_single)
next
  case owned_nil
  then show ?case by simp
next
  case (owned_cons v t F vs ts G)
  have k: "k < length (heap_regions st ! unat src)" "heap_regions st ! unat src ! k = v"
    "vs = drop (Suc k) (heap_regions st ! unat src)"
    using Cons_eq_drop [OF owned_cons.prems(5)] by simp_all
  obtain f where f: "fuel = Suc f" "depth t \<le> f" "fold max (map depth ts) 0 < fuel"
    using owned_cons.prems(6) fold_max_Cons [of "depth t" "map depth ts"] by (cases fuel) auto
  have "drop_values fuel src [Suc k ..< length (heap_regions st ! unat src)] (released F st1) =
      (Ok (released G (released F st1)) :: (Store, 'e) res)"
    using owned_cons(4) [of "released F st1" src "Suc k" fuel] owned_cons.prems(1-4) k f(3) same_region_released
    by fastforce
  moreover have "(case get_heap_pos v of None \<Rightarrow> F = [] | Some p \<Rightarrow> drop_heap_pos f p st1 = (Ok (released F st1) :: (Store, 'e) res))"
    using owned_cons(2) [of st1 f] owned_cons.prems(1,2) f(2) by simp
  moreover have "region st1 src = (Ok (heap_regions st ! unat src) :: (Value list, 'e) res)"
    using owned_cons.prems(4) by (simp add: same_region_def region_live)
  ultimately show ?case
    using k(1,2) f(1) by (simp add: upt_rec [of k] vec_get_def released_append split: option.splits)
qed

lemma drop_owned:
  assumes "owned st v t F" "distinct F" "depth t \<le> fuel"
  shows "drop_value fuel (get_heap_pos v) st = Ok (released F st)"
  using drop_owned_gen [OF assms(1) _ assms(2,3), of st] owned_live [OF assms(1)]
  by (auto simp: same_region_def drop_value_def split: option.splits)

section \<open>Properties\<close>

lemma denotes_read: "denotes st v t F \<Longrightarrow> \<exists>w. maybe_read_ref st v = (Ok w :: (Value, 'e) res) \<and> owned st w t F"
  by (auto simp: denotes_def maybe_read_ref_def read_ref_def region_def vec_get_def split: Value.splits ValueId.splits if_splits)

lemma clone_denoted:
  assumes "store_wf st" "denotes st v t F" "length (heap_regions st) + nodes t \<le> 2 ^ 32" "depth t < fuel"
  obtains v' st' where "clone_value fuel v st = (Ok (v', st') :: (Value \<times> Store, 'e) res)" "copied st t v' st'"
proof -
  from assms(2) obtain w where w: "maybe_read_ref st v = (Ok w :: (Value, unit) res)" "owned st w t F" by (auto simp: denotes_def)
  obtain v' st' where c: "\<forall>fuel \<ge> depth t. clone_value fuel w st = (Ok (v', st') :: (Value \<times> Store, 'e) res)" "copied st t v' st'"
    using clone_owned [OF w(2) extends_refl assms(1,3)] by blast
  show thesis
  proof (cases "\<exists>a. v = VRef a")
    case True
    then obtain a where a: "v = VRef a" ..
    obtain f where f: "fuel = Suc f" "depth t \<le> f" using assms(4) by (cases fuel) auto
    have "read_ref st a = (Ok w :: (Value, 'e) res)"
      using w(1) a by (auto simp: maybe_read_ref_def read_ref_def region_def vec_get_def split: ValueId.splits if_splits)
    with a f c show thesis by (intro that [of v' st']) simp_all
  next
    case False
    with w(1) have "w = v" by (auto simp: maybe_read_ref_def split: Value.splits)
    with c assms(4) show thesis by (intro that [of v' st']) auto
  qed
qed

text \<open>
  C25: copying a value is exact and total. The copy stands for the same tree, it owns regions
  of its own that were not in use, everything else is as before, and dropping the copy frees
  exactly these regions, so that the same regions are in use as before the copy.
\<close>

theorem clone_value_copies:
  assumes "store_wf st" "denotes st v t F" "length (heap_regions st) + nodes t \<le> 2 ^ 32" "depth t < fuel"
  shows "\<exists>v' st' F'. clone_value fuel v st = (Ok (v', st') :: (Value \<times> Store, 'e) res) \<and> store_wf st' \<and> owned st' v' t F' \<and> distinct F' \<and>
    (\<forall>p \<in> set F'. \<not> live st p) \<and> (\<forall>w u G. owned st w u G \<longrightarrow> owned st' w u G) \<and>
    (\<exists>st''. drop_value fuel (get_heap_pos v') st' = (Ok st'' :: (Store, 'e) res) \<and> store_wf st'' \<and> stack st'' = stack st \<and>
       (\<forall>p. (live st'' p \<longleftrightarrow> live st p) \<and> (live st p \<longrightarrow> heap_regions st'' ! unat p = heap_regions st ! unat p)))"
proof -
  obtain v' st' where c: "clone_value fuel v st = (Ok (v', st') :: (Value \<times> Store, 'e) res)" "copied st t v' st'"
    by (rule clone_denoted [OF assms])
  from c(2) obtain F' where F': "owned st' v' t F'" "distinct F'" "\<forall>p \<in> set F'. \<not> live st p"
      "\<forall>p. live st' p \<longleftrightarrow> live st p \<or> p \<in> set F'" and ext: "extends st st'" "store_wf st'" by (auto simp: copied_def)
  have "drop_value fuel (get_heap_pos v') st' = (Ok (released F' st') :: (Store, 'e) res)"
    by (rule drop_owned [OF F'(1,2)]) (use assms(4) in simp)
  moreover have "store_wf (released F' st')" using store_wf_released [OF ext(2) F'(2)] F'(4) by blast
  moreover have "stack (released F' st') = stack st" using ext(1) by (simp add: extends_but_def)
  moreover have "(live (released F' st') p \<longleftrightarrow> live st p) \<and>
      (live st p \<longrightarrow> heap_regions (released F' st') ! unat p = heap_regions st ! unat p)" for p
    using F'(3,4) ext(1) by (auto simp: released_nth extends_but_def)
  ultimately have "\<exists>st''. drop_value fuel (get_heap_pos v') st' = (Ok st'' :: (Store, 'e) res) \<and> store_wf st'' \<and> stack st'' = stack st \<and>
       (\<forall>p. (live st'' p \<longleftrightarrow> live st p) \<and> (live st p \<longrightarrow> heap_regions st'' ! unat p = heap_regions st ! unat p))"
    by blast
  moreover have "owned st' w u G" if "owned st w u G" for w u G using owned_extends [OF that ext(1)] by simp
  ultimately show ?thesis using c(1) F'(1-3) ext(2) by blast
qed

text \<open>A string of two characters in region 1, the region 0 being free.\<close>

definition sample_store :: Store where
  "sample_store = \<lparr>stack = [VPrevStackBoundary (- 1), VString 1], cur_stack_boundary = 0,
     heap_regions = [[], [VChar 104, VChar 105]], free_regions = [0]\<rparr>"

lemma sample_store_wf: "store_wf sample_store"
  by (simp add: store_wf_def sample_store_def)

lemma sample_string: "owned sample_store (VString 1) (Node (VString 0) [Leaf (VChar 104), Leaf (VChar 105)]) [1]"
  using owned_owned_all.node [of "VString 1" 1 "VString 0" sample_store "[Leaf (VChar 104), Leaf (VChar 105)]" "[]"]
    owned_owned_all.leaf [of "VChar 104" sample_store] owned_owned_all.leaf [of "VChar 105" sample_store]
  by (simp add: owned_all_simps live_def sample_store_def)

lemma sample_ref: "denotes sample_store (VRef (Stack 0)) (Node (VString 0) [Leaf (VChar 104), Leaf (VChar 105)]) [1]"
  using sample_string by (simp add: denotes_def maybe_read_ref_def read_ref_def vec_get_def sample_store_def)

theorem clone_value_copies_witness:
  "\<exists>v st' F. clone_value 4 (VRef (Stack 0)) sample_store = Ok (v, st') \<and>
     owned st' v (Node (VString 0) [Leaf (VChar 104), Leaf (VChar 105)]) F"
  using clone_value_copies [OF sample_store_wf sample_ref, of 4] by (auto simp: sample_store_def)

text \<open>
  Dropping a value frees the regions that it owns and no others. They are put at the end
  of the list of free regions, children first, emptied, and every value that shares no
  region with the dropped one is as before.
\<close>

theorem drop_value_frees:
  assumes "store_wf st" "owned st v t F" "distinct F" "depth t \<le> fuel"
  shows "\<exists>st'. drop_value fuel (get_heap_pos v) st = Ok st' \<and> store_wf st' \<and> stack st' = stack st \<and>
    free_regions st' = free_regions st @ F \<and> (\<forall>p. live st' p \<longleftrightarrow> live st p \<and> p \<notin> set F) \<and>
    (\<forall>w u G. owned st w u G \<and> set G \<inter> set F = {} \<longrightarrow> owned st' w u G)"
proof -
  have "owned (released F st) w u G" if "owned st w u G" "set G \<inter> set F = {}" for w u G
    using that owned_live [OF that(1)] by (intro owned_frame [OF that(1)]) (auto simp: same_region_def released_nth)
  then show ?thesis
    using drop_owned [OF assms(2-4)] store_wf_released [OF assms(1,3)] owned_live [OF assms(2)] by auto
qed

theorem drop_value_frees_witness: "\<exists>st'. drop_value 3 (Some 1) sample_store = Ok st' \<and> free_regions st' = [0, 1]"
  using drop_value_frees [OF sample_store_wf sample_string, of 3] by (auto simp: sample_store_def)

end
