(* ===== verification/Ast.thy ===== *)
theory Ast
  imports Eval_Store
begin

text \<open>
  The syntax tree of the protocol language (\<open>src/protocol/ast.rs\<close>) as far as the evaluator
  and the runtime read it, and the arenas that hold its nodes (\<open>src/protocol/arena.rs\<close>).
  Nodes refer to each other by their index in an arena; a negative index is invalid.
  Source positions, identifiers that are only shown in messages and links that only the
  compiler uses are left out.
\<close>

section \<open>Arenas\<close>

type_synonym AstId = int

definition id_is_invalid :: "AstId \<Rightarrow> bool" where
  "id_is_invalid i \<longleftrightarrow> i < 0"

definition arena_get :: "'a list \<Rightarrow> AstId \<Rightarrow> ('a, 'e) res" where
  "arena_get store i = (if \<not> id_is_invalid i \<and> nat i < length store then Ok (store ! nat i) else Panic)"

definition arena_alloc :: "(AstId \<Rightarrow> 'a) \<Rightarrow> 'a list \<Rightarrow> (AstId \<times> 'a list, 'e) res" where
  "arena_alloc f store =
     (if length store < 2 ^ 31 - 1 then Ok (int (length store), store @ [f (int (length store))]) else Panic)"

lemma arena_get_alloc: "arena_alloc f store = Ok (i, store') \<Longrightarrow> arena_get store' i = Ok (f i)"
  by (auto simp: arena_alloc_def arena_get_def id_is_invalid_def split: if_splits)

lemma arena_get_old: "arena_alloc f store = Ok (i, store') \<Longrightarrow> arena_get store j = Ok x \<Longrightarrow> arena_get store' j = Ok x"
  by (auto simp: arena_alloc_def arena_get_def nth_append split: if_splits)

section \<open>Operators and types\<close>

datatype AssignmentOperator = AO_Set | AO_Concatenated | AO_Multiplied | AO_Divided | AO_Remained | AO_Added | AO_Subtracted |
  AO_ShiftedLeft | AO_ShiftedRight | AO_BitwiseAnded | AO_BitwiseXored | AO_BitwiseOred

datatype BinaryOperator = BO_Concatenate | BO_LogicalOr | BO_LogicalAnd | BO_BitwiseOr | BO_BitwiseXor | BO_BitwiseAnd |
  BO_Equality | BO_Inequality | BO_LessThan | BO_GreaterThan | BO_LessThanEqual | BO_GreaterThanEqual |
  BO_ShiftLeft | BO_ShiftRight | BO_Add | BO_Subtract | BO_Multiply | BO_Divide | BO_Remainder

datatype UnaryOperator = UO_Positive | UO_Negative | UO_BitwiseNot | UO_LogicalNot

datatype ConcreteTypePart = CTP_Void | CTP_Message | CTP_Bool | CTP_UInt8 | CTP_UInt16 | CTP_UInt32 | CTP_UInt64 |
  CTP_SInt8 | CTP_SInt16 | CTP_SInt32 | CTP_SInt64 | CTP_Character | CTP_String | CTP_Array | CTP_Slice | CTP_Input | CTP_Output |
  CTP_Instance AstId u32 | CTP_Function AstId u32 | CTP_Component AstId u32

text \<open>Of the types that the parser reads, only whether they are ports matters here.\<close>

datatype ParserTypeVariant = PtInput | PtOutput | PtOther

section \<open>Expressions\<close>

text \<open>A field of a struct literal is its expression and its index in the definition.\<close>

datatype Literal =
    LitNull
  | LitTrue
  | LitFalse
  | LitCharacter u32
  | LitString "u8 list"
  | LitInteger u64
  | LitStruct "(AstId \<times> nat) list"
  | LitEnum nat
  | LitUnion "AstId list" nat
  | LitArray "AstId list"

datatype Method = M_Get | M_Put | M_Fires | M_Create | M_Length | M_Assert | M_UserFunction | M_UserComponent

text \<open>
  The nodes in the order of their fields in the source; the number that ends the nodes
  whose concrete types the evaluator looks up is \<open>unique_id_in_definition\<close>.
\<close>

datatype Expression =
    Ex_Assignment AstId AssignmentOperator AstId
  | Ex_Binding AstId AstId
  | Ex_Conditional AstId AstId AstId
  | Ex_Binary AstId BinaryOperator AstId
  | Ex_Unary UnaryOperator AstId
  | Ex_Indexing AstId AstId
  | Ex_Slicing AstId AstId AstId
  | Ex_Select AstId int
  | Ex_Literal Literal int
  | Ex_Cast AstId int
  | Ex_Call Method "AstId list" AstId int
  | Ex_Variable "AstId option" bool

section \<open>Statements\<close>

text \<open>The nested scopes of a block are blocks; \<open>None\<close> stands for the scope of a definition, on which \<open>to_block\<close> panics.\<close>

record BlockStatement =
  bs_statements :: "AstId list"
  bs_nested :: "AstId option list"
  bs_first_unique_id_in_scope :: int
  bs_next_unique_id_in_scope :: int
  bs_next :: AstId

datatype Statement =
    St_Block BlockStatement
  | St_EndBlock AstId AstId
  | St_Memory AstId AstId
  | St_Channel AstId AstId AstId
  | St_Labeled AstId
  | St_If AstId AstId "AstId option" AstId
  | St_EndIf AstId
  | St_While AstId AstId AstId
  | St_EndWhile AstId
  | St_Break "AstId option"
  | St_Continue "AstId option"
  | St_Synchronous AstId
  | St_EndSynchronous AstId
  | St_Return "AstId list"
  | St_Goto "AstId option"
  | St_New AstId AstId
  | St_Expression AstId AstId

section \<open>Definitions and the heap\<close>

record Variable =
  var_parser_type :: "ParserTypeVariant list"
  var_unique_id_in_scope :: int

text \<open>Components and functions with their parameters and their body.\<close>

datatype Definition =
    DefStruct "u8 list"
  | DefEnum "u8 list"
  | DefUnion "u8 list"
  | DefComponent "u8 list" "AstId list" AstId
  | DefFunction "u8 list" "AstId list" AstId

fun def_identifier :: "Definition \<Rightarrow> u8 list" where
  "def_identifier (DefStruct n) = n"
| "def_identifier (DefEnum n) = n"
| "def_identifier (DefUnion n) = n"
| "def_identifier (DefComponent n _ _) = n"
| "def_identifier (DefFunction n _ _) = n"

fun is_component :: "Definition \<Rightarrow> bool" where
  "is_component (DefComponent _ _ _) = True"
| "is_component _ = False"

fun is_function :: "Definition \<Rightarrow> bool" where
  "is_function (DefFunction _ _ _) = True"
| "is_function _ = False"

fun parameters :: "Definition \<Rightarrow> AstId list option" where
  "parameters (DefComponent _ ps _) = Some ps"
| "parameters (DefFunction _ ps _) = Some ps"
| "parameters _ = None"

record ProtoHeap =
  heap_variables :: "Variable list"
  heap_definitions :: "Definition list"
  heap_statements :: "Statement list"
  heap_expressions :: "Expression list"

definition block_at :: "ProtoHeap \<Rightarrow> AstId \<Rightarrow> (BlockStatement, 'e) res" where
  "block_at h i = bind_res (arena_get (heap_statements h) i) (\<lambda>s. case s of St_Block b \<Rightarrow> Ok b | _ \<Rightarrow> Panic)"

definition call_at :: "ProtoHeap \<Rightarrow> AstId \<Rightarrow> (Method \<times> AstId list \<times> AstId \<times> int, 'e) res" where
  "call_at h i = bind_res (arena_get (heap_expressions h) i) (\<lambda>e. case e of
     Ex_Call m args def uid \<Rightarrow> Ok (m, args, def, uid) | _ \<Rightarrow> Panic)"

section \<open>Concrete types of expressions\<close>

text \<open>
  What the type table (\<open>src/protocol/parser/type_table.rs\<close>) holds for the evaluator: for
  each monomorph of a procedure the data of its expressions.
\<close>

record ExprData =
  expr_type :: "ConcreteTypePart list"
  field_or_monomorph_idx :: int

type_synonym TypeTable = "(AstId, ExprData list list) hash_map"

definition get_procedure_expression_data :: "TypeTable \<Rightarrow> AstId \<Rightarrow> int \<Rightarrow> (ExprData list, 'e) res" where
  "get_procedure_expression_data types definition_id monomorph_idx =
     bind_res (unwrap (hm_get types definition_id)) (\<lambda>monomorphs.
     arena_get monomorphs monomorph_idx)"

end
