(* ===== verification/Eval_Ops.thy ===== *)
theory Eval_Ops
  imports Eval_Heap Ast "HOL-Library.Signed_Division"
begin

text \<open>
  The operators on values (\<open>src/protocol/eval/value.rs\<close>): assignment, binary and unary
  operators, casts, equality and bindings. Rust's integer operators panic in a debug build
  where the exact result does not fit, and wrap in a release build; the parameter
  \<open>debug\<close> says which build it is. Division by zero and the overflowing division always
  panic. The macros of the source, which repeat a branch for each of the eight integer
  types, are functions of the integer type here.
\<close>

section \<open>Accessors\<close>

text \<open>Every accessor panics on a value of another kind.\<close>

fun as_input :: "Value \<Rightarrow> PortId option" where
  "as_input (VInput v) = Some v" | "as_input _ = None"

fun as_output :: "Value \<Rightarrow> PortId option" where
  "as_output (VOutput v) = Some v" | "as_output _ = None"

fun as_message :: "Value \<Rightarrow> HeapPos option" where
  "as_message (VMessage v) = Some v" | "as_message _ = None"

fun as_bool :: "Value \<Rightarrow> bool option" where
  "as_bool (VBool v) = Some v" | "as_bool _ = None"

fun as_char :: "Value \<Rightarrow> u32 option" where
  "as_char (VChar v) = Some v" | "as_char _ = None"

fun as_string :: "Value \<Rightarrow> HeapPos option" where
  "as_string (VString v) = Some v" | "as_string _ = None"

fun as_uint8 :: "Value \<Rightarrow> u8 option" where
  "as_uint8 (VUInt8 v) = Some v" | "as_uint8 _ = None"

fun as_uint16 :: "Value \<Rightarrow> u16 option" where
  "as_uint16 (VUInt16 v) = Some v" | "as_uint16 _ = None"

fun as_uint32 :: "Value \<Rightarrow> u32 option" where
  "as_uint32 (VUInt32 v) = Some v" | "as_uint32 _ = None"

fun as_uint64 :: "Value \<Rightarrow> u64 option" where
  "as_uint64 (VUInt64 v) = Some v" | "as_uint64 _ = None"

fun as_sint8 :: "Value \<Rightarrow> u8 option" where
  "as_sint8 (VSInt8 v) = Some v" | "as_sint8 _ = None"

fun as_sint16 :: "Value \<Rightarrow> u16 option" where
  "as_sint16 (VSInt16 v) = Some v" | "as_sint16 _ = None"

fun as_sint32 :: "Value \<Rightarrow> u32 option" where
  "as_sint32 (VSInt32 v) = Some v" | "as_sint32 _ = None"

fun as_sint64 :: "Value \<Rightarrow> u64 option" where
  "as_sint64 (VSInt64 v) = Some v" | "as_sint64 _ = None"

fun as_array :: "Value \<Rightarrow> HeapPos option" where
  "as_array (VArray v) = Some v" | "as_array _ = None"

fun as_enum :: "Value \<Rightarrow> u64 option" where
  "as_enum (VEnum v) = Some v" | "as_enum _ = None"

fun as_struct :: "Value \<Rightarrow> HeapPos option" where
  "as_struct (VStruct v) = Some v" | "as_struct _ = None"

fun as_ref :: "Value \<Rightarrow> ValueId option" where
  "as_ref (VRef v) = Some v" | "as_ref _ = None"

fun as_union :: "Value \<Rightarrow> (u64 \<times> HeapPos) option" where
  "as_union (VUnion tag v) = Some (tag, v)" | "as_union _ = None"

section \<open>Integers\<close>

datatype IntType = IUInt8 | IUInt16 | IUInt32 | IUInt64 | ISInt8 | ISInt16 | ISInt32 | ISInt64

fun int_view :: "Value \<Rightarrow> (IntType \<times> int) option" where
  "int_view (VUInt8 v) = Some (IUInt8, uint v)"
| "int_view (VUInt16 v) = Some (IUInt16, uint v)"
| "int_view (VUInt32 v) = Some (IUInt32, uint v)"
| "int_view (VUInt64 v) = Some (IUInt64, uint v)"
| "int_view (VSInt8 v) = Some (ISInt8, sint v)"
| "int_view (VSInt16 v) = Some (ISInt16, sint v)"
| "int_view (VSInt32 v) = Some (ISInt32, sint v)"
| "int_view (VSInt64 v) = Some (ISInt64, sint v)"
| "int_view _ = None"

text \<open>The value of a type that an exact result wraps around to.\<close>

fun int_make :: "IntType \<Rightarrow> int \<Rightarrow> Value" where
  "int_make IUInt8 i = VUInt8 (word_of_int i)"
| "int_make IUInt16 i = VUInt16 (word_of_int i)"
| "int_make IUInt32 i = VUInt32 (word_of_int i)"
| "int_make IUInt64 i = VUInt64 (word_of_int i)"
| "int_make ISInt8 i = VSInt8 (word_of_int i)"
| "int_make ISInt16 i = VSInt16 (word_of_int i)"
| "int_make ISInt32 i = VSInt32 (word_of_int i)"
| "int_make ISInt64 i = VSInt64 (word_of_int i)"

fun int_bits :: "IntType \<Rightarrow> nat" where
  "int_bits IUInt8 = 8" | "int_bits IUInt16 = 16" | "int_bits IUInt32 = 32" | "int_bits IUInt64 = 64"
| "int_bits ISInt8 = 8" | "int_bits ISInt16 = 16" | "int_bits ISInt32 = 32" | "int_bits ISInt64 = 64"

fun int_signed :: "IntType \<Rightarrow> bool" where
  "int_signed IUInt8 = False" | "int_signed IUInt16 = False" | "int_signed IUInt32 = False" | "int_signed IUInt64 = False"
| "int_signed ISInt8 = True" | "int_signed ISInt16 = True" | "int_signed ISInt32 = True" | "int_signed ISInt64 = True"

definition in_range :: "IntType \<Rightarrow> int \<Rightarrow> bool" where
  "in_range ty i \<longleftrightarrow> (if int_signed ty then - (2 ^ (int_bits ty - 1)) \<le> i \<and> i < 2 ^ (int_bits ty - 1) else 0 \<le> i \<and> i < 2 ^ int_bits ty)"

text \<open>\<open>+\<close>, \<open>-\<close>, \<open>*\<close> and the negation: overflow is an error of the debug build only.\<close>

definition rust_arith :: "bool \<Rightarrow> IntType \<Rightarrow> int \<Rightarrow> (Value, 'e) res" where
  "rust_arith debug ty i = (if in_range ty i \<or> \<not> debug then Ok (int_make ty i) else Panic)"

definition rust_div :: "IntType \<Rightarrow> int \<Rightarrow> int \<Rightarrow> (Value, 'e) res" where
  "rust_div ty a b = (if b \<noteq> 0 \<and> in_range ty (a sdiv b) then Ok (int_make ty (a sdiv b)) else Panic)"

definition rust_rem :: "IntType \<Rightarrow> int \<Rightarrow> int \<Rightarrow> (Value, 'e) res" where
  "rust_rem ty a b = (if b \<noteq> 0 \<and> in_range ty (a sdiv b) then Ok (int_make ty (a smod b)) else Panic)"

text \<open>A shift by too many bits is an overflow; the release build uses the low bits of the amount.\<close>

definition shift_amount :: "bool \<Rightarrow> IntType \<Rightarrow> int \<Rightarrow> (nat, 'e) res" where
  "shift_amount debug ty b =
     (if (0 \<le> b \<and> b < int (int_bits ty)) \<or> \<not> debug then Ok (nat (b mod int (int_bits ty))) else Panic)"

definition rust_shl :: "bool \<Rightarrow> IntType \<Rightarrow> int \<Rightarrow> int \<Rightarrow> (Value, 'e) res" where
  "rust_shl debug ty a b = bind_res (shift_amount debug ty b) (\<lambda>n. Ok (int_make ty (push_bit n a)))"

definition rust_shr :: "bool \<Rightarrow> IntType \<Rightarrow> int \<Rightarrow> int \<Rightarrow> (Value, 'e) res" where
  "rust_shr debug ty a b = bind_res (shift_amount debug ty b) (\<lambda>n. Ok (int_make ty (drop_bit n a)))"

text \<open>The right operand is read with the accessor of the type of the left one, which panics on any other.\<close>

definition apply_int_op :: "(IntType \<Rightarrow> int \<Rightarrow> int \<Rightarrow> (Value, 'e) res) \<Rightarrow> Value \<Rightarrow> Value \<Rightarrow> (Value, 'e) res" where
  "apply_int_op f lhs rhs =
     (case (int_view lhs, int_view rhs) of
        (Some (ty, a), Some (ty', b)) \<Rightarrow> if ty' = ty then f ty a b else Panic
      | _ \<Rightarrow> Panic)"

section \<open>Assignment\<close>

text \<open>
  The branch \<open>AO::Set\<close>: the new value of the left side, and the heap position that has to
  be dropped. The region of a string is not dropped.
\<close>

fun assign_set :: "Value \<Rightarrow> Value \<Rightarrow> (Value \<times> HeapPos option) option" where
  "assign_set VUnassigned rhs = Some (rhs, None)"
| "assign_set (VInput _) rhs = map_option (\<lambda>v. (VInput v, None)) (as_input rhs)"
| "assign_set (VOutput _) rhs = map_option (\<lambda>v. (VOutput v, None)) (as_output rhs)"
| "assign_set (VMessage p) rhs = map_option (\<lambda>v. (VMessage v, Some p)) (as_message rhs)"
| "assign_set (VBool _) rhs = map_option (\<lambda>v. (VBool v, None)) (as_bool rhs)"
| "assign_set (VChar _) rhs = map_option (\<lambda>v. (VChar v, None)) (as_char rhs)"
| "assign_set (VString _) rhs = map_option (\<lambda>v. (VString v, None)) (as_string rhs)"
| "assign_set (VUInt8 _) rhs = map_option (\<lambda>v. (VUInt8 v, None)) (as_uint8 rhs)"
| "assign_set (VUInt16 _) rhs = map_option (\<lambda>v. (VUInt16 v, None)) (as_uint16 rhs)"
| "assign_set (VUInt32 _) rhs = map_option (\<lambda>v. (VUInt32 v, None)) (as_uint32 rhs)"
| "assign_set (VUInt64 _) rhs = map_option (\<lambda>v. (VUInt64 v, None)) (as_uint64 rhs)"
| "assign_set (VSInt8 _) rhs = map_option (\<lambda>v. (VSInt8 v, None)) (as_sint8 rhs)"
| "assign_set (VSInt16 _) rhs = map_option (\<lambda>v. (VSInt16 v, None)) (as_sint16 rhs)"
| "assign_set (VSInt32 _) rhs = map_option (\<lambda>v. (VSInt32 v, None)) (as_sint32 rhs)"
| "assign_set (VSInt64 _) rhs = map_option (\<lambda>v. (VSInt64 v, None)) (as_sint64 rhs)"
| "assign_set (VArray p) rhs = map_option (\<lambda>v. (VArray v, Some p)) (as_array rhs)"
| "assign_set (VEnum _) rhs = map_option (\<lambda>v. (VEnum v, None)) (as_enum rhs)"
| "assign_set (VUnion _ p) rhs = map_option (\<lambda>(tag, v). (VUnion tag v, Some p)) (as_union rhs)"
| "assign_set (VStruct p) rhs = map_option (\<lambda>v. (VStruct v, Some p)) (as_struct rhs)"
| "assign_set _ rhs = None"

text \<open>Copies of the elements of a region, pushed onto a vector outside of the store.\<close>

fun clone_elements :: "nat \<Rightarrow> HeapPos \<Rightarrow> nat list \<Rightarrow> Value list \<Rightarrow> Store \<Rightarrow> (Value list \<times> Store, 'e) res" where
  "clone_elements fuel src [] whole st = Ok (whole, st)"
| "clone_elements fuel src (idx # idxs) whole st =
     bind_res (region st src) (\<lambda>vs.
     bind_res (vec_get vs idx) (\<lambda>v.
     bind_res (clone_value fuel v st) (\<lambda>(cloned, st').
     clone_elements fuel src idxs (whole @ [cloned]) st')))"

definition assign_concatenated :: "nat \<Rightarrow> Value \<Rightarrow> Value \<Rightarrow> Store \<Rightarrow> (Store \<times> HeapPos option, 'e) res" where
  "assign_concatenated fuel lhs rhs st =
     bind_res (unwrap (get_heap_pos lhs)) (\<lambda>lhs_heap_pos.
     bind_res (unwrap (get_heap_pos rhs)) (\<lambda>rhs_heap_pos.
     bind_res (region st lhs_heap_pos) (\<lambda>whole.
     let st1 = set_region lhs_heap_pos [] st in
     bind_res (region st1 rhs_heap_pos) (\<lambda>vs.
     bind_res (clone_elements fuel rhs_heap_pos [0 ..< length vs] whole st1) (\<lambda>(whole', st2).
     bind_res (region st2 lhs_heap_pos) (\<lambda>_.
     Ok (set_region lhs_heap_pos whole' st2, Some rhs_heap_pos)))))))"

fun assignment_int_op :: "bool \<Rightarrow> AssignmentOperator \<Rightarrow> IntType \<Rightarrow> int \<Rightarrow> int \<Rightarrow> (Value, 'e) res" where
  "assignment_int_op debug AO_Multiplied = (\<lambda>ty a b. rust_arith debug ty (a * b))"
| "assignment_int_op debug AO_Divided = rust_div"
| "assignment_int_op debug AO_Remained = rust_rem"
| "assignment_int_op debug AO_Added = (\<lambda>ty a b. rust_arith debug ty (a + b))"
| "assignment_int_op debug AO_Subtracted = (\<lambda>ty a b. rust_arith debug ty (a - b))"
| "assignment_int_op debug AO_ShiftedLeft = rust_shl debug"
| "assignment_int_op debug AO_ShiftedRight = rust_shr debug"
| "assignment_int_op debug AO_BitwiseAnded = (\<lambda>ty a b. Ok (int_make ty (and a b)))"
| "assignment_int_op debug AO_BitwiseXored = (\<lambda>ty a b. Ok (int_make ty (xor a b)))"
| "assignment_int_op debug AO_BitwiseOred = (\<lambda>ty a b. Ok (int_make ty (or a b)))"
| "assignment_int_op debug _ = (\<lambda>ty a b. Panic)"

definition apply_assignment_operator :: "bool \<Rightarrow> nat \<Rightarrow> Store \<Rightarrow> ValueId \<Rightarrow> AssignmentOperator \<Rightarrow> Value \<Rightarrow> (Store, 'e) res" where
  "apply_assignment_operator debug fuel st lhs op rhs =
     bind_res (read_ref st lhs) (\<lambda>old.
     bind_res (case op of
        AO_Set \<Rightarrow> bind_res (unwrap (assign_set old rhs)) (\<lambda>(v, to_dealloc). Ok (set_ref lhs v st, to_dealloc))
      | AO_Concatenated \<Rightarrow> assign_concatenated fuel old rhs st
      | _ \<Rightarrow> bind_res (apply_int_op (assignment_int_op debug op) old rhs) (\<lambda>v. Ok (set_ref lhs v st, None))) (\<lambda>(st', to_dealloc).
     drop_value fuel to_dealloc st'))"

section \<open>Equality\<close>

fun scalar_equal :: "Value \<Rightarrow> Value \<Rightarrow> bool option" where
  "scalar_equal (VInput v) rhs = map_option ((=) v) (as_input rhs)"
| "scalar_equal (VOutput v) rhs = map_option ((=) v) (as_output rhs)"
| "scalar_equal (VBool v) rhs = map_option ((=) v) (as_bool rhs)"
| "scalar_equal (VChar v) rhs = map_option ((=) v) (as_char rhs)"
| "scalar_equal (VUInt8 v) rhs = map_option ((=) v) (as_uint8 rhs)"
| "scalar_equal (VUInt16 v) rhs = map_option ((=) v) (as_uint16 rhs)"
| "scalar_equal (VUInt32 v) rhs = map_option ((=) v) (as_uint32 rhs)"
| "scalar_equal (VUInt64 v) rhs = map_option ((=) v) (as_uint64 rhs)"
| "scalar_equal (VSInt8 v) rhs = map_option ((=) v) (as_sint8 rhs)"
| "scalar_equal (VSInt16 v) rhs = map_option ((=) v) (as_sint16 rhs)"
| "scalar_equal (VSInt32 v) rhs = map_option ((=) v) (as_sint32 rhs)"
| "scalar_equal (VSInt64 v) rhs = map_option ((=) v) (as_sint64 rhs)"
| "scalar_equal (VEnum v) rhs = map_option ((=) v) (as_enum rhs)"
| "scalar_equal _ rhs = None"

text \<open>The regions to compare, when both sides are of the same kind.\<close>

fun heap_operands :: "Value \<Rightarrow> Value \<Rightarrow> (HeapPos \<times> HeapPos) option" where
  "heap_operands (VMessage a) rhs = map_option (Pair a) (as_message rhs)"
| "heap_operands (VString a) rhs = map_option (Pair a) (as_string rhs)"
| "heap_operands (VArray a) rhs = map_option (Pair a) (as_array rhs)"
| "heap_operands (VUnion _ a) rhs = map_option (\<lambda>(_, b). (a, b)) (as_union rhs)"
| "heap_operands (VStruct a) rhs = map_option (Pair a) (as_struct rhs)"
| "heap_operands _ rhs = None"

fun union_tags_differ :: "Value \<Rightarrow> Value \<Rightarrow> bool" where
  "union_tags_differ (VUnion t _) rhs = (case as_union rhs of Some (tag, _) \<Rightarrow> t \<noteq> tag | None \<Rightarrow> False)"
| "union_tags_differ _ rhs = False"

fun apply_equality_operator :: "nat \<Rightarrow> Store \<Rightarrow> Value \<Rightarrow> Value \<Rightarrow> (bool, 'e) res"
and eval_equality_heap :: "nat \<Rightarrow> Store \<Rightarrow> Value list \<Rightarrow> Value list \<Rightarrow> (bool, 'e) res" where
  "apply_equality_operator 0 st lhs rhs = OutOfFuel"
| "apply_equality_operator (Suc fuel) st lhs rhs =
     bind_res (maybe_read_ref st lhs) (\<lambda>l.
     bind_res (maybe_read_ref st rhs) (\<lambda>r.
     case heap_operands l r of
       Some (lhs_pos, rhs_pos) \<Rightarrow>
         if union_tags_differ l r then Ok False
         else bind_res (region st lhs_pos) (\<lambda>ls. bind_res (region st rhs_pos) (\<lambda>rs.
              if length ls \<noteq> length rs then Ok False else eval_equality_heap fuel st ls rs))
     | None \<Rightarrow> unwrap (scalar_equal l r)))"
| "eval_equality_heap fuel st (l # ls) (r # rs) =
     bind_res (case fuel of 0 \<Rightarrow> OutOfFuel | Suc f \<Rightarrow> apply_equality_operator f st l r) (\<lambda>eq.
     if \<not> eq then Ok False else eval_equality_heap fuel st ls rs)"
| "eval_equality_heap fuel st _ _ = Ok True"

fun apply_inequality_operator :: "nat \<Rightarrow> Store \<Rightarrow> Value \<Rightarrow> Value \<Rightarrow> (bool, 'e) res"
and eval_inequality_heap :: "nat \<Rightarrow> Store \<Rightarrow> Value list \<Rightarrow> Value list \<Rightarrow> (bool, 'e) res" where
  "apply_inequality_operator 0 st lhs rhs = OutOfFuel"
| "apply_inequality_operator (Suc fuel) st lhs rhs =
     bind_res (maybe_read_ref st lhs) (\<lambda>l.
     bind_res (maybe_read_ref st rhs) (\<lambda>r.
     case heap_operands l r of
       Some (lhs_pos, rhs_pos) \<Rightarrow>
         if union_tags_differ l r then Ok True
         else bind_res (region st lhs_pos) (\<lambda>ls. bind_res (region st rhs_pos) (\<lambda>rs.
              if length ls \<noteq> length rs then Ok True else eval_inequality_heap fuel st ls rs))
     | None \<Rightarrow> bind_res (unwrap (scalar_equal l r)) (\<lambda>eq. Ok (\<not> eq))))"
| "eval_inequality_heap fuel st (l # ls) (r # rs) =
     bind_res (case fuel of 0 \<Rightarrow> OutOfFuel | Suc f \<Rightarrow> apply_inequality_operator f st l r) (\<lambda>ineq.
     if ineq then Ok True else eval_inequality_heap fuel st ls rs)"
| "eval_inequality_heap fuel st _ _ = Ok False"

text \<open>
  Matching against a pattern: a binding takes a copy of what it meets, so the store
  changes, also when the match fails later.
\<close>

fun apply_binding_operator :: "nat \<Rightarrow> Value \<Rightarrow> Value \<Rightarrow> Store \<Rightarrow> (bool \<times> Store, 'e) res"
and eval_binding_heap :: "nat \<Rightarrow> HeapPos \<Rightarrow> HeapPos \<Rightarrow> nat list \<Rightarrow> Store \<Rightarrow> (bool \<times> Store, 'e) res" where
  "apply_binding_operator 0 lhs rhs st = OutOfFuel"
| "apply_binding_operator (Suc fuel) lhs rhs st =
     bind_res (maybe_read_ref st lhs) (\<lambda>l.
     bind_res (maybe_read_ref st rhs) (\<lambda>r.
     case l of
       VBinding var_pos \<Rightarrow>
         bind_res (clone_value fuel r st) (\<lambda>(to_write, st1).
         bind_res (store_write fuel (Stack var_pos) to_write st1) (\<lambda>st2. Ok (True, st2)))
     | _ \<Rightarrow>
         (case heap_operands l r of
            Some (lhs_pos, rhs_pos) \<Rightarrow>
              if union_tags_differ l r then Ok (False, st)
              else bind_res (region st lhs_pos) (\<lambda>ls. bind_res (region st rhs_pos) (\<lambda>rs.
                   if length ls \<noteq> length rs then Ok (False, st)
                   else eval_binding_heap fuel lhs_pos rhs_pos [0 ..< length ls] st))
          | None \<Rightarrow> bind_res (unwrap (scalar_equal l r)) (\<lambda>eq. Ok (eq, st)))))"
| "eval_binding_heap fuel lhs_pos rhs_pos [] st = Ok (True, st)"
| "eval_binding_heap fuel lhs_pos rhs_pos (idx # idxs) st =
     bind_res (region st lhs_pos) (\<lambda>ls. bind_res (vec_get ls idx) (\<lambda>l.
     bind_res (region st rhs_pos) (\<lambda>rs. bind_res (vec_get rs idx) (\<lambda>r.
     bind_res (case fuel of 0 \<Rightarrow> OutOfFuel | Suc f \<Rightarrow> apply_binding_operator f l r st) (\<lambda>(matches, st').
     if \<not> matches then Ok (False, st') else eval_binding_heap fuel lhs_pos rhs_pos idxs st')))))"

section \<open>Binary and unary operators\<close>

text \<open>The kinds of values that can be concatenated, with their heap positions and the kind of the result.\<close>

fun concatenate_operands :: "Value \<Rightarrow> Value \<Rightarrow> (HeapPos \<times> HeapPos \<times> (HeapPos \<Rightarrow> Value)) option" where
  "concatenate_operands (VMessage a) rhs = map_option (\<lambda>b. (a, b, VMessage)) (as_message rhs)"
| "concatenate_operands (VString a) rhs = map_option (\<lambda>b. (a, b, VString)) (as_string rhs)"
| "concatenate_operands (VArray a) rhs = map_option (\<lambda>b. (a, b, VArray)) (as_array rhs)"
| "concatenate_operands _ rhs = None"

definition apply_concatenate :: "nat \<Rightarrow> Store \<Rightarrow> Value \<Rightarrow> Value \<Rightarrow> (Value \<times> Store, 'e) res" where
  "apply_concatenate fuel st lhs rhs =
     (let (target_heap_pos, st1) = alloc_heap st in
      bind_res (maybe_read_ref st1 lhs) (\<lambda>l.
      bind_res (maybe_read_ref st1 rhs) (\<lambda>r.
      bind_res (unwrap (concatenate_operands l r)) (\<lambda>(lhs_heap_pos, rhs_heap_pos, value_kind).
      bind_res (region st1 lhs_heap_pos) (\<lambda>ls.
      bind_res (region st1 rhs_heap_pos) (\<lambda>rs.
      bind_res (clone_elements fuel lhs_heap_pos [0 ..< length ls] [] st1) (\<lambda>(concatenated, st2).
      bind_res (clone_elements fuel rhs_heap_pos [0 ..< length rs] concatenated st2) (\<lambda>(concatenated', st3).
      bind_res (region st3 target_heap_pos) (\<lambda>_.
      Ok (value_kind target_heap_pos, set_region target_heap_pos concatenated' st3))))))))))"

definition int_bool :: "(int \<Rightarrow> int \<Rightarrow> bool) \<Rightarrow> IntType \<Rightarrow> int \<Rightarrow> int \<Rightarrow> (Value, 'e) res" where
  "int_bool f ty a b = Ok (VBool (f a b))"

fun binary_int_op :: "bool \<Rightarrow> BinaryOperator \<Rightarrow> IntType \<Rightarrow> int \<Rightarrow> int \<Rightarrow> (Value, 'e) res" where
  "binary_int_op debug BO_BitwiseOr = (\<lambda>ty a b. Ok (int_make ty (or a b)))"
| "binary_int_op debug BO_BitwiseXor = (\<lambda>ty a b. Ok (int_make ty (xor a b)))"
| "binary_int_op debug BO_BitwiseAnd = (\<lambda>ty a b. Ok (int_make ty (and a b)))"
| "binary_int_op debug BO_LessThan = int_bool (<)"
| "binary_int_op debug BO_GreaterThan = int_bool (>)"
| "binary_int_op debug BO_LessThanEqual = int_bool (\<le>)"
| "binary_int_op debug BO_GreaterThanEqual = int_bool (\<ge>)"
| "binary_int_op debug BO_ShiftLeft = rust_shl debug"
| "binary_int_op debug BO_ShiftRight = rust_shr debug"
| "binary_int_op debug BO_Add = (\<lambda>ty a b. rust_arith debug ty (a + b))"
| "binary_int_op debug BO_Subtract = (\<lambda>ty a b. rust_arith debug ty (a - b))"
| "binary_int_op debug BO_Multiply = (\<lambda>ty a b. rust_arith debug ty (a * b))"
| "binary_int_op debug BO_Divide = rust_div"
| "binary_int_op debug BO_Remainder = rust_rem"
| "binary_int_op debug _ = (\<lambda>ty a b. Panic)"

definition apply_binary_operator :: "bool \<Rightarrow> nat \<Rightarrow> Store \<Rightarrow> Value \<Rightarrow> BinaryOperator \<Rightarrow> Value \<Rightarrow> (Value \<times> Store, 'e) res" where
  "apply_binary_operator debug fuel st lhs op rhs =
     (if op = BO_Concatenate then apply_concatenate fuel st lhs rhs
      else bind_res (maybe_read_ref st lhs) (\<lambda>l.
           bind_res (maybe_read_ref st rhs) (\<lambda>r.
           bind_res (case op of
               BO_LogicalOr \<Rightarrow> bind_res (unwrap (as_bool l)) (\<lambda>a. if a then Ok (VBool True) else bind_res (unwrap (as_bool r)) (\<lambda>b. Ok (VBool b)))
             | BO_LogicalAnd \<Rightarrow> bind_res (unwrap (as_bool l)) (\<lambda>a. if \<not> a then Ok (VBool False) else bind_res (unwrap (as_bool r)) (\<lambda>b. Ok (VBool b)))
             | BO_Equality \<Rightarrow> bind_res (apply_equality_operator fuel st l r) (\<lambda>b. Ok (VBool b))
             | BO_Inequality \<Rightarrow> bind_res (apply_inequality_operator fuel st l r) (\<lambda>b. Ok (VBool b))
             | _ \<Rightarrow> apply_int_op (binary_int_op debug op) l r) (\<lambda>v.
           Ok (v, st)))))"

definition apply_unary_operator :: "bool \<Rightarrow> Store \<Rightarrow> UnaryOperator \<Rightarrow> Value \<Rightarrow> (Value, 'e) res" where
  "apply_unary_operator debug st op value =
     bind_res (maybe_read_ref st value) (\<lambda>v.
     case op of
       UO_Positive \<Rightarrow> if debug \<and> \<not> is_integer v then Panic else Ok v
     | UO_Negative \<Rightarrow> (case int_view v of Some (ty, a) \<Rightarrow> if int_signed ty then rust_arith debug ty (- a) else Panic | None \<Rightarrow> Panic)
     | UO_BitwiseNot \<Rightarrow> (case int_view v of Some (ty, a) \<Rightarrow> Ok (int_make ty (not a)) | None \<Rightarrow> Panic)
     | UO_LogicalNot \<Rightarrow> bind_res (unwrap (as_bool v)) (\<lambda>b. Ok (VBool (\<not> b))))"

end
