(* ===== verification/Eval_Cast.thy ===== *)
theory Eval_Cast
  imports Eval_Ops
begin

text \<open>
  Casts (\<open>apply_casting\<close> in \<open>src/protocol/eval/value.rs\<close>). The comparisons with the bounds
  of the target type are made in the type of the input, on machine words, as in the source;
  \<open>cast_exact\<close> shows that the masks make them right for all pairs of integer types.
\<close>

text \<open>The message of a failed cast names the value and the target type.\<close>

datatype CastError = DoesNotFit int ConcreteTypePart

definition simple_type :: "ConcreteTypePart \<Rightarrow> bool" where
  "simple_type part \<longleftrightarrow> part \<in> {CTP_Bool, CTP_Character, CTP_UInt8, CTP_UInt16, CTP_UInt32, CTP_UInt64,
     CTP_SInt8, CTP_SInt16, CTP_SInt32, CTP_SInt64}"

text \<open>\<open>T::MAX\<close> and \<open>T::MIN\<close> of the signed type of a width; \<open>T::MAX\<close> of the unsigned one is \<open>- 1\<close>.\<close>

definition smax :: "'a::len word" where
  "smax = mask (LENGTH('a) - 1)"

definition smin :: "'a::len word" where
  "smin = push_bit (LENGTH('a) - 1) 1"

unbundle bit_operations_syntax

text \<open>\<open>as\<close> truncates, or extends by the sign for a signed source.\<close>

fun unchecked_cast :: "'a::len word \<Rightarrow> ConcreteTypePart \<Rightarrow> (Value, CastError) res" where
  "unchecked_cast v CTP_UInt8 = Ok (VUInt8 (ucast v))"
| "unchecked_cast v CTP_UInt16 = Ok (VUInt16 (ucast v))"
| "unchecked_cast v CTP_UInt32 = Ok (VUInt32 (ucast v))"
| "unchecked_cast v CTP_UInt64 = Ok (VUInt64 (ucast v))"
| "unchecked_cast v CTP_SInt8 = Ok (VSInt8 (ucast v))"
| "unchecked_cast v CTP_SInt16 = Ok (VSInt16 (ucast v))"
| "unchecked_cast v CTP_SInt32 = Ok (VSInt32 (ucast v))"
| "unchecked_cast v CTP_SInt64 = Ok (VSInt64 (ucast v))"
| "unchecked_cast v _ = Panic"

definition cast_if :: "bool \<Rightarrow> Value \<Rightarrow> int \<Rightarrow> ConcreteTypePart \<Rightarrow> (Value, CastError) res" where
  "cast_if fits v input part = (if fits then Ok v else Err (DoesNotFit input part))"

fun from_unsigned_cast :: "'a::len word \<Rightarrow> ConcreteTypePart \<Rightarrow> (Value, CastError) res" where
  "from_unsigned_cast v CTP_Bool = Ok (VBool (v \<noteq> 0))"
| "from_unsigned_cast v CTP_Character = cast_if (v \<le> ucast (- 1 :: u8)) (VChar (ucast (ucast v :: u8))) (uint v) CTP_Character"
| "from_unsigned_cast v CTP_UInt8 = cast_if (v \<le> ucast (- 1 :: u8)) (VUInt8 (ucast v)) (uint v) CTP_UInt8"
| "from_unsigned_cast v CTP_UInt16 = cast_if (v \<le> ucast (- 1 :: u16)) (VUInt16 (ucast v)) (uint v) CTP_UInt16"
| "from_unsigned_cast v CTP_UInt32 = cast_if (v \<le> ucast (- 1 :: u32)) (VUInt32 (ucast v)) (uint v) CTP_UInt32"
| "from_unsigned_cast v CTP_UInt64 = Ok (VUInt64 (ucast v))"
| "from_unsigned_cast v CTP_SInt8 = cast_if (v \<le> scast (smax :: u8)) (VSInt8 (ucast v)) (uint v) CTP_SInt8"
| "from_unsigned_cast v CTP_SInt16 = cast_if (v \<le> scast (smax :: u16)) (VSInt16 (ucast v)) (uint v) CTP_SInt16"
| "from_unsigned_cast v CTP_SInt32 = cast_if (v \<le> scast (smax :: u32)) (VSInt32 (ucast v)) (uint v) CTP_SInt32"
| "from_unsigned_cast v CTP_SInt64 = cast_if (v \<le> scast (smax :: u64)) (VSInt64 (ucast v)) (uint v) CTP_SInt64"
| "from_unsigned_cast v _ = Panic"

text \<open>
  The cast to a character compares with \<open>u8::max\<close>, the function, where \<open>u8::MAX\<close> is meant:
  the bound is what its address is when it is cast to the input type, a parameter here.
\<close>

fun from_signed_cast :: "u64 \<Rightarrow> 'a::len word \<Rightarrow> ConcreteTypePart \<Rightarrow> (Value, CastError) res" where
  "from_signed_cast max_fn v CTP_Bool = Ok (VBool (v \<noteq> 0))"
| "from_signed_cast max_fn v CTP_Character =
     cast_if (0 \<le>s v \<and> v \<le>s (ucast max_fn AND smax)) (VChar (ucast (ucast v :: u8))) (sint v) CTP_Character"
| "from_signed_cast max_fn v CTP_UInt8 = cast_if (0 \<le>s v \<and> v \<le>s (ucast (- 1 :: u8) AND smax)) (VUInt8 (scast v)) (sint v) CTP_UInt8"
| "from_signed_cast max_fn v CTP_UInt16 = cast_if (0 \<le>s v \<and> v \<le>s (ucast (- 1 :: u16) AND smax)) (VUInt16 (scast v)) (sint v) CTP_UInt16"
| "from_signed_cast max_fn v CTP_UInt32 = cast_if (0 \<le>s v \<and> v \<le>s (ucast (- 1 :: u32) AND smax)) (VUInt32 (scast v)) (sint v) CTP_UInt32"
| "from_signed_cast max_fn v CTP_UInt64 = cast_if (0 \<le>s v \<and> v \<le>s (ucast (- 1 :: u64) AND smax)) (VUInt64 (scast v)) (sint v) CTP_UInt64"
| "from_signed_cast max_fn v CTP_SInt8 =
     cast_if ((scast (smin :: u8) OR smin) \<le>s v \<and> v \<le>s (scast (smax :: u8) AND smax)) (VSInt8 (scast v)) (sint v) CTP_SInt8"
| "from_signed_cast max_fn v CTP_SInt16 =
     cast_if ((scast (smin :: u16) OR smin) \<le>s v \<and> v \<le>s (scast (smax :: u16) AND smax)) (VSInt16 (scast v)) (sint v) CTP_SInt16"
| "from_signed_cast max_fn v CTP_SInt32 =
     cast_if ((scast (smin :: u32) OR smin) \<le>s v \<and> v \<le>s (scast (smax :: u32) AND smax)) (VSInt32 (scast v)) (sint v) CTP_SInt32"
| "from_signed_cast max_fn v CTP_SInt64 = Ok (VSInt64 (scast v))"
| "from_signed_cast max_fn v _ = Panic"

text \<open>The cast of a value that is no reference to a simple type. A boolean becomes the character 1.\<close>

fun cast_simple :: "u64 \<Rightarrow> Value \<Rightarrow> ConcreteTypePart \<Rightarrow> (Value, CastError) res" where
  "cast_simple max_fn (VBool val) part =
     (case part of
        CTP_Bool \<Rightarrow> Ok (VBool val)
      | CTP_Character \<Rightarrow> Ok (VChar 1)
      | _ \<Rightarrow> unchecked_cast (if val then 1 else 0 :: u8) part)"
| "cast_simple max_fn (VChar val) part =
     (case part of
        CTP_Bool \<Rightarrow> Ok (VBool (val \<noteq> 0))
      | CTP_Character \<Rightarrow> Ok (VChar val)
      | _ \<Rightarrow> unchecked_cast val part)"
| "cast_simple max_fn (VUInt8 val) part = from_unsigned_cast val part"
| "cast_simple max_fn (VUInt16 val) part = from_unsigned_cast val part"
| "cast_simple max_fn (VUInt32 val) part = from_unsigned_cast val part"
| "cast_simple max_fn (VUInt64 val) part = from_unsigned_cast val part"
| "cast_simple max_fn (VSInt8 val) part = from_signed_cast max_fn val part"
| "cast_simple max_fn (VSInt16 val) part = from_signed_cast max_fn val part"
| "cast_simple max_fn (VSInt32 val) part = from_signed_cast max_fn val part"
| "cast_simple max_fn (VSInt64 val) part = from_signed_cast max_fn val part"
| "cast_simple max_fn _ part = Panic"

definition apply_casting :: "u64 \<Rightarrow> bool \<Rightarrow> nat \<Rightarrow> Store \<Rightarrow> ConcreteTypePart list \<Rightarrow> Value \<Rightarrow> (Value \<times> Store, CastError) res" where
  "apply_casting max_fn debug fuel st output_type subject =
     bind_res (vec_get output_type 0) (\<lambda>part.
     if \<not> simple_type part then clone_value fuel subject st
     else if debug \<and> length output_type \<noteq> 1 then Panic
     else bind_res (maybe_read_ref st subject) (\<lambda>v.
          bind_res (cast_simple max_fn v part) (\<lambda>v'. Ok (v', st))))"

section \<open>Casts between integers are exact\<close>

fun int_part :: "IntType \<Rightarrow> ConcreteTypePart" where
  "int_part IUInt8 = CTP_UInt8" | "int_part IUInt16 = CTP_UInt16" | "int_part IUInt32 = CTP_UInt32" | "int_part IUInt64 = CTP_UInt64"
| "int_part ISInt8 = CTP_SInt8" | "int_part ISInt16 = CTP_SInt16" | "int_part ISInt32 = CTP_SInt32" | "int_part ISInt64 = CTP_SInt64"

lemma uint_bounds: "0 \<le> uint (w :: 'a::len word) \<and> uint w < 2 ^ LENGTH('a)"
  using uint_lt2p [of w] by simp

lemma sint_bounds: "- (2 ^ (LENGTH('a) - 1)) \<le> sint (w :: 'a::len word) \<and> sint w < 2 ^ (LENGTH('a) - 1)"
  using sint_greater_eq [of w] sint_less [of w] by simp

lemmas word_bounds = uint_bounds [where 'a = 8, simplified] uint_bounds [where 'a = 16, simplified]
  uint_bounds [where 'a = 32, simplified] uint_bounds [where 'a = 64, simplified]
  sint_bounds [where 'a = 8, simplified] sint_bounds [where 'a = 16, simplified]
  sint_bounds [where 'a = 32, simplified] sint_bounds [where 'a = 64, simplified]

lemma int_view_in_range: "int_view v = Some (ty, i) \<Longrightarrow> in_range ty i"
  by (cases v) (auto simp: in_range_def word_bounds)

lemma int_view_make: "in_range ty i \<Longrightarrow> int_view (int_make ty i) = Some (ty, i)"
  by (cases ty) (auto simp: in_range_def take_bit_int_eq_self signed_take_bit_int_eq_self unsigned_of_int signed_of_int)


lemma as_make:
  "ucast v = (word_of_int (uint v) :: 'b::len word)" "scast v = (word_of_int (sint v) :: 'b::len word)"
  by simp_all

lemma smax_smin:
  "smax = (mask 7 :: 8 word)" "smin = (push_bit 7 1 :: 8 word)"
  "smax = (mask 15 :: 16 word)" "smin = (push_bit 15 1 :: 16 word)"
  "smax = (mask 31 :: 32 word)" "smin = (push_bit 31 1 :: 32 word)"
  "smax = (mask 63 :: 64 word)" "smin = (push_bit 63 1 :: 64 word)"
  by (simp_all add: smax_def smin_def)

lemma unsigned_limits:
  "uint (ucast (- 1 :: 8 word) :: 8 word) = 255"
  "uint (scast (mask 7 :: 8 word) :: 8 word) = 127"
  "uint (ucast (- 1 :: 16 word) :: 8 word) = 255"
  "uint (scast (mask 15 :: 16 word) :: 8 word) = 255"
  "uint (ucast (- 1 :: 32 word) :: 8 word) = 255"
  "uint (scast (mask 31 :: 32 word) :: 8 word) = 255"
  "uint (ucast (- 1 :: 64 word) :: 8 word) = 255"
  "uint (scast (mask 63 :: 64 word) :: 8 word) = 255"
  "uint (ucast (- 1 :: 8 word) :: 16 word) = 255"
  "uint (scast (mask 7 :: 8 word) :: 16 word) = 127"
  "uint (ucast (- 1 :: 16 word) :: 16 word) = 65535"
  "uint (scast (mask 15 :: 16 word) :: 16 word) = 32767"
  "uint (ucast (- 1 :: 32 word) :: 16 word) = 65535"
  "uint (scast (mask 31 :: 32 word) :: 16 word) = 65535"
  "uint (ucast (- 1 :: 64 word) :: 16 word) = 65535"
  "uint (scast (mask 63 :: 64 word) :: 16 word) = 65535"
  "uint (ucast (- 1 :: 8 word) :: 32 word) = 255"
  "uint (scast (mask 7 :: 8 word) :: 32 word) = 127"
  "uint (ucast (- 1 :: 16 word) :: 32 word) = 65535"
  "uint (scast (mask 15 :: 16 word) :: 32 word) = 32767"
  "uint (ucast (- 1 :: 32 word) :: 32 word) = 4294967295"
  "uint (scast (mask 31 :: 32 word) :: 32 word) = 2147483647"
  "uint (ucast (- 1 :: 64 word) :: 32 word) = 4294967295"
  "uint (scast (mask 63 :: 64 word) :: 32 word) = 4294967295"
  "uint (ucast (- 1 :: 8 word) :: 64 word) = 255"
  "uint (scast (mask 7 :: 8 word) :: 64 word) = 127"
  "uint (ucast (- 1 :: 16 word) :: 64 word) = 65535"
  "uint (scast (mask 15 :: 16 word) :: 64 word) = 32767"
  "uint (ucast (- 1 :: 32 word) :: 64 word) = 4294967295"
  "uint (scast (mask 31 :: 32 word) :: 64 word) = 2147483647"
  "uint (ucast (- 1 :: 64 word) :: 64 word) = 18446744073709551615"
  "uint (scast (mask 63 :: 64 word) :: 64 word) = 9223372036854775807"
  by code_simp+

lemma signed_limits:
  "sint (ucast (- 1 :: 8 word) AND mask 7 :: 8 word) = 127"
  "sint (scast (mask 7 :: 8 word) AND mask 7 :: 8 word) = 127"
  "sint (scast (push_bit 7 1 :: 8 word) OR push_bit 7 1 :: 8 word) = - 128"
  "sint (ucast (- 1 :: 16 word) AND mask 7 :: 8 word) = 127"
  "sint (scast (mask 15 :: 16 word) AND mask 7 :: 8 word) = 127"
  "sint (scast (push_bit 15 1 :: 16 word) OR push_bit 7 1 :: 8 word) = - 128"
  "sint (ucast (- 1 :: 32 word) AND mask 7 :: 8 word) = 127"
  "sint (scast (mask 31 :: 32 word) AND mask 7 :: 8 word) = 127"
  "sint (scast (push_bit 31 1 :: 32 word) OR push_bit 7 1 :: 8 word) = - 128"
  "sint (ucast (- 1 :: 64 word) AND mask 7 :: 8 word) = 127"
  "sint (scast (mask 63 :: 64 word) AND mask 7 :: 8 word) = 127"
  "sint (scast (push_bit 63 1 :: 64 word) OR push_bit 7 1 :: 8 word) = - 128"
  "sint (ucast (- 1 :: 8 word) AND mask 15 :: 16 word) = 255"
  "sint (scast (mask 7 :: 8 word) AND mask 15 :: 16 word) = 127"
  "sint (scast (push_bit 7 1 :: 8 word) OR push_bit 15 1 :: 16 word) = - 128"
  "sint (ucast (- 1 :: 16 word) AND mask 15 :: 16 word) = 32767"
  "sint (scast (mask 15 :: 16 word) AND mask 15 :: 16 word) = 32767"
  "sint (scast (push_bit 15 1 :: 16 word) OR push_bit 15 1 :: 16 word) = - 32768"
  "sint (ucast (- 1 :: 32 word) AND mask 15 :: 16 word) = 32767"
  "sint (scast (mask 31 :: 32 word) AND mask 15 :: 16 word) = 32767"
  "sint (scast (push_bit 31 1 :: 32 word) OR push_bit 15 1 :: 16 word) = - 32768"
  "sint (ucast (- 1 :: 64 word) AND mask 15 :: 16 word) = 32767"
  "sint (scast (mask 63 :: 64 word) AND mask 15 :: 16 word) = 32767"
  "sint (scast (push_bit 63 1 :: 64 word) OR push_bit 15 1 :: 16 word) = - 32768"
  "sint (ucast (- 1 :: 8 word) AND mask 31 :: 32 word) = 255"
  "sint (scast (mask 7 :: 8 word) AND mask 31 :: 32 word) = 127"
  "sint (scast (push_bit 7 1 :: 8 word) OR push_bit 31 1 :: 32 word) = - 128"
  "sint (ucast (- 1 :: 16 word) AND mask 31 :: 32 word) = 65535"
  "sint (scast (mask 15 :: 16 word) AND mask 31 :: 32 word) = 32767"
  "sint (scast (push_bit 15 1 :: 16 word) OR push_bit 31 1 :: 32 word) = - 32768"
  "sint (ucast (- 1 :: 32 word) AND mask 31 :: 32 word) = 2147483647"
  "sint (scast (mask 31 :: 32 word) AND mask 31 :: 32 word) = 2147483647"
  "sint (scast (push_bit 31 1 :: 32 word) OR push_bit 31 1 :: 32 word) = - 2147483648"
  "sint (ucast (- 1 :: 64 word) AND mask 31 :: 32 word) = 2147483647"
  "sint (scast (mask 63 :: 64 word) AND mask 31 :: 32 word) = 2147483647"
  "sint (scast (push_bit 63 1 :: 64 word) OR push_bit 31 1 :: 32 word) = - 2147483648"
  "sint (ucast (- 1 :: 8 word) AND mask 63 :: 64 word) = 255"
  "sint (scast (mask 7 :: 8 word) AND mask 63 :: 64 word) = 127"
  "sint (scast (push_bit 7 1 :: 8 word) OR push_bit 63 1 :: 64 word) = - 128"
  "sint (ucast (- 1 :: 16 word) AND mask 63 :: 64 word) = 65535"
  "sint (scast (mask 15 :: 16 word) AND mask 63 :: 64 word) = 32767"
  "sint (scast (push_bit 15 1 :: 16 word) OR push_bit 63 1 :: 64 word) = - 32768"
  "sint (ucast (- 1 :: 32 word) AND mask 63 :: 64 word) = 4294967295"
  "sint (scast (mask 31 :: 32 word) AND mask 63 :: 64 word) = 2147483647"
  "sint (scast (push_bit 31 1 :: 32 word) OR push_bit 63 1 :: 64 word) = - 2147483648"
  "sint (ucast (- 1 :: 64 word) AND mask 63 :: 64 word) = 9223372036854775807"
  "sint (scast (mask 63 :: 64 word) AND mask 63 :: 64 word) = 9223372036854775807"
  "sint (scast (push_bit 63 1 :: 64 word) OR push_bit 63 1 :: 64 word) = - 9223372036854775808"
  by code_simp+

definition exact :: "IntType \<Rightarrow> int \<Rightarrow> (Value, CastError) res" where
  "exact tgt i = (if in_range tgt i then Ok (int_make tgt i) else Err (DoesNotFit i (int_part tgt)))"

lemma neg_le_uint: "- numeral n \<le> uint v"
  by (rule order_trans [OF _ uint_ge_0]) simp

lemmas cast_rules = int_part.simps from_unsigned_cast.simps from_signed_cast.simps cast_if_def word_le_def word_sle_eq
  smax_smin unsigned_limits signed_limits sint_0 neg_le_uint
  exact_def in_range_def int_signed.simps int_bits.simps if_True if_False int_make.simps

lemma unsigned_exact:
  "from_unsigned_cast (v8 :: u8) (int_part tgt) = exact tgt (uint v8)"
  "from_unsigned_cast (v16 :: u16) (int_part tgt) = exact tgt (uint v16)"
  "from_unsigned_cast (v32 :: u32) (int_part tgt) = exact tgt (uint v32)"
  "from_unsigned_cast (v64 :: u64) (int_part tgt) = exact tgt (uint v64)"
     apply (cases tgt; simp only: cast_rules; use word_bounds(1) [of v8] in \<open>simp add: neg_le_uint\<close>)
    apply (cases tgt; simp only: cast_rules; use word_bounds(2) [of v16] in \<open>simp add: neg_le_uint\<close>)
   apply (cases tgt; simp only: cast_rules; use word_bounds(3) [of v32] in \<open>simp add: neg_le_uint\<close>)
  apply (cases tgt; simp only: cast_rules; use word_bounds(4) [of v64] in \<open>simp add: neg_le_uint\<close>)
  done

lemma signed_exact:
  "from_signed_cast max_fn (v8 :: u8) (int_part tgt) = exact tgt (sint v8)"
  "from_signed_cast max_fn (v16 :: u16) (int_part tgt) = exact tgt (sint v16)"
  "from_signed_cast max_fn (v32 :: u32) (int_part tgt) = exact tgt (sint v32)"
  "from_signed_cast max_fn (v64 :: u64) (int_part tgt) = exact tgt (sint v64)"
     apply (cases tgt; simp only: cast_rules; use word_bounds(5) [of v8] in auto)
    apply (cases tgt; simp only: cast_rules; use word_bounds(6) [of v16] in auto)
   apply (cases tgt; simp only: cast_rules; use word_bounds(7) [of v32] in auto)
  apply (cases tgt; simp only: cast_rules; use word_bounds(8) [of v64] in auto)
  done

lemma cast_simple_exact: "int_view v = Some (ty, i) \<Longrightarrow> cast_simple max_fn v (int_part tgt) = exact tgt i"
  by (cases v) (auto simp: unsigned_exact signed_exact)

lemma simple_int_part: "simple_type (int_part tgt)"
  by (cases tgt) (simp_all add: simple_type_def)

text \<open>
  C27: casts between integers are exact. A cast to an integer type returns the value of that
  type with the same numeric value when there is one, and else the error that names the
  value and the type; the store is unchanged.
\<close>

theorem cast_exact:
  assumes "maybe_read_ref st subject = (Ok v :: (Value, CastError) res)" "int_view v = Some (ty, i)"
  shows "(in_range tgt i \<longrightarrow> (\<exists>v'. apply_casting max_fn debug fuel st [int_part tgt] subject = Ok (v', st) \<and> int_view v' = Some (tgt, i))) \<and>
    (\<not> in_range tgt i \<longrightarrow> apply_casting max_fn debug fuel st [int_part tgt] subject = Err (DoesNotFit i (int_part tgt)))"
  using cast_simple_exact [OF assms(2), of max_fn tgt] assms(1) int_view_make [of tgt i]
  by (auto simp: apply_casting_def vec_get_def simple_int_part exact_def)

theorem cast_exact_witness:
  "apply_casting 0 True 1 Store_new [CTP_SInt8] (VUInt16 200) = Err (DoesNotFit 200 CTP_SInt8)"
  using cast_exact [of Store_new "VUInt16 200" "VUInt16 200" IUInt16 200 ISInt8 0 True 1]
  by (simp add: maybe_read_ref_def in_range_def)

end
