(* ===== verification/Value_Groups.thy ===== *)
theory Value_Groups
  imports Eval_Heap
begin

text \<open>
  Groups of values outside of a store (\<open>ValueGroup\<close> in \<open>src/protocol/eval/value.rs\<close>), which
  carry the arguments of a new component from the store of its creator to its own. Seen as
  a store without a stack and without free regions, a group has owned values like a store.
\<close>

record ValueGroup =
  gvalues :: "Value list"
  gregions :: "Value list list"

text \<open>\<open>new_stack\<close> asserts, in a debug build, that no value has a heap position.\<close>

definition group_new_stack :: "bool \<Rightarrow> Value list \<Rightarrow> (ValueGroup, 'e) res" where
  "group_new_stack debug vs =
     (if debug \<and> \<not> list_all (\<lambda>v. get_heap_pos v = None) vs then Panic else Ok \<lparr>gvalues = vs, gregions = []\<rparr>)"

definition ValueGroup_default :: ValueGroup where
  "ValueGroup_default = \<lparr>gvalues = [], gregions = []\<rparr>"

fun retrieve_value :: "nat \<Rightarrow> Value \<Rightarrow> Store \<Rightarrow> ValueGroup \<Rightarrow> (Value \<times> ValueGroup, 'e) res"
and retrieve_values :: "nat \<Rightarrow> Value list \<Rightarrow> Store \<Rightarrow> Value list \<Rightarrow> ValueGroup \<Rightarrow> (Value list \<times> ValueGroup, 'e) res" where
  "retrieve_value 0 v st g = OutOfFuel"
| "retrieve_value (Suc fuel) v st g =
     bind_res (maybe_read_ref st v) (\<lambda>w.
     case get_heap_pos w of
       Some heap_pos \<Rightarrow>
         bind_res (region st heap_pos) (\<lambda>from_region.
         bind_res (retrieve_values fuel from_region st [] g) (\<lambda>(new_region, g').
         bind_res (unwrap (with_heap_pos w (of_nat (length (gregions g'))))) (\<lambda>w'.
         Ok (w', g'\<lparr>gregions := gregions g' @ [new_region]\<rparr>))))
     | None \<Rightarrow> Ok (w, g))"
| "retrieve_values fuel [] st new_region g = Ok (new_region, g)"
| "retrieve_values fuel (v # vs) st new_region g =
     bind_res (case fuel of 0 \<Rightarrow> OutOfFuel | Suc f \<Rightarrow> retrieve_value f v st g) (\<lambda>(transferred, g').
     retrieve_values fuel vs st (new_region @ [transferred]) g')"

fun from_store_loop :: "nat \<Rightarrow> Store \<Rightarrow> Value list \<Rightarrow> ValueGroup \<Rightarrow> (ValueGroup, 'e) res" where
  "from_store_loop fuel st [] g = Ok g"
| "from_store_loop fuel st (v # vs) g =
     bind_res (retrieve_value fuel v st g) (\<lambda>(transferred, g').
     from_store_loop fuel st vs (g'\<lparr>gvalues := gvalues g' @ [transferred]\<rparr>))"

definition group_from_store :: "nat \<Rightarrow> Store \<Rightarrow> Value list \<Rightarrow> (ValueGroup, 'e) res" where
  "group_from_store fuel st vs = from_store_loop fuel st vs \<lparr>gvalues = [], gregions = []\<rparr>"

fun provide_value :: "nat \<Rightarrow> Value \<Rightarrow> ValueGroup \<Rightarrow> Store \<Rightarrow> (Value \<times> Store, 'e) res"
and provide_values :: "nat \<Rightarrow> Value list \<Rightarrow> ValueGroup \<Rightarrow> HeapPos \<Rightarrow> Store \<Rightarrow> (Store, 'e) res" where
  "provide_value 0 v g st = OutOfFuel"
| "provide_value (Suc fuel) v g st =
     (case get_heap_pos v of
        Some from_heap_pos \<Rightarrow>
          (let (to_heap_pos, st1) = alloc_heap st in
           bind_res (region st1 to_heap_pos) (\<lambda>_.
           bind_res (vec_get (gregions g) (unat from_heap_pos)) (\<lambda>vs.
           bind_res (provide_values fuel vs g to_heap_pos st1) (\<lambda>st2.
           bind_res (unwrap (with_heap_pos v to_heap_pos)) (\<lambda>v'.
           Ok (v', st2))))))
      | None \<Rightarrow> Ok (v, st))"
| "provide_values fuel [] g to_heap_pos st = Ok st"
| "provide_values fuel (v # vs) g to_heap_pos st =
     bind_res (case fuel of 0 \<Rightarrow> OutOfFuel | Suc f \<Rightarrow> provide_value f v g st) (\<lambda>(transferred, st1).
     bind_res (region st1 to_heap_pos) (\<lambda>ws.
     provide_values fuel vs g to_heap_pos (set_region to_heap_pos (ws @ [transferred]) st1)))"

fun into_store_loop :: "nat \<Rightarrow> Value list \<Rightarrow> ValueGroup \<Rightarrow> Store \<Rightarrow> (Store, 'e) res" where
  "into_store_loop fuel [] g st = Ok st"
| "into_store_loop fuel (v # vs) g st =
     bind_res (provide_value fuel v g st) (\<lambda>(transferred, st').
     into_store_loop fuel vs g (st'\<lparr>stack := stack st' @ [transferred]\<rparr>))"

definition group_into_store :: "nat \<Rightarrow> ValueGroup \<Rightarrow> Store \<Rightarrow> (Store, 'e) res" where
  "group_into_store fuel g st = into_store_loop fuel (gvalues g) g st"

section \<open>Into a group\<close>

definition group_store :: "ValueGroup \<Rightarrow> Store" where
  "group_store g = \<lparr>stack = [], cur_stack_boundary = 0, heap_regions = gregions g, free_regions = []\<rparr>"

lemma live_group: "live (group_store g) p \<longleftrightarrow> unat p < length (gregions g)"
  by (simp add: live_def group_store_def)

lemma extends_group: "gregions g' = gregions g @ new \<Longrightarrow> extends (group_store g) (group_store g')"
  by (simp add: extends_but_def live_group) (simp add: group_store_def nth_append)

lemma retrieve_owned:
  "owned st v t F \<Longrightarrow> length (gregions g) + nodes t \<le> 2 ^ 32 \<Longrightarrow>
     \<exists>v' g' new F'. (\<forall>fuel \<ge> depth t. retrieve_value fuel v st g = (Ok (v', g') :: (Value \<times> ValueGroup, 'e) res)) \<and>
       gregions g' = gregions g @ new \<and> length new = nodes t \<and> gvalues g' = gvalues g \<and> owned (group_store g') v' t F'"
  and retrieve_owned_all:
  "owned_all st vs ts F \<Longrightarrow> length (gregions g) + sum_list (map nodes ts) \<le> 2 ^ 32 \<Longrightarrow>
     \<exists>vs' g' new F'. (\<forall>acc. \<forall>fuel > fold max (map depth ts) 0. retrieve_values fuel vs st acc g = (Ok (acc @ vs', g') :: (Value list \<times> ValueGroup, 'e) res)) \<and>
       gregions g' = gregions g @ new \<and> length new = sum_list (map nodes ts) \<and> gvalues g' = gvalues g \<and> owned_all (group_store g') vs' ts F'"
proof (induction arbitrary: g and g rule: owned_owned_all.inducts)
  case (leaf v)
  have "maybe_read_ref st v = (Ok v :: (Value, 'e) res)"
    by (rule owned_maybe_read_ref [OF owned_owned_all.leaf [OF leaf(1,2)]])
  then have "retrieve_value fuel v st g = (Ok (v, g) :: (Value \<times> ValueGroup, 'e) res)" if "fuel \<ge> 1" for fuel
    using that leaf(1) by (cases fuel) auto
  moreover have "owned (group_store g) v (Leaf v) []" by (rule owned_owned_all.leaf [OF leaf(1,2)])
  ultimately show ?case by (intro exI [of _ v] exI [of _ g] exI [of _ "[]"] conjI) auto
next
  case (node v p k ts F)
  have read: "maybe_read_ref st v = (Ok v :: (Value, 'e) res)"
    by (rule owned_maybe_read_ref [OF owned_owned_all.node [OF node(1-4)]])
  have "length (gregions g) + sum_list (map nodes ts) \<le> 2 ^ 32" using node.prems by simp
  from node(5) [OF this] obtain vs' g1 new F' where g1: "\<forall>acc. \<forall>fuel > fold max (map depth ts) 0.
      retrieve_values fuel (heap_regions st ! unat p) st acc g = (Ok (acc @ vs', g1) :: (Value list \<times> ValueGroup, 'e) res)"
      "gregions g1 = gregions g @ new" "length new = sum_list (map nodes ts)" "gvalues g1 = gvalues g" "owned_all (group_store g1) vs' ts F'"
    by blast
  let ?q = "of_nat (length (gregions g1)) :: HeapPos" and ?g' = "g1\<lparr>gregions := gregions g1 @ [vs']\<rparr>"
  have q: "unat ?q = length (gregions g1)" by (rule unat_of_nat_u32) (use node.prems g1(2,3) in simp)
  obtain v' where v': "with_heap_pos v ?q = Some v'" "get_heap_pos v' = Some ?q" "with_heap_pos v' 0 = Some k"
    using node(1,2) by (cases v) auto
  have "retrieve_value fuel v st g = (Ok (v', ?g') :: (Value \<times> ValueGroup, 'e) res)" if "fuel \<ge> depth (Node k ts)" for fuel
  proof -
    from that obtain f where "fuel = Suc f" "fold max (map depth ts) 0 < f" by (cases fuel) auto
    with g1(1) read node(1,3) v'(1) show ?thesis by (simp add: region_live)
  qed
  moreover have "owned (group_store ?g') v' (Node k ts) (F' @ [?q])"
  proof (rule owned_owned_all.node [OF v'(2,3)])
    show "live (group_store ?g') ?q" by (simp add: live_group q)
    have "owned_all (group_store ?g') vs' ts F'"
      using owned_all_extends [OF g1(5) extends_group [of ?g' g1 "[vs']"]] by simp
    then show "owned_all (group_store ?g') (heap_regions (group_store ?g') ! unat ?q) ts F'"
      by (simp add: q group_store_def)
  qed
  ultimately show ?case using g1(2-4)
    by (intro exI [of _ v'] exI [of _ ?g'] exI [of _ "new @ [vs']"] exI [of _ "F' @ [?q]"]) simp
next
  case owned_nil
  then show ?case by (intro exI [of _ "[]"] exI [of _ g]) (auto intro: owned_owned_all.owned_nil)
next
  case (owned_cons v t F vs ts G)
  have "length (gregions g) + nodes t \<le> 2 ^ 32" using owned_cons.prems by simp
  from owned_cons(2) [OF this] obtain v' g1 new F' where g1: "\<forall>fuel \<ge> depth t. retrieve_value fuel v st g = (Ok (v', g1) :: (Value \<times> ValueGroup, 'e) res)"
      "gregions g1 = gregions g @ new" "length new = nodes t" "gvalues g1 = gvalues g" "owned (group_store g1) v' t F'" by blast
  have "length (gregions g1) + sum_list (map nodes ts) \<le> 2 ^ 32" using owned_cons.prems g1(2,3) by simp
  from owned_cons(4) [OF this] obtain vs' g2 new2 G' where g2: "\<forall>acc. \<forall>fuel > fold max (map depth ts) 0.
      retrieve_values fuel vs st acc g1 = (Ok (acc @ vs', g2) :: (Value list \<times> ValueGroup, 'e) res)"
      "gregions g2 = gregions g1 @ new2" "length new2 = sum_list (map nodes ts)" "gvalues g2 = gvalues g1" "owned_all (group_store g2) vs' ts G'"
    by blast
  have "retrieve_values fuel (v # vs) st acc g = (Ok (acc @ v' # vs', g2) :: (Value list \<times> ValueGroup, 'e) res)"
    if "fuel > fold max (map depth (t # ts)) 0" for fuel acc
  proof -
    have "depth t < fuel" "fold max (map depth ts) 0 < fuel" using that fold_max_Cons [of "depth t" "map depth ts"] by auto
    then show ?thesis using g1(1) g2(1) by (cases fuel) auto
  qed
  moreover have "owned_all (group_store g2) (v' # vs') (t # ts) (F' @ G')"
    using owned_extends [OF g1(5) extends_group [OF g2(2)]] g2(5) by (auto intro: owned_owned_all.owned_cons)
  ultimately show ?case using g1(2-4) g2(2-4)
    by (intro exI [of _ "v' # vs'"] exI [of _ g2] exI [of _ "new @ new2"] exI [of _ "F' @ G'"]) simp
qed

section \<open>Into a store\<close>

lemma provide_owned:
  "owned (group_store g) v t F \<Longrightarrow> store_wf st \<Longrightarrow> length (heap_regions st) + nodes t \<le> 2 ^ 32 \<Longrightarrow>
     \<exists>v' st'. (\<forall>fuel \<ge> depth t. provide_value fuel v g st = (Ok (v', st') :: (Value \<times> Store, 'e) res)) \<and> copied st t v' st'"
  and provide_owned_all:
  "owned_all (group_store g) vs ts F \<Longrightarrow> store_wf st \<Longrightarrow> length (heap_regions st) + sum_list (map nodes ts) \<le> 2 ^ 32 \<Longrightarrow> live st tgt \<Longrightarrow>
     \<exists>vs' st'. (\<forall>fuel > fold max (map depth ts) 0. provide_values fuel vs g tgt st = (Ok st' :: (Store, 'e) res)) \<and> copied_all tgt st ts vs' st'"
proof (induction arbitrary: st and st tgt rule: owned_owned_all.inducts)
  case (leaf v)
  have "provide_value fuel v g st = (Ok (v, st) :: (Value \<times> Store, 'e) res)" if "fuel \<ge> 1" for fuel
    using that leaf(1) by (cases fuel) auto
  moreover have "copied st (Leaf v) v st"
    using leaf owned_owned_all.leaf [of v st] by (auto simp: copied_def)
  ultimately show ?case by auto
next
  case (node v p k ts F)
  obtain tgt st1 where alloc: "alloc_heap st = (tgt, st1)" by fastforce
  have room: "length (heap_regions st) < 2 ^ 32" using node.prems(2) by simp
  note fresh = alloc_heap_fresh [OF node.prems(1) room alloc]
  have "length (heap_regions st1) + sum_list (map nodes ts) \<le> 2 ^ 32" using node.prems(2) fresh(6) by simp
  from node(5) [OF fresh(5) this fresh(2)] obtain vs' st' where cl: "\<forall>fuel > fold max (map depth ts) 0.
      provide_values fuel (heap_regions (group_store g) ! unat p) g tgt st1 = (Ok st' :: (Store, 'e) res)" "copied_all tgt st1 ts vs' st'" by blast
  obtain v' where v': "with_heap_pos v tgt = Some v'" "get_heap_pos v' = Some tgt" "with_heap_pos v' 0 = Some k"
    using node(1,2) by (cases v) auto
  have "provide_value fuel v g st = (Ok (v', st') :: (Value \<times> Store, 'e) res)" if "fuel \<ge> depth (Node k ts)" for fuel
  proof -
    from that obtain f where "fuel = Suc f" "f > fold max (map depth ts) 0" by (cases fuel) auto
    with cl(1) node(1,3) alloc v'(1) fresh(2) show ?thesis
      by (simp add: region_live live_group vec_get_def) (simp add: group_store_def)
  qed
  then show ?case using copied_node [OF cl(2) fresh v'(2,3)] by blast
next
  case owned_nil
  then show ?case by (auto intro!: exI [of _ "[]"] exI [of _ st] copied_all_nil)
next
  case (owned_cons v t F vs ts G)
  obtain c st2 where c: "\<forall>fuel \<ge> depth t. provide_value fuel v g st = (Ok (c, st2) :: (Value \<times> Store, 'e) res)" "copied st t c st2"
    using owned_cons(2) [OF owned_cons.prems(1)] owned_cons.prems(2) by auto
  let ?st3 = "set_region tgt (heap_regions st2 ! unat tgt @ [c]) st2"
  have tgt: "live st2 tgt" using c(2) owned_cons.prems(3) by (auto simp: copied_def extends_but_def)
  have "store_wf ?st3" using c(2) tgt by (auto simp: copied_def intro: store_wf_set_region)
  moreover have "length (heap_regions ?st3) + sum_list (map nodes ts) \<le> 2 ^ 32"
    using c(2) owned_cons.prems(2) by (simp add: copied_def)
  moreover have "live ?st3 tgt" using tgt by simp
  ultimately obtain cs st' where cs: "\<forall>fuel > fold max (map depth ts) 0.
      provide_values fuel vs g tgt ?st3 = (Ok st' :: (Store, 'e) res)" "copied_all tgt ?st3 ts cs st'"
    using owned_cons(4) by blast
  have "provide_values fuel (v # vs) g tgt st = (Ok st' :: (Store, 'e) res)"
    if "fuel > fold max (map depth (t # ts)) 0" for fuel
  proof -
    have "depth t < fuel" "fold max (map depth ts) 0 < fuel" using that fold_max_Cons [of "depth t" "map depth ts"] by auto
    then show ?thesis using c(1) cs(1) tgt by (cases fuel) (auto simp: region_live)
  qed
  moreover have "copied_all tgt st (t # ts) (c # cs) st'"
    by (rule copied_all_cons [OF c(2) owned_cons.prems(3) cs(2)])
  ultimately show ?case by blast
qed

definition denotes_all :: "Store \<Rightarrow> Value list \<Rightarrow> vtree list \<Rightarrow> bool" where
  "denotes_all st vs ts \<longleftrightarrow> list_all2 (\<lambda>v t. \<exists>F. denotes st v t F) vs ts"

lemma retrieve_denotes:
  assumes "denotes st v t F" "length (gregions g) + nodes t \<le> 2 ^ 32" "depth t \<le> fuel"
  obtains v' g' new F' where "retrieve_value fuel v st g = (Ok (v', g') :: (Value \<times> ValueGroup, 'e) res)"
    "gregions g' = gregions g @ new" "length new = nodes t" "gvalues g' = gvalues g" "owned (group_store g') v' t F'"
proof -
  obtain w where w: "maybe_read_ref st v = (Ok w :: (Value, 'e) res)" "owned st w t F"
    using denotes_read [where 'e = 'e, OF assms(1)] by blast
  have "(retrieve_value fuel v st g :: (Value \<times> ValueGroup, 'e) res) = retrieve_value fuel w st g"
    using w(1) owned_maybe_read_ref [where 'a = 'e, OF w(2)] by (cases fuel) simp_all
  with retrieve_owned [where 'e = 'e, OF w(2) assms(2)] assms(3) that show thesis by metis
qed

lemma from_store_ok:
  assumes "denotes_all st vs ts" "length (gregions g) + sum_list (map nodes ts) \<le> 2 ^ 32" "\<forall>t \<in> set ts. depth t \<le> fuel"
  obtains vs' g' new F' where "from_store_loop fuel st vs g = (Ok g' :: (ValueGroup, 'e) res)"
    "gregions g' = gregions g @ new" "gvalues g' = gvalues g @ vs'" "owned_all (group_store g') vs' ts F'"
  using assms
proof (induction vs arbitrary: ts g thesis)
  case Nil
  then show ?case by (intro Nil.prems(1) [of g "[]" "[]" "[]"]) (auto simp: denotes_all_def intro: owned_owned_all.owned_nil)
next
  case (Cons v vs)
  from Cons.prems(2) obtain t ts' F where ts: "ts = t # ts'" "denotes st v t F" "denotes_all st vs ts'"
    by (auto simp: denotes_all_def list_all2_Cons1)
  have room: "length (gregions g) + nodes t \<le> 2 ^ 32" "depth t \<le> fuel" using Cons.prems(3,4) ts(1) by simp_all
  obtain v' g1 new F' where g1: "retrieve_value fuel v st g = (Ok (v', g1) :: (Value \<times> ValueGroup, 'e) res)"
    "gregions g1 = gregions g @ new" "length new = nodes t" "gvalues g1 = gvalues g" "owned (group_store g1) v' t F'"
    by (rule retrieve_denotes [where 'e = 'e, OF ts(2) room]) (rule that)
  let ?g2 = "g1\<lparr>gvalues := gvalues g1 @ [v']\<rparr>"
  have prem: "length (gregions ?g2) + sum_list (map nodes ts') \<le> 2 ^ 32" "\<forall>t \<in> set ts'. depth t \<le> fuel"
    using Cons.prems(3,4) ts(1) g1(2,3) by auto
  obtain vs' g3 new3 G' where g3: "from_store_loop fuel st vs ?g2 = (Ok g3 :: (ValueGroup, 'e) res)"
    "gregions g3 = gregions ?g2 @ new3" "gvalues g3 = gvalues ?g2 @ vs'" "owned_all (group_store g3) vs' ts' G'"
    by (rule Cons.IH [OF _ ts(3) prem]) (rule that)
  have "owned (group_store g3) v' t F'"
    by (rule owned_extends [OF g1(5) extends_group [of g3 g1 new3]]) (use g3(2) in simp_all)
  with g1 g3 ts(1) show ?case
    by (intro Cons.prems(1) [of g3 "new @ new3" "v' # vs'" "F' @ G'"]) (auto intro: owned_owned_all.owned_cons)
qed

lemma into_store_ok:
  assumes "owned_all (group_store g) vs ts F" "store_wf st" "length (heap_regions st) + sum_list (map nodes ts) \<le> 2 ^ 32"
    and "\<forall>t \<in> set ts. depth t \<le> fuel"
  obtains vs' st' H where "into_store_loop fuel vs g st = (Ok st' :: (Store, 'e) res)" "stack st' = stack st @ vs'" "store_wf st'"
    "owned_all st' vs' ts H" "distinct H" "\<forall>p \<in> set H. \<not> live st p" "\<forall>p. live st p \<longrightarrow> same_region st st' p"
  using assms
proof (induction vs arbitrary: ts F st thesis)
  case Nil
  then have "ts = []" by (simp add: owned_all_simps)
  with Nil show ?case by (intro Nil.prems(1) [of st "[]" "[]"]) (auto simp: same_region_def intro: owned_owned_all.owned_nil)
next
  case (Cons v vs)
  from Cons.prems(2) obtain t ts' F1 F2 where ts: "ts = t # ts'" "owned (group_store g) v t F1" "owned_all (group_store g) vs ts' F2"
    by (auto simp: owned_all_simps)
  have "length (heap_regions st) + nodes t \<le> 2 ^ 32" using Cons.prems(4) ts(1) by simp
  from provide_owned [where 'e = 'e, OF ts(2) Cons.prems(3) this] obtain v' st1 where
    st1: "provide_value fuel v g st = (Ok (v', st1) :: (Value \<times> Store, 'e) res)" "copied st t v' st1"
    using Cons.prems(5) ts(1) by auto
  let ?st2 = "st1\<lparr>stack := stack st1 @ [v']\<rparr>"
  have same: "same_region st1 ?st2 p \<longleftrightarrow> live st1 p" "live ?st2 p \<longleftrightarrow> live st1 p" for p
    by (simp_all add: same_region_def live_def)
  have wf2: "store_wf ?st2" using st1(2) by (simp add: copied_def store_wf_def)
  from st1(2) obtain F' where F': "owned st1 v' t F'" "distinct F'" "\<forall>p \<in> set F'. \<not> live st p" by (auto simp: copied_def)
  have prem: "length (heap_regions ?st2) + sum_list (map nodes ts') \<le> 2 ^ 32" "\<forall>t \<in> set ts'. depth t \<le> fuel"
    using Cons.prems(4,5) ts(1) st1(2) by (simp_all add: copied_def)
  obtain vs' st' H where st': "into_store_loop fuel vs g ?st2 = (Ok st' :: (Store, 'e) res)" "stack st' = stack ?st2 @ vs'" "store_wf st'"
    "owned_all st' vs' ts' H" "distinct H" "\<forall>p \<in> set H. \<not> live ?st2 p" "\<forall>p. live ?st2 p \<longrightarrow> same_region ?st2 st' p"
    by (rule Cons.IH [OF _ ts(3) wf2 prem]) (rule that)
  have "owned ?st2 v' t F'" by (rule owned_frame [OF F'(1)]) (auto simp: same dest: owned_live [OF F'(1)])
  then have own: "owned st' v' t F'" by (rule owned_frame) (use st'(7) owned_live [OF F'(1)] same(2) in auto)
  have "\<forall>p. live st p \<longrightarrow> same_region st st' p"
    using st1(2) st'(7) same(2) by (auto simp: copied_def extends_but_def same_region_def)
  moreover have "stack st' = stack st @ v' # vs'" using st1(2) st'(2) by (simp add: copied_def extends_but_def)
  moreover have "distinct (F' @ H)" using F'(2) st'(5,6) owned_live [OF F'(1)] same(2) by auto
  moreover have "\<forall>p \<in> set (F' @ H). \<not> live st p"
    using F'(3) st'(6) st1(2) same(2) by (auto simp: copied_def extends_but_def)
  moreover have "owned_all st' (v' # vs') (t # ts') (F' @ H)" using own st'(4) by (rule owned_owned_all.owned_cons)
  ultimately show ?case using st1(1) st'(1,3) ts(1) by (intro Cons.prems(1) [of st' "v' # vs'" "F' @ H"]) simp_all
qed

text \<open>
  C28: a group carries values from one store to another unchanged. Values read from one store
  into a group and written from the group into another store are pushed onto its stack in
  order, denote the same trees, own fresh regions that they do not share, and leave the
  values that the other store had as they were.
\<close>

theorem group_transfers:
  assumes "denotes_all st vs ts" "sum_list (map nodes ts) \<le> 2 ^ 32" "\<forall>t \<in> set ts. depth t \<le> fuel"
    and "store_wf to_store" "length (heap_regions to_store) + sum_list (map nodes ts) \<le> 2 ^ 32"
  shows "\<exists>g st' vs' H. group_from_store fuel st vs = (Ok g :: (ValueGroup, 'e) res) \<and> group_into_store fuel g to_store = (Ok st' :: (Store, 'e) res) \<and>
    stack st' = stack to_store @ vs' \<and> store_wf st' \<and> owned_all st' vs' ts H \<and> distinct H \<and>
    (\<forall>w u G. owned to_store w u G \<longrightarrow> owned st' w u G \<and> set G \<inter> set H = {})"
proof -
  let ?g0 = "\<lparr>gvalues = [], gregions = []\<rparr> :: ValueGroup"
  obtain ws g new F where g: "from_store_loop fuel st vs ?g0 = (Ok g :: (ValueGroup, 'e) res)"
    "gvalues g = ws" "owned_all (group_store g) ws ts F"
    by (rule from_store_ok [where 'e = 'e, OF assms(1), of ?g0]) (use assms(2,3) in auto)
  obtain vs' st' H where st': "into_store_loop fuel ws g to_store = (Ok st' :: (Store, 'e) res)" "stack st' = stack to_store @ vs'" "store_wf st'"
    "owned_all st' vs' ts H" "distinct H" "\<forall>p \<in> set H. \<not> live to_store p" "\<forall>p. live to_store p \<longrightarrow> same_region to_store st' p"
    by (rule into_store_ok [where 'e = 'e, OF g(3) assms(4,5,3)]) (rule that)
  have "owned st' w u G \<and> set G \<inter> set H = {}" if "owned to_store w u G" for w u G
    using owned_frame [OF that, of st'] owned_live [OF that] st'(6,7) by auto
  with g st' show ?thesis unfolding group_from_store_def group_into_store_def by blast
qed

theorem group_transfers_witness:
  "\<exists>g st'. group_from_store 3 sample_store [VRef (Stack 0)] = (Ok g :: (ValueGroup, unit) res) \<and>
     group_into_store 3 g Store_new = (Ok st' :: (Store, unit) res) \<and> length (stack st') = 2"
proof -
  have "denotes_all sample_store [VRef (Stack 0)] [Node (VString 0) [Leaf (VChar 104), Leaf (VChar 105)]]"
    using sample_ref by (auto simp: denotes_all_def)
  from group_transfers [where 'e = unit, OF this _ _ store_wf_new, of 3] show ?thesis
    by (fastforce simp: Store_new_def dest: owned_all_length)
qed

end
