(* ===== verification/Predicates.thy ===== *)
theory Predicates
  imports Common_Ids
begin

text \<open>
  \<open>Predicate\<close> of \<open>src/runtime/mod.rs\<close>: a finite assignment of speculative values to
  speculative variables, kept in a \<open>BTreeMap\<close>. The abstraction \<open>pmap\<close> reads it as a
  partial function; on it the operations are map update, inclusion, lookup and least upper
  bound. The main lemmas: \<open>union_with\<close> returns exactly the union of two compatible
  assignments, and \<open>assignment_union\<close>, which walks the two sorted entry lists in
  parallel, agrees with \<open>union_with\<close> and classifies the two arguments correctly.
\<close>

section \<open>The type and its operations\<close>

record Predicate =
  assigned :: "(SpecVar, SpecVal) btree_map"

definition Predicate_default :: Predicate where
  "Predicate_default = \<lparr>assigned = []\<rparr>"

definition inserted :: "Predicate \<Rightarrow> SpecVar \<Rightarrow> SpecVal \<Rightarrow> Predicate" where
  "inserted p k v = p\<lparr>assigned := btm_insert k v (assigned p)\<rparr>"

definition singleton :: "SpecVar \<Rightarrow> SpecVal \<Rightarrow> Predicate" where
  "singleton k v = inserted Predicate_default k v"

definition query :: "Predicate \<Rightarrow> SpecVar \<Rightarrow> SpecVal option" where
  "query p var = map_of (assigned p) var"

fun assigns_subset_loop :: "(SpecVar \<times> SpecVal) list \<Rightarrow> Predicate \<Rightarrow> bool" where
  "assigns_subset_loop [] mbs = True"
| "assigns_subset_loop ((var, val) # it) mbs =
     (case map_of (assigned mbs) var of
        Some val2 \<Rightarrow> if val2 = val then assigns_subset_loop it mbs else False
      | None \<Rightarrow> False)"

definition assigns_subset :: "Predicate \<Rightarrow> Predicate \<Rightarrow> bool" where
  "assigns_subset p mbs = assigns_subset_loop (assigned p) mbs"

fun union_with_loop :: "(SpecVar \<times> SpecVal) list \<Rightarrow> Predicate \<Rightarrow> Predicate option" where
  "union_with_loop [] r = Some r"
| "union_with_loop ((channel_id, assignment_1) # it) r =
     (let r' = inserted r channel_id assignment_1 in
      case query r channel_id of
        Some assignment_2 \<Rightarrow>
          if assignment_1 \<noteq> assignment_2 then None else union_with_loop it r'
      | None \<Rightarrow> union_with_loop it r')"

definition union_with :: "Predicate \<Rightarrow> Predicate \<Rightarrow> Predicate option" where
  "union_with p other = union_with_loop (assigned other) p"

datatype AssignmentUnionResult =
    FormerNotLatter
  | LatterNotFormer
  | Equivalent
  | New Predicate
  | Nonexistant

text \<open>
  The loop of \<open>assignment_union\<close>. The two iterators, each with its peeked head, are the
  two remaining entry lists; the result is the pair of lists \<open>s_not_o\<close> and
  \<open>o_not_s\<close>, or \<open>None\<close> for the early return of \<open>Nonexistant\<close>.
\<close>

fun assignment_union_loop ::
  "(SpecVar \<times> SpecVal) list \<Rightarrow> (SpecVar \<times> SpecVal) list \<Rightarrow>
   (SpecVar \<times> SpecVal) list \<Rightarrow> (SpecVar \<times> SpecVal) list \<Rightarrow>
   ((SpecVar \<times> SpecVal) list \<times> (SpecVar \<times> SpecVal) list) option" where
  "assignment_union_loop [] [] s_not_o o_not_s = Some (s_not_o, o_not_s)"
| "assignment_union_loop [] (x # o_it) s_not_o o_not_s = Some (s_not_o, o_not_s @ x # o_it)"
| "assignment_union_loop (x # s_it) [] s_not_o o_not_s = Some (s_not_o @ x # s_it, o_not_s)"
| "assignment_union_loop ((sid, sb) # s_it) ((oid, ob) # o_it) s_not_o o_not_s =
     (if sid < oid then
        assignment_union_loop s_it ((oid, ob) # o_it) (s_not_o @ [(sid, sb)]) o_not_s
      else if sid > oid then
        assignment_union_loop ((sid, sb) # s_it) o_it s_not_o (o_not_s @ [(oid, ob)])
      else if sb \<noteq> ob then None
      else assignment_union_loop s_it o_it s_not_o o_not_s)"

definition assignment_union :: "Predicate \<Rightarrow> Predicate \<Rightarrow> AssignmentUnionResult" where
  "assignment_union p other =
     (case assignment_union_loop (assigned p) (assigned other) [] [] of
        None \<Rightarrow> Nonexistant
      | Some (s_not_o, o_not_s) \<Rightarrow>
          (if s_not_o = [] \<and> o_not_s = [] then Equivalent
           else if s_not_o \<noteq> [] \<and> o_not_s = [] then FormerNotLatter
           else if s_not_o = [] \<and> o_not_s \<noteq> [] then LatterNotFormer
           else New (p\<lparr>assigned := fold (\<lambda>(k, v). btm_insert k v) o_not_s (assigned p)\<rparr>)))"

section \<open>The abstraction to partial functions\<close>

definition pmap :: "Predicate \<Rightarrow> (SpecVar \<rightharpoonup> SpecVal)" where
  "pmap p = map_of (assigned p)"

definition pred_wf :: "Predicate \<Rightarrow> bool" where
  "pred_wf p \<longleftrightarrow> btm_wf (assigned p)"

text \<open>Two assignments are compatible when they agree where both are defined.\<close>

definition compatible :: "('a \<rightharpoonup> 'b) \<Rightarrow> ('a \<rightharpoonup> 'b) \<Rightarrow> bool" where
  "compatible f g \<longleftrightarrow> (\<forall>k \<in> dom f \<inter> dom g. f k = g k)"

lemma compatibleD: "compatible f g \<Longrightarrow> f k = Some v \<Longrightarrow> g k = Some w \<Longrightarrow> v = w"
  by (force simp: compatible_def)

lemma compatible_sym: "compatible f g \<Longrightarrow> compatible g f"
  by (auto simp: compatible_def)

lemma compatible_map_add: "compatible f g \<longleftrightarrow> f \<subseteq>\<^sub>m f ++ g"
proof -
  have "f a = (f ++ g) a \<longleftrightarrow> (a \<in> dom g \<longrightarrow> f a = g a)" if "a \<in> dom f" for a
    by (cases "g a") (auto simp: map_add_def)
  then show ?thesis
    unfolding compatible_def map_le_def by blast
qed

lemma compatible_commute: "compatible f g \<Longrightarrow> f ++ g = g ++ f"
  by (auto simp: fun_eq_iff map_add_def split: option.splits dest: compatibleD)

lemma map_le_upper_compatible: "f \<subseteq>\<^sub>m h \<Longrightarrow> g \<subseteq>\<^sub>m h \<Longrightarrow> compatible f g"
  unfolding compatible_def map_le_def by auto

lemma Predicate_eqI: "pred_wf p \<Longrightarrow> pred_wf q \<Longrightarrow> pmap p = pmap q \<Longrightarrow> p = q"
  by (auto simp: pred_wf_def pmap_def intro: btm_ext Predicate.equality)

lemma pred_wf_default [simp, wf_intros]: "pred_wf Predicate_default"
  by (simp add: pred_wf_def Predicate_default_def)

lemma pred_wf_inserted [simp, wf_intros]: "pred_wf p \<Longrightarrow> pred_wf (inserted p k v)"
  by (simp add: pred_wf_def inserted_def btm_wf_insert)

lemma pred_wf_singleton [simp, wf_intros]: "pred_wf (singleton k v)"
  by (simp add: singleton_def)

lemma pmap_default [simp]: "pmap Predicate_default = Map.empty"
  by (simp add: pmap_def Predicate_default_def)

lemma pmap_inserted [simp]: "pmap (inserted p k v) = (pmap p)(k \<mapsto> v)"
  by (simp add: pmap_def inserted_def btm_get_insert)

lemma pmap_singleton [simp]: "pmap (singleton k v) = [k \<mapsto> v]"
  by (simp add: singleton_def)

lemma query_pmap: "query p k = pmap p k"
  by (simp add: query_def pmap_def)

lemma finite_dom_pmap [simp]: "finite (dom (pmap p))"
  by (simp add: pmap_def finite_dom_map_of)

lemma assigns_subset_loop_iff:
  "assigns_subset_loop it mbs \<longleftrightarrow> (\<forall>(k, v) \<in> set it. pmap mbs k = Some v)"
  by (induction it mbs rule: assigns_subset_loop.induct)
    (auto simp: pmap_def split: option.splits)

lemma assigns_subset_iff: "pred_wf p \<Longrightarrow> assigns_subset p q \<longleftrightarrow> pmap p \<subseteq>\<^sub>m pmap q"
  unfolding assigns_subset_def assigns_subset_loop_iff map_le_Some_iff
  by (auto simp: pmap_def pred_wf_def btm_map_of_set)

section \<open>Union\<close>

lemma union_with_loop_Some:
  "distinct (map fst it) \<Longrightarrow> union_with_loop it p = Some r \<Longrightarrow>
     compatible (pmap p) (map_of it) \<and> pmap r = pmap p ++ map_of it \<and> (pred_wf p \<longrightarrow> pred_wf r)"
proof (induction it p rule: union_with_loop.induct)
  case (1 p)
  then show ?case by (simp add: compatible_def)
next
  case (2 k v it p)
  from "2.prems" have step: "union_with_loop it (inserted p k v) = Some r"
    and new: "query p k = None \<or> query p k = Some v"
    by (auto simp: Let_def split: option.splits if_splits)
  with 2 have IH: "compatible (pmap (inserted p k v)) (map_of it) \<and>
      pmap r = pmap (inserted p k v) ++ map_of it \<and> (pred_wf (inserted p k v) \<longrightarrow> pred_wf r)"
    by (cases "query p k") (simp_all add: Let_def del: pmap_inserted)
  have fresh: "map_of it k = None"
    using "2.prems"(1) by (simp add: map_of_eq_None_iff)
  show ?case
    using IH new fresh
    by (auto simp: compatible_def query_pmap map_add_def fun_eq_iff split: option.splits if_splits)
qed

lemma union_with_loop_None:
  "distinct (map fst it) \<Longrightarrow> union_with_loop it p = None \<Longrightarrow> \<not> compatible (pmap p) (map_of it)"
proof (induction it p rule: union_with_loop.induct)
  case (1 p)
  then show ?case by simp
next
  case (2 k v it p)
  have fresh: "map_of it k = None"
    using "2.prems"(1) by (simp add: map_of_eq_None_iff)
  show ?case
  proof (cases "pmap p k = None \<or> pmap p k = Some v")
    case True
    with 2 have "\<not> compatible (pmap (inserted p k v)) (map_of it)"
      by (cases "query p k") (simp_all add: Let_def query_pmap del: pmap_inserted)
    then obtain j where j: "j \<in> dom (map_of it)" "j \<in> dom (pmap (inserted p k v))"
      "pmap (inserted p k v) j \<noteq> map_of it j"
      unfolding compatible_def by blast
    moreover from j fresh have "j \<noteq> k" by auto
    ultimately show ?thesis
      by (auto simp: compatible_def dom_def)
  next
    case False
    then show ?thesis
      by (force simp: compatible_def)
  qed
qed

text \<open>\<open>union_with\<close> is the least upper bound of two assignments, when there is one.\<close>

lemma union_with_Some_iff:
  assumes "pred_wf p" "pred_wf q"
  shows "union_with p q = Some r \<longleftrightarrow>
    pred_wf r \<and> compatible (pmap p) (pmap q) \<and> pmap r = pmap p ++ pmap q"
proof -
  have d: "distinct (map fst (assigned q))"
    using assms(2) by (simp add: pred_wf_def btm_wf_distinct)
  show ?thesis
  proof
    assume "union_with p q = Some r"
    with union_with_loop_Some [OF d] assms(1)
    show "pred_wf r \<and> compatible (pmap p) (pmap q) \<and> pmap r = pmap p ++ pmap q"
      by (auto simp: union_with_def pmap_def [of q])
  next
    assume r: "pred_wf r \<and> compatible (pmap p) (pmap q) \<and> pmap r = pmap p ++ pmap q"
    then obtain r' where r': "union_with p q = Some r'"
      using union_with_loop_None [OF d] by (fastforce simp: union_with_def pmap_def [of q])
    with union_with_loop_Some [OF d] assms(1) have "pred_wf r'" "pmap r' = pmap p ++ pmap q"
      by (auto simp: union_with_def pmap_def [of q])
    with r r' show "union_with p q = Some r"
      by (auto intro: Predicate_eqI)
  qed
qed

lemma union_with_None_iff:
  assumes "pred_wf p" "pred_wf q"
  shows "union_with p q = None \<longleftrightarrow> \<not> compatible (pmap p) (pmap q)"
proof -
  have d: "distinct (map fst (assigned q))"
    using assms(2) by (simp add: pred_wf_def btm_wf_distinct)
  show ?thesis
    using union_with_loop_None [OF d] union_with_loop_Some [OF d]
    by (cases "union_with p q") (auto simp: union_with_def pmap_def [of q])
qed

lemma union_with_upper:
  assumes "pred_wf p" "pred_wf q" "union_with p q = Some r"
  shows "pred_wf r" "pmap p \<subseteq>\<^sub>m pmap r" "pmap q \<subseteq>\<^sub>m pmap r"
  using assms by (auto simp: union_with_Some_iff compatible_map_add)

text \<open>The parallel walk of \<open>assignment_union\<close>.\<close>

lemma compatible_upd1: "g k = None \<Longrightarrow> compatible (f(k \<mapsto> v)) g \<longleftrightarrow> compatible f g"
  unfolding compatible_def by (metis IntE IntI domIff fun_upd_apply)

lemma compatible_upd2: "f k = None \<Longrightarrow> compatible f (g(k \<mapsto> v)) \<longleftrightarrow> compatible f g"
  by (metis compatible_sym compatible_upd1)

lemma compatible_upd_both:
  assumes "f k = None" "g k = None"
  shows "compatible (f(k \<mapsto> v)) (g(k \<mapsto> w)) \<longleftrightarrow> v = w \<and> compatible f g"
proof
  assume "compatible (f(k \<mapsto> v)) (g(k \<mapsto> w))"
  then show "v = w \<and> compatible f g"
    using assms compatibleD [of "f(k \<mapsto> v)" "g(k \<mapsto> w)" k v w]
    unfolding compatible_def by (metis IntE IntI domIff fun_upd_apply)
next
  assume "v = w \<and> compatible f g"
  then show "compatible (f(k \<mapsto> v)) (g(k \<mapsto> w))"
    unfolding compatible_def by auto
qed

lemma filter_unassigned_upd:
  "\<forall>x \<in> set t. fst x \<noteq> k \<Longrightarrow>
   filter (\<lambda>(j, w). (f(k \<mapsto> v)) j = None) t = filter (\<lambda>(j, w). f j = None) t"
  by (intro filter_cong refl) auto

lemma map_of_None_below: "\<forall>x \<in> set m. (k :: 'k::linorder) < fst x \<Longrightarrow> map_of m k = None"
  by (induction m) auto

lemma map_of_Cons_upd: "map_of ((k, v) # m) = (map_of m)(k \<mapsto> v)"
  by simp

lemma assignment_union_loop_spec:
  assumes "btm_wf s" "btm_wf t"
  shows "assignment_union_loop s t a b =
    (if compatible (map_of s) (map_of t)
     then Some (a @ filter (\<lambda>(k, v). map_of t k = None) s,
                b @ filter (\<lambda>(k, v). map_of s k = None) t)
     else None)"
  using assms
proof (induction s t a b rule: assignment_union_loop.induct)
  case (1 a b)
  then show ?case by (simp add: compatible_def)
next
  case (2 x t a b)
  then show ?case by (cases x) (simp add: compatible_def)
next
  case (3 x s a b)
  then show ?case by (cases x) (simp add: compatible_def)
next
  case (4 sid sb s oid ob t a b)
  have below: "\<forall>x \<in> set s. sid < fst x" "\<forall>x \<in> set t. oid < fst x"
    using 4(4,5) by simp_all
  then have fresh: "map_of s sid = None" "map_of t oid = None"
    by (simp_all add: map_of_None_below)
  consider "sid < oid" | "oid < sid" | "sid = oid" by fastforce
  then show ?case
  proof cases
    assume lt: "sid < oid"
    with below have *: "\<forall>x \<in> set ((oid, ob) # t). sid < fst x" by fastforce
    then have out: "map_of ((oid, ob) # t) sid = None"
      by (rule map_of_None_below)
    have same: "filter (\<lambda>(k, v). map_of ((sid, sb) # s) k = None) ((oid, ob) # t) =
        filter (\<lambda>(k, v). map_of s k = None) ((oid, ob) # t)"
      using * filter_unassigned_upd [of "(oid, ob) # t" sid "map_of s" sb]
      by (metis fst_conv less_irrefl map_of.simps(2) snd_conv)
    have comp: "compatible (map_of ((sid, sb) # s)) (map_of ((oid, ob) # t)) \<longleftrightarrow>
        compatible (map_of s) (map_of ((oid, ob) # t))"
      using compatible_upd1 [of "map_of ((oid, ob) # t)" sid "map_of s" sb, OF out]
      by (simp only: map_of_Cons_upd [of sid])
    from same comp out 4(1) 4(4,5) lt show ?thesis
      by (simp del: map_of.simps)
  next
    assume gt: "oid < sid"
    with below have *: "\<forall>x \<in> set ((sid, sb) # s). oid < fst x" by fastforce
    then have out: "map_of ((sid, sb) # s) oid = None"
      by (rule map_of_None_below)
    have same: "filter (\<lambda>(k, v). map_of ((oid, ob) # t) k = None) ((sid, sb) # s) =
        filter (\<lambda>(k, v). map_of t k = None) ((sid, sb) # s)"
      using * filter_unassigned_upd [of "(sid, sb) # s" oid "map_of t" ob]
      by (metis fst_conv less_irrefl map_of.simps(2) snd_conv)
    have comp: "compatible (map_of ((sid, sb) # s)) (map_of ((oid, ob) # t)) \<longleftrightarrow>
        compatible (map_of ((sid, sb) # s)) (map_of t)"
      using compatible_upd2 [of "map_of ((sid, sb) # s)" oid "map_of t" ob, OF out]
      by (simp only: map_of_Cons_upd [of oid])
    from gt have "\<not> sid < oid" by simp
    with same comp out 4(2) 4(4,5) gt show ?thesis
      by (simp del: map_of.simps)
  next
    assume eq: "sid = oid"
    have "\<forall>x \<in> set s. fst x \<noteq> oid" "\<forall>x \<in> set t. fst x \<noteq> sid"
      using below eq by auto
    then have same: "filter (\<lambda>(k, v). map_of ((oid, ob) # t) k = None) s =
        filter (\<lambda>(k, v). map_of t k = None) s"
      "filter (\<lambda>(k, v). map_of ((sid, sb) # s) k = None) t =
        filter (\<lambda>(k, v). map_of s k = None) t"
      by (simp_all add: filter_unassigned_upd map_of_Cons_upd del: fun_upd_apply map_of.simps)
    have comp: "compatible (map_of ((sid, sb) # s)) (map_of ((oid, ob) # t)) \<longleftrightarrow>
        sb = ob \<and> compatible (map_of s) (map_of t)"
      using compatible_upd_both [of "map_of s" sid "map_of t" sb ob] fresh
      by (simp only: map_of_Cons_upd eq)
    have hit: "map_of ((oid, ob) # t) sid = Some ob" "map_of ((sid, sb) # s) oid = Some sb"
      using eq by simp_all
    from same comp hit 4(3) 4(4,5) eq show ?thesis
      by (cases "sb = ob") (simp_all del: map_of.simps)
  qed
qed

text \<open>What each result of \<open>assignment_union\<close> says about the two predicates.\<close>

fun aur_predicate :: "Predicate \<Rightarrow> Predicate \<Rightarrow> AssignmentUnionResult \<Rightarrow> Predicate option" where
  "aur_predicate p q FormerNotLatter = Some p"
| "aur_predicate p q LatterNotFormer = Some q"
| "aur_predicate p q Equivalent = Some p"
| "aur_predicate p q (New r) = Some r"
| "aur_predicate p q Nonexistant = None"

lemma filter_unassigned_Nil:
  assumes "btm_wf s" "compatible (map_of s) g"
  shows "filter (\<lambda>(k, v). g k = None) s = [] \<longleftrightarrow> map_of s \<subseteq>\<^sub>m g"
proof -
  have "filter (\<lambda>(k, v). g k = None) s = [] \<longleftrightarrow> (\<forall>(k, v) \<in> set s. g k \<noteq> None)"
    by (auto simp: filter_empty_conv)
  also have "\<dots> \<longleftrightarrow> (\<forall>k v. map_of s k = Some v \<longrightarrow> g k \<noteq> None)"
    using assms(1) by (auto simp: btm_map_of_set)
  also have "\<dots> \<longleftrightarrow> map_of s \<subseteq>\<^sub>m g"
    using assms(2) by (auto simp: map_le_Some_iff dest: compatibleD)
  finally show ?thesis .
qed

lemma assignment_union_cases:
  assumes p: "pred_wf p" and q: "pred_wf q"
  shows "assignment_union p q =
    (if \<not> compatible (pmap p) (pmap q) then Nonexistant
     else if pmap p \<subseteq>\<^sub>m pmap q \<and> pmap q \<subseteq>\<^sub>m pmap p then Equivalent
     else if pmap q \<subseteq>\<^sub>m pmap p then FormerNotLatter
     else if pmap p \<subseteq>\<^sub>m pmap q then LatterNotFormer
     else New (the (union_with p q)))"
proof (cases "compatible (pmap p) (pmap q)")
  case False
  then show ?thesis
    using p q by (simp add: assignment_union_def assignment_union_loop_spec pmap_def pred_wf_def)
next
  case True
  let ?s = "filter (\<lambda>(k, v). pmap q k = None) (assigned p)"
  let ?o = "filter (\<lambda>(k, v). pmap p k = None) (assigned q)"
  have loop: "assignment_union_loop (assigned p) (assigned q) [] [] = Some (?s, ?o)"
    using True p q by (simp add: assignment_union_loop_spec pmap_def pred_wf_def)
  have s: "?s = [] \<longleftrightarrow> pmap p \<subseteq>\<^sub>m pmap q"
    using filter_unassigned_Nil [of "assigned p" "pmap q"] True p by (simp add: pmap_def pred_wf_def)
  have o: "?o = [] \<longleftrightarrow> pmap q \<subseteq>\<^sub>m pmap p"
    using filter_unassigned_Nil [of "assigned q" "pmap p"] compatible_sym [OF True] q
    by (simp add: pmap_def pred_wf_def)
  let ?n = "p\<lparr>assigned := fold (\<lambda>(k, v). btm_insert k v) ?o (assigned p)\<rparr>"
  have "map_of (rev ?o) = map_of ?o"
    using q by (simp add: map_of_rev_distinct distinct_map_filter pred_wf_def btm_wf_distinct)
  moreover have "map_of ?o k = (if pmap p k = None then pmap q k else None)" for k
    by (simp add: map_of_filter_key pmap_def [of q])
  ultimately have "pmap ?n = pmap p ++ pmap q"
    using btm.get_extend [of "assigned p" ?o] p True
    by (auto simp: pmap_def [of ?n] pmap_def [of p, symmetric] pred_wf_def fun_eq_iff map_add_def
        split: option.splits dest: compatibleD)
  moreover have "pred_wf ?n"
    using btm.wf_extend p by (simp add: pred_wf_def)
  ultimately have "union_with p q = Some ?n"
    using True p q by (simp add: union_with_Some_iff)
  with True loop s o show ?thesis
    by (auto simp: assignment_union_def)
qed

section \<open>Properties\<close>

text \<open>
  C30: \<open>assignment_union\<close>, which walks the two ordered assignments in parallel and
  classifies the result, computes exactly the union that \<open>union_with\<close> computes by
  querying and inserting, and its classification is right: equivalent, one side strictly
  more specific, a proper union, or a conflict.
\<close>

theorem assignment_union_classifies:
  assumes "pred_wf p" "pred_wf q"
  shows "aur_predicate p q (assignment_union p q) = union_with p q \<and>
    (assignment_union p q = Equivalent \<longleftrightarrow> p = q) \<and>
    (assignment_union p q = FormerNotLatter \<longleftrightarrow> assigns_subset q p \<and> p \<noteq> q) \<and>
    (assignment_union p q = LatterNotFormer \<longleftrightarrow> assigns_subset p q \<and> p \<noteq> q) \<and>
    (assignment_union p q = Nonexistant \<longleftrightarrow> union_with p q = None)"
proof -
  note au = assignment_union_cases [OF assms]
  have eq: "p = q \<longleftrightarrow> pmap p = pmap q" using Predicate_eqI [OF assms] by blast
  have le_union: "pmap p \<subseteq>\<^sub>m pmap q \<Longrightarrow> pmap p ++ pmap q = pmap q"
    "pmap q \<subseteq>\<^sub>m pmap p \<Longrightarrow> pmap p ++ pmap q = pmap p"
    by (auto simp: map_le_Some_iff map_add_def fun_eq_iff split: option.split) (metis not_None_eq)+
  have compat: "pmap p \<subseteq>\<^sub>m pmap q \<Longrightarrow> compatible (pmap p) (pmap q)"
    "pmap q \<subseteq>\<^sub>m pmap p \<Longrightarrow> compatible (pmap p) (pmap q)"
    using map_le_upper_compatible [OF _ map_le_refl] map_le_upper_compatible [OF map_le_refl] by blast+
  have "union_with p q \<noteq> None" if "compatible (pmap p) (pmap q)"
    using union_with_None_iff [OF assms] that by simp
  moreover have "union_with p q = Some q" if "pmap p \<subseteq>\<^sub>m pmap q"
    using union_with_Some_iff [OF assms, of q] that le_union compat assms by simp
  moreover have "union_with p q = Some p" if "pmap q \<subseteq>\<^sub>m pmap p"
    using union_with_Some_iff [OF assms, of p] that le_union compat assms by simp
  ultimately have "aur_predicate p q (assignment_union p q) = union_with p q"
    using union_with_None_iff [OF assms] by (auto simp: au)
  moreover have "assignment_union p q = Equivalent \<longleftrightarrow> p = q"
    using compat by (auto simp: au eq map_le_antisym)
  moreover have "assignment_union p q = FormerNotLatter \<longleftrightarrow> assigns_subset q p \<and> p \<noteq> q"
    using compat by (auto simp: au eq assigns_subset_iff [OF assms(2)] map_le_antisym)
  moreover have "assignment_union p q = LatterNotFormer \<longleftrightarrow> assigns_subset p q \<and> p \<noteq> q"
    using compat by (auto simp: au eq assigns_subset_iff [OF assms(1)] map_le_antisym)
  moreover have "assignment_union p q = Nonexistant \<longleftrightarrow> union_with p q = None"
    using union_with_None_iff [OF assms] by (auto simp: au)
  ultimately show ?thesis by blast
qed

theorem assignment_union_classifies_witness:
  "let p = singleton (SpecVar (PortId (MkId 0 0))) FIRING; q = singleton (SpecVar (PortId (MkId 0 1))) SILENT in
   pred_wf p \<and> pred_wf q \<and> aur_predicate p q (assignment_union p q) = union_with p q \<and>
   union_with p q = Some (inserted p (SpecVar (PortId (MkId 0 1))) SILENT)"
  using assignment_union_classifies [of "singleton (SpecVar (PortId (MkId 0 0))) FIRING"
      "singleton (SpecVar (PortId (MkId 0 1))) SILENT"]
  by (simp add: union_with_def singleton_def inserted_def Predicate_default_def query_def id_order_defs
      pred_wf_def Let_def)

text \<open>
  C34: \<open>union_with\<close> returns the least upper bound of two predicates in the order decided
  by \<open>assigns_subset\<close>, and \<open>None\<close> exactly when they have no upper bound.
\<close>

theorem union_with_is_lub:
  assumes "pred_wf p" "pred_wf q"
  shows "case union_with p q of
     Some r \<Rightarrow> pred_wf r \<and> assigns_subset p r \<and> assigns_subset q r \<and>
       (\<forall>s. pred_wf s \<and> assigns_subset p s \<and> assigns_subset q s \<longrightarrow> assigns_subset r s)
   | None \<Rightarrow> \<not> (\<exists>s. pred_wf s \<and> assigns_subset p s \<and> assigns_subset q s)"
proof (cases "union_with p q")
  case None
  then have "\<not> compatible (pmap p) (pmap q)" using union_with_None_iff [OF assms] by simp
  then show ?thesis
    using None assms by (auto simp: assigns_subset_iff dest: map_le_upper_compatible)
next
  case (Some r)
  then have r: "pmap r = pmap p ++ pmap q" and up: "pred_wf r" "pmap p \<subseteq>\<^sub>m pmap r" "pmap q \<subseteq>\<^sub>m pmap r"
    using assms union_with_upper [OF assms Some] by (simp_all add: union_with_Some_iff)
  have "pmap r \<subseteq>\<^sub>m pmap s" if "pmap p \<subseteq>\<^sub>m pmap s" "pmap q \<subseteq>\<^sub>m pmap s" for s
    using that by (auto simp: r map_le_Some_iff)
  with Some up assms show ?thesis by (simp add: assigns_subset_iff)
qed

theorem union_with_is_lub_witness:
  "let p = singleton (SpecVar (PortId (MkId 0 0))) FIRING; q = singleton (SpecVar (PortId (MkId 0 0))) SILENT in
   union_with p q = None \<and> \<not> (\<exists>s. pred_wf s \<and> assigns_subset p s \<and> assigns_subset q s)"
proof -
  have "union_with (singleton (SpecVar (PortId (MkId 0 0))) FIRING) (singleton (SpecVar (PortId (MkId 0 0))) SILENT) = None"
    by (simp add: union_with_def singleton_def inserted_def Predicate_default_def query_def)
  then show ?thesis
    using union_with_is_lub [of "singleton (SpecVar (PortId (MkId 0 0))) FIRING"
        "singleton (SpecVar (PortId (MkId 0 0))) SILENT"]
    by (simp add: Let_def)
qed

end
