(* ===== verification/Solutions.thy ===== *)
theory Solutions
  imports Predicates
begin

text \<open>
  \<open>SolutionStorage\<close> of \<open>src/runtime/communication.rs\<close>: the solutions found so far
  by the children of a connector in the solution tree, and the connector's own solutions
  derived from them. The source states its invariant in a comment: the local solutions,
  old and new, are those that can be created from the union of one element from each
  child's set. \<open>storage_inv\<close> is that invariant, \<open>local_solution\<close> the specification it
  refers to, and every operation is shown to keep it, from the empty storage on.
\<close>

section \<open>The storage and its operations\<close>

datatype SubtreeId = SubLocalComponent ComponentId | SubNetEndpoint nat

record SolutionStorage =
  old_local :: "Predicate hash_set"
  new_local :: "Predicate hash_set"
  subtree_solutions :: "Predicate hash_set list"
  subtree_id_to_index :: "(SubtreeId, nat) hash_map"

fun SolutionStorage_new_loop ::
  "SubtreeId list \<Rightarrow> (SubtreeId, nat) hash_map \<Rightarrow> Predicate hash_set list \<Rightarrow>
   (SubtreeId, nat) hash_map \<times> Predicate hash_set list" where
  "SolutionStorage_new_loop [] idx sols = (idx, sols)"
| "SolutionStorage_new_loop (sid # ids) idx sols =
     SolutionStorage_new_loop ids (hm_insert sid (length sols) idx) (sols @ [[]])"

definition SolutionStorage_new :: "SubtreeId list \<Rightarrow> SolutionStorage" where
  "SolutionStorage_new subtree_ids =
     (let (idx, sols) = SolutionStorage_new_loop subtree_ids [] [] in
      \<lparr>old_local = [], new_local = [], subtree_solutions = sols, subtree_id_to_index = idx\<rparr>)"

text \<open>
  \<open>iter_new_local_make_old\<close>, run to its end: the solutions it yields and the storage
  after them. \<open>None\<close> is the failed assertion that a new solution is not already old.
\<close>

fun make_old :: "Predicate list \<Rightarrow> Predicate hash_set \<Rightarrow> Predicate hash_set option" where
  "make_old [] old = Some old"
| "make_old (local # rest) old =
     (if local \<in> set old then None else make_old rest (hs_insert local old))"

definition iter_new_local_make_old ::
  "SolutionStorage \<Rightarrow> (Predicate list \<times> SolutionStorage) option" where
  "iter_new_local_make_old s = do {
     old \<leftarrow> make_old (new_local s) (old_local s);
     Some (new_local s, s\<lparr>old_local := old, new_local := []\<rparr>)
   }"

fun elaborate_into_new_local_rec ::
  "Predicate \<Rightarrow> Predicate hash_set list \<Rightarrow> Predicate hash_set \<Rightarrow> Predicate hash_set \<Rightarrow>
   Predicate hash_set" where
  "elaborate_into_new_local_rec partial [] old new =
     (if partial \<in> set old then new else hs_insert partial new)"
| "elaborate_into_new_local_rec partial (S # set_visitor) old new =
     fold (\<lambda>pred new.
       case union_with pred partial of
         Some elaborated \<Rightarrow> elaborate_into_new_local_rec elaborated set_visitor old new
       | None \<Rightarrow> new) S new"

definition submit_and_digest_subtree_solution ::
  "SolutionStorage \<Rightarrow> SubtreeId \<Rightarrow> Predicate \<Rightarrow> SolutionStorage option" where
  "submit_and_digest_subtree_solution s subtree_id predicate = do {
     index \<leftarrow> hm_get (subtree_id_to_index s) subtree_id;
     oassert (index < length (subtree_solutions s));
     let sols = subtree_solutions s;
     let was_new = (predicate \<notin> set (sols ! index));
     let sols' = sols[index := hs_insert predicate (sols ! index)];
     if was_new
     then let set_visitor = take index sols' @ drop (Suc index) sols' in
          Some (s\<lparr>subtree_solutions := sols',
                  new_local := elaborate_into_new_local_rec predicate set_visitor
                                 (old_local s) (new_local s)\<rparr>)
     else Some (s\<lparr>subtree_solutions := sols'\<rparr>)
   }"

section \<open>Specification: unions of one solution per child\<close>

text \<open>\<open>union_of Q p\<close>: \<open>p\<close> assigns exactly what the members of \<open>Q\<close> assign.\<close>

definition union_of :: "Predicate set \<Rightarrow> Predicate \<Rightarrow> bool" where
  "union_of Q p \<longleftrightarrow> pred_wf p \<and> (\<forall>q \<in> Q. pmap q \<subseteq>\<^sub>m pmap p) \<and>
     dom (pmap p) = (\<Union>q \<in> Q. dom (pmap q))"

abbreviation picks :: "Predicate list \<Rightarrow> Predicate hash_set list \<Rightarrow> bool" where
  "picks ps sols \<equiv> list_all2 (\<lambda>q S. q \<in> set S) ps sols"

definition local_solution :: "Predicate hash_set list \<Rightarrow> Predicate \<Rightarrow> bool" where
  "local_solution sols p \<longleftrightarrow> (\<exists>ps. picks ps sols \<and> union_of (set ps) p)"

definition sols_wf :: "Predicate hash_set list \<Rightarrow> bool" where
  "sols_wf sols \<longleftrightarrow> (\<forall>S \<in> set sols. \<forall>q \<in> set S. pred_wf q)"

definition storage_inv :: "SolutionStorage \<Rightarrow> bool" where
  "storage_inv s \<longleftrightarrow>
     sols_wf (subtree_solutions s) \<and>
     distinct (new_local s) \<and> distinct (old_local s) \<and>
     set (old_local s) \<inter> set (new_local s) = {} \<and>
     set (old_local s) \<union> set (new_local s) = {p. local_solution (subtree_solutions s) p} \<and>
     (\<forall>index \<in> ran (map_of (subtree_id_to_index s)). index < length (subtree_solutions s))"

lemma union_of_singleton: "pred_wf p \<Longrightarrow> union_of {p} q \<longleftrightarrow> q = p"
proof
  assume wf: "pred_wf p" and u: "union_of {p} q"
  then have "pmap p \<subseteq>\<^sub>m pmap q" "dom (pmap q) = dom (pmap p)" "pred_wf q"
    by (auto simp: union_of_def)
  then have "pmap q = pmap p"
    by (metis map_le_antisym map_le_def)
  with wf \<open>pred_wf q\<close> show "q = p" by (blast intro: Predicate_eqI)
qed (simp add: union_of_def)

lemma union_of_merge:
  assumes wf: "pred_wf p" "pred_wf q" and e: "union_with q p = Some e"
  shows "union_of (insert e Q) r \<longleftrightarrow> union_of (insert q (insert p Q)) r"
proof -
  have "pmap e = pmap q ++ pmap p" "compatible (pmap q) (pmap p)"
    using assms by (simp_all add: union_with_Some_iff)
  then have "dom (pmap e) = dom (pmap q) \<union> dom (pmap p)"
    and "pmap e \<subseteq>\<^sub>m pmap r \<longleftrightarrow> pmap q \<subseteq>\<^sub>m pmap r \<and> pmap p \<subseteq>\<^sub>m pmap r"
    by (auto simp: compatible_map_add map_add_le_mapI intro: map_le_trans map_le_map_add)
  then show ?thesis
    by (simp add: union_of_def Un_assoc conj_assoc)
qed

lemma union_of_conflict:
  assumes "pred_wf p" "pred_wf q" "union_with q p = None"
  shows "\<not> union_of (insert q (insert p Q)) r"
  using assms map_le_upper_compatible by (auto simp: union_of_def union_with_None_iff)

lemma union_of_wf: "union_of Q p \<Longrightarrow> pred_wf p"
  by (simp add: union_of_def)

section \<open>Elaboration finds exactly the new unions\<close>

lemma set_fold_union:
  assumes "\<And>x A. x \<in> set xs \<Longrightarrow> set (f x A) = set A \<union> g x"
  shows "set (fold f xs A) = set A \<union> (\<Union>x \<in> set xs. g x)"
  using assms by (induction xs arbitrary: A) auto

lemma set_elaborate:
  assumes "pred_wf partial" "sols_wf sols"
  shows "set (elaborate_into_new_local_rec partial sols old new) =
    set new \<union> {p. \<exists>ps. picks ps sols \<and> union_of (insert partial (set ps)) p \<and> p \<notin> set old}"
  using assms
proof (induction sols arbitrary: partial new)
  case Nil
  then show ?case by (auto simp: union_of_singleton)
next
  case (Cons S sols)
  let ?g = "\<lambda>q. {p. \<exists>ps. picks ps sols \<and> union_of (insert q (insert partial (set ps))) p \<and> p \<notin> set old}"
  have wf: "sols_wf sols" "\<And>q. q \<in> set S \<Longrightarrow> pred_wf q"
    using Cons.prems by (auto simp: sols_wf_def)
  have "set (case union_with q partial of
        Some e \<Rightarrow> elaborate_into_new_local_rec e sols old new
      | None \<Rightarrow> new) = set new \<union> ?g q" if q: "q \<in> set S" for q new
  proof (cases "union_with q partial")
    case None
    with wf(2) [OF q] Cons.prems(1) show ?thesis by (simp add: union_of_conflict)
  next
    case (Some e)
    with wf(2) [OF q] Cons.prems(1) have "pred_wf e" by (blast intro: union_with_upper(1))
    with Cons.IH [OF _ wf(1)] Some wf(2) [OF q] Cons.prems(1) show ?thesis
      by (simp add: union_of_merge)
  qed
  then have "set (elaborate_into_new_local_rec partial (S # sols) old new) =
      set new \<union> (\<Union>q \<in> set S. ?g q)"
    by (simp add: set_fold_union)
  also have "(\<Union>q \<in> set S. ?g q) =
      {p. \<exists>ps. picks ps (S # sols) \<and> union_of (insert partial (set ps)) p \<and> p \<notin> set old}"
    by (fastforce simp: list_all2_Cons2 insert_commute)
  finally show ?case .
qed

lemma distinct_elaborate: "distinct new \<Longrightarrow> distinct (elaborate_into_new_local_rec partial sols old new)"
proof (induction sols arbitrary: partial new)
  case Nil
  then show ?case by simp
next
  case (Cons S sols)
  have "distinct (fold f S new)" if "\<And>q new. distinct new \<Longrightarrow> distinct (f q new)" for f
    using Cons.prems that by (induction S arbitrary: new) auto
  from this [of "\<lambda>pred new. case union_with pred partial of
      Some e \<Rightarrow> elaborate_into_new_local_rec e sols old new | None \<Rightarrow> new"]
  show ?case using Cons.IH by (auto split: option.split)
qed

text \<open>Adding a solution to one child adds the unions that use it.\<close>

lemma picks_update:
  assumes i: "i < length sols"
  shows "picks ps (sols[i := hs_insert p (sols ! i)]) \<longleftrightarrow>
    picks ps sols \<or>
    length ps = length sols \<and> ps ! i = p \<and> picks (take i ps @ drop (Suc i) ps) (take i sols @ drop (Suc i) sols)"
    (is "?lhs \<longleftrightarrow> _ \<or> ?rhs")
proof (cases "length ps = length sols")
  case True
  have split: "ps = take i ps @ ps ! i # drop (Suc i) ps" "sols = take i sols @ sols ! i # drop (Suc i) sols"
    using i True by (auto intro: id_take_nth_drop)
  have upd: "sols[i := S] = take i sols @ S # drop (Suc i) sols" for S
    using i by (rule upd_conv_take_nth_drop)
  have picks_at: "picks ps (take i sols @ S # drop (Suc i) sols) \<longleftrightarrow>
      picks (take i ps) (take i sols) \<and> ps ! i \<in> set S \<and> picks (drop (Suc i) ps) (drop (Suc i) sols)" for S
  proof -
    have "picks (take i ps @ ps ! i # drop (Suc i) ps) (take i sols @ S # drop (Suc i) sols) \<longleftrightarrow>
        picks (take i ps) (take i sols) \<and> ps ! i \<in> set S \<and> picks (drop (Suc i) ps) (drop (Suc i) sols)"
      using i True by (simp add: list_all2_append)
    then show ?thesis by (simp only: split(1) [symmetric])
  qed
  have "picks ps sols \<longleftrightarrow>
      picks (take i ps) (take i sols) \<and> ps ! i \<in> set (sols ! i) \<and> picks (drop (Suc i) ps) (drop (Suc i) sols)"
    using picks_at [of "sols ! i"] by (simp only: split(2) [symmetric])
  moreover have "picks (take i ps @ drop (Suc i) ps) (take i sols @ drop (Suc i) sols) \<longleftrightarrow>
      picks (take i ps) (take i sols) \<and> picks (drop (Suc i) ps) (drop (Suc i) sols)"
    using i True by (simp add: list_all2_append)
  moreover have "ps ! i \<in> set (hs_insert p (sols ! i)) \<longleftrightarrow> ps ! i = p \<or> ps ! i \<in> set (sols ! i)"
    by simp
  ultimately show ?thesis
    unfolding upd picks_at using True by blast
next
  case False
  then show ?thesis by (auto dest: list_all2_lengthD)
qed

lemma local_solution_update:
  assumes i: "i < length sols"
  shows "local_solution (sols[i := hs_insert p (sols ! i)]) r \<longleftrightarrow> local_solution sols r \<or>
    (\<exists>ps. picks ps (take i sols @ drop (Suc i) sols) \<and> union_of (insert p (set ps)) r)"
proof -
  let ?rest = "take i sols @ drop (Suc i) sols"
  have "(\<exists>ps. length ps = length sols \<and> ps ! i = p \<and> picks (take i ps @ drop (Suc i) ps) ?rest \<and>
      union_of (set ps) r) \<longleftrightarrow> (\<exists>ps. picks ps ?rest \<and> union_of (insert p (set ps)) r)"
  proof (intro iffI; elim exE conjE)
    fix ps
    assume ps: "length ps = length sols" "ps ! i = p" "picks (take i ps @ drop (Suc i) ps) ?rest"
      "union_of (set ps) r"
    have "ps = take i ps @ p # drop (Suc i) ps"
      using i ps(1,2) id_take_nth_drop by metis
    then have "set ps = insert p (set (take i ps @ drop (Suc i) ps))"
      by (metis Un_insert_right list.simps(15) set_append)
    with ps(3,4) show "\<exists>ps. picks ps ?rest \<and> union_of (insert p (set ps)) r"
      by metis
  next
    fix qs
    assume qs: "picks qs ?rest" "union_of (insert p (set qs)) r"
    let ?ps = "take i qs @ p # drop i qs"
    have len: "Suc (length qs) = length sols"
      using list_all2_lengthD [OF qs(1)] i by simp
    have "set ?ps = insert p (set qs)"
      by (metis Un_insert_right append_take_drop_id list.simps(15) set_append)
    moreover have "take i ?ps @ drop (Suc i) ?ps = qs" "?ps ! i = p" "length ?ps = length sols"
      using i len by (auto simp: nth_append)
    ultimately show "\<exists>ps. length ps = length sols \<and> ps ! i = p \<and>
        picks (take i ps @ drop (Suc i) ps) ?rest \<and> union_of (set ps) r"
      using qs by (intro exI [of _ ?ps]) simp
  qed
  then show ?thesis
    unfolding local_solution_def picks_update [OF i] by blast
qed

section \<open>Every operation keeps the invariant\<close>

lemma new_loop_spec:
  assumes "SolutionStorage_new_loop ids idx sols = (idx', sols')"
    and "\<forall>i \<in> ran (map_of idx). i < length sols"
  shows "sols' = sols @ replicate (length ids) [] \<and> (\<forall>i \<in> ran (map_of idx'). i < length sols')"
  using assms
proof (induction ids idx sols rule: SolutionStorage_new_loop.induct)
  case (1 idx sols)
  then show ?case by simp
next
  case (2 sid ids idx sols)
  have "\<forall>i \<in> ran (map_of (hm_insert sid (length sols) idx)). i < length (sols @ [[]])"
    using "2.prems"(2) by (auto simp: ran_def update_conv' less_Suc_eq)
  with "2.prems"(1) have "sols' = (sols @ [[]]) @ replicate (length ids) [] \<and>
      (\<forall>i \<in> ran (map_of idx'). i < length sols')"
    by (intro "2.IH") simp_all
  then show ?case by auto
qed

lemma storage_inv_new:
  assumes "ids \<noteq> []"
  shows "storage_inv (SolutionStorage_new ids)"
proof -
  obtain idx sols where loop: "SolutionStorage_new_loop ids [] [] = (idx, sols)"
    by (cases "SolutionStorage_new_loop ids [] []")
  from new_loop_spec [OF loop] have sols: "sols = replicate (length ids) []"
    and idx: "\<forall>i \<in> ran (map_of idx). i < length sols"
    by auto
  have "\<not> local_solution sols p" for p
    using assms by (cases ids) (auto simp: sols local_solution_def list_all2_Cons2)
  then show ?thesis
    using idx by (simp add: storage_inv_def SolutionStorage_new_def loop sols_wf_def sols)
qed

lemma submit_Some:
  assumes "storage_inv s" "hm_get (subtree_id_to_index s) sid \<noteq> None"
  shows "\<exists>s'. submit_and_digest_subtree_solution s sid p = Some s'"
  using assms
  by (fastforce simp: storage_inv_def submit_and_digest_subtree_solution_def Let_def ran_def oassert_def)

lemma sols_wf_update: "sols_wf sols \<Longrightarrow> pred_wf p \<Longrightarrow> i < length sols \<Longrightarrow>
    sols_wf (sols[i := hs_insert p (sols ! i)])"
  by (auto simp: sols_wf_def dest!: set_update_subset_insert [THEN subsetD])
    (meson nth_mem)

lemma submit_storage_inv:
  assumes inv: "storage_inv s" and wf: "pred_wf p"
    and s': "submit_and_digest_subtree_solution s sid p = Some s'"
  shows "storage_inv s'"
proof -
  obtain i where i: "hm_get (subtree_id_to_index s) sid = Some i" "i < length (subtree_solutions s)"
    using s' by (auto simp: submit_and_digest_subtree_solution_def bind_eq_Some_conv)
  let ?sols = "subtree_solutions s"
  let ?sols' = "?sols[i := hs_insert p (?sols ! i)]"
  let ?rest = "take i ?sols @ drop (Suc i) ?sols"
  have rest: "take i ?sols' @ drop (Suc i) ?sols' = ?rest" by simp
  have wf': "sols_wf ?sols'"
    using inv wf i by (simp add: storage_inv_def sols_wf_update)
  have wf_rest: "sols_wf ?rest"
    using inv by (auto simp: storage_inv_def sols_wf_def dest: in_set_takeD in_set_dropD)
  show ?thesis
  proof (cases "p \<in> set (?sols ! i)")
    case True
    then have "s' = s\<lparr>subtree_solutions := ?sols\<rparr>"
      using s' i by (simp add: submit_and_digest_subtree_solution_def Let_def insert_absorb oassert_def
          in_set_insert)
    with inv show ?thesis by simp
  next
    case False
    then have s'_eq: "s' = s\<lparr>subtree_solutions := ?sols',
        new_local := elaborate_into_new_local_rec p ?rest (old_local s) (new_local s)\<rparr>"
      using s' i rest by (simp add: submit_and_digest_subtree_solution_def Let_def oassert_def)
    have "\<forall>r. local_solution ?sols' r \<longleftrightarrow> local_solution ?sols r \<or>
        (\<exists>ps. picks ps ?rest \<and> union_of (insert p (set ps)) r)"
      using local_solution_update [OF i(2)] by blast
    then show ?thesis
      using inv wf' wf_rest wf i unfolding storage_inv_def s'_eq
      by (auto simp: set_elaborate distinct_elaborate)
  qed
qed

lemma make_old_Some:
  "distinct ls \<Longrightarrow> set ls \<inter> set old = {} \<Longrightarrow> distinct old \<Longrightarrow>
     \<exists>old'. make_old ls old = Some old' \<and> set old' = set old \<union> set ls \<and> distinct old'"
proof (induction ls old rule: make_old.induct)
  case (1 old)
  then show ?case by simp
next
  case (2 l ls old)
  then have "\<exists>old'. make_old ls (hs_insert l old) = Some old' \<and>
      set old' = set (hs_insert l old) \<union> set ls \<and> distinct old'"
    by auto
  with 2 show ?case by auto
qed

lemma iter_new_local_spec:
  assumes "storage_inv s"
  shows "\<exists>s'. iter_new_local_make_old s = Some (new_local s, s') \<and> storage_inv s' \<and> new_local s' = [] \<and>
    set (old_local s') = set (old_local s) \<union> set (new_local s) \<and>
    subtree_solutions s' = subtree_solutions s \<and> subtree_id_to_index s' = subtree_id_to_index s"
proof -
  obtain old' where "make_old (new_local s) (old_local s) = Some old'"
    "set old' = set (old_local s) \<union> set (new_local s)" "distinct old'"
    using make_old_Some [of "new_local s" "old_local s"] assms by (auto simp: storage_inv_def)
  then show ?thesis
    using assms by (auto simp: iter_new_local_make_old_def storage_inv_def)
qed

text \<open>A local solution extends one solution of every child.\<close>

lemma local_solution_extends:
  assumes "local_solution sols p" "sols_wf sols" "i < length sols"
  shows "\<exists>q \<in> set (sols ! i). assigns_subset q p"
proof -
  obtain ps where ps: "picks ps sols" "union_of (set ps) p"
    using assms(1) by (auto simp: local_solution_def)
  then have "ps ! i \<in> set (sols ! i)" "ps ! i \<in> set ps"
    using assms(3) by (auto simp: list_all2_conv_all_nth)
  moreover have "pred_wf (ps ! i)"
    using \<open>ps ! i \<in> set (sols ! i)\<close> assms(2,3) by (auto simp: sols_wf_def)
  ultimately show ?thesis
    using ps(2) by (intro bexI [of _ "ps ! i"]) (auto simp: union_of_def assigns_subset_iff)
qed

section \<open>Properties\<close>

text \<open>
  C31: digesting a solution of a known child never panics and keeps the storage exact: the
  old and the new local solutions together are exactly the unions of one compatible
  solution per child, and they stay disjoint.
\<close>

theorem submit_keeps_exact:
  assumes "storage_inv s" "pred_wf p" "hm_get (subtree_id_to_index s) sid \<noteq> None"
  shows "\<exists>s'. submit_and_digest_subtree_solution s sid p = Some s' \<and> storage_inv s' \<and>
    set (old_local s') \<union> set (new_local s') = {r. local_solution (subtree_solutions s') r} \<and>
    set (old_local s') \<inter> set (new_local s') = {}"
proof -
  obtain s' where s': "submit_and_digest_subtree_solution s sid p = Some s'"
    using submit_Some [OF assms(1,3)] by blast
  then show ?thesis
    using submit_storage_inv [OF assms(1,2) s'] by (auto simp: storage_inv_def)
qed

theorem submit_keeps_exact_witness:
  "\<exists>s'. submit_and_digest_subtree_solution (SolutionStorage_new [SubNetEndpoint 0]) (SubNetEndpoint 0)
      Predicate_default = Some s' \<and> storage_inv s' \<and> new_local s' = [Predicate_default]"
  using submit_keeps_exact [of "SolutionStorage_new [SubNetEndpoint 0]" Predicate_default "SubNetEndpoint 0"]
    storage_inv_new [of "[SubNetEndpoint 0]"]
  by (auto simp: SolutionStorage_new_def submit_and_digest_subtree_solution_def oassert_def)

text \<open>
  Taking the new local solutions reports each of them exactly once and in full, never
  panics on its assertion, and moves them to the old ones, so none is reported again.
\<close>

theorem iter_new_local_reports_once:
  assumes "storage_inv s"
  shows "\<exists>s'. iter_new_local_make_old s = Some (new_local s, s') \<and> storage_inv s' \<and> distinct (new_local s) \<and>
    new_local s' = [] \<and> set (old_local s') = {r. local_solution (subtree_solutions s) r}"
  using iter_new_local_spec [OF assms] assms by (auto simp: storage_inv_def)

theorem iter_new_local_reports_once_witness:
  "\<exists>s'. iter_new_local_make_old (SolutionStorage_new [SubNetEndpoint 0]) = Some ([], s') \<and> storage_inv s'"
  using iter_new_local_reports_once [of "SolutionStorage_new [SubNetEndpoint 0]"]
    storage_inv_new [of "[SubNetEndpoint 0]"]
  by (auto simp: SolutionStorage_new_def)

end
