(* ===== verification/Port_Info.thy ===== *)
theory Port_Info
  imports Predicates
begin

text \<open>
  The port table of a connector (\<open>PortInfoMap\<close> and \<open>IdAndPortState\<close> of
  \<open>src/runtime/mod.rs\<close>) and the two callbacks by which a protocol component changes it
  outside a synchronous block (\<open>NonsyncProtoContext\<close> of
  \<open>src/runtime/communication.rs\<close>). The redundant \<open>owned\<close> table must agree with the
  owners in the map (\<open>invariant_preserved\<close>), channels must be symmetric
  (\<open>channels_ok\<close>), and identifiers must be fresh (\<open>ids_ok\<close>); \<open>ips_inv\<close> collects the
  three and both callbacks keep it. The UDP mediators of \<open>src/runtime/setup.rs\<close> do not have
  symmetric channels, so the invariant of a connector asks for the first and the last only. On such a table two distinct ports share a speculative variable
  exactly when they are the two ends of one channel.
\<close>

section \<open>Port tables\<close>

record PortInfo =
  owner :: ComponentId
  peer :: "PortId option"
  polarity :: Polarity
  route :: Route

record PortInfoMap =
  port_map :: "(PortId, PortInfo) hash_map"
  owned :: "(ComponentId, PortId hash_set) hash_map"

record IdAndPortState =
  port_info :: PortInfoMap
  id_manager :: IdManager

definition PortInfoMap_default :: PortInfoMap where
  "PortInfoMap_default = \<lparr>port_map = [], owned = []\<rparr>"

definition ports_owned_by :: "PortInfoMap \<Rightarrow> ComponentId \<Rightarrow> PortId list" where
  "ports_owned_by m cid = (case hm_get (owned m) cid of None \<Rightarrow> [] | Some ports \<Rightarrow> ports)"

definition spec_var_for :: "PortInfoMap \<Rightarrow> PortId \<Rightarrow> SpecVar option" where
  "spec_var_for m port = do {
     info \<leftarrow> hm_get (port_map m) port;
     case polarity info of
       Getter \<Rightarrow> Some (SpecVar port)
     | Putter \<Rightarrow> do { p \<leftarrow> peer info; Some (SpecVar p) }
   }"

definition invariant_preserved :: "PortInfoMap \<Rightarrow> bool" where
  "invariant_preserved m \<longleftrightarrow>
     list_all (\<lambda>(port, info).
       case hm_get (owned m) (owner info) of
         Some ports \<Rightarrow> port \<in> set ports
       | None \<Rightarrow> False) (port_map m) \<and>
     list_all (\<lambda>(cid, ports).
       list_all (\<lambda>port.
         case hm_get (port_map m) port of
           Some info \<Rightarrow> owner info = cid
         | None \<Rightarrow> False) ports) (owned m)"

section \<open>Callbacks of a protocol component outside synchronous blocks\<close>

text \<open>
  \<open>entry(cid).or_default().extend([o, i])\<close> on the \<open>owned\<close> table.
\<close>

definition owned_extend :: "ComponentId \<Rightarrow> PortId list \<Rightarrow> PortInfoMap \<Rightarrow> PortInfoMap" where
  "owned_extend cid ports m =
     m\<lparr>owned := hm_insert cid (fold hs_insert ports (ports_owned_by m cid)) (owned m)\<rparr>"

definition insert_port :: "PortId \<Rightarrow> PortInfo \<Rightarrow> PortInfoMap \<Rightarrow> PortInfoMap" where
  "insert_port p info m = m\<lparr>port_map := hm_insert p info (port_map m)\<rparr>"

definition nonsync_new_port_pair ::
  "ComponentId \<Rightarrow> IdAndPortState \<Rightarrow> ((PortId \<times> PortId) \<times> IdAndPortState) option" where
  "nonsync_new_port_pair cid ips = do {
     (p_out, idm1) \<leftarrow> new_port_id (id_manager ips);
     (p_in, idm2) \<leftarrow> new_port_id idm1;
     let m1 = insert_port p_out
       \<lparr>owner = cid, peer = Some p_in, polarity = Putter, route = LocalComponent\<rparr> (port_info ips);
     let m2 = insert_port p_in
       \<lparr>owner = cid, peer = Some p_out, polarity = Getter, route = LocalComponent\<rparr> m1;
     Some ((p_out, p_in), ips\<lparr>port_info := owned_extend cid [p_out, p_in] m2, id_manager := idm2\<rparr>)
   }"

text \<open>
  Moving ports to a new owner, as \<open>NonsyncProtoContext::new_component\<close> and
  \<open>Connector::add_component\<close> do: each moved port gets the new owner (\<open>None\<close> when it is
  not in the table), the former owner's set loses the moved ports, and the new owner's set
  is the set of moved ports.
\<close>

fun set_owners :: "PortId list \<Rightarrow> ComponentId \<Rightarrow> (PortId, PortInfo) hash_map \<Rightarrow>
    (PortId, PortInfo) hash_map option" where
  "set_owners [] new_cid pm = Some pm"
| "set_owners (port # ports) new_cid pm = do {
     info \<leftarrow> hm_get pm port;
     set_owners ports new_cid (hm_insert port (info\<lparr>owner := new_cid\<rparr>) pm)
   }"

definition move_ports :: "ComponentId \<Rightarrow> ComponentId \<Rightarrow> PortId hash_set \<Rightarrow> PortInfoMap \<Rightarrow>
    PortInfoMap option" where
  "move_ports old_cid new_cid ports m = do {
     pm \<leftarrow> set_owners ports new_cid (port_map m);
     let own1 = (case hm_get (owned m) old_cid of
         Some ps \<Rightarrow> hm_insert old_cid (hs_retain (\<lambda>x. x \<notin> set ports) ps) (owned m)
       | None \<Rightarrow> owned m);
     Some (m\<lparr>port_map := pm, owned := hm_insert new_cid ports own1\<rparr>)
   }"

text \<open>
  \<open>NonsyncProtoContext::new_component\<close>: the new component is also pushed on the list of
  components that still have to run.
\<close>

definition nonsync_new_component ::
  "ComponentId \<Rightarrow> PortId hash_set \<Rightarrow> 's \<Rightarrow> IdAndPortState \<Rightarrow> (ComponentId \<times> 's) list \<Rightarrow>
   (IdAndPortState \<times> (ComponentId \<times> 's) list) option" where
  "nonsync_new_component cid moved_ports st ips unrun = do {
     oassert (list_all (\<lambda>port. case hm_get (port_map (port_info ips)) port of
                          Some info \<Rightarrow> owner info = cid | None \<Rightarrow> False) moved_ports);
     (new_cid, idm) \<leftarrow> new_component_id (id_manager ips);
     m \<leftarrow> move_ports cid new_cid moved_ports (port_info ips);
     Some (ips\<lparr>port_info := m, id_manager := idm\<rparr>, unrun @ [(new_cid, st)])
   }"

section \<open>The invariant\<close>

abbreviation info_of :: "PortInfoMap \<Rightarrow> PortId \<rightharpoonup> PortInfo" where
  "info_of m \<equiv> map_of (port_map m)"

definition tables_wf :: "PortInfoMap \<Rightarrow> bool" where
  "tables_wf m \<longleftrightarrow> hm_wf (port_map m) \<and> hm_wf (owned m)"

text \<open>The source's invariant, over the two tables read as maps.\<close>

definition ownership_ok :: "PortInfoMap \<Rightarrow> bool" where
  "ownership_ok m \<longleftrightarrow>
     (\<forall>p cid. p \<in> set (ports_owned_by m cid) \<longleftrightarrow> (\<exists>info. info_of m p = Some info \<and> owner info = cid))"

definition channels_ok :: "PortInfoMap \<Rightarrow> bool" where
  "channels_ok m \<longleftrightarrow>
     (\<forall>p info q. info_of m p = Some info \<longrightarrow> peer info = Some q \<longrightarrow>
        (\<exists>info'. info_of m q = Some info' \<and> peer info' = Some p \<and> polarity info' \<noteq> polarity info))"

definition ids_ok :: "IdAndPortState \<Rightarrow> bool" where
  "ids_ok ips \<longleftrightarrow>
     (\<forall>p \<in> dom (info_of (port_info ips)).
        fst (id_parts p) = idm_connector_id (id_manager ips) \<longrightarrow> port_allocated (id_manager ips) p) \<and>
     (\<forall>i. ComponentId i \<in> dom (map_of (owned (port_info ips))) \<longrightarrow>
        connector_id i = idm_connector_id (id_manager ips) \<longrightarrow>
        component_allocated (id_manager ips) (ComponentId i))"

definition ips_base :: "IdAndPortState \<Rightarrow> bool" where
  "ips_base ips \<longleftrightarrow> tables_wf (port_info ips) \<and> ownership_ok (port_info ips) \<and> ids_ok ips"

definition ips_inv :: "IdAndPortState \<Rightarrow> bool" where
  "ips_inv ips \<longleftrightarrow> ips_base ips \<and> channels_ok (port_info ips)"

lemma invariant_preserved_iff:
  assumes "tables_wf m"
  shows "invariant_preserved m \<longleftrightarrow> ownership_ok m"
proof -
  have pm: "(p, info) \<in> set (port_map m) \<longleftrightarrow> info_of m p = Some info" for p info
    using assms by (simp add: tables_wf_def)
  have om: "(cid, ps) \<in> set (owned m) \<longleftrightarrow> map_of (owned m) cid = Some ps" for cid ps
    using assms by (simp add: tables_wf_def)
  have own: "(case map_of (owned m) cid of Some ps \<Rightarrow> p \<in> set ps | None \<Rightarrow> False) \<longleftrightarrow>
      p \<in> set (ports_owned_by m cid)" for cid p
    by (simp add: ports_owned_by_def split: option.split)
  have Q: "(case info_of m p of Some info \<Rightarrow> owner info = cid | None \<Rightarrow> False) \<longleftrightarrow>
      (\<exists>info. info_of m p = Some info \<and> owner info = cid)" for cid p
    by (simp split: option.split)
  have all_owned: "(\<forall>cid p. p \<in> set (ports_owned_by m cid) \<longrightarrow> P cid p) \<longleftrightarrow>
      (\<forall>cid ps. map_of (owned m) cid = Some ps \<longrightarrow> (\<forall>p \<in> set ps. P cid p))" for P
  proof (rule iff_allI)
    fix cid
    show "(\<forall>p. p \<in> set (ports_owned_by m cid) \<longrightarrow> P cid p) \<longleftrightarrow>
        (\<forall>ps. map_of (owned m) cid = Some ps \<longrightarrow> (\<forall>p \<in> set ps. P cid p))"
      by (cases "map_of (owned m) cid") (auto simp: ports_owned_by_def)
  qed
  have "invariant_preserved m \<longleftrightarrow>
      (\<forall>p info. info_of m p = Some info \<longrightarrow> p \<in> set (ports_owned_by m (owner info))) \<and>
      (\<forall>cid p. p \<in> set (ports_owned_by m cid) \<longrightarrow> (\<exists>info. info_of m p = Some info \<and> owner info = cid))"
    unfolding invariant_preserved_def own Q list_all_iff all_owned by (simp add: pm om Ball_def)
  then show ?thesis
    unfolding ownership_ok_def by blast
qed

text \<open>Speculative variables identify channels.\<close>

lemma spec_var_for_Getter:
  "info_of m p = Some info \<Longrightarrow> polarity info = Getter \<Longrightarrow> spec_var_for m p = Some (SpecVar p)"
  by (simp add: spec_var_for_def)

lemma spec_var_for_Putter:
  "info_of m p = Some info \<Longrightarrow> polarity info = Putter \<Longrightarrow>
     spec_var_for m p = map_option SpecVar (peer info)"
  by (cases "peer info") (simp_all add: spec_var_for_def)

lemma spec_var_for_eq_iff:
  assumes ok: "channels_ok m" and neq: "p \<noteq> q"
    and v: "spec_var_for m p = Some v" and w: "spec_var_for m q = Some w"
  shows "v = w \<longleftrightarrow> (\<exists>info. info_of m p = Some info \<and> peer info = Some q)"
proof -
  obtain ip iq where ip: "info_of m p = Some ip" and iq: "info_of m q = Some iq"
    using v w by (auto simp: spec_var_for_def bind_eq_Some_conv)
  have sym: "peer ip = Some q \<longleftrightarrow> peer iq = Some p"
    and opp: "peer ip = Some q \<Longrightarrow> polarity iq \<noteq> polarity ip"
    using ok ip iq unfolding channels_ok_def by fastforce+
  show ?thesis
  proof (cases "polarity ip"; cases "polarity iq")
    assume "polarity ip = Getter" "polarity iq = Getter"
    with v w ip iq neq opp show ?thesis by (auto simp: spec_var_for_Getter)
  next
    assume "polarity ip = Getter" "polarity iq = Putter"
    with v w ip iq sym show ?thesis by (auto simp: spec_var_for_Getter spec_var_for_Putter)
  next
    assume "polarity ip = Putter" "polarity iq = Getter"
    with v w ip iq show ?thesis by (auto simp: spec_var_for_Getter spec_var_for_Putter)
  next
    assume pol: "polarity ip = Putter" "polarity iq = Putter"
    then obtain r s where r: "peer ip = Some r" "v = SpecVar r" and s: "peer iq = Some s" "w = SpecVar s"
      using v w ip iq by (auto simp: spec_var_for_Putter)
    have "r \<noteq> s"
    proof
      assume "r = s"
      with ok ip iq r(1) s(1) have "\<exists>ir. info_of m r = Some ir \<and> peer ir = Some p"
        "\<exists>ir. info_of m r = Some ir \<and> peer ir = Some q"
        unfolding channels_ok_def by blast+
      with neq show False by auto
    qed
    with r s ip opp pol show ?thesis by auto
  qed
qed

section \<open>The operations keep the invariant\<close>

lemma info_of_insert_port: "info_of (insert_port p info m) = (info_of m)(p \<mapsto> info)"
  by (simp add: insert_port_def update_conv')

lemma ports_owned_by_insert_port [simp]: "ports_owned_by (insert_port p info m) c = ports_owned_by m c"
  by (simp add: insert_port_def ports_owned_by_def)

lemma info_of_owned_extend [simp]: "info_of (owned_extend cid ps m) = info_of m"
  by (simp add: owned_extend_def)

lemma set_ports_owned_by_extend:
  "set (ports_owned_by (owned_extend cid ps m) c) =
     (if c = cid then set (ports_owned_by m c) \<union> set ps else set (ports_owned_by m c))"
proof -
  have "set (fold hs_insert ps qs) = set qs \<union> set ps" for qs :: "PortId list"
    by (induction ps arbitrary: qs) auto
  then show ?thesis
    by (cases "map_of (owned m) c") (auto simp: owned_extend_def ports_owned_by_def update_conv')
qed

lemma tables_wf_insert_port: "tables_wf m \<Longrightarrow> tables_wf (insert_port p info m)"
  by (simp add: tables_wf_def insert_port_def distinct_update)

lemma tables_wf_owned_extend: "tables_wf m \<Longrightarrow> tables_wf (owned_extend cid ps m)"
  by (simp add: tables_wf_def owned_extend_def distinct_update)

lemmas table_simps =
  info_of_insert_port set_ports_owned_by_extend tables_wf_insert_port tables_wf_owned_extend

lemma nonsync_new_port_pair_Some:
  assumes "nonsync_new_port_pair cid ips = Some ((p_out, p_in), ips')"
  shows "\<exists>idm1. new_port_id (id_manager ips) = Some (p_out, idm1) \<and>
      new_port_id idm1 = Some (p_in, id_manager ips') \<and>
      port_info ips' = owned_extend cid [p_out, p_in]
        (insert_port p_in \<lparr>owner = cid, peer = Some p_out, polarity = Getter, route = LocalComponent\<rparr>
          (insert_port p_out \<lparr>owner = cid, peer = Some p_in, polarity = Putter, route = LocalComponent\<rparr>
            (port_info ips)))"
  using assms by (auto simp: nonsync_new_port_pair_def bind_eq_Some_conv Let_def)

text \<open>What a freshly allocated port is: none of the ports of the table.\<close>

lemma port_allocated_connector: "port_allocated m p \<Longrightarrow> fst (id_parts p) = idm_connector_id m"
  by (cases p) (simp add: port_allocated_def)

lemma new_port_id_fresh:
  assumes "ids_ok ips" "new_port_id (id_manager ips) = Some (p, m')"
  shows "info_of (port_info ips) p = None"
proof (rule ccontr)
  assume "info_of (port_info ips) p \<noteq> None"
  moreover have "fst (id_parts p) = idm_connector_id (id_manager ips)"
    using assms(2) by (simp add: new_port_id_Some)
  ultimately have "port_allocated (id_manager ips) p"
    using assms(1) by (simp add: ids_ok_def dom_def)
  with new_port_id_allocated(2) [OF assms(2)] show False by simp
qed

lemma new_port_pair_fresh:
  assumes "ids_ok ips" "new_port_id (id_manager ips) = Some (p_out, idm1)"
    "new_port_id idm1 = Some (p_in, idm2)"
  shows "info_of (port_info ips) p_out = None" "info_of (port_info ips) p_in = None" "p_out \<noteq> p_in"
proof -
  show "info_of (port_info ips) p_out = None"
    using assms(1,2) by (rule new_port_id_fresh)
  have "ids_ok (ips\<lparr>id_manager := idm1\<rparr>)"
    using assms(1) new_port_id_allocated(1) [OF assms(2)] new_port_id_frame [OF assms(2)]
    by (auto simp: ids_ok_def)
  with new_port_id_fresh [of "ips\<lparr>id_manager := idm1\<rparr>"] assms(3)
  show "info_of (port_info ips) p_in = None" by simp
  show "p_out \<noteq> p_in"
    using new_port_id_allocated [OF assms(2)] new_port_id_allocated(2) [OF assms(3)] by auto
qed

text \<open>A new symmetric channel between two fresh ports keeps every channel symmetric.\<close>

lemma channels_ok_add_pair:
  assumes ok: "channels_ok m" and fresh: "info_of m p = None" "info_of m q = None" "p \<noteq> q"
    and info: "info_of m' = (info_of m)(p \<mapsto> ip, q \<mapsto> iq)"
    and pair: "peer ip = Some q" "peer iq = Some p" "polarity ip \<noteq> polarity iq"
  shows "channels_ok m'"
  unfolding channels_ok_def
proof (intro allI impI)
  fix a ia b
  assume a: "info_of m' a = Some ia" "peer ia = Some b"
  consider "a = p" | "a = q" | "a \<noteq> p" "a \<noteq> q" by blast
  then show "\<exists>ib. info_of m' b = Some ib \<and> peer ib = Some a \<and> polarity ib \<noteq> polarity ia"
  proof cases
    assume "a \<noteq> p" "a \<noteq> q"
    with a ok info obtain ib where "info_of m b = Some ib" "peer ib = Some a" "polarity ib \<noteq> polarity ia"
      unfolding channels_ok_def by fastforce
    moreover from this fresh have "b \<noteq> p" "b \<noteq> q" by auto
    ultimately show ?thesis using info by auto
  qed (use a info pair fresh in auto)
qed

lemma nonsync_new_port_pair_inv:
  assumes inv: "ips_base ips" and cid: "component_allocated (id_manager ips) cid"
    and new: "nonsync_new_port_pair cid ips = Some ((p_out, p_in), ips')"
  shows "ips_base ips'" "channels_ok (port_info ips) \<Longrightarrow> channels_ok (port_info ips')"
proof -
  from nonsync_new_port_pair_Some [OF new] obtain idm1 where
    idm: "new_port_id (id_manager ips) = Some (p_out, idm1)" "new_port_id idm1 = Some (p_in, id_manager ips')"
    and m: "port_info ips' = owned_extend cid [p_out, p_in]
        (insert_port p_in \<lparr>owner = cid, peer = Some p_out, polarity = Getter, route = LocalComponent\<rparr>
          (insert_port p_out \<lparr>owner = cid, peer = Some p_in, polarity = Putter, route = LocalComponent\<rparr>
            (port_info ips)))"
    by blast
  have ok: "tables_wf (port_info ips)" "ownership_ok (port_info ips)" "ids_ok ips"
    using inv by (simp_all add: ips_base_def)
  note fresh = new_port_pair_fresh [OF ok(3) idm]
  have "tables_wf (port_info ips')"
    using ok(1) by (simp add: m table_simps)
  moreover have "ownership_ok (port_info ips')"
    using ok(2) fresh unfolding ownership_ok_def
    by (auto simp: m table_simps split: if_splits)
  moreover have "ids_ok ips'"
    using ok(3) cid new_port_id_allocated(1) [OF idm(1)] new_port_id_allocated(1) [OF idm(2)]
      new_port_id_frame [OF idm(1)] new_port_id_frame [OF idm(2)]
    by (auto simp: ids_ok_def m table_simps owned_extend_def insert_port_def update_conv' split: if_splits)
  ultimately show "ips_base ips'" by (simp add: ips_base_def)
  show "channels_ok (port_info ips')" if "channels_ok (port_info ips)"
    using channels_ok_add_pair [OF that fresh] by (simp add: m table_simps)
qed

lemma set_owners_spec:
  assumes "set_owners ports cid pm = Some pm'"
  shows "map_of pm' p =
      (if p \<in> set ports then map_option (\<lambda>info. info\<lparr>owner := cid\<rparr>) (map_of pm p) else map_of pm p)"
    and "hm_wf pm \<Longrightarrow> hm_wf pm'" and "set ports \<subseteq> dom (map_of pm)"
  using assms
proof (induction ports cid pm rule: set_owners.induct)
  case (2 port ports cid pm)
  {
    case 1
    with 2 show ?case by (auto simp: bind_eq_Some_conv update_conv' split: if_splits)
  next
    case 2
    with "2.IH"(2) show ?case by (auto simp: bind_eq_Some_conv distinct_update)
  next
    case 3
    then obtain info where "map_of pm port = Some info"
      "set_owners ports cid (hm_insert port (info\<lparr>owner := cid\<rparr>) pm) = Some pm'"
      by (auto simp: bind_eq_Some_conv)
    with "2.IH"(3) [OF this] show ?case by (auto simp: update_conv' split: if_splits)
  }
qed auto

lemma set_owners_Some: "set ports \<subseteq> dom (map_of pm) \<Longrightarrow> \<exists>pm'. set_owners ports cid pm = Some pm'"
proof (induction ports cid pm rule: set_owners.induct)
  case (2 port ports cid pm)
  then obtain info where info: "map_of pm port = Some info" by auto
  have "set ports \<subseteq> dom (map_of (hm_insert port (info\<lparr>owner := cid\<rparr>) pm))"
    using "2.prems" by (auto simp: update_conv')
  with "2.IH" [OF info] info show ?case by simp
qed auto

lemma move_ports_inv:
  assumes wf: "tables_wf m" and own: "ownership_ok m"
    and moved: "\<forall>p \<in> set ports. \<exists>info. info_of m p = Some info \<and> owner info = old_cid"
    and fresh: "new_cid \<notin> dom (map_of (owned m))"
    and m': "move_ports old_cid new_cid ports m = Some m'"
  shows "tables_wf m' \<and> ownership_ok m' \<and> (channels_ok m \<longrightarrow> channels_ok m') \<and> dom (info_of m') = dom (info_of m) \<and>
    dom (map_of (owned m')) = insert new_cid (dom (map_of (owned m)))"
proof -
  obtain pm where pm: "set_owners ports new_cid (port_map m) = Some pm"
    and m'_eq: "m' = m\<lparr>port_map := pm, owned := hm_insert new_cid ports
      (case hm_get (owned m) old_cid of
         Some ps \<Rightarrow> hm_insert old_cid (hs_retain (\<lambda>x. x \<notin> set ports) ps) (owned m)
       | None \<Rightarrow> owned m)\<rparr>"
    using m' by (auto simp: move_ports_def bind_eq_Some_conv Let_def)
  have info': "info_of m' p = (if p \<in> set ports then map_option (\<lambda>info. info\<lparr>owner := new_cid\<rparr>) (info_of m p)
      else info_of m p)" for p
    using set_owners_spec(1) [OF pm] by (simp add: m'_eq)
  have owned': "set (ports_owned_by m' c) = (if c = new_cid then set ports
      else if c = old_cid then set (ports_owned_by m c) - set ports else set (ports_owned_by m c))" for c
    by (auto simp: m'_eq ports_owned_by_def update_conv' split: option.splits)
  have neq: "old_cid \<noteq> new_cid" if "p \<in> set ports" for p
  proof -
    from that moved own have "p \<in> set (ports_owned_by m old_cid)"
      unfolding ownership_ok_def by blast
    with fresh show ?thesis by (auto simp: ports_owned_by_def domIff split: option.splits)
  qed
  have none: "ports_owned_by m new_cid = []"
    using fresh by (auto simp: ports_owned_by_def domIff split: option.splits)
  have "tables_wf m'"
    using wf set_owners_spec(2) [OF pm]
    by (auto simp: tables_wf_def m'_eq distinct_update split: option.split)
  moreover have "p \<in> set (ports_owned_by m' cid) \<longleftrightarrow> (\<exists>info. info_of m' p = Some info \<and> owner info = cid)"
    for p cid
  proof -
    have old: "p \<in> set (ports_owned_by m c) \<longleftrightarrow> (\<exists>info. info_of m p = Some info \<and> owner info = c)" for c
      using own by (simp add: ownership_ok_def)
    show ?thesis
    proof (cases "p \<in> set ports")
      case True
      with moved obtain info where "info_of m p = Some info" "owner info = old_cid" by blast
      with True neq [OF True] old [of cid] show ?thesis by (auto simp: info' owned')
    next
      case False
      with old [of cid] none old [of new_cid] show ?thesis by (auto simp: info' owned')
    qed
  qed
  then have "ownership_ok m'" by (simp add: ownership_ok_def)
  moreover have "channels_ok m'" if chan: "channels_ok m"
    unfolding channels_ok_def
  proof (intro allI impI)
    fix p info q
    assume "info_of m' p = Some info" "peer info = Some q"
    then obtain i0 where "info_of m p = Some i0" "peer i0 = Some q" "polarity i0 = polarity info"
      by (auto simp: info' split: if_splits)
    with chan obtain i1 where i1: "info_of m q = Some i1" "peer i1 = Some p" "polarity i1 \<noteq> polarity info"
      unfolding channels_ok_def by metis
    then show "\<exists>info'. info_of m' q = Some info' \<and> peer info' = Some p \<and> polarity info' \<noteq> polarity info"
      by (cases "q \<in> set ports") (simp_all add: info')
  qed
  moreover have "dom (info_of m') = dom (info_of m)"
    by (auto simp: info' dom_def split: if_splits)
  moreover have "dom (map_of (owned m')) = insert new_cid (dom (map_of (owned m)))"
    by (auto simp: m'_eq update_conv' split: option.splits)
  ultimately show ?thesis by blast
qed

lemma new_component_fresh:
  assumes "ids_ok ips" "new_component_id (id_manager ips) = Some (new_cid, idm)"
  shows "new_cid \<notin> dom (map_of (owned (port_info ips)))"
  using assms(1) new_component_id_allocated(2) [OF assms(2)] assms(2)
  by (auto simp: ids_ok_def new_component_id_Some domI)

lemma ids_ok_new_component:
  assumes "ids_ok ips" "new_component_id (id_manager ips) = Some (new_cid, idm)"
    and "dom (info_of m) = dom (info_of (port_info ips))"
    and "dom (map_of (owned m)) = insert new_cid (dom (map_of (owned (port_info ips))))"
  shows "ids_ok (ips\<lparr>port_info := m, id_manager := idm\<rparr>)"
  using assms(1,3,4) new_component_id_allocated(1) [OF assms(2)] new_component_id_frame [OF assms(2)]
  by (auto simp: ids_ok_def)

lemma nonsync_new_component_inv:
  assumes inv: "ips_base ips"
    and new: "nonsync_new_component cid moved st ips unrun = Some (ips', unrun')"
  shows "ips_base ips'" "channels_ok (port_info ips) \<Longrightarrow> channels_ok (port_info ips')"
proof -
  obtain new_cid idm m where
    moved: "\<forall>p \<in> set moved. \<exists>info. info_of (port_info ips) p = Some info \<and> owner info = cid"
    and idm: "new_component_id (id_manager ips) = Some (new_cid, idm)"
    and m: "move_ports cid new_cid moved (port_info ips) = Some m"
    and ips': "ips' = ips\<lparr>port_info := m, id_manager := idm\<rparr>"
    using new by (fastforce simp: nonsync_new_component_def bind_eq_Some_conv list_all_iff
        split: option.splits)
  have ok: "tables_wf (port_info ips)" "ownership_ok (port_info ips)" "ids_ok ips"
    using inv by (simp_all add: ips_base_def)
  note m' = move_ports_inv [OF ok(1,2) moved new_component_fresh [OF ok(3) idm] m]
  moreover have "ids_ok ips'"
    using ids_ok_new_component [OF ok(3) idm] m' by (simp add: ips')
  ultimately show "ips_base ips'" "channels_ok (port_info ips) \<Longrightarrow> channels_ok (port_info ips')"
    by (simp_all add: ips_base_def ips')
qed

section \<open>Properties\<close>

text \<open>A connector that has created one component and no port yet, for the witnesses.\<close>

abbreviation sample_cid :: ComponentId where
  "sample_cid \<equiv> ComponentId (MkId 7 0)"

definition sample_ips :: IdAndPortState where
  "sample_ips = \<lparr>port_info = PortInfoMap_default,
     id_manager = (IdManager_new 7)\<lparr>component_suffix_stream := \<lparr>snext = 1\<rparr>\<rparr>\<rparr>"

lemma sample_ips_inv: "ips_inv sample_ips" "component_allocated (id_manager sample_ips) sample_cid"
  by (auto simp: sample_ips_def ips_inv_def ips_base_def tables_wf_def ownership_ok_def channels_ok_def ids_ok_def
      PortInfoMap_default_def ports_owned_by_def component_allocated_def IdManager_new_def)

text \<open>
  Creating a port pair outside a synchronous block keeps the invariant of the port
  table, and the two new ports are the two ends of one new channel, owned by the creating
  component and known to no other.
\<close>

theorem new_port_pair_keeps_inv:
  assumes "ips_inv ips" "component_allocated (id_manager ips) cid"
    and "nonsync_new_port_pair cid ips = Some ((p_out, p_in), ips')"
  shows "ips_inv ips' \<and> invariant_preserved (port_info ips') \<and>
    p_out \<notin> dom (info_of (port_info ips)) \<and> p_in \<notin> dom (info_of (port_info ips)) \<and>
    spec_var_for (port_info ips') p_out = Some (SpecVar p_in) \<and>
    spec_var_for (port_info ips') p_in = Some (SpecVar p_in) \<and>
    set (ports_owned_by (port_info ips') cid) = {p_out, p_in} \<union> set (ports_owned_by (port_info ips) cid)"
proof -
  from nonsync_new_port_pair_Some [OF assms(3)] obtain idm1 where
    idm: "new_port_id (id_manager ips) = Some (p_out, idm1)" "new_port_id idm1 = Some (p_in, id_manager ips')"
    and m: "port_info ips' = owned_extend cid [p_out, p_in]
        (insert_port p_in \<lparr>owner = cid, peer = Some p_out, polarity = Getter, route = LocalComponent\<rparr>
          (insert_port p_out \<lparr>owner = cid, peer = Some p_in, polarity = Putter, route = LocalComponent\<rparr>
            (port_info ips)))"
    by blast
  have base: "ips_base ips" "channels_ok (port_info ips)" using assms(1) by (simp_all add: ips_inv_def)
  have inv': "ips_inv ips'"
    using nonsync_new_port_pair_inv [OF base(1) assms(2,3)] base(2) by (simp add: ips_inv_def)
  have "ids_ok ips" using base by (simp add: ips_base_def)
  note fresh = new_port_pair_fresh [OF this idm]
  have info: "info_of (port_info ips') p_out = Some \<lparr>owner = cid, peer = Some p_in, polarity = Putter, route = LocalComponent\<rparr>"
    "info_of (port_info ips') p_in = Some \<lparr>owner = cid, peer = Some p_out, polarity = Getter, route = LocalComponent\<rparr>"
    using fresh(3) by (simp_all add: m table_simps)
  moreover have "invariant_preserved (port_info ips')"
    using inv' invariant_preserved_iff by (simp add: ips_inv_def ips_base_def)
  moreover have "set (ports_owned_by (port_info ips') cid) = {p_out, p_in} \<union> set (ports_owned_by (port_info ips) cid)"
    by (auto simp: m table_simps)
  ultimately show ?thesis
    using inv' fresh by (simp add: spec_var_for_Getter spec_var_for_Putter domIff)
qed

theorem new_port_pair_keeps_inv_witness:
  "\<exists>ips'. nonsync_new_port_pair sample_cid sample_ips = Some ((PortId (MkId 7 0), PortId (MkId 7 1)), ips') \<and>
     ips_inv ips' \<and> spec_var_for (port_info ips') (PortId (MkId 7 0)) = Some (SpecVar (PortId (MkId 7 1)))"
proof -
  have "\<exists>ips'. nonsync_new_port_pair sample_cid sample_ips = Some ((PortId (MkId 7 0), PortId (MkId 7 1)), ips')"
    by (simp add: nonsync_new_port_pair_def sample_ips_def IdManager_new_def new_port_id_def
        U32Stream_next_def u32_MAX_def)
  then show ?thesis
    using new_port_pair_keeps_inv [OF sample_ips_inv] by blast
qed

text \<open>
  C35: when a component creates another one and hands it ports of its own, the table keeps
  its invariant, exactly the handed ports change owner, and no channel changes.
\<close>

theorem new_component_keeps_inv:
  assumes inv: "ips_inv ips"
    and new: "nonsync_new_component cid moved st ips unrun = Some (ips', unrun')"
  shows "ips_inv ips' \<and> (\<exists>new_cid. unrun' = unrun @ [(new_cid, st)] \<and> \<not> component_allocated (id_manager ips) new_cid \<and>
    (\<forall>p. info_of (port_info ips') p =
      (if p \<in> set moved then map_option (owner_update (\<lambda>_. new_cid)) (info_of (port_info ips) p)
       else info_of (port_info ips) p)))"
proof -
  obtain new_cid idm m where
    idm: "new_component_id (id_manager ips) = Some (new_cid, idm)"
    and m: "move_ports cid new_cid moved (port_info ips) = Some m"
    and ips': "ips' = ips\<lparr>port_info := m, id_manager := idm\<rparr>" "unrun' = unrun @ [(new_cid, st)]"
    using new by (fastforce simp: nonsync_new_component_def bind_eq_Some_conv)
  from m have "set_owners moved new_cid (port_map (port_info ips)) = Some (port_map m)"
    by (auto simp: move_ports_def bind_eq_Some_conv Let_def)
  then have "info_of m p = (if p \<in> set moved then map_option (owner_update (\<lambda>_. new_cid)) (info_of (port_info ips) p)
       else info_of (port_info ips) p)" for p
    using set_owners_spec by fastforce
  then show ?thesis
    using nonsync_new_component_inv [OF _ new] inv new_component_id_allocated(2) [OF idm] ips'
    by (auto simp: ips_inv_def)
qed

theorem new_component_keeps_inv_witness:
  "\<exists>ips'. nonsync_new_component sample_cid [] (0 :: nat) sample_ips [] = Some (ips', [(ComponentId (MkId 7 1), 0)]) \<and>
     ips_inv ips'"
proof -
  obtain ips' where
    new: "nonsync_new_component sample_cid [] (0 :: nat) sample_ips [] = Some (ips', [(ComponentId (MkId 7 1), 0)])"
    by (simp add: nonsync_new_component_def sample_ips_def IdManager_new_def new_component_id_def
        U32Stream_next_def u32_MAX_def move_ports_def oassert_def)
  from new_component_keeps_inv [OF sample_ips_inv(1) new, THEN conjunct1] new show ?thesis by blast
qed

text \<open>
  C36: on a table whose channels are symmetric (\<open>channels_ok\<close>), two different ports have the
  same speculative variable exactly when they are the two ends of one channel, so a predicate
  assigns one value per channel. The creation of port pairs and of components keeps the
  channels symmetric; that of UDP mediators does not, and two of their ports share a variable
  without being the ends of one channel.
\<close>

theorem spec_var_identifies_channel:
  assumes "channels_ok m" "p \<noteq> q" "spec_var_for m p = Some v" "spec_var_for m q = Some w"
  shows "v = w \<longleftrightarrow> (\<exists>info. info_of m p = Some info \<and> peer info = Some q)"
  using assms by (rule spec_var_for_eq_iff)

theorem spec_var_identifies_channel_witness:
  "let a = PortId (MkId 7 0); b = PortId (MkId 7 1);
       m = \<lparr>port_map = [(a, \<lparr>owner = sample_cid, peer = Some b, polarity = Putter, route = LocalComponent\<rparr>),
              (b, \<lparr>owner = sample_cid, peer = Some a, polarity = Getter, route = LocalComponent\<rparr>)], owned = []\<rparr> in
   channels_ok m \<and> spec_var_for m a = spec_var_for m b \<and> (\<exists>info. info_of m a = Some info \<and> peer info = Some b)"
proof -
  let ?a = "PortId (MkId 7 0)" and ?b = "PortId (MkId 7 1)"
  let ?m = "\<lparr>port_map = [(?a, \<lparr>owner = sample_cid, peer = Some ?b, polarity = Putter, route = LocalComponent\<rparr>),
              (?b, \<lparr>owner = sample_cid, peer = Some ?a, polarity = Getter, route = LocalComponent\<rparr>)], owned = []\<rparr>"
  have ok: "channels_ok ?m" by (auto simp: channels_ok_def split: if_splits)
  have v: "spec_var_for ?m ?a = Some (SpecVar ?b)" "spec_var_for ?m ?b = Some (SpecVar ?b)"
    by (simp_all add: spec_var_for_def)
  have "?a \<noteq> ?b" by simp
  from spec_var_identifies_channel [OF ok this v]
  have ex: "\<exists>info. info_of ?m ?a = Some info \<and> peer info = Some ?b" by blast
  show ?thesis unfolding Let_def by (intro conjI ok ex) (simp only: v)
qed

end
