(* ===== verification/Vec_Sets.thy ===== *)
theory Vec_Sets
  imports Common_Ids
begin

text \<open>
  The sets kept in vectors. \<open>VecSet\<close> of \<open>src/runtime/mod.rs\<close> is ordered and
  deduplicated and searched by bisection; \<open>DequeSet\<close> and \<open>VecSet\<close> of
  \<open>src/collections/sets.rs\<close> are unordered and searched linearly. Each is an instance of
  the contract \<open>set_contract\<close>: insertion adds exactly the element, membership is
  decided, and the representation stays well formed (sorted, duplicate-free).
\<close>

section \<open>Bisection\<close>

text \<open>
  \<open>slice::binary_search\<close>: \<open>Inr i\<close> is \<open>Ok(i)\<close>, \<open>Inl i\<close> is \<open>Err(i)\<close>, the
  index where the element can be inserted.
\<close>

function bisect :: "'a::linorder list \<Rightarrow> 'a \<Rightarrow> nat \<Rightarrow> nat \<Rightarrow> nat + nat" where
  "bisect xs x left right =
     (if left < right then
        let mid = left + (right - left) div 2 in
        if xs ! mid < x then bisect xs x (mid + 1) right
        else if x < xs ! mid then bisect xs x left mid
        else Inr mid
      else Inl left)"
  by pat_completeness auto
termination
  by (relation "measure (\<lambda>(xs, x, left, right). right - left)") auto

declare bisect.simps [simp del]

definition binary_search :: "'a::linorder list \<Rightarrow> 'a \<Rightarrow> nat + nat" where
  "binary_search xs x = bisect xs x 0 (length xs)"

definition strict_sorted :: "'a::linorder list \<Rightarrow> bool" where
  "strict_sorted xs \<longleftrightarrow> sorted_wrt (<) xs"

lemma strict_sorted_nth_less:
  "strict_sorted xs \<Longrightarrow> i < j \<Longrightarrow> j < length xs \<Longrightarrow> xs ! i < xs ! j"
  by (simp add: strict_sorted_def sorted_wrt_nth_less)

lemma bisect_spec:
  assumes "strict_sorted xs" "left \<le> right" "right \<le> length xs"
    and "\<forall>i < left. xs ! i < x" "\<forall>i < length xs. right \<le> i \<longrightarrow> x < xs ! i"
  shows "case bisect xs x left right of
      Inr i \<Rightarrow> i < length xs \<and> xs ! i = x
    | Inl i \<Rightarrow> i \<le> length xs \<and> (\<forall>j < i. xs ! j < x) \<and> (\<forall>j < length xs. i \<le> j \<longrightarrow> x < xs ! j)"
  using assms
proof (induction xs x left right rule: bisect.induct)
  case (1 xs x left right)
  let ?mid = "left + (right - left) div 2"
  show ?case
  proof (cases "left < right")
    case True
    then have mid: "left \<le> ?mid" "?mid < right" by auto
    consider "xs ! ?mid < x" | "x < xs ! ?mid" | "xs ! ?mid = x" by fastforce
    then show ?thesis
    proof cases
      assume less: "xs ! ?mid < x"
      have "xs ! i < x" if "i < ?mid + 1" for i
        using that less strict_sorted_nth_less [OF "1.prems"(1), of i ?mid] mid "1.prems"(3)
        by (cases "i = ?mid") auto
      with "1.IH"(1) [OF True refl less] "1.prems" mid less True show ?thesis
        by (simp add: bisect.simps [of xs x left right] Let_def)
    next
      assume greater: "x < xs ! ?mid"
      have "x < xs ! i" if "i < length xs" "?mid \<le> i" for i
        using that greater strict_sorted_nth_less [OF "1.prems"(1), of ?mid i]
        by (cases "i = ?mid") auto
      moreover have "\<not> xs ! ?mid < x" using greater by simp
      ultimately show ?thesis
        using "1.IH"(2) [OF True refl _ greater] "1.prems" mid greater True
        by (simp add: bisect.simps [of xs x left right] Let_def)
    next
      assume "xs ! ?mid = x"
      with True mid "1.prems"(3) show ?thesis
        by (simp add: bisect.simps [of xs x left right] Let_def)
    qed
  next
    case False
    then have "bisect xs x left right = Inl left"
      by (subst bisect.simps) simp
    with False "1.prems" show ?thesis by simp
  qed
qed

lemma binary_search_Ok: "strict_sorted xs \<Longrightarrow> binary_search xs x = Inr i \<Longrightarrow> i < length xs \<and> xs ! i = x"
  using bisect_spec [of xs 0 "length xs" x] by (simp add: binary_search_def)

lemma binary_search_Err:
  "strict_sorted xs \<Longrightarrow> binary_search xs x = Inl i \<Longrightarrow>
     i \<le> length xs \<and> (\<forall>j < i. xs ! j < x) \<and> (\<forall>j < length xs. i \<le> j \<longrightarrow> x < xs ! j)"
  using bisect_spec [of xs 0 "length xs" x] by (simp add: binary_search_def)

lemma binary_search_mem: "strict_sorted xs \<Longrightarrow> \<not> isl (binary_search xs x) \<longleftrightarrow> x \<in> set xs"
proof (cases "binary_search xs x")
  case (Inl i)
  assume "strict_sorted xs"
  from binary_search_Err [OF this Inl] have "x \<notin> set xs"
    by (auto simp: in_set_conv_nth) (meson leI less_irrefl)
  with Inl show ?thesis by simp
next
  case (Inr i)
  assume "strict_sorted xs"
  from binary_search_Ok [OF this Inr] have "x \<in> set xs" by auto
  with Inr show ?thesis by simp
qed

section \<open>The ordered vector set of the runtime\<close>

record 'a VecSet =
  vec :: "'a list"

definition VecSet_new :: "'a::linorder list \<Rightarrow> 'a VecSet" where
  "VecSet_new v = \<lparr>vec = remdups_adj (sort v)\<rparr>"

definition VecSet_contains :: "'a::linorder VecSet \<Rightarrow> 'a \<Rightarrow> bool" where
  "VecSet_contains s x \<longleftrightarrow> \<not> isl (binary_search (vec s) x)"

text \<open>\<open>Vec::insert\<close> at an index, shifting the tail.\<close>

definition vec_insert :: "nat \<Rightarrow> 'a \<Rightarrow> 'a list \<Rightarrow> 'a list" where
  "vec_insert i x xs = take i xs @ x # drop i xs"

definition VecSet_insert :: "'a::linorder \<Rightarrow> 'a VecSet \<Rightarrow> bool \<times> 'a VecSet" where
  "VecSet_insert x s =
     (case binary_search (vec s) x of
        Inr _ \<Rightarrow> (False, s)
      | Inl index \<Rightarrow> (True, s\<lparr>vec := vec_insert index x (vec s)\<rparr>))"

text \<open>\<open>Vec::pop\<close> returns and removes the last element.\<close>

definition vec_pop :: "'a list \<Rightarrow> ('a \<times> 'a list) option" where
  "vec_pop xs = (if xs = [] then None else Some (last xs, butlast xs))"

definition VecSet_pop :: "'a VecSet \<Rightarrow> ('a \<times> 'a VecSet) option" where
  "VecSet_pop s = map_option (\<lambda>(x, v). (x, s\<lparr>vec := v\<rparr>)) (vec_pop (vec s))"

abbreviation VecSet_wf :: "'a::linorder VecSet \<Rightarrow> bool" where
  "VecSet_wf s \<equiv> strict_sorted (vec s)"

lemma set_vec_insert: "set (vec_insert i x xs) = insert x (set xs)"
  unfolding vec_insert_def by (metis Un_insert_right append_take_drop_id list.simps(15) set_append)

lemma strict_sorted_vec_insert:
  assumes "strict_sorted xs" "\<forall>j < i. xs ! j < x" "\<forall>j < length xs. i \<le> j \<longrightarrow> x < xs ! j" "i \<le> length xs"
  shows "strict_sorted (vec_insert i x xs)"
proof -
  have "\<forall>y \<in> set (take i xs). y < x"
    using assms(2,4) by (auto simp: in_set_conv_nth)
  moreover have "\<forall>y \<in> set (drop i xs). x < y"
    using assms(3,4) by (auto simp: in_set_conv_nth)
  moreover have "sorted_wrt (<) (take i xs @ drop i xs)"
    using assms(1) by (simp add: strict_sorted_def)
  ultimately show ?thesis
    unfolding strict_sorted_def vec_insert_def sorted_wrt_append by auto
qed

lemma VecSet_insert_spec:
  assumes wf: "VecSet_wf s"
  shows "fst (VecSet_insert x s) \<longleftrightarrow> x \<notin> set (vec s)"
    and "set (vec (snd (VecSet_insert x s))) = insert x (set (vec s))"
    and "VecSet_wf (snd (VecSet_insert x s))"
proof -
  have mem: "\<not> isl (binary_search (vec s) x) \<longleftrightarrow> x \<in> set (vec s)"
    using wf by (rule binary_search_mem)
  show "fst (VecSet_insert x s) \<longleftrightarrow> x \<notin> set (vec s)"
    using mem by (cases "binary_search (vec s) x") (auto simp: VecSet_insert_def)
  show "set (vec (snd (VecSet_insert x s))) = insert x (set (vec s))"
    using mem by (cases "binary_search (vec s) x") (auto simp: VecSet_insert_def set_vec_insert)
  show "VecSet_wf (snd (VecSet_insert x s))"
    using wf binary_search_Err [OF wf] strict_sorted_vec_insert [of "vec s"]
    by (cases "binary_search (vec s) x") (auto simp: VecSet_insert_def)
qed

interpretation rvs: set_contract "\<lambda>s. set (vec s)" "\<lambda>x s. snd (VecSet_insert x s)"
  VecSet_contains "\<lambda>s. VecSet_wf (s :: 'a::linorder VecSet)"
  by unfold_locales (simp_all add: VecSet_insert_spec VecSet_contains_def binary_search_mem)

lemma strict_sorted_remdups_adj: "sorted xs \<Longrightarrow> strict_sorted (remdups_adj xs)"
proof (induction xs rule: remdups_adj.induct)
  case (3 x y xs)
  have "\<forall>z \<in> set (y # xs). x < z" if "x \<noteq> y"
    using 3(3) that by fastforce
  with 3 show ?case by (auto simp: strict_sorted_def)
qed (simp_all add: strict_sorted_def)

lemma VecSet_wf_new: "VecSet_wf (VecSet_new v)"
  by (simp add: VecSet_new_def strict_sorted_remdups_adj)

lemma set_VecSet_new: "set (vec (VecSet_new v)) = set v"
  by (simp add: VecSet_new_def)

lemma VecSet_pop_spec:
  assumes "VecSet_wf s" "VecSet_pop s = Some (x, s')"
  shows "VecSet_wf s'" "x \<in> set (vec s)" "set (vec s') = set (vec s) - {x}" "\<forall>y \<in> set (vec s'). y < x"
proof -
  have v: "vec s \<noteq> []" "x = last (vec s)" "vec s' = butlast (vec s)"
    using assms(2) by (auto simp: VecSet_pop_def vec_pop_def split: if_splits)
  then have eq: "vec s = vec s' @ [x]" by simp
  then have "sorted_wrt (<) (vec s' @ [x])"
    using assms(1) by (simp add: strict_sorted_def)
  then show "VecSet_wf s'" "\<forall>y \<in> set (vec s'). y < x" "x \<in> set (vec s)"
      "set (vec s') = set (vec s) - {x}"
    using eq by (auto simp: strict_sorted_def sorted_wrt_append)
qed

section \<open>The unordered sets of the compiler\<close>

record 'a DequeSet =
  inner :: "'a list"

definition DequeSet_new :: "'a DequeSet" where
  "DequeSet_new = \<lparr>inner = []\<rparr>"

definition DequeSet_pop_front :: "'a DequeSet \<Rightarrow> ('a \<times> 'a DequeSet) option" where
  "DequeSet_pop_front s = (case inner s of [] \<Rightarrow> None | x # xs \<Rightarrow> Some (x, s\<lparr>inner := xs\<rparr>))"

definition DequeSet_pop_back :: "'a DequeSet \<Rightarrow> ('a \<times> 'a DequeSet) option" where
  "DequeSet_pop_back s = map_option (\<lambda>(x, v). (x, s\<lparr>inner := v\<rparr>)) (vec_pop (inner s))"

text \<open>The search loop of the push operations: return early when the element is found.\<close>

fun contains_loop :: "'a list \<Rightarrow> 'a \<Rightarrow> bool" where
  "contains_loop [] to_push = False"
| "contains_loop (element # it) to_push = (if element = to_push then True else contains_loop it to_push)"

definition DequeSet_push_back :: "'a \<Rightarrow> 'a DequeSet \<Rightarrow> 'a DequeSet" where
  "DequeSet_push_back x s =
     (if contains_loop (inner s) x then s else s\<lparr>inner := inner s @ [x]\<rparr>)"

definition DequeSet_push_front :: "'a \<Rightarrow> 'a DequeSet \<Rightarrow> 'a DequeSet" where
  "DequeSet_push_front x s =
     (if contains_loop (inner s) x then s else s\<lparr>inner := x # inner s\<rparr>)"

definition DequeSet_clear :: "'a DequeSet \<Rightarrow> 'a DequeSet" where
  "DequeSet_clear s = s\<lparr>inner := []\<rparr>"

definition DequeSet_is_empty :: "'a DequeSet \<Rightarrow> bool" where
  "DequeSet_is_empty s \<longleftrightarrow> inner s = []"

lemma contains_loop_iff [simp]: "contains_loop xs x \<longleftrightarrow> x \<in> set xs"
  by (induction xs) auto

interpretation dq_back: set_contract "\<lambda>s. set (inner s)" DequeSet_push_back
  "\<lambda>s. contains_loop (inner s)" "\<lambda>s. distinct (inner s)"
  by unfold_locales (auto simp: DequeSet_push_back_def)

interpretation dq_front: set_contract "\<lambda>s. set (inner s)" DequeSet_push_front
  "\<lambda>s. contains_loop (inner s)" "\<lambda>s. distinct (inner s)"
  by unfold_locales (auto simp: DequeSet_push_front_def)

text \<open>\<open>VecSet\<close> of the collections: the same without the front operations.\<close>

record 'a CVecSet =
  cinner :: "'a list"

definition CVecSet_new :: "'a CVecSet" where
  "CVecSet_new = \<lparr>cinner = []\<rparr>"

definition CVecSet_push :: "'a \<Rightarrow> 'a CVecSet \<Rightarrow> 'a CVecSet" where
  "CVecSet_push x s =
     (if contains_loop (cinner s) x then s else s\<lparr>cinner := cinner s @ [x]\<rparr>)"

definition CVecSet_pop :: "'a CVecSet \<Rightarrow> ('a \<times> 'a CVecSet) option" where
  "CVecSet_pop s = map_option (\<lambda>(x, v). (x, s\<lparr>cinner := v\<rparr>)) (vec_pop (cinner s))"

definition CVecSet_clear :: "'a CVecSet \<Rightarrow> 'a CVecSet" where
  "CVecSet_clear s = s\<lparr>cinner := []\<rparr>"

definition CVecSet_is_empty :: "'a CVecSet \<Rightarrow> bool" where
  "CVecSet_is_empty s \<longleftrightarrow> cinner s = []"

interpretation cvs: set_contract "\<lambda>s. set (cinner s)" CVecSet_push
  "\<lambda>s. contains_loop (cinner s)" "\<lambda>s. distinct (cinner s)"
  by unfold_locales (auto simp: CVecSet_push_def)

section \<open>Duplicate ports\<close>

text \<open>\<open>duplicate_port\<close>: the ports seen so far are kept in a sorted vector.\<close>

fun duplicate_port_loop :: "PortId list \<Rightarrow> PortId list \<Rightarrow> PortId option" where
  "duplicate_port_loop [] v = None"
| "duplicate_port_loop (port # ports) v =
     (case binary_search v port of
        Inl index \<Rightarrow> duplicate_port_loop ports (vec_insert index port v)
      | Inr _ \<Rightarrow> Some port)"

definition duplicate_port :: "PortId list \<Rightarrow> PortId option" where
  "duplicate_port ports = duplicate_port_loop ports []"

lemma duplicate_port_loop_spec:
  assumes "strict_sorted v"
  shows "case duplicate_port_loop ps v of
      None \<Rightarrow> distinct ps \<and> set ps \<inter> set v = {}
    | Some p \<Rightarrow> \<exists>us vs. ps = us @ p # vs \<and> distinct us \<and> set us \<inter> set v = {} \<and> p \<in> set us \<union> set v"
  using assms
proof (induction ps v rule: duplicate_port_loop.induct)
  case (1 v)
  then show ?case by simp
next
  case (2 p ps v)
  show ?case
  proof (cases "binary_search v p")
    case (Inr i)
    then have "p \<in> set v" using binary_search_mem [OF "2.prems", of p] by simp
    with Inr show ?thesis by (auto intro: exI [of _ "[]"])
  next
    case (Inl i)
    let ?v = "vec_insert i p v"
    have "p \<notin> set v" using Inl binary_search_mem [OF "2.prems", of p] by simp
    have sorted: "strict_sorted ?v"
      using binary_search_Err [OF "2.prems" Inl] "2.prems" by (simp add: strict_sorted_vec_insert)
    show ?thesis
    proof (cases "duplicate_port_loop ps ?v")
      case None
      with "2.IH" [OF Inl sorted] Inl \<open>p \<notin> set v\<close> show ?thesis by (auto simp: set_vec_insert)
    next
      case (Some d)
      with "2.IH" [OF Inl sorted] obtain us vs where
        us: "ps = us @ d # vs" "distinct us" "set us \<inter> set ?v = {}" "d \<in> set us \<union> set ?v"
        by auto
      then have "p # ps = (p # us) @ d # vs \<and> distinct (p # us) \<and> set (p # us) \<inter> set v = {} \<and>
          d \<in> set (p # us) \<union> set v"
        using \<open>p \<notin> set v\<close> by (auto simp: set_vec_insert)
      then have "\<exists>us vs. p # ps = us @ d # vs \<and> distinct us \<and> set us \<inter> set v = {} \<and> d \<in> set us \<union> set v"
        by blast
      with Inl Some show ?thesis by simp
    qed
  qed
qed

section \<open>Properties\<close>

text \<open>
  \<open>duplicate_port\<close> returns nothing exactly on lists without duplicates, and
  otherwise the first port that repeats an earlier one.
\<close>

theorem duplicate_port_first:
  "case duplicate_port ps of
     None \<Rightarrow> distinct ps
   | Some p \<Rightarrow> \<exists>us vs. ps = us @ p # vs \<and> distinct us \<and> p \<in> set us"
  using duplicate_port_loop_spec [of "[]" ps]
  by (auto simp: duplicate_port_def strict_sorted_def split: option.splits)

text \<open>
  The runtime's \<open>VecSet\<close> behaves as a set. Built from any vector and extended by
  any sequence of insertions it contains exactly the elements given, stays sorted without
  duplicates, and one more insertion reports whether the element was new.
\<close>

theorem VecSet_is_set:
  fixes v xs :: "'a::linorder list"
  shows "let s = fold (\<lambda>x s. snd (VecSet_insert x s)) xs (VecSet_new v) in
    (VecSet_contains s y \<longleftrightarrow> y \<in> set v \<union> set xs) \<and> strict_sorted (vec s) \<and>
    (fst (VecSet_insert y s) \<longleftrightarrow> y \<notin> set v \<union> set xs)"
proof -
  define s where "s = fold (\<lambda>x s. snd (VecSet_insert x s)) xs (VecSet_new v)"
  have s: "VecSet_wf s" "set (vec s) = set v \<union> set xs"
    using rvs.ins_all [OF VecSet_wf_new, of xs v] by (simp_all add: s_def set_VecSet_new)
  have "VecSet_contains s y \<longleftrightarrow> y \<in> set v \<union> set xs"
    using s by (simp add: VecSet_contains_def binary_search_mem)
  moreover have "fst (VecSet_insert y s) \<longleftrightarrow> y \<notin> set v \<union> set xs"
    using VecSet_insert_spec(1) [OF s(1)] s(2) by simp
  ultimately show ?thesis using s(1) by (simp add: s_def Let_def)
qed

end
