(* ===== verification/Round_Ctx.thy ===== *)
theory Round_Ctx
  imports Solutions Port_Info Vec_Sets
begin

text \<open>
  The messages exchanged in a synchronous round and the transient state of a round
  (\<open>SendPayloadMsg\<close>, \<open>RoundCtx\<close> of \<open>src/runtime/mod.rs\<close>), with the operations of
  its message buffer. The deadline is kept as a number of clock ticks.
\<close>

record SendPayloadMsg =
  spm_predicate :: Predicate
  spm_payload :: Payload

record RoundCtx =
  solution_storage :: SolutionStorage
  spec_var_stream :: SpecVarStream
  payload_inbox :: "(PortId \<times> SendPayloadMsg) list"
  deadline :: "nat option"
  rips :: IdAndPortState

abbreviation rc_ports :: "RoundCtx \<Rightarrow> PortInfoMap" where
  "rc_ports rctx \<equiv> port_info (rips rctx)"

definition getter_pop :: "RoundCtx \<Rightarrow> ((PortId \<times> SendPayloadMsg) \<times> RoundCtx) option" where
  "getter_pop rctx =
     map_option (\<lambda>(x, v). (x, rctx\<lparr>payload_inbox := v\<rparr>)) (vec_pop (payload_inbox rctx))"

definition getter_push :: "PortId \<Rightarrow> SendPayloadMsg \<Rightarrow> RoundCtx \<Rightarrow> RoundCtx" where
  "getter_push getter msg rctx = rctx\<lparr>payload_inbox := payload_inbox rctx @ [(getter, msg)]\<rparr>"

text \<open>Both the missing entry and the missing peer are panics.\<close>

definition putter_push :: "PortId \<Rightarrow> SendPayloadMsg \<Rightarrow> RoundCtx \<Rightarrow> RoundCtx option" where
  "putter_push putter msg rctx = do {
     info \<leftarrow> hm_get (port_map (rc_ports rctx)) putter;
     getter \<leftarrow> peer info;
     Some (getter_push getter msg rctx)
   }"

definition rc_submit :: "SubtreeId \<Rightarrow> Predicate \<Rightarrow> RoundCtx \<Rightarrow> RoundCtx option" where
  "rc_submit sid p rctx = do {
     s \<leftarrow> submit_and_digest_subtree_solution (solution_storage rctx) sid p;
     Some (rctx\<lparr>solution_storage := s\<rparr>)
   }"

lemma getter_pop_push: "getter_pop (getter_push g m rctx) = Some ((g, m), rctx)"
  by (simp add: getter_pop_def getter_push_def vec_pop_def)

text \<open>The solutions submitted so far for one child, and what a submission changes.\<close>

definition child_solutions :: "SolutionStorage \<Rightarrow> SubtreeId \<Rightarrow> Predicate set" where
  "child_solutions s sid = (case hm_get (subtree_id_to_index s) sid of
     Some i \<Rightarrow> if i < length (subtree_solutions s) then set (subtree_solutions s ! i) else {}
   | None \<Rightarrow> {})"

lemma submit_effect:
  assumes "submit_and_digest_subtree_solution s sid p = Some s'"
  shows "subtree_id_to_index s' = subtree_id_to_index s"
    and "length (subtree_solutions s') = length (subtree_solutions s)"
    and "old_local s' = old_local s"
    and "\<exists>i. hm_get (subtree_id_to_index s) sid = Some i \<and> i < length (subtree_solutions s) \<and>
      subtree_solutions s' = (subtree_solutions s)[i := hs_insert p (subtree_solutions s ! i)]"
proof -
  from assms obtain i where i: "hm_get (subtree_id_to_index s) sid = Some i" "i < length (subtree_solutions s)"
    by (auto simp: submit_and_digest_subtree_solution_def bind_eq_Some_conv)
  let ?sols = "(subtree_solutions s)[i := hs_insert p (subtree_solutions s ! i)]"
  have s': "s' = (if p \<in> set (subtree_solutions s ! i) then s\<lparr>subtree_solutions := ?sols\<rparr>
      else s\<lparr>subtree_solutions := ?sols, new_local := elaborate_into_new_local_rec p
        (take i ?sols @ drop (Suc i) ?sols) (old_local s) (new_local s)\<rparr>)"
    using assms i unfolding submit_and_digest_subtree_solution_def
    by (cases "p \<in> set (subtree_solutions s ! i)") (simp_all add: Let_def oassert_def)
  show "subtree_id_to_index s' = subtree_id_to_index s"
    "length (subtree_solutions s') = length (subtree_solutions s)" "old_local s' = old_local s"
    by (simp_all add: s')
  show "\<exists>i. hm_get (subtree_id_to_index s) sid = Some i \<and> i < length (subtree_solutions s) \<and>
      subtree_solutions s' = (subtree_solutions s)[i := hs_insert p (subtree_solutions s ! i)]"
    using i by (simp add: s')
qed

lemma submit_child_solutions:
  assumes s': "submit_and_digest_subtree_solution s sid p = Some s'"
    and inj: "inj_on (map_of (subtree_id_to_index s)) (dom (map_of (subtree_id_to_index s)))"
  shows "child_solutions s' sid' =
    (if sid' = sid then insert p (child_solutions s sid) else child_solutions s sid')"
proof -
  obtain i where i: "hm_get (subtree_id_to_index s) sid = Some i" "i < length (subtree_solutions s)"
    "subtree_solutions s' = (subtree_solutions s)[i := hs_insert p (subtree_solutions s ! i)]"
    using submit_effect(4) [OF s'] by blast
  show ?thesis
  proof (cases "sid' = sid")
    case True
    with i show ?thesis by (simp add: child_solutions_def submit_effect(1) [OF s'])
  next
    case False
    have "j \<noteq> i" if "hm_get (subtree_id_to_index s) sid' = Some j" for j
      using inj_onD [OF inj, of sid' sid] that i(1) False by (auto simp: dom_def)
    then show ?thesis
      using i False by (auto simp: child_solutions_def submit_effect(1) [OF s'] split: option.splits)
  qed
qed

text \<open>The invariant of the storage together with the injectivity of its index.\<close>

definition rc_storage_ok :: "SolutionStorage \<Rightarrow> bool" where
  "rc_storage_ok s \<longleftrightarrow> storage_inv s \<and>
     inj_on (map_of (subtree_id_to_index s)) (dom (map_of (subtree_id_to_index s)))"

lemma rc_storage_ok_submit:
  assumes "rc_storage_ok s" "pred_wf p" "submit_and_digest_subtree_solution s sid p = Some s'"
  shows "rc_storage_ok s'"
  using assms submit_effect(1) [OF assms(3)] by (auto simp: rc_storage_ok_def submit_storage_inv)

lemma rc_storage_ok_iter:
  assumes "rc_storage_ok s" "iter_new_local_make_old s = Some (ls, s')"
  shows "rc_storage_ok s'" "child_solutions s' sid = child_solutions s sid"
proof -
  have "storage_inv s" using assms(1) by (simp add: rc_storage_ok_def)
  from iter_new_local_spec [OF this] assms(2)
  have s': "storage_inv s'" "subtree_id_to_index s' = subtree_id_to_index s"
    "subtree_solutions s' = subtree_solutions s"
    by auto
  with assms(1) show "rc_storage_ok s'" "child_solutions s' sid = child_solutions s sid"
    by (auto simp: rc_storage_ok_def child_solutions_def split: option.splits)
qed

text \<open>The index of a new storage is injective: each identifier gets its own position.\<close>

lemma inj_new_loop:
  assumes "SolutionStorage_new_loop ids idx sols = (idx', sols')"
    and "inj_on (map_of idx) (dom (map_of idx))" "\<forall>i \<in> ran (map_of idx). i < length sols"
  shows "inj_on (map_of idx') (dom (map_of idx')) \<and> dom (map_of idx') = dom (map_of idx) \<union> set ids"
  using assms
proof (induction ids idx sols rule: SolutionStorage_new_loop.induct)
  case (1 idx sols)
  then show ?case by simp
next
  case (2 sid ids idx sols)
  let ?idx = "hm_insert sid (length sols) idx"
  have new: "map_of idx a \<noteq> Some (length sols)" for a
    using "2.prems"(3) by (auto simp: ran_def)
  have "inj_on (map_of ?idx) (dom (map_of ?idx))"
    using "2.prems"(2) new by (auto simp: inj_on_def update_conv')
  moreover have "\<forall>i \<in> ran (map_of ?idx). i < length (sols @ [[]])"
    using "2.prems"(3) by (auto simp: ran_def update_conv' less_Suc_eq)
  ultimately have "inj_on (map_of idx') (dom (map_of idx')) \<and> dom (map_of idx') = dom (map_of ?idx) \<union> set ids"
    using "2.prems"(1) by (intro "2.IH") simp_all
  moreover have "dom (map_of ?idx) \<union> set ids = dom (map_of idx) \<union> set (sid # ids)"
    by (auto simp: update_conv')
  ultimately show ?case by metis
qed

lemma rc_storage_ok_new: "ids \<noteq> [] \<Longrightarrow> rc_storage_ok (SolutionStorage_new ids)"
proof -
  assume "ids \<noteq> []"
  obtain idx sols where loop: "SolutionStorage_new_loop ids [] [] = (idx, sols)"
    by (cases "SolutionStorage_new_loop ids [] []")
  from inj_new_loop [OF loop] storage_inv_new [OF \<open>ids \<noteq> []\<close>] show ?thesis
    by (auto simp: rc_storage_ok_def SolutionStorage_new_def loop)
qed

lemma known_id_new:
  "sid \<in> set ids \<longleftrightarrow> hm_get (subtree_id_to_index (SolutionStorage_new ids)) sid \<noteq> None"
proof -
  obtain idx sols where loop: "SolutionStorage_new_loop ids [] [] = (idx, sols)"
    by (cases "SolutionStorage_new_loop ids [] []")
  from inj_new_loop [OF loop] have "dom (map_of idx) = set ids" by simp
  then show ?thesis
    by (auto simp: SolutionStorage_new_def loop domIff)
qed

lemma local_solution_covers_child:
  assumes "rc_storage_ok s" "p \<in> set (old_local s) \<union> set (new_local s)"
    and "hm_get (subtree_id_to_index s) sid \<noteq> None"
  shows "\<exists>q \<in> child_solutions s sid. assigns_subset q p"
proof -
  from assms(3) obtain i where i: "hm_get (subtree_id_to_index s) sid = Some i" by blast
  have inv: "storage_inv s" using assms(1) by (simp add: rc_storage_ok_def)
  then have "i < length (subtree_solutions s)" "local_solution (subtree_solutions s) p"
    "sols_wf (subtree_solutions s)"
    using i assms(2) by (auto simp: storage_inv_def ran_def)
  with local_solution_extends [of "subtree_solutions s" p i] i show ?thesis
    by (simp add: child_solutions_def)
qed

text \<open>A round of a native with one input port, for the witnesses of later theories.\<close>

abbreviation sample_getter :: PortId where "sample_getter \<equiv> PortId (MkId 7 1)"

definition sample_rctx :: RoundCtx where
  "sample_rctx = \<lparr>solution_storage = SolutionStorage_new [SubLocalComponent sample_cid],
     spec_var_stream = new_spec_var_stream (id_manager sample_ips), payload_inbox = [], deadline = None,
     rips = sample_ips\<lparr>port_info := insert_port sample_getter
       \<lparr>owner = sample_cid, peer = None, polarity = Getter, route = NetEndpoint 0\<rparr> PortInfoMap_default\<rparr>\<rparr>"

end
