(* ===== verification/Errors.thy ===== *)
theory Errors
  imports Common_Ids
begin

text \<open>
  The error values of the runtime (\<open>src/runtime/error.rs\<close>), one constructor per variant.
  Variants with the same name in different enumerations carry a prefix.
\<close>

datatype SocketAddr = SocketAddr (ip_bytes: "u8 list") (ip_port: u16)

datatype NetEndpointError = Nee_MalformedMessage | Nee_BrokenNetEndpoint

datatype ConnectError =
    BindFailed SocketAddr
  | UdpConnectFailed SocketAddr
  | TcpInvalidConnect SocketAddr
  | PollInitFailed
  | Timeout
  | PollFailed
  | AcceptFailed SocketAddr
  | AlreadyConnected
  | PortPeerPolarityMismatch PortId
  | NetEndpointSetupError SocketAddr NetEndpointError
  | SetupAlgMisbehavior

datatype AddComponentError =
    DuplicatePort PortId
  | NoSuchModule
  | NoSuchComponent
  | NonPortTypeParameters
  | CannotMovePort PortId
  | WrongNumberOfParamaters nat
  | UnknownPort PortId
  | WrongPortPolarity PortId Polarity
  | DuplicateMovedPort PortId

datatype MalformedStateError = PortCannotPut PortId | GetterUnknownFor PortId

datatype UnrecoverableSyncError =
    Use_PollFailed
  | BrokenNetEndpoint nat
  | BrokenUdpEndpoint nat
  | Use_MalformedStateError MalformedStateError

datatype SyncError =
    Se_NotConnected
  | InconsistentProtoComponent ComponentId
  | RoundFailure
  | Unrecoverable UnrecoverableSyncError

datatype PortOpError = WrongPolarity | UnknownPolarity | NotConnected | MultipleOpsOnPort | PortUnavailable

datatype GottenError = NoPreviousRound | PortDidntGet | PreviousSyncFailed

datatype WrongStateError = WrongStateError

end
