(* ===== verification/Proto_Branches.thy ===== *)
theory Proto_Branches
  imports Round_Ctx Errors
begin

text \<open>
  A protocol component during a synchronous round (\<open>BranchingProtoComponent\<close>,
  \<open>ProtoComponentBranch\<close> and \<open>SyncProtoContext\<close> of
  \<open>src/runtime/communication.rs\<close>). Running the component's code to its next blocker is
  the argument \<open>run\<close> of the definitions (\<open>None\<close> stands for a panic); what it may do
  to the branch is what the callbacks of \<open>SyncProtoContext\<close> allow (\<open>run_ok\<close>). The
  cyclic drain of branches is a loop with fuel; \<open>drain_terminates\<close> shows that twice the
  number of ports, plus one, rounds are always enough.
\<close>

section \<open>Branches and callbacks\<close>

record ProtoComponentBranchInner =
  inbox :: "(PortId, Payload) hash_map"
  did_put_or_get :: "PortId hash_set"

record 's ProtoComponentBranch =
  pb_state :: 's
  pb_inner :: ProtoComponentBranchInner
  ended :: bool

datatype SyncBlocker =
  Inconsistent | SyncBlockEnd | CouldntReadMsg PortId | CouldntCheckFiring PortId | PutMsg PortId Payload

record SyncProtoContext =
  spc_rctx :: RoundCtx
  spc_predicate :: Predicate
  spc_branch_inner :: ProtoComponentBranchInner

definition ProtoComponentBranchInner_default :: ProtoComponentBranchInner where
  "ProtoComponentBranchInner_default = \<lparr>inbox = [], did_put_or_get = []\<rparr>"

text \<open>The three callbacks; the outer \<open>None\<close> of the first is the panic of \<open>spec_var_for\<close>.\<close>

definition sync_is_firing :: "SyncProtoContext \<Rightarrow> PortId \<Rightarrow> bool option option" where
  "sync_is_firing ctx port = do {
     var \<leftarrow> spec_var_for (rc_ports (spc_rctx ctx)) port;
     Some (map_option is_firing (query (spc_predicate ctx) var))
   }"

definition sync_did_put_or_get :: "SyncProtoContext \<Rightarrow> PortId \<Rightarrow> bool" where
  "sync_did_put_or_get ctx port \<longleftrightarrow> port \<in> set (did_put_or_get (spc_branch_inner ctx))"

definition sync_read_msg :: "SyncProtoContext \<Rightarrow> PortId \<Rightarrow> Payload option \<times> SyncProtoContext" where
  "sync_read_msg ctx port =
     (let inner = spc_branch_inner ctx; maybe_msg = hm_get (inbox inner) port in
      (maybe_msg,
       if maybe_msg \<noteq> None
       then ctx\<lparr>spc_branch_inner := inner\<lparr>did_put_or_get := hs_insert port (did_put_or_get inner)\<rparr>\<rparr>
       else ctx))"

type_synonym 's runner = "'s \<Rightarrow> SyncProtoContext \<Rightarrow> (SyncBlocker \<times> 's \<times> SyncProtoContext) option"
type_synonym 's branches = "(Predicate, 's ProtoComponentBranch) hash_map"

section \<open>Draining branches to their blockers\<close>

definition initial :: "'s \<Rightarrow> 's branches" where
  "initial state =
     [(Predicate_default, \<lparr>pb_state = state, pb_inner = ProtoComponentBranchInner_default, ended = False\<rparr>)]"

fun merge_inbox :: "(PortId \<times> Payload) list \<Rightarrow> 's ProtoComponentBranch \<Rightarrow> 's ProtoComponentBranch" where
  "merge_inbox [] old = old"
| "merge_inbox ((k, v) # it) old =
     merge_inbox it (old\<lparr>pb_inner := (pb_inner old)\<lparr>inbox := hm_insert k v (inbox (pb_inner old))\<rparr>\<rparr>)"

definition proto_insert_branch_merging ::
  "'s branches \<Rightarrow> Predicate \<Rightarrow> 's ProtoComponentBranch \<Rightarrow> 's branches" where
  "proto_insert_branch_merging branches predicate branch =
     (case hm_get branches predicate of
        None \<Rightarrow> hm_insert predicate branch branches
      | Some old \<Rightarrow> hm_insert predicate (merge_inbox (inbox (pb_inner branch)) old) branches)"

text \<open>
  The loop over the owned ports when a branch reaches the end of its synchronous block:
  \<open>entry(var).or_insert(SILENT)\<close>, then the comparison with what was exchanged. The outer
  option is a panic, the inner one an implicit inconsistency.
\<close>

fun assign_silent :: "PortId list \<Rightarrow> PortInfoMap \<Rightarrow> PortId hash_set \<Rightarrow> Predicate \<Rightarrow> Predicate option option" where
  "assign_silent [] m exchanged predicate = Some (Some predicate)"
| "assign_silent (port # ports) m exchanged predicate = do {
     var \<leftarrow> spec_var_for m port;
     let actually_exchanged = (port \<in> set exchanged);
     let val = (case query predicate var of Some v \<Rightarrow> v | None \<Rightarrow> SILENT);
     let predicate' = (case query predicate var of Some v \<Rightarrow> predicate | None \<Rightarrow> inserted predicate var SILENT);
     if actually_exchanged \<noteq> (val = FIRING) then Some None
     else assign_silent ports m exchanged predicate'
   }"

text \<open>One iteration of \<open>'branch_iter\<close>: the two maps are \<open>cd.swap\<close> and \<open>cd.output\<close>.\<close>

definition run_branch ::
  "'s runner \<Rightarrow> ComponentId \<Rightarrow> Predicate \<Rightarrow> 's ProtoComponentBranch \<Rightarrow> 's branches \<Rightarrow> 's branches \<Rightarrow> RoundCtx \<Rightarrow>
   ('s branches \<times> 's branches \<times> RoundCtx) option" where
  "run_branch run cid predicate branch swap output rctx = do {
     (blocker, state', ctx) \<leftarrow> run (pb_state branch)
       \<lparr>spc_rctx = rctx, spc_predicate = predicate, spc_branch_inner = pb_inner branch\<rparr>;
     let branch = branch\<lparr>pb_state := state', pb_inner := spc_branch_inner ctx\<rparr>;
     case blocker of
       Inconsistent \<Rightarrow> Some (swap, output, rctx)
     | CouldntReadMsg port \<Rightarrow> do {
         oassert (hm_get (inbox (pb_inner branch)) port = None);
         Some (swap, proto_insert_branch_merging output predicate branch, rctx)
       }
     | CouldntCheckFiring port \<Rightarrow> do {
         var \<leftarrow> spec_var_for (rc_ports rctx) port;
         oassert (query predicate var = None);
         Some (proto_insert_branch_merging
                 (proto_insert_branch_merging swap (inserted predicate var SILENT) branch)
                 (inserted predicate var FIRING) branch, output, rctx)
       }
     | PutMsg putter payload \<Rightarrow> do {
         info \<leftarrow> hm_get (port_map (rc_ports rctx)) putter;
         oassert (polarity info = Putter);
         var \<leftarrow> spec_var_for (rc_ports rctx) putter;
         let was = query predicate var;
         let predicate = inserted predicate var FIRING;
         if was = Some SILENT then Some (swap, output, rctx)
         else do {
           oassert (putter \<notin> set (did_put_or_get (pb_inner branch)));
           let branch = branch\<lparr>pb_inner := (pb_inner branch)\<lparr>did_put_or_get :=
             hs_insert putter (did_put_or_get (pb_inner branch))\<rparr>\<rparr>;
           rctx' \<leftarrow> putter_push putter \<lparr>spm_predicate = predicate, spm_payload = payload\<rparr> rctx;
           Some (proto_insert_branch_merging swap predicate branch, output, rctx')
         }
       }
     | SyncBlockEnd \<Rightarrow> do {
         consistent \<leftarrow> assign_silent (ports_owned_by (rc_ports rctx) cid) (rc_ports rctx)
           (did_put_or_get (pb_inner branch)) predicate;
         case consistent of
           None \<Rightarrow> Some (swap, output, rctx)
         | Some predicate \<Rightarrow> do {
             rctx' \<leftarrow> rc_submit (SubLocalComponent cid) predicate rctx;
             Some (swap, proto_insert_branch_merging output predicate (branch\<lparr>ended := True\<rparr>), rctx')
           }
       }
   }"

fun drain_generation ::
  "'s runner \<Rightarrow> ComponentId \<Rightarrow> (Predicate \<times> 's ProtoComponentBranch) list \<Rightarrow> 's branches \<Rightarrow> 's branches \<Rightarrow>
   RoundCtx \<Rightarrow> ('s branches \<times> 's branches \<times> RoundCtx) option" where
  "drain_generation run cid [] swap output rctx = Some (swap, output, rctx)"
| "drain_generation run cid ((predicate, branch) # input) swap output rctx = do {
     (swap', output', rctx') \<leftarrow> run_branch run cid predicate branch swap output rctx;
     drain_generation run cid input swap' output' rctx'
   }"

text \<open>
  The \<open>while\<close> loop. \<open>OutOfFuel\<close> says that the fuel was not enough, \<open>Panic\<close> that an
  assertion or a lookup failed.
\<close>

fun drain_branches_to_blocked ::
  "nat \<Rightarrow> 's runner \<Rightarrow> ComponentId \<Rightarrow> 's branches \<Rightarrow> 's branches \<Rightarrow> RoundCtx \<Rightarrow>
   ('s branches \<times> RoundCtx, UnrecoverableSyncError) res" where
  "drain_branches_to_blocked fuel run cid [] output rctx = Ok (output, rctx)"
| "drain_branches_to_blocked 0 run cid (b # input) output rctx = OutOfFuel"
| "drain_branches_to_blocked (Suc fuel) run cid (b # input) output rctx =
     bind_res (unwrap (drain_generation run cid (b # input) [] output rctx))
       (\<lambda>(swap, output', rctx'). drain_branches_to_blocked fuel run cid swap output' rctx')"

section \<open>Feeding a message\<close>

definition proto_branch_feed_msg :: "PortId \<Rightarrow> Payload \<Rightarrow> 's ProtoComponentBranch \<Rightarrow> 's ProtoComponentBranch option" where
  "proto_branch_feed_msg getter payload branch =
     (case hm_get (inbox (pb_inner branch)) getter of
        None \<Rightarrow> Some (branch\<lparr>pb_inner := (pb_inner branch)\<lparr>inbox := hm_insert getter payload (inbox (pb_inner branch))\<rparr>\<rparr>)
      | Some old \<Rightarrow> do { oassert (old = payload); Some branch })"

text \<open>The partition of the branches into blocked and unblocked ones, in this order.\<close>

fun proto_feed_partition ::
  "PortId \<Rightarrow> SendPayloadMsg \<Rightarrow> (Predicate \<times> 's ProtoComponentBranch) list \<Rightarrow> 's branches \<Rightarrow> 's branches \<Rightarrow>
   ('s branches \<times> 's branches) option" where
  "proto_feed_partition getter msg [] blocked unblocked = Some (blocked, unblocked)"
| "proto_feed_partition getter msg ((predicate, branch) # it) blocked unblocked =
     (if ended branch then
        proto_feed_partition getter msg it (proto_insert_branch_merging blocked predicate branch) unblocked
      else case assignment_union predicate (spm_predicate msg) of
        Nonexistant \<Rightarrow>
          proto_feed_partition getter msg it (proto_insert_branch_merging blocked predicate branch) unblocked
      | Equivalent \<Rightarrow> do {
          branch' \<leftarrow> proto_branch_feed_msg getter (spm_payload msg) branch;
          proto_feed_partition getter msg it blocked (proto_insert_branch_merging unblocked predicate branch')
        }
      | FormerNotLatter \<Rightarrow> do {
          branch' \<leftarrow> proto_branch_feed_msg getter (spm_payload msg) branch;
          proto_feed_partition getter msg it blocked (proto_insert_branch_merging unblocked predicate branch')
        }
      | LatterNotFormer \<Rightarrow> do {
          let predicate2 = spm_predicate msg;
          branch2 \<leftarrow> proto_branch_feed_msg getter (spm_payload msg) branch;
          proto_feed_partition getter msg it (proto_insert_branch_merging blocked predicate branch)
            (proto_insert_branch_merging unblocked predicate2 branch2)
        }
      | New predicate2 \<Rightarrow> do {
          branch2 \<leftarrow> proto_branch_feed_msg getter (spm_payload msg) branch;
          proto_feed_partition getter msg it (proto_insert_branch_merging blocked predicate branch)
            (proto_insert_branch_merging unblocked predicate2 branch2)
        })"

definition proto_feed_msg ::
  "nat \<Rightarrow> 's runner \<Rightarrow> ComponentId \<Rightarrow> PortId \<Rightarrow> SendPayloadMsg \<Rightarrow> 's branches \<Rightarrow> RoundCtx \<Rightarrow>
   ('s branches \<times> RoundCtx, UnrecoverableSyncError) res" where
  "proto_feed_msg fuel run cid getter msg branches rctx =
     bind_res (unwrap (proto_feed_partition getter msg branches [] []))
       (\<lambda>(blocked, unblocked). drain_branches_to_blocked fuel run cid unblocked blocked rctx)"

text \<open>\<open>None\<close> is the panic "ProtoComponent had no branches matching pred".\<close>

fun proto_collapse_with :: "(Predicate \<times> 's ProtoComponentBranch) list \<Rightarrow> Predicate \<Rightarrow> 's option" where
  "proto_collapse_with [] solution_predicate = None"
| "proto_collapse_with ((branch_predicate, branch) # branches) solution_predicate =
     (if ended branch \<and> assigns_subset branch_predicate solution_predicate
      then Some (pb_state branch)
      else proto_collapse_with branches solution_predicate)"

section \<open>The drain loop ends\<close>

text \<open>
  What running a component may do to its branch: the callbacks only ever add ports to
  \<open>did_put_or_get\<close>, and never change the inbox.
\<close>

definition run_ok :: "'s runner \<Rightarrow> bool" where
  "run_ok run \<longleftrightarrow> (\<forall>s ctx blocker s' ctx'. run s ctx = Some (blocker, s', ctx') \<longrightarrow>
     set (did_put_or_get (spc_branch_inner ctx)) \<subseteq> set (did_put_or_get (spc_branch_inner ctx')) \<and>
     inbox (spc_branch_inner ctx') = inbox (spc_branch_inner ctx))"

lemma sync_read_msg_grows:
  "set (did_put_or_get (spc_branch_inner ctx)) \<subseteq> set (did_put_or_get (spc_branch_inner (snd (sync_read_msg ctx port))))"
  "inbox (spc_branch_inner (snd (sync_read_msg ctx port))) = inbox (spc_branch_inner ctx)"
  by (auto simp: sync_read_msg_def Let_def)

text \<open>
  The rank of a branch counts the channels it has decided and the ports it has used. It
  never exceeds twice the number of ports, and it grows with every rescheduling.
\<close>

definition chan_vars :: "PortInfoMap \<Rightarrow> SpecVar set" where
  "chan_vars m = {v. \<exists>port. spec_var_for m port = Some v}"

definition rank :: "PortInfoMap \<Rightarrow> Predicate \<Rightarrow> 's ProtoComponentBranch \<Rightarrow> nat" where
  "rank m p b = card (dom (pmap p) \<inter> chan_vars m) +
     card (set (did_put_or_get (pb_inner b)) \<inter> dom (info_of m))"

lemma chan_vars_image: "chan_vars m \<subseteq> (\<lambda>port. the (spec_var_for m port)) ` dom (info_of m)"
proof
  fix v
  assume "v \<in> chan_vars m"
  then obtain port where port: "spec_var_for m port = Some v" by (auto simp: chan_vars_def)
  then have "port \<in> dom (info_of m)" by (auto simp: spec_var_for_def bind_eq_Some_conv)
  with port show "v \<in> (\<lambda>port. the (spec_var_for m port)) ` dom (info_of m)" by force
qed

lemma finite_chan_vars: "finite (chan_vars m)"
  using chan_vars_image finite_dom_map_of finite_imageI finite_subset by metis

lemma rank_le: "rank m p b \<le> 2 * length (port_map m)"
proof -
  have ports: "card (dom (info_of m)) \<le> length (port_map m)"
    by (metis card_length dom_map_of_conv_image_fst length_map set_map)
  have "card (chan_vars m) \<le> card (dom (info_of m))"
    using card_mono [OF finite_imageI [OF finite_dom_map_of] chan_vars_image] card_image_le [OF finite_dom_map_of]
      le_trans by blast
  moreover have "card (dom (pmap p) \<inter> chan_vars m) \<le> card (chan_vars m)"
    by (intro card_mono finite_chan_vars) auto
  moreover have "card (set (did_put_or_get (pb_inner b)) \<inter> dom (info_of m)) \<le> card (dom (info_of m))"
    by (intro card_mono finite_dom_map_of) auto
  ultimately show ?thesis using ports unfolding rank_def by linarith
qed

lemma rank_mono:
  assumes "set (did_put_or_get (pb_inner b)) \<subseteq> set (did_put_or_get (pb_inner c))" "dom (pmap p) \<subseteq> dom (pmap q)"
  shows "rank m p b \<le> rank m q c"
  unfolding rank_def using assms finite_chan_vars
  by (intro add_mono card_mono) (auto intro: finite_dom_map_of)

lemma rank_decide:
  assumes var: "var \<in> chan_vars m" "pmap p var = None"
    and grows: "set (did_put_or_get (pb_inner b)) \<subseteq> set (did_put_or_get (pb_inner c))"
  shows "rank m p b < rank m (inserted p var val) c"
proof -
  have "dom (pmap (inserted p var val)) \<inter> chan_vars m = insert var (dom (pmap p) \<inter> chan_vars m)"
    using var by auto
  moreover have "card (insert var (dom (pmap p) \<inter> chan_vars m)) = Suc (card (dom (pmap p) \<inter> chan_vars m))"
    using var(2) finite_chan_vars by (intro card_insert_disjoint) (auto simp: domIff)
  moreover have "card (set (did_put_or_get (pb_inner b)) \<inter> dom (info_of m)) \<le>
      card (set (did_put_or_get (pb_inner c)) \<inter> dom (info_of m))"
    using grows by (intro card_mono) (auto intro: finite_dom_map_of)
  ultimately show ?thesis unfolding rank_def by (simp del: pmap_inserted)
qed

lemma rank_put:
  assumes new: "putter \<in> dom (info_of m)" "putter \<notin> set (did_put_or_get (pb_inner b))"
    and did: "set (did_put_or_get (pb_inner c)) = insert putter (set (did_put_or_get (pb_inner b)))"
    and "dom (pmap p) \<subseteq> dom (pmap q)"
  shows "rank m p b < rank m q c"
proof -
  have "set (did_put_or_get (pb_inner c)) \<inter> dom (info_of m) =
      insert putter (set (did_put_or_get (pb_inner b)) \<inter> dom (info_of m))"
    using new(1) did by auto
  then have "card (set (did_put_or_get (pb_inner c)) \<inter> dom (info_of m)) =
      Suc (card (set (did_put_or_get (pb_inner b)) \<inter> dom (info_of m)))"
    using new(2) by simp
  moreover have "card (dom (pmap p) \<inter> chan_vars m) \<le> card (dom (pmap q) \<inter> chan_vars m)"
    using assms(4) finite_chan_vars by (intro card_mono) auto
  ultimately show ?thesis unfolding rank_def by linarith
qed

text \<open>Merging keeps the existing branch except for its inbox.\<close>

lemma merge_inbox_fields [simp]:
  "did_put_or_get (pb_inner (merge_inbox it old)) = did_put_or_get (pb_inner old)"
  "pb_state (merge_inbox it old) = pb_state old" "ended (merge_inbox it old) = ended old"
  by (induction it old rule: merge_inbox.induct) simp_all

lemma set_update_subset: "set (AList.update k v m) \<subseteq> insert (k, v) (set m)"
  by (induction m) auto

lemma proto_insert_cases:
  assumes "(q, c) \<in> set (proto_insert_branch_merging bs p b)"
  shows "(q, c) \<in> set bs \<or> q = p \<and> (c = b \<or> (\<exists>old. (p, old) \<in> set bs \<and> c = merge_inbox (inbox (pb_inner b)) old))"
proof (cases "hm_get bs p")
  case None
  with assms show ?thesis
    using set_update_subset [of p b bs] by (auto simp: proto_insert_branch_merging_def)
next
  case (Some old)
  with assms show ?thesis
    using set_update_subset [of p "merge_inbox (inbox (pb_inner b)) old" bs] map_of_SomeD [OF Some]
    by (auto simp: proto_insert_branch_merging_def)
qed

definition ranked :: "PortInfoMap \<Rightarrow> nat \<Rightarrow> 's branches \<Rightarrow> bool" where
  "ranked m k bs \<longleftrightarrow> (\<forall>(p, b) \<in> set bs. k \<le> rank m p b)"

lemma rank_merge_inbox [simp]: "rank m p (merge_inbox it old) = rank m p old"
  by (simp add: rank_def)

lemma ranked_insert:
  "ranked m k bs \<Longrightarrow> k \<le> rank m p b \<Longrightarrow> ranked m k (proto_insert_branch_merging bs p b)"
  unfolding ranked_def by (auto dest!: proto_insert_cases)

text \<open>
  The cases of one iteration: the branch is dropped, or it leaves the cycle, or it is
  rescheduled once or twice under a higher rank.
\<close>

lemma run_branch_cases:
  assumes step: "run_branch run cid p b swap outp rctx = Some (swap', outp', rctx')"
    and ok: "run_ok run"
  obtains (drop) "swap' = swap" "outp' = outp" "rctx' = rctx"
    | (blocked) c where "swap' = swap" "outp' = proto_insert_branch_merging outp p c" "rctx' = rctx"
        "ended c = ended b"
    | (fork) c var where "swap' = proto_insert_branch_merging
            (proto_insert_branch_merging swap (inserted p var SILENT) c) (inserted p var FIRING) c"
        "outp' = outp" "rctx' = rctx" "rank (rc_ports rctx) p b < rank (rc_ports rctx) (inserted p var SILENT) c"
        "rank (rc_ports rctx) p b < rank (rc_ports rctx) (inserted p var FIRING) c" "ended c = ended b"
    | (put) c var putter msg where "swap' = proto_insert_branch_merging swap (inserted p var FIRING) c"
        "outp' = outp" "putter_push putter msg rctx = Some rctx'"
        "spm_predicate msg = inserted p var FIRING"
        "rank (rc_ports rctx) p b < rank (rc_ports rctx) (inserted p var FIRING) c" "ended c = ended b"
    | (finish) c q where "swap' = swap" "outp' = proto_insert_branch_merging outp q c" "ended c"
        "rc_submit (SubLocalComponent cid) q rctx = Some rctx'"
        "assign_silent (ports_owned_by (rc_ports rctx) cid) (rc_ports rctx) (did_put_or_get (pb_inner c)) p = Some (Some q)"
proof -
  obtain blocker s' ctx where
    run: "run (pb_state b) \<lparr>spc_rctx = rctx, spc_predicate = p, spc_branch_inner = pb_inner b\<rparr> = Some (blocker, s', ctx)"
    using step by (cases "run (pb_state b) \<lparr>spc_rctx = rctx, spc_predicate = p, spc_branch_inner = pb_inner b\<rparr>")
      (auto simp: run_branch_def)
  define c where "c = b\<lparr>pb_state := s', pb_inner := spc_branch_inner ctx\<rparr>"
  have grows: "set (did_put_or_get (pb_inner b)) \<subseteq> set (did_put_or_get (pb_inner c))"
    using ok run unfolding run_ok_def c_def by fastforce
  have c: "ended c = ended b" by (simp add: c_def)
  note step' = step [unfolded run_branch_def run bind.bind_lunit Let_def prod.case, folded c_def]
  show ?thesis
  proof (cases blocker)
    case Inconsistent
    with step' drop show ?thesis by simp
  next
    case SyncBlockEnd
    with step' obtain r where
      r: "assign_silent (ports_owned_by (rc_ports rctx) cid) (rc_ports rctx) (did_put_or_get (pb_inner c)) p = Some r"
      by (auto simp: bind_eq_Some_conv)
    show ?thesis
    proof (cases r)
      case None
      with step' SyncBlockEnd r drop show ?thesis by simp
    next
      case (Some q)
      with step' SyncBlockEnd r finish [of q "c\<lparr>ended := True\<rparr>"] show ?thesis
        by (auto simp: bind_eq_Some_conv)
    qed
  next
    case (CouldntReadMsg port)
    with step' blocked [OF _ _ _ c] show ?thesis by (auto simp: bind_eq_Some_conv)
  next
    case (CouldntCheckFiring port)
    with step' obtain var where var: "spec_var_for (rc_ports rctx) port = Some var" "query p var = None"
      and res: "swap' = proto_insert_branch_merging
            (proto_insert_branch_merging swap (inserted p var SILENT) c) (inserted p var FIRING) c"
        "outp' = outp" "rctx' = rctx"
      by (auto simp: bind_eq_Some_conv)
    have "var \<in> chan_vars (rc_ports rctx)" "pmap p var = None"
      using var by (auto simp: chan_vars_def query_pmap)
    from rank_decide [OF this grows] res c fork show ?thesis by blast
  next
    case (PutMsg putter payload)
    with step' obtain info var where
      info: "hm_get (port_map (rc_ports rctx)) putter = Some info" "spec_var_for (rc_ports rctx) putter = Some var"
      by (auto simp: bind_eq_Some_conv)
    show ?thesis
    proof (cases "query p var = Some SILENT")
      case True
      with step' PutMsg info drop show ?thesis by (auto simp: bind_eq_Some_conv)
    next
      case False
      let ?c = "c\<lparr>pb_inner := (pb_inner c)\<lparr>did_put_or_get := hs_insert putter (did_put_or_get (pb_inner c))\<rparr>\<rparr>"
      let ?msg = "\<lparr>spm_predicate = inserted p var FIRING, spm_payload = payload\<rparr>"
      from False step' PutMsg info have new: "putter \<notin> set (did_put_or_get (pb_inner c))"
        and res: "swap' = proto_insert_branch_merging swap (inserted p var FIRING) ?c" "outp' = outp"
          "putter_push putter ?msg rctx = Some rctx'"
        by (auto simp: bind_eq_Some_conv)
      have "rank (rc_ports rctx) p c < rank (rc_ports rctx) (inserted p var FIRING) ?c"
        using info(1) new by (intro rank_put) auto
      moreover have "rank (rc_ports rctx) p b \<le> rank (rc_ports rctx) p c"
        using grows by (intro rank_mono) auto
      ultimately have "rank (rc_ports rctx) p b < rank (rc_ports rctx) (inserted p var FIRING) ?c" by linarith
      with put [OF res] c show ?thesis by simp
    qed
  qed
qed

lemma submit_rips: "rc_submit sid q rctx = Some rctx' \<Longrightarrow> rips rctx' = rips rctx"
  by (auto simp: rc_submit_def bind_eq_Some_conv)

lemma putter_push_rips: "putter_push putter msg rctx = Some rctx' \<Longrightarrow> rips rctx' = rips rctx"
  by (auto simp: putter_push_def getter_push_def bind_eq_Some_conv)

lemma run_branch_ranked:
  assumes step: "run_branch run cid p b swap outp rctx = Some (swap', outp', rctx')" and ok: "run_ok run"
    and k: "k \<le> rank (rc_ports rctx) p b" "ranked (rc_ports rctx) (Suc k) swap"
  shows "ranked (rc_ports rctx) (Suc k) swap' \<and> rips rctx' = rips rctx"
  using step ok
proof (cases rule: run_branch_cases)
  case (finish c q)
  with k submit_rips show ?thesis by auto
next
  case (fork c var)
  with k show ?thesis by (auto intro!: ranked_insert)
next
  case (put c var putter msg)
  with k show ?thesis by (auto intro!: ranked_insert dest: putter_push_rips)
qed (use k in auto)

lemma drain_generation_ranked:
  assumes "drain_generation run cid input swap outp rctx = Some (swap', outp', rctx')" "run_ok run"
    and "ranked (rc_ports rctx) k input" "ranked (rc_ports rctx) (Suc k) swap"
  shows "ranked (rc_ports rctx) (Suc k) swap' \<and> rips rctx' = rips rctx"
  using assms
proof (induction input arbitrary: swap outp rctx)
  case Nil
  then show ?case by simp
next
  case (Cons pb input)
  obtain p b where pb: "pb = (p, b)" by (cases pb)
  from Cons.prems(1) obtain swap1 output1 rctx1 where
    step: "run_branch run cid p b swap outp rctx = Some (swap1, output1, rctx1)"
    and rest: "drain_generation run cid input swap1 output1 rctx1 = Some (swap', outp', rctx')"
    by (auto simp: pb bind_eq_Some_conv)
  have k: "k \<le> rank (rc_ports rctx) p b" "ranked (rc_ports rctx) k input"
    using Cons.prems(3) by (auto simp: pb ranked_def)
  have one: "ranked (rc_ports rctx) (Suc k) swap1" "rips rctx1 = rips rctx"
    using run_branch_ranked [OF step Cons.prems(2) k(1) Cons.prems(4)] by auto
  with Cons.IH [OF rest Cons.prems(2)] k(2) show ?case by simp
qed

lemma drain_enough_fuel:
  assumes ok: "run_ok run" and k: "ranked (rc_ports rctx) k input"
    and fuel: "2 * length (port_map (rc_ports rctx)) < k + fuel"
  shows "drain_branches_to_blocked fuel run cid input outp rctx \<noteq> OutOfFuel"
  using k fuel
proof (induction fuel arbitrary: k input outp rctx)
  case 0
  have "input = []"
  proof (rule ccontr)
    assume "input \<noteq> []"
    then obtain p b where "(p, b) \<in> set input" by (cases input) auto
    with 0 rank_le [of "rc_ports rctx" p b] show False by (auto simp: ranked_def)
  qed
  then show ?case by simp
next
  case (Suc fuel)
  show ?case
  proof (cases input)
    case Nil
    then show ?thesis by simp
  next
    case (Cons pb rest)
    show ?thesis
    proof (cases "drain_generation run cid input [] outp rctx")
      case None
      with Cons show ?thesis by simp
    next
      case (Some r)
      obtain swap outp' rctx' where r: "r = (swap, outp', rctx')" by (cases r)
      have one: "ranked (rc_ports rctx) (Suc k) swap" "rips rctx' = rips rctx"
        using drain_generation_ranked [OF Some [unfolded r] ok Suc.prems(1)] by (auto simp: ranked_def)
      then have "drain_branches_to_blocked fuel run cid swap outp' rctx' \<noteq> OutOfFuel"
        using Suc.prems(2) by (intro Suc.IH [of _ "Suc k"]) auto
      with Cons Some r show ?thesis by simp
    qed
  qed
qed

section \<open>What a drain keeps\<close>

text \<open>Reaching the end of a synchronous block decides every owned port by what it did.\<close>

lemma assign_silent_spec:
  assumes "assign_silent ports m exchanged p = Some (Some q)" "pred_wf p"
  shows "pred_wf q \<and> pmap p \<subseteq>\<^sub>m pmap q \<and>
    (\<forall>port \<in> set ports. \<exists>var val. spec_var_for m port = Some var \<and> pmap q var = Some val \<and>
       (val = FIRING \<longleftrightarrow> port \<in> set exchanged))"
  using assms
proof (induction ports m exchanged p rule: assign_silent.induct)
  case (1 m exchanged p)
  then show ?case by simp
next
  case (2 port ports m exchanged p)
  from "2.prems"(1) obtain var where var: "spec_var_for m port = Some var" by (auto simp: bind_eq_Some_conv)
  define p' where "p' = (case query p var of Some v \<Rightarrow> p | None \<Rightarrow> inserted p var SILENT)"
  define val where "val = (case query p var of Some v \<Rightarrow> v | None \<Rightarrow> SILENT)"
  have val: "(port \<in> set exchanged) = (val = FIRING)"
    and rest: "assign_silent ports m exchanged p' = Some (Some q)"
    using "2.prems"(1) var by (auto simp: p'_def val_def Let_def split: if_splits)
  have p': "pred_wf p'" "pmap p \<subseteq>\<^sub>m pmap p'" "pmap p' var = Some val"
    using "2.prems"(2) by (auto simp: p'_def val_def query_pmap map_le_def split: option.split)
  have "pred_wf q \<and> pmap p' \<subseteq>\<^sub>m pmap q \<and>
    (\<forall>port \<in> set ports. \<exists>var val. spec_var_for m port = Some var \<and> pmap q var = Some val \<and>
       (val = FIRING \<longleftrightarrow> port \<in> set exchanged))"
    using var val rest p'(1) by (intro "2.IH" [OF var]) (auto simp: p'_def val_def)
  moreover from this p' have "pmap p \<subseteq>\<^sub>m pmap q" "pmap q var = Some val"
    using map_le_trans by (auto simp: map_le_Some_iff)
  ultimately show ?case using var val by auto
qed

definition proto_ended_in :: "'s branches \<Rightarrow> Predicate \<Rightarrow> bool" where
  "proto_ended_in bs p \<longleftrightarrow> (\<exists>b. hm_get bs p = Some b \<and> ended b)"

definition proto_wf :: "'s branches \<Rightarrow> bool" where
  "proto_wf bs \<longleftrightarrow> hm_wf bs \<and> (\<forall>p \<in> set (hm_keys bs). pred_wf p)"

lemma proto_insert_get:
  "hm_get (proto_insert_branch_merging bs p b) q =
    (if q = p then Some (case hm_get bs p of None \<Rightarrow> b | Some old \<Rightarrow> merge_inbox (inbox (pb_inner b)) old)
     else hm_get bs q)"
  by (auto simp: proto_insert_branch_merging_def hm_get_insert split: option.split)

lemma proto_wf_hm_insert: "proto_wf bs \<Longrightarrow> pred_wf p \<Longrightarrow> proto_wf (hm_insert p b bs)"
  unfolding proto_wf_def hm_keys_insert by (auto simp: distinct_update)

lemma proto_insert_wf: "proto_wf bs \<Longrightarrow> pred_wf p \<Longrightarrow> proto_wf (proto_insert_branch_merging bs p b)"
  by (simp add: proto_insert_branch_merging_def proto_wf_hm_insert split: option.split)

lemma proto_insert_ended:
  "proto_ended_in bs q \<Longrightarrow> proto_ended_in (proto_insert_branch_merging bs p b) q"
  "hm_get bs p = None \<Longrightarrow> ended b \<Longrightarrow> proto_ended_in (proto_insert_branch_merging bs p b) p"
  by (auto simp: proto_ended_in_def proto_insert_get)

text \<open>
  How a drain changes the output branches and the round context: it only submits solutions
  of its own component and buffers messages, and every branch of the output stays.
\<close>

definition drain_post :: "ComponentId \<Rightarrow> 's branches \<Rightarrow> RoundCtx \<Rightarrow> 's branches \<Rightarrow> RoundCtx \<Rightarrow> bool" where
  "drain_post cid outp rctx outp' rctx' \<longleftrightarrow>
    rips rctx' = rips rctx \<and> deadline rctx' = deadline rctx \<and> spec_var_stream rctx' = spec_var_stream rctx \<and>
    (\<exists>msgs. payload_inbox rctx' = payload_inbox rctx @ msgs \<and> (\<forall>(g, m) \<in> set msgs. pred_wf (spm_predicate m))) \<and>
    subtree_id_to_index (solution_storage rctx') = subtree_id_to_index (solution_storage rctx) \<and>
    (\<forall>q. proto_ended_in outp q \<longrightarrow> proto_ended_in outp' q) \<and>
    (\<forall>q. hm_get outp q \<noteq> None \<longrightarrow> hm_get outp' q \<noteq> None) \<and>
    child_solutions (solution_storage rctx') (SubLocalComponent cid) \<subseteq>
      child_solutions (solution_storage rctx) (SubLocalComponent cid) \<union> {q. hm_get outp' q \<noteq> None} \<and>
    (\<forall>sid. sid \<noteq> SubLocalComponent cid \<longrightarrow>
       child_solutions (solution_storage rctx') sid = child_solutions (solution_storage rctx) sid)"

lemma drain_post_refl: "drain_post cid outp rctx outp rctx"
  by (simp add: drain_post_def)

lemma drain_post_trans:
  assumes "drain_post cid outp rctx outp1 rctx1" "drain_post cid outp1 rctx1 outp2 rctx2"
  shows "drain_post cid outp rctx outp2 rctx2"
proof -
  obtain ms1 where "payload_inbox rctx1 = payload_inbox rctx @ ms1" "\<forall>(g, m) \<in> set ms1. pred_wf (spm_predicate m)"
    using assms(1) unfolding drain_post_def by blast
  moreover obtain ms2 where "payload_inbox rctx2 = payload_inbox rctx1 @ ms2" "\<forall>(g, m) \<in> set ms2. pred_wf (spm_predicate m)"
    using assms(2) unfolding drain_post_def by blast
  ultimately have "payload_inbox rctx2 = payload_inbox rctx @ (ms1 @ ms2) \<and> (\<forall>(g, m) \<in> set (ms1 @ ms2). pred_wf (spm_predicate m))"
    by auto
  then have "\<exists>msgs. payload_inbox rctx2 = payload_inbox rctx @ msgs \<and> (\<forall>(g, m) \<in> set msgs. pred_wf (spm_predicate m))"
    by blast
  moreover have "child_solutions (solution_storage rctx1) (SubLocalComponent cid) \<subseteq>
      child_solutions (solution_storage rctx) (SubLocalComponent cid) \<union> {q. hm_get outp1 q \<noteq> None}"
    "child_solutions (solution_storage rctx2) (SubLocalComponent cid) \<subseteq>
      child_solutions (solution_storage rctx1) (SubLocalComponent cid) \<union> {q. hm_get outp2 q \<noteq> None}"
    "{q. hm_get outp1 q \<noteq> None} \<subseteq> {q. hm_get outp2 q \<noteq> None}"
    using assms by (simp_all add: drain_post_def Collect_mono_iff)
  then have "child_solutions (solution_storage rctx2) (SubLocalComponent cid) \<subseteq>
      child_solutions (solution_storage rctx) (SubLocalComponent cid) \<union> {q. hm_get outp2 q \<noteq> None}"
    by blast
  ultimately show ?thesis using assms unfolding drain_post_def by simp
qed

lemma run_branch_keeps:
  assumes step: "run_branch run cid p b swap outp rctx = Some (swap', outp', rctx')" and ok: "run_ok run"
    and wf: "pred_wf p" "proto_wf swap" "proto_wf outp" "rc_storage_ok (solution_storage rctx)"
  shows "proto_wf swap' \<and> proto_wf outp' \<and> rc_storage_ok (solution_storage rctx') \<and>
    drain_post cid outp rctx outp' rctx'"
  using step ok
proof (cases rule: run_branch_cases)
  case drop
  with wf show ?thesis by (simp add: drain_post_refl)
next
  case (blocked c)
  with wf show ?thesis by (auto simp: proto_insert_wf drain_post_def proto_insert_ended proto_insert_get)
next
  case (fork c var)
  with wf show ?thesis by (simp add: drain_post_refl proto_insert_wf)
next
  case (put c var putter msg)
  then obtain g where "rctx' = getter_push g msg rctx"
    by (auto simp: putter_push_def bind_eq_Some_conv)
  with put wf show ?thesis by (simp add: drain_post_def proto_insert_wf getter_push_def)
next
  case (finish c q)
  have q: "pred_wf q" using assign_silent_spec [OF finish(5) wf(1)] by blast
  obtain s where s: "submit_and_digest_subtree_solution (solution_storage rctx) (SubLocalComponent cid) q = Some s"
    "rctx' = rctx\<lparr>solution_storage := s\<rparr>"
    using finish(4) by (auto simp: rc_submit_def bind_eq_Some_conv)
  have inj: "inj_on (map_of (subtree_id_to_index (solution_storage rctx)))
      (dom (map_of (subtree_id_to_index (solution_storage rctx))))"
    using wf(4) by (simp add: rc_storage_ok_def)
  have "rc_storage_ok s" by (rule rc_storage_ok_submit [OF wf(4) q s(1)])
  moreover have "drain_post cid outp rctx outp' rctx'"
    unfolding drain_post_def finish(2) s(2)
    by (auto simp: submit_effect(1) [OF s(1)] submit_child_solutions [OF s(1) inj] proto_insert_ended proto_insert_get)
  ultimately show ?thesis
    using wf q finish(1,2) s(2) by (simp add: proto_insert_wf)
qed

lemma drain_generation_keeps:
  assumes "drain_generation run cid input swap outp rctx = Some (swap', outp', rctx')" "run_ok run"
    and "\<forall>(p, b) \<in> set input. pred_wf p" "proto_wf swap" "proto_wf outp" "rc_storage_ok (solution_storage rctx)"
  shows "proto_wf swap' \<and> proto_wf outp' \<and> rc_storage_ok (solution_storage rctx') \<and>
    drain_post cid outp rctx outp' rctx'"
  using assms
proof (induction input arbitrary: swap outp rctx)
  case Nil
  then show ?case by (simp add: drain_post_refl)
next
  case (Cons pb input)
  obtain p b where pb: "pb = (p, b)" by (cases pb)
  from Cons.prems(1) obtain swap1 outp1 rctx1 where
    step: "run_branch run cid p b swap outp rctx = Some (swap1, outp1, rctx1)"
    and rest: "drain_generation run cid input swap1 outp1 rctx1 = Some (swap', outp', rctx')"
    by (auto simp: pb bind_eq_Some_conv)
  have p: "pred_wf p" "\<forall>(p, b) \<in> set input. pred_wf p" using Cons.prems(3) by (auto simp: pb)
  note one = run_branch_keeps [OF step Cons.prems(2) p(1) Cons.prems(4-6)]
  with Cons.IH [OF rest Cons.prems(2) p(2)] show ?case by (meson drain_post_trans)
qed

lemma proto_wf_keys: "proto_wf bs \<Longrightarrow> \<forall>(p, b) \<in> set bs. pred_wf p"
  by (force simp: proto_wf_def)

lemma drain_keeps:
  assumes "drain_branches_to_blocked fuel run cid input outp rctx = Ok (outp', rctx')" "run_ok run"
    and "proto_wf input" "proto_wf outp" "rc_storage_ok (solution_storage rctx)"
  shows "proto_wf outp' \<and> rc_storage_ok (solution_storage rctx') \<and> drain_post cid outp rctx outp' rctx'"
  using assms
proof (induction fuel run cid input outp rctx rule: drain_branches_to_blocked.induct)
  case (1 fuel run cid outp rctx)
  then show ?case by (simp add: drain_post_refl)
next
  case (2 run cid b input outp rctx)
  then show ?case by simp
next
  case (3 fuel run cid b input outp rctx)
  from "3.prems"(1) obtain swap1 outp1 rctx1 where
    gen: "drain_generation run cid (b # input) [] outp rctx = Some (swap1, outp1, rctx1)"
    and rest: "drain_branches_to_blocked fuel run cid swap1 outp1 rctx1 = Ok (outp', rctx')"
    by (auto simp: bind_res_Ok_iff unwrap_Ok_iff)
  have empty: "proto_wf ([] :: 'a branches)" by (simp add: proto_wf_def)
  note one = drain_generation_keeps [OF gen "3.prems"(2) proto_wf_keys [OF "3.prems"(3)] empty "3.prems"(4,5)]
  have "proto_wf outp' \<and> rc_storage_ok (solution_storage rctx') \<and> drain_post cid outp1 rctx1 outp' rctx'"
    using rest "3.prems"(2) one gen by (intro "3.IH") auto
  with one show ?case by (meson drain_post_trans)
qed

lemma proto_feed_partition_keeps:
  assumes "proto_feed_partition getter msg it blocked unblocked = Some (blocked', unblocked')"
    and "pred_wf (spm_predicate msg)" "\<forall>(p, b) \<in> set it. pred_wf p" "proto_wf blocked" "proto_wf unblocked"
    and "distinct (map fst it)" "\<forall>(p, b) \<in> set it. hm_get blocked p = None"
  shows "proto_wf blocked' \<and> proto_wf unblocked' \<and>
    (\<forall>q. proto_ended_in blocked q \<or> (\<exists>b. (q, b) \<in> set it \<and> ended b) \<longrightarrow> proto_ended_in blocked' q)"
  using assms
proof (induction it arbitrary: blocked unblocked)
  case Nil
  then show ?case by simp
next
  case (Cons pb it)
  obtain p b where pb: "pb = (p, b)" by (cases pb)
  have p: "pred_wf p" "hm_get blocked p = None" and it: "\<forall>(p, b) \<in> set it. pred_wf p"
    and "distinct (map fst it)" "\<forall>(q, c) \<in> set it. hm_get blocked q = None" "p \<notin> fst ` set it"
    using Cons.prems(3,6,7) by (auto simp: pb)
  then have it': "\<forall>(q, c) \<in> set it. hm_get (proto_insert_branch_merging blocked p b) q = None"
    by (auto simp: proto_insert_get split_beta)
  let ?keep = "proto_insert_branch_merging blocked p b"
  note wf_keep = proto_insert_wf [OF Cons.prems(4) p(1)]
  note IH = Cons.IH [OF _ Cons.prems(2) it _ _ \<open>distinct (map fst it)\<close>]
  consider (ended) "ended b" "proto_feed_partition getter msg it ?keep unblocked = Some (blocked', unblocked')"
    | (keep) "\<not> ended b" "proto_feed_partition getter msg it ?keep unblocked = Some (blocked', unblocked')"
    | (feed) c where "\<not> ended b" "proto_feed_partition getter msg it blocked
        (proto_insert_branch_merging unblocked p c) = Some (blocked', unblocked')"
    | (fork) q c where "\<not> ended b" "pred_wf q" "proto_feed_partition getter msg it ?keep
        (proto_insert_branch_merging unblocked q c) = Some (blocked', unblocked')"
  proof (cases "ended b")
    case True
    with Cons.prems(1) ended show ?thesis by (simp add: pb)
  next
    case False
    have "pred_wf r" if "assignment_union p (spm_predicate msg) = New r" for r
    proof -
      have "union_with p (spm_predicate msg) = Some r"
        using assignment_union_cases [OF p(1) Cons.prems(2)] union_with_None_iff [OF p(1) Cons.prems(2)] that
        by (auto split: if_splits)
      then show ?thesis using union_with_upper(1) [OF p(1) Cons.prems(2)] by blast
    qed
    with False Cons.prems(1,2) keep feed fork show ?thesis
      by (cases "assignment_union p (spm_predicate msg)") (auto simp: pb bind_eq_Some_conv Let_def)
  qed
  then show ?case
  proof cases
    case ended
    from IH [OF ended(2) wf_keep Cons.prems(5) it'] show ?thesis
      using proto_insert_ended [of blocked] p(2) ended(1) by (auto simp: pb)
  next
    case keep
    from IH [OF keep(2) wf_keep Cons.prems(5) it'] show ?thesis
      using proto_insert_ended(1) [of blocked] keep(1) by (auto simp: pb)
  next
    case (feed c)
    from IH [OF feed(2) Cons.prems(4) proto_insert_wf [OF Cons.prems(5) p(1)]]
      \<open>\<forall>(q, c) \<in> set it. hm_get blocked q = None\<close> show ?thesis
      using feed(1) by (auto simp: pb)
  next
    case (fork q c)
    from IH [OF fork(3) wf_keep proto_insert_wf [OF Cons.prems(5) fork(2)] it'] show ?thesis
      using proto_insert_ended(1) [of blocked] fork(1) by (auto simp: pb)
  qed
qed

lemma proto_feed_msg_keeps:
  assumes fed: "proto_feed_msg fuel run cid getter msg branches rctx = Ok (branches', rctx')"
    and ok: "run_ok run" "pred_wf (spm_predicate msg)" "proto_wf branches" "rc_storage_ok (solution_storage rctx)"
  shows "proto_wf branches' \<and> rc_storage_ok (solution_storage rctx') \<and>
    (\<forall>q. proto_ended_in branches q \<longrightarrow> proto_ended_in branches' q) \<and> (\<exists>blocked. drain_post cid blocked rctx branches' rctx')"
proof -
  from fed obtain blocked unblocked where
    part: "proto_feed_partition getter msg branches [] [] = Some (blocked, unblocked)"
    and drain: "drain_branches_to_blocked fuel run cid unblocked blocked rctx = Ok (branches', rctx')"
    by (auto simp: proto_feed_msg_def bind_res_Ok_iff unwrap_Ok_iff)
  have empty: "proto_wf ([] :: 'a branches)" by (simp add: proto_wf_def)
  have "distinct (map fst branches)" using ok(3) by (simp add: proto_wf_def)
  note p = proto_feed_partition_keeps [OF part ok(2) proto_wf_keys [OF ok(3)] empty empty this]
  have res: "proto_wf branches' \<and> rc_storage_ok (solution_storage rctx') \<and> drain_post cid blocked rctx branches' rctx'"
    using p by (intro drain_keeps [OF drain ok(1) _ _ ok(4)]) auto
  have "proto_ended_in branches' q" if q: "proto_ended_in branches q" for q
  proof -
    obtain b where "(q, b) \<in> set branches" "ended b"
      using q by (auto simp: proto_ended_in_def dest: map_of_SomeD)
    with p have "proto_ended_in blocked q" by auto
    with res show ?thesis by (simp add: drain_post_def)
  qed
  with res show ?thesis by blast
qed

section \<open>Properties\<close>

text \<open>
  For the witnesses: a component that ends its synchronous block at once, and one that
  waits for a message and then ends.
\<close>

definition idle_run :: "unit runner" where
  "idle_run s ctx = Some (SyncBlockEnd, s, ctx)"

definition reader_run :: "PortId \<Rightarrow> unit runner" where
  "reader_run port s ctx = (case sync_read_msg ctx port of
     (Some _, ctx') \<Rightarrow> Some (SyncBlockEnd, s, ctx') | (None, ctx') \<Rightarrow> Some (CouldntReadMsg port, s, ctx'))"

lemma sample_run_ok: "run_ok idle_run" "run_ok (reader_run port)"
proof -
  show "run_ok idle_run" by (simp add: run_ok_def idle_run_def)
  have "ctx' = snd (sync_read_msg ctx port)" if "reader_run port s ctx = Some (blocker, s', ctx')" for s ctx blocker s' ctx'
    using that by (auto simp: reader_run_def split: prod.splits option.splits)
  then show "run_ok (reader_run port)"
    unfolding run_ok_def by (metis sync_read_msg_grows)
qed

definition sample_proto_rctx :: RoundCtx where
  "sample_proto_rctx = \<lparr>solution_storage = SolutionStorage_new [SubLocalComponent sample_cid],
     spec_var_stream = new_spec_var_stream (id_manager sample_ips), payload_inbox = [], deadline = None,
     rips = sample_ips\<lparr>port_info := owned_extend sample_cid [PortId (MkId 7 1)] (insert_port (PortId (MkId 7 1))
       \<lparr>owner = sample_cid, peer = None, polarity = Getter, route = NetEndpoint 0\<rparr> PortInfoMap_default)\<rparr>\<rparr>"

text \<open>
  C38: the cyclic drain of speculative branches ends. Whatever the component's code does
  through its callbacks, feeding it a message settles all branches (or hits an assertion)
  within twice the number of ports, plus one, rounds of the loop.
\<close>

theorem proto_feed_terminates:
  assumes "run_ok run" "2 * length (port_map (rc_ports rctx)) < fuel"
  shows "proto_feed_msg fuel run cid getter msg branches rctx \<noteq> OutOfFuel"
proof (cases "proto_feed_partition getter msg branches [] []")
  case None
  then show ?thesis by (simp add: proto_feed_msg_def)
next
  case (Some r)
  obtain blocked unblocked where r: "r = (blocked, unblocked)" by (cases r)
  have "drain_branches_to_blocked fuel run cid unblocked blocked rctx \<noteq> OutOfFuel"
    using assms by (intro drain_enough_fuel [where k = 0]) (auto simp: ranked_def)
  then show ?thesis by (simp add: proto_feed_msg_def Some r)
qed

theorem proto_feed_terminates_witness:
  "proto_feed_msg 3 (reader_run (PortId (MkId 7 1))) sample_cid (PortId (MkId 7 1))
     \<lparr>spm_predicate = Predicate_default, spm_payload = [1]\<rparr> (initial ()) sample_proto_rctx \<noteq> OutOfFuel"
  by (rule proto_feed_terminates [OF sample_run_ok(2)])
    (simp add: sample_proto_rctx_def insert_port_def owned_extend_def PortInfoMap_default_def)

text \<open>
  C39: feeding a message keeps the round in order. Branches stay keyed by distinct
  well-formed predicates, a branch that has ended stays ended, the solution storage stays
  exact, every solution newly submitted for the component is the predicate of one of its
  branches, other components' solutions and the port table are untouched, and messages are
  only added to the buffer.
\<close>

theorem proto_feed_keeps_round:
  assumes "run_ok run" "pred_wf (spm_predicate msg)" "proto_wf branches" "rc_storage_ok (solution_storage rctx)"
    and "proto_feed_msg fuel run cid getter msg branches rctx = Ok (branches', rctx')"
  shows "proto_wf branches' \<and> rc_storage_ok (solution_storage rctx') \<and> rips rctx' = rips rctx \<and>
    (\<exists>msgs. payload_inbox rctx' = payload_inbox rctx @ msgs) \<and>
    (\<forall>q. proto_ended_in branches q \<longrightarrow> proto_ended_in branches' q) \<and>
    (\<forall>sid. child_solutions (solution_storage rctx') sid - child_solutions (solution_storage rctx) sid \<subseteq>
       (if sid = SubLocalComponent cid then {q. hm_get branches' q \<noteq> None} else {}))"
  using proto_feed_msg_keeps [OF assms(5,1-4)] unfolding drain_post_def by auto

theorem proto_feed_keeps_round_witness:
  "\<exists>branches' rctx'. proto_feed_msg 3 (reader_run (PortId (MkId 7 1))) sample_cid (PortId (MkId 7 1))
      \<lparr>spm_predicate = singleton (SpecVar (PortId (MkId 7 1))) FIRING, spm_payload = [1]\<rparr> (initial ()) sample_proto_rctx =
      Ok (branches', rctx') \<and> proto_wf branches' \<and> rc_storage_ok (solution_storage rctx')"
proof -
  let ?run = "reader_run (PortId (MkId 7 1))"
  let ?msg = "\<lparr>spm_predicate = singleton (SpecVar (PortId (MkId 7 1))) FIRING, spm_payload = [1]\<rparr>"
  let ?fed = "proto_feed_msg 3 ?run sample_cid (PortId (MkId 7 1)) ?msg (initial ()) sample_proto_rctx"
  have wf: "proto_wf (initial ())" by (simp add: proto_wf_def initial_def)
  have ok: "rc_storage_ok (solution_storage sample_proto_rctx)"
    by (simp add: sample_proto_rctx_def rc_storage_ok_new)
  have "case ?fed of Ok _ \<Rightarrow> True | _ \<Rightarrow> False"
    by (simp add: numeral_3_eq_3 proto_feed_msg_def initial_def assignment_union_def Predicate_default_def
        singleton_def inserted_def proto_branch_feed_msg_def ProtoComponentBranchInner_default_def
        proto_insert_branch_merging_def run_branch_def reader_run_def sync_read_msg_def sample_proto_rctx_def
        SolutionStorage_new_def rc_submit_def submit_and_digest_subtree_solution_def oassert_def
        insert_port_def owned_extend_def PortInfoMap_default_def ports_owned_by_def spec_var_for_def query_def)
  then obtain branches' rctx' where fed: "?fed = Ok (branches', rctx')"
    by (auto split: res.splits)
  have "pred_wf (spm_predicate ?msg)" by simp
  from proto_feed_keeps_round [OF sample_run_ok(2) this wf ok fed] fed show ?thesis by blast
qed

text \<open>
  A branch that reaches the end of its synchronous block is accepted only with a
  predicate that extends its own and decides every port of the component, firing exactly
  for the ports on which it put or got.
\<close>

theorem ended_branch_decides_ports:
  assumes "pred_wf p" "assign_silent (ports_owned_by m cid) m exchanged p = Some (Some q)"
  shows "assigns_subset p q \<and> (\<forall>port \<in> set (ports_owned_by m cid). \<exists>var val.
    spec_var_for m port = Some var \<and> query q var = Some val \<and> (val = FIRING \<longleftrightarrow> port \<in> set exchanged))"
  using assign_silent_spec [OF assms(2,1)] assms(1) by (auto simp: assigns_subset_iff query_pmap)

theorem ended_branch_decides_ports_witness:
  "let m = rc_ports sample_proto_rctx in
   \<exists>q. assign_silent (ports_owned_by m sample_cid) m [] Predicate_default = Some (Some q) \<and>
     assigns_subset Predicate_default q \<and> query q (SpecVar (PortId (MkId 7 1))) = Some SILENT"
proof -
  let ?m = "rc_ports sample_proto_rctx"
  let ?q = "singleton (SpecVar (PortId (MkId 7 1))) SILENT"
  have run: "assign_silent (ports_owned_by ?m sample_cid) ?m [] Predicate_default = Some (Some ?q)"
    by (simp add: sample_proto_rctx_def insert_port_def owned_extend_def PortInfoMap_default_def ports_owned_by_def
        spec_var_for_def query_def Predicate_default_def singleton_def)
  have "pred_wf Predicate_default" by simp
  from ended_branch_decides_ports [OF this run] run show ?thesis by (simp add: Let_def query_pmap)
qed

end
