(* ===== verification/Protocol_Desc.thy ===== *)
theory Protocol_Desc
  imports Ast Proto_Branches
begin

text \<open>
  The protocol description as the runtime sees it (\<open>ProtocolDescription\<close> of
  \<open>src/protocol/mod.rs\<close>): looking up a module and a component by name, the polarities of
  its parameters, and the creation of a component. Of the syntax tree only what these
  lookups read is kept. The evaluator is the record \<open>Interp\<close> of functions on the states
  of components, an argument of everything above; \<open>interp_ok\<close> says that it changes the
  state of the runtime through its callbacks only.
\<close>

section \<open>Modules and definitions\<close>

text \<open>The definitions of a module are those of its root; the source is not kept.\<close>

record Module =
  md_name :: "u8 list option"
  md_definitions :: "AstId list"

record ProtocolDescription =
  modules :: "Module list"
  pd_heap :: ProtoHeap
  pd_types :: TypeTable

definition empty_pd :: ProtocolDescription where
  "empty_pd = \<lparr>modules = [], pd_heap = \<lparr>heap_variables = [], heap_definitions = [], heap_statements = [], heap_expressions = []\<rparr>, pd_types = []\<rparr>"

fun lookup_module_root :: "Module list \<Rightarrow> u8 list \<Rightarrow> Module option" where
  "lookup_module_root [] module_name = None"
| "lookup_module_root (m # ms) module_name =
     (case md_name m of
        Some name \<Rightarrow> if name = module_name then Some m else lookup_module_root ms module_name
      | None \<Rightarrow> if module_name = [] then Some m else lookup_module_root ms module_name)"

fun get_definition_ident :: "ProtoHeap \<Rightarrow> AstId list \<Rightarrow> u8 list \<Rightarrow> (AstId option, 'e) res" where
  "get_definition_ident h [] i = Ok None"
| "get_definition_ident h (def # defs) i =
     bind_res (arena_get (heap_definitions h) def) (\<lambda>d.
     if def_identifier d = i then Ok (Some def) else get_definition_ident h defs i)"

text \<open>The first loop over the parameters only checks them; the second collects.\<close>

fun check_port_params :: "ProtoHeap \<Rightarrow> AstId list \<Rightarrow> (unit, AddComponentError) res" where
  "check_port_params h [] = Ok ()"
| "check_port_params h (param # ps) =
     bind_res (arena_get (heap_variables h) param) (\<lambda>v.
     case var_parser_type v of
        [] \<Rightarrow> Panic
      | PtInput # _ \<Rightarrow> check_port_params h ps
      | PtOutput # _ \<Rightarrow> check_port_params h ps
      | PtOther # _ \<Rightarrow> Err NonPortTypeParameters)"

fun collect_polarities :: "ProtoHeap \<Rightarrow> AstId list \<Rightarrow> (Polarity list, AddComponentError) res" where
  "collect_polarities h [] = Ok []"
| "collect_polarities h (param # ps) =
     bind_res (arena_get (heap_variables h) param) (\<lambda>v.
     case var_parser_type v of
        PtInput # _ \<Rightarrow> bind_res (collect_polarities h ps) (\<lambda>r. Ok (Getter # r))
      | PtOutput # _ \<Rightarrow> bind_res (collect_polarities h ps) (\<lambda>r. Ok (Putter # r))
      | _ \<Rightarrow> Panic)"

definition component_polarities ::
  "ProtocolDescription \<Rightarrow> u8 list \<Rightarrow> u8 list \<Rightarrow> (Polarity list, AddComponentError) res" where
  "component_polarities pd module_name ident =
     (case lookup_module_root (modules pd) module_name of
        None \<Rightarrow> Err NoSuchModule
      | Some root \<Rightarrow>
          bind_res (get_definition_ident (pd_heap pd) (md_definitions root) ident) (\<lambda>def.
          case def of
             None \<Rightarrow> Err NoSuchComponent
           | Some def \<Rightarrow>
               bind_res (arena_get (heap_definitions (pd_heap pd)) def) (\<lambda>d.
               if \<not> is_component d then Err NoSuchComponent
               else bind_res (unwrap (parameters d)) (\<lambda>ps.
                    bind_res (check_port_params (pd_heap pd) ps) (\<lambda>_. collect_polarities (pd_heap pd) ps)))))"

section \<open>The evaluator\<close>

datatype NonsyncBlocker = NonsyncInconsistent | ComponentExit | SyncBlockStart

record 's NonsyncProtoContext =
  npc_ips :: IdAndPortState
  npc_proto_component_id :: ComponentId
  npc_unrun_components :: "(ComponentId \<times> 's) list"

record 's Interp =
  prompt_new :: "AstId \<Rightarrow> Value list \<Rightarrow> 's option"
  sync_run :: "'s runner"
  nonsync_run :: "'s \<Rightarrow> 's NonsyncProtoContext \<Rightarrow> (NonsyncBlocker \<times> 's \<times> 's NonsyncProtoContext) option"

definition port_value :: "PortId \<Rightarrow> Polarity \<Rightarrow> Value" where
  "port_value x y = (case y of Getter \<Rightarrow> VInput x | Putter \<Rightarrow> VOutput x)"

text \<open>\<open>None\<close> is a panic: the name must be known and the parameters must be ports.\<close>

definition pd_new_component ::
  "'s Interp \<Rightarrow> ProtocolDescription \<Rightarrow> u8 list \<Rightarrow> u8 list \<Rightarrow> PortId list \<Rightarrow> 's option" where
  "pd_new_component interp pd module_name ident ports =
     (case component_polarities pd module_name ident of
        Ok pols \<Rightarrow> do {
          root \<leftarrow> lookup_module_root (modules pd) module_name;
          case (get_definition_ident (pd_heap pd) (md_definitions root) ident :: (AstId option, unit) res) of
            Ok (Some def) \<Rightarrow> prompt_new interp def (map2 port_value ports pols)
          | _ \<Rightarrow> None
        }
      | _ \<Rightarrow> None)"

text \<open>
  Outside synchronous blocks a component changes the runtime by its two callbacks: it
  creates port pairs and components.
\<close>

inductive nonsync_callbacks :: "'s NonsyncProtoContext \<Rightarrow> 's NonsyncProtoContext \<Rightarrow> bool" where
  none: "nonsync_callbacks ctx ctx"
| port_pair: "nonsync_callbacks ctx ctx' \<Longrightarrow>
    nonsync_new_port_pair (npc_proto_component_id ctx') (npc_ips ctx') = Some (ports, ips') \<Longrightarrow>
    nonsync_callbacks ctx (ctx'\<lparr>npc_ips := ips'\<rparr>)"
| component: "nonsync_callbacks ctx ctx' \<Longrightarrow>
    nonsync_new_component (npc_proto_component_id ctx') moved st (npc_ips ctx') (npc_unrun_components ctx') =
      Some (ips', unrun') \<Longrightarrow>
    nonsync_callbacks ctx (ctx'\<lparr>npc_ips := ips', npc_unrun_components := unrun'\<rparr>)"

definition interp_ok :: "'s Interp \<Rightarrow> bool" where
  "interp_ok interp \<longleftrightarrow> run_ok (sync_run interp) \<and>
     (\<forall>s ctx blocker s' ctx'. nonsync_run interp s ctx = Some (blocker, s', ctx') \<longrightarrow> nonsync_callbacks ctx ctx')"

lemma collect_after_check: "check_port_params h ps = Ok () \<Longrightarrow>
    \<exists>pols. collect_polarities h ps = Ok pols \<and> length pols = length ps"
proof (induction ps)
  case (Cons p ps)
  from Cons.prems obtain v where v: "arena_get (heap_variables h) p = (Ok v :: (Variable, AddComponentError) res)"
    by (cases "arena_get (heap_variables h) p :: (Variable, AddComponentError) res") auto
  with Cons obtain pols where "collect_polarities h ps = Ok pols" "length pols = length ps"
    by (auto split: list.splits ParserTypeVariant.splits)
  with Cons.prems v show ?case by (auto split: list.splits ParserTypeVariant.splits)
qed simp

text \<open>
  Looking up the polarities of a component never panics when the definitions of the modules
  and the parameters of components are in the heap and parameters have types.
\<close>

definition pd_linked :: "ProtocolDescription \<Rightarrow> bool" where
  "pd_linked pd \<longleftrightarrow>
     (\<forall>m \<in> set (modules pd). \<forall>def \<in> set (md_definitions m). \<exists>d. arena_get (heap_definitions (pd_heap pd)) def = (Ok d :: (Definition, unit) res)) \<and>
     (\<forall>d \<in> set (heap_definitions (pd_heap pd)). \<forall>ps. parameters d = Some ps \<longrightarrow>
        (\<forall>p \<in> set ps. \<exists>v. arena_get (heap_variables (pd_heap pd)) p = (Ok v :: (Variable, unit) res) \<and> var_parser_type v \<noteq> []))"

lemma arena_get_type: "arena_get xs i = (Ok x :: ('a, 'e) res) \<longleftrightarrow> arena_get xs i = (Ok x :: ('a, 'f) res)"
  by (simp add: arena_get_def)

lemma arena_get_in: "arena_get xs i = Ok x \<Longrightarrow> x \<in> set xs"
  by (auto simp: arena_get_def split: if_splits)

lemma component_polarities_no_panic:
  assumes "pd_linked pd"
  shows "component_polarities pd module_name ident \<noteq> Panic"
proof -
  let ?h = "pd_heap pd"
  have root: "lookup_module_root ms n = Some r \<Longrightarrow> r \<in> set ms" for ms n r
    by (induction ms n rule: lookup_module_root.induct) (auto split: option.splits if_splits)
  have def: "\<exists>r. get_definition_ident ?h ds i = (Ok r :: (AstId option, AddComponentError) res) \<and> (\<forall>d. r = Some d \<longrightarrow> d \<in> set ds)"
    if "\<forall>def \<in> set ds. \<exists>d. arena_get (heap_definitions ?h) def = (Ok d :: (Definition, AddComponentError) res)" for ds i
    using that by (induction ds) auto
  have check: "check_port_params ?h ps \<noteq> Panic \<and> check_port_params ?h ps \<noteq> OutOfFuel"
    if "\<forall>p \<in> set ps. \<exists>v. arena_get (heap_variables ?h) p = (Ok v :: (Variable, AddComponentError) res) \<and> var_parser_type v \<noteq> []" for ps
    using that by (induction ps) (auto split: list.splits ParserTypeVariant.splits)
  have defs: "\<forall>def \<in> set (md_definitions m). \<exists>d. arena_get (heap_definitions ?h) def = (Ok d :: (Definition, AddComponentError) res)"
    if "m \<in> set (modules pd)" for m
    using assms that arena_get_type [where 'e = unit and 'f = AddComponentError] unfolding pd_linked_def by metis
  show ?thesis
  proof (cases "lookup_module_root (modules pd) module_name")
    case None
    then show ?thesis by (simp add: component_polarities_def)
  next
    case (Some r)
    from def [OF defs [OF root [OF Some]], of ident] obtain x where
      x: "get_definition_ident ?h (md_definitions r) ident = (Ok x :: (AstId option, AddComponentError) res)" "\<forall>d. x = Some d \<longrightarrow> d \<in> set (md_definitions r)"
      by blast
    show ?thesis
    proof (cases x)
      case None
      with Some x show ?thesis by (simp add: component_polarities_def)
    next
      case (Some i)
      with x defs [OF root [OF \<open>lookup_module_root (modules pd) module_name = Some r\<close>]] obtain d where
        d: "arena_get (heap_definitions ?h) i = (Ok d :: (Definition, AddComponentError) res)" by blast
      show ?thesis
      proof (cases d)
        case (DefComponent n ps b)
        then have "\<forall>p \<in> set ps. \<exists>v. arena_get (heap_variables ?h) p = (Ok v :: (Variable, AddComponentError) res) \<and> var_parser_type v \<noteq> []"
          using assms arena_get_in [OF d] arena_get_type [where 'e = unit and 'f = AddComponentError] unfolding pd_linked_def
          by (metis parameters.simps(1))
        from check [OF this] have "bind_res (check_port_params ?h ps) (\<lambda>_. collect_polarities ?h ps) \<noteq> Panic"
          using collect_after_check [of ?h ps] by (cases "check_port_params ?h ps") auto
        with \<open>lookup_module_root (modules pd) module_name = Some r\<close> x Some d DefComponent show ?thesis
          by (simp add: component_polarities_def)
      qed (use \<open>lookup_module_root (modules pd) module_name = Some r\<close> x Some d in \<open>simp_all add: component_polarities_def\<close>)
    qed
  qed
qed

end
