(* ===== verification/Executor.thy ===== *)
theory Executor
  imports Eval_Cast Value_Groups Protocol_Desc
begin

text \<open>
  The evaluator of component code (\<open>src/protocol/eval/executor.rs\<close>). A prompt is a stack
  of frames over a store. A step first runs the pending expression instructions of the top
  frame, each of which pops its operands from the frame's deque of values, and then the
  statement at the frame's position. What the code may ask of the runtime (\<open>EvalContext\<close>
  of \<open>src/protocol/mod.rs\<close>) are the callbacks of the two proto contexts.

  The text of an evaluation error is reduced to its reason; the caller panics on every
  error, so the state is not returned with it. Fuel bounds the expression loop and all
  recursions over the heap.
\<close>

section \<open>Frames\<close>

text \<open>The kind of build, the address that a cast compares with, and the fuel.\<close>

record EvalCfg =
  cfg_debug :: bool
  cfg_max_fn :: u64
  cfg_fuel :: nat

datatype ExprInstruction = EvalExpr AstId | PushValToFront

record Frame =
  fr_definition :: AstId
  fr_monomorph_idx :: int
  fr_position :: AstId
  expr_stack :: "ExprInstruction list"
  expr_values :: "Value list"
  max_stack_size :: u32

record Prompt =
  frames :: "Frame list"
  prompt_store :: Store

definition debug_assert :: "EvalCfg \<Rightarrow> bool \<Rightarrow> (unit, 'e) res" where
  "debug_assert cfg b = (if cfg_debug cfg \<and> \<not> b then Panic else Ok ())"

fun determine_max_stack_size :: "nat \<Rightarrow> EvalCfg \<Rightarrow> ProtoHeap \<Rightarrow> AstId \<Rightarrow> u32 \<Rightarrow> (u32, 'e) res"
and determine_nested :: "nat \<Rightarrow> EvalCfg \<Rightarrow> ProtoHeap \<Rightarrow> AstId option list \<Rightarrow> u32 \<Rightarrow> (u32, 'e) res" where
  "determine_max_stack_size 0 cfg h block_id max_size = OutOfFuel"
| "determine_max_stack_size (Suc fuel) cfg h block_id max_size =
     bind_res (block_at h block_id) (\<lambda>block.
     bind_res (debug_assert cfg (0 \<le> bs_next_unique_id_in_scope block)) (\<lambda>_.
     let cur_size = word_of_int (bs_next_unique_id_in_scope block) in
     determine_nested fuel cfg h (bs_nested block) (if cur_size > max_size then cur_size else max_size)))"
| "determine_nested fuel cfg h [] max_size = Ok max_size"
| "determine_nested fuel cfg h (child # scopes) max_size =
     bind_res (unwrap child) (\<lambda>block_id.
     bind_res (case fuel of 0 \<Rightarrow> OutOfFuel | Suc f \<Rightarrow> determine_max_stack_size f cfg h block_id max_size) (\<lambda>max_size'.
     determine_nested fuel cfg h scopes max_size'))"

definition Frame_new :: "EvalCfg \<Rightarrow> ProtoHeap \<Rightarrow> AstId \<Rightarrow> int \<Rightarrow> (Frame, 'e) res" where
  "Frame_new cfg h definition_id monomorph_idx =
     bind_res (arena_get (heap_definitions h) definition_id) (\<lambda>def.
     bind_res (case def of DefComponent _ _ body \<Rightarrow> Ok body | DefFunction _ _ body \<Rightarrow> Ok body | _ \<Rightarrow> Panic) (\<lambda>first_statement.
     bind_res (determine_max_stack_size (cfg_fuel cfg) cfg h first_statement 0) (\<lambda>size.
     Ok \<lparr>fr_definition = definition_id, fr_monomorph_idx = monomorph_idx, fr_position = first_statement,
         expr_stack = [], expr_values = [], max_stack_size = size\<rparr>)))"

text \<open>
  The fields of a struct literal are serialized in the order of the definition. The
  instructions run from the last to the first, so the fields are evaluated in the reverse
  of this order.
\<close>

definition struct_order :: "(AstId \<times> nat) list \<Rightarrow> AstId list" where
  "struct_order fs = concat (map (\<lambda>want. map fst (filter (\<lambda>(_, idx). idx = want) fs)) [0 ..< length fs])"

text \<open>
  The subexpressions that are serialized after an expression: as they are, or each after an
  instruction that will move its value to the front.
\<close>

definition plain_children :: "Expression \<Rightarrow> AstId list" where
  "plain_children e =
     (case e of
        Ex_Assignment left _ right \<Rightarrow> [left, right]
      | Ex_Binding bound_to bound_from \<Rightarrow> [bound_to, bound_from]
      | Ex_Conditional test _ _ \<Rightarrow> [test]
      | Ex_Binary left _ right \<Rightarrow> [left, right]
      | Ex_Unary _ expression \<Rightarrow> [expression]
      | Ex_Indexing subject index \<Rightarrow> [index, subject]
      | Ex_Slicing subject from_index to_index \<Rightarrow> [from_index, to_index, subject]
      | Ex_Select subject _ \<Rightarrow> [subject]
      | Ex_Cast subject _ \<Rightarrow> [subject]
      | _ \<Rightarrow> [])"

definition pushed_children :: "Expression \<Rightarrow> AstId list" where
  "pushed_children e =
     (case e of
        Ex_Literal (LitStruct fs) _ \<Rightarrow> struct_order fs
      | Ex_Literal (LitUnion values _) _ \<Rightarrow> values
      | Ex_Literal (LitArray values) _ \<Rightarrow> values
      | Ex_Call _ arguments _ _ \<Rightarrow> arguments
      | _ \<Rightarrow> [])"

definition literal_complete :: "Expression \<Rightarrow> bool" where
  "literal_complete e \<longleftrightarrow> (case e of Ex_Literal (LitStruct fs) _ \<Rightarrow> length (struct_order fs) = length fs | _ \<Rightarrow> True)"

fun serialize_expression :: "nat \<Rightarrow> EvalCfg \<Rightarrow> ProtoHeap \<Rightarrow> AstId \<Rightarrow> ExprInstruction list \<Rightarrow> (ExprInstruction list, 'e) res"
and serialize_children :: "nat \<Rightarrow> EvalCfg \<Rightarrow> ProtoHeap \<Rightarrow> bool \<Rightarrow> AstId list \<Rightarrow> ExprInstruction list \<Rightarrow> (ExprInstruction list, 'e) res" where
  "serialize_expression 0 cfg h expr_id es = OutOfFuel"
| "serialize_expression (Suc fuel) cfg h expr_id es =
     bind_res (arena_get (heap_expressions h) expr_id) (\<lambda>e.
     bind_res (serialize_children fuel cfg h False (plain_children e) (es @ [EvalExpr expr_id])) (\<lambda>es1.
     bind_res (serialize_children fuel cfg h True (pushed_children e) es1) (\<lambda>es2.
     bind_res (debug_assert cfg (literal_complete e)) (\<lambda>_. Ok es2))))"
| "serialize_children fuel cfg h pushed [] es = Ok es"
| "serialize_children fuel cfg h pushed (expr_id # expr_ids) es =
     bind_res (case fuel of 0 \<Rightarrow> OutOfFuel
       | Suc f \<Rightarrow> serialize_expression f cfg h expr_id (if pushed then es @ [PushValToFront] else es)) (\<lambda>es'.
     serialize_children fuel cfg h pushed expr_ids es')"

definition frame_serialize :: "EvalCfg \<Rightarrow> ProtoHeap \<Rightarrow> AstId \<Rightarrow> Frame \<Rightarrow> (Frame, 'e) res" where
  "frame_serialize cfg h expr_id fr =
     bind_res (serialize_expression (cfg_fuel cfg) cfg h expr_id (expr_stack fr)) (\<lambda>es. Ok (fr\<lparr>expr_stack := es\<rparr>))"

definition prepare_single_expression :: "EvalCfg \<Rightarrow> ProtoHeap \<Rightarrow> AstId \<Rightarrow> Frame \<Rightarrow> (Frame, 'e) res" where
  "prepare_single_expression cfg h expr_id fr =
     bind_res (debug_assert cfg (expr_stack fr = [])) (\<lambda>_.
     frame_serialize cfg h expr_id (fr\<lparr>expr_values := []\<rparr>))"

definition prepare_multiple_expressions :: "EvalCfg \<Rightarrow> ProtoHeap \<Rightarrow> AstId list \<Rightarrow> Frame \<Rightarrow> (Frame, 'e) res" where
  "prepare_multiple_expressions cfg h expr_ids fr =
     bind_res (debug_assert cfg (expr_stack fr = [])) (\<lambda>_.
     bind_res (serialize_children (cfg_fuel cfg) cfg h True expr_ids (expr_stack fr)) (\<lambda>es.
     Ok (fr\<lparr>expr_values := [], expr_stack := es\<rparr>)))"

section \<open>What the code asks of the runtime\<close>

datatype EvalContext = CtxNonsync "Prompt NonsyncProtoContext" | CtxSync SyncProtoContext | CtxNone

definition ctx_new_channel :: "EvalContext \<Rightarrow> (Value \<times> Value \<times> EvalContext, 'e) res" where
  "ctx_new_channel ctx =
     (case ctx of
        CtxNonsync c \<Rightarrow>
          bind_res (unwrap (nonsync_new_port_pair (npc_proto_component_id c) (npc_ips c))) (\<lambda>((from, to), ips).
          Ok (VOutput from, VInput to, CtxNonsync (c\<lparr>npc_ips := ips\<rparr>)))
      | _ \<Rightarrow> Panic)"

definition ctx_new_component :: "EvalContext \<Rightarrow> PortId hash_set \<Rightarrow> Prompt \<Rightarrow> (EvalContext, 'e) res" where
  "ctx_new_component ctx moved_ports init_state =
     (case ctx of
        CtxNonsync c \<Rightarrow>
          bind_res (unwrap (nonsync_new_component (npc_proto_component_id c) moved_ports init_state (npc_ips c) (npc_unrun_components c)))
            (\<lambda>(ips, unrun). Ok (CtxNonsync (c\<lparr>npc_ips := ips, npc_unrun_components := unrun\<rparr>)))
      | _ \<Rightarrow> Panic)"

definition port_of :: "Value \<Rightarrow> (PortId, 'e) res" where
  "port_of v = (case v of VOutput port \<Rightarrow> Ok port | VInput port \<Rightarrow> Ok port | _ \<Rightarrow> Panic)"

definition ctx_fires :: "EvalContext \<Rightarrow> Value \<Rightarrow> (Value option, 'e) res" where
  "ctx_fires ctx port =
     (case ctx of
        CtxSync c \<Rightarrow> bind_res (port_of port) (\<lambda>p. bind_res (unwrap (sync_is_firing c p)) (\<lambda>f. Ok (map_option VBool f)))
      | _ \<Rightarrow> Panic)"

definition ctx_get :: "EvalContext \<Rightarrow> Value \<Rightarrow> Store \<Rightarrow> (Value option \<times> EvalContext \<times> Store, 'e) res" where
  "ctx_get ctx port st =
     (case ctx of
        CtxSync c \<Rightarrow>
          bind_res (unwrap (as_input port)) (\<lambda>p.
          (case sync_read_msg c p of
             (None, c') \<Rightarrow> Ok (None, CtxSync c', st)
           | (Some payload, c') \<Rightarrow>
               (let (heap_pos, st1) = alloc_heap st in
                bind_res (region st1 heap_pos) (\<lambda>vs.
                Ok (Some (VMessage heap_pos), CtxSync c', set_region heap_pos (vs @ map VUInt8 payload) st1)))))
      | _ \<Rightarrow> Panic)"

definition ctx_did_put :: "EvalContext \<Rightarrow> Value \<Rightarrow> (bool, 'e) res" where
  "ctx_did_put ctx port =
     (case ctx of
        CtxSync c \<Rightarrow> bind_res (unwrap (as_output port)) (\<lambda>p. Ok (sync_did_put_or_get c p))
      | _ \<Rightarrow> Panic)"


section \<open>Continuations and outcomes\<close>

datatype EvalContinuation =
    EC_Stepping
  | EC_Inconsistent
  | EC_Terminal
  | EC_SyncBlockStart
  | EC_SyncBlockEnd
  | EC_NewComponent AstId int ValueGroup
  | EC_BlockFires Value
  | EC_BlockGet Value
  | EC_Put Value Value

datatype EvalError = IndexOutOfBounds AstId int nat | CastFailed AstId CastError | PutNotMessage AstId | NegativeLength AstId int

text \<open>
  An instruction either goes on with the next one or returns from \<open>step\<close>; then the third
  argument holds the frame that a call has pushed.
\<close>

datatype ExprOutcome =
    Advance Frame Store EvalContext
  | Yield EvalContinuation Frame "Frame list" Store EvalContext

definition pop_back :: "Frame \<Rightarrow> (Value \<times> Frame, 'e) res" where
  "pop_back fr = (if expr_values fr = [] then Panic
     else Ok (last (expr_values fr), fr\<lparr>expr_values := butlast (expr_values fr)\<rparr>))"

definition pop_front :: "Frame \<Rightarrow> (Value \<times> Frame, 'e) res" where
  "pop_front fr = (case expr_values fr of [] \<Rightarrow> Panic | v # vs \<Rightarrow> Ok (v, fr\<lparr>expr_values := vs\<rparr>))"

definition push_back :: "Value \<Rightarrow> Frame \<Rightarrow> Frame" where
  "push_back v fr = fr\<lparr>expr_values := expr_values fr @ [v]\<rparr>"

definition push_front :: "Value \<Rightarrow> Frame \<Rightarrow> Frame" where
  "push_front v fr = fr\<lparr>expr_values := v # expr_values fr\<rparr>"

definition retry :: "AstId \<Rightarrow> Frame \<Rightarrow> Frame" where
  "retry expr_id fr = fr\<lparr>expr_stack := expr_stack fr @ [EvalExpr expr_id]\<rparr>"

text \<open>\<open>rotate_right(1)\<close> moves the last value to the front and panics on an empty deque.\<close>

definition push_val_to_front :: "Frame \<Rightarrow> (Frame, 'e) res" where
  "push_val_to_front fr = bind_res (pop_back fr) (\<lambda>(v, fr'). Ok (push_front v fr'))"

text \<open>
  The first values of the deque are owned one after the other and move into a new region.
\<close>

fun own_front :: "nat \<Rightarrow> nat \<Rightarrow> Value list \<Rightarrow> Store \<Rightarrow> (Value list \<times> Value list \<times> Store, 'e) res" where
  "own_front fuel 0 vs st = Ok ([], vs, st)"
| "own_front fuel (Suc n) [] st = Panic"
| "own_front fuel (Suc n) (v # vs) st =
     bind_res (read_take_ownership fuel v st) (\<lambda>(w, st1).
     bind_res (own_front fuel n vs st1) (\<lambda>(ws, rest, st2). Ok (w # ws, rest, st2)))"

definition transfer_expression_values_front_into_heap ::
  "EvalCfg \<Rightarrow> nat \<Rightarrow> Frame \<Rightarrow> Store \<Rightarrow> (HeapPos \<times> Frame \<times> Store, 'e) res" where
  "transfer_expression_values_front_into_heap cfg num_values fr st =
     (let (heap_pos, st1) = alloc_heap st in
      bind_res (own_front (cfg_fuel cfg) num_values (expr_values fr) st1) (\<lambda>(ws, rest, st2).
      bind_res (region st2 heap_pos) (\<lambda>vs.
      bind_res (debug_assert cfg (vs = [])) (\<lambda>_.
      Ok (heap_pos, fr\<lparr>expr_values := rest\<rparr>, set_region heap_pos (vs @ ws) st2)))))"

definition array_inclusive_index_is_invalid :: "Store \<Rightarrow> HeapPos \<Rightarrow> u64 \<Rightarrow> (bool, 'e) res" where
  "array_inclusive_index_is_invalid st pos idx = bind_res (region st pos) (\<lambda>vs. Ok (sint idx < 0 \<or> sint idx \<ge> int (length vs)))"

definition array_exclusive_index_is_invalid :: "Store \<Rightarrow> HeapPos \<Rightarrow> u64 \<Rightarrow> (bool, 'e) res" where
  "array_exclusive_index_is_invalid st pos idx = bind_res (region st pos) (\<lambda>vs. Ok (sint idx < 0 \<or> sint idx > int (length vs)))"

definition construct_array_error :: "Store \<Rightarrow> AstId \<Rightarrow> HeapPos \<Rightarrow> u64 \<Rightarrow> ('a, EvalError) res" where
  "construct_array_error st expr_id pos idx = bind_res (region st pos) (\<lambda>vs. Err (IndexOutOfBounds expr_id (sint idx) (length vs)))"

definition elements_pos :: "Value \<Rightarrow> HeapPos option" where
  "elements_pos v = (case v of VString p \<Rightarrow> Some p | VArray p \<Rightarrow> Some p | VMessage p \<Rightarrow> Some p | _ \<Rightarrow> None)"

text \<open>An index is read as a signed number of 64 bits.\<close>

definition index_of :: "EvalCfg \<Rightarrow> Value \<Rightarrow> (u64, 'e) res" where
  "index_of cfg v =
     bind_res (debug_assert cfg (is_integer v)) (\<lambda>_.
     unwrap (if is_signed_integer v then as_signed_integer v else as_unsigned_integer v))"

definition frame_expr_data :: "ProtocolDescription \<Rightarrow> Frame \<Rightarrow> int \<Rightarrow> (ExprData, 'e) res" where
  "frame_expr_data pd fr unique_id =
     bind_res (get_procedure_expression_data (pd_types pd) (fr_definition fr) (fr_monomorph_idx fr)) (\<lambda>data.
     arena_get data unique_id)"

section \<open>One instruction\<close>

definition eval_assignment :: "EvalCfg \<Rightarrow> AssignmentOperator \<Rightarrow> Frame \<Rightarrow> Store \<Rightarrow> EvalContext \<Rightarrow> (ExprOutcome, EvalError) res" where
  "eval_assignment cfg op fr st ctx =
     bind_res (pop_back fr) (\<lambda>(to, fr1).
     bind_res (unwrap (as_ref to)) (\<lambda>address.
     bind_res (pop_back fr1) (\<lambda>(rhs, fr2).
     bind_res (read_take_ownership (cfg_fuel cfg) rhs st) (\<lambda>(v, st1).
     bind_res (apply_assignment_operator (cfg_debug cfg) (cfg_fuel cfg) st1 address op v) (\<lambda>st2.
     Ok (Advance fr2 st2 ctx))))))"

definition eval_binding :: "EvalCfg \<Rightarrow> Frame \<Rightarrow> Store \<Rightarrow> EvalContext \<Rightarrow> (ExprOutcome, EvalError) res" where
  "eval_binding cfg fr st ctx =
     bind_res (pop_back fr) (\<lambda>(bind_to, fr1).
     bind_res (pop_back fr1) (\<lambda>(bind_from, fr2).
     bind_res (apply_binding_operator (cfg_fuel cfg) bind_to bind_from st) (\<lambda>(matches, st1).
     bind_res (drop_value (cfg_fuel cfg) (get_heap_pos bind_to) st1) (\<lambda>st2.
     bind_res (drop_value (cfg_fuel cfg) (get_heap_pos bind_from) st2) (\<lambda>st3.
     Ok (Advance (push_back (VBool matches) fr2) st3 ctx))))))"

text \<open>The value of the test is not dereferenced, so a plain variable as a test panics.\<close>

definition eval_conditional ::
  "EvalCfg \<Rightarrow> ProtoHeap \<Rightarrow> AstId \<Rightarrow> AstId \<Rightarrow> Frame \<Rightarrow> Store \<Rightarrow> EvalContext \<Rightarrow> (ExprOutcome, EvalError) res" where
  "eval_conditional cfg h true_expression false_expression fr st ctx =
     bind_res (pop_back fr) (\<lambda>(test, fr1).
     bind_res (unwrap (as_bool test)) (\<lambda>test_result.
     bind_res (frame_serialize cfg h (if test_result then true_expression else false_expression) fr1) (\<lambda>fr2.
     Ok (Advance fr2 st ctx))))"

definition eval_binary :: "EvalCfg \<Rightarrow> BinaryOperator \<Rightarrow> Frame \<Rightarrow> Store \<Rightarrow> EvalContext \<Rightarrow> (ExprOutcome, EvalError) res" where
  "eval_binary cfg op fr st ctx =
     bind_res (pop_back fr) (\<lambda>(lhs, fr1).
     bind_res (pop_back fr1) (\<lambda>(rhs, fr2).
     bind_res (apply_binary_operator (cfg_debug cfg) (cfg_fuel cfg) st lhs op rhs) (\<lambda>(v, st1).
     bind_res (drop_value (cfg_fuel cfg) (get_heap_pos lhs) st1) (\<lambda>st2.
     bind_res (drop_value (cfg_fuel cfg) (get_heap_pos rhs) st2) (\<lambda>st3.
     Ok (Advance (push_back v fr2) st3 ctx))))))"

definition eval_unary :: "EvalCfg \<Rightarrow> UnaryOperator \<Rightarrow> Frame \<Rightarrow> Store \<Rightarrow> EvalContext \<Rightarrow> (ExprOutcome, EvalError) res" where
  "eval_unary cfg op fr st ctx =
     bind_res (pop_back fr) (\<lambda>(val, fr1).
     bind_res (apply_unary_operator (cfg_debug cfg) st op val) (\<lambda>v.
     bind_res (drop_value (cfg_fuel cfg) (get_heap_pos val) st) (\<lambda>st1.
     Ok (Advance (push_back v fr1) st1 ctx))))"

definition eval_indexing :: "EvalCfg \<Rightarrow> AstId \<Rightarrow> Frame \<Rightarrow> Store \<Rightarrow> EvalContext \<Rightarrow> (ExprOutcome, EvalError) res" where
  "eval_indexing cfg expr_id fr st ctx =
     bind_res (pop_back fr) (\<lambda>(i, fr1).
     bind_res (maybe_read_ref st i) (\<lambda>i'.
     bind_res (index_of cfg i') (\<lambda>idx.
     bind_res (pop_back fr1) (\<lambda>(subject, fr2).
     bind_res (maybe_read_ref st subject) (\<lambda>deref_subject.
     bind_res (unwrap (elements_pos deref_subject)) (\<lambda>pos.
     bind_res (array_inclusive_index_is_invalid st pos idx) (\<lambda>invalid.
     if invalid then construct_array_error st expr_id pos idx
     else let element = VRef (Heap pos (ucast idx)) in
       (case subject of
          VRef _ \<Rightarrow> Ok (Advance (push_back element fr2) st ctx)
        | _ \<Rightarrow>
            bind_res (clone_value (cfg_fuel cfg) element st) (\<lambda>(v, st1).
            bind_res (drop_value (cfg_fuel cfg) (Some pos) st1) (\<lambda>st2.
            Ok (Advance (push_back v fr2) st2 ctx)))))))))))"

definition eval_slicing :: "EvalCfg \<Rightarrow> AstId \<Rightarrow> AstId \<Rightarrow> Frame \<Rightarrow> Store \<Rightarrow> EvalContext \<Rightarrow> (ExprOutcome, EvalError) res" where
  "eval_slicing cfg from_expr to_expr fr st ctx =
     bind_res (pop_back fr) (\<lambda>(i, fr1). bind_res (maybe_read_ref st i) (\<lambda>i'.
     bind_res (pop_back fr1) (\<lambda>(j, fr2). bind_res (maybe_read_ref st j) (\<lambda>j'.
     bind_res (index_of cfg i') (\<lambda>from_index. bind_res (index_of cfg j') (\<lambda>to_index.
     bind_res (pop_back fr2) (\<lambda>(subject, fr3).
     bind_res (maybe_read_ref st subject) (\<lambda>deref_subject.
     bind_res (unwrap (elements_pos deref_subject)) (\<lambda>pos.
     bind_res (array_inclusive_index_is_invalid st pos from_index) (\<lambda>from_invalid.
     if from_invalid then construct_array_error st from_expr pos from_index
     else bind_res (array_exclusive_index_is_invalid st pos to_index) (\<lambda>to_invalid.
     if to_invalid then construct_array_error st to_expr pos to_index
     else
       let (new_heap_pos, st1) = alloc_heap st in
       bind_res (region st1 new_heap_pos) (\<lambda>vs.
       bind_res (debug_assert cfg (vs = [])) (\<lambda>_.
       bind_res (if sint to_index > sint from_index
         then bind_res (clone_elements (cfg_fuel cfg) pos [nat (sint from_index) ..< nat (sint to_index)] [] st1) (\<lambda>(ws, st2).
              Ok (set_region new_heap_pos ws st2))
         else Ok st1) (\<lambda>st2.
       bind_res (unwrap (with_heap_pos deref_subject new_heap_pos)) (\<lambda>v.
       bind_res (drop_value (cfg_fuel cfg) (get_heap_pos subject) st2) (\<lambda>st3.
       Ok (Advance (push_back v fr3) st3 ctx)))))))))))))))))"

definition eval_select :: "EvalCfg \<Rightarrow> ProtocolDescription \<Rightarrow> int \<Rightarrow> Frame \<Rightarrow> Store \<Rightarrow> EvalContext \<Rightarrow> (ExprOutcome, EvalError) res" where
  "eval_select cfg pd unique_id fr st ctx =
     bind_res (pop_back fr) (\<lambda>(subject, fr1).
     bind_res (frame_expr_data pd fr unique_id) (\<lambda>data.
     bind_res (maybe_read_ref st subject) (\<lambda>deref_subject.
     bind_res (unwrap (as_struct deref_subject)) (\<lambda>pos.
     let field = VRef (Heap pos (word_of_int (field_or_monomorph_idx data))) in
     (case subject of
        VRef _ \<Rightarrow> Ok (Advance (push_back field fr1) st ctx)
      | _ \<Rightarrow>
          bind_res (clone_value (cfg_fuel cfg) field st) (\<lambda>(v, st1).
          bind_res (drop_value (cfg_fuel cfg) (Some pos) st1) (\<lambda>st2.
          Ok (Advance (push_back v fr1) st2 ctx))))))))"

text \<open>Only the first part of the concrete type decides; a debug build asserts that it is the only one.\<close>

fun integer_literal :: "ConcreteTypePart \<Rightarrow> u64 \<Rightarrow> Value option" where
  "integer_literal CTP_UInt8 n = Some (VUInt8 (ucast n))"
| "integer_literal CTP_UInt16 n = Some (VUInt16 (ucast n))"
| "integer_literal CTP_UInt32 n = Some (VUInt32 (ucast n))"
| "integer_literal CTP_UInt64 n = Some (VUInt64 n)"
| "integer_literal CTP_SInt8 n = Some (VSInt8 (ucast n))"
| "integer_literal CTP_SInt16 n = Some (VSInt16 (ucast n))"
| "integer_literal CTP_SInt32 n = Some (VSInt32 (ucast n))"
| "integer_literal CTP_SInt64 n = Some (VSInt64 n)"
| "integer_literal _ n = None"

definition eval_literal ::
  "EvalCfg \<Rightarrow> ProtocolDescription \<Rightarrow> Literal \<Rightarrow> int \<Rightarrow> Frame \<Rightarrow> Store \<Rightarrow> EvalContext \<Rightarrow> (ExprOutcome, EvalError) res" where
  "eval_literal cfg pd lit unique_id fr st ctx =
     (let finish = (\<lambda>v fr' st'. Ok (Advance (push_back v fr') st' ctx));
          collect = (\<lambda>num_values make.
            bind_res (transfer_expression_values_front_into_heap cfg num_values fr st) (\<lambda>(pos, fr', st'). finish (make pos) fr' st'))
      in case lit of
        LitNull \<Rightarrow> finish VNull fr st
      | LitTrue \<Rightarrow> finish (VBool True) fr st
      | LitFalse \<Rightarrow> finish (VBool False) fr st
      | LitCharacter c \<Rightarrow> finish (VChar c) fr st
      | LitString bytes \<Rightarrow>
          (let (pos, st1) = alloc_heap st in
           bind_res (region st1 pos) (\<lambda>vs.
           bind_res (debug_assert cfg (vs = [] \<and> list_all (\<lambda>b. b < 128) bytes)) (\<lambda>_.
           finish (VString pos) fr (set_region pos (vs @ map (\<lambda>b. VChar (ucast b)) bytes) st1))))
      | LitInteger n \<Rightarrow>
          bind_res (frame_expr_data pd fr unique_id) (\<lambda>data.
          bind_res (debug_assert cfg (length (expr_type data) = 1)) (\<lambda>_.
          bind_res (vec_get (expr_type data) 0) (\<lambda>part.
          bind_res (unwrap (integer_literal part n)) (\<lambda>v. finish v fr st))))
      | LitStruct fs \<Rightarrow> collect (length fs) VStruct
      | LitEnum variant_idx \<Rightarrow> finish (VEnum (of_nat variant_idx)) fr st
      | LitUnion vs variant_idx \<Rightarrow> collect (length vs) (VUnion (of_nat variant_idx))
      | LitArray vs \<Rightarrow> collect (length vs) VArray)"

fun cast_result :: "AstId \<Rightarrow> ('a, CastError) res \<Rightarrow> ('a, EvalError) res" where
  "cast_result expr_id (Ok x) = Ok x"
| "cast_result expr_id (Err e) = Err (CastFailed expr_id e)"
| "cast_result expr_id Panic = Panic"
| "cast_result expr_id OutOfFuel = OutOfFuel"

definition eval_cast ::
  "EvalCfg \<Rightarrow> ProtocolDescription \<Rightarrow> AstId \<Rightarrow> int \<Rightarrow> Frame \<Rightarrow> Store \<Rightarrow> EvalContext \<Rightarrow> (ExprOutcome, EvalError) res" where
  "eval_cast cfg pd expr_id unique_id fr st ctx =
     bind_res (frame_expr_data pd fr unique_id) (\<lambda>data.
     bind_res (pop_back fr) (\<lambda>(subject, fr1).
     bind_res (cast_result expr_id (apply_casting (cfg_max_fn cfg) (cfg_debug cfg) (cfg_fuel cfg) st (expr_type data) subject)) (\<lambda>(v, st1).
     bind_res (drop_value (cfg_fuel cfg) (get_heap_pos subject) st1) (\<lambda>st2.
     Ok (Advance (push_back v fr1) st2 ctx)))))"

definition eval_variable :: "ProtocolDescription \<Rightarrow> AstId option \<Rightarrow> bool \<Rightarrow> Frame \<Rightarrow> Store \<Rightarrow> EvalContext \<Rightarrow> (ExprOutcome, EvalError) res" where
  "eval_variable pd declaration used_as_binding_target fr st ctx =
     bind_res (unwrap declaration) (\<lambda>var_id.
     bind_res (arena_get (heap_variables (pd_heap pd)) var_id) (\<lambda>var.
     let pos = word_of_int (var_unique_id_in_scope var) in
     Ok (Advance (push_back (if used_as_binding_target then VBinding pos else VRef (Stack pos)) fr) st ctx)))"


section \<open>Calls\<close>

text \<open>
  A call that must wait puts its operands back and is evaluated again when the component
  runs the next time; \<open>get\<close> keeps the dereferenced port.
\<close>

definition eval_get :: "AstId \<Rightarrow> Frame \<Rightarrow> Store \<Rightarrow> EvalContext \<Rightarrow> (ExprOutcome, EvalError) res" where
  "eval_get expr_id fr st ctx =
     bind_res (pop_front fr) (\<lambda>(v, fr1).
     bind_res (maybe_read_ref st v) (\<lambda>port.
     bind_res (ctx_get ctx port st) (\<lambda>(received, ctx1, st1).
     case received of
       Some msg \<Rightarrow> Ok (Advance (push_back msg fr1) st1 ctx1)
     | None \<Rightarrow> Ok (Yield (EC_BlockGet port) (retry expr_id (push_front port fr1)) [] st1 ctx1))))"

definition eval_put :: "EvalCfg \<Rightarrow> AstId \<Rightarrow> Frame \<Rightarrow> Store \<Rightarrow> EvalContext \<Rightarrow> (ExprOutcome, EvalError) res" where
  "eval_put cfg expr_id fr st ctx =
     bind_res (pop_front fr) (\<lambda>(port_value, fr1).
     bind_res (maybe_read_ref st port_value) (\<lambda>deref_port_value.
     bind_res (pop_front fr1) (\<lambda>(msg_value, fr2).
     bind_res (maybe_read_ref st msg_value) (\<lambda>deref_msg_value.
     if as_message deref_msg_value = None then Err (PutNotMessage expr_id)
     else bind_res (ctx_did_put ctx deref_port_value) (\<lambda>did_put.
       if did_put then
         bind_res (drop_value (cfg_fuel cfg) (get_heap_pos msg_value) st) (\<lambda>st1. Ok (Advance fr2 st1 ctx))
       else
         Ok (Yield (EC_Put deref_port_value deref_msg_value)
               (retry expr_id (push_front port_value (push_front msg_value fr2))) [] st ctx))))))"

definition eval_fires :: "AstId \<Rightarrow> Frame \<Rightarrow> Store \<Rightarrow> EvalContext \<Rightarrow> (ExprOutcome, EvalError) res" where
  "eval_fires expr_id fr st ctx =
     bind_res (pop_front fr) (\<lambda>(port_value, fr1).
     bind_res (maybe_read_ref st port_value) (\<lambda>deref_port_value.
     bind_res (ctx_fires ctx deref_port_value) (\<lambda>fires.
     case fires of
       None \<Rightarrow> Ok (Yield (EC_BlockFires deref_port_value) (retry expr_id (push_front port_value fr1)) [] st ctx)
     | Some v \<Rightarrow> Ok (Advance (push_back v fr1) st ctx))))"

definition eval_create :: "EvalCfg \<Rightarrow> AstId \<Rightarrow> Frame \<Rightarrow> Store \<Rightarrow> EvalContext \<Rightarrow> (ExprOutcome, EvalError) res" where
  "eval_create cfg expr_id fr st ctx =
     bind_res (pop_front fr) (\<lambda>(v, fr1).
     bind_res (maybe_read_ref st v) (\<lambda>length_value.
     bind_res (if is_signed_integer length_value then
         bind_res (unwrap (as_signed_integer length_value)) (\<lambda>n.
         if n <s 0 then Err (NegativeLength expr_id (sint n)) else Ok n)
       else
         bind_res (debug_assert cfg (is_unsigned_integer length_value)) (\<lambda>_. unwrap (as_unsigned_integer length_value))) (\<lambda>len.
     let (pos, st1) = alloc_heap st in
     bind_res (region st1 pos) (\<lambda>vs.
     bind_res (debug_assert cfg (vs = [])) (\<lambda>_.
     let n = unat len in
     Ok (Advance (push_back (VMessage pos) fr1) (set_region pos (take n vs @ replicate (n - length vs) (VUInt8 0)) st1) ctx))))))"

definition eval_length :: "EvalCfg \<Rightarrow> Frame \<Rightarrow> Store \<Rightarrow> EvalContext \<Rightarrow> (ExprOutcome, EvalError) res" where
  "eval_length cfg fr st ctx =
     bind_res (pop_front fr) (\<lambda>(v, fr1).
     bind_res (maybe_read_ref st v) (\<lambda>subject.
     bind_res (case subject of VArray pos \<Rightarrow> Ok pos | VString pos \<Rightarrow> Ok pos | _ \<Rightarrow> Panic) (\<lambda>pos.
     bind_res (region st pos) (\<lambda>vs.
     bind_res (drop_value (cfg_fuel cfg) (get_heap_pos v) st) (\<lambda>st1.
     Ok (Advance (push_back (VUInt32 (of_nat (length vs))) fr1) st1 ctx))))))"

definition eval_assert :: "Frame \<Rightarrow> Store \<Rightarrow> EvalContext \<Rightarrow> (ExprOutcome, EvalError) res" where
  "eval_assert fr st ctx =
     bind_res (pop_front fr) (\<lambda>(v, fr1).
     bind_res (maybe_read_ref st v) (\<lambda>w.
     bind_res (unwrap (as_bool w)) (\<lambda>b.
     if b then Ok (Advance fr1 st ctx) else Ok (Yield EC_Inconsistent fr1 [] st ctx))))"

text \<open>The call in a \<open>new\<close> statement is left to the statement; a debug build checks that it is one.\<close>

definition eval_user_component ::
  "EvalCfg \<Rightarrow> ProtoHeap \<Rightarrow> AstId \<Rightarrow> AstId \<Rightarrow> Frame \<Rightarrow> Store \<Rightarrow> EvalContext \<Rightarrow> (ExprOutcome, EvalError) res" where
  "eval_user_component cfg h expr_id definition_id fr st ctx =
     bind_res (if cfg_debug cfg then
         bind_res (arena_get (heap_definitions h) definition_id) (\<lambda>def.
         bind_res (unwrap (parameters def)) (\<lambda>ps.
         bind_res (rassert (length ps = length (expr_values fr))) (\<lambda>_.
         bind_res (arena_get (heap_statements h) (fr_position fr)) (\<lambda>stmt.
         case stmt of St_New call_id _ \<Rightarrow> rassert (call_id = expr_id) | _ \<Rightarrow> Panic))))
       else Ok ()) (\<lambda>_. Ok (Advance fr st ctx))"

text \<open>
  A call of a function pushes the boundary of the caller's part of the stack and the
  arguments, which the callee owns, and a frame whose local variables are reserved.
\<close>

fun push_arguments :: "nat \<Rightarrow> nat \<Rightarrow> Frame \<Rightarrow> Store \<Rightarrow> (Frame \<times> Store, 'e) res" where
  "push_arguments fuel 0 fr st = Ok (fr, st)"
| "push_arguments fuel (Suc n) fr st =
     bind_res (pop_front fr) (\<lambda>(v, fr1).
     bind_res (read_take_ownership fuel v st) (\<lambda>(w, st1).
     push_arguments fuel n fr1 (st1\<lparr>stack := stack st1 @ [w]\<rparr>)))"

definition eval_user_function ::
  "EvalCfg \<Rightarrow> ProtocolDescription \<Rightarrow> nat \<Rightarrow> AstId \<Rightarrow> int \<Rightarrow> Frame \<Rightarrow> Store \<Rightarrow> EvalContext \<Rightarrow> (ExprOutcome, EvalError) res" where
  "eval_user_function cfg pd num_args definition_id unique_id fr st ctx =
     (let new_stack_boundary = length (stack st) in
      bind_res (push_arguments (cfg_fuel cfg) num_args fr
        (st\<lparr>stack := stack st @ [VPrevStackBoundary (int (cur_stack_boundary st))]\<rparr>)) (\<lambda>(fr1, st1).
      bind_res (frame_expr_data pd fr1 unique_id) (\<lambda>call_data.
      bind_res (Frame_new cfg (pd_heap pd) definition_id (field_or_monomorph_idx call_data)) (\<lambda>new_frame.
      Ok (Yield EC_Stepping fr1 [new_frame]
            (reserve_stack (max_stack_size new_frame) (st1\<lparr>cur_stack_boundary := new_stack_boundary\<rparr>)) ctx)))))"

definition eval_call ::
  "EvalCfg \<Rightarrow> ProtocolDescription \<Rightarrow> AstId \<Rightarrow> Method \<Rightarrow> AstId list \<Rightarrow> AstId \<Rightarrow> int \<Rightarrow> Frame \<Rightarrow> Store \<Rightarrow> EvalContext \<Rightarrow>
   (ExprOutcome, EvalError) res" where
  "eval_call cfg pd expr_id m arguments definition_id unique_id fr st ctx =
     (case m of
        M_Get \<Rightarrow> eval_get expr_id fr st ctx
      | M_Put \<Rightarrow> eval_put cfg expr_id fr st ctx
      | M_Fires \<Rightarrow> eval_fires expr_id fr st ctx
      | M_Create \<Rightarrow> eval_create cfg expr_id fr st ctx
      | M_Length \<Rightarrow> eval_length cfg fr st ctx
      | M_Assert \<Rightarrow> eval_assert fr st ctx
      | M_UserComponent \<Rightarrow> eval_user_component cfg (pd_heap pd) expr_id definition_id fr st ctx
      | M_UserFunction \<Rightarrow> eval_user_function cfg pd (length arguments) definition_id unique_id fr st ctx)"

definition eval_expr :: "EvalCfg \<Rightarrow> ProtocolDescription \<Rightarrow> AstId \<Rightarrow> Frame \<Rightarrow> Store \<Rightarrow> EvalContext \<Rightarrow> (ExprOutcome, EvalError) res" where
  "eval_expr cfg pd expr_id fr st ctx =
     bind_res (arena_get (heap_expressions (pd_heap pd)) expr_id) (\<lambda>e.
     case e of
        Ex_Assignment _ op _ \<Rightarrow> eval_assignment cfg op fr st ctx
      | Ex_Binding _ _ \<Rightarrow> eval_binding cfg fr st ctx
      | Ex_Conditional _ true_expression false_expression \<Rightarrow>
          eval_conditional cfg (pd_heap pd) true_expression false_expression fr st ctx
      | Ex_Binary _ op _ \<Rightarrow> eval_binary cfg op fr st ctx
      | Ex_Unary op _ \<Rightarrow> eval_unary cfg op fr st ctx
      | Ex_Indexing _ _ \<Rightarrow> eval_indexing cfg expr_id fr st ctx
      | Ex_Slicing _ from_index to_index \<Rightarrow> eval_slicing cfg from_index to_index fr st ctx
      | Ex_Select _ unique_id \<Rightarrow> eval_select cfg pd unique_id fr st ctx
      | Ex_Literal lit unique_id \<Rightarrow> eval_literal cfg pd lit unique_id fr st ctx
      | Ex_Cast _ unique_id \<Rightarrow> eval_cast cfg pd expr_id unique_id fr st ctx
      | Ex_Call m arguments definition_id unique_id \<Rightarrow> eval_call cfg pd expr_id m arguments definition_id unique_id fr st ctx
      | Ex_Variable declaration used_as_binding_target \<Rightarrow> eval_variable pd declaration used_as_binding_target fr st ctx)"

definition exec_instruction ::
  "EvalCfg \<Rightarrow> ProtocolDescription \<Rightarrow> ExprInstruction \<Rightarrow> Frame \<Rightarrow> Store \<Rightarrow> EvalContext \<Rightarrow> (ExprOutcome, EvalError) res" where
  "exec_instruction cfg pd i fr st ctx =
     (case i of
        PushValToFront \<Rightarrow> bind_res (push_val_to_front fr) (\<lambda>fr'. Ok (Advance fr' st ctx))
      | EvalExpr expr_id \<Rightarrow> eval_expr cfg pd expr_id fr st ctx)"

text \<open>All pending instructions, from the back of the deque.\<close>

fun run_exprs :: "nat \<Rightarrow> EvalCfg \<Rightarrow> ProtocolDescription \<Rightarrow> Frame \<Rightarrow> Store \<Rightarrow> EvalContext \<Rightarrow> (ExprOutcome, EvalError) res" where
  "run_exprs 0 cfg pd fr st ctx = (if expr_stack fr = [] then Ok (Advance fr st ctx) else OutOfFuel)"
| "run_exprs (Suc fuel) cfg pd fr st ctx =
     (if expr_stack fr = [] then Ok (Advance fr st ctx)
      else bind_res (exec_instruction cfg pd (last (expr_stack fr)) (fr\<lparr>expr_stack := butlast (expr_stack fr)\<rparr>) st ctx)
        (\<lambda>r. case r of
           Advance fr' st' ctx' \<Rightarrow> run_exprs fuel cfg pd fr' st' ctx'
         | Yield cont fr' pushed st' ctx' \<Rightarrow> Ok (Yield cont fr' pushed st' ctx')))"

end
