(* ===== verification/Executor_Step.thy ===== *)
theory Executor_Step
  imports Executor
begin

text \<open>
  Statements and \<open>Prompt::step\<close> (\<open>src/protocol/eval/executor.rs\<close>). The last frame of a
  prompt is the one that runs. After a statement the expressions of the next statement are
  serialized, so the next step evaluates them first.
\<close>

section \<open>Statements\<close>

text \<open>
  The position that follows and the continuation, for the statements that stay in their
  frame. A scope id that the linker has not filled in is negative; clearing the stack from
  there is a panic.
\<close>

definition go :: "AstId \<Rightarrow> Frame \<Rightarrow> Store \<Rightarrow> EvalContext \<Rightarrow> (EvalContinuation \<times> Frame \<times> Store \<times> EvalContext, 'e) res" where
  "go pos fr st ctx = Ok (EC_Stepping, fr\<lparr>fr_position := pos\<rparr>, st, ctx)"

definition pop_test :: "EvalCfg \<Rightarrow> Frame \<Rightarrow> Store \<Rightarrow> (bool \<times> Frame, 'e) res" where
  "pop_test cfg fr st =
     bind_res (debug_assert cfg (length (expr_values fr) = 1)) (\<lambda>_.
     bind_res (pop_back fr) (\<lambda>(v, fr1).
     bind_res (maybe_read_ref st v) (\<lambda>w.
     bind_res (unwrap (as_bool w)) (\<lambda>b. Ok (b, fr1)))))"

definition local_address :: "ProtoHeap \<Rightarrow> AstId \<Rightarrow> (ValueId, 'e) res" where
  "local_address h var_id =
     bind_res (arena_get (heap_variables h) var_id) (\<lambda>var. Ok (Stack (word_of_int (var_unique_id_in_scope var))))"

fun drop_all :: "nat \<Rightarrow> Value list \<Rightarrow> Store \<Rightarrow> (Store, 'e) res" where
  "drop_all fuel [] st = Ok st"
| "drop_all fuel (v # vs) st = bind_res (drop_value fuel (get_heap_pos v) st) (drop_all fuel vs)"

definition exec_new ::
  "EvalCfg \<Rightarrow> ProtocolDescription \<Rightarrow> AstId \<Rightarrow> AstId \<Rightarrow> Frame \<Rightarrow> Store \<Rightarrow> EvalContext \<Rightarrow>
   (EvalContinuation \<times> Frame \<times> Store \<times> EvalContext, 'e) res" where
  "exec_new cfg pd call_id next_stmt fr st ctx =
     bind_res (call_at (pd_heap pd) call_id) (\<lambda>(m, arguments, definition_id, unique_id).
     bind_res (if cfg_debug cfg then
         bind_res (arena_get (heap_definitions (pd_heap pd)) definition_id) (\<lambda>def.
         bind_res (rassert (is_component def)) (\<lambda>_.
         bind_res (unwrap (parameters def)) (\<lambda>ps. rassert (length (expr_values fr) = length ps))))
       else Ok ()) (\<lambda>_.
     bind_res (frame_expr_data pd fr unique_id) (\<lambda>data.
     bind_res (group_from_store (cfg_fuel cfg) st (expr_values fr)) (\<lambda>argument_group.
     bind_res (drop_all (cfg_fuel cfg) (expr_values fr) st) (\<lambda>st1.
     Ok (EC_NewComponent definition_id (field_or_monomorph_idx data) argument_group,
         fr\<lparr>expr_values := [], fr_position := next_stmt\<rparr>, st1, ctx))))))"

definition exec_statement ::
  "EvalCfg \<Rightarrow> ProtocolDescription \<Rightarrow> Statement \<Rightarrow> Frame \<Rightarrow> Store \<Rightarrow> EvalContext \<Rightarrow>
   (EvalContinuation \<times> Frame \<times> Store \<times> EvalContext, 'e) res" where
  "exec_statement cfg pd stmt fr st ctx =
     (let h = pd_heap pd in
      case stmt of
        St_Block block \<Rightarrow>
          bind_res (debug_assert cfg (bs_statements block = [] \<or> bs_next block = hd (bs_statements block))) (\<lambda>_.
          go (bs_next block) fr st ctx)
      | St_EndBlock start_block next_stmt \<Rightarrow>
          bind_res (block_at h start_block) (\<lambda>block.
          if bs_first_unique_id_in_scope block < 0 then Panic
          else bind_res (clear_stack (cfg_fuel cfg) (nat (bs_first_unique_id_in_scope block)) st) (\<lambda>st1.
          go next_stmt fr st1 ctx))
      | St_Memory var_id next_stmt \<Rightarrow>
          bind_res (local_address h var_id) (\<lambda>address.
          bind_res (store_write (cfg_fuel cfg) address VUnassigned st) (\<lambda>st1.
          go next_stmt fr st1 ctx))
      | St_Channel from to next_stmt \<Rightarrow>
          bind_res (ctx_new_channel ctx) (\<lambda>(from_value, to_value, ctx1).
          bind_res (local_address h from) (\<lambda>from_address.
          bind_res (store_write (cfg_fuel cfg) from_address from_value st) (\<lambda>st1.
          bind_res (local_address h to) (\<lambda>to_address.
          bind_res (store_write (cfg_fuel cfg) to_address to_value st1) (\<lambda>st2.
          go next_stmt fr st2 ctx1)))))
      | St_Labeled body \<Rightarrow> go body fr st ctx
      | St_If test true_body false_body end_if \<Rightarrow>
          bind_res (pop_test cfg fr st) (\<lambda>(b, fr1).
          go (if b then true_body else case false_body of Some false_stmt \<Rightarrow> false_stmt | None \<Rightarrow> end_if) fr1 st ctx)
      | St_EndIf next_stmt \<Rightarrow> go next_stmt fr st ctx
      | St_While test body end_while \<Rightarrow>
          bind_res (pop_test cfg fr st) (\<lambda>(b, fr1). go (if b then body else end_while) fr1 st ctx)
      | St_EndWhile next_stmt \<Rightarrow> go next_stmt fr st ctx
      | St_Break target \<Rightarrow> bind_res (unwrap target) (\<lambda>t. go t fr st ctx)
      | St_Continue target \<Rightarrow> bind_res (unwrap target) (\<lambda>t. go t fr st ctx)
      | St_Synchronous body \<Rightarrow> Ok (EC_SyncBlockStart, fr\<lparr>fr_position := body\<rparr>, st, ctx)
      | St_EndSynchronous next_stmt \<Rightarrow> Ok (EC_SyncBlockEnd, fr\<lparr>fr_position := next_stmt\<rparr>, st, ctx)
      | St_Return _ \<Rightarrow> Panic
      | St_Goto target \<Rightarrow> bind_res (unwrap target) (\<lambda>t. go t fr st ctx)
      | St_New call_id next_stmt \<Rightarrow> exec_new cfg pd call_id next_stmt fr st ctx
      | St_Expression _ next_stmt \<Rightarrow> go next_stmt fr st ctx)"

text \<open>
  A return copies what it returns if it is a reference, since its target may lie on the part
  of the stack that is removed, and restores the boundary of the caller. When the last
  frame returns, the value is left on the empty stack.
\<close>

definition as_stack_boundary :: "Value \<Rightarrow> int option" where
  "as_stack_boundary v = (case v of VPrevStackBoundary b \<Rightarrow> Some b | _ \<Rightarrow> None)"

text \<open>\<open>as usize\<close> for a number of 64 bits with a sign.\<close>

definition boundary_of :: "int \<Rightarrow> nat" where
  "boundary_of i = nat (if i < 0 then i + 2 ^ 64 else i)"

definition exec_return ::
  "EvalCfg \<Rightarrow> ProtocolDescription \<Rightarrow> Frame \<Rightarrow> Frame list \<Rightarrow> Store \<Rightarrow> (EvalContinuation \<times> Frame list \<times> Store, 'e) res" where
  "exec_return cfg pd fr callers st =
     bind_res (if cfg_debug cfg then
         bind_res (arena_get (heap_definitions (pd_heap pd)) (fr_definition fr)) (\<lambda>def. rassert (is_function def))
       else Ok ()) (\<lambda>_.
     bind_res (debug_assert cfg (length (expr_values fr) = 1)) (\<lambda>_.
     bind_res (pop_back fr) (\<lambda>(v, fr1).
     bind_res (case v of VRef address \<Rightarrow> read_copy (cfg_fuel cfg) address st | _ \<Rightarrow> Ok (v, st)) (\<lambda>(return_value, st1).
     bind_res (clear_stack (cfg_fuel cfg) 0 st1) (\<lambda>st2.
     let kept = take (cur_stack_boundary st2 + 1) (stack st2) in
     bind_res (if kept = [] then Panic else unwrap (as_stack_boundary (last kept))) (\<lambda>prev_stack_idx.
     if callers = [] then
       bind_res (debug_assert cfg (prev_stack_idx = - 1)) (\<lambda>_.
       bind_res (debug_assert cfg (butlast kept = [])) (\<lambda>_.
       Ok (EC_Terminal, [], st2\<lparr>stack := butlast kept @ [return_value]\<rparr>)))
     else
       bind_res (debug_assert cfg (0 \<le> prev_stack_idx)) (\<lambda>_.
       Ok (EC_Stepping, butlast callers @ [push_back return_value (last callers)],
           st2\<lparr>stack := butlast kept, cur_stack_boundary := boundary_of prev_stack_idx\<rparr>))))))))"

section \<open>A step\<close>

definition prepare_next :: "EvalCfg \<Rightarrow> ProtocolDescription \<Rightarrow> Frame \<Rightarrow> (Frame, 'e) res" where
  "prepare_next cfg pd fr =
     (let h = pd_heap pd in
      if id_is_invalid (fr_position fr) then Ok fr
      else bind_res (arena_get (heap_statements h) (fr_position fr)) (\<lambda>stmt.
        case stmt of
          St_If test _ _ _ \<Rightarrow> prepare_single_expression cfg h test fr
        | St_While test _ _ \<Rightarrow> prepare_single_expression cfg h test fr
        | St_Return expressions \<Rightarrow>
            bind_res (debug_assert cfg (length expressions = 1)) (\<lambda>_.
            bind_res (vec_get expressions 0) (\<lambda>e. prepare_single_expression cfg h e fr))
        | St_New call_id _ \<Rightarrow>
            bind_res (call_at h call_id) (\<lambda>(_, arguments, _, _). prepare_multiple_expressions cfg h arguments fr)
        | St_Expression e _ \<Rightarrow> prepare_single_expression cfg h e fr
        | _ \<Rightarrow> Ok fr))"

definition exec_position ::
  "EvalCfg \<Rightarrow> ProtocolDescription \<Rightarrow> Frame \<Rightarrow> Frame list \<Rightarrow> Store \<Rightarrow> EvalContext \<Rightarrow>
   (EvalContinuation \<times> Prompt \<times> EvalContext, 'e) res" where
  "exec_position cfg pd fr callers st ctx =
     bind_res (arena_get (heap_statements (pd_heap pd)) (fr_position fr)) (\<lambda>stmt.
     case stmt of
       St_Return _ \<Rightarrow>
         bind_res (exec_return cfg pd fr callers st) (\<lambda>(cont, frs, st'). Ok (cont, \<lparr>frames = frs, prompt_store = st'\<rparr>, ctx))
     | _ \<Rightarrow>
         bind_res (exec_statement cfg pd stmt fr st ctx) (\<lambda>(cont, fr1, st', ctx').
         bind_res (rassert (expr_values fr1 = [])) (\<lambda>_.
         bind_res (prepare_next cfg pd fr1) (\<lambda>fr2.
         Ok (cont, \<lparr>frames = callers @ [fr2], prompt_store = st'\<rparr>, ctx')))))"

definition step :: "EvalCfg \<Rightarrow> ProtocolDescription \<Rightarrow> Prompt \<Rightarrow> EvalContext \<Rightarrow> (EvalContinuation \<times> Prompt \<times> EvalContext, EvalError) res" where
  "step cfg pd p ctx =
     (if frames p = [] then Panic
      else let cur_frame = last (frames p); callers = butlast (frames p) in
      if id_is_invalid (fr_position cur_frame) then
        bind_res (arena_get (heap_definitions (pd_heap pd)) (fr_definition cur_frame)) (\<lambda>def.
        if is_function def then Panic else Ok (EC_Terminal, p, ctx))
      else
        bind_res (run_exprs (cfg_fuel cfg) cfg pd cur_frame (prompt_store p) ctx) (\<lambda>r.
        case r of
          Yield cont fr pushed st ctx' \<Rightarrow> Ok (cont, \<lparr>frames = callers @ [fr] @ pushed, prompt_store = st\<rparr>, ctx')
        | Advance fr st ctx' \<Rightarrow> exec_position cfg pd fr callers st ctx'))"

text \<open>The monomorph is looked up in a debug build only.\<close>

definition Prompt_new :: "EvalCfg \<Rightarrow> ProtocolDescription \<Rightarrow> AstId \<Rightarrow> int \<Rightarrow> ValueGroup \<Rightarrow> (Prompt, 'e) res" where
  "Prompt_new cfg pd definition_id monomorph_idx args =
     bind_res (if cfg_debug cfg then
         bind_res (unwrap (hm_get (pd_types pd) definition_id)) (\<lambda>monomorphs.
         rassert (0 \<le> monomorph_idx \<and> nat monomorph_idx < length monomorphs))
       else Ok ()) (\<lambda>_.
     bind_res (Frame_new cfg (pd_heap pd) definition_id monomorph_idx) (\<lambda>new_frame.
     bind_res (group_into_store (cfg_fuel cfg) args Store_new) (\<lambda>st.
     Ok \<lparr>frames = [new_frame], prompt_store = reserve_stack (max_stack_size new_frame) st\<rparr>)))"

end
