(* ===== verification/Executor_Frames.thy ===== *)
theory Executor_Frames
  imports Executor_Step
begin

text \<open>
  Two invariants of the evaluator. It changes the runtime through the callbacks of its
  context only, and the boundaries in the stack always form a chain with one link for each
  frame, so that every return finds the boundary of its caller.
\<close>

section \<open>What a result satisfies when there is one\<close>

named_theorems returns_rules \<open>one rule for each construct of the evaluator's code\<close>

definition returns :: "('a \<Rightarrow> bool) \<Rightarrow> ('a, 'e) res \<Rightarrow> bool" where
  "returns P m \<longleftrightarrow> (\<forall>x. m = Ok x \<longrightarrow> P x)"

lemma returnsD: "returns P m \<Longrightarrow> m = Ok x \<Longrightarrow> P x"
  by (simp add: returns_def)

lemma returns_bind [returns_rules]: "(\<And>x. m = Ok x \<Longrightarrow> returns P (f x)) \<Longrightarrow> returns P (bind_res m f)"
  by (auto simp: returns_def outcome_simps)

lemma returns_stop [returns_rules]: "returns P Panic" "returns P (Err e)" "returns P OutOfFuel"
  by (simp_all add: returns_def)

lemma returns_Ok [returns_rules]: "P x \<Longrightarrow> returns P (Ok x)"
  by (simp add: returns_def)

lemma returns_if [returns_rules]: "(b \<Longrightarrow> returns P m) \<Longrightarrow> (\<not> b \<Longrightarrow> returns P m') \<Longrightarrow> returns P (if b then m else m')"
  by simp

lemma returns_prod [returns_rules]: "(\<And>x y. p = (x, y) \<Longrightarrow> returns P (f x y)) \<Longrightarrow> returns P (case p of (x, y) \<Rightarrow> f x y)"
  by (cases p) simp

lemma returns_option [returns_rules]:
  "(v = None \<Longrightarrow> returns P m) \<Longrightarrow> (\<And>x. v = Some x \<Longrightarrow> returns P (f x)) \<Longrightarrow> returns P (case v of None \<Rightarrow> m | Some x \<Rightarrow> f x)"
  by (cases v) simp_all

lemma returns_ref [returns_rules]:
  "(\<And>a. v = VRef a \<Longrightarrow> returns P (f a)) \<Longrightarrow> returns P m \<Longrightarrow> returns P (case v of VRef a \<Rightarrow> f a | _ \<Rightarrow> m)"
  by (cases v) simp_all

lemma returns_let [returns_rules]: "returns P (f x) \<Longrightarrow> returns P (let y = x in f y)"
  by simp

section \<open>The context\<close>

definition sync_grows :: "SyncProtoContext \<Rightarrow> SyncProtoContext \<Rightarrow> bool" where
  "sync_grows c c' \<longleftrightarrow>
     set (did_put_or_get (spc_branch_inner c)) \<subseteq> set (did_put_or_get (spc_branch_inner c')) \<and>
     inbox (spc_branch_inner c') = inbox (spc_branch_inner c)"

fun ctx_grows :: "EvalContext \<Rightarrow> EvalContext \<Rightarrow> bool" where
  "ctx_grows (CtxNonsync c) (CtxNonsync c') \<longleftrightarrow> nonsync_callbacks c c'"
| "ctx_grows (CtxSync c) (CtxSync c') \<longleftrightarrow> sync_grows c c'"
| "ctx_grows CtxNone CtxNone \<longleftrightarrow> True"
| "ctx_grows _ _ \<longleftrightarrow> False"

lemma nonsync_callbacks_trans:
  assumes "nonsync_callbacks a b" "nonsync_callbacks b c"
  shows "nonsync_callbacks a c"
  using assms(2,1) by (induction rule: nonsync_callbacks.induct) (blast intro: nonsync_callbacks.intros)+

lemma ctx_grows_refl [simp, intro]: "ctx_grows ctx ctx"
  by (cases ctx) (auto simp: sync_grows_def intro: nonsync_callbacks.none)

lemma ctx_grows_trans: "ctx_grows a b \<Longrightarrow> ctx_grows b c \<Longrightarrow> ctx_grows a c"
  by (cases a; cases b; cases c) (auto simp: sync_grows_def intro: nonsync_callbacks_trans)

lemma ctx_new_channel_grows: "ctx_new_channel ctx = Ok (a, b, ctx') \<Longrightarrow> ctx_grows ctx ctx'"
  by (cases ctx) (auto simp: ctx_new_channel_def outcome_simps intro: nonsync_callbacks.port_pair [OF nonsync_callbacks.none])

lemma ctx_new_component_grows: "ctx_new_component ctx moved p = Ok ctx' \<Longrightarrow> ctx_grows ctx ctx'"
  by (cases ctx) (auto simp: ctx_new_component_def outcome_simps intro: nonsync_callbacks.component [OF nonsync_callbacks.none])

lemma ctx_get_grows: "returns (\<lambda>(v, ctx', st'). ctx_grows ctx ctx') (ctx_get ctx port st)"
proof (cases ctx)
  case (CtxSync c)
  have "sync_grows c c'" if "sync_read_msg c p = (m, c')" for p m c'
    using sync_read_msg_grows [of c p] that unfolding sync_grows_def by simp
  then show ?thesis unfolding CtxSync
    by (simp add: ctx_get_def) (intro returns_rules; simp)
qed (simp_all add: ctx_get_def returns_stop)

fun outcome_ctx :: "ExprOutcome \<Rightarrow> EvalContext" where
  "outcome_ctx (Advance fr st ctx) = ctx"
| "outcome_ctx (Yield cont fr pushed st ctx) = ctx"

section \<open>The stack\<close>

definition frame_view :: "Store \<Rightarrow> Value list \<times> nat" where
  "frame_view st = (stack st, cur_stack_boundary st)"

named_theorems view_rules \<open>operations that leave the stack and its boundary alone\<close>

lemma view_drop_heap:
  "drop_heap_pos fuel pos st = (Ok st' :: (Store, 'e) res) \<Longrightarrow> frame_view st' = frame_view st"
  "drop_values fuel pos idxs st = (Ok st' :: (Store, 'e) res) \<Longrightarrow> frame_view st' = frame_view st"
proof (induction fuel pos st and fuel pos idxs st arbitrary: st' and st' rule: drop_heap_pos_drop_values.induct [where 'e = 'e])
  case (2 fuel heap_pos st)
  from 2(2) obtain vs st1 where r: "region st heap_pos = (Ok vs :: (Value list, 'e) res)"
    and d: "drop_values fuel heap_pos [0 ..< length vs] st = (Ok st1 :: (Store, 'e) res)"
    and st': "st' = (set_region heap_pos [] st1)\<lparr>free_regions := free_regions st1 @ [heap_pos]\<rparr>"
    by (simp add: outcome_simps) blast
  from 2(1) [OF r d] show ?case by (simp add: st' frame_view_def set_region_def)
next
  case (4 fuel heap_pos value_idx idxs st)
  from 4(3) obtain vs v st1 where r: "region st heap_pos = (Ok vs :: (Value list, 'e) res)" "vec_get vs value_idx = (Ok v :: (Value, 'e) res)"
    and d: "(case get_heap_pos v of Some p \<Rightarrow> (case fuel of 0 \<Rightarrow> OutOfFuel | Suc f \<Rightarrow> drop_heap_pos f p st) | None \<Rightarrow> Ok st) = (Ok st1 :: (Store, 'e) res)"
    and rest: "drop_values fuel heap_pos idxs st1 = (Ok st' :: (Store, 'e) res)"
    by (auto simp: outcome_simps)
  have "frame_view st1 = frame_view st"
    using d 4(1) [OF r] by (auto split: option.splits nat.splits)
  with 4(2) [OF r d rest] show ?case by simp
qed auto

lemma view_drop_value [view_rules]: "drop_value fuel p st = Ok st' \<Longrightarrow> frame_view st' = frame_view st"
  by (auto simp: drop_value_def view_drop_heap split: option.splits)

lemma view_set_region [simp]: "frame_view (set_region pos vs st) = frame_view st"
  by (simp add: frame_view_def set_region_def)

lemma view_alloc [view_rules]: "alloc_heap st = (pos, st') \<Longrightarrow> frame_view st' = frame_view st"
  by (auto simp: alloc_heap_def frame_view_def split: list.splits)

lemma view_clone:
  "clone_value fuel v st = (Ok (w, st') :: (Value \<times> Store, 'e) res) \<Longrightarrow> frame_view st' = frame_view st"
  "clone_values fuel src tgt idxs st = (Ok st' :: (Store, 'e) res) \<Longrightarrow> frame_view st' = frame_view st"
proof (induction fuel v st and fuel src tgt idxs st arbitrary: w st' and st' rule: clone_value_clone_values.induct [where 'e = 'e])
  case (2 fuel v st)
  show ?case
  proof (cases "get_heap_pos v")
    case None
    with 2 show ?thesis by (cases v) (auto simp: outcome_simps)
  next
    case (Some pos)
    with 2 show ?thesis by (auto simp: outcome_simps Let_def dest: view_alloc split: prod.splits)
  qed
next
  case (4 fuel src tgt value_idx idxs st)
  from 4(3) obtain vs v w st1 ws where r: "region st src = (Ok vs :: (Value list, 'e) res)" "vec_get vs value_idx = (Ok v :: (Value, 'e) res)"
    and d: "(case fuel of 0 \<Rightarrow> OutOfFuel | Suc f \<Rightarrow> clone_value f v st) = (Ok (w, st1) :: (Value \<times> Store, 'e) res)"
    and t: "region st1 tgt = (Ok ws :: (Value list, 'e) res)"
    and rest: "clone_values fuel src tgt idxs (set_region tgt (ws @ [w]) st1) = (Ok st' :: (Store, 'e) res)"
    by (auto simp: outcome_simps)
  have "frame_view st1 = frame_view st"
    using d 4(1) [OF r] by (auto split: nat.splits)
  with 4(2) [OF r d refl t rest] show ?case by (simp add: frame_view_def set_region_def)
qed auto

lemmas [view_rules] = view_clone(1)


lemma view_take_ownership [view_rules]: "read_take_ownership fuel v st = Ok (w, st') \<Longrightarrow> frame_view st' = frame_view st"
  by (cases v) (auto simp: read_take_ownership_def outcome_simps dest: view_rules)

lemma view_read_copy [view_rules]: "read_copy fuel address st = Ok (w, st') \<Longrightarrow> frame_view st' = frame_view st"
  by (auto simp: read_copy_def outcome_simps dest: view_rules)

lemma view_own_front [view_rules]: "own_front fuel n vs st = Ok (ws, rest, st') \<Longrightarrow> frame_view st' = frame_view st"
proof (induction n arbitrary: vs st ws rest)
  case (Suc n)
  then show ?case by (cases vs) (fastforce simp: outcome_simps dest: view_rules)+
qed simp

lemma view_transfer [view_rules]:
  "transfer_expression_values_front_into_heap cfg n fr st = Ok (pos, fr', st') \<Longrightarrow> frame_view st' = frame_view st"
  by (auto simp: transfer_expression_values_front_into_heap_def outcome_simps dest!: view_rules split: prod.splits)

lemma view_clone_elements [view_rules]: "clone_elements fuel src idxs whole st = Ok (whole', st') \<Longrightarrow> frame_view st' = frame_view st"
  by (induction idxs arbitrary: whole st) (fastforce simp: outcome_simps dest: view_rules)+

lemma view_concatenate: "apply_concatenate fuel st l r = Ok (v, st') \<Longrightarrow> frame_view st' = frame_view st"
  by (auto simp: apply_concatenate_def outcome_simps Let_def dest!: view_rules split: prod.splits)

lemma view_binary [view_rules]: "apply_binary_operator debug fuel st l op r = Ok (v, st') \<Longrightarrow> frame_view st' = frame_view st"
  by (auto simp: apply_binary_operator_def outcome_simps dest: view_concatenate split: if_splits)

lemma cast_result_Ok [outcome_simps]: "cast_result e m = Ok x \<longleftrightarrow> m = Ok x"
  by (cases m) auto

lemma view_cast [view_rules]: "apply_casting max_fn debug fuel st ty v = Ok (w, st') \<Longrightarrow> frame_view st' = frame_view st"
  by (auto simp: apply_casting_def outcome_simps dest: view_rules split: if_splits)

lemma view_ctx_get [view_rules]:
  assumes "ctx_get ctx port st = Ok (v, ctx', st')"
  shows "frame_view st' = frame_view st"
proof -
  have "returns (\<lambda>(v, ctx', st'). frame_view st' = frame_view st) (ctx_get ctx port st)"
    unfolding ctx_get_def by (cases ctx; simp; (intro returns_rules)?; auto dest: view_rules simp: Let_def returns_rules)
  from returnsD [OF this assms] show ?thesis by simp
qed

lemma view_drop_all [view_rules]: "drop_all fuel vs st = Ok st' \<Longrightarrow> frame_view st' = frame_view st"
  by (induction vs arbitrary: st) (fastforce simp: outcome_simps dest: view_rules)+

section \<open>Writing above the boundary\<close>

definition stack_kept :: "Store \<Rightarrow> Store \<Rightarrow> bool" where
  "stack_kept st st' \<longleftrightarrow> cur_stack_boundary st' = cur_stack_boundary st \<and> length (stack st') = length (stack st) \<and>
     take (Suc (cur_stack_boundary st)) (stack st') = take (Suc (cur_stack_boundary st)) (stack st)"

lemma stack_kept_view: "frame_view st' = frame_view st \<Longrightarrow> stack_kept st st'"
  by (simp add: frame_view_def stack_kept_def)

lemma stack_kept_cong: "frame_view a = frame_view a' \<Longrightarrow> frame_view b = frame_view b' \<Longrightarrow> stack_kept a b \<longleftrightarrow> stack_kept a' b'"
  by (simp add: frame_view_def stack_kept_def)

lemma stack_kept_trans: "stack_kept a b \<Longrightarrow> stack_kept b c \<Longrightarrow> stack_kept a c"
  by (auto simp: stack_kept_def)

lemma stack_kept_set_ref: "stack_kept st (set_ref address v st)"
  by (cases address) (auto simp: stack_kept_def set_ref_def set_region_def)

lemma stack_kept_write: "store_write fuel address v st = Ok st' \<Longrightarrow> stack_kept st st'"
  by (auto simp: store_write_def outcome_simps dest!: view_rules stack_kept_view
      intro: stack_kept_trans [OF _ stack_kept_set_ref])

lemma view_concatenated: "assign_concatenated fuel l r st = Ok (st', p) \<Longrightarrow> frame_view st' = frame_view st"
  by (auto simp: assign_concatenated_def outcome_simps Let_def dest!: view_rules)

lemma stack_kept_assignment:
  "returns (stack_kept st) (apply_assignment_operator debug fuel st address op v)"
proof -
  have d: "returns (stack_kept st) (drop_value fuel p st1)" if "stack_kept st st1" for p st1
    using stack_kept_trans [OF that stack_kept_view] by (auto simp: returns_def dest: view_drop_value)
  have i: "returns (stack_kept st) (bind_res (bind_res m (\<lambda>v. Ok (set_ref address v st, None))) (\<lambda>(st', p). drop_value fuel p st'))" for m
    by (auto simp: returns_def outcome_simps stack_kept_set_ref drop_value_def)
  have s: "returns (stack_kept st) (bind_res (bind_res m (\<lambda>(v, p). Ok (set_ref address v st, p))) (\<lambda>(st', p). drop_value fuel p st'))" for m
    using d [OF stack_kept_set_ref] by (auto simp: returns_def outcome_simps)
  have c: "returns (stack_kept st) (bind_res (assign_concatenated fuel old v st) (\<lambda>(st', p). drop_value fuel p st'))" for old
    by (intro returns_rules d stack_kept_view) (auto intro: view_concatenated)
  show ?thesis unfolding apply_assignment_operator_def
    by (rule returns_bind, cases op) (use i s c in \<open>simp_all del: bind_res.simps\<close>)
qed

lemma stack_kept_binding:
  "returns (\<lambda>(b, st'). stack_kept st st') (apply_binding_operator fuel l r st :: (bool \<times> Store, 'e) res)"
  "returns (\<lambda>(b, st'). stack_kept st st') (eval_binding_heap fuel lp rp idxs st :: (bool \<times> Store, 'e) res)"
proof (induction fuel arbitrary: l r st lp rp idxs rule: less_induct)
  case (less fuel)
  {
    case 1
    show ?case
    proof (cases fuel)
      case (Suc f)
      have bind: "returns (\<lambda>(b, st'). stack_kept st st')
         (bind_res (clone_value f w st) (\<lambda>(to_write, st1). bind_res (store_write f (Stack pos) to_write st1) (\<lambda>st2. Ok (True, st2))) :: (bool \<times> Store, 'e) res)" for w pos
        by (intro returns_rules) (auto dest!: stack_kept_write view_clone(1) stack_kept_view intro: stack_kept_trans)
      have same: "stack_kept st st" by (simp add: stack_kept_view)
      have other: "returns (\<lambda>(b, st'). stack_kept st st')
         (case heap_operands l' r' of
            Some (lhs_pos, rhs_pos) \<Rightarrow>
              if union_tags_differ l' r' then Ok (False, st)
              else bind_res (region st lhs_pos) (\<lambda>ls. bind_res (region st rhs_pos) (\<lambda>rs.
                   if length ls \<noteq> length rs then Ok (False, st)
                   else eval_binding_heap f lhs_pos rhs_pos [0 ..< length ls] st))
          | None \<Rightarrow> (bind_res (unwrap (scalar_equal l' r')) (\<lambda>eq. Ok (eq, st)) :: (bool \<times> Store, 'e) res))" for l' r'
        by (intro returns_rules) (simp_all add: same less.IH(2) [of f, unfolded Suc])
      show ?thesis unfolding Suc apply_binding_operator.simps
        apply (rule returns_bind, rule returns_bind)
        subgoal for l' r' by (cases l') (simp_all only: Value.case bind other)
        done
    qed (simp add: returns_def)
  next
    case 2
    show ?case
    proof (induction idxs arbitrary: st)
      case (Cons i idxs)
      have one: "returns (\<lambda>(b, st'). stack_kept st st') (case fuel of 0 \<Rightarrow> OutOfFuel | Suc f \<Rightarrow> (apply_binding_operator f l r st :: (bool \<times> Store, 'e) res))" for l r
        using less.IH(1) by (auto simp: returns_stop split: nat.splits)
      have rest: "returns (\<lambda>(b, st'). stack_kept st st') (eval_binding_heap fuel lp rp idxs st1 :: (bool \<times> Store, 'e) res)"
        if "stack_kept st st1" for st1
        using Cons stack_kept_trans [OF that] by (fastforce simp: returns_def)
      show ?case unfolding eval_binding_heap.simps
        by (intro returns_rules rest) (use returnsD [OF one] in fastforce)+
    qed (simp add: returns_def stack_kept_view)
  }
qed

lemma stack_kept_clear_loop:
  "clear_stack_loop fuel idxs st = (Ok st' :: (Store, 'e) res) \<Longrightarrow> \<forall>i \<in> set idxs. cur_stack_boundary st < i \<Longrightarrow> stack_kept st st'"
proof (induction idxs arbitrary: st)
  case (Cons i idxs)
  then obtain v st1 where d: "drop_value fuel (get_heap_pos v) st = (Ok st1 :: (Store, 'e) res)"
    and rest: "clear_stack_loop fuel idxs (st1\<lparr>stack := (stack st1)[i := VUnassigned]\<rparr>) = (Ok st' :: (Store, 'e) res)"
    by (auto simp: outcome_simps)
  from view_drop_value [OF d] have v: "stack st1 = stack st" "cur_stack_boundary st1 = cur_stack_boundary st"
    by (auto simp: frame_view_def)
  from Cons.IH [OF rest] Cons.prems(2) show ?case by (auto simp: stack_kept_def v)
qed (simp add: stack_kept_view)

lemma stack_kept_clear: "clear_stack fuel i st = Ok st' \<Longrightarrow> stack_kept st st'"
  unfolding clear_stack_def by (rule stack_kept_clear_loop) auto


section \<open>Calls push a boundary\<close>

definition called :: "Store \<Rightarrow> Store \<Rightarrow> bool" where
  "called st st' \<longleftrightarrow> cur_stack_boundary st' = length (stack st) \<and> length (stack st) < length (stack st') \<and>
     stack st' ! length (stack st) = VPrevStackBoundary (int (cur_stack_boundary st)) \<and>
     take (Suc (cur_stack_boundary st)) (take (length (stack st)) (stack st')) = take (Suc (cur_stack_boundary st)) (stack st)"

fun outcome_ok :: "Store \<Rightarrow> EvalContext \<Rightarrow> ExprOutcome \<Rightarrow> bool" where
  "outcome_ok st ctx (Advance fr st' ctx') \<longleftrightarrow> ctx_grows ctx ctx' \<and> stack_kept st st'"
| "outcome_ok st ctx (Yield cont fr pushed st' ctx') \<longleftrightarrow> ctx_grows ctx ctx' \<and>
     (pushed = [] \<and> stack_kept st st' \<or> (\<exists>f. pushed = [f]) \<and> called st st' \<and> cont = EC_Stepping)"

lemma view_reserve: "\<exists>vs. stack (reserve_stack n st) = stack st @ vs" "cur_stack_boundary (reserve_stack n st) = cur_stack_boundary st"
  by (auto simp: reserve_stack_def Let_def)

lemma view_push_arguments:
  "push_arguments fuel n fr st = Ok (fr', st') \<Longrightarrow>
   (\<exists>vs. stack st' = stack st @ vs) \<and> cur_stack_boundary st' = cur_stack_boundary st"
proof (induction n arbitrary: fr st)
  case (Suc n)
  then show ?case by (fastforce simp: outcome_simps frame_view_def dest!: view_take_ownership)
qed simp

lemma user_function_ok: "returns (outcome_ok st ctx) (eval_user_function cfg pd n d u fr st ctx)"
  unfolding eval_user_function_def
proof (intro returns_rules)
  fix x st1 data and fr1 new_frame :: Frame
  assume "push_arguments (cfg_fuel cfg) n fr (st\<lparr>stack := stack st @ [VPrevStackBoundary (int (cur_stack_boundary st))]\<rparr>) = Ok x"
    and "x = (fr1, st1)"
  then obtain vs where "stack st1 = stack st @ VPrevStackBoundary (int (cur_stack_boundary st)) # vs"
    using view_push_arguments by fastforce
  moreover obtain ws where "stack (reserve_stack (max_stack_size new_frame) (st1\<lparr>cur_stack_boundary := length (stack st)\<rparr>)) = stack st1 @ ws"
    using view_reserve(1) [of "max_stack_size new_frame" "st1\<lparr>cur_stack_boundary := length (stack st)\<rparr>"] by auto
  ultimately show "outcome_ok st ctx (Yield EC_Stepping fr1 [new_frame]
      (reserve_stack (max_stack_size new_frame) (st1\<lparr>cur_stack_boundary := length (stack st)\<rparr>)) ctx)"
    by (simp add: called_def view_reserve(2))
qed

lemma outcome_ok_view: "frame_view st' = frame_view st \<Longrightarrow> outcome_ok st ctx (Advance fr st' ctx)"
  by (simp add: stack_kept_view)

named_theorems eval_ok

lemma eval_unary_ok [eval_ok]: "returns (outcome_ok st ctx) (eval_unary cfg op fr st ctx)"
  unfolding eval_unary_def by (intro returns_rules) (auto dest!: view_rules simp: stack_kept_view)

lemma eval_binary_ok [eval_ok]: "returns (outcome_ok st ctx) (eval_binary cfg op fr st ctx)"
  unfolding eval_binary_def by (intro returns_rules) (auto dest!: view_rules simp: stack_kept_view)

lemma eval_conditional_ok [eval_ok]: "returns (outcome_ok st ctx) (eval_conditional cfg h a b fr st ctx)"
  unfolding eval_conditional_def by (intro returns_rules) (auto dest!: view_rules simp: stack_kept_view)

lemma eval_indexing_ok [eval_ok]: "returns (outcome_ok st ctx) (eval_indexing cfg i fr st ctx)"
  unfolding eval_indexing_def construct_array_error_def by (intro returns_rules) (auto dest!: view_rules simp: stack_kept_view)

lemma eval_slicing_ok [eval_ok]: "returns (outcome_ok st ctx) (eval_slicing cfg i j fr st ctx)"
  unfolding eval_slicing_def construct_array_error_def
  by (intro returns_rules) (auto dest!: view_rules simp: stack_kept_view outcome_simps split: if_splits)

lemma eval_select_ok [eval_ok]: "returns (outcome_ok st ctx) (eval_select cfg pd u fr st ctx)"
  unfolding eval_select_def by (intro returns_rules) (auto dest!: view_rules simp: stack_kept_view)

lemma eval_cast_ok [eval_ok]: "returns (outcome_ok st ctx) (eval_cast cfg pd i u fr st ctx)"
  unfolding eval_cast_def by (intro returns_rules) (auto dest!: view_rules simp: stack_kept_view cast_result_Ok)

lemma eval_variable_ok [eval_ok]: "returns (outcome_ok st ctx) (eval_variable pd d b fr st ctx)"
  unfolding eval_variable_def by (intro returns_rules) (auto dest!: view_rules simp: stack_kept_view)

lemma eval_get_ok [eval_ok]: "returns (outcome_ok st ctx) (eval_get i fr st ctx)"
  unfolding eval_get_def
  by (intro returns_rules) (auto dest: view_ctx_get returnsD [OF ctx_get_grows] simp: stack_kept_view)

lemma eval_put_ok [eval_ok]: "returns (outcome_ok st ctx) (eval_put cfg i fr st ctx)"
  unfolding eval_put_def by (intro returns_rules) (auto dest!: view_rules simp: stack_kept_view)

lemma eval_fires_ok [eval_ok]: "returns (outcome_ok st ctx) (eval_fires i fr st ctx)"
  unfolding eval_fires_def by (intro returns_rules) (auto dest!: view_rules simp: stack_kept_view)

lemma eval_create_ok [eval_ok]: "returns (outcome_ok st ctx) (eval_create cfg i fr st ctx)"
  unfolding eval_create_def by (intro returns_rules) (auto dest!: view_rules simp: stack_kept_view)

lemma eval_length_ok [eval_ok]: "returns (outcome_ok st ctx) (eval_length cfg fr st ctx)"
  unfolding eval_length_def by (intro returns_rules) (auto dest!: view_rules simp: stack_kept_view)

lemma eval_assert_ok [eval_ok]: "returns (outcome_ok st ctx) (eval_assert  fr st ctx)"
  unfolding eval_assert_def by (intro returns_rules) (auto dest!: view_rules simp: stack_kept_view)

lemma eval_user_component_ok [eval_ok]: "returns (outcome_ok st ctx) (eval_user_component cfg h i d fr st ctx)"
  unfolding eval_user_component_def by (intro returns_rules) (auto dest!: view_rules simp: stack_kept_view)

lemma eval_call_ok [eval_ok]: "returns (outcome_ok st ctx) (eval_call cfg pd expr_id m args d u fr st ctx)"
  by (cases m) (simp_all add: eval_call_def eval_ok user_function_ok)

lemma eval_literal_ok [eval_ok]: "returns (outcome_ok st ctx) (eval_literal cfg pd l u fr st ctx)"
  by (cases l) (simp_all add: eval_literal_def, (intro returns_rules; auto dest!: view_rules simp: stack_kept_view)+)

lemma eval_assignment_ok [eval_ok]: "returns (outcome_ok st ctx) (eval_assignment cfg op fr st ctx)"
  unfolding eval_assignment_def
  by (intro returns_rules) (auto dest!: view_rules stack_kept_view returnsD [OF stack_kept_assignment] intro: stack_kept_trans)

lemma eval_binding_ok [eval_ok]: "returns (outcome_ok st ctx) (eval_binding cfg fr st ctx)"
  unfolding eval_binding_def
  by (intro returns_rules) (auto dest!: view_rules stack_kept_view returnsD [OF stack_kept_binding(1)] intro: stack_kept_trans)

lemma eval_expr_ok: "returns (outcome_ok st ctx) (eval_expr cfg pd expr_id fr st ctx)"
  unfolding eval_expr_def
proof (rule returns_bind)
  fix e :: Expression
  show "returns (outcome_ok st ctx) (case e of
        Ex_Assignment _ op _ \<Rightarrow> eval_assignment cfg op fr st ctx
      | Ex_Binding _ _ \<Rightarrow> eval_binding cfg fr st ctx
      | Ex_Conditional _ true_expression false_expression \<Rightarrow>
          eval_conditional cfg (pd_heap pd) true_expression false_expression fr st ctx
      | Ex_Binary _ op _ \<Rightarrow> eval_binary cfg op fr st ctx
      | Ex_Unary op _ \<Rightarrow> eval_unary cfg op fr st ctx
      | Ex_Indexing _ _ \<Rightarrow> eval_indexing cfg expr_id fr st ctx
      | Ex_Slicing _ from_index to_index \<Rightarrow> eval_slicing cfg from_index to_index fr st ctx
      | Ex_Select _ unique_id \<Rightarrow> eval_select cfg pd unique_id fr st ctx
      | Ex_Literal lit unique_id \<Rightarrow> eval_literal cfg pd lit unique_id fr st ctx
      | Ex_Cast _ unique_id \<Rightarrow> eval_cast cfg pd expr_id unique_id fr st ctx
      | Ex_Call m arguments definition_id unique_id \<Rightarrow> eval_call cfg pd expr_id m arguments definition_id unique_id fr st ctx
      | Ex_Variable declaration used_as_binding_target \<Rightarrow> eval_variable pd declaration used_as_binding_target fr st ctx)"
    by (cases e) (simp_all add: eval_ok)
qed

lemma exec_instruction_ok: "returns (outcome_ok st ctx) (exec_instruction cfg pd i fr st ctx)"
  by (cases i) (simp_all add: exec_instruction_def eval_expr_ok, intro returns_rules, simp add: stack_kept_view)


lemma outcome_ok_trans:
  assumes "ctx_grows ctx0 ctx" "stack_kept st0 st" "outcome_ok st ctx r"
  shows "outcome_ok st0 ctx0 r"
proof -
  have "called st0 st'" if "called st st'" for st'
    using assms(2) that by (auto simp: stack_kept_def called_def)
  with assms show ?thesis by (cases r) (auto intro: ctx_grows_trans stack_kept_trans)
qed

lemma run_exprs_ok: "returns (outcome_ok st ctx) (run_exprs fuel cfg pd fr st ctx)"
proof (induction fuel arbitrary: fr st ctx)
  case (Suc fuel)
  have "returns (outcome_ok st ctx) (case r of
      Advance fr' st' ctx' \<Rightarrow> run_exprs fuel cfg pd fr' st' ctx'
    | Yield cont fr' pushed st' ctx' \<Rightarrow> Ok (Yield cont fr' pushed st' ctx'))"
    if "outcome_ok st ctx r" for r
    using that Suc by (cases r) (auto simp: returns_def intro: outcome_ok_trans)
  then show ?case
    by (auto intro!: returns_rules simp: stack_kept_view dest: returnsD [OF exec_instruction_ok])
qed (auto intro!: returns_rules simp: stack_kept_view)

section \<open>The chain of boundaries\<close>

text \<open>The stack below a boundary, the boundary itself, and the number of frames.\<close>

fun frame_chain :: "Value list \<Rightarrow> nat \<Rightarrow> nat \<Rightarrow> bool" where
  "frame_chain s b 0 \<longleftrightarrow> False"
| "frame_chain s b (Suc 0) \<longleftrightarrow> b = 0 \<and> s \<noteq> [] \<and> s ! 0 = VPrevStackBoundary (- 1)"
| "frame_chain s b (Suc (Suc n)) \<longleftrightarrow> b < length s \<and>
     (case s ! b of VPrevStackBoundary p \<Rightarrow> 0 \<le> p \<and> nat p < b \<and> frame_chain (take b s) (nat p) (Suc n) | _ \<Rightarrow> False)"

definition store_chain :: "Store \<Rightarrow> nat \<Rightarrow> bool" where
  "store_chain st n \<longleftrightarrow> frame_chain (stack st) (cur_stack_boundary st) n"

lemma frame_chain_less: "frame_chain s b n \<Longrightarrow> b < length s"
  by (induction s b n rule: frame_chain.induct) auto

lemma frame_chain_cong: "frame_chain s b n \<Longrightarrow> take (Suc b) s' = take (Suc b) s \<Longrightarrow> length s \<le> length s' \<Longrightarrow> frame_chain s' b n"
proof (induction s b n rule: frame_chain.induct)
  case (2 s b)
  then show ?case by (cases s; cases s') auto
next
  case (3 s b n)
  from 3(2) have "b < length s" by simp
  moreover from this 3(3) have "s' ! b = s ! b" "take b s' = take b s"
    by (metis lessI nth_take, metis min.absorb1 lessI less_imp_le_nat take_take)
  ultimately show ?case using 3(2,4) by (simp split: Value.splits)
qed simp

lemma store_chain_kept: "store_chain st n \<Longrightarrow> stack_kept st st' \<Longrightarrow> store_chain st' n"
  unfolding store_chain_def stack_kept_def by (auto intro: frame_chain_cong)

lemma store_chain_called:
  assumes "store_chain st n" "called st st'"
  shows "store_chain st' (Suc n)"
proof -
  note c = assms(2) [unfolded called_def]
  have b: "cur_stack_boundary st < length (stack st)" using assms(1) by (auto simp: store_chain_def dest: frame_chain_less)
  from c assms(1) have "frame_chain (take (length (stack st)) (stack st')) (cur_stack_boundary st) n"
    unfolding store_chain_def by (auto elim!: frame_chain_cong)
  moreover obtain k where "n = Suc k" using assms(1) by (cases n) (auto simp: store_chain_def)
  ultimately show ?thesis using c b by (simp add: store_chain_def)
qed

lemma store_chain_outcome:
  assumes "store_chain st n" "outcome_ok st ctx r"
  shows "case r of Advance fr st' ctx' \<Rightarrow> store_chain st' n | Yield cont fr pushed st' ctx' \<Rightarrow> store_chain st' (n + length pushed)"
  using assms by (cases r) (auto intro: store_chain_kept store_chain_called)

text \<open>Statements other than a return write above the boundary only.\<close>

lemma exec_statement_ok:
  "returns (\<lambda>(cont, fr', st', ctx'). ctx_grows ctx ctx' \<and> stack_kept st st') (exec_statement cfg pd stmt fr st ctx)"
proof (cases stmt)
  case (St_Channel a b next_stmt)
  show ?thesis unfolding St_Channel
    by (simp add: exec_statement_def go_def)
      (intro returns_rules; auto dest!: stack_kept_write simp: ctx_new_channel_grows intro: stack_kept_trans)
next
  case (St_New call_id next_stmt)
  show ?thesis unfolding St_New
    by (simp add: exec_statement_def exec_new_def) (intro returns_rules; auto dest!: view_drop_all simp: stack_kept_view)
qed (simp_all add: exec_statement_def go_def,
     (intro returns_rules; auto dest!: stack_kept_write stack_kept_clear simp: stack_kept_view go_def returns_Ok)+)

text \<open>A return goes back to the part of the stack below its boundary, and to the boundary that it holds.\<close>

definition returned :: "Store \<Rightarrow> Store \<Rightarrow> bool" where
  "returned st st' \<longleftrightarrow> stack st' = take (cur_stack_boundary st) (stack st) \<and>
     stack st ! cur_stack_boundary st = VPrevStackBoundary (int (cur_stack_boundary st'))"

lemma exec_return_ok:
  assumes "store_chain st (Suc (length callers))"
  shows "returns (\<lambda>(cont, frs, st'). length frs = length callers \<and> (frs \<noteq> [] \<longrightarrow> cont = EC_Stepping \<and> store_chain st' (length frs) \<and>
     returned st st')) (exec_return cfg pd fr callers st)"
proof -
  have "length frs = length callers \<and> (frs \<noteq> [] \<longrightarrow> cont = EC_Stepping \<and> store_chain st' (length frs) \<and> returned st st')"
    if ret: "exec_return cfg pd fr callers st = (Ok (cont, frs, st') :: (EvalContinuation \<times> Frame list \<times> Store, 'e) res)" for cont frs st'
  proof -
    from ret obtain v w st1 st2 prev where
      copy: "(case v of VRef address \<Rightarrow> read_copy (cfg_fuel cfg) address st | _ \<Rightarrow> Ok (v, st)) = (Ok (w, st1) :: (Value \<times> Store, 'e) res)"
      and clear: "clear_stack (cfg_fuel cfg) 0 st1 = (Ok st2 :: (Store, 'e) res)"
      and prev: "(if take (cur_stack_boundary st2 + 1) (stack st2) = [] then Panic
        else unwrap (as_stack_boundary (last (take (cur_stack_boundary st2 + 1) (stack st2))))) = (Ok prev :: (int, 'e) res)"
      and res: "if callers = [] then frs = []
        else cont = EC_Stepping \<and> length frs = length callers \<and>
          st' = st2\<lparr>stack := butlast (take (cur_stack_boundary st2 + 1) (stack st2)), cur_stack_boundary := boundary_of prev\<rparr>"
      unfolding exec_return_def Let_def by (auto simp: outcome_simps split: if_splits)
    have "frame_view st1 = frame_view st" using copy by (auto dest: view_read_copy split: Value.splits)
    from stack_kept_trans [OF stack_kept_view [OF this] stack_kept_clear [OF clear]]
    have kept: "stack_kept st st2" .
    have chain: "frame_chain (stack st2) (cur_stack_boundary st2) (Suc (length callers))"
      using store_chain_kept [OF assms kept] by (simp add: store_chain_def)
    note less = frame_chain_less [OF chain]
    have below: "butlast (take (cur_stack_boundary st2 + 1) (stack st2)) = take (cur_stack_boundary st) (stack st)"
      using kept less unfolding stack_kept_def by (metis Suc_eq_plus1 butlast_take diff_Suc_1 Suc_leI)
    show ?thesis
    proof (cases callers)
      case (Cons f fs)
      from less prev have top: "stack st2 ! cur_stack_boundary st2 = VPrevStackBoundary prev"
        by (auto simp: outcome_simps as_stack_boundary_def take_Suc_conv_app_nth split: if_splits Value.splits)
      with chain Cons have c: "0 \<le> prev" "frame_chain (take (cur_stack_boundary st2) (stack st2)) (nat prev) (length callers)"
        by (auto split: Value.splits)
      have "stack st ! cur_stack_boundary st = stack st2 ! cur_stack_boundary st2"
        using kept unfolding stack_kept_def by (metis lessI nth_take)
      with c top res Cons below show ?thesis
        by (simp add: returned_def store_chain_def boundary_of_def butlast_take less Suc_leI)
    qed (use res in simp)
  qed
  then show ?thesis by (auto simp: returns_def)
qed

section \<open>A step\<close>

text \<open>
  A step stays in the frame, calls, or returns; the third component says how the stack
  changes in each case.
\<close>

definition prompt_ok :: "Prompt \<Rightarrow> bool" where
  "prompt_ok p \<longleftrightarrow> store_chain (prompt_store p) (length (frames p))"

definition frame_step :: "Prompt \<Rightarrow> EvalContinuation \<Rightarrow> Prompt \<Rightarrow> bool" where
  "frame_step p cont p' \<longleftrightarrow>
     length (frames p') = length (frames p) \<and> stack_kept (prompt_store p) (prompt_store p') \<or>
     length (frames p') = Suc (length (frames p)) \<and> cont = EC_Stepping \<and> called (prompt_store p) (prompt_store p') \<or>
     Suc (length (frames p')) = length (frames p) \<and> (frames p' \<noteq> [] \<longrightarrow>
       cont = EC_Stepping \<and> store_chain (prompt_store p') (length (frames p')) \<and>
       (\<exists>st. stack_kept (prompt_store p) st \<and> returned st (prompt_store p')))"

lemma exec_position_ok:
  assumes "store_chain st (Suc (length callers))" "fr0 = fr" "stack_kept (prompt_store p) st" "length (frames p) = Suc (length callers)"
    "ctx_grows ctx0 ctx"
  shows "returns (\<lambda>(cont, p', ctx'). ctx_grows ctx0 ctx' \<and> frame_step p cont p')
    (exec_position cfg pd fr callers st ctx :: (EvalContinuation \<times> Prompt \<times> EvalContext, 'e) res)"
proof -
  have stay: "returns (\<lambda>(cont, p', ctx'). ctx_grows ctx0 ctx' \<and> frame_step p cont p')
     (bind_res (exec_statement cfg pd stmt fr st ctx) (\<lambda>(cont, fr1, st', ctx').
       bind_res (rassert (expr_values fr1 = [])) (\<lambda>_.
       bind_res (prepare_next cfg pd fr1) (\<lambda>fr2. Ok (cont, \<lparr>frames = callers @ [fr2], prompt_store = st'\<rparr>, ctx')))) ::
        (EvalContinuation \<times> Prompt \<times> EvalContext, 'e) res)" for stmt
    by (intro returns_rules)
      (use assms in \<open>auto simp: frame_step_def dest!: returnsD [OF exec_statement_ok] intro: ctx_grows_trans stack_kept_trans\<close>)
  have ret: "returns (\<lambda>(cont, p', ctx'). ctx_grows ctx0 ctx' \<and> frame_step p cont p')
     (bind_res (exec_return cfg pd fr callers st) (\<lambda>(cont, frs, st'). Ok (cont, \<lparr>frames = frs, prompt_store = st'\<rparr>, ctx)) ::
        (EvalContinuation \<times> Prompt \<times> EvalContext, 'e) res)"
    by (intro returns_rules) (use assms in \<open>auto simp: frame_step_def dest!: returnsD [OF exec_return_ok [OF assms(1)]]\<close>)
  show ?thesis unfolding exec_position_def
    apply (rule returns_bind)
    subgoal for stmt by (cases stmt) (simp_all only: Statement.case stay ret)
    done
qed

lemma step_ok:
  assumes "prompt_ok p" "step cfg pd p ctx = Ok (cont, p', ctx')"
  shows "ctx_grows ctx ctx' \<and> frame_step p cont p'"
proof -
  obtain fr callers where fr: "frames p = callers @ [fr]"
    using assms(1) by (cases "frames p" rule: rev_cases) (auto simp: prompt_ok_def store_chain_def)
  then have chain: "store_chain (prompt_store p) (Suc (length callers))"
    using assms(1) by (simp add: prompt_ok_def)
  show ?thesis
  proof (cases "id_is_invalid (fr_position fr)")
    case True
    with assms(2) fr have "p' = p \<and> ctx' = ctx" by (auto simp: step_def outcome_simps split: if_splits)
    then show ?thesis by (simp add: frame_step_def stack_kept_view)
  next
    case False
    with assms(2) fr obtain r where run: "run_exprs (cfg_fuel cfg) cfg pd fr (prompt_store p) ctx = Ok r"
      and rest: "(case r of
          Yield cont fr pushed st ctx' \<Rightarrow> Ok (cont, \<lparr>frames = callers @ fr # pushed, prompt_store = st\<rparr>, ctx')
        | Advance fr st ctx' \<Rightarrow> exec_position cfg pd fr callers st ctx') = (Ok (cont, p', ctx') :: (_, EvalError) res)"
      by (auto simp: step_def outcome_simps)
    note ok = returnsD [OF run_exprs_ok run]
    show ?thesis
    proof (cases r)
      case (Advance fr1 st1 ctx1)
      with ok have k: "ctx_grows ctx ctx1" "stack_kept (prompt_store p) st1" by auto
      with returnsD [OF exec_position_ok [OF store_chain_kept [OF chain k(2)] refl k(2) _ k(1)]] rest Advance fr
      show ?thesis by fastforce
    next
      case (Yield cont1 fr1 pushed st1 ctx1)
      with ok rest fr show ?thesis by (auto simp: frame_step_def)
    qed
  qed
qed

text \<open>The context grows whatever the state of the stack is.\<close>

lemma exec_position_grows:
  "returns (\<lambda>(cont, p', ctx'). ctx_grows ctx ctx')
    (exec_position cfg pd fr callers st ctx :: (EvalContinuation \<times> Prompt \<times> EvalContext, 'e) res)"
proof -
  have stay: "returns (\<lambda>(cont, p', ctx'). ctx_grows ctx ctx')
     (bind_res (exec_statement cfg pd stmt fr st ctx) (\<lambda>(cont, fr1, st', ctx').
       bind_res (rassert (expr_values fr1 = [])) (\<lambda>_.
       bind_res (prepare_next cfg pd fr1) (\<lambda>fr2. Ok (cont, \<lparr>frames = callers @ [fr2], prompt_store = st'\<rparr>, ctx')))) ::
        (EvalContinuation \<times> Prompt \<times> EvalContext, 'e) res)" for stmt
    by (intro returns_rules) (auto dest!: returnsD [OF exec_statement_ok])
  have ret: "returns (\<lambda>(cont, p', ctx'). ctx_grows ctx ctx')
     (bind_res (exec_return cfg pd fr callers st) (\<lambda>(cont, frs, st'). Ok (cont, \<lparr>frames = frs, prompt_store = st'\<rparr>, ctx)) ::
        (EvalContinuation \<times> Prompt \<times> EvalContext, 'e) res)"
    by (intro returns_rules) simp
  show ?thesis unfolding exec_position_def
    apply (rule returns_bind)
    subgoal for stmt by (cases stmt) (simp_all only: Statement.case stay ret)
    done
qed

lemma step_grows:
  assumes "step cfg pd p ctx = Ok (cont, p', ctx')"
  shows "ctx_grows ctx ctx'"
proof (cases "id_is_invalid (fr_position (last (frames p)))")
  case False
  with assms obtain r where run: "run_exprs (cfg_fuel cfg) cfg pd (last (frames p)) (prompt_store p) ctx = Ok r"
    and rest: "(case r of
          Yield cont fr pushed st ctx' \<Rightarrow> Ok (cont, \<lparr>frames = butlast (frames p) @ fr # pushed, prompt_store = st\<rparr>, ctx')
        | Advance fr st ctx' \<Rightarrow> exec_position cfg pd fr (butlast (frames p)) st ctx') = (Ok (cont, p', ctx') :: (_, EvalError) res)"
    by (auto simp: step_def outcome_simps Let_def split: if_splits)
  from returnsD [OF run_exprs_ok run] rest show ?thesis
    by (cases r) (auto dest!: returnsD [OF exec_position_grows] intro: ctx_grows_trans)
qed (use assms in \<open>auto simp: step_def outcome_simps split: if_splits\<close>)

lemma frame_step_prompt_ok: "prompt_ok p \<Longrightarrow> frame_step p cont p' \<Longrightarrow> frames p' \<noteq> [] \<Longrightarrow> prompt_ok p'"
  unfolding prompt_ok_def frame_step_def by (auto intro: store_chain_kept store_chain_called)

section \<open>The part of the stack below a call\<close>

text \<open>Following the boundaries from the top of the stack.\<close>

fun link :: "Value list \<Rightarrow> nat \<Rightarrow> nat \<Rightarrow> nat" where
  "link s b 0 = b"
| "link s b (Suc k) = (case s ! b of VPrevStackBoundary p \<Rightarrow> link (take b s) (nat p) k | _ \<Rightarrow> b)"

lemma link_le: "frame_chain s b (n + k) \<Longrightarrow> 0 < n \<Longrightarrow> link s b k \<le> b"
proof (induction s b k rule: link.induct)
  case (2 s b k)
  then obtain m where m: "n + Suc k = Suc (Suc m)" "n + k = Suc m" by (cases n) auto
  from 2 show ?case unfolding m by (auto simp: m split: Value.splits intro: le_trans less_imp_le)
qed simp

lemma link_cong:
  "frame_chain s b (n + k) \<Longrightarrow> 0 < n \<Longrightarrow> take (Suc b) s' = take (Suc b) s \<Longrightarrow> length s \<le> length s' \<Longrightarrow> link s' b k = link s b k"
proof (induction s b k rule: link.induct)
  case (2 s b k)
  then obtain m where m: "n + Suc k = Suc (Suc m)" by (cases n) auto
  from 2(2) have "b < length s" unfolding m by simp
  moreover from this 2(4) have "s' ! b = s ! b" "take b s' = take b s"
    by (metis lessI nth_take, metis min.absorb1 lessI less_imp_le_nat take_take)
  ultimately show ?case by (simp split: Value.splits)
qed simp

text \<open>The states a component goes through while a call that started above \<open>n\<close> frames is pending.\<close>

inductive runs_above :: "EvalCfg \<Rightarrow> ProtocolDescription \<Rightarrow> nat \<Rightarrow> Prompt \<Rightarrow> Prompt \<Rightarrow> bool" for cfg pd n where
  start: "n < length (frames p) \<Longrightarrow> runs_above cfg pd n p p"
| step: "runs_above cfg pd n p p1 \<Longrightarrow> step cfg pd p1 ctx = Ok (cont, p2, ctx') \<Longrightarrow> n < length (frames p2) \<Longrightarrow> runs_above cfg pd n p p2"

definition pending :: "nat \<Rightarrow> nat \<Rightarrow> Value list \<Rightarrow> Prompt \<Rightarrow> bool" where
  "pending n b below p \<longleftrightarrow> prompt_ok p \<and> n < length (frames p) \<and> take (Suc b) (stack (prompt_store p)) = below \<and> length below = Suc b \<and>
     link (stack (prompt_store p)) (cur_stack_boundary (prompt_store p)) (length (frames p) - Suc n) = b"

lemma pending_step:
  assumes p: "pending n b below p" "0 < n" and s: "step cfg pd p ctx = Ok (cont, p', ctx')" and n: "n < length (frames p')"
  shows "pending n b below p'"
proof -
  let ?s = "stack (prompt_store p)" and ?b = "cur_stack_boundary (prompt_store p)" and ?k = "length (frames p) - Suc n"
  let ?s' = "stack (prompt_store p')" and ?b' = "cur_stack_boundary (prompt_store p')"
  from p have ok: "prompt_ok p" "n < length (frames p)" "take (Suc b) ?s = below" "length below = Suc b" "link ?s ?b ?k = b"
    by (auto simp: pending_def)
  have len: "Suc n + ?k = length (frames p)" using ok(2) by simp
  have chain: "frame_chain ?s ?b (Suc n + ?k)" using ok(1) unfolding len prompt_ok_def store_chain_def .
  note less = frame_chain_less [OF chain]
  have le: "b \<le> ?b" using link_le [OF chain] ok(5) by simp
  from step_ok [OF ok(1) s] have fs: "frame_step p cont p'" by simp
  with ok(1) n have ok': "prompt_ok p'" by (auto intro: frame_step_prompt_ok)
  have cut: "take (Suc b) (take (Suc m) t) = take (Suc b) t" if "b \<le> m" for m and t :: "Value list"
    using that by (simp add: min_def)
  from fs consider
      (stay) "length (frames p') = length (frames p)" "stack_kept (prompt_store p) (prompt_store p')"
    | (call) "length (frames p') = Suc (length (frames p))" "called (prompt_store p) (prompt_store p')"
    | (return) st where "Suc (length (frames p')) = length (frames p)" "stack_kept (prompt_store p) st" "returned st (prompt_store p')"
    using n unfolding frame_step_def by force
  then show ?thesis
  proof cases
    case stay
    then have e: "?b' = ?b" "take (Suc ?b) ?s' = take (Suc ?b) ?s" "length ?s \<le> length ?s'" by (auto simp: stack_kept_def)
    have "take (Suc b) ?s' = take (Suc b) ?s" using e(2) cut [OF le] by metis
    with link_cong [OF chain _ e(2,3)] ok ok' n stay e(1) show ?thesis by (simp add: pending_def)
  next
    case call
    then have e: "?b' = length ?s" "take (Suc ?b) (take (length ?s) ?s') = take (Suc ?b) ?s"
      "?s' ! length ?s = VPrevStackBoundary (int ?b)" "length ?s < length ?s'"
      by (auto simp: called_def)
    have "take (Suc b) ?s' = take (Suc b) ?s"
      using e(2) cut [OF le, of ?s] cut [OF le, of ?s'] less by (simp add: min_def split: if_splits)
    moreover have "link (take (length ?s) ?s') ?b ?k = link ?s ?b ?k"
      using link_cong [OF chain _ e(2)] e(4) by simp
    moreover have "length (frames p') - Suc n = Suc ?k" using call ok(2) by simp
    ultimately show ?thesis using ok ok' n e by (simp add: pending_def)
  next
    case (return st)
    obtain k where k: "?k = Suc k" using return n by (cases ?k) auto
    from return have e: "cur_stack_boundary st = ?b" "take (Suc ?b) (stack st) = take (Suc ?b) ?s" "length ?s = length (stack st)"
      "?s' = take ?b (stack st)" "stack st ! ?b = VPrevStackBoundary (int ?b')"
      by (auto simp: stack_kept_def returned_def)
    have top: "?s ! ?b = VPrevStackBoundary (int ?b')" "take ?b ?s = ?s'"
      using e by (metis lessI nth_take, metis min.absorb1 lessI less_imp_le_nat take_take)
    have "frame_chain ?s' ?b' (Suc n + k)" "nat (int ?b') < ?b" using chain top by (simp_all add: k)
    moreover have "link ?s' ?b' k = b" using ok(5) top by (simp add: k)
    ultimately have "b < ?b" using link_le [of ?s' ?b' "Suc n" k] by simp
    then have "take (Suc b) ?s' = take (Suc b) ?s" using top(2) by (metis Suc_leI min.absorb1 take_take)
    moreover have "length (frames p') - Suc n = k" using return k by simp
    ultimately show ?thesis using ok ok' n \<open>link ?s' ?b' k = b\<close> by (simp add: pending_def)
  qed
qed


lemma pending_runs:
  assumes "runs_above cfg pd n p p'" "pending n b below p" "0 < n"
  shows "pending n b below p'"
  using assms by (induction rule: runs_above.induct) (auto intro: pending_step)

end
