(* ===== verification/Component_Run.thy ===== *)
theory Component_Run
  imports Executor_Frames
begin

text \<open>
  The components of the protocol language run by the evaluator (\<open>ComponentState\<close> and
  \<open>EvalContext\<close> of \<open>src/protocol/mod.rs\<close>): outside synchronous blocks until the
  component exits or enters one, inside until it blocks on a port or reaches the end. The
  model of the runtime takes its component code as an \<open>Interp\<close>; here is the one of the
  source, and the proof that it keeps the contract that the runtime relies on.
\<close>

section \<open>Outside synchronous blocks\<close>

definition value_ports :: "Value list \<Rightarrow> PortId hash_set \<Rightarrow> PortId hash_set" where
  "value_ports vs ports = fold (\<lambda>v ps. case v of VOutput port \<Rightarrow> hs_insert port ps | VInput port \<Rightarrow> hs_insert port ps | _ \<Rightarrow> ps) vs ports"

definition moved_ports_of :: "ValueGroup \<Rightarrow> PortId hash_set" where
  "moved_ports_of args = fold value_ports (gregions args) (value_ports (gvalues args) [])"

fun component_nonsync_run ::
  "nat \<Rightarrow> EvalCfg \<Rightarrow> ProtocolDescription \<Rightarrow> Prompt \<Rightarrow> EvalContext \<Rightarrow> (NonsyncBlocker \<times> Prompt \<times> EvalContext, EvalError) res" where
  "component_nonsync_run 0 cfg pd p ctx = OutOfFuel"
| "component_nonsync_run (Suc fuel) cfg pd p ctx =
     (case step cfg pd p ctx of
        Ok (cont, p1, ctx1) \<Rightarrow>
          (case cont of
             EC_Stepping \<Rightarrow> component_nonsync_run fuel cfg pd p1 ctx1
           | EC_Inconsistent \<Rightarrow> Ok (NonsyncInconsistent, p1, ctx1)
           | EC_Terminal \<Rightarrow> Ok (ComponentExit, p1, ctx1)
           | EC_SyncBlockStart \<Rightarrow> Ok (SyncBlockStart, p1, ctx1)
           | EC_NewComponent definition_id monomorph_idx args \<Rightarrow>
               bind_res (Prompt_new cfg pd definition_id monomorph_idx args) (\<lambda>init_state.
               bind_res (ctx_new_component ctx1 (moved_ports_of args) init_state) (\<lambda>ctx2.
               component_nonsync_run fuel cfg pd p1 ctx2))
           | _ \<Rightarrow> Panic)
      | OutOfFuel \<Rightarrow> OutOfFuel
      | _ \<Rightarrow> Panic)"

section \<open>Inside synchronous blocks\<close>

fun message_bytes :: "Value list \<Rightarrow> (u8 list, 'e) res" where
  "message_bytes [] = Ok []"
| "message_bytes (v # vs) = bind_res (unwrap (as_uint8 v)) (\<lambda>b. bind_res (message_bytes vs) (\<lambda>bs. Ok (b # bs)))"

definition put_blocker :: "Store \<Rightarrow> Value \<Rightarrow> Value \<Rightarrow> (SyncBlocker, 'e) res" where
  "put_blocker st port message =
     bind_res (port_of port) (\<lambda>p.
     case message of
       VNull \<Rightarrow> Ok Inconsistent
     | VMessage heap_pos \<Rightarrow> bind_res (region st heap_pos) (\<lambda>vs. bind_res (message_bytes vs) (\<lambda>bytes. Ok (PutMsg p bytes)))
     | _ \<Rightarrow> Panic)"

fun component_sync_run ::
  "nat \<Rightarrow> EvalCfg \<Rightarrow> ProtocolDescription \<Rightarrow> Prompt \<Rightarrow> EvalContext \<Rightarrow> (SyncBlocker \<times> Prompt \<times> EvalContext, EvalError) res" where
  "component_sync_run 0 cfg pd p ctx = OutOfFuel"
| "component_sync_run (Suc fuel) cfg pd p ctx =
     (case step cfg pd p ctx of
        Ok (cont, p1, ctx1) \<Rightarrow>
          (case cont of
             EC_Stepping \<Rightarrow> component_sync_run fuel cfg pd p1 ctx1
           | EC_Inconsistent \<Rightarrow> Ok (Inconsistent, p1, ctx1)
           | EC_SyncBlockEnd \<Rightarrow> Ok (SyncBlockEnd, p1, ctx1)
           | EC_BlockFires port \<Rightarrow> bind_res (port_of port) (\<lambda>port_id. Ok (CouldntCheckFiring port_id, p1, ctx1))
           | EC_BlockGet port \<Rightarrow> bind_res (port_of port) (\<lambda>port_id. Ok (CouldntReadMsg port_id, p1, ctx1))
           | EC_Put port message \<Rightarrow>
               bind_res (put_blocker (prompt_store p1) port message) (\<lambda>blocker. Ok (blocker, p1, ctx1))
           | _ \<Rightarrow> Panic)
      | OutOfFuel \<Rightarrow> OutOfFuel
      | _ \<Rightarrow> Panic)"

section \<open>The evaluator as the interpreter of the runtime\<close>

text \<open>A run that panics or does not end within the fuel is \<open>None\<close>.\<close>

definition new_component_state :: "EvalCfg \<Rightarrow> ProtocolDescription \<Rightarrow> AstId \<Rightarrow> Value list \<Rightarrow> Prompt option" where
  "new_component_state cfg pd definition_id args =
     (case (bind_res (group_new_stack (cfg_debug cfg) args) (Prompt_new cfg pd definition_id 0) :: (Prompt, EvalError) res) of
        Ok p \<Rightarrow> Some p | _ \<Rightarrow> None)"

definition evaluator :: "EvalCfg \<Rightarrow> ProtocolDescription \<Rightarrow> Prompt Interp" where
  "evaluator cfg pd =
     \<lparr>prompt_new = new_component_state cfg pd,
      sync_run = (\<lambda>p c. case component_sync_run (cfg_fuel cfg) cfg pd p (CtxSync c) of
        Ok (blocker, p', CtxSync c') \<Rightarrow> Some (blocker, p', c') | _ \<Rightarrow> None),
      nonsync_run = (\<lambda>p c. case component_nonsync_run (cfg_fuel cfg) cfg pd p (CtxNonsync c) of
        Ok (blocker, p', CtxNonsync c') \<Rightarrow> Some (blocker, p', c') | _ \<Rightarrow> None)\<rparr>"


section \<open>The evaluator keeps the contract of the runtime\<close>

lemma nonsync_run_grows: "returns (\<lambda>(blocker, p', ctx'). ctx_grows ctx ctx') (component_nonsync_run fuel cfg pd p ctx)"
proof (induction fuel arbitrary: p ctx)
  case (Suc fuel)
  have rest: "returns (\<lambda>(blocker, p', ctx'). ctx_grows ctx ctx') (component_nonsync_run fuel cfg pd p1 ctx1)"
    if "ctx_grows ctx ctx1" for p1 ctx1
    using Suc that by (fastforce simp: returns_def intro: ctx_grows_trans)
  have new: "returns (\<lambda>(blocker, p', ctx'). ctx_grows ctx ctx')
      (bind_res (Prompt_new cfg pd d m args) (\<lambda>init_state.
       bind_res (ctx_new_component ctx1 (moved_ports_of args) init_state) (\<lambda>ctx2.
       component_nonsync_run fuel cfg pd p1 ctx2)))"
    if "ctx_grows ctx ctx1" for d m args p1 ctx1
    by (intro returns_rules rest) (blast intro: ctx_grows_trans [OF that] ctx_new_component_grows)
  show ?case
  proof (cases "step cfg pd p ctx")
    case (Ok r)
    obtain cont p1 ctx1 where r: "r = (cont, p1, ctx1)" by (cases r)
    from step_grows [OF Ok [unfolded r]] have "ctx_grows ctx ctx1" .
    with rest new show ?thesis by (cases cont) (simp_all add: Ok r returns_rules)
  qed (simp_all add: returns_rules)
qed (simp add: returns_rules)

lemma sync_run_grows: "returns (\<lambda>(blocker, p', ctx'). ctx_grows ctx ctx') (component_sync_run fuel cfg pd p ctx)"
proof (induction fuel arbitrary: p ctx)
  case (Suc fuel)
  have rest: "returns (\<lambda>(blocker, p', ctx'). ctx_grows ctx ctx') (component_sync_run fuel cfg pd p1 ctx1)"
    if "ctx_grows ctx ctx1" for p1 ctx1
    using Suc that by (fastforce simp: returns_def intro: ctx_grows_trans)
  have stop: "returns (\<lambda>(blocker, p', ctx'). ctx_grows ctx ctx') (bind_res m (\<lambda>x. Ok (f x, p1, ctx1)))"
    if "ctx_grows ctx ctx1" for m and f :: "'x \<Rightarrow> SyncBlocker" and p1 ctx1
    using that by (auto simp: returns_def outcome_simps)
  show ?case
  proof (cases "step cfg pd p ctx")
    case (Ok r)
    obtain cont p1 ctx1 where r: "r = (cont, p1, ctx1)" by (cases r)
    from step_grows [OF Ok [unfolded r]] have "ctx_grows ctx ctx1" .
    with rest stop show ?thesis by (cases cont) (simp_all add: Ok r returns_rules)
  qed (simp_all add: returns_rules)
qed (simp add: returns_rules)

text \<open>
  What the properties of the runtime assume of component code holds of the evaluator, for
  every description, every kind of build and every amount of fuel.
\<close>

lemma evaluator_sync_run:
  "sync_run (evaluator cfg pd) p c = Some (blocker, p', c') \<longleftrightarrow>
     component_sync_run (cfg_fuel cfg) cfg pd p (CtxSync c) = Ok (blocker, p', CtxSync c')"
  by (simp add: evaluator_def split: res.split prod.split EvalContext.split)

lemma evaluator_nonsync_run:
  "nonsync_run (evaluator cfg pd) p c = Some (blocker, p', c') \<longleftrightarrow>
     component_nonsync_run (cfg_fuel cfg) cfg pd p (CtxNonsync c) = Ok (blocker, p', CtxNonsync c')"
  by (simp add: evaluator_def split: res.split prod.split EvalContext.split)

lemma evaluator_ok: "interp_ok (evaluator cfg pd)"
proof -
  have "sync_grows c c'" if "sync_run (evaluator cfg pd) p c = Some (blocker, p', c')" for p c blocker p' c'
    using returnsD [OF sync_run_grows that [unfolded evaluator_sync_run]] by simp
  moreover have "nonsync_callbacks c c'" if "nonsync_run (evaluator cfg pd) p c = Some (blocker, p', c')" for p c blocker p' c'
    using returnsD [OF nonsync_run_grows that [unfolded evaluator_nonsync_run]] by simp
  ultimately show ?thesis by (fastforce simp: interp_ok_def run_ok_def sync_grows_def)
qed

end
