(* ===== verification/Native_Branches.thy ===== *)
theory Native_Branches
  imports Round_Ctx
begin

text \<open>
  The native component during a synchronous round (\<open>BranchingNative\<close> of
  \<open>src/runtime/communication.rs\<close>): one speculative branch per batch, forked when a
  message is more specific than the branch. The invariant \<open>native_ok\<close> says what a branch
  records; from it follow what merging two branches means, that a submitted solution always
  has an ended branch behind it, that committing a decided solution never panics, and that
  the batch it selects does not depend on the iteration order.
\<close>

section \<open>Branches and their operations\<close>

record NativeBatch =
  to_put :: "(PortId, Payload) hash_map"
  to_get :: "PortId hash_set"

record NativeBranch =
  nb_index :: nat
  nb_gotten :: "(PortId, Payload) hash_map"
  nb_to_get :: "PortId hash_set"

record RoundEndedNative =
  ren_batch_index :: nat
  ren_gotten :: "(PortId, Payload) hash_map"

definition is_ended :: "NativeBranch \<Rightarrow> bool" where
  "is_ended b \<longleftrightarrow> nb_to_get b = []"

text \<open>The loop over \<open>branch.gotten.drain()\<close> that merges into the existing branch.\<close>

fun merge_gotten :: "(PortId \<times> Payload) list \<Rightarrow> NativeBranch \<Rightarrow> NativeBranch" where
  "merge_gotten [] old = old"
| "merge_gotten ((k, v) # it) old =
     (let old' = old\<lparr>nb_gotten := hm_insert k v (nb_gotten old)\<rparr> in
      merge_gotten it
        (if hm_get (nb_gotten old) k = None
         then old'\<lparr>nb_to_get := hs_remove k (nb_to_get old')\<rparr> else old'))"

definition native_insert_branch_merging ::
  "(Predicate, NativeBranch) hash_map \<Rightarrow> Predicate \<Rightarrow> NativeBranch \<Rightarrow>
   (Predicate, NativeBranch) hash_map" where
  "native_insert_branch_merging branches predicate branch =
     (case hm_get branches predicate of
        None \<Rightarrow> hm_insert predicate branch branches
      | Some old \<Rightarrow> hm_insert predicate (merge_gotten (nb_gotten branch) old) branches)"

text \<open>The closure \<open>feed_branch\<close> of \<open>BranchingNative::feed_msg\<close>.\<close>

definition feed_branch ::
  "ComponentId \<Rightarrow> PortId \<Rightarrow> SendPayloadMsg \<Rightarrow> NativeBranch \<Rightarrow> Predicate \<Rightarrow> RoundCtx \<Rightarrow>
   (NativeBranch \<times> RoundCtx) option" where
  "feed_branch native_cid getter msg branch predicate rctx = do {
     let was = hm_get (nb_gotten branch) getter;
     let branch' = branch\<lparr>nb_to_get := hs_remove getter (nb_to_get branch),
                          nb_gotten := hm_insert getter (spm_payload msg) (nb_gotten branch)\<rparr>;
     oassert (case was of Some w \<Rightarrow> w = spm_payload msg | None \<Rightarrow> True);
     if is_ended branch' then do {
       rctx' \<leftarrow> rc_submit (SubLocalComponent native_cid) predicate rctx;
       Some (branch', rctx')
     } else Some (branch', rctx)
   }"

fun native_feed_loop ::
  "ComponentId \<Rightarrow> PortId \<Rightarrow> SendPayloadMsg \<Rightarrow> (Predicate \<times> NativeBranch) list \<Rightarrow>
   (Predicate, NativeBranch) hash_map \<Rightarrow> RoundCtx \<Rightarrow>
   ((Predicate, NativeBranch) hash_map \<times> RoundCtx) option" where
  "native_feed_loop native_cid getter msg [] finished rctx = Some (finished, rctx)"
| "native_feed_loop native_cid getter msg ((predicate, branch) # draining) finished rctx = do {
     var \<leftarrow> spec_var_for (rc_ports rctx) getter;
     if query predicate var \<noteq> Some FIRING then
       native_feed_loop native_cid getter msg draining
         (native_insert_branch_merging finished predicate branch) rctx
     else case assignment_union predicate (spm_predicate msg) of
       Nonexistant \<Rightarrow>
         native_feed_loop native_cid getter msg draining
           (native_insert_branch_merging finished predicate branch) rctx
     | Equivalent \<Rightarrow> do {
         (branch', rctx') \<leftarrow> feed_branch native_cid getter msg branch predicate rctx;
         native_feed_loop native_cid getter msg draining
           (native_insert_branch_merging finished predicate branch') rctx'
       }
     | FormerNotLatter \<Rightarrow> do {
         (branch', rctx') \<leftarrow> feed_branch native_cid getter msg branch predicate rctx;
         native_feed_loop native_cid getter msg draining
           (native_insert_branch_merging finished predicate branch') rctx'
       }
     | LatterNotFormer \<Rightarrow> do {
         let predicate2 = spm_predicate msg;
         (branch2, rctx') \<leftarrow> feed_branch native_cid getter msg branch predicate2 rctx;
         native_feed_loop native_cid getter msg draining
           (native_insert_branch_merging
              (native_insert_branch_merging finished predicate branch) predicate2 branch2) rctx'
       }
     | New predicate2 \<Rightarrow> do {
         (branch2, rctx') \<leftarrow> feed_branch native_cid getter msg branch predicate2 rctx;
         native_feed_loop native_cid getter msg draining
           (native_insert_branch_merging
              (native_insert_branch_merging finished predicate branch) predicate2 branch2) rctx'
       }
   }"

definition native_feed_msg ::
  "ComponentId \<Rightarrow> PortId \<Rightarrow> SendPayloadMsg \<Rightarrow> (Predicate, NativeBranch) hash_map \<Rightarrow> RoundCtx \<Rightarrow>
   ((Predicate, NativeBranch) hash_map \<times> RoundCtx) option" where
  "native_feed_msg native_cid getter msg branches rctx = do {
     info \<leftarrow> hm_get (port_map (rc_ports rctx)) getter;
     oassert (polarity info = Getter);
     native_feed_loop native_cid getter msg branches [] rctx
   }"

text \<open>\<open>None\<close> is the panic "Native had no branches matching pred".\<close>

fun native_collapse_with ::
  "(Predicate \<times> NativeBranch) list \<Rightarrow> Predicate \<Rightarrow> RoundEndedNative option" where
  "native_collapse_with [] solution_predicate = None"
| "native_collapse_with ((branch_predicate, branch) # branches) solution_predicate =
     (if is_ended branch \<and> assigns_subset branch_predicate solution_predicate
      then Some \<lparr>ren_batch_index = nb_index branch, ren_gotten = nb_gotten branch\<rparr>
      else native_collapse_with branches solution_predicate)"

section \<open>What a branch records\<close>

text \<open>
  \<open>nvar\<close> is the speculative variable that distinguishes the branches of different
  batches, \<open>gets\<close> the list of the sets of ports that the batches receive on, and \<open>getters\<close> the
  native's own input ports.
\<close>

definition nb_keys :: "NativeBranch \<Rightarrow> PortId set" where
  "nb_keys b = set (hm_keys (nb_gotten b))"

definition branch_ok ::
  "SpecVar \<Rightarrow> PortId set list \<Rightarrow> PortId set \<Rightarrow> Predicate \<Rightarrow> NativeBranch \<Rightarrow> bool" where
  "branch_ok nvar gets getters p b \<longleftrightarrow>
     pred_wf p \<and> nb_index b < length gets \<and> length gets \<le> 2 ^ 16 \<and>
     pmap p nvar = Some (SpecVal (of_nat (nb_index b))) \<and>
     nb_keys b \<inter> set (nb_to_get b) = {} \<and>
     nb_keys b \<union> set (nb_to_get b) = gets ! nb_index b \<and>
     (\<forall>g \<in> getters. pmap p (SpecVar g) = Some (if g \<in> gets ! nb_index b then FIRING else SILENT))"

definition native_ok ::
  "SpecVar \<Rightarrow> PortId set list \<Rightarrow> PortId set \<Rightarrow> (Predicate, NativeBranch) hash_map \<Rightarrow> bool" where
  "native_ok nvar gets getters branches \<longleftrightarrow>
     hm_wf branches \<and> (\<forall>(p, b) \<in> set branches. branch_ok nvar gets getters p b)"

definition ended_in :: "(Predicate, NativeBranch) hash_map \<Rightarrow> Predicate \<Rightarrow> bool" where
  "ended_in branches p \<longleftrightarrow> (\<exists>b. hm_get branches p = Some b \<and> is_ended b)"

lemma native_ok_get:
  "native_ok nvar gets getters branches \<Longrightarrow> hm_get branches p = Some b \<Longrightarrow> branch_ok nvar gets getters p b"
  by (auto simp: native_ok_def dest: map_of_SomeD)

lemma native_ok_insert:
  assumes "native_ok nvar gets getters branches" "branch_ok nvar gets getters p b"
  shows "native_ok nvar gets getters (hm_insert p b branches)"
proof -
  have "hm_wf (hm_insert p b branches)"
    using assms(1) by (simp add: native_ok_def distinct_update)
  moreover have "branch_ok nvar gets getters q c" if "(q, c) \<in> set (hm_insert p b branches)" for q c
  proof -
    have "map_of (hm_insert p b branches) q = Some c"
      using that \<open>hm_wf (hm_insert p b branches)\<close> by (simp add: hm_get_Some_iff)
    then show ?thesis
      using assms by (auto simp: hm_get_insert split: if_splits intro: native_ok_get)
  qed
  ultimately show ?thesis by (auto simp: native_ok_def)
qed

lemma branch_index_unique:
  assumes "branch_ok nvar gets getters p b" "branch_ok nvar gets getters q c" "pmap p nvar = pmap q nvar"
  shows "nb_index b = nb_index c"
proof -
  have "of_nat (nb_index b) = (of_nat (nb_index c) :: u16)"
    using assms by (simp add: branch_ok_def)
  moreover have "unat (of_nat n :: u16) = n" if "n < 2 ^ 16" for n
    using that by (simp add: unat_of_nat)
  moreover have "nb_index b < 2 ^ 16" "nb_index c < 2 ^ 16"
    using assms(1,2) by (simp_all add: branch_ok_def)
  ultimately show ?thesis by metis
qed

section \<open>Merging\<close>

lemma merge_gotten_spec:
  "nb_index (merge_gotten it old) = nb_index old \<and>
   nb_keys (merge_gotten it old) = nb_keys old \<union> set (hm_keys it) \<and>
   set (nb_to_get (merge_gotten it old)) = set (nb_to_get old) - (set (hm_keys it) - nb_keys old)"
proof (induction it old rule: merge_gotten.induct)
  case (1 old)
  then show ?case by simp
next
  case (2 k v it old)
  let ?old = "old\<lparr>nb_gotten := hm_insert k v (nb_gotten old)\<rparr>"
  let ?new = "?old\<lparr>nb_to_get := hs_remove k (nb_to_get ?old)\<rparr>"
  define F where "F = set (hm_keys it)"
  have F: "set (hm_keys ((k, v) # it)) = insert k F" by (simp add: F_def)
  have keys: "nb_keys ?old = insert k (nb_keys old)" "nb_keys ?new = insert k (nb_keys old)"
    using hm_keys_insert [of k v "nb_gotten old"] by (simp_all add: nb_keys_def)
  show ?case
  proof (cases "hm_get (nb_gotten old) k")
    case None
    then have "k \<notin> nb_keys old" by (simp add: nb_keys_def map_of_eq_None_iff)
    moreover have eq: "merge_gotten ((k, v) # it) old = merge_gotten it ?new"
      using None by (simp add: Let_def)
    ultimately show ?thesis
      using "2.IH" [OF refl] None keys unfolding eq F F_def [symmetric] by auto
  next
    case (Some w)
    then have "k \<in> nb_keys old" using hm_get_keys unfolding nb_keys_def by fastforce
    moreover have eq: "merge_gotten ((k, v) # it) old = merge_gotten it ?old"
      using Some by (simp add: Let_def)
    ultimately show ?thesis
      using "2.IH" [OF refl] Some keys unfolding eq F F_def [symmetric] by auto
  qed
qed

text \<open>
  Merging is what the source's comment says: the union of what the two branches received,
  and the intersection of what they still wait for.
\<close>

lemma merge_gotten_ok:
  assumes old: "branch_ok nvar gets getters p old" and b: "branch_ok nvar gets getters p b"
  shows "branch_ok nvar gets getters p (merge_gotten (nb_gotten b) old)"
    and "set (nb_to_get (merge_gotten (nb_gotten b) old)) = set (nb_to_get old) \<inter> set (nb_to_get b)"
proof -
  have idx: "nb_index b = nb_index old"
    using branch_index_unique [OF b old refl] .
  show to_get: "set (nb_to_get (merge_gotten (nb_gotten b) old)) = set (nb_to_get old) \<inter> set (nb_to_get b)"
    using merge_gotten_spec [of "nb_gotten b" old, folded nb_keys_def] old b idx by (auto simp: branch_ok_def)
  show "branch_ok nvar gets getters p (merge_gotten (nb_gotten b) old)"
    using merge_gotten_spec [of "nb_gotten b" old, folded nb_keys_def] to_get old b idx by (auto simp: branch_ok_def)
qed

lemma insert_merging_ok:
  assumes ok: "native_ok nvar gets getters branches" and b: "branch_ok nvar gets getters p b"
  shows "native_ok nvar gets getters (native_insert_branch_merging branches p b)"
    and "ended_in branches q \<Longrightarrow> ended_in (native_insert_branch_merging branches p b) q"
    and "is_ended b \<Longrightarrow> ended_in (native_insert_branch_merging branches p b) p"
    and "hm_get (native_insert_branch_merging branches p b) p \<noteq> None"
proof -
  consider (vacant) "hm_get branches p = None" | (occupied) old where "hm_get branches p = Some old"
    by fastforce
  note cases = this
  show "native_ok nvar gets getters (native_insert_branch_merging branches p b)"
  proof (cases rule: cases)
    case vacant
    with ok b show ?thesis by (simp add: native_insert_branch_merging_def native_ok_insert)
  next
    case occupied
    with ok b show ?thesis
      by (simp add: native_insert_branch_merging_def native_ok_insert merge_gotten_ok native_ok_get)
  qed
  show "ended_in (native_insert_branch_merging branches p b) q" if "ended_in branches q"
  proof (cases rule: cases)
    case vacant
    with that show ?thesis
      by (auto simp: native_insert_branch_merging_def ended_in_def hm_get_insert)
  next
    case occupied
    from merge_gotten_ok(2) [OF native_ok_get [OF ok occupied] b] that occupied show ?thesis
      by (auto simp: native_insert_branch_merging_def ended_in_def hm_get_insert is_ended_def)
  qed
  show "ended_in (native_insert_branch_merging branches p b) p" if "is_ended b"
  proof (cases rule: cases)
    case vacant
    with that show ?thesis
      by (auto simp: native_insert_branch_merging_def ended_in_def hm_get_insert)
  next
    case occupied
    from merge_gotten_ok(2) [OF native_ok_get [OF ok occupied] b] that occupied show ?thesis
      by (auto simp: native_insert_branch_merging_def ended_in_def hm_get_insert is_ended_def)
  qed
  show "hm_get (native_insert_branch_merging branches p b) p \<noteq> None"
    by (cases rule: cases) (simp_all add: native_insert_branch_merging_def hm_get_insert)
qed

section \<open>Feeding a message\<close>

lemma branch_ok_mono:
  assumes "branch_ok nvar gets getters p b" "pmap p \<subseteq>\<^sub>m pmap q" "pred_wf q"
  shows "branch_ok nvar gets getters q b"
  using assms unfolding branch_ok_def map_le_Some_iff by blast

lemma move_element:
  "K \<inter> T = {} \<Longrightarrow> K \<union> T = G \<Longrightarrow> g \<in> G \<Longrightarrow> insert g K \<inter> (T - {g}) = {} \<and> insert g K \<union> (T - {g}) = G"
  by blast

lemma feed_branch_Some:
  assumes "feed_branch cid getter msg b q rctx = Some (b', rctx')"
  shows "b' = b\<lparr>nb_to_get := hs_remove getter (nb_to_get b),
      nb_gotten := hm_insert getter (spm_payload msg) (nb_gotten b)\<rparr>"
    and "(\<exists>s. is_ended b' \<and>
        submit_and_digest_subtree_solution (solution_storage rctx) (SubLocalComponent cid) q = Some s \<and>
        rctx' = rctx\<lparr>solution_storage := s\<rparr>) \<or> \<not> is_ended b' \<and> rctx' = rctx"
proof -
  define c where "c = b\<lparr>nb_to_get := hs_remove getter (nb_to_get b),
      nb_gotten := hm_insert getter (spm_payload msg) (nb_gotten b)\<rparr>"
  from assms have
    "if is_ended c then map_option (Pair c) (rc_submit (SubLocalComponent cid) q rctx) = Some (b', rctx')
     else Some (c, rctx) = Some (b', rctx')"
    unfolding feed_branch_def Let_def c_def [symmetric] by (auto simp: bind_eq_Some_conv split: if_splits)
  then have "b' = c \<and> ((\<exists>s. is_ended b' \<and>
        submit_and_digest_subtree_solution (solution_storage rctx) (SubLocalComponent cid) q = Some s \<and>
        rctx' = rctx\<lparr>solution_storage := s\<rparr>) \<or> \<not> is_ended b' \<and> rctx' = rctx)"
    by (auto simp: rc_submit_def bind_eq_Some_conv split: if_splits)
  then show "b' = b\<lparr>nb_to_get := hs_remove getter (nb_to_get b),
      nb_gotten := hm_insert getter (spm_payload msg) (nb_gotten b)\<rparr>"
    "(\<exists>s. is_ended b' \<and>
        submit_and_digest_subtree_solution (solution_storage rctx) (SubLocalComponent cid) q = Some s \<and>
        rctx' = rctx\<lparr>solution_storage := s\<rparr>) \<or> \<not> is_ended b' \<and> rctx' = rctx"
    unfolding c_def by blast+
qed

lemma feed_branch_ok:
  assumes fed: "feed_branch cid getter msg b q rctx = Some (b', rctx')"
    and b: "branch_ok nvar gets getters q b"
    and getter: "getter \<in> getters" "pmap q (SpecVar getter) = Some FIRING"
    and ok: "rc_storage_ok (solution_storage rctx)"
  shows "branch_ok nvar gets getters q b'" "is_ended b \<Longrightarrow> is_ended b'"
    and "rctx' = rctx\<lparr>solution_storage := solution_storage rctx'\<rparr>"
    and "rc_storage_ok (solution_storage rctx')"
    and "subtree_id_to_index (solution_storage rctx') = subtree_id_to_index (solution_storage rctx)"
    and "child_solutions (solution_storage rctx') sid =
      (if sid = SubLocalComponent cid \<and> is_ended b' then insert q (child_solutions (solution_storage rctx) sid)
       else child_solutions (solution_storage rctx) sid)"
proof -
  let ?b = "b\<lparr>nb_to_get := hs_remove getter (nb_to_get b),
      nb_gotten := hm_insert getter (spm_payload msg) (nb_gotten b)\<rparr>"
  have b': "b' = ?b"
    using feed_branch_Some(1) [OF fed] .
  have "getter \<in> gets ! nb_index b"
    using b getter by (auto simp: branch_ok_def split: if_splits)
  moreover have "nb_keys ?b = insert getter (nb_keys b)"
    using hm_keys_insert [of getter "spm_payload msg" "nb_gotten b"] by (simp add: nb_keys_def)
  moreover have "set (nb_to_get ?b) = set (nb_to_get b) - {getter}" by simp
  ultimately have "nb_keys ?b \<inter> set (nb_to_get ?b) = {}" "nb_keys ?b \<union> set (nb_to_get ?b) = gets ! nb_index ?b"
    using b move_element [of "nb_keys b" "set (nb_to_get b)" "gets ! nb_index b" getter]
    by (simp_all add: branch_ok_def)
  then show "branch_ok nvar gets getters q b'"
    using b unfolding branch_ok_def b' by simp
  show "is_ended b \<Longrightarrow> is_ended b'" by (simp add: b' is_ended_def)
  have wf: "pred_wf q" using b by (simp add: branch_ok_def)
  have inj: "inj_on (map_of (subtree_id_to_index (solution_storage rctx)))
      (dom (map_of (subtree_id_to_index (solution_storage rctx))))"
    using ok by (simp add: rc_storage_ok_def)
  show "rctx' = rctx\<lparr>solution_storage := solution_storage rctx'\<rparr>"
    "rc_storage_ok (solution_storage rctx')"
    "subtree_id_to_index (solution_storage rctx') = subtree_id_to_index (solution_storage rctx)"
    "child_solutions (solution_storage rctx') sid =
      (if sid = SubLocalComponent cid \<and> is_ended b' then insert q (child_solutions (solution_storage rctx) sid)
       else child_solutions (solution_storage rctx) sid)"
  proof -
    consider (submit) s where "is_ended b'"
        "submit_and_digest_subtree_solution (solution_storage rctx) (SubLocalComponent cid) q = Some s"
        "rctx' = rctx\<lparr>solution_storage := s\<rparr>"
      | (wait) "\<not> is_ended b'" "rctx' = rctx"
      using feed_branch_Some [OF fed] by blast
    note cases = this
    show "rctx' = rctx\<lparr>solution_storage := solution_storage rctx'\<rparr>"
      by (cases rule: cases) simp_all
    show "rc_storage_ok (solution_storage rctx')"
      by (cases rule: cases) (simp_all add: ok rc_storage_ok_submit [OF ok wf])
    show "subtree_id_to_index (solution_storage rctx') = subtree_id_to_index (solution_storage rctx)"
      by (cases rule: cases) (simp_all add: submit_effect(1))
    show "child_solutions (solution_storage rctx') sid =
        (if sid = SubLocalComponent cid \<and> is_ended b' then insert q (child_solutions (solution_storage rctx) sid)
         else child_solutions (solution_storage rctx) sid)"
      by (cases rule: cases) (auto simp: submit_child_solutions [OF _ inj])
  qed
qed

text \<open>
  One iteration of the loop either keeps the branch, or feeds it in place, or keeps it and
  adds a fed fork under a more specific predicate.
\<close>

lemma native_feed_loop_step:
  assumes step: "native_feed_loop cid getter msg ((p, b) # rest) fin rctx = Some r"
    and wf: "pred_wf p" "pred_wf (spm_predicate msg)"
    and var: "spec_var_for (rc_ports rctx) getter = Some (SpecVar getter)"
  obtains (keep) "native_feed_loop cid getter msg rest (native_insert_branch_merging fin p b) rctx = Some r"
    | (feed) b' rctx' where "pmap p (SpecVar getter) = Some FIRING"
        "feed_branch cid getter msg b p rctx = Some (b', rctx')"
        "native_feed_loop cid getter msg rest (native_insert_branch_merging fin p b') rctx' = Some r"
    | (fork) q b' rctx' where "pmap p (SpecVar getter) = Some FIRING" "pmap p \<subseteq>\<^sub>m pmap q" "pred_wf q"
        "feed_branch cid getter msg b q rctx = Some (b', rctx')"
        "native_feed_loop cid getter msg rest
           (native_insert_branch_merging (native_insert_branch_merging fin p b) q b') rctx' = Some r"
proof (cases "query p (SpecVar getter) = Some FIRING")
  case False
  with step var keep show ?thesis by simp
next
  case True
  then have firing: "pmap p (SpecVar getter) = Some FIRING" by (simp add: query_pmap)
  show ?thesis
  proof (cases "assignment_union p (spm_predicate msg)")
    case FormerNotLatter
    with step var True feed firing show ?thesis by (auto simp: bind_eq_Some_conv)
  next
    case LatterNotFormer
    moreover from this have "pmap p \<subseteq>\<^sub>m pmap (spm_predicate msg)"
      using assignment_union_cases [OF wf] by (auto split: if_splits)
    ultimately show ?thesis
      using step var True fork firing wf by (auto simp: bind_eq_Some_conv Let_def)
  next
    case Equivalent
    with step var True feed firing show ?thesis by (auto simp: bind_eq_Some_conv)
  next
    case (New q)
    moreover from this have "union_with p (spm_predicate msg) = Some q"
      using assignment_union_cases [OF wf] union_with_None_iff [OF wf] by (auto split: if_splits)
    then have "pmap p \<subseteq>\<^sub>m pmap q" "pred_wf q"
      using union_with_upper [OF wf] by blast+
    ultimately show ?thesis
      using step var True fork firing by (auto simp: bind_eq_Some_conv)
  next
    case Nonexistant
    with step var True keep show ?thesis by simp
  qed
qed

text \<open>
  What feeding guarantees: only the storage of the round context changes, a branch that has
  ended stays ended, and every newly submitted native solution has an ended branch.
\<close>

definition feed_post where
  "feed_post cid fin ended rctx fin' rctx' \<longleftrightarrow>
    rctx' = rctx\<lparr>solution_storage := solution_storage rctx'\<rparr> \<and>
    subtree_id_to_index (solution_storage rctx') = subtree_id_to_index (solution_storage rctx) \<and>
    (\<forall>q. ended_in fin q \<or> q \<in> ended \<longrightarrow> ended_in fin' q) \<and>
    child_solutions (solution_storage rctx') (SubLocalComponent cid) \<subseteq>
      child_solutions (solution_storage rctx) (SubLocalComponent cid) \<union> Collect (ended_in fin') \<and>
    (\<forall>sid. sid \<noteq> SubLocalComponent cid \<longrightarrow>
       child_solutions (solution_storage rctx') sid = child_solutions (solution_storage rctx) sid)"

lemma feed_post_step:
  assumes post: "feed_post cid fin1 ended1 rctx1 fin' rctx'"
    and rctx1: "rctx1 = rctx\<lparr>solution_storage := solution_storage rctx1\<rparr>"
    and idx: "subtree_id_to_index (solution_storage rctx1) = subtree_id_to_index (solution_storage rctx)"
    and ended: "\<And>q. ended_in fin q \<Longrightarrow> ended_in fin1 q" "ended \<subseteq> Collect (ended_in fin1) \<union> ended1"
    and own: "child_solutions (solution_storage rctx1) (SubLocalComponent cid) \<subseteq>
      child_solutions (solution_storage rctx) (SubLocalComponent cid) \<union> Collect (ended_in fin1)"
    and other: "\<And>sid. sid \<noteq> SubLocalComponent cid \<Longrightarrow>
      child_solutions (solution_storage rctx1) sid = child_solutions (solution_storage rctx) sid"
  shows "feed_post cid fin ended rctx fin' rctx'"
proof -
  have mono: "ended_in fin1 q \<Longrightarrow> ended_in fin' q" and e1: "q \<in> ended1 \<Longrightarrow> ended_in fin' q" for q
    using post by (auto simp: feed_post_def)
  have "rctx' = rctx1\<lparr>solution_storage := solution_storage rctx'\<rparr>"
    using post by (simp add: feed_post_def)
  moreover have "rctx1\<lparr>solution_storage := s\<rparr> = rctx\<lparr>solution_storage := s\<rparr>" for s
    by (subst rctx1) simp
  ultimately have "rctx' = rctx\<lparr>solution_storage := solution_storage rctx'\<rparr>" by metis
  moreover have "ended_in fin q \<or> q \<in> ended \<longrightarrow> ended_in fin' q" for q
    using ended mono e1 by blast
  moreover have "child_solutions (solution_storage rctx') (SubLocalComponent cid) \<subseteq>
      child_solutions (solution_storage rctx) (SubLocalComponent cid) \<union> Collect (ended_in fin')"
    using post own mono by (auto simp: feed_post_def)
  ultimately show ?thesis
    using post idx other by (simp add: feed_post_def)
qed

lemma native_feed_loop_ok:
  assumes "native_feed_loop cid getter msg rest fin rctx = Some (fin', rctx')"
    and "native_ok nvar gets getters fin" "\<forall>(p, b) \<in> set rest. branch_ok nvar gets getters p b"
    and "pred_wf (spm_predicate msg)" "getter \<in> getters"
    and "spec_var_for (rc_ports rctx) getter = Some (SpecVar getter)"
    and "rc_storage_ok (solution_storage rctx)"
  shows "native_ok nvar gets getters fin' \<and> rc_storage_ok (solution_storage rctx') \<and>
    feed_post cid fin {q. \<exists>b. (q, b) \<in> set rest \<and> is_ended b} rctx fin' rctx'"
  using assms
proof (induction rest arbitrary: fin rctx)
  case Nil
  then show ?case by (auto simp: feed_post_def)
next
  case (Cons pb rest)
  obtain p b where pb: "pb = (p, b)" by (cases pb)
  have b: "branch_ok nvar gets getters p b" and rest: "\<forall>(p, b) \<in> set rest. branch_ok nvar gets getters p b"
    using Cons.prems(3) by (auto simp: pb)
  then have wf: "pred_wf p" by (simp add: branch_ok_def)
  note IH = Cons.IH [OF _ _ rest Cons.prems(4,5)]
  note ins = insert_merging_ok [where nvar = nvar and gets = gets and getters = getters]
  let ?rest = "{q. \<exists>b. (q, b) \<in> set rest \<and> is_ended b}"
  from Cons.prems(1) [unfolded pb] wf Cons.prems(4,6) show ?case
  proof (cases rule: native_feed_loop_step)
    case keep
    from IH [OF keep ins(1) [OF Cons.prems(2) b] Cons.prems(6,7)]
    show ?thesis
      using ins(2,3) [OF Cons.prems(2) b] by (auto simp: pb intro: feed_post_step)
  next
    case (feed b' rctx1)
    note fed = feed_branch_ok [OF feed(2) b Cons.prems(5) feed(1) Cons.prems(7)]
    note ins1 = ins [OF Cons.prems(2) fed(1)]
    have var: "spec_var_for (rc_ports rctx1) getter = Some (SpecVar getter)"
      using Cons.prems(6) by (subst fed(3)) simp
    from IH [OF feed(3) ins1(1) var fed(4)]
    show ?thesis
      using ins1(2,3) fed(2) by (auto simp: pb fed(6) intro!: feed_post_step [OF _ fed(3,5)] split: if_splits)
  next
    case (fork q b' rctx1)
    have bq: "branch_ok nvar gets getters q b" "pmap q (SpecVar getter) = Some FIRING"
      using branch_ok_mono [OF b fork(2,3)] fork(1,2) by (auto simp: map_le_Some_iff)
    note fed = feed_branch_ok [OF fork(4) bq(1) Cons.prems(5) bq(2) Cons.prems(7)]
    have var: "spec_var_for (rc_ports rctx1) getter = Some (SpecVar getter)"
      using Cons.prems(6) by (subst fed(3)) simp
    note ins1 = ins [OF Cons.prems(2) b]
    note ins2 = ins [OF ins1(1) fed(1)]
    from IH [OF fork(5) ins2(1) var fed(4)]
    show ?thesis
      using ins1(2,3) ins2(2,3) by (auto simp: pb fed(6) intro!: feed_post_step [OF _ fed(3,5)] split: if_splits)
  qed
qed

lemma native_feed_msg_ok:
  assumes fed: "native_feed_msg cid getter msg branches rctx = Some (branches', rctx')"
    and ok: "native_ok nvar gets getters branches" "rc_storage_ok (solution_storage rctx)"
    and wf: "pred_wf (spm_predicate msg)" and getter: "getter \<in> getters"
  shows "native_ok nvar gets getters branches' \<and> rc_storage_ok (solution_storage rctx') \<and>
    feed_post cid branches {} rctx branches' rctx'"
proof -
  from fed obtain info where info: "hm_get (port_map (rc_ports rctx)) getter = Some info" "polarity info = Getter"
    and loop: "native_feed_loop cid getter msg branches [] rctx = Some (branches', rctx')"
    by (auto simp: native_feed_msg_def bind_eq_Some_conv split: if_splits)
  have var: "spec_var_for (rc_ports rctx) getter = Some (SpecVar getter)"
    using info by (simp add: spec_var_for_def)
  have empty: "native_ok nvar gets getters []" by (simp add: native_ok_def)
  have bs: "\<forall>(p, b) \<in> set branches. branch_ok nvar gets getters p b"
    using ok(1) by (simp add: native_ok_def)
  note res = native_feed_loop_ok [OF loop empty bs wf getter var ok(2)]
  have "{q. \<exists>b. (q, b) \<in> set branches \<and> is_ended b} = Collect (ended_in branches)"
    using ok(1) by (auto simp: ended_in_def native_ok_def hm_get_Some_iff)
  with res show ?thesis by (auto simp: feed_post_def)
qed

section \<open>Committing a decided solution\<close>

lemma native_collapse_Some_iff:
  "native_collapse_with branches sol \<noteq> None \<longleftrightarrow>
   (\<exists>(p, b) \<in> set branches. is_ended b \<and> assigns_subset p sol)"
  by (induction branches sol rule: native_collapse_with.induct) auto

lemma native_collapse_SomeD:
  "native_collapse_with branches sol = Some r \<Longrightarrow>
   \<exists>p b. (p, b) \<in> set branches \<and> is_ended b \<and> assigns_subset p sol \<and>
     r = \<lparr>ren_batch_index = nb_index b, ren_gotten = nb_gotten b\<rparr>"
  by (induction branches sol rule: native_collapse_with.induct) (auto split: if_splits)

text \<open>
  A native whose every submitted solution has an ended branch, and whose round context is
  in order: the state between two steps of the round.
\<close>

definition native_round_ok where
  "native_round_ok cid nvar gets getters branches rctx \<longleftrightarrow>
     native_ok nvar gets getters branches \<and> rc_storage_ok (solution_storage rctx) \<and>
     child_solutions (solution_storage rctx) (SubLocalComponent cid) \<subseteq> Collect (ended_in branches)"

lemma collapse_on_local_solution:
  assumes ok: "native_round_ok cid nvar gets getters branches rctx"
    and sol: "sol \<in> set (old_local (solution_storage rctx)) \<union> set (new_local (solution_storage rctx))"
    and known: "hm_get (subtree_id_to_index (solution_storage rctx)) (SubLocalComponent cid) \<noteq> None"
  shows "native_collapse_with branches sol \<noteq> None"
proof -
  have "rc_storage_ok (solution_storage rctx)" using ok by (simp add: native_round_ok_def)
  from local_solution_covers_child [OF this sol known] obtain q where
    q: "q \<in> child_solutions (solution_storage rctx) (SubLocalComponent cid)" "assigns_subset q sol"
    by blast
  then have "ended_in branches q" using ok by (auto simp: native_round_ok_def)
  then obtain b where "(q, b) \<in> set branches" "is_ended b"
    by (auto simp: ended_in_def dest: map_of_SomeD)
  with q(2) show ?thesis unfolding native_collapse_Some_iff by blast
qed

lemma native_collapse_batch:
  assumes "native_ok nvar gets getters branches" "native_collapse_with branches sol = Some r"
  shows "ren_batch_index r < length gets \<and> set (hm_keys (ren_gotten r)) = gets ! ren_batch_index r"
proof -
  obtain p b where b: "(p, b) \<in> set branches" "is_ended b" "r = \<lparr>ren_batch_index = nb_index b, ren_gotten = nb_gotten b\<rparr>"
    using native_collapse_SomeD [OF assms(2)] by blast
  then have "branch_ok nvar gets getters p b" using assms(1) by (auto simp: native_ok_def)
  with b(2,3) show ?thesis by (simp add: branch_ok_def is_ended_def nb_keys_def)
qed

lemma ended_branches_agree:
  assumes p: "branch_ok nvar gets getters p b" "assigns_subset p sol"
    and q: "branch_ok nvar gets getters q c" "assigns_subset q sol"
    and ended: "is_ended b" "is_ended c"
  shows "nb_index b = nb_index c \<and> nb_keys b = nb_keys c"
proof -
  have wf: "pred_wf p" "pred_wf q" using p q by (simp_all add: branch_ok_def)
  have "pmap p nvar = pmap sol nvar" "pmap q nvar = pmap sol nvar"
    using p q wf unfolding assigns_subset_iff [OF wf(1)] assigns_subset_iff [OF wf(2)] map_le_Some_iff branch_ok_def
    by metis+
  then have "nb_index b = nb_index c" using branch_index_unique [OF p(1) q(1)] by simp
  with p(1) q(1) ended show ?thesis by (simp add: branch_ok_def is_ended_def)
qed

section \<open>Properties\<close>

text \<open>
  For the witnesses: a native whose only batch receives on one port, before and after the
  message has arrived.
\<close>

abbreviation sample_nvar :: SpecVar where "sample_nvar \<equiv> SpecVar (PortId (MkId 7 100))"

definition sample_pred :: Predicate where
  "sample_pred = inserted (singleton sample_nvar (SpecVal 0)) (SpecVar sample_getter) FIRING"

definition sample_native :: "Payload hash_set \<Rightarrow> (Predicate, NativeBranch) hash_map" where
  "sample_native ms = [(sample_pred, \<lparr>nb_index = 0, nb_gotten = map (Pair sample_getter) ms,
     nb_to_get = (if ms = [] then [sample_getter] else [])\<rparr>)]"

lemma sample_pred_wf: "pred_wf sample_pred"
  by (simp add: sample_pred_def)

lemma sample_native_ok: "native_ok sample_nvar [{sample_getter}] {sample_getter} (sample_native [])"
  "native_ok sample_nvar [{sample_getter}] {sample_getter} (sample_native [m])"
  by (simp_all add: sample_native_def native_ok_def branch_ok_def nb_keys_def sample_pred_wf)
    (simp_all add: sample_pred_def)

lemma sample_child: "child_solutions (SolutionStorage_new [SubLocalComponent sample_cid]) sid = {}"
  by (simp add: SolutionStorage_new_def child_solutions_def)

lemma sample_round_ok:
  "native_round_ok sample_cid sample_nvar [{sample_getter}] {sample_getter} (sample_native []) sample_rctx"
  by (simp add: native_round_ok_def sample_native_ok rc_storage_ok_new sample_rctx_def sample_child)

text \<open>
  Merging a branch into an existing one with the same predicate gives the branch that
  has received what either has and still waits for exactly what both wait for.
\<close>

theorem native_merge_union:
  assumes ok: "native_ok nvar gets getters branches"
    and b: "branch_ok nvar gets getters p b" and old: "hm_get branches p = Some old"
  shows "native_ok nvar gets getters (native_insert_branch_merging branches p b) \<and>
    (\<exists>m. hm_get (native_insert_branch_merging branches p b) p = Some m \<and>
      nb_keys m = nb_keys old \<union> nb_keys b \<and> set (nb_to_get m) = set (nb_to_get old) \<inter> set (nb_to_get b))"
  using insert_merging_ok(1) [OF ok b] merge_gotten_ok(2) [OF native_ok_get [OF ok old] b]
    merge_gotten_spec [of "nb_gotten b" old]
  by (simp add: native_insert_branch_merging_def old nb_keys_def hm_get_insert)

theorem native_merge_union_witness:
  "\<exists>m. hm_get (native_insert_branch_merging (sample_native []) sample_pred (snd (hd (sample_native [[1]])))) sample_pred = Some m \<and>
     nb_keys m = {sample_getter} \<and> is_ended m"
proof -
  let ?old = "snd (hd (sample_native []))" and ?b = "snd (hd (sample_native [[1]]))"
  have get: "hm_get (sample_native []) sample_pred = Some ?old" "hm_get (sample_native [[1]]) sample_pred = Some ?b"
    by (simp_all add: sample_native_def)
  from native_merge_union [OF sample_native_ok(1) native_ok_get [OF sample_native_ok(2) get(2)] get(1)]
  obtain m where m: "hm_get (native_insert_branch_merging (sample_native []) sample_pred ?b) sample_pred = Some m"
    "nb_keys m = nb_keys ?old \<union> nb_keys ?b" "set (nb_to_get m) = set (nb_to_get ?old) \<inter> set (nb_to_get ?b)"
    by blast
  have "nb_keys ?old = {}" "nb_keys ?b = {sample_getter}" "nb_to_get ?b = []"
    by (simp_all add: sample_native_def nb_keys_def)
  with m have "nb_keys m = {sample_getter}" "is_ended m" by (simp_all add: is_ended_def)
  with m(1) show ?thesis by blast
qed

text \<open>
  C33: feeding a message to the native keeps the round's state in order: branches keep
  recording exactly what they received and wait for, ended branches stay, every solution
  submitted for the native (before or now) has an ended branch, and the solutions of other
  components are untouched.
\<close>

theorem native_feed_keeps_round_ok:
  assumes "native_round_ok cid nvar gets getters branches rctx"
    and "pred_wf (spm_predicate msg)" "getter \<in> getters"
    and "native_feed_msg cid getter msg branches rctx = Some (branches', rctx')"
  shows "native_round_ok cid nvar gets getters branches' rctx' \<and>
    (\<forall>sid. sid = SubLocalComponent cid \<or>
       child_solutions (solution_storage rctx') sid = child_solutions (solution_storage rctx) sid)"
  using native_feed_msg_ok [OF assms(4) _ _ assms(2,3)] assms(1)
  unfolding native_round_ok_def feed_post_def by blast

theorem native_feed_keeps_round_ok_witness:
  "\<exists>rctx'. native_feed_msg sample_cid sample_getter \<lparr>spm_predicate = Predicate_default, spm_payload = [1]\<rparr>
      (sample_native []) sample_rctx = Some (sample_native [[1]], rctx') \<and>
    native_round_ok sample_cid sample_nvar [{sample_getter}] {sample_getter} (sample_native [[1]]) rctx'"
proof -
  let ?sid = "SubLocalComponent sample_cid"
  have storage: "solution_storage sample_rctx = SolutionStorage_new [?sid]" by (simp add: sample_rctx_def)
  have "hm_get (subtree_id_to_index (SolutionStorage_new [?sid])) ?sid \<noteq> None"
    using known_id_new [of ?sid "[?sid]"] by simp
  then obtain s where s: "submit_and_digest_subtree_solution (solution_storage sample_rctx) ?sid sample_pred = Some s"
    using submit_Some [OF storage_inv_new, of "[?sid]" ?sid sample_pred] unfolding storage by blast
  have "assignment_union sample_pred Predicate_default = FormerNotLatter"
    by (simp add: sample_pred_def singleton_def inserted_def Predicate_default_def assignment_union_def id_order_defs)
  moreover have "query sample_pred (SpecVar sample_getter) = Some FIRING"
    by (simp add: query_pmap sample_pred_def)
  moreover have "spec_var_for (rc_ports sample_rctx) sample_getter = Some (SpecVar sample_getter)"
    "hm_get (port_map (rc_ports sample_rctx)) sample_getter =
      Some \<lparr>owner = sample_cid, peer = None, polarity = Getter, route = NetEndpoint 0\<rparr>"
    by (simp_all add: sample_rctx_def spec_var_for_def insert_port_def PortInfoMap_default_def)
  ultimately have run: "native_feed_msg sample_cid sample_getter \<lparr>spm_predicate = Predicate_default, spm_payload = [1]\<rparr>
      (sample_native []) sample_rctx = Some (sample_native [[1]], sample_rctx\<lparr>solution_storage := s\<rparr>)"
    using s by (simp add: native_feed_msg_def sample_native_def feed_branch_def is_ended_def rc_submit_def
        native_insert_branch_merging_def oassert_def)
  show ?thesis
    using run native_feed_keeps_round_ok [OF sample_round_ok _ _ run] by simp
qed

text \<open>
  C32: committing a solution found by the storage never hits the panic of
  \<open>collapse_with\<close>, and the batch and the set of received ports do not depend on the order
  in which the hash map is iterated.
\<close>

theorem native_collapse_determined:
  assumes ok: "native_round_ok cid nvar gets getters branches rctx"
    and sol: "sol \<in> set (old_local (solution_storage rctx)) \<union> set (new_local (solution_storage rctx))"
    and known: "hm_get (subtree_id_to_index (solution_storage rctx)) (SubLocalComponent cid) \<noteq> None"
    and reordered: "set branches' = set branches"
  shows "\<exists>r r'. native_collapse_with branches sol = Some r \<and> native_collapse_with branches' sol = Some r' \<and>
    ren_batch_index r = ren_batch_index r' \<and> ren_batch_index r < length gets \<and>
    set (hm_keys (ren_gotten r)) = gets ! ren_batch_index r \<and>
    set (hm_keys (ren_gotten r')) = gets ! ren_batch_index r"
proof -
  obtain r where r: "native_collapse_with branches sol = Some r"
    using collapse_on_local_solution [OF ok sol known] by blast
  then have "native_collapse_with branches' sol \<noteq> None"
    using native_collapse_Some_iff reordered by (metis option.distinct(1))
  then obtain r' where r': "native_collapse_with branches' sol = Some r'" by blast
  obtain p b where b: "(p, b) \<in> set branches" "is_ended b" "assigns_subset p sol"
    "r = \<lparr>ren_batch_index = nb_index b, ren_gotten = nb_gotten b\<rparr>"
    using native_collapse_SomeD [OF r] by blast
  obtain q c where c: "(q, c) \<in> set branches" "is_ended c" "assigns_subset q sol"
    "r' = \<lparr>ren_batch_index = nb_index c, ren_gotten = nb_gotten c\<rparr>"
    using native_collapse_SomeD [OF r'] reordered by blast
  have bok: "branch_ok nvar gets getters p b" and cok: "branch_ok nvar gets getters q c"
    using ok b(1) c(1) by (auto simp: native_round_ok_def native_ok_def)
  note agree = ended_branches_agree [OF bok b(3) cok c(3) b(2) c(2)]
  have "ren_batch_index r < length gets \<and> set (hm_keys (ren_gotten r)) = gets ! ren_batch_index r"
    using ok by (intro native_collapse_batch [of nvar gets getters, OF _ r]) (simp add: native_round_ok_def)
  with agree r r' b(4) c(4) show ?thesis by (auto simp: nb_keys_def)
qed

theorem native_collapse_determined_witness:
  "\<exists>r. native_collapse_with (sample_native [[1]]) sample_pred = Some r \<and> ren_batch_index r = 0 \<and>
     set (hm_keys (ren_gotten r)) = {sample_getter}"
proof -
  let ?sid = "SubLocalComponent sample_cid"
  let ?s = "\<lparr>old_local = [], new_local = [sample_pred], subtree_solutions = [[sample_pred]],
    subtree_id_to_index = [(?sid, 0)]\<rparr>"
  have sub: "submit_and_digest_subtree_solution (SolutionStorage_new [?sid]) ?sid sample_pred = Some ?s"
    by (simp add: SolutionStorage_new_def submit_and_digest_subtree_solution_def oassert_def)
  have "ended_in (sample_native [[1]]) sample_pred"
    by (simp add: ended_in_def sample_native_def is_ended_def)
  then have ok: "native_round_ok sample_cid sample_nvar [{sample_getter}] {sample_getter} (sample_native [[1]])
      (sample_rctx\<lparr>solution_storage := ?s\<rparr>)"
    using rc_storage_ok_submit [OF rc_storage_ok_new sample_pred_wf sub]
    by (simp add: native_round_ok_def sample_native_ok child_solutions_def)
  have "sample_pred \<in> set (old_local (solution_storage (sample_rctx\<lparr>solution_storage := ?s\<rparr>))) \<union>
      set (new_local (solution_storage (sample_rctx\<lparr>solution_storage := ?s\<rparr>)))"
    "hm_get (subtree_id_to_index (solution_storage (sample_rctx\<lparr>solution_storage := ?s\<rparr>))) ?sid \<noteq> None"
    by simp_all
  from native_collapse_determined [OF ok this refl]
  obtain r where r: "native_collapse_with (sample_native [[1]]) sample_pred = Some r"
    "ren_batch_index r < 1" "set (hm_keys (ren_gotten r)) = [{sample_getter}] ! ren_batch_index r"
    by auto
  then have "ren_batch_index r = 0" "set (hm_keys (ren_gotten r)) = {sample_getter}" by simp_all
  with r(1) show ?thesis by blast
qed

end
