(* ===== verification/Action_Monad.thy ===== *)
theory Action_Monad
  imports Reo_Prelude
begin

text \<open>
  Procedures that change a state and can fail half way: the state they leave behind
  matters after an error too, so an action returns its outcome together with the state.
  \<open>act_bind\<close> is Rust's sequencing with the \<open>?\<close> operator. \<open>wp\<close> states what holds
  after an action, for a value and for an error; the rules for the combinators are simp
  rules, so that a statement about a procedure reduces to its steps.
\<close>

type_synonym ('s, 'a, 'e) act = "'s \<Rightarrow> ('a, 'e) res \<times> 's"

named_theorems wp_rules \<open>what holds after an action, by the shape of the action\<close>

definition act_ret :: "'a \<Rightarrow> ('s, 'a, 'e) act" where
  "act_ret x s = (Ok x, s)"

definition act_err :: "'e \<Rightarrow> ('s, 'a, 'e) act" where
  "act_err e s = (Err e, s)"

definition act_panic :: "('s, 'a, 'e) act" where
  "act_panic s = (Panic, s)"

definition act_out_of_fuel :: "('s, 'a, 'e) act" where
  "act_out_of_fuel s = (OutOfFuel, s)"

definition act_get :: "('s \<Rightarrow> 'a) \<Rightarrow> ('s, 'a, 'e) act" where
  "act_get f s = (Ok (f s), s)"

definition act_modify :: "('s \<Rightarrow> 's) \<Rightarrow> ('s, unit, 'e) act" where
  "act_modify f s = (Ok (), f s)"

definition act_bind :: "('s, 'a, 'e) act \<Rightarrow> ('a \<Rightarrow> ('s, 'b, 'e) act) \<Rightarrow> ('s, 'b, 'e) act" where
  "act_bind m f s = (case m s of
     (Ok x, s') \<Rightarrow> f x s'
   | (Err e, s') \<Rightarrow> (Err e, s')
   | (Panic, s') \<Rightarrow> (Panic, s')
   | (OutOfFuel, s') \<Rightarrow> (OutOfFuel, s'))"

text \<open>An outcome that does not touch the state, and a partial update of the state.\<close>

definition act_res :: "('a, 'e) res \<Rightarrow> ('s, 'a, 'e) act" where
  "act_res r s = (r, s)"

definition act_option :: "('s \<Rightarrow> ('a \<times> 's) option) \<Rightarrow> ('s, 'a, 'e) act" where
  "act_option f s = (case f s of None \<Rightarrow> (Panic, s) | Some (x, s') \<Rightarrow> (Ok x, s'))"

definition act_assert :: "bool \<Rightarrow> ('s, unit, 'e) act" where
  "act_assert b = (if b then act_ret () else act_panic)"

definition act_map_err :: "('e \<Rightarrow> 'f) \<Rightarrow> ('s, 'a, 'e) act \<Rightarrow> ('s, 'a, 'f) act" where
  "act_map_err f m s = (case m s of
     (Ok x, s') \<Rightarrow> (Ok x, s')
   | (Err e, s') \<Rightarrow> (Err (f e), s')
   | (Panic, s') \<Rightarrow> (Panic, s')
   | (OutOfFuel, s') \<Rightarrow> (OutOfFuel, s'))"

text \<open>A \<open>for\<close> loop over a list.\<close>

fun act_for :: "'x list \<Rightarrow> ('x \<Rightarrow> ('s, unit, 'e) act) \<Rightarrow> ('s, unit, 'e) act" where
  "act_for [] f = act_ret ()"
| "act_for (x # xs) f = act_bind (f x) (\<lambda>_. act_for xs f)"

lemma act_bind_cong [fundef_cong]:
  assumes "m s = m' s'" "\<And>x t. m' s' = (Ok x, t) \<Longrightarrow> f x t = f' x t"
  shows "act_bind m f s = act_bind m' f' s'"
  using assms by (auto simp: act_bind_def split: prod.split res.split)

lemma act_bind_Ok_iff:
  "act_bind m f s = (Ok y, s'') \<longleftrightarrow> (\<exists>x s'. m s = (Ok x, s') \<and> f x s' = (Ok y, s''))"
  by (auto simp: act_bind_def split: prod.splits res.splits)

lemma act_option_Ok_iff: "act_option f s = (Ok x, s') \<longleftrightarrow> f s = Some (x, s')"
  by (auto simp: act_option_def split: option.splits)

lemma act_for_append: "act_for (xs @ ys) f s = act_bind (act_for xs f) (\<lambda>_. act_for ys f) s"
  by (induction xs arbitrary: s) (auto simp: act_bind_def act_ret_def split: prod.split res.split)

text \<open>A relation between states that every iteration respects, whatever its outcome.\<close>

lemma act_for_rel:
  assumes R: "\<And>s. R s s" "\<And>a b c. R a b \<Longrightarrow> R b c \<Longrightarrow> R a c"
    and step: "\<And>x s r s'. f x s = (r, s') \<Longrightarrow> R s s'"
  shows "act_for xs f s = (r, s') \<Longrightarrow> R s s'"
proof (induction xs arbitrary: s)
  case Nil
  then show ?case using R(1) by (simp add: act_ret_def)
next
  case (Cons x xs)
  obtain r1 s1 where one: "f x s = (r1, s1)" by fastforce
  show ?case
  proof (cases r1)
    case (Ok u)
    with Cons.prems one have "act_for xs f s1 = (r, s')" by (simp add: act_bind_def)
    from R(2) [OF step [OF one] Cons.IH [OF this]] show ?thesis .
  qed (use Cons.prems one step [OF one] in \<open>auto simp: act_bind_def\<close>)
qed

lemmas act_defs = act_ret_def act_err_def act_panic_def act_out_of_fuel_def act_get_def act_modify_def
  act_res_def act_option_def act_assert_def

section \<open>Weakest preconditions\<close>

text \<open>Panics and exhausted fuel are outcomes about which nothing is claimed here.\<close>

definition wp :: "('s, 'a, 'e) act \<Rightarrow> ('a \<Rightarrow> 's \<Rightarrow> bool) \<Rightarrow> ('e \<Rightarrow> 's \<Rightarrow> bool) \<Rightarrow> 's \<Rightarrow> bool" where
  "wp m Q E s \<longleftrightarrow> (case m s of
     (Ok x, s') \<Rightarrow> Q x s'
   | (Err e, s') \<Rightarrow> E e s'
   | (_, s') \<Rightarrow> True)"

lemma wp_ret [simp, wp_rules]: "wp (act_ret x) Q E s \<longleftrightarrow> Q x s"
  by (simp add: wp_def act_ret_def)

lemma wp_err [simp, wp_rules]: "wp (act_err e) Q E s \<longleftrightarrow> E e s"
  by (simp add: wp_def act_err_def)

lemma wp_panic [simp, wp_rules]: "wp act_panic Q E s"
  by (simp add: wp_def act_panic_def)

lemma wp_out_of_fuel [simp, wp_rules]: "wp act_out_of_fuel Q E s"
  by (simp add: wp_def act_out_of_fuel_def)

lemma wp_get [simp, wp_rules]: "wp (act_get f) Q E s \<longleftrightarrow> Q (f s) s"
  by (simp add: wp_def act_get_def)

lemma wp_modify [simp, wp_rules]: "wp (act_modify f) Q E s \<longleftrightarrow> Q () (f s)"
  by (simp add: wp_def act_modify_def)

lemma wp_bind [simp, wp_rules]: "wp (act_bind m f) Q E s \<longleftrightarrow> wp m (\<lambda>x. wp (f x) Q E) E s"
  by (simp add: wp_def act_bind_def split: prod.split res.split)

lemma wp_res [simp, wp_rules]:
  "wp (act_res r) Q E s \<longleftrightarrow> (case r of Ok x \<Rightarrow> Q x s | Err e \<Rightarrow> E e s | _ \<Rightarrow> True)"
  by (simp add: wp_def act_res_def split: res.split)

lemma wp_option [simp, wp_rules]:
  "wp (act_option f) Q E s \<longleftrightarrow> (\<forall>x s'. f s = Some (x, s') \<longrightarrow> Q x s')"
  by (auto simp: wp_def act_option_def split: option.split prod.split)

lemma wp_assert [simp, wp_rules]: "wp (act_assert b) Q E s \<longleftrightarrow> (b \<longrightarrow> Q () s)"
  by (simp add: act_assert_def)

lemma wp_map_err [simp, wp_rules]: "wp (act_map_err f m) Q E s \<longleftrightarrow> wp m Q (\<lambda>e. E (f e)) s"
  by (simp add: wp_def act_map_err_def split: prod.split res.split)

lemma wp_mono:
  assumes "wp m Q E s" "\<And>x s'. Q x s' \<Longrightarrow> Q' x s'" "\<And>e s'. E e s' \<Longrightarrow> E' e s'"
  shows "wp m Q' E' s"
  using assms by (auto simp: wp_def split: prod.splits res.splits)

lemma wp_conj: "wp m Q E s \<Longrightarrow> wp m Q' E' s \<Longrightarrow> wp m (\<lambda>x s. Q x s \<and> Q' x s) (\<lambda>e s. E e s \<and> E' e s) s"
  by (auto simp: wp_def split: prod.splits res.splits)

lemma wp_for:
  assumes "I s" "\<And>x s. x \<in> set xs \<Longrightarrow> I s \<Longrightarrow> wp (f x) (\<lambda>_. I) E s"
  shows "wp (act_for xs f) (\<lambda>_. I) E s"
  using assms
proof (induction xs arbitrary: s)
  case (Cons x xs)
  have "wp (f x) (\<lambda>_. I) E s" using Cons.prems by simp
  then show ?case
    by (auto elim!: wp_mono intro!: Cons.IH Cons.prems(2))
qed simp

lemma wp_resultD:
  "wp m Q E s \<Longrightarrow> m s = (Ok x, s') \<Longrightarrow> Q x s'" "wp m Q E s \<Longrightarrow> m s = (Err e, s') \<Longrightarrow> E e s'"
  by (simp_all add: wp_def)

text \<open>An invariant kept by an action whatever its outcome, panics apart.\<close>

definition keeps :: "('s \<Rightarrow> bool) \<Rightarrow> ('s, 'a, 'e) act \<Rightarrow> bool" where
  "keeps I m \<longleftrightarrow> (\<forall>s. I s \<longrightarrow> wp m (\<lambda>_. I) (\<lambda>_. I) s)"

lemma keepsD: "keeps I m \<Longrightarrow> I s \<Longrightarrow> wp m (\<lambda>_. I) (\<lambda>_. I) s"
  by (simp add: keeps_def)

lemma keepsI: "(\<And>s. I s \<Longrightarrow> wp m (\<lambda>_. I) (\<lambda>_. I) s) \<Longrightarrow> keeps I m"
  by (simp add: keeps_def)

lemma keeps_bind:
  assumes "keeps I m" "\<And>x. keeps I (f x)"
  shows "keeps I (act_bind m f)"
proof (rule keepsI)
  fix s
  assume "I s"
  from keepsD [OF assms(1) this] show "wp (act_bind m f) (\<lambda>_. I) (\<lambda>_. I) s"
    unfolding wp_bind by (rule wp_mono) (simp_all add: keepsD [OF assms(2)])
qed

lemma keeps_simple [simp]:
  "keeps I (act_ret x)" "keeps I (act_err e)" "keeps I act_panic" "keeps I act_out_of_fuel" "keeps I (act_get f)"
  "keeps I (act_assert b)" "keeps I (act_res r)"
  by (auto simp: keeps_def split: res.split)

lemma keeps_for: "(\<And>x. x \<in> set xs \<Longrightarrow> keeps I (f x)) \<Longrightarrow> keeps I (act_for xs f)"
  by (rule keepsI, rule wp_for) (simp_all add: keepsD)

lemma keeps_map_err: "keeps I m \<Longrightarrow> keeps I (act_map_err f m)"
  by (simp add: keeps_def)

end
