(* ===== verification/Endpoints.thy ===== *)
theory Endpoints
  imports Action_Monad Round_Ctx Errors
begin

text \<open>
  The messages between connectors (\<open>src/runtime/mod.rs\<close>) and the manager of their
  endpoints (\<open>src/runtime/endpoints.rs\<close>, \<open>TokenTarget\<close> of \<open>src/runtime/setup.rs\<close>).
  The operating system and the \<open>bincode\<close> crate are the argument \<open>net\<close>, a record of
  functions on a world of arbitrary type: what one read, write or poll returns, the clock,
  and serialization. The log and the contents of the scratch byte buffer are left out.
  Loops that wait for the network take fuel.
\<close>

section \<open>Messages\<close>

datatype Decision = Failure | Success Predicate

record MyPortInfo =
  mpi_polarity :: Polarity
  mpi_port :: PortId
  mpi_owner :: ComponentId

datatype SetupMsg = MyPortInfo MyPortInfo | LeaderWave u32 | LeaderAnnounce u32 | YouAreMyParent

datatype CommCtrlMsg = Suggest Decision | Announce Decision

datatype CommMsgContents = SendPayload SendPayloadMsg | CommCtrl CommCtrlMsg

record CommMsg =
  cm_round_index :: nat
  contents :: CommMsgContents

datatype Msg = SetupMsg SetupMsg | CommMsg CommMsg

section \<open>Poll tokens\<close>

datatype TokenTarget = TokenNetEndpoint usize | TokenUdpEndpoint usize

definition HALFWAY_INDEX :: usize where
  "HALFWAY_INDEX = (- 1) div 2"

definition TokenTarget_from :: "usize \<Rightarrow> TokenTarget" where
  "TokenTarget_from index =
     (if HALFWAY_INDEX \<le> index then TokenUdpEndpoint (index - HALFWAY_INDEX) else TokenNetEndpoint index)"

text \<open>The addition panics on overflow.\<close>

definition TokenTarget_into :: "TokenTarget \<Rightarrow> usize option" where
  "TokenTarget_into t = (case t of
     TokenUdpEndpoint index \<Rightarrow>
       if unat index + unat HALFWAY_INDEX < 2 ^ 64 then Some (index + HALFWAY_INDEX) else None
   | TokenNetEndpoint index \<Rightarrow> Some index)"

section \<open>The network\<close>

datatype ReadOutcome = ReadOk nat | ReadWouldBlock | ReadFailed

datatype Deserialized = DeOk Msg nat | DeUnexpectedEof | DeMalformed

text \<open>
  \<open>stream_read\<close> is one \<open>read_to_end\<close>: the bytes it appends and what it returns.
  \<open>deserialize\<close> gives the message and the number of bytes it takes. \<open>poll_events\<close> gives
  the tokens of the ready sources. \<open>stream_local_addr\<close> is the answer of \<open>local_addr\<close>, which
  the source unwraps.
\<close>

record 'w Net =
  stream_read :: "nat \<Rightarrow> 'w \<Rightarrow> (u8 list \<times> ReadOutcome) \<times> 'w"
  stream_write :: "nat \<Rightarrow> u8 list \<Rightarrow> 'w \<Rightarrow> bool \<times> 'w"
  stream_local_addr :: "nat \<Rightarrow> 'w \<Rightarrow> SocketAddr option"
  sock_recv :: "nat \<Rightarrow> 'w \<Rightarrow> u8 list option \<times> 'w"
  sock_send :: "nat \<Rightarrow> u8 list \<Rightarrow> 'w \<Rightarrow> bool \<times> 'w"
  poll_events :: "nat option \<Rightarrow> 'w \<Rightarrow> usize list option \<times> 'w"
  clock_now :: "'w \<Rightarrow> nat \<times> 'w"
  serialize :: "Msg \<Rightarrow> u8 list option"
  deserialize :: "u8 list \<Rightarrow> Deserialized"

record NetEndpoint =
  ne_inbox :: "u8 list"
  ne_stream :: nat

record NetEndpointExt =
  net_endpoint :: NetEndpoint
  net_getter_for_incoming :: PortId

record UdpEndpointExt =
  sock :: nat
  received_this_round :: bool
  outgoing_payloads :: "(Predicate, Payload) hash_map"
  udp_getter_for_incoming :: PortId

record 'a EndpointStore =
  endpoint_exts :: "'a list"
  polled_undrained :: "nat VecSet"

record EndpointManager =
  delayed_messages :: "(nat \<times> Msg) list"
  undelayed_messages :: "(nat \<times> Msg) list"
  net_endpoint_store :: "NetEndpointExt EndpointStore"
  udp_endpoint_store :: "UdpEndpointExt EndpointStore"

record 'w NetState =
  world :: 'w
  em :: EndpointManager

record 'w RecvState = "'w NetState" +
  rs_rctx :: RoundCtx

datatype PollAndPopulateError = Pape_PollFailed | Pape_Timeout

record TryRecvAnyNetError =
  trane_error :: NetEndpointError
  trane_index :: nat

datatype CommRecvOk = TimeoutWithoutNew | NewPayloadMsgs | NewControlMsg nat CommCtrlMsg

definition CAPACITY :: nat where
  "CAPACITY = 65535 + 1000"

section \<open>One endpoint\<close>

text \<open>\<open>'read_loop\<close>: read until the stream would block or reports its end.\<close>

fun read_loop :: "nat \<Rightarrow> 'w Net \<Rightarrow> nat \<Rightarrow> u8 list \<Rightarrow> 'w \<Rightarrow> (unit, NetEndpointError) res \<times> u8 list \<times> 'w" where
  "read_loop 0 net h inbx w = (OutOfFuel, inbx, w)"
| "read_loop (Suc fuel) net h inbx w =
     (case stream_read net h w of
        ((bytes, ReadWouldBlock), w') \<Rightarrow> (Ok (), inbx @ bytes, w')
      | ((bytes, ReadOk n), w') \<Rightarrow>
          if n = 0 then (Ok (), inbx @ bytes, w') else read_loop fuel net h (inbx @ bytes) w'
      | ((bytes, ReadFailed), w') \<Rightarrow> (Err Nee_BrokenNetEndpoint, inbx @ bytes, w'))"

definition try_recv :: "nat \<Rightarrow> 'w Net \<Rightarrow> NetEndpoint \<Rightarrow> 'w \<Rightarrow> (Msg option, NetEndpointError) res \<times> NetEndpoint \<times> 'w" where
  "try_recv fuel net ne w =
     (case read_loop fuel net (ne_stream ne) (ne_inbox ne) w of
        (Ok _, inbx, w') \<Rightarrow>
          (case deserialize net inbx of
             DeOk msg msg_size \<Rightarrow> (Ok (Some msg), ne\<lparr>ne_inbox := drop msg_size inbx\<rparr>, w')
           | DeUnexpectedEof \<Rightarrow> (Ok None, ne\<lparr>ne_inbox := inbx\<rparr>, w')
           | DeMalformed \<Rightarrow> (Err Nee_MalformedMessage, ne\<lparr>ne_inbox := inbx\<rparr>, w'))
      | (Err e, inbx, w') \<Rightarrow> (Err e, ne\<lparr>ne_inbox := inbx\<rparr>, w')
      | (Panic, inbx, w') \<Rightarrow> (Panic, ne\<lparr>ne_inbox := inbx\<rparr>, w')
      | (OutOfFuel, inbx, w') \<Rightarrow> (OutOfFuel, ne\<lparr>ne_inbox := inbx\<rparr>, w'))"

text \<open>The message is serialized into a buffer of fixed size; \<open>expect\<close> panics otherwise.\<close>

definition net_endpoint_send :: "'w Net \<Rightarrow> NetEndpoint \<Rightarrow> Msg \<Rightarrow> 'w \<Rightarrow> (unit, NetEndpointError) res \<times> 'w" where
  "net_endpoint_send net ne msg w =
     (case serialize net msg of
        None \<Rightarrow> (Panic, w)
      | Some bytes \<Rightarrow>
          if CAPACITY < length bytes then (Panic, w)
          else case stream_write net (ne_stream ne) bytes w of
            (True, w') \<Rightarrow> (Ok (), w')
          | (False, w') \<Rightarrow> (Err Nee_BrokenNetEndpoint, w'))"

section \<open>The endpoint manager\<close>

definition num_net_endpoints :: "EndpointManager \<Rightarrow> nat" where
  "num_net_endpoints m = length (endpoint_exts (net_endpoint_store m))"

definition index_iter :: "EndpointManager \<Rightarrow> nat list" where
  "index_iter m = [0 ..< num_net_endpoints m]"

text \<open>
  Sending to the endpoint at an index; the index panics when it is out of range, and so does
  the conversion \<open>err\<close> of an error when it is \<open>None\<close>.
\<close>

definition send_to :: "'w Net \<Rightarrow> (NetEndpointError \<Rightarrow> NetEndpoint \<Rightarrow> 'w \<Rightarrow> 'e option) \<Rightarrow> nat \<Rightarrow> Msg \<Rightarrow>
    (('w, 'z) NetState_scheme, unit, 'e) act" where
  "send_to net err index msg s =
     (let exts = endpoint_exts (net_endpoint_store (em s)) in
      if index < length exts then
        (case net_endpoint_send net (net_endpoint (exts ! index)) msg (world s) of
           (Ok _, w') \<Rightarrow> (Ok (), s\<lparr>world := w'\<rparr>)
         | (Err e, w') \<Rightarrow>
             ((case err e (net_endpoint (exts ! index)) w' of None \<Rightarrow> Panic | Some x \<Rightarrow> Err x), s\<lparr>world := w'\<rparr>)
         | (Panic, w') \<Rightarrow> (Panic, s\<lparr>world := w'\<rparr>)
         | (OutOfFuel, w') \<Rightarrow> (OutOfFuel, s\<lparr>world := w'\<rparr>))
      else (Panic, s))"

definition send_to_setup :: "'w Net \<Rightarrow> nat \<Rightarrow> Msg \<Rightarrow> (('w, 'z) NetState_scheme, unit, ConnectError) act" where
  "send_to_setup net = send_to net (\<lambda>e ne w.
     map_option (\<lambda>addr. NetEndpointSetupError addr e) (stream_local_addr net (ne_stream ne) w))"

definition send_to_comms :: "'w Net \<Rightarrow> nat \<Rightarrow> Msg \<Rightarrow> (('w, 'z) NetState_scheme, unit, UnrecoverableSyncError) act" where
  "send_to_comms net index = send_to net (\<lambda>_ _ _. Some (BrokenNetEndpoint index)) index"

definition set_net_undrained :: "nat VecSet \<Rightarrow> EndpointManager \<Rightarrow> EndpointManager" where
  "set_net_undrained v m = m\<lparr>net_endpoint_store := (net_endpoint_store m)\<lparr>polled_undrained := v\<rparr>\<rparr>"

definition set_udp_undrained :: "nat VecSet \<Rightarrow> EndpointManager \<Rightarrow> EndpointManager" where
  "set_udp_undrained v m = m\<lparr>udp_endpoint_store := (udp_endpoint_store m)\<lparr>polled_undrained := v\<rparr>\<rparr>"

definition set_net_endpoint :: "nat \<Rightarrow> NetEndpoint \<Rightarrow> EndpointManager \<Rightarrow> EndpointManager" where
  "set_net_endpoint index ne m = m\<lparr>net_endpoint_store := (net_endpoint_store m)\<lparr>endpoint_exts :=
     (endpoint_exts (net_endpoint_store m))[index := (endpoint_exts (net_endpoint_store m) ! index)\<lparr>net_endpoint := ne\<rparr>]\<rparr>\<rparr>"

definition set_udp_ext :: "nat \<Rightarrow> UdpEndpointExt \<Rightarrow> EndpointManager \<Rightarrow> EndpointManager" where
  "set_udp_ext index ee m = m\<lparr>udp_endpoint_store := (udp_endpoint_store m)\<lparr>endpoint_exts :=
     (endpoint_exts (udp_endpoint_store m))[index := ee]\<rparr>\<rparr>"

text \<open>
  The loop over the undrained endpoints. \<open>n\<close> counts how many are left; it starts at
  their number, and each iteration removes one.
\<close>

fun try_recv_undrained_loop :: "nat \<Rightarrow> nat \<Rightarrow> 'w Net \<Rightarrow> (('w, 'z) NetState_scheme, (nat \<times> Msg) option, TryRecvAnyNetError) act" where
  "try_recv_undrained_loop 0 fuel net s =
     (if vec (polled_undrained (net_endpoint_store (em s))) = [] then (Ok None, s) else (OutOfFuel, s))"
| "try_recv_undrained_loop (Suc n) fuel net s =
     (case VecSet_pop (polled_undrained (net_endpoint_store (em s))) of
        None \<Rightarrow> (Ok None, s)
      | Some (index, rest) \<Rightarrow>
          (let s1 = s\<lparr>em := set_net_undrained rest (em s)\<rparr>;
              exts = endpoint_exts (net_endpoint_store (em s)) in
          if index < length exts then
            (case try_recv fuel net (net_endpoint (exts ! index)) (world s1) of
               (Ok (Some msg), ne, w) \<Rightarrow>
                 let m = set_net_endpoint index ne (em s1);
                     m' = (if ne_inbox ne \<noteq> []
                           then set_net_undrained (snd (VecSet_insert index (polled_undrained (net_endpoint_store m)))) m
                           else m) in
                 (Ok (Some (index, msg)), s1\<lparr>world := w, em := m'\<rparr>)
             | (Ok None, ne, w) \<Rightarrow>
                 try_recv_undrained_loop n fuel net (s1\<lparr>world := w, em := set_net_endpoint index ne (em s1)\<rparr>)
             | (Err e, ne, w) \<Rightarrow>
                 (Err \<lparr>trane_error = e, trane_index = index\<rparr>, s1\<lparr>world := w, em := set_net_endpoint index ne (em s1)\<rparr>)
             | (Panic, ne, w) \<Rightarrow> (Panic, s1\<lparr>world := w\<rparr>)
             | (OutOfFuel, ne, w) \<Rightarrow> (OutOfFuel, s1\<lparr>world := w\<rparr>))
          else (Panic, s1)))"

definition try_recv_undrained_net :: "nat \<Rightarrow> 'w Net \<Rightarrow> (('w, 'z) NetState_scheme, (nat \<times> Msg) option, TryRecvAnyNetError) act" where
  "try_recv_undrained_net fuel net s =
     try_recv_undrained_loop (length (vec (polled_undrained (net_endpoint_store (em s))))) fuel net s"

definition mark_event :: "usize \<Rightarrow> EndpointManager \<Rightarrow> EndpointManager" where
  "mark_event token m = (case TokenTarget_from token of
     TokenNetEndpoint index \<Rightarrow>
       set_net_undrained (snd (VecSet_insert (unat index) (polled_undrained (net_endpoint_store m)))) m
   | TokenUdpEndpoint index \<Rightarrow>
       set_udp_undrained (snd (VecSet_insert (unat index) (polled_undrained (udp_endpoint_store m)))) m)"

text \<open>
  \<open>checked_duration_since\<close> fails when the deadline lies before the present instant.
\<close>

definition poll_and_populate :: "'w Net \<Rightarrow> nat option \<Rightarrow> (('w, 'z) NetState_scheme, unit, PollAndPopulateError) act" where
  "poll_and_populate net dl s =
     (let (remaining, w) = (case dl of
            None \<Rightarrow> (Some None, world s)
          | Some d \<Rightarrow> let (t, w) = clock_now net (world s) in (if t \<le> d then Some (Some (d - t)) else None, w)) in
      case remaining of
        None \<Rightarrow> (Err Pape_Timeout, s\<lparr>world := w\<rparr>)
      | Some r \<Rightarrow>
          (case poll_events net r w of
             (None, w') \<Rightarrow> (Err Pape_PollFailed, s\<lparr>world := w'\<rparr>)
           | (Some tokens, w') \<Rightarrow> (Ok (), s\<lparr>world := w', em := fold mark_event tokens (em s)\<rparr>)))"

definition undelay_all :: "EndpointManager \<Rightarrow> EndpointManager" where
  "undelay_all m =
     (if undelayed_messages m = []
      then m\<lparr>delayed_messages := undelayed_messages m, undelayed_messages := delayed_messages m\<rparr>
      else m\<lparr>undelayed_messages := undelayed_messages m @ delayed_messages m, delayed_messages := []\<rparr>)"

text \<open>The address of the endpoint that failed; \<open>None\<close> is the panic when it has none.\<close>

definition map_trane :: "'w Net \<Rightarrow> TryRecvAnyNetError \<Rightarrow> ('w, 'z) NetState_scheme \<Rightarrow> ConnectError option" where
  "map_trane net trane s = map_option (\<lambda>addr. NetEndpointSetupError addr (trane_error trane))
     (stream_local_addr net
       (ne_stream (net_endpoint (endpoint_exts (net_endpoint_store (em s)) ! trane_index trane))) (world s))"

definition ConnectError_from_pape :: "PollAndPopulateError \<Rightarrow> ConnectError" where
  "ConnectError_from_pape pape = (case pape of Pape_PollFailed \<Rightarrow> PollFailed | Pape_Timeout \<Rightarrow> Timeout)"

fun recv_setup_loop :: "nat \<Rightarrow> 'w Net \<Rightarrow> nat option \<Rightarrow> (('w, 'z) NetState_scheme, nat \<times> Msg, ConnectError) act" where
  "recv_setup_loop 0 net dl s = (OutOfFuel, s)"
| "recv_setup_loop (Suc fuel) net dl s =
     (case try_recv_undrained_net fuel net s of
        (Ok (Some tup), s') \<Rightarrow> (Ok tup, s')
      | (Ok None, s') \<Rightarrow>
          (case poll_and_populate net dl s' of
             (Ok _, s'') \<Rightarrow> recv_setup_loop fuel net dl s''
           | (Err pape, s'') \<Rightarrow> (Err (ConnectError_from_pape pape), s'')
           | (Panic, s'') \<Rightarrow> (Panic, s'')
           | (OutOfFuel, s'') \<Rightarrow> (OutOfFuel, s''))
      | (Err trane, s') \<Rightarrow> ((case map_trane net trane s' of None \<Rightarrow> Panic | Some e \<Rightarrow> Err e), s')
      | (Panic, s') \<Rightarrow> (Panic, s')
      | (OutOfFuel, s') \<Rightarrow> (OutOfFuel, s'))"

definition try_recv_any_setup :: "nat \<Rightarrow> 'w Net \<Rightarrow> nat option \<Rightarrow> (('w, 'z) NetState_scheme, nat \<times> Msg, ConnectError) act" where
  "try_recv_any_setup fuel net dl s =
     (case vec_pop (undelayed_messages (em s)) of
        Some (tup, rest) \<Rightarrow> (Ok tup, s\<lparr>em := (em s)\<lparr>undelayed_messages := rest\<rparr>\<rparr>)
      | None \<Rightarrow> recv_setup_loop fuel net dl s)"

section \<open>Receiving during a round\<close>

text \<open>
  \<open>handle_msg\<close>: the control message to return, if any, and the flag
  \<open>some_message_enqueued\<close>. \<open>None\<close> is the panic of the endpoint index.
\<close>

definition handle_msg :: "nat \<Rightarrow> Msg \<Rightarrow> nat \<Rightarrow> EndpointManager \<Rightarrow> RoundCtx \<Rightarrow> bool \<Rightarrow>
    ((nat \<times> CommCtrlMsg) option \<times> EndpointManager \<times> RoundCtx \<times> bool) option" where
  "handle_msg net_index msg round_index m rctx enqueued =
     (case msg of
        SetupMsg _ \<Rightarrow> Some (None, m, rctx, enqueued)
      | CommMsg comm_msg \<Rightarrow>
          if cm_round_index comm_msg < round_index then Some (None, m, rctx, enqueued)
          else if round_index < cm_round_index comm_msg then
            Some (None, m\<lparr>delayed_messages := delayed_messages m @ [(net_index, CommMsg comm_msg)]\<rparr>, rctx, enqueued)
          else (case contents comm_msg of
             CommCtrl comm_ctrl_msg \<Rightarrow> Some (Some (net_index, comm_ctrl_msg), m, rctx, enqueued)
           | SendPayload send_payload_msg \<Rightarrow>
               if net_index < length (endpoint_exts (net_endpoint_store m)) then
                 Some (None, m, getter_push
                   (net_getter_for_incoming (endpoint_exts (net_endpoint_store m) ! net_index)) send_payload_msg rctx, True)
               else None))"

text \<open>The messages delayed in earlier rounds are handled first; the count is as above.\<close>

fun undelayed_loop :: "nat \<Rightarrow> nat \<Rightarrow> bool \<Rightarrow> (('w, 'z) RecvState_scheme, (nat \<times> CommCtrlMsg) option \<times> bool, UnrecoverableSyncError) act" where
  "undelayed_loop 0 round_index enqueued s =
     (if undelayed_messages (em s) = [] then (Ok (None, enqueued), s) else (OutOfFuel, s))"
| "undelayed_loop (Suc n) round_index enqueued s =
     (case vec_pop (undelayed_messages (em s)) of
        None \<Rightarrow> (Ok (None, enqueued), s)
      | Some ((net_index, msg), rest) \<Rightarrow>
          (let s1 = s\<lparr>em := (em s)\<lparr>undelayed_messages := rest\<rparr>\<rparr> in
          (case handle_msg net_index msg round_index (em s1) (rs_rctx s1) enqueued of
             None \<Rightarrow> (Panic, s1)
           | Some (Some ctrl, m, rctx, enq) \<Rightarrow> (Ok (Some ctrl, enq), s1\<lparr>em := m, rs_rctx := rctx\<rparr>)
           | Some (None, m, rctx, enq) \<Rightarrow> undelayed_loop n round_index enq (s1\<lparr>em := m, rs_rctx := rctx\<rparr>))))"

fun net_drain_loop :: "nat \<Rightarrow> 'w Net \<Rightarrow> nat \<Rightarrow> bool \<Rightarrow> (('w, 'z) RecvState_scheme, (nat \<times> CommCtrlMsg) option \<times> bool, UnrecoverableSyncError) act" where
  "net_drain_loop 0 net round_index enqueued s = (OutOfFuel, s)"
| "net_drain_loop (Suc fuel) net round_index enqueued s =
     (case try_recv_undrained_net fuel net s of
        (Ok None, s') \<Rightarrow> (Ok (None, enqueued), s')
      | (Ok (Some (net_index, msg)), s') \<Rightarrow>
          (case handle_msg net_index msg round_index (em s') (rs_rctx s') enqueued of
             None \<Rightarrow> (Panic, s')
           | Some (Some ctrl, m, rctx, enq) \<Rightarrow> (Ok (Some ctrl, enq), s'\<lparr>em := m, rs_rctx := rctx\<rparr>)
           | Some (None, m, rctx, enq) \<Rightarrow> net_drain_loop fuel net round_index enq (s'\<lparr>em := m, rs_rctx := rctx\<rparr>))
      | (Err trane, s') \<Rightarrow> (Err (BrokenNetEndpoint (trane_index trane)), s')
      | (Panic, s') \<Rightarrow> (Panic, s')
      | (OutOfFuel, s') \<Rightarrow> (OutOfFuel, s'))"

text \<open>The datagrams of one endpoint after the first are lost until the round ends.\<close>

fun udp_drain_loop :: "nat \<Rightarrow> 'w Net \<Rightarrow> bool \<Rightarrow> (('w, 'z) RecvState_scheme, bool, UnrecoverableSyncError) act" where
  "udp_drain_loop 0 net enqueued s = (OutOfFuel, s)"
| "udp_drain_loop (Suc fuel) net enqueued s =
     (case VecSet_pop (polled_undrained (udp_endpoint_store (em s))) of
        None \<Rightarrow> (Ok enqueued, s)
      | Some (index, rest) \<Rightarrow>
          let s1 = s\<lparr>em := set_udp_undrained rest (em s)\<rparr>;
              exts = endpoint_exts (udp_endpoint_store (em s)) in
          if index < length exts then
            let ee = exts ! index in
            (case sock_recv net (sock ee) (world s1) of
               (None, w) \<Rightarrow> udp_drain_loop fuel net enqueued (s1\<lparr>world := w\<rparr>)
             | (Some bytes, w) \<Rightarrow>
                 let m = set_udp_undrained (snd (VecSet_insert index rest)) (em s1) in
                 if \<not> received_this_round ee then
                   (case spec_var_for (rc_ports (rs_rctx s1)) (udp_getter_for_incoming ee) of
                      None \<Rightarrow> (Panic, s1\<lparr>world := w, em := m\<rparr>)
                    | Some port_spec_var \<Rightarrow>
                        udp_drain_loop fuel net True
                          (s1\<lparr>world := w, em := set_udp_ext index (ee\<lparr>received_this_round := True\<rparr>) m,
                              rs_rctx := getter_push (udp_getter_for_incoming ee)
                                \<lparr>spm_predicate = singleton port_spec_var FIRING, spm_payload = bytes\<rparr> (rs_rctx s1)\<rparr>))
                 else udp_drain_loop fuel net enqueued (s1\<lparr>world := w, em := m\<rparr>))
          else (Panic, s1))"

fun recv_comms_loop :: "nat \<Rightarrow> 'w Net \<Rightarrow> nat \<Rightarrow> bool \<Rightarrow> (('w, 'z) RecvState_scheme, CommRecvOk, UnrecoverableSyncError) act" where
  "recv_comms_loop 0 net round_index enqueued s = (OutOfFuel, s)"
| "recv_comms_loop (Suc fuel) net round_index enqueued s =
     act_bind (net_drain_loop fuel net round_index enqueued) (\<lambda>(ctrl, enq).
       case ctrl of
         Some (net_index, msg) \<Rightarrow> act_ret (NewControlMsg net_index msg)
       | None \<Rightarrow> act_bind (udp_drain_loop fuel net enq) (\<lambda>enq'.
           if enq' then act_ret NewPayloadMsgs
           else (\<lambda>s. case poll_and_populate net (deadline (rs_rctx s)) s of
                   (Ok _, s') \<Rightarrow> recv_comms_loop fuel net round_index enq' s'
                 | (Err Pape_Timeout, s') \<Rightarrow> (Ok TimeoutWithoutNew, s')
                 | (Err Pape_PollFailed, s') \<Rightarrow> (Err Use_PollFailed, s')
                 | (Panic, s') \<Rightarrow> (Panic, s')
                 | (OutOfFuel, s') \<Rightarrow> (OutOfFuel, s')))) s"

definition try_recv_any_comms :: "nat \<Rightarrow> 'w Net \<Rightarrow> nat \<Rightarrow> (('w, 'z) RecvState_scheme, CommRecvOk, UnrecoverableSyncError) act" where
  "try_recv_any_comms fuel net round_index s =
     act_bind (undelayed_loop (length (undelayed_messages (em s))) round_index False) (\<lambda>(ctrl, enq).
       case ctrl of
         Some (net_index, msg) \<Rightarrow> act_ret (NewControlMsg net_index msg)
       | None \<Rightarrow> recv_comms_loop fuel net round_index enq) s"

section \<open>The end of a round\<close>

text \<open>
  The first buffered payload whose predicate is part of the solution is sent; leaving the
  loop drops the drained map, so the buffer is empty afterwards on every path.
\<close>

fun outgoing_loop :: "'w Net \<Rightarrow> nat \<Rightarrow> nat \<Rightarrow> Predicate \<Rightarrow> (Predicate \<times> Payload) list \<Rightarrow> 'w \<Rightarrow>
    (unit, UnrecoverableSyncError) res \<times> 'w" where
  "outgoing_loop net index h solution [] w = (Ok (), w)"
| "outgoing_loop net index h solution ((payload_predicate, payload) # out) w =
     (if assigns_subset payload_predicate solution then
        (case sock_send net h payload w of
           (True, w') \<Rightarrow> (Ok (), w')
         | (False, w') \<Rightarrow> (Err (BrokenUdpEndpoint index), w'))
      else outgoing_loop net index h solution out w)"

definition udp_endpoint_round_end :: "'w Net \<Rightarrow> Predicate \<Rightarrow> nat \<Rightarrow> (('w, 'z) NetState_scheme, unit, UnrecoverableSyncError) act" where
  "udp_endpoint_round_end net solution index s =
     (let ee = endpoint_exts (udp_endpoint_store (em s)) ! index in
      case outgoing_loop net index (sock ee) solution (outgoing_payloads ee) (world s) of
        (Ok _, w) \<Rightarrow> (Ok (), s\<lparr>world := w,
            em := set_udp_ext index (ee\<lparr>outgoing_payloads := [], received_this_round := False\<rparr>) (em s)\<rparr>)
      | (Err e, w) \<Rightarrow> (Err e, s\<lparr>world := w, em := set_udp_ext index (ee\<lparr>outgoing_payloads := []\<rparr>) (em s)\<rparr>)
      | (Panic, w) \<Rightarrow> (Panic, s\<lparr>world := w\<rparr>)
      | (OutOfFuel, w) \<Rightarrow> (OutOfFuel, s\<lparr>world := w\<rparr>))"

definition udp_endpoints_round_end :: "'w Net \<Rightarrow> Decision \<Rightarrow> (('w, 'z) NetState_scheme, unit, UnrecoverableSyncError) act" where
  "udp_endpoints_round_end net decision s =
     (case decision of
        Success solution \<Rightarrow>
          act_for [0 ..< length (endpoint_exts (udp_endpoint_store (em s)))] (udp_endpoint_round_end net solution) s
      | Failure \<Rightarrow> (Ok (), s))"

section \<open>Delayed messages\<close>

text \<open>
  The messages of a list that belong to a later round, and what the payload messages of
  the current round push, in the order of the list.
\<close>

definition later_round :: "nat \<Rightarrow> nat \<times> Msg \<Rightarrow> bool" where
  "later_round k x = (case snd x of CommMsg c \<Rightarrow> k < cm_round_index c | SetupMsg _ \<Rightarrow> False)"

definition control_of :: "nat \<Rightarrow> nat \<times> Msg \<Rightarrow> CommCtrlMsg option" where
  "control_of k x = (case snd x of
     CommMsg c \<Rightarrow> (if cm_round_index c = k then (case contents c of CommCtrl m \<Rightarrow> Some m | SendPayload _ \<Rightarrow> None) else None)
   | SetupMsg _ \<Rightarrow> None)"

definition payload_of :: "nat \<Rightarrow> NetEndpointExt list \<Rightarrow> nat \<times> Msg \<Rightarrow> (PortId \<times> SendPayloadMsg) option" where
  "payload_of k exts x = (case snd x of
     CommMsg c \<Rightarrow> (if cm_round_index c = k
        then (case contents c of SendPayload m \<Rightarrow> Some (net_getter_for_incoming (exts ! fst x), m) | CommCtrl _ \<Rightarrow> None)
        else None)
   | SetupMsg _ \<Rightarrow> None)"

lemma handle_msg_spec:
  assumes "handle_msg i msg k m rctx enq = Some (ctrl, m', rctx', enq')"
  shows "ctrl = map_option (Pair i) (control_of k (i, msg))"
    and "m' = m\<lparr>delayed_messages := delayed_messages m @ filter (later_round k) [(i, msg)]\<rparr>"
    and "rctx' = rctx\<lparr>payload_inbox := payload_inbox rctx @
      List.map_filter (payload_of k (endpoint_exts (net_endpoint_store m))) [(i, msg)]\<rparr>"
    and "enq' \<longleftrightarrow> enq \<or> payload_of k (endpoint_exts (net_endpoint_store m)) (i, msg) \<noteq> None"
  using assms
  by (auto simp: handle_msg_def control_of_def later_round_def payload_of_def getter_push_def map_filter_simps
      split: Msg.splits if_splits CommMsgContents.splits)

lemma map_filter_append: "List.map_filter f (xs @ ys) = List.map_filter f xs @ List.map_filter f ys"
  by (simp add: List.map_filter_def)

lemma undelayed_loop_spec:
  assumes "undelayed_loop n k enq s = (Ok (ctrl, enq'), s')"
  shows "\<exists>us vs. undelayed_messages (em s) = us @ vs \<and>
    s' = s\<lparr>em := (em s)\<lparr>undelayed_messages := us, delayed_messages := delayed_messages (em s) @ filter (later_round k) (rev vs)\<rparr>,
      rs_rctx := (rs_rctx s)\<lparr>payload_inbox := payload_inbox (rs_rctx s) @
        List.map_filter (payload_of k (endpoint_exts (net_endpoint_store (em s)))) (rev vs)\<rparr>\<rparr> \<and>
    (case ctrl of
       None \<Rightarrow> us = [] \<and> (\<forall>x \<in> set vs. control_of k x = None)
     | Some (i, c) \<Rightarrow> \<exists>x vs'. vs = x # vs' \<and> fst x = i \<and> control_of k x = Some c \<and> (\<forall>y \<in> set vs'. control_of k y = None))"
  using assms
proof (induction n arbitrary: enq s)
  case 0
  then have "undelayed_messages (em s) = []" "ctrl = None" "s' = s"
    by (auto split: if_splits)
  then show ?case by (auto simp: List.map_filter_def)
next
  case (Suc n)
  show ?case
  proof (cases "undelayed_messages (em s) = []")
    case True
    with Suc.prems have "ctrl = None" "s' = s" by (auto simp: vec_pop_def)
    with True show ?thesis by (auto simp: List.map_filter_def)
  next
    case False
    define us x where ux: "us = butlast (undelayed_messages (em s))" "x = last (undelayed_messages (em s))"
    have msgs: "undelayed_messages (em s) = us @ [x]" using False by (simp add: ux)
    define s1 where "s1 = s\<lparr>em := (em s)\<lparr>undelayed_messages := us\<rparr>\<rparr>"
    obtain i msg where x: "x = (i, msg)" by (cases x)
    obtain c m1 rctx1 enq1 where
      h: "handle_msg i msg k (em s1) (rs_rctx s1) enq = Some (c, m1, rctx1, enq1)"
      and res: "(case c of None \<Rightarrow> undelayed_loop n k enq1 (s1\<lparr>em := m1, rs_rctx := rctx1\<rparr>)
        | Some ctl \<Rightarrow> (Ok (Some ctl, enq1), s1\<lparr>em := m1, rs_rctx := rctx1\<rparr>)) = (Ok (ctrl, enq'), s')"
      using Suc.prems msgs x by (auto simp: vec_pop_def s1_def Let_def split: option.splits)
    note hs = handle_msg_spec [OF h]
    show ?thesis
    proof (cases c)
      case (Some ctl)
      with hs(1) obtain cm where cm: "control_of k x = Some cm" "ctl = (i, cm)"
        by (cases "control_of k x") (auto simp: x)
      have "us @ [x] = us @ x # []" by simp
      moreover have "s' = s1\<lparr>em := m1, rs_rctx := rctx1\<rparr>" "ctrl = Some (i, cm)" using res Some cm by auto
      ultimately show ?thesis
        using cm hs(2,3) msgs by (intro exI [of _ us] exI [of _ "[x]"]) (auto simp: s1_def x)
    next
      case None
      with res have loop: "undelayed_loop n k enq1 (s1\<lparr>em := m1, rs_rctx := rctx1\<rparr>) = (Ok (ctrl, enq'), s')" by simp
      have cx: "control_of k x = None" using hs(1) None by (simp add: x)
      from Suc.IH [OF loop] obtain us' vs where IH: "us = us' @ vs"
        "s' = s1\<lparr>em := m1\<lparr>undelayed_messages := us', delayed_messages := delayed_messages m1 @ filter (later_round k) (rev vs)\<rparr>,
          rs_rctx := rctx1\<lparr>payload_inbox := payload_inbox rctx1 @
            List.map_filter (payload_of k (endpoint_exts (net_endpoint_store m1))) (rev vs)\<rparr>\<rparr>"
        "case ctrl of
           None \<Rightarrow> us' = [] \<and> (\<forall>x \<in> set vs. control_of k x = None)
         | Some (i, c) \<Rightarrow> \<exists>x vs'. vs = x # vs' \<and> fst x = i \<and> control_of k x = Some c \<and> (\<forall>y \<in> set vs'. control_of k y = None)"
        using hs(2) by (auto simp: s1_def)
      have ctrl: "case ctrl of
           None \<Rightarrow> us' = [] \<and> (\<forall>y \<in> set (vs @ [x]). control_of k y = None)
         | Some (i, c) \<Rightarrow> \<exists>y vs'. vs @ [x] = y # vs' \<and> fst y = i \<and> control_of k y = Some c \<and> (\<forall>z \<in> set vs'. control_of k z = None)"
        using IH(3) cx by (cases ctrl) auto
      moreover have "s' = s\<lparr>em := (em s)\<lparr>undelayed_messages := us',
            delayed_messages := delayed_messages (em s) @ filter (later_round k) (rev (vs @ [x]))\<rparr>,
          rs_rctx := (rs_rctx s)\<lparr>payload_inbox := payload_inbox (rs_rctx s) @
            List.map_filter (payload_of k (endpoint_exts (net_endpoint_store (em s)))) (rev (vs @ [x]))\<rparr>\<rparr>"
        using IH(2) hs(2,3) by (simp add: s1_def x map_filter_append map_filter_simps split: option.split)
      ultimately show ?thesis
        using msgs IH(1) by (intro exI [of _ us'] exI [of _ "vs @ [x]"]) simp
    qed
  qed
qed

lemma undelayed_loop_fuel: "length (undelayed_messages (em s)) \<le> n \<Longrightarrow> fst (undelayed_loop n k enq s) \<noteq> OutOfFuel"
proof (induction n arbitrary: enq s)
  case 0
  then show ?case by (simp add: vec_pop_def)
next
  case (Suc n)
  show ?case
  proof (cases "undelayed_messages (em s) = []")
    case True
    then show ?thesis by (simp add: vec_pop_def)
  next
    case False
    obtain i msg where x: "last (undelayed_messages (em s)) = (i, msg)" by fastforce
    let ?s = "s\<lparr>em := (em s)\<lparr>undelayed_messages := butlast (undelayed_messages (em s))\<rparr>\<rparr>"
    show ?thesis
    proof (cases "handle_msg i msg k (em ?s) (rs_rctx ?s) enq")
      case None
      with False x show ?thesis by (simp add: vec_pop_def)
    next
      case (Some r)
      obtain c m1 rctx1 enq1 where r: "r = (c, m1, rctx1, enq1)" by (cases r)
      have "undelayed_messages m1 = butlast (undelayed_messages (em s))"
        using handle_msg_spec(2) [OF Some [unfolded r]] by simp
      then have "fst (undelayed_loop n k enq1 (?s\<lparr>em := m1, rs_rctx := rctx1\<rparr>)) \<noteq> OutOfFuel"
        using Suc.prems by (intro Suc.IH) simp
      with False x Some r show ?thesis by (cases c) (simp_all add: vec_pop_def)
    qed
  qed
qed

section \<open>Committing the outgoing datagrams\<close>

text \<open>The datagram that an endpoint sends for a solution, if any.\<close>

definition committed :: "Predicate \<Rightarrow> UdpEndpointExt \<Rightarrow> (nat \<times> Payload) list" where
  "committed solution ee =
     (case find (\<lambda>(p, _). assigns_subset p solution) (outgoing_payloads ee) of
        None \<Rightarrow> [] | Some (_, payload) \<Rightarrow> [(sock ee, payload)])"

definition send_datagrams :: "'w Net \<Rightarrow> (nat \<times> Payload) list \<Rightarrow> 'w \<Rightarrow> 'w" where
  "send_datagrams net ds w = fold (\<lambda>(h, payload) w. snd (sock_send net h payload w)) ds w"

definition udp_reset :: "UdpEndpointExt \<Rightarrow> UdpEndpointExt" where
  "udp_reset ee = ee\<lparr>outgoing_payloads := [], received_this_round := False\<rparr>"

lemma outgoing_loop_Ok:
  assumes "outgoing_loop net index h solution out w = (Ok (), w')"
  shows "w' = send_datagrams net (case find (\<lambda>(p, _). assigns_subset p solution) out of
      None \<Rightarrow> [] | Some (_, payload) \<Rightarrow> [(h, payload)]) w"
  using assms
  by (induction net index h solution out w rule: outgoing_loop.induct)
    (auto simp: send_datagrams_def split: if_splits prod.splits bool.splits)

lemma udp_endpoint_round_end_Ok:
  assumes "udp_endpoint_round_end net solution index s = (Ok (), s')"
  defines "ee \<equiv> endpoint_exts (udp_endpoint_store (em s)) ! index"
  shows "\<exists>w. outgoing_loop net index (sock ee) solution (outgoing_payloads ee) (world s) = (Ok (), w) \<and>
    s' = s\<lparr>world := w, em := set_udp_ext index (udp_reset ee) (em s)\<rparr>"
proof -
  obtain r w where rw: "outgoing_loop net index (sock ee) solution (outgoing_payloads ee) (world s) = (r, w)"
    by fastforce
  show ?thesis
    using assms(1) unfolding udp_endpoint_round_end_def ee_def [symmetric] Let_def rw
    by (cases r) (simp_all add: udp_reset_def)
qed

lemma round_end_prefix:
  assumes "act_for [0 ..< n] (udp_endpoint_round_end net solution) s = (Ok (), s')"
    and "n \<le> length (endpoint_exts (udp_endpoint_store (em s)))"
  shows "s' = s\<lparr>world := send_datagrams net
        (concat (map (committed solution) (take n (endpoint_exts (udp_endpoint_store (em s)))))) (world s),
      em := (em s)\<lparr>udp_endpoint_store := (udp_endpoint_store (em s))\<lparr>endpoint_exts :=
        map udp_reset (take n (endpoint_exts (udp_endpoint_store (em s)))) @ drop n (endpoint_exts (udp_endpoint_store (em s)))\<rparr>\<rparr>\<rparr>"
  using assms
proof (induction n arbitrary: s')
  case 0
  then show ?case by (simp add: act_ret_def send_datagrams_def)
next
  case (Suc n)
  let ?exts = "endpoint_exts (udp_endpoint_store (em s))"
  obtain s1 where s1: "act_for [0 ..< n] (udp_endpoint_round_end net solution) s = (Ok (), s1)"
    and one: "udp_endpoint_round_end net solution n s1 = (Ok (), s')"
    using Suc.prems(1) by (auto simp: act_for_append act_bind_Ok_iff act_ret_def)
  note IH = Suc.IH [OF s1 Suc_leD [OF Suc.prems(2)]]
  let ?ee = "?exts ! n"
  have ee: "endpoint_exts (udp_endpoint_store (em s1)) ! n = ?ee"
    using Suc.prems(2) by (simp add: IH nth_append)
  obtain w where out: "outgoing_loop net n (sock ?ee) solution (outgoing_payloads ?ee) (world s1) = (Ok (), w)"
    and s': "s' = s1\<lparr>world := w, em := set_udp_ext n (udp_reset ?ee) (em s1)\<rparr>"
    using udp_endpoint_round_end_Ok [OF one] unfolding ee by blast
  have w: "w = send_datagrams net (committed solution ?ee) (world s1)"
    using outgoing_loop_Ok [OF out] by (simp add: committed_def)
  have take: "take (Suc n) ?exts = take n ?exts @ [?ee]"
    using Suc.prems(2) by (simp add: take_Suc_conv_app_nth)
  have "(map udp_reset (take n ?exts) @ drop n ?exts)[n := udp_reset ?ee] =
      map udp_reset (take (Suc n) ?exts) @ drop (Suc n) ?exts"
    using Suc.prems(2) by (simp add: take list_update_append Cons_nth_drop_Suc [symmetric])
  then show ?case
    unfolding s' w IH set_udp_ext_def by (simp add: take send_datagrams_def)
qed

section \<open>Properties\<close>

text \<open>For the witnesses: a network that records datagrams and is otherwise silent.\<close>

definition sample_net :: "(nat \<times> Payload) list Net" where
  "sample_net = \<lparr>stream_read = (\<lambda>h w. (([], ReadWouldBlock), w)), stream_write = (\<lambda>h bytes w. (True, w)),
     stream_local_addr = (\<lambda>h w. Some (SocketAddr [] 0)), sock_recv = (\<lambda>h w. (None, w)),
     sock_send = (\<lambda>h bytes w. (True, w @ [(h, bytes)])), poll_events = (\<lambda>r w. (Some [], w)),
     clock_now = (\<lambda>w. (0, w)), serialize = (\<lambda>m. Some []), deserialize = (\<lambda>b. DeUnexpectedEof)\<rparr>"

definition sample_em :: EndpointManager where
  "sample_em = \<lparr>delayed_messages = [(0, CommMsg \<lparr>cm_round_index = 1, contents = CommCtrl (Suggest Failure)\<rparr>)],
     undelayed_messages = [],
     net_endpoint_store = \<lparr>endpoint_exts = [\<lparr>net_endpoint = \<lparr>ne_inbox = [], ne_stream = 0\<rparr>,
        net_getter_for_incoming = PortId (MkId 7 1)\<rparr>], polled_undrained = \<lparr>vec = []\<rparr>\<rparr>,
     udp_endpoint_store = \<lparr>endpoint_exts = [\<lparr>sock = 3, received_this_round = True,
        outgoing_payloads = [(Predicate_default, [9])], udp_getter_for_incoming = PortId (MkId 7 2)\<rparr>],
        polled_undrained = \<lparr>vec = []\<rparr>\<rparr>\<rparr>"

text \<open>
  The tokens given to the poller identify endpoints. Every token denotes exactly one
  endpoint that maps back to it, and a UDP index whose token does not overflow is never
  confused with a TCP index below the middle of the range.
\<close>

theorem token_roundtrip:
  "TokenTarget_into (TokenTarget_from token) = Some token \<and>
   (TokenTarget_into target = Some token \<longrightarrow>
     (TokenTarget_from token = target \<longleftrightarrow> (case target of TokenNetEndpoint index \<Rightarrow> index < HALFWAY_INDEX | TokenUdpEndpoint _ \<Rightarrow> True)))"
proof -
  have le: "\<not> index + HALFWAY_INDEX < HALFWAY_INDEX" if "unat index + unat HALFWAY_INDEX < 2 ^ 64" for index :: usize
    using that by (simp add: not_less word_le_nat_alt unat_word_ariths)
  have inv: "unat (token - HALFWAY_INDEX) + unat HALFWAY_INDEX < 2 ^ 64" if "HALFWAY_INDEX \<le> token"
  proof -
    have "unat token < 2 ^ 64" using unsigned_less [of token] by simp
    with that show ?thesis by (simp add: unat_sub word_le_nat_alt)
  qed
  show ?thesis
    using le inv by (auto simp: TokenTarget_from_def TokenTarget_into_def not_le split: TokenTarget.splits if_splits)
qed

theorem token_roundtrip_witness:
  "TokenTarget_into (TokenUdpEndpoint 2) = Some (HALFWAY_INDEX + 2) \<and>
   TokenTarget_from (HALFWAY_INDEX + 2) = TokenUdpEndpoint 2"
proof -
  have "TokenTarget_into (TokenUdpEndpoint 2) = Some (HALFWAY_INDEX + 2)"
    by (simp add: TokenTarget_into_def HALFWAY_INDEX_def unat_div)
  with token_roundtrip [of "HALFWAY_INDEX + 2" "TokenUdpEndpoint 2"] show ?thesis by simp
qed

text \<open>
  C40: a message of a later round is neither lost nor handled early. At the start of round
  \<open>k\<close> all messages delayed so far become available; handling them ends without help
  from the network, buffers each payload of the round for its getter, returns the first
  control message of the round, delays what belongs to a later round again, and leaves the
  messages not yet looked at.
\<close>

theorem delayed_messages_kept:
  assumes "undelayed_loop n k enq (s\<lparr>em := undelay_all (em s)\<rparr>) = (Ok (ctrl, enq'), s')"
  shows "\<exists>us vs. undelayed_messages (em s) @ delayed_messages (em s) = us @ vs \<and>
    undelayed_messages (em s') = us \<and> delayed_messages (em s') = filter (later_round k) (rev vs) \<and>
    payload_inbox (rs_rctx s') = payload_inbox (rs_rctx s) @
      List.map_filter (payload_of k (endpoint_exts (net_endpoint_store (em s)))) (rev vs) \<and>
    (case ctrl of
       None \<Rightarrow> us = [] \<and> (\<forall>x \<in> set vs. control_of k x = None)
     | Some (i, c) \<Rightarrow> \<exists>x vs'. vs = x # vs' \<and> fst x = i \<and> control_of k x = Some c \<and>
         (\<forall>y \<in> set vs'. control_of k y = None))"
proof -
  have "undelayed_messages (undelay_all (em s)) = undelayed_messages (em s) @ delayed_messages (em s)"
    "delayed_messages (undelay_all (em s)) = []"
    "net_endpoint_store (undelay_all (em s)) = net_endpoint_store (em s)"
    by (simp_all add: undelay_all_def)
  with undelayed_loop_spec [OF assms] show ?thesis by fastforce
qed

theorem delayed_messages_kept_witness:
  "\<exists>s'. undelayed_loop 1 1 False (\<lparr>world = (), em = sample_em, rs_rctx = sample_rctx\<rparr>\<lparr>em := undelay_all sample_em\<rparr>) =
      (Ok (Some (0, Suggest Failure), False), s') \<and> delayed_messages (em s') = []"
proof -
  let ?s = "\<lparr>world = (), em = sample_em, rs_rctx = sample_rctx\<rparr>"
  obtain s' where run: "undelayed_loop 1 1 False (?s\<lparr>em := undelay_all (em ?s)\<rparr>) = (Ok (Some (0, Suggest Failure), False), s')"
    by (simp add: undelay_all_def sample_em_def vec_pop_def handle_msg_def)
  from delayed_messages_kept [OF run] obtain us vs where
    uv: "undelayed_messages sample_em @ delayed_messages sample_em = us @ vs" "delayed_messages (em s') = filter (later_round 1) (rev vs)"
    by auto
  then have "delayed_messages (em s') = []"
    by (auto simp: sample_em_def Cons_eq_append_conv later_round_def)
  with run show ?thesis by simp
qed

text \<open>
  When a round succeeds, every UDP endpoint sends at most one datagram, the first of
  its buffer whose predicate is part of the decided solution, in the order of the
  endpoints; afterwards its buffer is empty and it may receive again, and nothing else of
  the endpoints changes.
\<close>

theorem udp_round_end_commits:
  assumes "udp_endpoints_round_end net (Success solution) s = (Ok (), s')"
  shows "world s' = send_datagrams net (concat (map (committed solution) (endpoint_exts (udp_endpoint_store (em s))))) (world s) \<and>
    em s' = (em s)\<lparr>udp_endpoint_store := (udp_endpoint_store (em s))\<lparr>endpoint_exts :=
      map udp_reset (endpoint_exts (udp_endpoint_store (em s)))\<rparr>\<rparr>"
  using round_end_prefix [of "length (endpoint_exts (udp_endpoint_store (em s)))" net solution s s'] assms
  by (simp add: udp_endpoints_round_end_def)

theorem udp_round_end_commits_witness:
  "\<exists>s'. udp_endpoints_round_end sample_net (Success Predicate_default) \<lparr>world = [], em = sample_em\<rparr> = (Ok (), s') \<and>
     world s' = [(3, [9])]"
proof -
  let ?s = "\<lparr>world = [], em = sample_em\<rparr>"
  obtain s' where run: "udp_endpoints_round_end sample_net (Success Predicate_default) ?s = (Ok (), s')"
    by (simp add: udp_endpoints_round_end_def sample_em_def udp_endpoint_round_end_def act_defs act_bind_def
        sample_net_def assigns_subset_def Predicate_default_def Let_def)
  from udp_round_end_commits [OF run] run show ?thesis
    by (auto simp: sample_em_def committed_def send_datagrams_def sample_net_def assigns_subset_def Predicate_default_def)
qed

end
