(* ===== verification/Endpoint_Frames.thy ===== *)
theory Endpoint_Frames
  imports Endpoints
begin

text \<open>
  What the operations of the endpoint manager leave alone. Sending changes the outside
  world only. Receiving changes the world and the manager, and appends to the buffer of
  payload messages; the messages it hands on are well formed when those that the network
  delivers are. Both are relations between the states before and after, whatever the
  outcome, so that they compose along a round.
\<close>

section \<open>Well-formed messages\<close>

text \<open>
  A predicate that arrives over the network is a deserialized \<open>BTreeMap\<close>, and so sorted.
\<close>

definition decision_wf :: "Decision \<Rightarrow> bool" where
  "decision_wf d = (case d of Failure \<Rightarrow> True | Success p \<Rightarrow> pred_wf p)"

definition ctrl_wf :: "CommCtrlMsg \<Rightarrow> bool" where
  "ctrl_wf c = (case c of Suggest d \<Rightarrow> decision_wf d | Announce d \<Rightarrow> decision_wf d)"

definition msg_wf :: "Msg \<Rightarrow> bool" where
  "msg_wf m = (case m of
     SetupMsg _ \<Rightarrow> True
   | CommMsg c \<Rightarrow> (case contents c of SendPayload p \<Rightarrow> pred_wf (spm_predicate p) | CommCtrl x \<Rightarrow> ctrl_wf x))"

definition net_wf :: "'w Net \<Rightarrow> bool" where
  "net_wf net \<longleftrightarrow> (\<forall>bytes m n. deserialize net bytes = DeOk m n \<longrightarrow> msg_wf m)"

definition em_wf :: "EndpointManager \<Rightarrow> bool" where
  "em_wf m \<longleftrightarrow> (\<forall>(i, msg) \<in> set (delayed_messages m) \<union> set (undelayed_messages m). msg_wf msg)"

definition inbox_wf :: "(PortId \<times> SendPayloadMsg) list \<Rightarrow> bool" where
  "inbox_wf ib \<longleftrightarrow> (\<forall>(g, m) \<in> set ib. pred_wf (spm_predicate m))"

section \<open>Sending\<close>

definition send_frame :: "('w, 'z) NetState_scheme \<Rightarrow> ('w, 'z) NetState_scheme \<Rightarrow> bool" where
  "send_frame s s' \<longleftrightarrow> NetState.more s' = NetState.more s \<and> em s' = em s"

lemma send_to_frame: "send_to net err i msg s = (r, s') \<Longrightarrow> send_frame s s'"
  by (auto simp: send_to_def send_frame_def Let_def split: if_splits prod.splits res.splits)

lemma send_to_comms_frame: "send_to_comms net i msg s = (r, s') \<Longrightarrow> send_frame s s'"
  unfolding send_to_comms_def by (rule send_to_frame)

lemma act_for_send_frame:
  assumes "\<And>x s r s'. f x s = (r, s') \<Longrightarrow> send_frame s s'" "act_for xs f s = (r, s')"
  shows "send_frame s s'"
  by (rule act_for_rel [where R = send_frame, OF _ _ assms]) (simp_all add: send_frame_def)

section \<open>Receiving\<close>

definition net_frame :: "('w, 'z) NetState_scheme \<Rightarrow> ('w, 'z) NetState_scheme \<Rightarrow> bool" where
  "net_frame s s' \<longleftrightarrow> NetState.more s' = NetState.more s \<and>
     delayed_messages (em s') = delayed_messages (em s) \<and> undelayed_messages (em s') = undelayed_messages (em s)"

lemma net_frame_refl [simp]: "net_frame s s"
  by (simp add: net_frame_def)

lemma net_frame_trans: "net_frame s s' \<Longrightarrow> net_frame s' s'' \<Longrightarrow> net_frame s s''"
  by (simp add: net_frame_def)

lemma em_update_messages [simp]:
  "delayed_messages (set_net_undrained v m) = delayed_messages m"
  "undelayed_messages (set_net_undrained v m) = undelayed_messages m"
  "delayed_messages (set_udp_undrained v m) = delayed_messages m"
  "undelayed_messages (set_udp_undrained v m) = undelayed_messages m"
  "delayed_messages (set_net_endpoint i ne m) = delayed_messages m"
  "undelayed_messages (set_net_endpoint i ne m) = undelayed_messages m"
  "delayed_messages (set_udp_ext i ee m) = delayed_messages m"
  "undelayed_messages (set_udp_ext i ee m) = undelayed_messages m"
  by (simp_all add: set_net_undrained_def set_udp_undrained_def set_net_endpoint_def set_udp_ext_def)

lemma mark_events_messages [simp]:
  "delayed_messages (fold mark_event ts m) = delayed_messages m"
  "undelayed_messages (fold mark_event ts m) = undelayed_messages m"
  by (induction ts arbitrary: m) (auto simp: mark_event_def split: TokenTarget.splits)

lemma poll_frame: "poll_and_populate net dl s = (r, s') \<Longrightarrow> net_frame s s'"
  by (auto simp: poll_and_populate_def net_frame_def split: prod.splits option.splits)

lemma udp_round_end_frame: "udp_endpoints_round_end net d s = (r, s') \<Longrightarrow> net_frame s s'"
proof (cases d)
  case (Success p)
  assume eq: "udp_endpoints_round_end net d s = (r, s')"
  then have loop: "act_for [0 ..< length (endpoint_exts (udp_endpoint_store (em s)))] (udp_endpoint_round_end net p) s = (r, s')"
    by (simp add: udp_endpoints_round_end_def Success)
  have "net_frame t t'" if "udp_endpoint_round_end net p i t = (r1, t')"
    for i r1 and t t' :: "('a, 'b) NetState_scheme"
    using that by (auto simp: udp_endpoint_round_end_def net_frame_def Let_def split: prod.splits res.splits)
  from act_for_rel [where R = net_frame, OF net_frame_refl net_frame_trans this loop] show ?thesis .
qed (simp add: udp_endpoints_round_end_def)

lemma try_recv_wf:
  "net_wf net \<Longrightarrow> try_recv fuel net ne w = (Ok (Some msg), ne', w') \<Longrightarrow> msg_wf msg"
  by (auto simp: try_recv_def net_wf_def split: prod.splits res.splits Deserialized.splits)

lemma try_recv_loop_frame:
  "try_recv_undrained_loop n fuel net s = (r, s') \<Longrightarrow>
     net_frame s s' \<and> (\<forall>i msg. r = Ok (Some (i, msg)) \<longrightarrow> net_wf net \<longrightarrow> msg_wf msg)"
proof (induction n arbitrary: s)
  case 0
  then show ?case by (auto split: if_splits)
next
  case (Suc n)
  show ?case
  proof (cases "VecSet_pop (polled_undrained (net_endpoint_store (em s)))")
    case None
    with Suc.prems show ?thesis by auto
  next
    case (Some ir)
    obtain index rest where ir: "ir = (index, rest)" by (cases ir)
    let ?s1 = "s\<lparr>em := set_net_undrained rest (em s)\<rparr>" and ?exts = "endpoint_exts (net_endpoint_store (em s))"
    show ?thesis
    proof (cases "index < length ?exts")
      case False
      with Suc.prems Some ir show ?thesis by (auto simp: net_frame_def)
    next
      case True
      obtain r1 ne w where recv: "try_recv fuel net (net_endpoint (?exts ! index)) (world s) = (r1, ne, w)"
        by (metis prod_cases3)
      note eq = Suc.prems [unfolded try_recv_undrained_loop.simps Some ir option.case prod.case Let_def]
      show ?thesis
      proof (cases r1)
        case (Ok om)
        show ?thesis
        proof (cases om)
          case None
          have "net_frame s (?s1\<lparr>world := w, em := set_net_endpoint index ne (em ?s1)\<rparr>)"
            by (simp add: net_frame_def)
          with Suc.IH [of "?s1\<lparr>world := w, em := set_net_endpoint index ne (em ?s1)\<rparr>"] eq True recv Ok None
          show ?thesis by (auto intro: net_frame_trans)
        next
          case (Some msg)
          with eq True recv Ok try_recv_wf [of net fuel _ _ msg] show ?thesis
            by (auto simp: net_frame_def split: if_splits)
        qed
      qed (use eq True recv in \<open>auto simp: net_frame_def\<close>)
    qed
  qed
qed

lemma try_recv_net_frame:
  assumes "try_recv_undrained_net fuel net s = (r, s')"
  shows "net_frame s s'" "r = Ok (Some (i, msg)) \<Longrightarrow> net_wf net \<Longrightarrow> msg_wf msg"
  using try_recv_loop_frame [of _ fuel net s r s'] assms unfolding try_recv_undrained_net_def by auto

text \<open>
  Receiving during a round: of the round context only the buffer changes.
\<close>

definition rctx_frame :: "RoundCtx \<Rightarrow> RoundCtx \<Rightarrow> bool" where
  "rctx_frame r r' \<longleftrightarrow> solution_storage r' = solution_storage r \<and> spec_var_stream r' = spec_var_stream r \<and>
     deadline r' = deadline r \<and> rips r' = rips r"

definition recv_frame :: "('w, 'z) RecvState_scheme \<Rightarrow> ('w, 'z) RecvState_scheme \<Rightarrow> bool" where
  "recv_frame s s' \<longleftrightarrow> RecvState.more s' = RecvState.more s \<and> rctx_frame (rs_rctx s) (rs_rctx s') \<and>
     (em_wf (em s) \<and> inbox_wf (payload_inbox (rs_rctx s)) \<longrightarrow> em_wf (em s') \<and> inbox_wf (payload_inbox (rs_rctx s')))"

lemma recv_frame_refl [simp]: "recv_frame s s"
  by (simp add: recv_frame_def rctx_frame_def)

lemma recv_frame_trans: "recv_frame s s' \<Longrightarrow> recv_frame s' s'' \<Longrightarrow> recv_frame s s''"
  by (simp add: recv_frame_def rctx_frame_def)

lemma net_frame_recv: "net_frame s s' \<Longrightarrow> recv_frame s s'"
  by (cases s; cases s') (simp add: net_frame_def recv_frame_def rctx_frame_def em_wf_def)

lemma handle_msg_frame:
  assumes "handle_msg i msg k m rctx enq = Some (ctrl, m', rctx', enq')"
  shows "rctx_frame rctx rctx'"
    and "em_wf m \<Longrightarrow> msg_wf msg \<Longrightarrow> em_wf m'"
    and "inbox_wf (payload_inbox rctx) \<Longrightarrow> msg_wf msg \<Longrightarrow> inbox_wf (payload_inbox rctx')"
    and "ctrl = Some (j, c) \<Longrightarrow> msg_wf msg \<Longrightarrow> ctrl_wf c"
proof -
  note h = handle_msg_spec [OF assms]
  show "rctx_frame rctx rctx'" by (simp add: h(3) rctx_frame_def)
  show "em_wf m'" if "em_wf m" "msg_wf msg"
    using that by (auto simp: h(2) em_wf_def)
  show "inbox_wf (payload_inbox rctx')" if "inbox_wf (payload_inbox rctx)" "msg_wf msg"
    using that by (auto simp: h(3) inbox_wf_def payload_of_def map_filter_simps msg_wf_def
        split: Msg.splits CommMsgContents.splits if_splits)
  show "ctrl_wf c" if "ctrl = Some (j, c)" "msg_wf msg"
    using that by (cases msg) (auto simp: h(1) control_of_def msg_wf_def split: CommMsgContents.splits if_splits)
qed

lemma handled_frame:
  assumes "handle_msg i msg k (em s) (rs_rctx s) enq = Some (ctrl, m', rctx', enq')" "msg_wf msg"
  shows "recv_frame s (s\<lparr>em := m', rs_rctx := rctx'\<rparr>)"
  using handle_msg_frame(1-3) [OF assms(1)] assms(2) by (simp add: recv_frame_def)

definition ctrl_out_wf :: "((nat \<times> CommCtrlMsg) option \<times> bool, UnrecoverableSyncError) res \<Rightarrow> bool" where
  "ctrl_out_wf r \<longleftrightarrow> (\<forall>i c enq. r = Ok (Some (i, c), enq) \<longrightarrow> ctrl_wf c)"

lemma undelayed_loop_frame:
  "undelayed_loop n k enq s = (r, s') \<Longrightarrow> em_wf (em s) \<Longrightarrow> recv_frame s s' \<and> ctrl_out_wf r"
proof (induction n arbitrary: enq s)
  case 0
  then show ?case by (auto simp: ctrl_out_wf_def split: if_splits)
next
  case (Suc n)
  show ?case
  proof (cases "undelayed_messages (em s) = []")
    case True
    with Suc.prems(1) show ?thesis by (auto simp: vec_pop_def ctrl_out_wf_def)
  next
    case False
    define us where "us = butlast (undelayed_messages (em s))"
    obtain i msg where x: "last (undelayed_messages (em s)) = (i, msg)" by fastforce
    have um: "undelayed_messages (em s) = us @ [(i, msg)]"
      using False x by (metis append_butlast_last_id us_def)
    define s1 where "s1 = s\<lparr>em := (em s)\<lparr>undelayed_messages := us\<rparr>\<rparr>"
    have wf: "msg_wf msg" "em_wf (em s1)"
      using Suc.prems(2) by (auto simp: em_wf_def um s1_def)
    have f1: "recv_frame s s1"
      using wf by (simp add: recv_frame_def rctx_frame_def s1_def)
    have eq: "(case handle_msg i msg k (em s1) (rs_rctx s1) enq of
             None \<Rightarrow> (Panic, s1)
           | Some (Some ctrl, m, rctx, enq) \<Rightarrow> (Ok (Some ctrl, enq), s1\<lparr>em := m, rs_rctx := rctx\<rparr>)
           | Some (None, m, rctx, enq) \<Rightarrow> undelayed_loop n k enq (s1\<lparr>em := m, rs_rctx := rctx\<rparr>)) = (r, s')"
      using Suc.prems(1) False x unfolding s1_def us_def by (simp add: vec_pop_def Let_def)
    show ?thesis
    proof (cases "handle_msg i msg k (em s1) (rs_rctx s1) enq")
      case None
      with eq f1 show ?thesis by (auto simp: ctrl_out_wf_def)
    next
      case (Some h)
      obtain c m1 rctx1 enq1 where h: "h = (c, m1, rctx1, enq1)" by (cases h)
      let ?s2 = "s1\<lparr>em := m1, rs_rctx := rctx1\<rparr>"
      have f2: "recv_frame s ?s2"
        using recv_frame_trans [OF f1 handled_frame [OF Some [unfolded h] wf(1)]] .
      show ?thesis
      proof (cases c)
        case None
        have "recv_frame ?s2 s' \<and> ctrl_out_wf r"
          using eq Some h None handle_msg_frame(2) [OF Some [unfolded h]] wf by (intro Suc.IH) auto
        with f2 show ?thesis by (meson recv_frame_trans)
      next
        case c: (Some ctl)
        obtain j cm where "ctl = (j, cm)" by (cases ctl)
        with eq Some h c f2 handle_msg_frame(4) [OF Some [unfolded h], of j cm] wf(1) show ?thesis
          by (auto simp: ctrl_out_wf_def)
      qed
    qed
  qed
qed

lemma net_drain_frame:
  "net_drain_loop fuel net k enq s = (r, s') \<Longrightarrow> net_wf net \<Longrightarrow> recv_frame s s' \<and> ctrl_out_wf r"
proof (induction fuel arbitrary: enq s)
  case 0
  then show ?case by (auto simp: ctrl_out_wf_def)
next
  case (Suc fuel)
  obtain r1 s1 where recv: "try_recv_undrained_net fuel net s = (r1, s1)" by fastforce
  have f1: "recv_frame s s1" using try_recv_net_frame(1) [OF recv] by (rule net_frame_recv)
  show ?case
  proof (cases r1)
    case (Ok om)
    show ?thesis
    proof (cases om)
      case None
      with Suc.prems recv Ok f1 show ?thesis by (auto simp: ctrl_out_wf_def)
    next
      case (Some im)
      obtain i msg where im: "im = (i, msg)" by (cases im)
      have wf: "msg_wf msg"
        using try_recv_net_frame(2) [OF recv] Ok Some im Suc.prems(2) by simp
      show ?thesis
      proof (cases "handle_msg i msg k (em s1) (rs_rctx s1) enq")
        case None
        with Suc.prems recv Ok Some im f1 show ?thesis by (auto simp: ctrl_out_wf_def)
      next
        case h: (Some h)
        obtain c m1 rctx1 enq1 where hh: "h = (c, m1, rctx1, enq1)" by (cases h)
        let ?s2 = "s1\<lparr>em := m1, rs_rctx := rctx1\<rparr>"
        have f2: "recv_frame s ?s2"
          using recv_frame_trans [OF f1 handled_frame [OF h [unfolded hh] wf]] .
        show ?thesis
        proof (cases c)
          case None
          have "recv_frame ?s2 s' \<and> ctrl_out_wf r"
            using Suc.prems recv Ok Some im h hh None by (intro Suc.IH) auto
          with f2 show ?thesis by (meson recv_frame_trans)
        next
          case c: (Some ctl)
          obtain j cm where "ctl = (j, cm)" by (cases ctl)
          with Suc.prems recv Ok Some im h hh c f2 handle_msg_frame(4) [OF h [unfolded hh], of j cm] wf show ?thesis
            by (auto simp: ctrl_out_wf_def)
        qed
      qed
    qed
  qed (use Suc.prems recv f1 in \<open>auto simp: ctrl_out_wf_def\<close>)
qed

lemma udp_drain_frame: "udp_drain_loop fuel net enq s = (r, s') \<Longrightarrow> recv_frame s s'"
proof (induction fuel arbitrary: enq s)
  case 0
  then show ?case by simp
next
  case (Suc fuel)
  show ?case
  proof (cases "VecSet_pop (polled_undrained (udp_endpoint_store (em s)))")
    case None
    with Suc.prems show ?thesis by simp
  next
    case (Some ir)
    obtain index rest where ir: "ir = (index, rest)" by (cases ir)
    let ?s1 = "s\<lparr>em := set_udp_undrained rest (em s)\<rparr>" and ?exts = "endpoint_exts (udp_endpoint_store (em s))"
    note eq = Suc.prems [unfolded udp_drain_loop.simps Some ir option.case prod.case Let_def]
    have keep: "recv_frame s (s\<lparr>world := w, em := m\<rparr>)"
      if "delayed_messages m = delayed_messages (em s)" "undelayed_messages m = undelayed_messages (em s)" for w m
      using that by (intro net_frame_recv) (simp add: net_frame_def)
    show ?thesis
    proof (cases "index < length ?exts")
      case False
      with eq keep [of "set_udp_undrained rest (em s)" "world s"] show ?thesis by auto
    next
      case True
      let ?ee = "?exts ! index"
      let ?m = "set_udp_undrained (snd (VecSet_insert index rest)) (set_udp_undrained rest (em s))"
      obtain bytes w where recv: "sock_recv net (sock ?ee) (world s) = (bytes, w)" by fastforce
      show ?thesis
      proof (cases bytes)
        case None
        with eq True recv have "udp_drain_loop fuel net enq (?s1\<lparr>world := w\<rparr>) = (r, s')"
          by simp
        moreover have "recv_frame s (?s1\<lparr>world := w\<rparr>)"
          by (intro net_frame_recv) (simp add: net_frame_def)
        ultimately show ?thesis using Suc.IH recv_frame_trans by blast
      next
        case (Some bs)
        show ?thesis
        proof (cases "received_this_round ?ee")
          case True
          with eq \<open>index < length ?exts\<close> recv Some have "udp_drain_loop fuel net enq (s\<lparr>world := w, em := ?m\<rparr>) = (r, s')"
            by simp
          moreover have "recv_frame s (s\<lparr>world := w, em := ?m\<rparr>)" by (rule keep) simp_all
          ultimately show ?thesis using Suc.IH recv_frame_trans by blast
        next
          case False
          show ?thesis
          proof (cases "spec_var_for (rc_ports (rs_rctx s)) (udp_getter_for_incoming ?ee)")
            case None
            with eq \<open>index < length ?exts\<close> recv Some False keep [of ?m w] show ?thesis by auto
          next
            case v: (Some v)
            define s2 where "s2 = s\<lparr>world := w, em := set_udp_ext index (?ee\<lparr>received_this_round := True\<rparr>) ?m,
              rs_rctx := getter_push (udp_getter_for_incoming ?ee)
                \<lparr>spm_predicate = singleton v FIRING, spm_payload = bs\<rparr> (rs_rctx s)\<rparr>"
            have "udp_drain_loop fuel net True s2 = (r, s')"
              using eq \<open>index < length ?exts\<close> recv Some False v unfolding s2_def by simp
            moreover have "recv_frame s s2"
              by (auto simp: s2_def recv_frame_def rctx_frame_def getter_push_def em_wf_def inbox_wf_def)
            ultimately show ?thesis using Suc.IH recv_frame_trans by blast
          qed
        qed
      qed
    qed
  qed
qed

lemma recv_comms_loop_frame:
  "recv_comms_loop fuel net k enq s = (r, s') \<Longrightarrow> net_wf net \<Longrightarrow>
     recv_frame s s' \<and> (\<forall>i c. r = Ok (NewControlMsg i c) \<longrightarrow> ctrl_wf c)"
proof (induction fuel arbitrary: enq s)
  case 0
  then show ?case by auto
next
  case (Suc fuel)
  obtain r1 s1 where one: "net_drain_loop fuel net k enq s = (r1, s1)" by fastforce
  from net_drain_frame [OF one Suc.prems(2)] have f1: "recv_frame s s1" "ctrl_out_wf r1" by auto
  note eq = Suc.prems(1) [unfolded recv_comms_loop.simps act_bind_def one prod.case]
  show ?case
  proof (cases r1)
    case (Ok ce)
    obtain ctrl enq1 where ce: "ce = (ctrl, enq1)" by (cases ce)
    show ?thesis
    proof (cases ctrl)
      case (Some ic)
      with eq Ok ce f1 show ?thesis by (cases ic) (auto simp: act_ret_def ctrl_out_wf_def)
    next
      case None
      obtain r2 s2 where two: "udp_drain_loop fuel net enq1 s1 = (r2, s2)" by fastforce
      have f2: "recv_frame s s2" using recv_frame_trans [OF f1(1) udp_drain_frame [OF two]] .
      obtain r3 s3 where three: "poll_and_populate net (deadline (rs_rctx s2)) s2 = (r3, s3)" by fastforce
      have f3: "recv_frame s s3" using recv_frame_trans [OF f2 net_frame_recv [OF poll_frame [OF three]]] .
      show ?thesis
      proof (cases r2)
        case r2: (Ok enq2)
        show ?thesis
        proof (cases "enq2 \<or> (\<forall>u. r3 \<noteq> Ok u)")
          case True
          with eq Ok ce None two r2 three f2 f3 show ?thesis
            by (auto simp: act_ret_def split: res.splits PollAndPopulateError.splits if_splits)
        next
          case False
          then have "recv_comms_loop fuel net k enq2 s3 = (r, s')"
            using eq Ok ce None two r2 three by auto
          from Suc.IH [OF this Suc.prems(2)] f3 show ?thesis by (meson recv_frame_trans)
        qed
      qed (use eq Ok ce None two f2 in auto)
    qed
  qed (use eq f1 in auto)
qed

lemma try_recv_any_comms_frame:
  assumes "try_recv_any_comms fuel net k s = (r, s')" "net_wf net" "em_wf (em s)"
  shows "recv_frame s s' \<and> (\<forall>i c. r = Ok (NewControlMsg i c) \<longrightarrow> ctrl_wf c)"
proof -
  obtain r1 s1 where one: "undelayed_loop (length (undelayed_messages (em s))) k False s = (r1, s1)" by fastforce
  from undelayed_loop_frame [OF one assms(3)] have f1: "recv_frame s s1" "ctrl_out_wf r1" by auto
  note eq = assms(1) [unfolded try_recv_any_comms_def act_bind_def one prod.case]
  show ?thesis
  proof (cases r1)
    case (Ok ce)
    obtain ctrl enq1 where ce: "ce = (ctrl, enq1)" by (cases ce)
    show ?thesis
    proof (cases ctrl)
      case (Some ic)
      with eq Ok ce f1 show ?thesis by (cases ic) (auto simp: act_ret_def ctrl_out_wf_def)
    next
      case None
      with eq Ok ce have "recv_comms_loop fuel net k enq1 s1 = (r, s')" by simp
      from recv_comms_loop_frame [OF this assms(2)] f1(1) show ?thesis by (meson recv_frame_trans)
    qed
  qed (use eq f1 in auto)
qed

end
