(* ===== verification/Connector.thy ===== *)
theory Connector
  imports Native_Branches Endpoint_Frames Protocol_Desc
begin

text \<open>
  The connector as its user sees it: its state in both phases (\<open>src/runtime/mod.rs\<close>) and
  the operations that change it outside \<open>connect\<close> and \<open>sync\<close>
  (\<open>src/runtime/mod.rs\<close>, \<open>communication.rs\<close>, \<open>setup.rs\<close>). The logger is left out.
  The invariant \<open>conn_inv\<close> says that the port tables agree, identifiers are fresh, there
  is always a selected batch, and batches mention only ports of the native with the right
  polarity; every operation keeps it.
\<close>

section \<open>State\<close>

record 's ConnectorUnphased =
  proto_description :: ProtocolDescription
  proto_components :: "(ComponentId, 's) hash_map"
  cu_ips :: IdAndPortState
  native_component_id :: ComponentId

record NetEndpointSetup =
  nes_getter_for_incoming :: PortId
  nes_sock_addr :: SocketAddr
  nes_endpoint_polarity :: EndpointPolarity

record UdpEndpointSetup =
  ues_getter_for_incoming :: PortId
  ues_local_addr :: SocketAddr
  ues_peer_addr :: SocketAddr

record ConnectorSetup =
  net_endpoint_setups :: "NetEndpointSetup list"
  udp_endpoint_setups :: "UdpEndpointSetup list"

record Neighborhood =
  parent :: "nat option"
  children :: "nat VecSet"

record ConnectorCommunication =
  round_index :: nat
  endpoint_manager :: EndpointManager
  neighborhood :: Neighborhood
  native_batches :: "NativeBatch list"
  round_result :: "SyncError + RoundEndedNative option"

datatype ConnectorPhased = PhSetup ConnectorSetup | PhCommunication ConnectorCommunication

record 's Connector =
  unphased :: "'s ConnectorUnphased"
  phased :: ConnectorPhased

definition NativeBatch_default :: NativeBatch where
  "NativeBatch_default = \<lparr>to_put = [], to_get = []\<rparr>"

section \<open>Operations of both phases\<close>

definition Connector_new :: "ProtocolDescription \<Rightarrow> u32 \<Rightarrow> 's Connector option" where
  "Connector_new pd conn_id = do {
     (native_cid, idm) \<leftarrow> new_component_id (IdManager_new conn_id);
     Some \<lparr>unphased = \<lparr>proto_description = pd, proto_components = [],
             cu_ips = \<lparr>port_info = PortInfoMap_default, id_manager = idm\<rparr>, native_component_id = native_cid\<rparr>,
           phased = PhSetup \<lparr>net_endpoint_setups = [], udp_endpoint_setups = []\<rparr>\<rparr>
   }"

definition is_connected :: "'s Connector \<Rightarrow> bool" where
  "is_connected c = (case phased c of PhSetup _ \<Rightarrow> False | PhCommunication _ \<Rightarrow> True)"

text \<open>The same two insertions as a component's own callback, owned by the native.\<close>

definition connector_new_port_pair :: "'s Connector \<Rightarrow> ((PortId \<times> PortId) \<times> 's Connector) option" where
  "connector_new_port_pair c = do {
     (ports, ips') \<leftarrow> nonsync_new_port_pair (native_component_id (unphased c)) (cu_ips (unphased c));
     Some (ports, c\<lparr>unphased := (unphased c)\<lparr>cu_ips := ips'\<rparr>\<rparr>)
   }"

fun check_moved_ports :: "PortInfoMap \<Rightarrow> ComponentId \<Rightarrow> (Polarity \<times> PortId) list \<Rightarrow> (unit, AddComponentError) res" where
  "check_moved_ports m native_cid [] = Ok ()"
| "check_moved_ports m native_cid ((expected_polarity, port) # it) =
     (case hm_get (port_map m) port of
        None \<Rightarrow> Err (UnknownPort port)
      | Some info \<Rightarrow>
          if owner info \<noteq> native_cid then Err (UnknownPort port)
          else if polarity info \<noteq> expected_polarity then Err (WrongPortPolarity port expected_polarity)
          else check_moved_ports m native_cid it)"

definition batch_forget :: "PortId hash_set \<Rightarrow> NativeBatch \<Rightarrow> NativeBatch" where
  "batch_forget moved b = \<lparr>to_put = filter (\<lambda>(port, _). port \<notin> set moved) (to_put b),
     to_get = hs_retain (\<lambda>port. port \<notin> set moved) (to_get b)\<rparr>"

text \<open>
  The checks come first and leave the connector unchanged. The moved ports are a set when
  they are inserted into \<open>owned\<close>; \<open>duplicate_port\<close> has excluded repetitions.
\<close>

definition add_component :: "'s Interp \<Rightarrow> u8 list \<Rightarrow> u8 list \<Rightarrow> PortId list \<Rightarrow>
    ('s Connector, unit, AddComponentError) act" where
  "add_component interp module_name ident ports c =
     (let cu = unphased c; ips = cu_ips cu in
      case duplicate_port ports of
        Some port \<Rightarrow> (Err (DuplicatePort port), c)
      | None \<Rightarrow>
      act_bind (act_res (component_polarities (proto_description cu) module_name ident)) (\<lambda>expected.
        if length expected \<noteq> length ports then act_err (WrongNumberOfParamaters (length expected))
        else act_bind (act_res (check_moved_ports (port_info ips) (native_component_id cu) (zip expected ports))) (\<lambda>_.
        act_option (\<lambda>c. do {
          (new_cid, idm) \<leftarrow> new_component_id (id_manager ips);
          state \<leftarrow> pd_new_component interp (proto_description cu) module_name ident ports;
          m \<leftarrow> move_ports (native_component_id cu) new_cid ports (port_info ips);
          let phased' = (case phased c of
              PhCommunication comm \<Rightarrow>
                PhCommunication (comm\<lparr>native_batches := map (batch_forget ports) (native_batches comm)\<rparr>)
            | PhSetup st \<Rightarrow> PhSetup st);
          Some ((), c\<lparr>unphased := cu\<lparr>proto_components := hm_insert new_cid state (proto_components cu),
                        cu_ips := ips\<lparr>port_info := m, id_manager := idm\<rparr>\<rparr>,
                      phased := phased'\<rparr>)
        }))) c)"

section \<open>Operations of the setup phase\<close>

definition new_net_port :: "Polarity \<Rightarrow> SocketAddr \<Rightarrow> EndpointPolarity \<Rightarrow>
    ('s Connector, PortId, WrongStateError) act" where
  "new_net_port pol sock_addr endpoint_polarity c =
     (case phased c of
        PhCommunication _ \<Rightarrow> (Err WrongStateError, c)
      | PhSetup setup \<Rightarrow>
          act_option (\<lambda>c. do {
            let cu = unphased c;
            let ips = cu_ips cu;
            (new_pid, idm) \<leftarrow> new_port_id (id_manager ips);
            let m = insert_port new_pid
              \<lparr>owner = native_component_id cu, peer = None, polarity = pol, route = LocalComponent\<rparr> (port_info ips);
            let setup' = setup\<lparr>net_endpoint_setups := net_endpoint_setups setup @
              [\<lparr>nes_getter_for_incoming = new_pid, nes_sock_addr = sock_addr, nes_endpoint_polarity = endpoint_polarity\<rparr>]\<rparr>;
            Some (new_pid, c\<lparr>unphased := cu\<lparr>cu_ips := ips\<lparr>
                port_info := owned_extend (native_component_id cu) [new_pid] m, id_manager := idm\<rparr>\<rparr>,
              phased := PhSetup setup'\<rparr>)
          }) c)"

text \<open>
  The peers are those of the source: \<open>uin\<close> is recorded as the peer of \<open>uin\<close> and of
  \<open>uout\<close>.
\<close>

definition new_udp_mediator_component :: "SocketAddr \<Rightarrow> SocketAddr \<Rightarrow>
    ('s Connector, PortId \<times> PortId, WrongStateError) act" where
  "new_udp_mediator_component local_addr peer_addr c =
     (case phased c of
        PhCommunication _ \<Rightarrow> (Err WrongStateError, c)
      | PhSetup setup \<Rightarrow>
          act_option (\<lambda>c. do {
            let cu = unphased c;
            let ips = cu_ips cu;
            let udp_index = length (udp_endpoint_setups setup);
            (udp_cid, idm0) \<leftarrow> new_component_id (id_manager ips);
            (nin, idm1) \<leftarrow> new_port_id idm0;
            (nout, idm2) \<leftarrow> new_port_id idm1;
            (uin, idm3) \<leftarrow> new_port_id idm2;
            (uout, idm4) \<leftarrow> new_port_id idm3;
            let ncid = native_component_id cu;
            let m1 = insert_port nout
              \<lparr>owner = ncid, peer = Some uin, polarity = Putter, route = LocalComponent\<rparr> (port_info ips);
            let m2 = insert_port uin
              \<lparr>owner = udp_cid, peer = Some uin, polarity = Getter, route = UdpEndpoint udp_index\<rparr> m1;
            let m3 = insert_port uout
              \<lparr>owner = udp_cid, peer = Some uin, polarity = Putter, route = UdpEndpoint udp_index\<rparr> m2;
            let m4 = insert_port nin
              \<lparr>owner = ncid, peer = Some uout, polarity = Getter, route = LocalComponent\<rparr> m3;
            let setup' = setup\<lparr>udp_endpoint_setups := udp_endpoint_setups setup @
              [\<lparr>ues_getter_for_incoming = nin, ues_local_addr = local_addr, ues_peer_addr = peer_addr\<rparr>]\<rparr>;
            let m5 = owned_extend ncid [nin, nout] m4;
            let m6 = m5\<lparr>owned := hm_insert udp_cid [uin, uout] (owned m5)\<rparr>;
            Some ((nout, nin), c\<lparr>unphased := cu\<lparr>cu_ips := ips\<lparr>port_info := m6, id_manager := idm4\<rparr>\<rparr>,
              phased := PhSetup setup'\<rparr>)
          }) c)"

section \<open>Operations of the communication phase\<close>

definition gotten :: "'s Connector \<Rightarrow> PortId \<Rightarrow> (Payload, GottenError) res" where
  "gotten c port =
     (case phased c of
        PhCommunication comm \<Rightarrow>
          (case round_result comm of
             Inl _ \<Rightarrow> Err PreviousSyncFailed
           | Inr None \<Rightarrow> Err NoPreviousRound
           | Inr (Some round_ok) \<Rightarrow>
               (case hm_get (ren_gotten round_ok) port of Some p \<Rightarrow> Ok p | None \<Rightarrow> Err PortDidntGet))
      | PhSetup _ \<Rightarrow> Err NoPreviousRound)"

definition next_batch :: "('s Connector, nat, WrongStateError) act" where
  "next_batch c =
     (case phased c of
        PhCommunication comm \<Rightarrow>
          (Ok (length (native_batches comm)),
           c\<lparr>phased := PhCommunication (comm\<lparr>native_batches := native_batches comm @ [NativeBatch_default]\<rparr>)\<rparr>)
      | PhSetup _ \<Rightarrow> (Err WrongStateError, c))"

text \<open>The batch to work on; \<open>Panic\<close> when there is none.\<close>

definition port_op_access :: "'s Connector \<Rightarrow> PortId \<Rightarrow> Polarity \<Rightarrow> (ConnectorCommunication \<times> NativeBatch, PortOpError) res" where
  "port_op_access c port expect_polarity =
     (case hm_get (port_map (port_info (cu_ips (unphased c)))) port of
        None \<Rightarrow> Err UnknownPolarity
      | Some info \<Rightarrow>
          if owner info \<noteq> native_component_id (unphased c) then Err PortUnavailable
          else if polarity info \<noteq> expect_polarity then Err WrongPolarity
          else case phased c of
            PhSetup _ \<Rightarrow> Err NotConnected
          | PhCommunication comm \<Rightarrow>
              if native_batches comm = [] then Panic else Ok (comm, last (native_batches comm)))"

definition set_last_batch :: "ConnectorCommunication \<Rightarrow> NativeBatch \<Rightarrow> 's Connector \<Rightarrow> 's Connector" where
  "set_last_batch comm b c = c\<lparr>phased := PhCommunication (comm\<lparr>native_batches := butlast (native_batches comm) @ [b]\<rparr>)\<rparr>"

definition connector_put :: "PortId \<Rightarrow> Payload \<Rightarrow> ('s Connector, unit, PortOpError) act" where
  "connector_put port payload c =
     (case port_op_access c port Putter of
        Ok (comm, batch) \<Rightarrow>
          if hm_get (to_put batch) port \<noteq> None then (Err MultipleOpsOnPort, c)
          else (Ok (), set_last_batch comm (batch\<lparr>to_put := hm_insert port payload (to_put batch)\<rparr>) c)
      | Err e \<Rightarrow> (Err e, c)
      | Panic \<Rightarrow> (Panic, c)
      | OutOfFuel \<Rightarrow> (OutOfFuel, c))"

definition connector_get :: "PortId \<Rightarrow> ('s Connector, unit, PortOpError) act" where
  "connector_get port c =
     (case port_op_access c port Getter of
        Ok (comm, batch) \<Rightarrow>
          if port \<notin> set (to_get batch)
          then (Ok (), set_last_batch comm (batch\<lparr>to_get := hs_insert port (to_get batch)\<rparr>) c)
          else (Err MultipleOpsOnPort, c)
      | Err e \<Rightarrow> (Err e, c)
      | Panic \<Rightarrow> (Panic, c)
      | OutOfFuel \<Rightarrow> (OutOfFuel, c))"

section \<open>The invariant\<close>

definition batch_ok :: "PortInfoMap \<Rightarrow> ComponentId \<Rightarrow> NativeBatch \<Rightarrow> bool" where
  "batch_ok m cid b \<longleftrightarrow> hm_wf (to_put b) \<and> distinct (to_get b) \<and>
     (\<forall>p \<in> set (hm_keys (to_put b)). \<exists>info. info_of m p = Some info \<and> owner info = cid \<and> polarity info = Putter) \<and>
     (\<forall>p \<in> set (to_get b). \<exists>info. info_of m p = Some info \<and> owner info = cid \<and> polarity info = Getter)"

text \<open>
  After an unrecoverable error the endpoints are not used again, and nothing is claimed of
  the messages they hold.
\<close>

definition phase_ok :: "PortInfoMap \<Rightarrow> ComponentId \<Rightarrow> ConnectorPhased \<Rightarrow> bool" where
  "phase_ok m cid ph \<longleftrightarrow> (case ph of
     PhSetup _ \<Rightarrow> True
   | PhCommunication comm \<Rightarrow> native_batches comm \<noteq> [] \<and> (\<forall>b \<in> set (native_batches comm). batch_ok m cid b) \<and>
       ((\<forall>u. round_result comm \<noteq> Inl (Unrecoverable u)) \<longrightarrow> em_wf (endpoint_manager comm)))"

text \<open>Component identifiers are distinct, have been handed out, and are not the native's.\<close>

definition comps_ok :: "IdManager \<Rightarrow> ComponentId \<Rightarrow> (ComponentId, 's) hash_map \<Rightarrow> bool" where
  "comps_ok idm ncid pcs \<longleftrightarrow> hm_wf pcs \<and> component_allocated idm ncid \<and>
     (\<forall>cid \<in> set (hm_keys pcs). component_allocated idm cid \<and> cid \<noteq> ncid)"

definition conn_inv :: "'s Connector \<Rightarrow> bool" where
  "conn_inv c \<longleftrightarrow> ips_base (cu_ips (unphased c)) \<and>
     comps_ok (id_manager (cu_ips (unphased c))) (native_component_id (unphased c)) (proto_components (unphased c)) \<and>
     phase_ok (port_info (cu_ips (unphased c))) (native_component_id (unphased c)) (phased c)"

lemma comps_ok_mono:
  "comps_ok idm ncid pcs \<Longrightarrow> (\<And>cid. component_allocated idm cid \<Longrightarrow> component_allocated idm' cid) \<Longrightarrow> comps_ok idm' ncid pcs"
  by (simp add: comps_ok_def)

lemma comps_ok_insert:
  assumes "comps_ok idm ncid pcs" "new_component_id idm = Some (cid, idm')"
  shows "comps_ok idm' ncid (hm_insert cid st pcs)"
  using assms new_component_id_allocated [OF assms(2)] hm_keys_insert [of cid st pcs]
  by (auto simp: comps_ok_def distinct_update)

lemma batch_ok_default [simp]: "batch_ok m cid NativeBatch_default"
  by (simp add: batch_ok_def NativeBatch_default_def)

lemma batch_ok_frame:
  assumes "batch_ok m cid b"
    and "\<And>p info. info_of m p = Some info \<Longrightarrow> owner info = cid \<Longrightarrow> p \<in> set (hm_keys (to_put b)) \<union> set (to_get b) \<Longrightarrow>
      info_of m' p = Some info"
  shows "batch_ok m' cid b"
  using assms unfolding batch_ok_def by (metis UnCI)

lemma phase_ok_frame:
  assumes "phase_ok m cid ph" "\<And>p info. info_of m p = Some info \<Longrightarrow> info_of m' p = Some info"
  shows "phase_ok m' cid ph"
  using assms by (auto simp: phase_ok_def split: ConnectorPhased.splits intro: batch_ok_frame)

lemma conn_inv_new: "Connector_new pd conn_id = Some c \<Longrightarrow> conn_inv c"
  by (auto simp: Connector_new_def bind_eq_Some_conv conn_inv_def comps_ok_def phase_ok_def ips_base_def tables_wf_def ownership_ok_def
      ids_ok_def PortInfoMap_default_def ports_owned_by_def new_component_id_allocated)

lemma conn_inv_new_port_pair:
  assumes inv: "conn_inv c" and new: "connector_new_port_pair c = Some (ports, c')"
  shows "conn_inv c'"
proof -
  obtain p_out p_in where ports: "ports = (p_out, p_in)" by (cases ports)
  obtain ips' where pair: "nonsync_new_port_pair (native_component_id (unphased c)) (cu_ips (unphased c)) = Some ((p_out, p_in), ips')"
    and c': "c' = c\<lparr>unphased := (unphased c)\<lparr>cu_ips := ips'\<rparr>\<rparr>"
    using new by (auto simp: connector_new_port_pair_def bind_eq_Some_conv ports)
  have ok: "ips_base (cu_ips (unphased c))"
    "component_allocated (id_manager (cu_ips (unphased c))) (native_component_id (unphased c))"
    "phase_ok (port_info (cu_ips (unphased c))) (native_component_id (unphased c)) (phased c)"
    and comps: "comps_ok (id_manager (cu_ips (unphased c))) (native_component_id (unphased c)) (proto_components (unphased c))"
    using inv by (simp_all add: conn_inv_def comps_ok_def)
  from nonsync_new_port_pair_Some [OF pair] obtain idm1 where
    idm: "new_port_id (id_manager (cu_ips (unphased c))) = Some (p_out, idm1)" "new_port_id idm1 = Some (p_in, id_manager ips')"
    and m: "port_info ips' = owned_extend (native_component_id (unphased c)) [p_out, p_in]
        (insert_port p_in \<lparr>owner = native_component_id (unphased c), peer = Some p_out, polarity = Getter, route = LocalComponent\<rparr>
          (insert_port p_out \<lparr>owner = native_component_id (unphased c), peer = Some p_in, polarity = Putter, route = LocalComponent\<rparr>
            (port_info (cu_ips (unphased c)))))"
    by blast
  have "ids_ok (cu_ips (unphased c))" using ok(1) by (simp add: ips_base_def)
  note fresh = new_port_pair_fresh [OF this idm]
  have "phase_ok (port_info ips') (native_component_id (unphased c)) (phased c)"
    using ok(3) by (rule phase_ok_frame) (use fresh in \<open>auto simp: m table_simps\<close>)
  moreover have "comps_ok (id_manager ips') (native_component_id (unphased c)) (proto_components (unphased c))"
    using comps new_port_id_frame [OF idm(1)] new_port_id_frame [OF idm(2)] by (auto intro: comps_ok_mono)
  ultimately show ?thesis
    using nonsync_new_port_pair_inv(1) [OF ok(1,2) pair] by (simp add: conn_inv_def c')
qed

text \<open>An error of \<open>add_component\<close> leaves the connector as it was.\<close>

lemma add_component_result:
  assumes "add_component interp module_name ident ports c = (r, c')"
  shows "(case r of
     Ok _ \<Rightarrow> \<exists>new_cid idm state m. duplicate_port ports = None \<and>
         (\<exists>expected. component_polarities (proto_description (unphased c)) module_name ident = Ok expected \<and>
            length expected = length ports \<and>
            check_moved_ports (port_info (cu_ips (unphased c))) (native_component_id (unphased c)) (zip expected ports) = Ok ()) \<and>
         new_component_id (id_manager (cu_ips (unphased c))) = Some (new_cid, idm) \<and>
         move_ports (native_component_id (unphased c)) new_cid ports (port_info (cu_ips (unphased c))) = Some m \<and>
         unphased c' = (unphased c)\<lparr>proto_components := hm_insert new_cid state (proto_components (unphased c)),
            cu_ips := (cu_ips (unphased c))\<lparr>port_info := m, id_manager := idm\<rparr>\<rparr> \<and>
         phased c' = (case phased c of
             PhCommunication comm \<Rightarrow> PhCommunication (comm\<lparr>native_batches := map (batch_forget ports) (native_batches comm)\<rparr>)
           | PhSetup st \<Rightarrow> PhSetup st)
   | _ \<Rightarrow> c' = c)"
  using assms unfolding add_component_def Let_def
  by (auto simp: act_bind_def act_res_def act_err_def act_option_def bind_eq_Some_conv
      split: option.splits res.splits if_splits prod.splits)

lemma check_moved_ports_Ok:
  "check_moved_ports m cid it = Ok () \<Longrightarrow> (pol, p) \<in> set it \<Longrightarrow>
     \<exists>info. info_of m p = Some info \<and> owner info = cid \<and> polarity info = pol"
  by (induction m cid it rule: check_moved_ports.induct) (auto split: option.splits if_splits)

lemma keys_batch_forget:
  "set (hm_keys (to_put (batch_forget moved b))) = set (hm_keys (to_put b)) - set moved"
  "set (to_get (batch_forget moved b)) = set (to_get b) - set moved"
  by (force simp: batch_forget_def)+

lemma batch_ok_forget:
  assumes "batch_ok m cid b" "\<And>p. p \<notin> set moved \<Longrightarrow> info_of m' p = info_of m p"
  shows "batch_ok m' cid (batch_forget moved b)"
proof -
  have "batch_ok m cid (batch_forget moved b)"
    using assms(1) keys_batch_forget [of moved b]
    by (auto simp: batch_ok_def batch_forget_def distinct_map_filter)
  then show ?thesis
    by (rule batch_ok_frame) (use assms(2) keys_batch_forget [of moved b] in auto)
qed

lemma conn_inv_add_component:
  assumes inv: "conn_inv c" and add: "add_component interp module_name ident ports c = (Ok u, c')"
  shows "conn_inv c'"
proof -
  let ?ips = "cu_ips (unphased c)" and ?ncid = "native_component_id (unphased c)"
  obtain new_cid idm state m expected where
    len: "length expected = length ports"
    and check: "check_moved_ports (port_info ?ips) ?ncid (zip expected ports) = Ok ()"
    and idm: "new_component_id (id_manager ?ips) = Some (new_cid, idm)"
    and m: "move_ports ?ncid new_cid ports (port_info ?ips) = Some m"
    and cu': "unphased c' = (unphased c)\<lparr>proto_components := hm_insert new_cid state (proto_components (unphased c)),
            cu_ips := ?ips\<lparr>port_info := m, id_manager := idm\<rparr>\<rparr>"
    and ph': "phased c' = (case phased c of
             PhCommunication comm \<Rightarrow> PhCommunication (comm\<lparr>native_batches := map (batch_forget ports) (native_batches comm)\<rparr>)
           | PhSetup st \<Rightarrow> PhSetup st)"
    using add_component_result [OF add] by auto
  have ok: "tables_wf (port_info ?ips)" "ownership_ok (port_info ?ips)" "ids_ok ?ips"
    and comps: "comps_ok (id_manager ?ips) ?ncid (proto_components (unphased c))" and ph: "phase_ok (port_info ?ips) ?ncid (phased c)"
    using inv by (simp_all add: conn_inv_def ips_base_def)
  have moved: "\<forall>p \<in> set ports. \<exists>info. info_of (port_info ?ips) p = Some info \<and> owner info = ?ncid"
  proof
    fix p
    assume "p \<in> set ports"
    then obtain pol where "(pol, p) \<in> set (zip expected ports)"
      using len by (metis in_set_impl_in_set_zip2)
    with check_moved_ports_Ok [OF check this]
    show "\<exists>info. info_of (port_info ?ips) p = Some info \<and> owner info = ?ncid" by blast
  qed
  note m' = move_ports_inv [OF ok(1,2) moved new_component_fresh [OF ok(3) idm] m]
  have "set_owners ports new_cid (port_map (port_info ?ips)) = Some (port_map m)"
    using m by (auto simp: move_ports_def bind_eq_Some_conv Let_def)
  then have same: "p \<notin> set ports \<Longrightarrow> info_of m p = info_of (port_info ?ips) p" for p
    using set_owners_spec(1) by fastforce
  have "phase_ok m ?ncid (phased c')"
    using ph batch_ok_forget [where moved = ports, OF _ same]
    by (auto simp: phase_ok_def ph' split: ConnectorPhased.splits)
  moreover have "ids_ok (?ips\<lparr>port_info := m, id_manager := idm\<rparr>)"
    using ids_ok_new_component [OF ok(3) idm] m' by blast
  moreover have "comps_ok idm ?ncid (hm_insert new_cid state (proto_components (unphased c)))"
    using comps idm by (rule comps_ok_insert)
  ultimately show ?thesis
    using m' by (simp add: conn_inv_def cu' ips_base_def)
qed

lemma conn_inv_next_batch: "conn_inv c \<Longrightarrow> next_batch c = (r, c') \<Longrightarrow> conn_inv c'"
  by (auto simp: next_batch_def conn_inv_def phase_ok_def split: ConnectorPhased.splits)

lemma port_op_access_Ok:
  assumes "port_op_access c port pol = Ok (comm, batch)"
  shows "\<exists>info. info_of (port_info (cu_ips (unphased c))) port = Some info \<and>
      owner info = native_component_id (unphased c) \<and> polarity info = pol"
    and "phased c = PhCommunication comm" "batch = last (native_batches comm)" "native_batches comm \<noteq> []"
  using assms by (auto simp: port_op_access_def split: option.splits if_splits ConnectorPhased.splits)

lemma conn_inv_set_last_batch:
  assumes "conn_inv c" "phased c = PhCommunication comm"
    and "batch_ok (port_info (cu_ips (unphased c))) (native_component_id (unphased c)) b"
  shows "conn_inv (set_last_batch comm b c)"
  using assms by (auto simp: conn_inv_def set_last_batch_def phase_ok_def dest: in_set_butlastD)

lemma last_batch_ok:
  assumes "conn_inv c" "port_op_access c port pol = Ok (comm, batch)"
  shows "batch_ok (port_info (cu_ips (unphased c))) (native_component_id (unphased c)) batch"
  using assms port_op_access_Ok(2-4) [OF assms(2)] by (auto simp: conn_inv_def phase_ok_def)

lemma conn_inv_put:
  assumes inv: "conn_inv c" and put: "connector_put port payload c = (r, c')"
  shows "conn_inv c'"
proof (cases "port_op_access c port Putter")
  case (Ok cb)
  obtain comm batch where cb: "cb = (comm, batch)" by (cases cb)
  note acc = port_op_access_Ok [OF Ok [unfolded cb]]
  have "batch_ok (port_info (cu_ips (unphased c))) (native_component_id (unphased c))
      (batch\<lparr>to_put := hm_insert port payload (to_put batch)\<rparr>)"
    using last_batch_ok [OF inv Ok [unfolded cb]] acc(1) hm_keys_insert [of port payload "to_put batch"]
    unfolding batch_ok_def by (simp add: distinct_update)
  from conn_inv_set_last_batch [OF inv acc(2) this] put inv show ?thesis
    by (auto simp: connector_put_def Ok cb split: if_splits)
qed (use inv put in \<open>auto simp: connector_put_def\<close>)

lemma conn_inv_get:
  assumes inv: "conn_inv c" and get: "connector_get port c = (r, c')"
  shows "conn_inv c'"
proof (cases "port_op_access c port Getter")
  case (Ok cb)
  obtain comm batch where cb: "cb = (comm, batch)" by (cases cb)
  note acc = port_op_access_Ok [OF Ok [unfolded cb]]
  have "batch_ok (port_info (cu_ips (unphased c))) (native_component_id (unphased c))
      (batch\<lparr>to_get := hs_insert port (to_get batch)\<rparr>)"
    using last_batch_ok [OF inv Ok [unfolded cb]] acc(1) unfolding batch_ok_def by auto
  from conn_inv_set_last_batch [OF inv acc(2) this] get inv show ?thesis
    by (auto simp: connector_get_def Ok cb split: if_splits)
qed (use inv get in \<open>auto simp: connector_get_def\<close>)

lemma ips_base_insert_owned:
  assumes ok: "ips_base ips" and cid: "component_allocated (id_manager ips) cid"
    and idm: "new_port_id (id_manager ips) = Some (p, idm)" and info: "owner info = cid"
  shows "ips_base (ips\<lparr>port_info := owned_extend cid [p] (insert_port p info (port_info ips)), id_manager := idm\<rparr>)"
proof -
  have t: "tables_wf (port_info ips)" "ownership_ok (port_info ips)" "ids_ok ips"
    using ok by (simp_all add: ips_base_def)
  have fresh: "info_of (port_info ips) p = None" by (rule new_port_id_fresh [OF t(3) idm])
  have "ownership_ok (owned_extend cid [p] (insert_port p info (port_info ips)))"
    using t(2) fresh info unfolding ownership_ok_def by (auto simp: table_simps split: if_splits)
  moreover have "ids_ok (ips\<lparr>port_info := owned_extend cid [p] (insert_port p info (port_info ips)), id_manager := idm\<rparr>)"
    using t(3) cid new_port_id_allocated(1) [OF idm] new_port_id_frame [OF idm]
    by (auto simp: ids_ok_def table_simps owned_extend_def insert_port_def update_conv' split: if_splits)
  ultimately show ?thesis using t(1) by (simp add: ips_base_def table_simps)
qed

lemma conn_inv_new_net_port:
  assumes inv: "conn_inv c" and new: "new_net_port pol addr epol c = (r, c')"
  shows "conn_inv c'"
proof (cases "phased c")
  case (PhCommunication comm)
  with new inv show ?thesis by (simp add: new_net_port_def)
next
  case (PhSetup su)
  show ?thesis
  proof (cases "new_port_id (id_manager (cu_ips (unphased c)))")
    case None
    with new inv PhSetup show ?thesis by (simp add: new_net_port_def act_option_def)
  next
    case (Some pi)
    obtain p idm where pi: "pi = (p, idm)" by (cases pi)
    have "comps_ok idm (native_component_id (unphased c)) (proto_components (unphased c))"
      using inv new_port_id_frame(1) [OF Some [unfolded pi]] by (auto simp: conn_inv_def intro: comps_ok_mono)
    moreover have "ips_base (cu_ips (unphased c))" "component_allocated (id_manager (cu_ips (unphased c))) (native_component_id (unphased c))"
      using inv by (simp_all add: conn_inv_def comps_ok_def)
    ultimately show ?thesis
      using ips_base_insert_owned [OF _ _ Some [unfolded pi]] new PhSetup
      by (auto simp: new_net_port_def act_option_def Let_def Some pi conn_inv_def phase_ok_def)
  qed
qed

lemma new_port_ids_4:
  assumes "new_port_id idm0 = Some (a, idm1)" "new_port_id idm1 = Some (b, idm2)" "new_port_id idm2 = Some (c, idm3)"
    "new_port_id idm3 = Some (d, idm4)"
  shows "new_port_ids 4 idm0 = Some ([a, b, c, d], idm4)"
  using assms by (simp add: eval_nat_numeral)

lemma component_allocated_ports:
  "new_port_ids n idm = Some (ps, idm') \<Longrightarrow>
     (component_allocated idm' cid \<longleftrightarrow> component_allocated idm cid) \<and> idm_connector_id idm' = idm_connector_id idm"
proof (induction n arbitrary: idm ps)
  case (Suc n)
  from Suc.prems obtain p m1 qs where p: "new_port_id idm = Some (p, m1)" and qs: "new_port_ids n m1 = Some (qs, idm')"
    by (auto simp: bind_eq_Some_conv)
  from Suc.IH [OF qs] new_port_id_frame [OF p] show ?case by simp
qed simp

text \<open>
  The tables after the mediator's four ports: the two halves of the change are the new
  entries and the two owners.
\<close>

lemma ips_base_mediator:
  assumes ok: "ips_base ips" and ncid: "component_allocated (id_manager ips) ncid"
    and cid: "new_component_id (id_manager ips) = Some (ucid, idm0)"
    and ports: "new_port_ids 4 idm0 = Some ([nin, nout, uin, uout], idm)"
    and info: "info_of m = (info_of (port_info ips))(nout \<mapsto> i1, uin \<mapsto> i2, uout \<mapsto> i3, nin \<mapsto> i4)"
    and owner: "owner i1 = ncid" "owner i2 = ucid" "owner i3 = ucid" "owner i4 = ncid"
    and owned: "\<And>c. set (ports_owned_by m c) = (if c = ucid then {uin, uout} else if c = ncid
        then {nin, nout} \<union> set (ports_owned_by (port_info ips) ncid) else set (ports_owned_by (port_info ips) c))"
    and dom: "dom (map_of (Port_Info.owned m)) \<subseteq> {ncid, ucid} \<union> dom (map_of (Port_Info.owned (port_info ips)))"
    and wf: "tables_wf m"
  shows "ips_base (ips\<lparr>port_info := m, id_manager := idm\<rparr>)"
proof -
  have t: "ownership_ok (port_info ips)" "ids_ok ips"
    using ok by (simp_all add: ips_base_def)
  note alloc = new_port_ids_allocated [OF ports] component_allocated_ports [OF ports]
    new_component_id_allocated [OF cid] new_component_id_frame [OF cid]
  have conn: "\<forall>p \<in> {nin, nout, uin, uout}. fst (id_parts p) = idm_connector_id (id_manager ips)"
  proof
    fix p
    assume "p \<in> {nin, nout, uin, uout}"
    then have "port_allocated idm p" using alloc(1) by auto
    then show "fst (id_parts p) = idm_connector_id (id_manager ips)"
      using port_allocated_connector alloc(2,6) by metis
  qed
  have fresh: "info_of (port_info ips) p = None" if "p \<in> {nin, nout, uin, uout}" for p
  proof (rule ccontr)
    assume "info_of (port_info ips) p \<noteq> None"
    then have "port_allocated (id_manager ips) p"
      using t(2) conn that by (auto simp: ids_ok_def dom_def)
    then show False using alloc(1,5) that by auto
  qed
  have dist: "distinct [nin, nout, uin, uout]" using alloc(1) by blast
  have "ncid \<noteq> ucid" using ncid alloc(4) by auto
  moreover have "ports_owned_by (port_info ips) ucid = []"
    using new_component_fresh [OF t(2) cid] by (simp add: ports_owned_by_def domIff)
  then have "info_of (port_info ips) p = Some info \<Longrightarrow> owner info \<noteq> ucid" for p info
    using t(1) unfolding ownership_ok_def by (metis empty_iff list.set(1))
  ultimately have "ownership_ok m"
    using t(1) fresh dist owner unfolding ownership_ok_def owned
    by (auto simp: info)
  moreover have "ids_ok (ips\<lparr>port_info := m, id_manager := idm\<rparr>)"
  proof -
    have "port_allocated idm p" if "p \<in> dom (info_of m)" "fst (id_parts p) = idm_connector_id idm" for p
      using that t(2) alloc(1,2,5,6) unfolding ids_ok_def info by auto
    moreover have "component_allocated idm (ComponentId i)"
      if i: "ComponentId i \<in> dom (map_of (Port_Info.owned m))" "connector_id i = idm_connector_id idm" for i
    proof -
      have "ComponentId i \<in> {ncid, ucid} \<union> dom (map_of (Port_Info.owned (port_info ips)))" using i(1) dom by blast
      then have "component_allocated (id_manager ips) (ComponentId i) \<or> ComponentId i = ucid"
        using i(2) t(2) ncid alloc(2,6) unfolding ids_ok_def by (metis Un_iff insert_iff singletonD)
      then show ?thesis using alloc(2,3) by blast
    qed
    ultimately show ?thesis by (auto simp: ids_ok_def)
  qed
  ultimately show ?thesis using wf by (simp add: ips_base_def)
qed

lemma conn_inv_udp_mediator:
  assumes inv: "conn_inv c" and new: "new_udp_mediator_component la pa c = (r, c')"
  shows "conn_inv c'"
proof (cases r)
  case (Ok ports)
  let ?ips = "cu_ips (unphased c)" and ?ncid = "native_component_id (unphased c)"
  obtain su where su: "phased c = PhSetup su"
    using new Ok by (cases "phased c") (auto simp: new_udp_mediator_component_def)
  obtain udp_cid idm0 nin idm1 nout idm2 uin idm3 uout idm4 where
    ids: "new_component_id (id_manager ?ips) = Some (udp_cid, idm0)" "new_port_id idm0 = Some (nin, idm1)"
      "new_port_id idm1 = Some (nout, idm2)" "new_port_id idm2 = Some (uin, idm3)" "new_port_id idm3 = Some (uout, idm4)"
    using new su Ok by (auto simp: new_udp_mediator_component_def act_option_Ok_iff bind_eq_Some_conv Let_def)
  note ports = new_port_ids_4 [OF ids(2-5)]
  define m4 where "m4 = insert_port nin \<lparr>owner = ?ncid, peer = Some uout, polarity = Getter, route = LocalComponent\<rparr>
    (insert_port uout \<lparr>owner = udp_cid, peer = Some uin, polarity = Putter, route = UdpEndpoint (length (udp_endpoint_setups su))\<rparr>
    (insert_port uin \<lparr>owner = udp_cid, peer = Some uin, polarity = Getter, route = UdpEndpoint (length (udp_endpoint_setups su))\<rparr>
    (insert_port nout \<lparr>owner = ?ncid, peer = Some uin, polarity = Putter, route = LocalComponent\<rparr> (port_info ?ips))))"
  define m6 where "m6 = (owned_extend ?ncid [nin, nout] m4)\<lparr>owned :=
    hm_insert udp_cid [uin, uout] (owned (owned_extend ?ncid [nin, nout] m4))\<rparr>"
  have c': "unphased c' = (unphased c)\<lparr>cu_ips := ?ips\<lparr>port_info := m6, id_manager := idm4\<rparr>\<rparr>" "\<exists>st. phased c' = PhSetup st"
    using new su ids by (simp_all add: new_udp_mediator_component_def act_option_def Let_def m6_def m4_def) auto
  have base: "ips_base ?ips" and comps: "comps_ok (id_manager ?ips) ?ncid (proto_components (unphased c))"
    and ncid: "component_allocated (id_manager ?ips) ?ncid"
    using inv by (simp_all add: conn_inv_def comps_ok_def)
  have ne: "?ncid \<noteq> udp_cid" using ncid new_component_id_allocated(2) [OF ids(1)] by auto
  have "ips_base (?ips\<lparr>port_info := m6, id_manager := idm4\<rparr>)"
  proof (rule ips_base_mediator [OF base ncid ids(1) ports])
    show "info_of m6 = (info_of (port_info ?ips))
       (nout \<mapsto> \<lparr>owner = ?ncid, peer = Some uin, polarity = Putter, route = LocalComponent\<rparr>,
        uin \<mapsto> \<lparr>owner = udp_cid, peer = Some uin, polarity = Getter, route = UdpEndpoint (length (udp_endpoint_setups su))\<rparr>,
        uout \<mapsto> \<lparr>owner = udp_cid, peer = Some uin, polarity = Putter, route = UdpEndpoint (length (udp_endpoint_setups su))\<rparr>,
        nin \<mapsto> \<lparr>owner = ?ncid, peer = Some uout, polarity = Getter, route = LocalComponent\<rparr>)"
      by (simp add: m6_def m4_def owned_extend_def insert_port_def update_conv')
    show "set (ports_owned_by m6 d) = (if d = udp_cid then {uin, uout} else if d = ?ncid
        then {nin, nout} \<union> set (ports_owned_by (port_info ?ips) ?ncid) else set (ports_owned_by (port_info ?ips) d))" for d
      using ne by (auto simp: m6_def m4_def owned_extend_def insert_port_def ports_owned_by_def update_conv')
    show "dom (map_of (owned m6)) \<subseteq> {?ncid, udp_cid} \<union> dom (map_of (owned (port_info ?ips)))"
      by (auto simp: m6_def m4_def owned_extend_def insert_port_def update_conv' split: if_splits)
    show "tables_wf m6"
      using base by (simp add: m6_def m4_def ips_base_def tables_wf_def owned_extend_def insert_port_def distinct_update)
  qed simp_all
  moreover have "comps_ok idm4 ?ncid (proto_components (unphased c))"
    using comps component_allocated_ports [OF ports] new_component_id_allocated(1) [OF ids(1)]
    by (auto intro: comps_ok_mono)
  ultimately show ?thesis using c' by (auto simp: conn_inv_def phase_ok_def)
qed (use inv new in \<open>auto simp: new_udp_mediator_component_def act_option_def split: ConnectorPhased.splits option.splits prod.splits\<close>)

end
