(* ===== verification/Sync_Round.thy ===== *)
theory Sync_Round
  imports Connector
begin

text \<open>
  The synchronous round (\<open>Connector::sync\<close>, \<open>connected_sync\<close>,
  \<open>sync_reach_decision\<close> and \<open>request_failure\<close> of \<open>src/runtime/communication.rs\<close>).
  First the components run to the start of their synchronous blocks, then the batches of
  the native become speculative branches, then messages are routed until a decision is
  reached, and at the end the decision is announced and committed or rolled back. The
  workspace maps that the source reuses between calls are left out.
\<close>

section \<open>Components before their synchronous blocks\<close>

text \<open>
  The loop over \<open>unrun_components\<close>, which may create further components and so takes
  fuel. The assertion fails when a component identifier occurs twice.
\<close>

fun nonsync_phase :: "nat \<Rightarrow> 's Interp \<Rightarrow> (ComponentId \<times> 's) list \<Rightarrow> IdAndPortState \<Rightarrow>
    (ComponentId, 's branches) hash_map \<Rightarrow> (IdAndPortState \<times> (ComponentId, 's branches) hash_map, SyncError) res" where
  "nonsync_phase fuel interp [] ips bpcs = Ok (ips, bpcs)"
| "nonsync_phase 0 interp (u # us) ips bpcs = OutOfFuel"
| "nonsync_phase (Suc fuel) interp (u # us) ips bpcs =
     (let (cid, component) = last (u # us) in
      case nonsync_run interp component
          \<lparr>npc_ips = ips, npc_proto_component_id = cid, npc_unrun_components = butlast (u # us)\<rparr> of
        None \<Rightarrow> Panic
      | Some (blocker, component', ctx) \<Rightarrow>
          (case blocker of
             ComponentExit \<Rightarrow> nonsync_phase fuel interp (npc_unrun_components ctx) (npc_ips ctx) bpcs
           | NonsyncInconsistent \<Rightarrow> Err (InconsistentProtoComponent cid)
           | SyncBlockStart \<Rightarrow>
               if hm_get bpcs cid = None
               then nonsync_phase fuel interp (npc_unrun_components ctx) (npc_ips ctx)
                      (hm_insert cid (initial component') bpcs)
               else Panic))"

section \<open>The native's batches become branches\<close>

fun assign_firing :: "PortInfoMap \<Rightarrow> PortId list \<Rightarrow> Predicate \<Rightarrow> Predicate option" where
  "assign_firing m [] predicate = Some predicate"
| "assign_firing m (port # it) predicate = do {
     var \<leftarrow> spec_var_for m port;
     assign_firing m it (inserted predicate var FIRING)
   }"

text \<open>The inner \<open>None\<close> is an internal inconsistency: the batch is skipped.\<close>

fun assign_native_silent :: "PortInfoMap \<Rightarrow> PortId hash_set \<Rightarrow> PortId list \<Rightarrow> Predicate \<Rightarrow> Predicate option option" where
  "assign_native_silent m firing_ports [] predicate = Some (Some predicate)"
| "assign_native_silent m firing_ports (port # it) predicate =
     (if port \<in> set firing_ports then assign_native_silent m firing_ports it predicate
      else do {
        var \<leftarrow> spec_var_for m port;
        if query predicate var = Some FIRING then Some None
        else assign_native_silent m firing_ports it (inserted predicate var SILENT)
      })"

definition native_predicate :: "PortInfoMap \<Rightarrow> ComponentId \<Rightarrow> SpecVar \<Rightarrow> SpecVal \<Rightarrow> NativeBatch \<Rightarrow> Predicate option option" where
  "native_predicate m native_cid native_spec_var branch_spec_val batch = do {
     let firing = to_get batch @ hm_keys (to_put batch);
     predicate \<leftarrow> assign_firing m firing Predicate_default;
     r \<leftarrow> assign_native_silent m firing (ports_owned_by m native_cid) predicate;
     Some (map_option (\<lambda>p. inserted p native_spec_var branch_spec_val) r)
   }"

fun send_puts :: "PortInfoMap \<Rightarrow> Predicate \<Rightarrow> (PortId \<times> Payload) list \<Rightarrow> RoundCtx \<Rightarrow> RoundCtx option" where
  "send_puts m predicate [] rctx = Some rctx"
| "send_puts m predicate ((putter, payload) # it) rctx = do {
     info \<leftarrow> hm_get (port_map m) putter;
     oassert (polarity info = Putter);
     rctx' \<leftarrow> putter_push putter \<lparr>spm_predicate = predicate, spm_payload = payload\<rparr> rctx;
     send_puts m predicate it rctx'
   }"

text \<open>
  The loop \<open>'native_branches\<close>. The values of \<open>SpecVal::iter_domain\<close> are 16-bit; the range
  panics when it steps past its last value, so that there are at most 65535 batches. This is
  the build with overflow checks; in a build without them the values start again from 0.
\<close>

fun native_branches_loop :: "PortInfoMap \<Rightarrow> ComponentId \<Rightarrow> SpecVar \<Rightarrow> nat \<Rightarrow> NativeBatch list \<Rightarrow>
    (Predicate, NativeBranch) hash_map \<Rightarrow> RoundCtx \<Rightarrow> ((Predicate, NativeBranch) hash_map \<times> RoundCtx) option" where
  "native_branches_loop m native_cid nvar index [] branches rctx = Some (branches, rctx)"
| "native_branches_loop m native_cid nvar index (batch # batches) branches rctx = do {
     oassert (index < 2 ^ 16 - 1);
     r \<leftarrow> native_predicate m native_cid nvar (SpecVal (of_nat index)) batch;
     case r of
       None \<Rightarrow> native_branches_loop m native_cid nvar (Suc index) batches branches rctx
     | Some predicate \<Rightarrow> do {
         rctx1 \<leftarrow> send_puts m predicate (to_put batch) rctx;
         let branch = \<lparr>nb_index = index, nb_gotten = [], nb_to_get = to_get batch\<rparr>;
         rctx2 \<leftarrow> (if is_ended branch then rc_submit (SubLocalComponent native_cid) predicate rctx1 else Some rctx1);
         oassert (hm_get branches predicate = None);
         native_branches_loop m native_cid nvar (Suc index) batches (hm_insert predicate branch branches) rctx2
       }
   }"

section \<open>Reaching a decision\<close>

record ('w, 's) RoundState = "'w RecvState" +
  rd_native :: "(Predicate, NativeBranch) hash_map"
  rd_protos :: "(ComponentId, 's branches) hash_map"
  already_requested_failure :: bool

definition replace_with_true :: "bool \<Rightarrow> bool \<times> bool" where
  "replace_with_true b = (\<not> b, True)"

definition ctrl_msg :: "nat \<Rightarrow> CommCtrlMsg \<Rightarrow> Msg" where
  "ctrl_msg k c = CommMsg \<lparr>cm_round_index = k, contents = CommCtrl c\<rparr>"

definition request_failure :: "'w Net \<Rightarrow> nat \<Rightarrow> nat \<Rightarrow> (('w, 'z) NetState_scheme, unit, UnrecoverableSyncError) act" where
  "request_failure net k p = send_to_comms net p (ctrl_msg k (Suggest Failure))"

text \<open>
  What the procedure does whenever the round cannot succeed any more: the leader decides on
  failure (the result \<open>Some Failure\<close> ends the procedure), any other connector asks its
  parent for failure, once.
\<close>

definition give_up :: "'w Net \<Rightarrow> nat \<Rightarrow> nat option \<Rightarrow> (('w, 's, 'z) RoundState_scheme, Decision option, UnrecoverableSyncError) act" where
  "give_up net k par s =
     (case par of
        None \<Rightarrow> (Ok (Some Failure), s)
      | Some p \<Rightarrow>
          (let (replaced, flag) = replace_with_true (already_requested_failure s);
               s' = s\<lparr>already_requested_failure := flag\<rparr> in
           if replaced then act_bind (request_failure net k p) (\<lambda>_. act_ret None) s'
           else (Ok None, s')))"

text \<open>Running every component to its first blocker, in the order of the map.\<close>

fun run_components :: "nat \<Rightarrow> 'w Net \<Rightarrow> 's runner \<Rightarrow> nat \<Rightarrow> nat option \<Rightarrow> ComponentId list \<Rightarrow>
    (('w, 's, 'z) RoundState_scheme, Decision option, UnrecoverableSyncError) act" where
  "run_components fuel net run k par [] s = (Ok None, s)"
| "run_components fuel net run k par (cid # cids) s =
     (case hm_get (rd_protos s) cid of
        None \<Rightarrow> run_components fuel net run k par cids s
      | Some branches \<Rightarrow>
          (case drain_branches_to_blocked fuel run cid branches [] (rs_rctx s) of
             Ok (branches', rctx') \<Rightarrow>
               (let s' = s\<lparr>rs_rctx := rctx', rd_protos := hm_insert cid branches' (rd_protos s)\<rparr> in
                if branches' = [] then
                  act_bind (give_up net k par) (\<lambda>d. case d of
                    Some decision \<Rightarrow> act_ret (Some decision)
                  | None \<Rightarrow> run_components fuel net run k par cids) s'
                else run_components fuel net run k par cids s')
           | Err e \<Rightarrow> (Err e, s)
           | Panic \<Rightarrow> (Panic, s)
           | OutOfFuel \<Rightarrow> (OutOfFuel, s)))"

text \<open>
  One message of the buffer. The result \<open>Some decision\<close> ends the procedure. A message
  for a component that has exited is dropped.
\<close>

definition route_payload :: "nat \<Rightarrow> 'w Net \<Rightarrow> 's runner \<Rightarrow> nat \<Rightarrow> nat option \<Rightarrow> ComponentId \<Rightarrow> PortId \<Rightarrow> SendPayloadMsg \<Rightarrow>
    (('w, 's, 'z) RoundState_scheme, Decision option, UnrecoverableSyncError) act" where
  "route_payload fuel net run k par native_cid getter msg s =
     (case hm_get (port_map (rc_ports (rs_rctx s))) getter of
        None \<Rightarrow> (Panic, s)
      | Some getter_info \<Rightarrow>
          if polarity getter_info \<noteq> Getter then (Panic, s)
          else case route getter_info of
            UdpEndpoint index \<Rightarrow>
              if index < length (endpoint_exts (udp_endpoint_store (em s))) then
                let ee = endpoint_exts (udp_endpoint_store (em s)) ! index in
                (Ok None, s\<lparr>em := set_udp_ext index
                   (ee\<lparr>outgoing_payloads := hm_insert (spm_predicate msg) (spm_payload msg) (outgoing_payloads ee)\<rparr>) (em s)\<rparr>)
              else (Panic, s)
          | NetEndpoint index \<Rightarrow>
              act_bind (send_to_comms net index (CommMsg \<lparr>cm_round_index = k, contents = SendPayload msg\<rparr>)) (\<lambda>_. act_ret None) s
          | LocalComponent \<Rightarrow>
              if owner getter_info = native_cid then
                (case native_feed_msg native_cid getter msg (rd_native s) (rs_rctx s) of
                   None \<Rightarrow> (Panic, s)
                 | Some (native', rctx') \<Rightarrow> (Ok None, s\<lparr>rs_rctx := rctx', rd_native := native'\<rparr>))
              else
                (case hm_get (rd_protos s) (owner getter_info) of
                   None \<Rightarrow> (Ok None, s)
                 | Some branches \<Rightarrow>
                     (case proto_feed_msg fuel run (owner getter_info) getter msg branches (rs_rctx s) of
                        Ok (branches', rctx') \<Rightarrow>
                          (let s' = s\<lparr>rs_rctx := rctx', rd_protos := hm_insert (owner getter_info) branches' (rd_protos s)\<rparr> in
                           if branches' = [] then give_up net k par s' else (Ok None, s'))
                      | Err e \<Rightarrow> (Err e, s)
                      | Panic \<Rightarrow> (Panic, s)
                      | OutOfFuel \<Rightarrow> (OutOfFuel, s))))"

fun route_payloads :: "nat \<Rightarrow> 'w Net \<Rightarrow> 's runner \<Rightarrow> nat \<Rightarrow> nat option \<Rightarrow> ComponentId \<Rightarrow>
    (('w, 's, 'z) RoundState_scheme, Decision option, UnrecoverableSyncError) act" where
  "route_payloads 0 net run k par native_cid s = (OutOfFuel, s)"
| "route_payloads (Suc fuel) net run k par native_cid s =
     (case getter_pop (rs_rctx s) of
        None \<Rightarrow> (Ok None, s)
      | Some ((getter, msg), rctx) \<Rightarrow>
          act_bind (route_payload fuel net run k par native_cid getter msg) (\<lambda>d. case d of
            Some decision \<Rightarrow> act_ret (Some decision)
          | None \<Rightarrow> route_payloads fuel net run k par native_cid) (s\<lparr>rs_rctx := rctx\<rparr>))"

text \<open>
  The new local solutions: the leader decides on the first one, any other connector
  suggests each of them to its parent. All of them have become old by then; the source
  moves them one by one, which makes a difference only when the round ends here.
\<close>

fun forward_solutions :: "'w Net \<Rightarrow> nat \<Rightarrow> nat option \<Rightarrow> Predicate list \<Rightarrow>
    (('w, 's, 'z) RoundState_scheme, Decision option, UnrecoverableSyncError) act" where
  "forward_solutions net k par [] s = (Ok None, s)"
| "forward_solutions net k par (solution # solutions) s =
     (case par of
        Some p \<Rightarrow>
          act_bind (send_to_comms net p (ctrl_msg k (Suggest (Success solution)))) (\<lambda>_.
            forward_solutions net k par solutions) s
      | None \<Rightarrow> (Ok (Some (Success solution)), s))"

definition report_solutions :: "'w Net \<Rightarrow> nat \<Rightarrow> nat option \<Rightarrow>
    (('w, 's, 'z) RoundState_scheme, Decision option, UnrecoverableSyncError) act" where
  "report_solutions net k par s =
     (case iter_new_local_make_old (solution_storage (rs_rctx s)) of
        None \<Rightarrow> (Panic, s)
      | Some (solutions, storage) \<Rightarrow>
          forward_solutions net k par solutions (s\<lparr>rs_rctx := (rs_rctx s)\<lparr>solution_storage := storage\<rparr>\<rparr>))"

text \<open>What a control message of this round leads to.\<close>

definition handle_ctrl :: "'w Net \<Rightarrow> nat \<Rightarrow> Neighborhood \<Rightarrow> nat \<Rightarrow> CommCtrlMsg \<Rightarrow>
    (('w, 's, 'z) RoundState_scheme, Decision option, UnrecoverableSyncError) act" where
  "handle_ctrl net k nbh net_index ctrl s =
     (case ctrl of
        Suggest suggestion \<Rightarrow>
          if VecSet_contains (children nbh) net_index then
            (case suggestion of
               Success predicate \<Rightarrow>
                 (case rc_submit (SubNetEndpoint net_index) predicate (rs_rctx s) of
                    None \<Rightarrow> (Panic, s)
                  | Some rctx \<Rightarrow> (Ok None, s\<lparr>rs_rctx := rctx\<rparr>))
             | Failure \<Rightarrow> give_up net k (parent nbh) s)
          else (Ok None, s)
      | Announce decision \<Rightarrow>
          if Some net_index = parent nbh then (Ok (Some decision), s) else (Ok None, s))"

definition receive_step :: "nat \<Rightarrow> 'w Net \<Rightarrow> nat \<Rightarrow> Neighborhood \<Rightarrow>
    (('w, 's, 'z) RoundState_scheme, Decision option, UnrecoverableSyncError) act" where
  "receive_step fuel net k nbh =
     act_bind (try_recv_any_comms fuel net k) (\<lambda>r. case r of
       NewControlMsg net_index ctrl \<Rightarrow> handle_ctrl net k nbh net_index ctrl
     | NewPayloadMsgs \<Rightarrow> act_ret None
     | TimeoutWithoutNew \<Rightarrow>
         act_bind (give_up net k (parent nbh)) (\<lambda>d. case d of
           Some decision \<Rightarrow> act_ret (Some decision)
         | None \<Rightarrow> act_bind (act_modify (\<lambda>s. s\<lparr>rs_rctx := (rs_rctx s)\<lparr>deadline := None\<rparr>\<rparr>)) (\<lambda>_. act_ret None)))"

text \<open>Sequencing of steps that may end the procedure.\<close>

definition act_or_else :: "('s, 'a option, 'e) act \<Rightarrow> ('s, 'a option, 'e) act \<Rightarrow> ('s, 'a option, 'e) act" where
  "act_or_else m n = act_bind m (\<lambda>d. case d of Some x \<Rightarrow> act_ret (Some x) | None \<Rightarrow> n)"

definition undecided_step :: "nat \<Rightarrow> 'w Net \<Rightarrow> 's runner \<Rightarrow> nat \<Rightarrow> Neighborhood \<Rightarrow> ComponentId \<Rightarrow>
    (('w, 's, 'z) RoundState_scheme, Decision option, UnrecoverableSyncError) act" where
  "undecided_step fuel net run k nbh native_cid =
     act_or_else (route_payloads fuel net run k (parent nbh) native_cid)
       (act_or_else (report_solutions net k (parent nbh)) (receive_step fuel net k nbh))"

fun undecided_loop :: "nat \<Rightarrow> 'w Net \<Rightarrow> 's runner \<Rightarrow> nat \<Rightarrow> Neighborhood \<Rightarrow> ComponentId \<Rightarrow>
    (('w, 's, 'z) RoundState_scheme, Decision, UnrecoverableSyncError) act" where
  "undecided_loop 0 net run k nbh native_cid s = (OutOfFuel, s)"
| "undecided_loop (Suc fuel) net run k nbh native_cid s =
     act_bind (undecided_step fuel net run k nbh native_cid) (\<lambda>d. case d of
       Some decision \<Rightarrow> act_ret decision
     | None \<Rightarrow> undecided_loop fuel net run k nbh native_cid) s"

definition sync_reach_decision :: "nat \<Rightarrow> 'w Net \<Rightarrow> 's runner \<Rightarrow> nat \<Rightarrow> Neighborhood \<Rightarrow> ComponentId \<Rightarrow>
    (('w, 's, 'z) RoundState_scheme, Decision, UnrecoverableSyncError) act" where
  "sync_reach_decision fuel net run k nbh native_cid s =
     act_bind
       (act_or_else (\<lambda>s. if rd_native s = [] then give_up net k (parent nbh) s else (Ok None, s))
          (\<lambda>s. run_components fuel net run k (parent nbh) (hm_keys (rd_protos s)) s))
       (\<lambda>d. case d of
          Some decision \<Rightarrow> act_ret decision
        | None \<Rightarrow> act_bind (act_modify (\<lambda>s. s\<lparr>em := undelay_all (em s)\<rparr>)) (\<lambda>_.
            undecided_loop fuel net run k nbh native_cid)) (s\<lparr>already_requested_failure := False\<rparr>)"

section \<open>The round\<close>

fun collapse_components :: "(ComponentId \<times> 's branches) list \<Rightarrow> Predicate \<Rightarrow> (ComponentId \<times> 's) list option" where
  "collapse_components [] predicate = Some []"
| "collapse_components ((cid, branches) # bpcs) predicate = do {
     state \<leftarrow> proto_collapse_with branches predicate;
     rest \<leftarrow> collapse_components bpcs predicate;
     Some ((cid, state) # rest)
   }"

definition announce :: "'w Net \<Rightarrow> nat \<Rightarrow> Neighborhood \<Rightarrow> Decision \<Rightarrow>
    (('w, 'z) NetState_scheme, unit, UnrecoverableSyncError) act" where
  "announce net k nbh decision =
     act_for (vec (children nbh)) (\<lambda>child. send_to_comms net child (ctrl_msg k (Announce decision)))"

text \<open>The decision of the round, with its effects outside the components and the ports.\<close>

definition decide_round :: "nat \<Rightarrow> 'w Net \<Rightarrow> 's runner \<Rightarrow> nat \<Rightarrow> Neighborhood \<Rightarrow> ComponentId \<Rightarrow>
    (('w, 's, 'z) RoundState_scheme, Decision, UnrecoverableSyncError) act" where
  "decide_round fuel net run k nbh native_cid =
     act_bind (sync_reach_decision fuel net run k nbh native_cid) (\<lambda>decision.
     act_bind (udp_endpoints_round_end net decision) (\<lambda>_.
     act_bind (announce net k nbh decision) (\<lambda>_. act_ret decision)))"

definition round_subtrees :: "ComponentId \<Rightarrow> (ComponentId, 's branches) hash_map \<Rightarrow> Neighborhood \<Rightarrow> SubtreeId list" where
  "round_subtrees native_cid bpcs nbh =
     SubLocalComponent native_cid # map SubLocalComponent (hm_keys bpcs) @ map SubNetEndpoint (vec (children nbh))"

text \<open>
  The beginning of \<open>connected_sync\<close>: the state in which the search for a decision starts.
  \<open>None\<close> is a panic.
\<close>

definition round_start :: "'s ConnectorUnphased \<Rightarrow> ConnectorCommunication \<Rightarrow> IdAndPortState \<Rightarrow>
    (ComponentId, 's branches) hash_map \<Rightarrow> nat option \<Rightarrow> 'w \<Rightarrow> ('w, 's) RoundState option" where
  "round_start cu comm ips bpcs dl w = do {
     let stream = new_spec_var_stream (id_manager (cu_ips cu));
     (native_spec_var, stream') \<leftarrow> SpecVarStream_next stream;
     let rctx = \<lparr>solution_storage = SolutionStorage_new (round_subtrees (native_component_id cu) bpcs (neighborhood comm)),
                 spec_var_stream = stream', payload_inbox = [], deadline = dl, rips = ips\<rparr>;
     (native, rctx') \<leftarrow> native_branches_loop (port_info (cu_ips cu)) (native_component_id cu) native_spec_var 0
       (native_batches comm) [] rctx;
     Some \<lparr>world = w, em = endpoint_manager comm, rs_rctx = rctx', rd_native = native, rd_protos = bpcs,
           already_requested_failure = False\<rparr>
   }"

type_synonym ('s, 'w) sync_state = "'s ConnectorUnphased \<times> ConnectorCommunication \<times> 'w"

definition connected_sync :: "nat \<Rightarrow> 'w Net \<Rightarrow> 's Interp \<Rightarrow> nat option \<Rightarrow>
    (('s, 'w) sync_state, RoundEndedNative option, SyncError) act" where
  "connected_sync fuel net interp timeout = (\<lambda>(cu, comm, w).
     case nonsync_phase fuel interp (proto_components cu) (cu_ips cu) [] of
       Err e \<Rightarrow> (Err e, cu, comm, w)
     | Panic \<Rightarrow> (Panic, cu, comm, w)
     | OutOfFuel \<Rightarrow> (OutOfFuel, cu, comm, w)
     | Ok (ips, bpcs) \<Rightarrow>
         (let (dl, w1) = (case timeout of None \<Rightarrow> (None, w)
              | Some to \<Rightarrow> let (t, w1) = clock_now net w in (Some (t + to), w1)) in
          case round_start cu comm ips bpcs dl w1 of
            None \<Rightarrow> (Panic, cu, comm, w1)
          | Some s0 \<Rightarrow>
              (let comm1 = comm\<lparr>native_batches := [NativeBatch_default]\<rparr>;
                   nbh = neighborhood comm;
                   (r, s) = decide_round fuel net (sync_run interp) (round_index comm) nbh (native_component_id cu) s0;
                   comm2 = comm1\<lparr>endpoint_manager := em s\<rparr> in
               case r of
                 Err e \<Rightarrow> (Err (Unrecoverable e), cu, comm2, world s)
               | Panic \<Rightarrow> (Panic, cu, comm2, world s)
               | OutOfFuel \<Rightarrow> (OutOfFuel, cu, comm2, world s)
               | Ok Failure \<Rightarrow> (Err RoundFailure, cu, comm2, world s)
               | Ok (Success predicate) \<Rightarrow>
                   (case (collapse_components (rd_protos s) predicate, native_collapse_with (rd_native s) predicate) of
                      (Some states, Some round_ok) \<Rightarrow>
                        (Ok (Some round_ok),
                         cu\<lparr>proto_components := fold (\<lambda>(cid, st). hm_insert cid st) states [],
                            cu_ips := rips (rs_rctx s)\<rparr>, comm2, world s)
                    | _ \<Rightarrow> (Panic, cu, comm2, world s)))))"

text \<open>
  The public entry. An unrecoverable error of an earlier round is returned again. The
  result \<open>Ok None\<close> would be a panic (\<open>unreachable!\<close>).
\<close>

definition sync :: "nat \<Rightarrow> 'w Net \<Rightarrow> 's Interp \<Rightarrow> nat option \<Rightarrow> ('s Connector \<times> 'w, nat, SyncError) act" where
  "sync fuel net interp timeout = (\<lambda>(c, w).
     case phased c of
       PhSetup _ \<Rightarrow> (Err Se_NotConnected, c, w)
     | PhCommunication comm \<Rightarrow>
         (case round_result comm of
            Inl (Unrecoverable e) \<Rightarrow> (Err (Unrecoverable e), c, w)
          | _ \<Rightarrow>
            (case connected_sync fuel net interp timeout (unphased c, comm, w) of
               (Ok (Some ok_result), cu, comm', w') \<Rightarrow>
                 (Ok (ren_batch_index ok_result), \<lparr>unphased = cu,
                   phased = PhCommunication (comm'\<lparr>round_result := Inr (Some ok_result), round_index := round_index comm' + 1\<rparr>)\<rparr>, w')
             | (Ok None, cu, comm', w') \<Rightarrow> (Panic, \<lparr>unphased = cu, phased = PhCommunication comm'\<rparr>, w')
             | (Err e, cu, comm', w') \<Rightarrow>
                 (Err e, \<lparr>unphased = cu,
                   phased = PhCommunication (comm'\<lparr>round_result := Inl e, round_index := round_index comm' + 1\<rparr>)\<rparr>, w')
             | (Panic, cu, comm', w') \<Rightarrow> (Panic, \<lparr>unphased = cu, phased = PhCommunication comm'\<rparr>, w')
             | (OutOfFuel, cu, comm', w') \<Rightarrow> (OutOfFuel, \<lparr>unphased = cu, phased = PhCommunication comm'\<rparr>, w'))))"

end
