(* ===== verification/Round_Invariant.thy ===== *)
theory Round_Invariant
  imports Sync_Round
begin

text \<open>
  What a synchronous round keeps. Before the synchronous blocks, components change the
  ports through their callbacks only, which keep the port tables in order and never touch a
  port of the native. During the round, the port tables stay as they are, the branches of
  the native and the solution storage stay consistent, and messages stay well formed. From
  this follow what a successful round commits and that it keeps the connector's invariant.
\<close>

section \<open>Before the synchronous blocks\<close>

text \<open>Identifiers only grow, and the native's ports are not touched.\<close>

definition native_frame :: "ComponentId \<Rightarrow> IdAndPortState \<Rightarrow> IdAndPortState \<Rightarrow> bool" where
  "native_frame ncid ips ips' \<longleftrightarrow>
     (\<forall>cid. component_allocated (id_manager ips) cid \<longrightarrow> component_allocated (id_manager ips') cid) \<and>
     (\<forall>p info. owner info = ncid \<longrightarrow> (info_of (port_info ips') p = Some info \<longleftrightarrow> info_of (port_info ips) p = Some info))"

definition ids_distinct :: "IdManager \<Rightarrow> ComponentId \<Rightarrow> ComponentId list \<Rightarrow> bool" where
  "ids_distinct idm ncid ids \<longleftrightarrow> distinct ids \<and> component_allocated idm ncid \<and>
     (\<forall>cid \<in> set ids. component_allocated idm cid \<and> cid \<noteq> ncid)"

lemma native_frame_refl [simp]: "native_frame ncid ips ips"
  by (simp add: native_frame_def)

lemma native_frame_trans: "native_frame ncid a b \<Longrightarrow> native_frame ncid b c \<Longrightarrow> native_frame ncid a c"
  by (simp add: native_frame_def)

lemma ids_distinct_frame:
  "ids_distinct (id_manager ips) ncid ids \<Longrightarrow> native_frame ncid ips ips' \<Longrightarrow> ids_distinct (id_manager ips') ncid ids"
  by (simp add: ids_distinct_def native_frame_def)

lemma new_port_pair_native_frame:
  assumes "ips_base ips" "cid \<noteq> ncid" "nonsync_new_port_pair cid ips = Some (ports, ips')"
  shows "native_frame ncid ips ips'"
proof -
  obtain p q where ports: "ports = (p, q)" by (cases ports)
  from nonsync_new_port_pair_Some [OF assms(3) [unfolded ports]] obtain idm1 where
    idm: "new_port_id (id_manager ips) = Some (p, idm1)" "new_port_id idm1 = Some (q, id_manager ips')"
    and m: "port_info ips' = owned_extend cid [p, q]
        (insert_port q \<lparr>owner = cid, peer = Some p, polarity = Getter, route = LocalComponent\<rparr>
          (insert_port p \<lparr>owner = cid, peer = Some q, polarity = Putter, route = LocalComponent\<rparr> (port_info ips)))"
    by blast
  have "ids_ok ips" using assms(1) by (simp add: ips_base_def)
  from new_port_pair_fresh [OF this idm] assms(2) new_port_id_frame(1) [OF idm(1)] new_port_id_frame(1) [OF idm(2)]
  show ?thesis by (auto simp: native_frame_def m table_simps)
qed

lemma new_component_native_frame:
  assumes ok: "ips_base ips" and ncid: "cid \<noteq> ncid" "component_allocated (id_manager ips) ncid"
    and new: "nonsync_new_component cid moved st ips unrun = Some (ips', unrun')"
  shows "native_frame ncid ips ips'"
    and "\<exists>new_cid. unrun' = unrun @ [(new_cid, st)] \<and> \<not> component_allocated (id_manager ips) new_cid \<and>
      component_allocated (id_manager ips') new_cid"
proof -
  obtain new_cid idm m where
    moved: "\<forall>p \<in> set moved. \<exists>info. info_of (port_info ips) p = Some info \<and> owner info = cid"
    and idm: "new_component_id (id_manager ips) = Some (new_cid, idm)"
    and m: "move_ports cid new_cid moved (port_info ips) = Some m"
    and ips': "ips' = ips\<lparr>port_info := m, id_manager := idm\<rparr>" "unrun' = unrun @ [(new_cid, st)]"
    using new by (fastforce simp: nonsync_new_component_def bind_eq_Some_conv list_all_iff split: option.splits)
  note alloc = new_component_id_allocated [OF idm]
  show "\<exists>new_cid. unrun' = unrun @ [(new_cid, st)] \<and> \<not> component_allocated (id_manager ips) new_cid \<and>
      component_allocated (id_manager ips') new_cid"
    using alloc by (auto simp: ips')
  have ne: "new_cid \<noteq> ncid" using alloc(2) ncid(2) by auto
  have "set_owners moved new_cid (port_map (port_info ips)) = Some (port_map m)"
    using m by (auto simp: move_ports_def bind_eq_Some_conv Let_def)
  then have "info_of m p = (if p \<in> set moved then map_option (owner_update (\<lambda>_. new_cid)) (info_of (port_info ips) p)
       else info_of (port_info ips) p)" for p
    using set_owners_spec by fastforce
  then have "info_of m p = Some info \<longleftrightarrow> info_of (port_info ips) p = Some info" if "owner info = ncid" for p info
    using that ne ncid(1) moved by (cases "p \<in> set moved") auto
  then show "native_frame ncid ips ips'"
    using alloc(1) by (simp add: native_frame_def ips')
qed

lemma callbacks_keep:
  assumes "nonsync_callbacks ctx ctx'"
    and "ips_base (npc_ips ctx)" "npc_proto_component_id ctx \<in> set others"
    and "ids_distinct (id_manager (npc_ips ctx)) ncid (map fst (npc_unrun_components ctx) @ others)"
  shows "npc_proto_component_id ctx' = npc_proto_component_id ctx \<and> ips_base (npc_ips ctx') \<and>
    ids_distinct (id_manager (npc_ips ctx')) ncid (map fst (npc_unrun_components ctx') @ others) \<and>
    native_frame ncid (npc_ips ctx) (npc_ips ctx')"
  using assms
proof (induction rule: nonsync_callbacks.induct)
  case (none ctx)
  then show ?case by simp
next
  case (port_pair ctx ctx' ports ips')
  then have IH: "npc_proto_component_id ctx' = npc_proto_component_id ctx" "ips_base (npc_ips ctx')"
    "ids_distinct (id_manager (npc_ips ctx')) ncid (map fst (npc_unrun_components ctx') @ others)"
    "native_frame ncid (npc_ips ctx) (npc_ips ctx')"
    by blast+
  obtain p q where ports: "ports = (p, q)" by (cases ports)
  have pid: "component_allocated (id_manager (npc_ips ctx')) (npc_proto_component_id ctx')" "npc_proto_component_id ctx' \<noteq> ncid"
    using IH(1,3) port_pair.prems(2) by (auto simp: ids_distinct_def)
  have frame: "native_frame ncid (npc_ips ctx') ips'"
    by (rule new_port_pair_native_frame [OF IH(2) pid(2) port_pair.hyps(2)])
  then show ?case
    using IH nonsync_new_port_pair_inv(1) [OF IH(2) pid(1)] port_pair.hyps(2) ports
    by (auto intro: ids_distinct_frame native_frame_trans)
next
  case (component ctx ctx' moved st ips' unrun')
  then have IH: "npc_proto_component_id ctx' = npc_proto_component_id ctx" "ips_base (npc_ips ctx')"
    "ids_distinct (id_manager (npc_ips ctx')) ncid (map fst (npc_unrun_components ctx') @ others)"
    "native_frame ncid (npc_ips ctx) (npc_ips ctx')"
    by blast+
  have pid: "npc_proto_component_id ctx' \<noteq> ncid" "component_allocated (id_manager (npc_ips ctx')) ncid"
    using IH(1,3) component.prems(2) by (auto simp: ids_distinct_def)
  note new = new_component_native_frame [OF IH(2) pid component.hyps(2)]
  obtain new_cid where n: "unrun' = npc_unrun_components ctx' @ [(new_cid, st)]"
    "\<not> component_allocated (id_manager (npc_ips ctx')) new_cid" "component_allocated (id_manager ips') new_cid"
    using new(2) by blast
  have "ids_distinct (id_manager ips') ncid (map fst unrun' @ others)"
    using ids_distinct_frame [OF IH(3) new(1)] n IH(3) by (auto simp: ids_distinct_def)
  then show ?case
    using IH new(1) nonsync_new_component_inv(1) [OF IH(2) component.hyps(2)] by (auto intro: native_frame_trans)
qed

text \<open>One component of the loop: the one popped, and what is left to do.\<close>

lemma nonsync_step:
  assumes run: "nonsync_run interp component \<lparr>npc_ips = ips, npc_proto_component_id = cid, npc_unrun_components = rest\<rparr> =
      Some (blocker, component', ctx)"
    and ok: "interp_ok interp" "ips_base ips" "ids_distinct (id_manager ips) ncid (map fst (rest @ [(cid, component)]) @ hm_keys bpcs)"
  shows "ips_base (npc_ips ctx)" "native_frame ncid ips (npc_ips ctx)" "hm_get bpcs cid = None"
    "ids_distinct (id_manager (npc_ips ctx)) ncid (map fst (npc_unrun_components ctx) @ hm_keys bpcs)"
    "ids_distinct (id_manager (npc_ips ctx)) ncid (map fst (npc_unrun_components ctx) @ hm_keys (hm_insert cid b bpcs))"
proof -
  have "nonsync_callbacks \<lparr>npc_ips = ips, npc_proto_component_id = cid, npc_unrun_components = rest\<rparr> ctx"
    using run ok(1) by (auto simp: interp_ok_def)
  from callbacks_keep [OF this, of "cid # hm_keys bpcs" ncid] ok(2,3)
  have s: "ips_base (npc_ips ctx)" "native_frame ncid ips (npc_ips ctx)"
    "ids_distinct (id_manager (npc_ips ctx)) ncid (map fst (npc_unrun_components ctx) @ cid # hm_keys bpcs)"
    by simp_all
  have new: "cid \<notin> set (hm_keys bpcs)" using s(3) by (simp add: ids_distinct_def)
  then have "hm_insert cid b bpcs = bpcs @ [(cid, b)]"
    by (induction bpcs) (auto split: if_splits)
  with s new show "ips_base (npc_ips ctx)" "native_frame ncid ips (npc_ips ctx)" "hm_get bpcs cid = None"
    "ids_distinct (id_manager (npc_ips ctx)) ncid (map fst (npc_unrun_components ctx) @ hm_keys bpcs)"
    "ids_distinct (id_manager (npc_ips ctx)) ncid (map fst (npc_unrun_components ctx) @ hm_keys (hm_insert cid b bpcs))"
    by (auto simp: ids_distinct_def map_of_eq_None_iff)
qed

text \<open>
  The whole phase. It starts with the components of the connector, whose identifiers are
  distinct, and never finds one twice: the assertion of the source cannot fail.
\<close>

lemma nonsync_phase_keeps:
  assumes "nonsync_phase fuel interp unrun ips bpcs = Ok (ips', bpcs')" "interp_ok interp" "ips_base ips"
    and "ids_distinct (id_manager ips) ncid (map fst unrun @ hm_keys bpcs)"
    and "\<forall>(cid, b) \<in> set bpcs. proto_wf b"
  shows "ips_base ips' \<and> ids_distinct (id_manager ips') ncid (hm_keys bpcs') \<and> native_frame ncid ips ips' \<and>
      (\<forall>(cid, b) \<in> set bpcs'. proto_wf b)"
  using assms
proof (induction fuel arbitrary: unrun ips bpcs)
  case 0
  then show ?case by (cases unrun) (auto simp: ids_distinct_def)
next
  case (Suc fuel)
  show ?case
  proof (cases unrun)
    case Nil
    with Suc.prems show ?thesis by (auto simp: ids_distinct_def)
  next
    case (Cons u us)
    obtain cid component where last: "last (u # us) = (cid, component)" by fastforce
    define rest where "rest = butlast (u # us)"
    have unrun: "unrun = rest @ [(cid, component)]"
      unfolding Cons rest_def last [symmetric] by (metis append_butlast_last_id list.distinct(1))
    note eq = Suc.prems(1) [unfolded Cons nonsync_phase.simps(3) last Let_def prod.case, folded rest_def]
    obtain blocker component' ctx where run: "nonsync_run interp component
        \<lparr>npc_ips = ips, npc_proto_component_id = cid, npc_unrun_components = rest\<rparr> = Some (blocker, component', ctx)"
      using eq by (auto split: option.splits)
    note step = nonsync_step [OF run Suc.prems(2,3) Suc.prems(4) [unfolded unrun]]
    have "proto_wf (initial component')" by (simp add: proto_wf_def initial_def)
    then have wf: "\<forall>(c, b) \<in> set (hm_insert cid (initial component') bpcs). proto_wf b"
      using Suc.prems(5) set_update_subset [of cid "initial component'" bpcs] by fastforce
    show ?thesis
    proof (cases blocker)
      case NonsyncInconsistent
      with eq run show ?thesis by simp
    next
      case ComponentExit
      with eq run have "nonsync_phase fuel interp (npc_unrun_components ctx) (npc_ips ctx) bpcs = Ok (ips', bpcs')"
        by simp
      from Suc.IH [OF this Suc.prems(2) step(1,4) Suc.prems(5)] step(2) show ?thesis
        by (blast intro: native_frame_trans)
    next
      case SyncBlockStart
      with eq run step(3) have "nonsync_phase fuel interp (npc_unrun_components ctx) (npc_ips ctx)
          (hm_insert cid (initial component') bpcs) = Ok (ips', bpcs')"
        by simp
      from Suc.IH [OF this Suc.prems(2) step(1,5) wf] step(2) show ?thesis
        by (blast intro: native_frame_trans)
    qed
  qed
qed

lemma nonsync_phase_no_panic:
  assumes "interp_ok interp" "ips_base ips" "ids_distinct (id_manager ips) ncid (map fst unrun @ hm_keys bpcs)"
    and total: "\<And>st ctx. nonsync_run interp st ctx \<noteq> None"
  shows "nonsync_phase fuel interp unrun ips bpcs \<noteq> Panic"
  using assms(1-3)
proof (induction fuel arbitrary: unrun ips bpcs)
  case 0
  then show ?case by (cases unrun) auto
next
  case (Suc fuel)
  show ?case
  proof (cases unrun)
    case (Cons u us)
    obtain cid component where last: "last (u # us) = (cid, component)" by fastforce
    define rest where "rest = butlast (u # us)"
    have unrun: "unrun = rest @ [(cid, component)]"
      unfolding Cons rest_def last [symmetric] by (metis append_butlast_last_id list.distinct(1))
    obtain blocker component' ctx where run: "nonsync_run interp component
        \<lparr>npc_ips = ips, npc_proto_component_id = cid, npc_unrun_components = rest\<rparr> = Some (blocker, component', ctx)"
      using total by fastforce
    note step = nonsync_step [OF run Suc.prems(1,2) Suc.prems(3) [unfolded unrun]]
    have "nonsync_phase fuel interp (npc_unrun_components ctx) (npc_ips ctx) bpcs \<noteq> Panic"
      "nonsync_phase fuel interp (npc_unrun_components ctx) (npc_ips ctx) (hm_insert cid (initial component') bpcs) \<noteq> Panic"
      using Suc.IH [OF Suc.prems(1) step(1)] step(4,5) by blast+
    with run step(3) show ?thesis
      unfolding Cons nonsync_phase.simps(3) last Let_def prod.case rest_def [symmetric]
      by (cases blocker) simp_all
  qed simp
qed

section \<open>The native's branches\<close>

lemma assign_firing_spec:
  "assign_firing m ports p = Some q \<Longrightarrow> pred_wf p \<Longrightarrow> pred_wf q \<and>
     (\<forall>v. pmap q v = (if \<exists>port \<in> set ports. spec_var_for m port = Some v then Some FIRING else pmap p v))"
proof (induction m ports p rule: assign_firing.induct)
  case (2 m port it p)
  then obtain var where var: "spec_var_for m port = Some var" "assign_firing m it (inserted p var FIRING) = Some q"
    by (auto simp: bind_eq_Some_conv)
  from "2.IH" [OF var] "2.prems"(2) var(1) show ?case
    by (auto simp: pmap_inserted)
qed simp

definition silent_vars :: "PortInfoMap \<Rightarrow> PortId list \<Rightarrow> PortId list \<Rightarrow> SpecVar set" where
  "silent_vars m firing ports = {v. \<exists>port \<in> set ports - set firing. spec_var_for m port = Some v}"

lemma silent_vars_simps [simp]:
  "silent_vars m firing [] = {}"
  "port \<in> set firing \<Longrightarrow> silent_vars m firing (port # ports) = silent_vars m firing ports"
  "port \<notin> set firing \<Longrightarrow> spec_var_for m port = Some v \<Longrightarrow>
     silent_vars m firing (port # ports) = insert v (silent_vars m firing ports)"
  by (auto simp: silent_vars_def)

lemma assign_native_silent_spec:
  "assign_native_silent m firing ports p = Some (Some q) \<Longrightarrow> pred_wf p \<Longrightarrow> pred_wf q \<and>
     (\<forall>v. pmap q v = (if v \<in> silent_vars m firing ports then Some SILENT else pmap p v)) \<and>
     (\<forall>v \<in> silent_vars m firing ports. pmap p v \<noteq> Some FIRING)"
proof (induction m firing ports p rule: assign_native_silent.induct)
  case (2 m firing port it p)
  show ?case
  proof (cases "port \<in> set firing")
    case True
    with "2.IH"(1) [OF True] "2.prems" show ?thesis by simp
  next
    case False
    with "2.prems"(1) obtain var where var: "spec_var_for m port = Some var" "query p var \<noteq> Some FIRING"
      "assign_native_silent m firing it (inserted p var SILENT) = Some (Some q)"
      by (auto simp: bind_eq_Some_conv split: if_splits)
    from "2.IH"(2) [OF False var] "2.prems"(2)
    have IH: "pred_wf q" "\<And>v. pmap q v = (if v \<in> silent_vars m firing it then Some SILENT else pmap (inserted p var SILENT) v)"
      "\<And>v. v \<in> silent_vars m firing it \<Longrightarrow> pmap (inserted p var SILENT) v \<noteq> Some FIRING"
      by simp_all
    have "pmap p v \<noteq> Some FIRING" if "v \<in> silent_vars m firing it" for v
      using IH(3) [OF that] var(2) by (cases "v = var") (simp_all add: query_pmap)
    with IH(1,2) var False show ?thesis by (auto simp: query_pmap)
  qed
qed simp

lemma send_puts_spec:
  "send_puts m p puts rctx = Some rctx' \<Longrightarrow> pred_wf p \<Longrightarrow>
     \<exists>msgs. rctx' = rctx\<lparr>payload_inbox := payload_inbox rctx @ msgs\<rparr> \<and> (\<forall>(g, msg) \<in> set msgs. spm_predicate msg = p)"
proof (induction m p puts rctx rule: send_puts.induct)
  case (1 m p rctx)
  then show ?case by (auto intro: exI [of _ "[]"])
next
  case (2 m p putter payload it rctx)
  then obtain info rctx1 where 1: "hm_get (port_map m) putter = Some info" "oassert (polarity info = Putter) = Some ()"
    "putter_push putter \<lparr>spm_predicate = p, spm_payload = payload\<rparr> rctx = Some rctx1" "send_puts m p it rctx1 = Some rctx'"
    by (auto simp: bind_eq_Some_conv)
  obtain g where g: "rctx1 = getter_push g \<lparr>spm_predicate = p, spm_payload = payload\<rparr> rctx"
    using 1(3) by (auto simp: putter_push_def bind_eq_Some_conv)
  obtain msgs where "rctx' = rctx1\<lparr>payload_inbox := payload_inbox rctx1 @ msgs\<rparr>" "\<forall>(g, msg) \<in> set msgs. spm_predicate msg = p"
    using "2.IH" [OF 1] "2.prems"(2) by blast
  then show ?case
    by (intro exI [of _ "(g, \<lparr>spm_predicate = p, spm_payload = payload\<rparr>) # msgs"]) (auto simp: g getter_push_def)
qed

definition native_getters :: "PortInfoMap \<Rightarrow> ComponentId \<Rightarrow> PortId set" where
  "native_getters m ncid = {g. \<exists>info. info_of m g = Some info \<and> owner info = ncid \<and> polarity info = Getter}"

lemma native_predicate_ok:
  assumes pred: "native_predicate m ncid nvar (SpecVal (of_nat i)) batch = Some (Some p)"
    and batch: "batch_ok m ncid batch" and own: "ownership_ok m" and nvar: "\<forall>g \<in> native_getters m ncid. nvar \<noteq> SpecVar g"
    and i: "i < length gets" "length gets \<le> 2 ^ 16" "gets ! i = set (to_get batch)"
  shows "branch_ok nvar gets (native_getters m ncid) p \<lparr>nb_index = i, nb_gotten = [], nb_to_get = to_get batch\<rparr>"
proof -
  let ?firing = "to_get batch @ hm_keys (to_put batch)"
  obtain p1 p2 where p1: "assign_firing m ?firing Predicate_default = Some p1"
    and p2: "assign_native_silent m ?firing (ports_owned_by m ncid) p1 = Some (Some p2)"
    and p: "p = inserted p2 nvar (SpecVal (of_nat i))"
    using pred by (auto simp: native_predicate_def bind_eq_Some_conv Let_def)
  note f = assign_firing_spec [OF p1 pred_wf_default]
  note s = assign_native_silent_spec [OF p2 conjunct1 [OF f]]
  have "pmap p (SpecVar g) = Some (if g \<in> set (to_get batch) then FIRING else SILENT)" if g: "g \<in> native_getters m ncid" for g
  proof -
    obtain info where info: "info_of m g = Some info" "owner info = ncid" "polarity info = Getter"
      using g by (auto simp: native_getters_def)
    have var: "spec_var_for m g = Some (SpecVar g)" using info by (simp add: spec_var_for_Getter)
    have notput: "g \<notin> set (hm_keys (to_put batch))"
      using batch info unfolding batch_ok_def by fastforce
    have owned: "g \<in> set (ports_owned_by m ncid)"
      using own info by (auto simp: ownership_ok_def)
    have "pmap p2 (SpecVar g) = Some (if g \<in> set (to_get batch) then FIRING else SILENT)"
    proof (cases "g \<in> set (to_get batch)")
      case True
      with var f have fires: "pmap p1 (SpecVar g) = Some FIRING" by auto
      then have "SpecVar g \<notin> silent_vars m ?firing (ports_owned_by m ncid)" using s by auto
      with s fires True show ?thesis by simp
    next
      case False
      with notput owned var have "SpecVar g \<in> silent_vars m ?firing (ports_owned_by m ncid)"
        by (auto simp: silent_vars_def)
      with s False show ?thesis by simp
    qed
    then show ?thesis using nvar g by (auto simp: p pmap_inserted)
  qed
  with s i show ?thesis
    by (auto simp: branch_ok_def p pmap_inserted nb_keys_def)
qed

lemma native_branches_loop_bound:
  "native_branches_loop m ncid nvar i batches branches rctx = Some r \<Longrightarrow> batches = [] \<or> i + length batches < 2 ^ 16"
proof (induction batches arbitrary: i branches rctx)
  case (Cons batch batches)
  from Cons.prems have i: "i < 2 ^ 16 - 1" by (auto simp: bind_eq_Some_conv)
  have "\<exists>branches2 rctx2. native_branches_loop m ncid nvar (Suc i) batches branches2 rctx2 = Some r"
    using Cons.prems by (simp add: bind_eq_Some_conv Let_def split: option.splits) blast+
  with Cons.IH have "batches = [] \<or> Suc i + length batches < 2 ^ 16" by blast
  with i show ?case by auto
qed simp

lemma native_round_ok_add:
  assumes ok: "native_round_ok ncid nvar gets getters branches rctx"
    and b: "branch_ok nvar gets getters p b" and new: "hm_get branches p = None"
    and sub: "(if is_ended b then rc_submit (SubLocalComponent ncid) p rctx else Some rctx) = Some rctx'"
  shows "native_round_ok ncid nvar gets getters (hm_insert p b branches) rctx'"
    and "rctx' = rctx\<lparr>solution_storage := solution_storage rctx'\<rparr>"
    and "subtree_id_to_index (solution_storage rctx') = subtree_id_to_index (solution_storage rctx)"
proof -
  have st: "rc_storage_ok (solution_storage rctx)" "native_ok nvar gets getters branches"
    "child_solutions (solution_storage rctx) (SubLocalComponent ncid) \<subseteq> Collect (ended_in branches)"
    using ok by (simp_all add: native_round_ok_def)
  have grow: "Collect (ended_in branches) \<subseteq> Collect (ended_in (hm_insert p b branches))"
    using new by (auto simp: ended_in_def hm_get_insert)
  have "native_round_ok ncid nvar gets getters (hm_insert p b branches) rctx' \<and>
    rctx' = rctx\<lparr>solution_storage := solution_storage rctx'\<rparr> \<and>
    subtree_id_to_index (solution_storage rctx') = subtree_id_to_index (solution_storage rctx)"
  proof (cases "is_ended b")
    case False
    with sub st grow native_ok_insert [OF st(2) b] show ?thesis by (auto simp: native_round_ok_def)
  next
    case True
    with sub obtain s where s: "submit_and_digest_subtree_solution (solution_storage rctx) (SubLocalComponent ncid) p = Some s"
      "rctx' = rctx\<lparr>solution_storage := s\<rparr>"
      by (auto simp: rc_submit_def bind_eq_Some_conv)
    have wf: "pred_wf p" using b by (simp add: branch_ok_def)
    have "inj_on (map_of (subtree_id_to_index (solution_storage rctx))) (dom (map_of (subtree_id_to_index (solution_storage rctx))))"
      using st(1) by (simp add: rc_storage_ok_def)
    from submit_child_solutions [OF s(1) this] have "child_solutions s (SubLocalComponent ncid) =
        insert p (child_solutions (solution_storage rctx) (SubLocalComponent ncid))" by simp
    moreover have "ended_in (hm_insert p b branches) p" using True by (simp add: ended_in_def hm_get_insert)
    ultimately show ?thesis
      using s st grow native_ok_insert [OF st(2) b] rc_storage_ok_submit [OF st(1) wf s(1)] submit_effect(1) [OF s(1)]
      by (auto simp: native_round_ok_def)
  qed
  then show "native_round_ok ncid nvar gets getters (hm_insert p b branches) rctx'"
    "rctx' = rctx\<lparr>solution_storage := solution_storage rctx'\<rparr>"
    "subtree_id_to_index (solution_storage rctx') = subtree_id_to_index (solution_storage rctx)"
    by blast+
qed

lemma native_branches_loop_ok:
  assumes "native_branches_loop m ncid nvar i batches branches rctx = Some (branches', rctx')"
    and "\<forall>batch \<in> set batches. batch_ok m ncid batch" "ownership_ok m" "\<forall>g \<in> native_getters m ncid. nvar \<noteq> SpecVar g"
    and "drop i gets = map (\<lambda>b. set (to_get b)) batches" "length gets \<le> 2 ^ 16"
    and "native_round_ok ncid nvar gets (native_getters m ncid) branches rctx" "inbox_wf (payload_inbox rctx)"
  shows "native_round_ok ncid nvar gets (native_getters m ncid) branches' rctx' \<and> inbox_wf (payload_inbox rctx') \<and>
    rips rctx' = rips rctx \<and> subtree_id_to_index (solution_storage rctx') = subtree_id_to_index (solution_storage rctx)"
  using assms
proof (induction m ncid nvar i batches branches rctx rule: native_branches_loop.induct)
  case (1 m ncid nvar i branches rctx)
  then show ?case by simp
next
  case (2 m ncid nvar i batch batches branches rctx)
  from "2.prems"(1) obtain x where i: "oassert (i < 2 ^ 16 - 1) = Some ()"
    and x: "native_predicate m ncid nvar (SpecVal (of_nat i)) batch = Some x"
    by (auto simp: bind_eq_Some_conv)
  have gets: "i < length gets" "gets ! i = set (to_get batch)" "drop (Suc i) gets = map (\<lambda>b. set (to_get b)) batches"
  proof -
    show "i < length gets" using "2.prems"(5) by (metis drop_all linorder_not_le list.distinct(1) list.simps(9))
    then have "drop i gets = gets ! i # drop (Suc i) gets" by (simp add: Cons_nth_drop_Suc)
    then show "gets ! i = set (to_get batch)" "drop (Suc i) gets = map (\<lambda>b. set (to_get b)) batches" using "2.prems"(5) by auto
  qed
  have bs: "\<forall>batch \<in> set batches. batch_ok m ncid batch" "batch_ok m ncid batch" using "2.prems"(2) by simp_all
  show ?case
  proof (cases x)
    case None
    with "2.prems"(1) i x have "native_branches_loop m ncid nvar (Suc i) batches branches rctx = Some (branches', rctx')"
      by (simp add: bind_eq_Some_conv)
    from "2.IH"(1) [OF i x None this bs(1) "2.prems"(3,4) gets(3) "2.prems"(6-8)] show ?thesis .
  next
    case (Some p)
    let ?b = "\<lparr>nb_index = i, nb_gotten = [], nb_to_get = to_get batch\<rparr>"
    from "2.prems"(1) i x Some obtain rctx1 rctx2 where
      puts: "send_puts m p (to_put batch) rctx = Some rctx1"
      and sub: "(if is_ended ?b then rc_submit (SubLocalComponent ncid) p rctx1 else Some rctx1) = Some rctx2"
      and new: "oassert (hm_get branches p = None) = Some ()"
      and rest: "native_branches_loop m ncid nvar (Suc i) batches (hm_insert p ?b branches) rctx2 = Some (branches', rctx')"
      by (auto simp: bind_eq_Some_conv Let_def)
    have b: "branch_ok nvar gets (native_getters m ncid) p ?b"
      by (rule native_predicate_ok [OF x [unfolded Some] bs(2) "2.prems"(3,4) gets(1) "2.prems"(6) gets(2)])
    then have wf: "pred_wf p" by (simp add: branch_ok_def)
    obtain msgs where msgs: "rctx1 = rctx\<lparr>payload_inbox := payload_inbox rctx @ msgs\<rparr>" "\<forall>(g, msg) \<in> set msgs. spm_predicate msg = p"
      using send_puts_spec [OF puts wf] by blast
    have ok1: "native_round_ok ncid nvar gets (native_getters m ncid) branches rctx1"
      using "2.prems"(7) by (simp add: msgs(1) native_round_ok_def)
    have "hm_get branches p = None" using new by simp
    note add = native_round_ok_add [OF ok1 b this sub]
    have "inbox_wf (payload_inbox rctx1)"
      using "2.prems"(8) msgs wf by (auto simp: inbox_wf_def)
    moreover have same: "payload_inbox rctx2 = payload_inbox rctx1" "rips rctx2 = rips rctx1"
      using add(2) by (metis RoundCtx.ext_inject RoundCtx.surjective RoundCtx.update_convs(1))+
    ultimately have in2: "inbox_wf (payload_inbox rctx2)" by simp
    have "native_round_ok ncid nvar gets (native_getters m ncid) branches' rctx' \<and> inbox_wf (payload_inbox rctx') \<and>
      rips rctx' = rips rctx2 \<and> subtree_id_to_index (solution_storage rctx') = subtree_id_to_index (solution_storage rctx2)"
      by (rule "2.IH"(2) [OF i x Some puts refl sub new rest bs(1) "2.prems"(3,4) gets(3) "2.prems"(6) add(1) in2])
    with same add(3) msgs(1) show ?thesis by simp
  qed
qed

section \<open>The invariant of the round\<close>

definition rctx_ok :: "ComponentId \<Rightarrow> SpecVar \<Rightarrow> PortId set list \<Rightarrow> IdAndPortState \<Rightarrow>
    (Predicate, NativeBranch) hash_map \<Rightarrow> RoundCtx \<Rightarrow> bool" where
  "rctx_ok ncid nvar gets ips native rctx \<longleftrightarrow> rips rctx = ips \<and>
     native_round_ok ncid nvar gets (native_getters (port_info ips) ncid) native rctx \<and>
     hm_get (subtree_id_to_index (solution_storage rctx)) (SubLocalComponent ncid) \<noteq> None \<and>
     inbox_wf (payload_inbox rctx)"

definition round_ok :: "ComponentId \<Rightarrow> SpecVar \<Rightarrow> PortId set list \<Rightarrow> IdAndPortState \<Rightarrow> ComponentId list \<Rightarrow>
    ('w, 's, 'z) RoundState_scheme \<Rightarrow> bool" where
  "round_ok ncid nvar gets ips ks s \<longleftrightarrow> rctx_ok ncid nvar gets ips (rd_native s) (rs_rctx s) \<and> em_wf (em s) \<and>
     hm_keys (rd_protos s) = ks \<and> (\<forall>(cid, b) \<in> set (rd_protos s). proto_wf b) \<and> ncid \<notin> set ks"

lemma native_round_ok_storage:
  "solution_storage rctx' = solution_storage rctx \<Longrightarrow>
     native_round_ok ncid nvar gets getters native rctx' \<longleftrightarrow> native_round_ok ncid nvar gets getters native rctx"
  by (simp add: native_round_ok_def)

lemma round_ok_send:
  fixes s s' :: "('w, 's, 'z) RoundState_scheme"
  assumes "send_frame s s'"
  shows "round_ok ncid nvar gets ips ks s' \<longleftrightarrow> round_ok ncid nvar gets ips ks s"
    and "rs_rctx s' = rs_rctx s"
  using assms by (cases s; cases s'; simp add: send_frame_def round_ok_def)+

lemma round_ok_recv:
  fixes s s' :: "('w, 's, 'z) RoundState_scheme"
  assumes "recv_frame s s'" "round_ok ncid nvar gets ips ks s"
  shows "round_ok ncid nvar gets ips ks s'"
proof -
  have "rd_native s' = rd_native s" "rd_protos s' = rd_protos s"
    using assms(1) by (cases s; cases s'; simp add: recv_frame_def)+
  moreover have "solution_storage (rs_rctx s') = solution_storage (rs_rctx s)" "rips (rs_rctx s') = rips (rs_rctx s)"
    using assms(1) by (simp_all add: recv_frame_def rctx_frame_def)
  ultimately show ?thesis
    using assms native_round_ok_storage [of "rs_rctx s'" "rs_rctx s"]
    by (auto simp: round_ok_def rctx_ok_def recv_frame_def)
qed

lemma rctx_ok_native_feed:
  assumes fed: "native_feed_msg ncid getter msg native rctx = Some (native', rctx')"
    and ok: "rctx_ok ncid nvar gets ips native rctx" and wf: "pred_wf (spm_predicate msg)"
    and info: "info_of (port_info ips) getter = Some info" "owner info = ncid" "polarity info = Getter"
  shows "rctx_ok ncid nvar gets ips native' rctx'"
proof -
  have ok': "native_ok nvar gets (native_getters (port_info ips) ncid) native" "rc_storage_ok (solution_storage rctx)"
    using ok by (simp_all add: rctx_ok_def native_round_ok_def)
  have "getter \<in> native_getters (port_info ips) ncid" using info by (auto simp: native_getters_def)
  from native_feed_msg_ok [OF fed ok' wf this]
  have res: "native_ok nvar gets (native_getters (port_info ips) ncid) native'" "rc_storage_ok (solution_storage rctx')"
    "feed_post ncid native {} rctx native' rctx'" by blast+
  have same: "payload_inbox rctx' = payload_inbox rctx" "rips rctx' = rips rctx"
    using res(3) unfolding feed_post_def
    by (metis RoundCtx.ext_inject RoundCtx.surjective RoundCtx.update_convs(1))+
  have "child_solutions (solution_storage rctx') (SubLocalComponent ncid) \<subseteq> Collect (ended_in native')"
    using res(3) ok unfolding feed_post_def rctx_ok_def native_round_ok_def by blast
  then show ?thesis
    using ok res same by (simp add: rctx_ok_def native_round_ok_def feed_post_def)
qed

lemma rctx_ok_drain:
  assumes post: "drain_post cid outp rctx outp' rctx'" and st: "rc_storage_ok (solution_storage rctx')"
    and ok: "rctx_ok ncid nvar gets ips native rctx" and ne: "cid \<noteq> ncid"
  shows "rctx_ok ncid nvar gets ips native rctx'"
proof -
  have "child_solutions (solution_storage rctx') (SubLocalComponent ncid) =
      child_solutions (solution_storage rctx) (SubLocalComponent ncid)"
    using post ne by (simp add: drain_post_def)
  moreover obtain msgs where "payload_inbox rctx' = payload_inbox rctx @ msgs" "\<forall>(g, m) \<in> set msgs. pred_wf (spm_predicate m)"
    using post unfolding drain_post_def by blast
  then have "inbox_wf (payload_inbox rctx')" using ok by (auto simp: rctx_ok_def inbox_wf_def)
  ultimately show ?thesis
    using ok st post by (simp add: rctx_ok_def native_round_ok_def drain_post_def)
qed

lemma round_ok_set_proto:
  fixes s :: "('w, 's, 'z) RoundState_scheme"
  assumes ok: "round_ok ncid nvar gets ips ks s" and old: "hm_get (rd_protos s) cid = Some b" and b': "proto_wf b'"
    and rctx': "rctx_ok ncid nvar gets ips (rd_native s) rctx'"
  shows "round_ok ncid nvar gets ips ks (s\<lparr>rs_rctx := rctx', rd_protos := hm_insert cid b' (rd_protos s)\<rparr>)"
proof -
  have "hm_keys (hm_insert cid b' (rd_protos s)) = hm_keys (rd_protos s)"
    using old hm_get_keys [of "rd_protos s" cid] by (simp add: update_keys)
  moreover have "\<forall>(c, b) \<in> set (hm_insert cid b' (rd_protos s)). proto_wf b"
    using ok b' set_update_subset [of cid b' "rd_protos s"] by (fastforce simp: round_ok_def)
  ultimately show ?thesis using ok rctx' by (simp add: round_ok_def)
qed

text \<open>What is known of a decision when it is made: the leader's is a solution of its tree.\<close>

definition decided_ok :: "nat option \<Rightarrow> Decision option \<Rightarrow> ('w, 'z) RecvState_scheme \<Rightarrow> bool" where
  "decided_ok par d s \<longleftrightarrow> (\<forall>p. d = Some (Success p) \<longrightarrow> par = None \<longrightarrow> p \<in> set (old_local (solution_storage (rs_rctx s))))"

lemma decided_ok_None [simp]: "decided_ok par None s" "decided_ok par (Some Failure) s"
  by (simp_all add: decided_ok_def)

definition step_ok where
  "step_ok ncid nvar gets ips ks par = (\<lambda>d s. round_ok ncid nvar gets ips ks s \<and> decided_ok par d s)"

abbreviation any_error :: "'e \<Rightarrow> 's \<Rightarrow> bool" where "any_error \<equiv> \<lambda>_ _. True"

lemma wp_send_comms:
  fixes s :: "('w, 's, 'z) RoundState_scheme"
  assumes "round_ok ncid nvar gets ips ks s"
  shows "wp (send_to_comms net i msg) (\<lambda>_. round_ok ncid nvar gets ips ks) any_error s"
proof -
  obtain r s' where send: "send_to_comms net i msg s = (r, s')" by fastforce
  from round_ok_send(1) [OF send_to_comms_frame [OF send]] assms show ?thesis
    by (cases r) (auto simp: wp_def send)
qed

lemma wp_give_up:
  fixes s :: "('w, 's, 'z) RoundState_scheme"
  assumes ok: "round_ok ncid nvar gets ips ks s"
  shows "wp (give_up net k par) (step_ok ncid nvar gets ips ks par) any_error s"
proof (cases par)
  case None
  with ok show ?thesis by (simp add: wp_def give_up_def step_ok_def)
next
  case (Some p)
  let ?s = "s\<lparr>already_requested_failure := True\<rparr>"
  have ok': "round_ok ncid nvar gets ips ks ?s" using ok by (simp add: round_ok_def)
  have "wp (act_bind (request_failure net k p) (\<lambda>_. act_ret None)) (step_ok ncid nvar gets ips ks par) any_error ?s"
    unfolding request_failure_def wp_bind
    by (rule wp_mono [OF wp_send_comms [OF ok']]) (simp_all add: step_ok_def)
  with Some ok' show ?thesis
    by (simp add: wp_def give_up_def replace_with_true_def step_ok_def Let_def)
qed

text \<open>Sequencing with a possible early end.\<close>

lemma wp_then:
  fixes s :: "('w, 's, 'z) RoundState_scheme"
  assumes "wp m (step_ok ncid nvar gets ips ks par) any_error s"
    and "\<And>s :: ('w, 's, 'z) RoundState_scheme. round_ok ncid nvar gets ips ks s \<Longrightarrow> wp n (step_ok ncid nvar gets ips ks par) any_error s"
  shows "wp (act_bind m (\<lambda>d. case d of Some x \<Rightarrow> act_ret (Some x) | None \<Rightarrow> n)) (step_ok ncid nvar gets ips ks par) any_error s"
  unfolding wp_bind
proof (rule wp_mono [OF assms(1)])
  fix d and s' :: "('w, 's, 'z) RoundState_scheme"
  assume "step_ok ncid nvar gets ips ks par d s'"
  then show "wp (case d of None \<Rightarrow> n | Some x \<Rightarrow> act_ret (Some x)) (step_ok ncid nvar gets ips ks par) any_error s'"
    using assms(2) by (cases d) (simp_all add: step_ok_def)
qed simp

lemma round_protoD:
  "round_ok ncid nvar gets ips ks s \<Longrightarrow> hm_get (rd_protos s) cid = Some b \<Longrightarrow> proto_wf b \<and> cid \<noteq> ncid"
  by (force simp: round_ok_def dest!: map_of_SomeD)

lemma wp_run_components:
  fixes s :: "('w, 's, 'z) RoundState_scheme"
  assumes run: "run_ok run"
  shows "round_ok ncid nvar gets ips ks s \<Longrightarrow>
    wp (run_components fuel net run k par cids) (step_ok ncid nvar gets ips ks par) any_error s"
proof (induction cids arbitrary: s)
  case Nil
  then show ?case by (simp add: wp_def step_ok_def)
next
  case (Cons cid cids)
  note ok = Cons.prems
  show ?case
  proof (cases "hm_get (rd_protos s) cid")
    case None
    with Cons.IH [OF ok] show ?thesis by (simp add: wp_def)
  next
    case (Some b)
    show ?thesis
    proof (cases "drain_branches_to_blocked fuel run cid b [] (rs_rctx s)")
      case (Ok br)
      obtain b' rctx' where br: "br = (b', rctx')" by (cases br)
      let ?s = "s\<lparr>rs_rctx := rctx', rd_protos := hm_insert cid b' (rd_protos s)\<rparr>"
      have rok: "rctx_ok ncid nvar gets ips (rd_native s) (rs_rctx s)" "rc_storage_ok (solution_storage (rs_rctx s))"
        using ok by (simp_all add: round_ok_def rctx_ok_def native_round_ok_def)
      have empty: "proto_wf ([] :: 's branches)" by (simp add: proto_wf_def)
      have b: "proto_wf b" "cid \<noteq> ncid" using round_protoD [OF ok Some] by blast+
      from drain_keeps [OF Ok [unfolded br] run b(1) empty rok(2)]
      have post: "proto_wf b'" "rc_storage_ok (solution_storage rctx')" "drain_post cid [] (rs_rctx s) b' rctx'" by blast+
      have ok': "round_ok ncid nvar gets ips ks ?s"
        by (rule round_ok_set_proto [OF ok Some post(1) rctx_ok_drain [OF post(3,2) rok(1) b(2)]])
      have "wp (act_bind (give_up net k par) (\<lambda>d. case d of Some x \<Rightarrow> act_ret (Some x)
            | None \<Rightarrow> run_components fuel net run k par cids)) (step_ok ncid nvar gets ips ks par) any_error ?s"
        by (rule wp_then [OF wp_give_up [OF ok'] Cons.IH])
      with Cons.IH [OF ok'] Some Ok br show ?thesis by (cases "b' = []") (simp_all add: wp_def Let_def)
    qed (use Some in \<open>simp_all add: wp_def\<close>)
  qed
qed

lemma wp_route_payload:
  fixes s :: "('w, 's, 'z) RoundState_scheme"
  assumes run: "run_ok run" and ok: "round_ok ncid nvar gets ips ks s" and wf: "pred_wf (spm_predicate msg)"
  shows "wp (route_payload fuel net run k par ncid getter msg) (step_ok ncid nvar gets ips ks par) any_error s"
proof (cases "hm_get (port_map (rc_ports (rs_rctx s))) getter")
  case None
  then show ?thesis by (simp add: wp_def route_payload_def)
next
  case (Some info)
  have rok: "rctx_ok ncid nvar gets ips (rd_native s) (rs_rctx s)" "rc_storage_ok (solution_storage (rs_rctx s))"
    "rips (rs_rctx s) = ips"
    using ok by (simp_all add: round_ok_def rctx_ok_def native_round_ok_def)
  have info: "info_of (port_info ips) getter = Some info" using Some rok(3) by simp
  show ?thesis
  proof (cases "polarity info = Getter")
    case False
    with Some show ?thesis by (simp add: wp_def route_payload_def)
  next
    case getter: True
    show ?thesis
    proof (cases "route info")
      case (UdpEndpoint index)
      have "round_ok ncid nvar gets ips ks (s\<lparr>em := set_udp_ext index ee (em s)\<rparr>)" for ee
        using ok by (simp add: round_ok_def em_wf_def)
      with Some getter UdpEndpoint show ?thesis by (simp add: wp_def route_payload_def step_ok_def Let_def)
    next
      case (NetEndpoint index)
      have "wp (act_bind (send_to_comms net index (CommMsg \<lparr>cm_round_index = k, contents = SendPayload msg\<rparr>)) (\<lambda>_. act_ret None))
          (step_ok ncid nvar gets ips ks par) any_error s"
        unfolding wp_bind by (rule wp_mono [OF wp_send_comms [OF ok]]) (simp_all add: step_ok_def)
      with Some getter NetEndpoint show ?thesis by (simp add: wp_def route_payload_def)
    next
      case LocalComponent
      show ?thesis
      proof (cases "owner info = ncid")
        case True
        show ?thesis
        proof (cases "native_feed_msg ncid getter msg (rd_native s) (rs_rctx s)")
          case None
          with Some getter LocalComponent True show ?thesis by (simp add: wp_def route_payload_def)
        next
          case fed: (Some nr)
          obtain n' r' where nr: "nr = (n', r')" by (cases nr)
          have "rctx_ok ncid nvar gets ips n' r'"
            by (rule rctx_ok_native_feed [OF fed [unfolded nr] rok(1) wf info True getter])
          then have "round_ok ncid nvar gets ips ks (s\<lparr>rs_rctx := r', rd_native := n'\<rparr>)"
            using ok by (simp add: round_ok_def)
          with Some getter LocalComponent True fed nr show ?thesis by (simp add: wp_def route_payload_def step_ok_def)
        qed
      next
        case False
        show ?thesis
        proof (cases "hm_get (rd_protos s) (owner info)")
          case None
          with Some getter LocalComponent False ok show ?thesis by (simp add: wp_def route_payload_def step_ok_def)
        next
          case old: (Some b)
          show ?thesis
          proof (cases "proto_feed_msg fuel run (owner info) getter msg b (rs_rctx s)")
            case (Ok br)
            obtain b' rctx' where br: "br = (b', rctx')" by (cases br)
            let ?s = "s\<lparr>rs_rctx := rctx', rd_protos := hm_insert (owner info) b' (rd_protos s)\<rparr>"
            have b: "proto_wf b" using round_protoD [OF ok old] by blast
            from proto_feed_msg_keeps [OF Ok [unfolded br] run wf b rok(2)] obtain blocked where
              post: "proto_wf b'" "rc_storage_ok (solution_storage rctx')" "drain_post (owner info) blocked (rs_rctx s) b' rctx'"
              by blast
            have ok': "round_ok ncid nvar gets ips ks ?s"
              by (rule round_ok_set_proto [OF ok old post(1) rctx_ok_drain [OF post(3,2) rok(1) False]])
            from wp_give_up [OF ok', of net k par] ok' Some getter LocalComponent False old Ok br show ?thesis
              by (cases "b' = []") (simp_all add: wp_def route_payload_def step_ok_def Let_def)
          qed (use Some getter LocalComponent False old in \<open>simp_all add: wp_def route_payload_def\<close>)
        qed
      qed
    qed
  qed
qed

lemma wp_route_payloads:
  fixes s :: "('w, 's, 'z) RoundState_scheme"
  assumes run: "run_ok run"
  shows "round_ok ncid nvar gets ips ks s \<Longrightarrow>
    wp (route_payloads fuel net run k par ncid) (step_ok ncid nvar gets ips ks par) any_error s"
proof (induction fuel arbitrary: s)
  case 0
  then show ?case by (simp add: wp_def)
next
  case (Suc fuel)
  show ?case
  proof (cases "getter_pop (rs_rctx s)")
    case None
    with Suc.prems show ?thesis by (simp add: wp_def step_ok_def)
  next
    case (Some x)
    obtain getter msg rctx where x: "x = ((getter, msg), rctx)" by (metis prod.exhaust)
    have inbox: "payload_inbox (rs_rctx s) = payload_inbox rctx @ [(getter, msg)]" "rctx = (rs_rctx s)\<lparr>payload_inbox := payload_inbox rctx\<rparr>"
      using Some x by (auto simp: getter_pop_def vec_pop_def split: if_splits) (metis append_butlast_last_id)
    have wf: "pred_wf (spm_predicate msg)" "inbox_wf (payload_inbox rctx)"
      using Suc.prems inbox(1) by (auto simp: round_ok_def rctx_ok_def inbox_wf_def)
    let ?s = "s\<lparr>rs_rctx := rctx\<rparr>"
    have "solution_storage rctx = solution_storage (rs_rctx s)" "rips rctx = rips (rs_rctx s)"
      using inbox(2) by (metis RoundCtx.select_convs(1) RoundCtx.surjective RoundCtx.update_convs(3),
        metis RoundCtx.select_convs(5) RoundCtx.surjective RoundCtx.update_convs(3))
    then have ok: "round_ok ncid nvar gets ips ks ?s"
      using Suc.prems wf(2) native_round_ok_storage [of rctx "rs_rctx s"] by (simp add: round_ok_def rctx_ok_def)
    from wp_then [OF wp_route_payload [OF run ok wf(1)] Suc.IH] Some x show ?thesis by (simp add: wp_def)
  qed
qed

lemma wp_forward_solutions:
  fixes s :: "('w, 's, 'z) RoundState_scheme"
  shows "round_ok ncid nvar gets ips ks s \<Longrightarrow> set sols \<subseteq> set (old_local (solution_storage (rs_rctx s))) \<Longrightarrow>
    wp (forward_solutions net k par sols) (step_ok ncid nvar gets ips ks par) any_error s"
proof (induction sols arbitrary: s)
  case Nil
  then show ?case by (simp add: wp_def step_ok_def)
next
  case (Cons sol sols)
  show ?case
  proof (cases par)
    case None
    with Cons.prems show ?thesis by (simp add: wp_def step_ok_def decided_ok_def)
  next
    case (Some p)
    let ?msg = "ctrl_msg k (Suggest (Success sol))"
    obtain r s' where send: "send_to_comms net p ?msg s = (r, s')" by fastforce
    note frame = round_ok_send [OF send_to_comms_frame [OF send]]
    have "wp (forward_solutions net k par sols) (step_ok ncid nvar gets ips ks par) any_error s'"
      using Cons.prems frame by (intro Cons.IH) auto
    with Some send show ?thesis by (cases r) (simp_all add: wp_def act_bind_def)
  qed
qed

lemma wp_report_solutions:
  fixes s :: "('w, 's, 'z) RoundState_scheme"
  assumes ok: "round_ok ncid nvar gets ips ks s"
  shows "wp (report_solutions net k par) (step_ok ncid nvar gets ips ks par) any_error s"
proof -
  let ?st = "solution_storage (rs_rctx s)"
  have st: "rc_storage_ok ?st" using ok by (simp add: round_ok_def rctx_ok_def native_round_ok_def)
  then have "storage_inv ?st" by (simp add: rc_storage_ok_def)
  from iter_new_local_spec [OF this] obtain st' where
    iter: "iter_new_local_make_old ?st = Some (new_local ?st, st')"
    and st': "set (old_local st') = set (old_local ?st) \<union> set (new_local ?st)" "subtree_id_to_index st' = subtree_id_to_index ?st"
    by blast
  note keep = rc_storage_ok_iter [OF st iter]
  let ?s = "s\<lparr>rs_rctx := (rs_rctx s)\<lparr>solution_storage := st'\<rparr>\<rparr>"
  have "round_ok ncid nvar gets ips ks ?s"
    using ok keep st'(2) by (simp add: round_ok_def rctx_ok_def native_round_ok_def)
  from wp_forward_solutions [OF this, of "new_local ?st" net k par] st'(1) iter show ?thesis
    by (simp add: wp_def report_solutions_def)
qed

lemma wp_handle_ctrl:
  fixes s :: "('w, 's, 'z) RoundState_scheme"
  assumes ok: "round_ok ncid nvar gets ips ks s" and wf: "ctrl_wf ctrl"
  shows "wp (handle_ctrl net k nbh i ctrl) (step_ok ncid nvar gets ips ks (parent nbh)) any_error s"
proof (cases ctrl)
  case (Announce d)
  with ok show ?thesis
    by (auto simp: wp_def handle_ctrl_def step_ok_def decided_ok_def)
next
  case (Suggest d)
  show ?thesis
  proof (cases "VecSet_contains (children nbh) i")
    case False
    with Suggest ok show ?thesis by (simp add: wp_def handle_ctrl_def step_ok_def)
  next
    case True
    show ?thesis
    proof (cases d)
      case Failure
      with Suggest True wp_give_up [OF ok, of net k "parent nbh"] show ?thesis by (simp add: wp_def handle_ctrl_def)
    next
      case (Success p)
      show ?thesis
      proof (cases "rc_submit (SubNetEndpoint i) p (rs_rctx s)")
        case None
        with Suggest True Success show ?thesis by (simp add: wp_def handle_ctrl_def)
      next
        case (Some rctx)
        then obtain st where st: "submit_and_digest_subtree_solution (solution_storage (rs_rctx s)) (SubNetEndpoint i) p = Some st"
          "rctx = (rs_rctx s)\<lparr>solution_storage := st\<rparr>"
          by (auto simp: rc_submit_def bind_eq_Some_conv)
        have p: "pred_wf p" using wf Suggest Success by (simp add: ctrl_wf_def decision_wf_def)
        have old: "rc_storage_ok (solution_storage (rs_rctx s))"
          using ok by (simp add: round_ok_def rctx_ok_def native_round_ok_def)
        then have inj: "inj_on (map_of (subtree_id_to_index (solution_storage (rs_rctx s))))
            (dom (map_of (subtree_id_to_index (solution_storage (rs_rctx s)))))"
          by (simp add: rc_storage_ok_def)
        have "round_ok ncid nvar gets ips ks (s\<lparr>rs_rctx := rctx\<rparr>)"
          using ok rc_storage_ok_submit [OF old p st(1)] submit_child_solutions [OF st(1) inj] submit_effect(1) [OF st(1)]
          by (simp add: st(2) round_ok_def rctx_ok_def native_round_ok_def)
        with Suggest True Success Some show ?thesis by (simp add: wp_def handle_ctrl_def step_ok_def)
      qed
    qed
  qed
qed

lemma wp_receive_step:
  fixes s :: "('w, 's, 'z) RoundState_scheme"
  assumes ok: "round_ok ncid nvar gets ips ks s" and net: "net_wf net"
  shows "wp (receive_step fuel net k nbh) (step_ok ncid nvar gets ips ks (parent nbh)) any_error s"
proof -
  obtain r s' where recv: "try_recv_any_comms fuel net k s = (r, s')" by fastforce
  have "em_wf (em s)" using ok by (simp add: round_ok_def)
  from try_recv_any_comms_frame [OF recv net this]
  have ctrl: "r = Ok (NewControlMsg i c) \<Longrightarrow> ctrl_wf c" and ok': "round_ok ncid nvar gets ips ks s'" for i c
    using round_ok_recv [OF _ ok] by auto
  show ?thesis
  proof (cases r)
    case (Ok x)
    show ?thesis
    proof (cases x)
      case TimeoutWithoutNew
      let ?stop = "\<lambda>d. case d of Some decision \<Rightarrow> act_ret (Some decision)
         | None \<Rightarrow> act_bind (act_modify (\<lambda>s. s\<lparr>rs_rctx := (rs_rctx s)\<lparr>deadline := None\<rparr>\<rparr>)) (\<lambda>_. act_ret None)"
      have "wp (act_bind (give_up net k (parent nbh)) ?stop) (step_ok ncid nvar gets ips ks (parent nbh)) any_error s'"
        by (rule wp_then [OF wp_give_up [OF ok']]) (simp add: step_ok_def round_ok_def rctx_ok_def native_round_ok_def)
      with recv Ok TimeoutWithoutNew show ?thesis by (simp add: wp_def receive_step_def act_bind_def [of "try_recv_any_comms fuel net k"])
    next
      case NewPayloadMsgs
      with recv Ok ok' show ?thesis by (simp add: wp_def receive_step_def act_bind_def act_ret_def step_ok_def)
    next
      case (NewControlMsg i c)
      with wp_handle_ctrl [OF ok' ctrl, of i c net k nbh i] recv Ok show ?thesis
        by (simp add: wp_def receive_step_def act_bind_def)
    qed
  qed (use recv in \<open>simp_all add: wp_def receive_step_def act_bind_def\<close>)
qed

lemma wp_undecided_loop:
  fixes s :: "('w, 's, 'z) RoundState_scheme"
  assumes run: "run_ok run" and net: "net_wf net"
  shows "round_ok ncid nvar gets ips ks s \<Longrightarrow>
    wp (undecided_loop fuel net run k nbh ncid) (\<lambda>d. step_ok ncid nvar gets ips ks (parent nbh) (Some d)) any_error s"
proof (induction fuel arbitrary: s)
  case 0
  then show ?case by (simp add: wp_def)
next
  case (Suc fuel)
  have "wp (undecided_step fuel net run k nbh ncid) (step_ok ncid nvar gets ips ks (parent nbh)) any_error s"
    unfolding undecided_step_def act_or_else_def
    by (intro wp_then wp_route_payloads [OF run] wp_report_solutions wp_receive_step [OF _ net] Suc.prems)
  then have "wp (act_bind (undecided_step fuel net run k nbh ncid) (\<lambda>d. case d of
       Some decision \<Rightarrow> act_ret decision
     | None \<Rightarrow> undecided_loop fuel net run k nbh ncid)) (\<lambda>d. step_ok ncid nvar gets ips ks (parent nbh) (Some d)) any_error s"
    unfolding wp_bind
  proof (rule wp_mono)
    fix d and s' :: "('w, 's, 'z) RoundState_scheme"
    assume "step_ok ncid nvar gets ips ks (parent nbh) d s'"
    then show "wp (case d of None \<Rightarrow> undecided_loop fuel net run k nbh ncid | Some x \<Rightarrow> act_ret x)
        (\<lambda>d. step_ok ncid nvar gets ips ks (parent nbh) (Some d)) any_error s'"
      using Suc.IH by (cases d) (simp_all add: step_ok_def)
  qed simp
  then show ?case by (simp add: wp_def)
qed

lemma wp_sync_reach_decision:
  fixes s :: "('w, 's, 'z) RoundState_scheme"
  assumes run: "run_ok run" and net: "net_wf net" and ok: "round_ok ncid nvar gets ips ks s"
  shows "wp (sync_reach_decision fuel net run k nbh ncid)
    (\<lambda>d. step_ok ncid nvar gets ips ks (parent nbh) (Some d)) any_error s"
proof -
  let ?step = "step_ok ncid nvar gets ips ks (parent nbh)"
  let ?start = "act_or_else (\<lambda>s. if rd_native s = [] then give_up net k (parent nbh) s else (Ok None, s))
      (\<lambda>s. run_components fuel net run k (parent nbh) (hm_keys (rd_protos s)) s)"
  let ?s = "s\<lparr>already_requested_failure := False\<rparr>"
  have ok': "round_ok ncid nvar gets ips ks ?s" using ok by (simp add: round_ok_def)
  have "wp (\<lambda>s. if rd_native s = [] then give_up net k (parent nbh) s else (Ok None, s)) ?step any_error ?s"
    using wp_give_up [OF ok', of net k "parent nbh"] ok' by (simp add: wp_def step_ok_def)
  moreover have "wp (\<lambda>s. run_components fuel net run k (parent nbh) (hm_keys (rd_protos s)) s) ?step any_error s'"
    if "round_ok ncid nvar gets ips ks s'" for s' :: "('w, 's, 'z) RoundState_scheme"
    using wp_run_components [OF run that] by (simp add: wp_def)
  ultimately have start: "wp ?start ?step any_error ?s"
    unfolding act_or_else_def by (rule wp_then)
  have "wp (act_bind ?start (\<lambda>d. case d of
          Some decision \<Rightarrow> act_ret decision
        | None \<Rightarrow> act_bind (act_modify (\<lambda>s. s\<lparr>em := undelay_all (em s)\<rparr>)) (\<lambda>_.
            undecided_loop fuel net run k nbh ncid))) (\<lambda>d. ?step (Some d)) any_error ?s"
    unfolding wp_bind
  proof (rule wp_mono [OF start])
    fix d and s' :: "('w, 's, 'z) RoundState_scheme"
    assume d: "?step d s'"
    have "round_ok ncid nvar gets ips ks (s'\<lparr>em := undelay_all (em s')\<rparr>)"
      using d by (auto simp: step_ok_def round_ok_def em_wf_def undelay_all_def)
    from wp_undecided_loop [OF run net this] d
    show "wp (case d of None \<Rightarrow> act_bind (act_modify (\<lambda>s. s\<lparr>em := undelay_all (em s)\<rparr>)) (\<lambda>_.
            undecided_loop fuel net run k nbh ncid) | Some decision \<Rightarrow> act_ret decision) (\<lambda>d. ?step (Some d)) any_error s'"
      by (cases d) simp_all
  qed simp
  then show ?thesis by (simp add: wp_def sync_reach_decision_def)
qed

lemma round_ok_net:
  fixes s s' :: "('w, 's, 'z) RoundState_scheme"
  assumes "net_frame s s'"
  shows "round_ok ncid nvar gets ips ks s \<Longrightarrow> round_ok ncid nvar gets ips ks s'" "rs_rctx s' = rs_rctx s"
proof -
  show "rs_rctx s' = rs_rctx s" using assms by (cases s; cases s'; simp add: net_frame_def)
qed (rule round_ok_recv [OF net_frame_recv [OF assms]])

lemma wp_decide_round:
  fixes s :: "('w, 's, 'z) RoundState_scheme"
  assumes run: "run_ok run" and net: "net_wf net" and ok: "round_ok ncid nvar gets ips ks s"
  shows "wp (decide_round fuel net run k nbh ncid) (\<lambda>d. step_ok ncid nvar gets ips ks (parent nbh) (Some d)) any_error s"
proof -
  let ?step = "step_ok ncid nvar gets ips ks (parent nbh)"
  have udp: "wp (udp_endpoints_round_end net d) (\<lambda>_. ?step (Some d)) any_error t" if "?step (Some d) t"
    for d and t :: "('w, 's, 'z) RoundState_scheme"
  proof -
    obtain r t' where t': "udp_endpoints_round_end net d t = (r, t')" by fastforce
    from round_ok_net [OF udp_round_end_frame [OF t']] that have "?step (Some d) t'"
      by (simp add: step_ok_def decided_ok_def)
    with t' show ?thesis by (cases r) (simp_all add: wp_def)
  qed
  have ann: "wp (announce net k nbh d) (\<lambda>_. ?step (Some d)) any_error t" if "?step (Some d) t"
    for d and t :: "('w, 's, 'z) RoundState_scheme"
  proof -
    obtain r t' where t': "announce net k nbh d t = (r, t')" by fastforce
    have "send_frame t t'"
      using t' unfolding announce_def by (rule act_for_send_frame [rotated]) (rule send_to_comms_frame)
    from round_ok_send [OF this] that have "?step (Some d) t'"
      by (simp add: step_ok_def decided_ok_def)
    with t' show ?thesis by (cases r) (simp_all add: wp_def)
  qed
  show ?thesis
    unfolding decide_round_def wp_bind wp_ret
    by (rule wp_mono [OF wp_sync_reach_decision [OF run net ok]], rule wp_mono [OF udp], assumption, rule wp_mono [OF ann])
      simp_all
qed

section \<open>The start of the round\<close>

lemma child_solutions_new: "child_solutions (SolutionStorage_new ids) sid = {}"
proof -
  obtain idx sols where new: "SolutionStorage_new_loop ids [] [] = (idx, sols)"
    by (cases "SolutionStorage_new_loop ids [] []")
  from new_loop_spec [OF new] have "sols = replicate (length ids) []" by simp
  then show ?thesis
    by (auto simp: child_solutions_def SolutionStorage_new_def new split: option.splits)
qed

text \<open>The native's own variable is none of the variables of its input ports.\<close>

lemma native_spec_var_fresh:
  assumes "ids_ok ips" "SpecVarStream_next (new_spec_var_stream (id_manager ips)) = Some (nvar, st)"
  shows "\<forall>g \<in> native_getters (port_info ips) ncid. nvar \<noteq> SpecVar g"
proof
  fix g
  assume "g \<in> native_getters (port_info ips) ncid"
  then have g: "g \<in> dom (info_of (port_info ips))" by (auto simp: native_getters_def)
  let ?next = "snext (port_suffix_stream (id_manager ips))"
  have n: "saturating_add ?next SKIP_N \<noteq> u32_MAX"
    and nvar: "nvar = SpecVar (PortId (MkId (idm_connector_id (id_manager ips)) (saturating_add ?next SKIP_N)))"
    using assms(2) by (auto simp: SpecVarStream_next_def new_spec_var_stream_def n_skipped_def U32Stream_next_Some bind_eq_Some_conv)
  then have "unat ?next + unat SKIP_N < 2 ^ 32" and add: "saturating_add ?next SKIP_N = ?next + SKIP_N"
    by (simp_all add: saturating_add_def split: if_splits)
  then have "unat (?next + SKIP_N) = unat ?next + unat SKIP_N" by (simp add: unat_plus_if_size word_size)
  then have le: "?next \<le> ?next + SKIP_N" by (simp add: word_le_nat_alt)
  show "nvar \<noteq> SpecVar g"
  proof
    assume "nvar = SpecVar g"
    then have eq: "g = PortId (MkId (idm_connector_id (id_manager ips)) (?next + SKIP_N))" by (simp add: nvar add)
    with assms(1) g have "port_allocated (id_manager ips) g" by (simp add: ids_ok_def)
    with eq le show False by (simp add: port_allocated_def)
  qed
qed

lemma native_getters_frame: "native_frame ncid ips ips' \<Longrightarrow> native_getters (port_info ips') ncid = native_getters (port_info ips) ncid"
  by (auto simp: native_frame_def native_getters_def)

abbreviation batch_gets :: "ConnectorCommunication \<Rightarrow> PortId set list" where
  "batch_gets comm \<equiv> map (\<lambda>b. set (to_get b)) (native_batches comm)"

lemma round_start_ok:
  assumes start: "round_start cu comm ips bpcs dl w = Some s0"
    and base: "ips_base (cu_ips cu)" and batches: "\<forall>b \<in> set (native_batches comm). batch_ok (port_info (cu_ips cu)) (native_component_id cu) b"
    and ids: "ids_distinct (id_manager ips) (native_component_id cu) (hm_keys bpcs)"
    and frame: "native_frame (native_component_id cu) (cu_ips cu) ips" and wf: "\<forall>(cid, b) \<in> set bpcs. proto_wf b"
    and em: "em_wf (endpoint_manager comm)"
  shows "\<exists>nvar. round_ok (native_component_id cu) nvar (batch_gets comm) ips (hm_keys bpcs) s0"
proof -
  let ?ncid = "native_component_id cu" and ?m = "port_info (cu_ips cu)"
  let ?ids = "round_subtrees ?ncid bpcs (neighborhood comm)"
  obtain nvar st rctx' native where next_var: "SpecVarStream_next (new_spec_var_stream (id_manager (cu_ips cu))) = Some (nvar, st)"
    and loop: "native_branches_loop ?m ?ncid nvar 0 (native_batches comm) []
       \<lparr>solution_storage = SolutionStorage_new ?ids, spec_var_stream = st, payload_inbox = [], deadline = dl, rips = ips\<rparr> =
       Some (native, rctx')"
    and s0: "s0 = \<lparr>world = w, em = endpoint_manager comm, rs_rctx = rctx', rd_native = native, rd_protos = bpcs,
           already_requested_failure = False\<rparr>"
    using start by (auto simp: round_start_def bind_eq_Some_conv Let_def)
  have own: "ownership_ok ?m" "ids_ok (cu_ips cu)" using base by (simp_all add: ips_base_def)
  have ids_ne: "?ids \<noteq> []" by (simp add: round_subtrees_def)
  have len: "length (batch_gets comm) \<le> 2 ^ 16"
    using native_branches_loop_bound [OF loop] by auto
  have "native_round_ok ?ncid nvar (batch_gets comm) (native_getters ?m ?ncid) []
      \<lparr>solution_storage = SolutionStorage_new ?ids, spec_var_stream = st, payload_inbox = [], deadline = dl, rips = ips\<rparr>"
    using rc_storage_ok_new [OF ids_ne] by (simp add: native_round_ok_def native_ok_def child_solutions_new)
  moreover have "drop 0 (batch_gets comm) = map (\<lambda>b. set (to_get b)) (native_batches comm)" by simp
  ultimately have res: "native_round_ok ?ncid nvar (batch_gets comm) (native_getters ?m ?ncid) native rctx'"
    "inbox_wf (payload_inbox rctx')" "rips rctx' = ips"
    "subtree_id_to_index (solution_storage rctx') = subtree_id_to_index (SolutionStorage_new ?ids)"
    using native_branches_loop_ok [OF loop batches own(1) native_spec_var_fresh [OF own(2) next_var] _ len]
    by (simp_all add: inbox_wf_def)
  have "SubLocalComponent ?ncid \<in> set ?ids" by (simp add: round_subtrees_def)
  then have "hm_get (subtree_id_to_index (solution_storage rctx')) (SubLocalComponent ?ncid) \<noteq> None"
    using known_id_new res(4) by metis
  moreover have "?ncid \<notin> set (hm_keys bpcs)" using ids by (auto simp: ids_distinct_def)
  ultimately have "round_ok ?ncid nvar (batch_gets comm) ips (hm_keys bpcs) s0"
    using res wf em native_getters_frame [OF frame] by (simp add: round_ok_def rctx_ok_def s0)
  then show ?thesis by blast
qed

section \<open>What a round commits\<close>

lemma collapse_components_keys:
  "collapse_components bpcs p = Some states \<Longrightarrow> map fst states = map fst bpcs"
  by (induction bpcs p arbitrary: states rule: collapse_components.induct) (auto simp: bind_eq_Some_conv)

lemma hm_keys_extend: "set (hm_keys (fold (\<lambda>(k, v). hm_insert k v) kvs m)) = set (hm_keys kvs) \<union> set (hm_keys m)"
proof (induction kvs arbitrary: m)
  case (Cons kv kvs)
  obtain k v where kv: "kv = (k, v)" by (cases kv)
  from Cons [of "hm_insert k v m"] show ?case
    unfolding kv by (simp add: hm_keys_insert [of k v m, simplified])
qed simp

text \<open>The connector's state in the communication phase, as the round starts from it.\<close>

lemma conn_inv_comm:
  assumes "conn_inv c" "phased c = PhCommunication comm"
  shows "ips_base (cu_ips (unphased c))"
    "ids_distinct (id_manager (cu_ips (unphased c))) (native_component_id (unphased c)) (hm_keys (proto_components (unphased c)))"
    "\<forall>b \<in> set (native_batches comm). batch_ok (port_info (cu_ips (unphased c))) (native_component_id (unphased c)) b"
    "native_batches comm \<noteq> []"
    "(\<forall>u. round_result comm \<noteq> Inl (Unrecoverable u)) \<Longrightarrow> em_wf (endpoint_manager comm)"
  using assms by (simp_all add: conn_inv_def phase_ok_def comps_ok_def ids_distinct_def)

text \<open>
  A finished round: the state \<open>s\<close> in which the decision was made satisfies the round
  invariant, with the port tables that the components left behind.
\<close>

lemma round_decided:
  assumes inv: "conn_inv c" "phased c = PhCommunication comm" "\<forall>u. round_result comm \<noteq> Inl (Unrecoverable u)"
    and ok: "interp_ok interp" "net_wf net"
    and phase: "nonsync_phase fuel interp (proto_components (unphased c)) (cu_ips (unphased c)) [] = Ok (ips, bpcs)"
    and start: "round_start (unphased c) comm ips bpcs dl w = Some s0"
    and decide: "decide_round fuel net (sync_run interp) k nbh (native_component_id (unphased c)) s0 = (Ok d, s)"
  shows "ips_base ips \<and> ids_distinct (id_manager ips) (native_component_id (unphased c)) (hm_keys bpcs) \<and>
    (\<exists>nvar. step_ok (native_component_id (unphased c)) nvar (batch_gets comm) ips (hm_keys bpcs) (parent nbh) (Some d) s)"
proof -
  note c = conn_inv_comm [OF inv(1,2)]
  have "ids_distinct (id_manager (cu_ips (unphased c))) (native_component_id (unphased c))
      (map fst (proto_components (unphased c)) @ hm_keys ([] :: (ComponentId \<times> 'a branches) list))"
    using c(2) by simp
  from nonsync_phase_keeps [OF phase ok(1) c(1) this]
  have keep: "ips_base ips" "ids_distinct (id_manager ips) (native_component_id (unphased c)) (hm_keys bpcs)"
    "native_frame (native_component_id (unphased c)) (cu_ips (unphased c)) ips" "\<forall>(cid, b) \<in> set bpcs. proto_wf b"
    by simp_all
  obtain nvar where s0: "round_ok (native_component_id (unphased c)) nvar (batch_gets comm) ips (hm_keys bpcs) s0"
    using round_start_ok [OF start c(1,3) keep(2-4) c(5) [OF inv(3)]] by blast
  have run: "run_ok (sync_run interp)" using ok(1) by (simp add: interp_ok_def)
  from wp_resultD(1) [OF wp_decide_round [OF run ok(2) s0] decide] keep show ?thesis by blast
qed

text \<open>The cases of \<open>connected_sync\<close>, as far as the connector's user can tell them apart.\<close>

lemma connected_sync_cases:
  assumes "connected_sync fuel net interp timeout (cu, comm, w) = (r, cu', comm', w')" "r \<noteq> Panic" "r \<noteq> OutOfFuel"
  obtains (inconsistent) e where "r = Err e" "\<And>u. e \<noteq> Unrecoverable u" "cu' = cu" "comm' = comm"
    | (unrecoverable) u m where "r = Err (Unrecoverable u)" "cu' = cu"
        "comm' = comm\<lparr>native_batches := [NativeBatch_default], endpoint_manager := m\<rparr>"
    | (failure) ips bpcs dl w1 s0 s where "r = Err RoundFailure" "cu' = cu"
        "comm' = comm\<lparr>native_batches := [NativeBatch_default], endpoint_manager := em s\<rparr>"
        "nonsync_phase fuel interp (proto_components cu) (cu_ips cu) [] = Ok (ips, bpcs)"
        "round_start cu comm ips bpcs dl w1 = Some s0"
        "decide_round fuel net (sync_run interp) (round_index comm) (neighborhood comm) (native_component_id cu) s0 = (Ok Failure, s)"
    | (success) ips bpcs dl w1 s0 s predicate states ended where "r = Ok (Some ended)"
        "cu' = cu\<lparr>proto_components := fold (\<lambda>(cid, st). hm_insert cid st) states [], cu_ips := rips (rs_rctx s)\<rparr>"
        "comm' = comm\<lparr>native_batches := [NativeBatch_default], endpoint_manager := em s\<rparr>"
        "nonsync_phase fuel interp (proto_components cu) (cu_ips cu) [] = Ok (ips, bpcs)"
        "round_start cu comm ips bpcs dl w1 = Some s0"
        "decide_round fuel net (sync_run interp) (round_index comm) (neighborhood comm) (native_component_id cu) s0 =
           (Ok (Success predicate), s)"
        "collapse_components (rd_protos s) predicate = Some states" "native_collapse_with (rd_native s) predicate = Some ended"
proof -
  have no_use: "nonsync_phase fuel interp unrun ips bpcs \<noteq> Err (Unrecoverable u)" for unrun ips bpcs u
    by (induction fuel interp unrun ips bpcs rule: nonsync_phase.induct)
      (auto simp: Let_def split: option.splits NonsyncBlocker.splits prod.splits)
  show ?thesis
  proof (cases "nonsync_phase fuel interp (proto_components cu) (cu_ips cu) []")
    case (Err e)
    have "e \<noteq> Unrecoverable u" for u using no_use Err by metis
    moreover have "r = Err e" "cu' = cu" "comm' = comm" using assms(1) Err by (auto simp: connected_sync_def)
    ultimately show ?thesis using inconsistent by blast
  next
    case (Ok x)
    obtain ips bpcs where x: "x = (ips, bpcs)" by (cases x)
    define dw where "dw = (case timeout of None \<Rightarrow> (None, w) | Some to \<Rightarrow> let (t, w1) = clock_now net w in (Some (t + to), w1))"
    obtain dl w1 where dw: "dw = (dl, w1)" by (cases dw)
    note eq = assms(1) [unfolded connected_sync_def prod.case Ok x res.case, folded dw_def, unfolded dw Let_def prod.case]
    obtain s0 where start: "round_start cu comm ips bpcs dl w1 = Some s0"
      using eq assms(2) by (auto split: option.splits)
    obtain r1 s where decide: "decide_round fuel net (sync_run interp) (round_index comm) (neighborhood comm) (native_component_id cu) s0 = (r1, s)"
      by fastforce
    note eq' = eq [unfolded start option.case decide prod.case]
    show ?thesis
    proof (cases r1)
      case (Err u)
      with eq' unrecoverable show ?thesis by auto
    next
      case r1: (Ok d)
      show ?thesis
      proof (cases d)
        case Failure
        with eq' r1 failure [OF _ _ _ Ok [unfolded x] start] decide show ?thesis by auto
      next
        case (Success p)
        note eq'' = eq' [unfolded r1 res.case Success Decision.case]
        obtain states where states: "collapse_components (rd_protos s) p = Some states"
          using eq'' assms(2) by (cases "collapse_components (rd_protos s) p") auto
        obtain ended where ended: "native_collapse_with (rd_native s) p = Some ended"
          using eq'' assms(2) states by (cases "native_collapse_with (rd_native s) p") auto
        from eq'' states ended success [OF _ _ _ Ok [unfolded x] start] decide r1 Success show ?thesis by auto
      qed
    qed (use eq' assms(2,3) in auto)
  qed (use assms in \<open>auto simp: connected_sync_def\<close>)
qed

lemma phase_ok_fresh_batch:
  assumes "em_wf m \<or> (\<exists>u. res = Inl (Unrecoverable u))"
  shows "phase_ok pim cid (PhCommunication (comm\<lparr>native_batches := [NativeBatch_default], endpoint_manager := m,
     round_result := res, round_index := k\<rparr>))"
  using assms by (auto simp: phase_ok_def)

text \<open>The state after a successful round: identifiers, ports and what the native received.\<close>

lemma success_keeps:
  assumes inv: "conn_inv c" "phased c = PhCommunication comm" "\<forall>u. round_result comm \<noteq> Inl (Unrecoverable u)"
    and ok: "interp_ok interp" "net_wf net"
    and phase: "nonsync_phase fuel interp (proto_components (unphased c)) (cu_ips (unphased c)) [] = Ok (ips, bpcs)"
    and start: "round_start (unphased c) comm ips bpcs dl w = Some s0"
    and decide: "decide_round fuel net (sync_run interp) k nbh (native_component_id (unphased c)) s0 = (Ok d, s)"
    and states: "collapse_components (rd_protos s) p = Some states"
    and ended: "native_collapse_with (rd_native s) p = Some fin"
  shows "ips_base (rips (rs_rctx s)) \<and> em_wf (em s) \<and>
    comps_ok (id_manager (rips (rs_rctx s))) (native_component_id (unphased c)) (fold (\<lambda>(cid, st). hm_insert cid st) states []) \<and>
    ren_batch_index fin < length (native_batches comm) \<and>
    set (hm_keys (ren_gotten fin)) = set (to_get (native_batches comm ! ren_batch_index fin))"
proof -
  let ?ncid = "native_component_id (unphased c)"
  from round_decided [OF inv ok phase start decide] obtain nvar where
    base: "ips_base ips" "ids_distinct (id_manager ips) ?ncid (hm_keys bpcs)"
    and s: "round_ok ?ncid nvar (batch_gets comm) ips (hm_keys bpcs) s"
    by (auto simp: step_ok_def)
  have parts: "rips (rs_rctx s) = ips" "em_wf (em s)" "hm_keys (rd_protos s) = hm_keys bpcs"
    "native_ok nvar (batch_gets comm) (native_getters (port_info ips) ?ncid) (rd_native s)"
    using s by (simp_all add: round_ok_def rctx_ok_def native_round_ok_def)
  have keys: "hm_keys states = hm_keys bpcs"
    using collapse_components_keys [OF states] parts(3) by simp
  have "hm_wf (fold (\<lambda>(cid, st). hm_insert cid st) states ([] :: (ComponentId \<times> 'a) list))"
    by (rule hm.wf_extend) simp
  moreover have "set (hm_keys (fold (\<lambda>(cid, st). hm_insert cid st) states [])) = set (hm_keys bpcs)"
    using hm_keys_extend [of states "[]"] unfolding keys by simp
  ultimately have "comps_ok (id_manager ips) ?ncid (fold (\<lambda>(cid, st). hm_insert cid st) states [])"
    using base(2) by (simp add: comps_ok_def ids_distinct_def)
  with native_collapse_batch [OF parts(4) ended] base parts show ?thesis by auto
qed

lemma sync_comm_cases:
  assumes sync: "sync fuel net interp timeout (c, w) = (r, c', w')" "r \<noteq> Panic" "r \<noteq> OutOfFuel"
    and comm: "phased c = PhCommunication comm" "\<forall>u. round_result comm \<noteq> Inl (Unrecoverable u)"
  obtains cr cu' comm' where "connected_sync fuel net interp timeout (unphased c, comm, w) = (cr, cu', comm', w')"
    "cr \<noteq> Panic" "cr \<noteq> OutOfFuel" "unphased c' = cu'"
    "phased c' = PhCommunication (comm'\<lparr>round_result := (case cr of Ok x \<Rightarrow> Inr x | Err e \<Rightarrow> Inl e),
       round_index := round_index comm' + 1\<rparr>)"
    "r = (case cr of Ok x \<Rightarrow> Ok (ren_batch_index (the x)) | Err e \<Rightarrow> Err e)" "\<forall>x. cr = Ok x \<longrightarrow> x \<noteq> None"
proof -
  obtain cr cu' comm' w1 where cs: "connected_sync fuel net interp timeout (unphased c, comm, w) = (cr, cu', comm', w1)"
    by (metis prod_cases4)
  have eq: "(case connected_sync fuel net interp timeout (unphased c, comm, w) of
               (Ok (Some ok_result), cu, comm', w') \<Rightarrow>
                 (Ok (ren_batch_index ok_result), \<lparr>unphased = cu,
                   phased = PhCommunication (comm'\<lparr>round_result := Inr (Some ok_result), round_index := round_index comm' + 1\<rparr>)\<rparr>, w')
             | (Ok None, cu, comm', w') \<Rightarrow> (Panic, \<lparr>unphased = cu, phased = PhCommunication comm'\<rparr>, w')
             | (Err e, cu, comm', w') \<Rightarrow>
                 (Err e, \<lparr>unphased = cu,
                   phased = PhCommunication (comm'\<lparr>round_result := Inl e, round_index := round_index comm' + 1\<rparr>)\<rparr>, w')
             | (Panic, cu, comm', w') \<Rightarrow> (Panic, \<lparr>unphased = cu, phased = PhCommunication comm'\<rparr>, w')
             | (OutOfFuel, cu, comm', w') \<Rightarrow> (OutOfFuel, \<lparr>unphased = cu, phased = PhCommunication comm'\<rparr>, w')) = (r, c', w')"
    using sync(1) comm by (auto simp: sync_def split: sum.splits SyncError.splits)
  show ?thesis
  proof (cases cr)
    case (Ok x)
    with eq cs sync(2) obtain e where "x = Some e" by (cases x) auto
    with eq cs Ok that show ?thesis by auto
  next
    case (Err e)
    with eq cs that show ?thesis by auto
  qed (use eq cs sync(2,3) in auto)
qed

end
