(* ===== verification/Sync_Properties.thy ===== *)
theory Sync_Properties
  imports Round_Invariant
begin

text \<open>
  What \<open>sync\<close> promises to the user of a connector, from the lemmas on the round.
\<close>

section \<open>A small connector\<close>

text \<open>
  For the witnesses: a connector without network endpoints and protocol components, the
  leader of its own tree, with one empty batch; and a network that never delivers anything.
\<close>

definition quiet_net :: "unit Net" where
  "quiet_net = \<lparr>stream_read = \<lambda>_ w. (([], ReadWouldBlock), w), stream_write = \<lambda>_ _ w. (True, w),
     stream_local_addr = \<lambda>_ _. Some (SocketAddr [] 0), sock_recv = \<lambda>_ w. (None, w), sock_send = \<lambda>_ _ w. (True, w),
     poll_events = \<lambda>_ w. (None, w), clock_now = \<lambda>w. (0, w), serialize = \<lambda>_. Some [], deserialize = \<lambda>_. DeUnexpectedEof\<rparr>"

definition idle_interp :: "unit Interp" where
  "idle_interp = \<lparr>prompt_new = \<lambda>_ _. Some (), sync_run = idle_run, nonsync_run = \<lambda>s ctx. Some (SyncBlockStart, s, ctx)\<rparr>"

definition lone_comm :: "NativeBatch list \<Rightarrow> ConnectorCommunication" where
  "lone_comm batches = \<lparr>round_index = 0,
     endpoint_manager = \<lparr>delayed_messages = [], undelayed_messages = [],
       net_endpoint_store = \<lparr>endpoint_exts = [], polled_undrained = \<lparr>vec = []\<rparr>\<rparr>,
       udp_endpoint_store = \<lparr>endpoint_exts = [], polled_undrained = \<lparr>vec = []\<rparr>\<rparr>\<rparr>,
     neighborhood = \<lparr>parent = None, children = \<lparr>vec = []\<rparr>\<rparr>, native_batches = batches, round_result = Inr None\<rparr>"

definition lone_connector :: "NativeBatch list \<Rightarrow> unit Connector" where
  "lone_connector batches = \<lparr>unphased = \<lparr>proto_description = empty_pd, proto_components = [], cu_ips = sample_ips,
       native_component_id = sample_cid\<rparr>,
     phased = PhCommunication (lone_comm batches)\<rparr>"

lemma quiet_net_wf: "net_wf quiet_net"
  by (simp add: net_wf_def quiet_net_def)

lemma idle_interp_ok: "interp_ok idle_interp"
  by (auto simp: interp_ok_def idle_interp_def sample_run_ok intro: nonsync_callbacks.none)

lemma lone_connector_inv: "conn_inv (lone_connector [NativeBatch_default])"
  using sample_ips_inv
  by (simp add: conn_inv_def lone_connector_def lone_comm_def phase_ok_def comps_ok_def ips_inv_def em_wf_def)

lemma lone_phased: "phased (lone_connector bs) = PhCommunication (lone_comm bs)"
  by (simp add: lone_connector_def)

abbreviation lone_pred :: Predicate where
  "lone_pred \<equiv> \<lparr>assigned = [(sample_nvar, SpecVal 0)]\<rparr>"

definition lone_state :: "Predicate list \<Rightarrow> Predicate list \<Rightarrow> (unit, unit) RoundState" where
  "lone_state old new = \<lparr>world = (), em = endpoint_manager (lone_comm []),
     rs_rctx = \<lparr>solution_storage = \<lparr>old_local = old, new_local = new, subtree_solutions = [[lone_pred]],
         subtree_id_to_index = [(SubLocalComponent sample_cid, 0)]\<rparr>,
       spec_var_stream = \<lparr>svs_connector_id = 7, svs_suffix_stream = \<lparr>snext = 101\<rparr>\<rparr>, payload_inbox = [], deadline = None,
       rips = sample_ips\<rparr>,
     rd_native = [(lone_pred, \<lparr>nb_index = 0, nb_gotten = [], nb_to_get = []\<rparr>)], rd_protos = [],
     already_requested_failure = False\<rparr>"

lemma lone_start:
  "round_start (unphased (lone_connector bs)) (lone_comm [NativeBatch_default]) sample_ips [] None () = Some (lone_state [] [lone_pred])"
  by (simp add: round_start_def lone_connector_def lone_comm_def sample_ips_def IdManager_new_def
      new_spec_var_stream_def SpecVarStream_next_def n_skipped_def saturating_add_def SKIP_N_def U32Stream_next_def u32_MAX_def
      native_predicate_def NativeBatch_default_def PortInfoMap_default_def ports_owned_by_def oassert_def is_ended_def
      rc_submit_def submit_and_digest_subtree_solution_def round_subtrees_def SolutionStorage_new_def lone_state_def
      inserted_def Predicate_default_def)

lemma lone_decide:
  "decide_round 3 quiet_net run 0 \<lparr>parent = None, children = \<lparr>vec = []\<rparr>\<rparr> sample_cid (lone_state [] [lone_pred]) =
     (Ok (Success lone_pred), lone_state [lone_pred] [])"
  by (simp add: decide_round_def sync_reach_decision_def act_or_else_def undecided_step_def report_solutions_def announce_def
      udp_endpoints_round_end_def lone_state_def lone_comm_def act_bind_def act_ret_def act_modify_def undelay_all_def
      eval_nat_numeral getter_pop_def vec_pop_def iter_new_local_make_old_def)

lemma lone_sync:
  "sync 3 quiet_net idle_interp None (lone_connector [NativeBatch_default], ()) =
     (Ok 0, lone_connector [NativeBatch_default]\<lparr>phased := PhCommunication ((lone_comm [NativeBatch_default])\<lparr>
        round_result := Inr (Some \<lparr>ren_batch_index = 0, ren_gotten = []\<rparr>), round_index := 1\<rparr>)\<rparr>, ())"
proof -
  have [simp]: "neighborhood (lone_comm bs) = \<lparr>parent = None, children = \<lparr>vec = []\<rparr>\<rparr>" "round_index (lone_comm bs) = 0"
    "round_result (lone_comm bs) = Inr None" for bs
    by (simp_all add: lone_comm_def)
  have [simp]: "proto_components (unphased (lone_connector bs)) = []" "cu_ips (unphased (lone_connector bs)) = sample_ips"
    "native_component_id (unphased (lone_connector bs)) = sample_cid" for bs
    by (simp_all add: lone_connector_def)
  show ?thesis
    by (simp add: sync_def connected_sync_def lone_phased lone_start lone_decide Let_def)
      (simp add: lone_state_def is_ended_def assigns_subset_def query_def lone_connector_def lone_comm_def)
qed

section \<open>Properties\<close>

text \<open>
  C1: a failed \<open>sync\<close> rolls back. Whatever the error is, the components, the ports and
  the identifiers are those from before the call. Without a connection, or after an
  unrecoverable error, nothing at all happens; otherwise the round is counted and its error
  recorded.
\<close>

theorem sync_error_rolls_back:
  assumes "sync fuel net interp timeout (c, w) = (Err e, c', w')"
  shows "unphased c' = unphased c \<and>
    (case phased c of
       PhSetup _ \<Rightarrow> e = Se_NotConnected \<and> c' = c \<and> w' = w
     | PhCommunication comm \<Rightarrow>
         (case round_result comm of
            Inl (Unrecoverable u) \<Rightarrow> e = Unrecoverable u \<and> c' = c \<and> w' = w
          | _ \<Rightarrow> \<exists>comm'. phased c' = PhCommunication comm' \<and> round_index comm' = round_index comm + 1 \<and> round_result comm' = Inl e))"
proof (cases "phased c")
  case (PhSetup st)
  with assms show ?thesis by (simp add: sync_def)
next
  case (PhCommunication comm)
  show ?thesis
  proof (cases "\<forall>u. round_result comm \<noteq> Inl (Unrecoverable u)")
    case False
    with assms PhCommunication show ?thesis by (auto simp: sync_def)
  next
    case True
    obtain cr cu' comm' where cs: "connected_sync fuel net interp timeout (unphased c, comm, w) = (cr, cu', comm', w')"
      "cr \<noteq> Panic" "cr \<noteq> OutOfFuel" "unphased c' = cu'"
      "phased c' = PhCommunication (comm'\<lparr>round_result := (case cr of Ok x \<Rightarrow> Inr x | Err e \<Rightarrow> Inl e),
         round_index := round_index comm' + 1\<rparr>)"
      "Err e = (case cr of Ok x \<Rightarrow> Ok (ren_batch_index (the x)) | Err e \<Rightarrow> Err e)"
      by (rule sync_comm_cases [OF assms _ _ PhCommunication True]) auto
    have cr: "cr = Err e" using cs(2,3,6) by (cases cr) auto
    from cs(1-3) have "cu' = unphased c \<and> round_index comm' = round_index comm"
      by (cases rule: connected_sync_cases) (use cr in auto)
    with cs cr PhCommunication True show ?thesis by (auto split: sum.splits SyncError.splits)
  qed
qed

theorem sync_error_rolls_back_witness:
  "\<exists>c'. sync 3 quiet_net idle_interp None (lone_connector [], ()) = (Err RoundFailure, c', ()) \<and>
     unphased c' = unphased (lone_connector [])"
proof -
  have "\<exists>c'. sync 3 quiet_net idle_interp None (lone_connector [], ()) = (Err RoundFailure, c', ())"
    by (simp add: sync_def connected_sync_def round_start_def lone_connector_def lone_comm_def sample_ips_def IdManager_new_def
      new_spec_var_stream_def SpecVarStream_next_def n_skipped_def saturating_add_def SKIP_N_def U32Stream_next_def u32_MAX_def
      decide_round_def sync_reach_decision_def act_or_else_def give_up_def act_bind_def act_ret_def announce_def
      udp_endpoints_round_end_def)
  then obtain c' where c': "sync 3 quiet_net idle_interp None (lone_connector [], ()) = (Err RoundFailure, c', ())" ..
  from sync_error_rolls_back [OF c'] c' show ?thesis by blast
qed

text \<open>
  C2: a successful \<open>sync\<close> performs exactly one of the prepared batches. The returned
  index is that of a batch, afterwards exactly the ports that this batch asked to receive
  from have a received message, and a single empty batch is prepared for the next round.
\<close>

theorem sync_commits_one_batch:
  assumes "conn_inv c" "phased c = PhCommunication comm" "interp_ok interp" "net_wf net"
    and "sync fuel net interp timeout (c, w) = (Ok i, c', w')"
  shows "i < length (native_batches comm) \<and>
    (\<forall>port. (\<exists>payload. gotten c' port = Ok payload) \<longleftrightarrow> port \<in> set (to_get (native_batches comm ! i))) \<and>
    (\<exists>comm'. phased c' = PhCommunication comm' \<and> native_batches comm' = [NativeBatch_default] \<and>
       round_index comm' = round_index comm + 1)"
proof -
  have usable: "\<forall>u. round_result comm \<noteq> Inl (Unrecoverable u)"
    using assms(2,5) by (auto simp: sync_def)
  obtain cr cu' comm' where cs: "connected_sync fuel net interp timeout (unphased c, comm, w) = (cr, cu', comm', w')"
      "cr \<noteq> Panic" "cr \<noteq> OutOfFuel" "unphased c' = cu'"
      "phased c' = PhCommunication (comm'\<lparr>round_result := (case cr of Ok x \<Rightarrow> Inr x | Err e \<Rightarrow> Inl e),
         round_index := round_index comm' + 1\<rparr>)"
      "Ok i = (case cr of Ok x \<Rightarrow> Ok (ren_batch_index (the x)) | Err e \<Rightarrow> Err e)"
    by (rule sync_comm_cases [OF assms(5) _ _ assms(2) usable]) auto
  from cs(1-3) show ?thesis
  proof (cases rule: connected_sync_cases)
    case (success ips bpcs dl w1 s0 s predicate states fin)
    note keep = success_keeps [OF assms(1,2) usable assms(3,4) success(4-8)]
    have i: "i = ren_batch_index fin" using cs(6) success(1) by simp
    have "(\<exists>payload. gotten c' port = Ok payload) \<longleftrightarrow> port \<in> set (hm_keys (ren_gotten fin))" for port
      using hm_get_keys [of "ren_gotten fin" port] cs(5) success(1)
      by (auto simp: gotten_def split: option.splits)
    with keep i cs(5) success(1,3) show ?thesis by simp
  qed (use cs(6) in auto)
qed

theorem sync_commits_one_batch_witness:
  "\<exists>c' w'. sync 3 quiet_net idle_interp None (lone_connector [NativeBatch_default], ()) = (Ok 0, c', w') \<and>
     (\<forall>port payload. gotten c' port \<noteq> Ok payload)"
  using sync_commits_one_batch [OF lone_connector_inv lone_phased idle_interp_ok quiet_net_wf lone_sync] lone_sync
  by (auto simp: lone_comm_def NativeBatch_default_def)

lemma conn_inv_sync:
  assumes "conn_inv c" "interp_ok interp" "net_wf net"
    and "sync fuel net interp timeout (c, w) = (r, c', w')" "r \<noteq> Panic" "r \<noteq> OutOfFuel"
  shows "conn_inv c'"
proof (cases "phased c")
  case (PhSetup st)
  with assms show ?thesis by (auto simp: sync_def)
next
  case (PhCommunication comm)
  show ?thesis
  proof (cases "\<forall>u. round_result comm \<noteq> Inl (Unrecoverable u)")
    case False
    with assms PhCommunication show ?thesis by (auto simp: sync_def)
  next
    case True
    obtain cr cu' comm' where cs: "connected_sync fuel net interp timeout (unphased c, comm, w) = (cr, cu', comm', w')"
        "cr \<noteq> Panic" "cr \<noteq> OutOfFuel" "unphased c' = cu'"
        "phased c' = PhCommunication (comm'\<lparr>round_result := (case cr of Ok x \<Rightarrow> Inr x | Err e \<Rightarrow> Inl e),
           round_index := round_index comm' + 1\<rparr>)"
      by (rule sync_comm_cases [OF assms(4-6) PhCommunication True])
    have base: "ips_base (cu_ips (unphased c))"
      "comps_ok (id_manager (cu_ips (unphased c))) (native_component_id (unphased c)) (proto_components (unphased c))"
      using assms(1) by (simp_all add: conn_inv_def)
    note old = conn_inv_comm [OF assms(1) PhCommunication]
    from cs(1-3) show ?thesis
    proof (cases rule: connected_sync_cases)
      case (inconsistent e)
      with cs base old True show ?thesis by (auto simp: conn_inv_def phase_ok_def)
    next
      case (unrecoverable u m)
      with cs(4,5) base phase_ok_fresh_batch [of m "Inl (Unrecoverable u)"] show ?thesis by (auto simp: conn_inv_def)
    next
      case (failure ips bpcs dl w1 s0 s)
      from round_decided [OF assms(1) PhCommunication True assms(2,3) failure(4-6)] have "em_wf (em s)"
        by (auto simp: step_ok_def round_ok_def)
      with failure(1-3) cs(4,5) base phase_ok_fresh_batch [of "em s"] show ?thesis by (auto simp: conn_inv_def)
    next
      case (success ips bpcs dl w1 s0 s predicate states fin)
      note keep = success_keeps [OF assms(1) PhCommunication True assms(2,3) success(4-8)]
      with success(1-3) cs(4,5) phase_ok_fresh_batch [of "em s"] show ?thesis by (auto simp: conn_inv_def)
    qed
  qed
qed

text \<open>
  C4: \<open>sync\<close> keeps the invariant of the connector, whether the round succeeds, fails or
  breaks the connection: the port tables agree with the owners, identifiers stay fresh and
  distinct, and the batches mention only the native's own ports.
\<close>

theorem sync_keeps_inv:
  assumes "conn_inv c" "interp_ok interp" "net_wf net"
    and "sync fuel net interp timeout (c, w) = (r, c', w')" "r \<noteq> Panic" "r \<noteq> OutOfFuel"
  shows "conn_inv c'"
  using assms by (rule conn_inv_sync)

theorem sync_keeps_inv_witness:
  "\<exists>c' w'. sync 3 quiet_net idle_interp None (lone_connector [NativeBatch_default], ()) = (Ok 0, c', w') \<and> conn_inv c'"
  using sync_keeps_inv [OF lone_connector_inv idle_interp_ok quiet_net_wf lone_sync] lone_sync by auto

text \<open>
  C3: the leader decides only on what it can commit. When the root of the tree decides on
  success, the solution is one that its solution storage composed from one solution of
  every child, and the native's panic "no branches matching" cannot happen: some branch that
  has received all its messages is part of the solution, and it belongs to one of the
  user's batches. Nothing is claimed of the branches of the protocol components.
\<close>

theorem leader_commit_safe:
  assumes "conn_inv c" "phased c = PhCommunication comm" "\<forall>u. round_result comm \<noteq> Inl (Unrecoverable u)"
    and "parent (neighborhood comm) = None" "interp_ok interp" "net_wf net"
    and "nonsync_phase fuel interp (proto_components (unphased c)) (cu_ips (unphased c)) [] = Ok (ips, bpcs)"
    and "round_start (unphased c) comm ips bpcs dl w = Some s0"
    and "decide_round fuel net (sync_run interp) (round_index comm) (neighborhood comm) (native_component_id (unphased c)) s0 =
      (Ok (Success predicate), s)"
  shows "local_solution (subtree_solutions (solution_storage (rs_rctx s))) predicate \<and>
    (\<exists>r. native_collapse_with (rd_native s) predicate = Some r \<and> ren_batch_index r < length (native_batches comm))"
proof -
  let ?ncid = "native_component_id (unphased c)"
  from round_decided [OF assms(1-3,5-9)] obtain nvar where
    ok: "round_ok ?ncid nvar (batch_gets comm) ips (hm_keys bpcs) s" "decided_ok (parent (neighborhood comm)) (Some (Success predicate)) s"
    by (auto simp: step_ok_def)
  have sol: "predicate \<in> set (old_local (solution_storage (rs_rctx s)))"
    using ok(2) assms(4) by (simp add: decided_ok_def)
  have n: "native_round_ok ?ncid nvar (batch_gets comm) (native_getters (port_info ips) ?ncid) (rd_native s) (rs_rctx s)"
    "hm_get (subtree_id_to_index (solution_storage (rs_rctx s))) (SubLocalComponent ?ncid) \<noteq> None"
    using ok(1) by (simp_all add: round_ok_def rctx_ok_def)
  obtain r where r: "native_collapse_with (rd_native s) predicate = Some r"
    using collapse_on_local_solution [OF n(1) _ n(2)] sol by blast
  have nok: "native_ok nvar (batch_gets comm) (native_getters (port_info ips) ?ncid) (rd_native s)"
    and st: "storage_inv (solution_storage (rs_rctx s))"
    using n(1) by (simp_all add: native_round_ok_def rc_storage_ok_def)
  have "local_solution (subtree_solutions (solution_storage (rs_rctx s))) predicate"
    using st sol by (auto simp: storage_inv_def)
  with native_collapse_batch [OF nok r] r show ?thesis by auto
qed

theorem leader_commit_safe_witness:
  "local_solution (subtree_solutions (solution_storage (rs_rctx (lone_state [lone_pred] [])))) lone_pred \<and>
    (\<exists>r. native_collapse_with (rd_native (lone_state [lone_pred] [])) lone_pred = Some r \<and> ren_batch_index r = 0)"
proof -
  let ?c = "lone_connector [NativeBatch_default]" and ?comm = "lone_comm [NativeBatch_default]"
  have 1: "nonsync_phase 3 idle_interp (proto_components (unphased ?c)) (cu_ips (unphased ?c)) [] = Ok (sample_ips, [])"
    by (simp add: lone_connector_def)
  have 2: "decide_round 3 quiet_net (sync_run idle_interp) (round_index ?comm) (neighborhood ?comm) (native_component_id (unphased ?c))
      (lone_state [] [lone_pred]) = (Ok (Success lone_pred), lone_state [lone_pred] [])"
    using lone_decide [of "sync_run idle_interp"] by (simp add: lone_comm_def lone_connector_def)
  have 3: "\<forall>u. round_result ?comm \<noteq> Inl (Unrecoverable u)" "parent (neighborhood ?comm) = None"
    "length (native_batches ?comm) = 1"
    by (simp_all add: lone_comm_def)
  from leader_commit_safe [OF lone_connector_inv lone_phased 3(1,2) idle_interp_ok quiet_net_wf 1 lone_start 2] 3(3)
  show ?thesis by auto
qed

end
