(* ===== verification/Setup.thy ===== *)
theory Setup
  imports Connector
begin

text \<open>
  The setup of the network connections (\<open>Connector::connect\<close>, \<open>connect_inner\<close> and
  \<open>setup_endpoints_and_pair_ports\<close> of \<open>src/runtime/setup.rs\<close>): the endpoints are
  bound or connected, port information is exchanged with the peers, and the port table
  learns the peers' ports. Sockets and the poller are the argument \<open>os\<close>, a record of
  functions on the world, beside \<open>net\<close> for what the endpoints use later on. Instants and
  durations are counted in milliseconds. \<open>set_nodelay\<close>, whose result the source ignores,
  is left out.
\<close>

section \<open>Sockets and events\<close>

datatype Source = StreamSource nat | ListenerSource nat | SocketSource nat

datatype Interest = BOTH | WRITABLE | READABLE

record Event =
  ev_token :: usize
  ev_error :: bool
  ev_readable :: bool
  ev_writable :: bool

datatype AcceptOutcome = AcceptOk nat | AcceptWouldBlock | AcceptError

record 'w Os =
  poll_new :: "'w \<Rightarrow> bool \<times> 'w"
  poll_register :: "Source \<Rightarrow> usize \<Rightarrow> Interest \<Rightarrow> 'w \<Rightarrow> bool \<times> 'w"
  poll_deregister :: "Source \<Rightarrow> 'w \<Rightarrow> bool \<times> 'w"
  poll_reregister :: "Source \<Rightarrow> usize \<Rightarrow> Interest \<Rightarrow> 'w \<Rightarrow> bool \<times> 'w"
  poll_setup :: "nat option \<Rightarrow> 'w \<Rightarrow> Event list option \<times> 'w"
  tcp_connect :: "SocketAddr \<Rightarrow> 'w \<Rightarrow> nat option \<times> 'w"
  tcp_bind :: "SocketAddr \<Rightarrow> 'w \<Rightarrow> nat option \<times> 'w"
  tcp_accept :: "nat \<Rightarrow> 'w \<Rightarrow> AcceptOutcome \<times> 'w"
  listener_addr :: "nat \<Rightarrow> 'w \<Rightarrow> SocketAddr option"
  udp_bind :: "SocketAddr \<Rightarrow> 'w \<Rightarrow> nat option \<times> 'w"
  udp_connect :: "nat \<Rightarrow> SocketAddr \<Rightarrow> 'w \<Rightarrow> bool \<times> 'w"
  udp_addr :: "nat \<Rightarrow> 'w \<Rightarrow> SocketAddr option"

definition RETRY_PERIOD :: nat where
  "RETRY_PERIOD = 200"

section \<open>Endpoints in progress\<close>

datatype NetTodoEndpoint = Accepting nat | PeerInfoRecving NetEndpoint

record NetTodo =
  todo_endpoint :: NetTodoEndpoint
  endpoint_setup :: NetEndpointSetup
  sent_local_port :: bool
  recv_peer_port :: "PortId option"

record UdpTodo =
  ut_getter_for_incoming :: PortId
  ut_sock :: nat

record 'w SetupState =
  ss_world :: 'w
  ss_port_info :: PortInfoMap
  net_todos :: "NetTodo list"
  net_connect_to_retry :: "nat hash_set"
  setup_incomplete :: "TokenTarget hash_set"
  net_polled_undrained :: "nat VecSet"
  ss_delayed :: "(nat \<times> Msg) list"
  last_retry_at :: nat

text \<open>A call into the outside world, and one whose failure the source unwraps.\<close>

definition os_call :: "('w \<Rightarrow> 'a \<times> 'w) \<Rightarrow> ('w SetupState, 'a, ConnectError) act" where
  "os_call f s = (let (x, w) = f (ss_world s) in (Ok x, s\<lparr>ss_world := w\<rparr>))"

definition os_unwrap :: "('w \<Rightarrow> bool \<times> 'w) \<Rightarrow> ('w SetupState, unit, ConnectError) act" where
  "os_unwrap f = act_bind (os_call f) act_assert"

text \<open>An error that carries the address of a socket: its lookup is unwrapped.\<close>

definition addr_err :: "(SocketAddr \<Rightarrow> ConnectError) \<Rightarrow> ('w \<Rightarrow> SocketAddr option) \<Rightarrow> ('w SetupState, 'a, ConnectError) act" where
  "addr_err f addr s = ((case addr (ss_world s) of None \<Rightarrow> Panic | Some a \<Rightarrow> Err (f a)), s)"

definition token_of :: "TokenTarget \<Rightarrow> ('w SetupState, usize, ConnectError) act" where
  "token_of t = act_res (unwrap (TokenTarget_into t))"

section \<open>Creating the endpoints\<close>

definition new_net_todo :: "'w Os \<Rightarrow> nat \<Rightarrow> NetEndpointSetup \<Rightarrow> ('w SetupState, NetTodo, ConnectError) act" where
  "new_net_todo os index es =
     act_bind (token_of (TokenNetEndpoint (of_nat index))) (\<lambda>token.
     act_bind
       (if nes_endpoint_polarity es = Active then
          act_bind (os_call (tcp_connect os (nes_sock_addr es))) (\<lambda>r. case r of
            None \<Rightarrow> act_err (TcpInvalidConnect (nes_sock_addr es))
          | Some stream \<Rightarrow>
              act_bind (os_unwrap (poll_register os (StreamSource stream) token BOTH)) (\<lambda>_.
                act_ret (PeerInfoRecving \<lparr>ne_inbox = [], ne_stream = stream\<rparr>)))
        else
          act_bind (os_call (tcp_bind os (nes_sock_addr es))) (\<lambda>r. case r of
            None \<Rightarrow> act_err (BindFailed (nes_sock_addr es))
          | Some listener \<Rightarrow>
              act_bind (os_unwrap (poll_register os (ListenerSource listener) token BOTH)) (\<lambda>_.
                act_ret (Accepting listener))))
       (\<lambda>te. act_ret \<lparr>todo_endpoint = te, endpoint_setup = es, sent_local_port = False, recv_peer_port = None\<rparr>))"

definition new_udp_todo :: "'w Os \<Rightarrow> nat \<Rightarrow> UdpEndpointSetup \<Rightarrow> ('w SetupState, UdpTodo, ConnectError) act" where
  "new_udp_todo os index es =
     act_bind (os_call (udp_bind os (ues_local_addr es))) (\<lambda>r. case r of
       None \<Rightarrow> act_err (BindFailed (ues_local_addr es))
     | Some sk \<Rightarrow>
         act_bind (os_call (udp_connect os sk (ues_peer_addr es))) (\<lambda>ok.
         if \<not> ok then act_err (UdpConnectFailed (ues_peer_addr es))
         else act_bind (token_of (TokenUdpEndpoint (of_nat index))) (\<lambda>token.
              act_bind (os_unwrap (poll_register os (SocketSource sk) token WRITABLE)) (\<lambda>_.
                act_ret \<lparr>ut_getter_for_incoming = ues_getter_for_incoming es, ut_sock = sk\<rparr>))))"

text \<open>\<open>enumerate().map(...).collect::<Result<Vec<_>, _>>()\<close>: the first error ends it.\<close>

fun collect_todos :: "(nat \<Rightarrow> 'x \<Rightarrow> ('s, 'y, 'e) act) \<Rightarrow> nat \<Rightarrow> 'x list \<Rightarrow> ('s, 'y list, 'e) act" where
  "collect_todos f index [] = act_ret []"
| "collect_todos f index (x # xs) =
     act_bind (f index x) (\<lambda>y. act_bind (collect_todos f (Suc index) xs) (\<lambda>ys. act_ret (y # ys)))"

section \<open>Reacting to events\<close>

definition set_todo :: "nat \<Rightarrow> NetTodo \<Rightarrow> ('w SetupState, unit, ConnectError) act" where
  "set_todo index t = act_modify (\<lambda>s. s\<lparr>net_todos := (net_todos s)[index := t]\<rparr>)"

text \<open>Restarting the connection of one active endpoint.\<close>

definition retry_connect :: "'w Os \<Rightarrow> nat \<Rightarrow> ('w SetupState, unit, ConnectError) act" where
  "retry_connect os net_index =
     act_bind (act_get net_todos) (\<lambda>todos.
     if net_index < length todos then
       let t = todos ! net_index in
       (case todo_endpoint t of
          Accepting _ \<Rightarrow> act_panic
        | PeerInfoRecving endpoint \<Rightarrow>
            act_bind (os_call (tcp_connect os (nes_sock_addr (endpoint_setup t)))) (\<lambda>r. case r of
              None \<Rightarrow> act_panic
            | Some new_stream \<Rightarrow>
                act_bind (set_todo net_index (t\<lparr>todo_endpoint := PeerInfoRecving (endpoint\<lparr>ne_stream := new_stream\<rparr>)\<rparr>)) (\<lambda>_.
                act_bind (token_of (TokenNetEndpoint (of_nat net_index))) (\<lambda>token.
                os_unwrap (poll_register os (StreamSource new_stream) token BOTH)))))
     else act_panic)"

definition retry_all :: "'w Net \<Rightarrow> 'w Os \<Rightarrow> ('w SetupState, unit, ConnectError) act" where
  "retry_all net os =
     act_bind (os_call (clock_now net)) (\<lambda>t.
     act_bind (act_get last_retry_at) (\<lambda>last.
     if RETRY_PERIOD < t - last then
       act_bind (os_call (clock_now net)) (\<lambda>t'.
       act_bind (act_get net_connect_to_retry) (\<lambda>retry.
       act_bind (act_modify (\<lambda>s. s\<lparr>last_retry_at := t', net_connect_to_retry := []\<rparr>)) (\<lambda>_.
       act_for retry (retry_connect os))))
     else act_ret ()))"

definition udp_setup_event :: "'w Os \<Rightarrow> UdpTodo list \<Rightarrow> Event \<Rightarrow> usize \<Rightarrow> ('w SetupState, unit, ConnectError) act" where
  "udp_setup_event os udp_todos ev index =
     act_bind (act_get setup_incomplete) (\<lambda>inc.
     if TokenUdpEndpoint index \<notin> set inc then act_ret ()
     else if unat index < length udp_todos then
       if ev_error ev then addr_err BindFailed (udp_addr os (ut_sock (udp_todos ! unat index)))
       else act_modify (\<lambda>s. s\<lparr>setup_incomplete := hs_remove (TokenUdpEndpoint index) (setup_incomplete s)\<rparr>)
     else act_panic)"

text \<open>
  A passive endpoint first accepts its peer. The result says whether the event is to be
  handled further.
\<close>

definition accept_step :: "'w Os \<Rightarrow> Event \<Rightarrow> nat \<Rightarrow> ('w SetupState, bool, ConnectError) act" where
  "accept_step os ev index =
     act_bind (act_get (\<lambda>s. net_todos s ! index)) (\<lambda>t. case todo_endpoint t of
       PeerInfoRecving _ \<Rightarrow> act_ret True
     | Accepting listener \<Rightarrow>
         act_bind (os_call (tcp_accept os listener)) (\<lambda>r. case r of
           AcceptWouldBlock \<Rightarrow> act_ret False
         | AcceptError \<Rightarrow> addr_err AcceptFailed (listener_addr os listener)
         | AcceptOk stream \<Rightarrow>
             act_bind (os_unwrap (poll_deregister os (ListenerSource listener))) (\<lambda>_.
             act_bind (os_unwrap (poll_register os (StreamSource stream) (ev_token ev) BOTH)) (\<lambda>_.
             act_bind (set_todo index (t\<lparr>todo_endpoint := PeerInfoRecving \<lparr>ne_inbox = [], ne_stream = stream\<rparr>\<rparr>)) (\<lambda>_.
             act_ret True)))))"

text \<open>
  Sending the own port information. A failed write panics, because the source unwraps the
  error that it has just prepared.
\<close>

definition send_local_port :: "'w Net \<Rightarrow> nat \<Rightarrow> NetEndpoint \<Rightarrow> PortInfo \<Rightarrow> ('w SetupState, unit, ConnectError) act" where
  "send_local_port net index ne local_info =
     act_bind (act_get (\<lambda>s. net_todos s ! index)) (\<lambda>t s.
       case net_endpoint_send net ne (SetupMsg (MyPortInfo \<lparr>mpi_polarity = polarity local_info,
              mpi_port = nes_getter_for_incoming (endpoint_setup t), mpi_owner = owner local_info\<rparr>)) (ss_world s) of
         (Ok _, w) \<Rightarrow> set_todo index (t\<lparr>sent_local_port := True\<rparr>) (s\<lparr>ss_world := w\<rparr>)
       | (OutOfFuel, w) \<Rightarrow> (OutOfFuel, s\<lparr>ss_world := w\<rparr>)
       | (_, w) \<Rightarrow> (Panic, s\<lparr>ss_world := w\<rparr>))"

text \<open>
  What the table learns from the peer: the peer of the own port, and, unless the port is
  known already, an entry for the peer's port. The owner's set is extended in either case,
  since the argument of \<open>or_insert\<close> is evaluated first.
\<close>

definition learn_peer :: "nat \<Rightarrow> PortId \<Rightarrow> MyPortInfo \<Rightarrow> PortInfoMap \<Rightarrow> PortInfoMap option" where
  "learn_peer index getter peer_info m = do {
     info \<leftarrow> hm_get (port_map m) getter;
     let m1 = insert_port getter (info\<lparr>peer := Some (mpi_port peer_info)\<rparr>) m;
     let m2 = owned_extend (mpi_owner peer_info) [mpi_port peer_info] m1;
     Some (if hm_get (port_map m1) (mpi_port peer_info) = None
           then insert_port (mpi_port peer_info) \<lparr>owner = mpi_owner peer_info, peer = Some getter,
                  polarity = mpi_polarity peer_info, route = NetEndpoint index\<rparr> m2
           else m2)
   }"

definition handle_setup_msg :: "nat \<Rightarrow> PortInfo \<Rightarrow> Msg option \<Rightarrow> ('w SetupState, unit, ConnectError) act" where
  "handle_setup_msg index local_info maybe_msg =
     act_bind (act_get (\<lambda>s. net_todos s ! index)) (\<lambda>t. case maybe_msg of
       None \<Rightarrow> act_ret ()
     | Some (SetupMsg (MyPortInfo peer_info)) \<Rightarrow>
         if mpi_polarity peer_info = polarity local_info
         then act_err (PortPeerPolarityMismatch (nes_getter_for_incoming (endpoint_setup t)))
         else act_bind (set_todo index (t\<lparr>recv_peer_port := Some (mpi_port peer_info)\<rparr>)) (\<lambda>_.
              act_option (\<lambda>s. do {
                m \<leftarrow> learn_peer index (nes_getter_for_incoming (endpoint_setup t)) peer_info (ss_port_info s);
                Some ((), s\<lparr>ss_port_info := m\<rparr>)
              }))
     | Some msg \<Rightarrow> act_modify (\<lambda>s. s\<lparr>ss_delayed := ss_delayed s @ [(index, msg)]\<rparr>))"

definition recv_setup_msg :: "nat \<Rightarrow> 'w Net \<Rightarrow> nat \<Rightarrow> PortInfo \<Rightarrow> ('w SetupState, unit, ConnectError) act" where
  "recv_setup_msg fuel net index local_info =
     act_bind (act_get (\<lambda>s. net_todos s ! index)) (\<lambda>t. case todo_endpoint t of
       Accepting _ \<Rightarrow> act_ret ()
     | PeerInfoRecving ne \<Rightarrow>
         act_bind (\<lambda>s. case try_recv fuel net ne (ss_world s) of
             (Ok m, ne', w) \<Rightarrow> (Ok (m, ne'), s\<lparr>ss_world := w\<rparr>)
           | (Err e, ne', w) \<Rightarrow>
               addr_err (\<lambda>addr. NetEndpointSetupError addr e) (stream_local_addr net (ne_stream ne)) (s\<lparr>ss_world := w\<rparr>)
           | (Panic, ne', w) \<Rightarrow> (Panic, s\<lparr>ss_world := w\<rparr>)
           | (OutOfFuel, ne', w) \<Rightarrow> (OutOfFuel, s\<lparr>ss_world := w\<rparr>)) (\<lambda>(m, ne').
         act_bind (set_todo index (t\<lparr>todo_endpoint := PeerInfoRecving ne'\<rparr>)) (\<lambda>_.
         act_bind (act_modify (\<lambda>s. if m \<noteq> None \<and> ne_inbox ne' \<noteq> []
             then s\<lparr>net_polled_undrained := snd (VecSet_insert index (net_polled_undrained s))\<rparr> else s)) (\<lambda>_.
         handle_setup_msg index local_info m))))"

definition exchange_port_info :: "nat \<Rightarrow> 'w Net \<Rightarrow> Event \<Rightarrow> nat \<Rightarrow> ('w SetupState, unit, ConnectError) act" where
  "exchange_port_info fuel net ev index =
     act_bind (act_get (\<lambda>s. net_todos s ! index)) (\<lambda>t.
     act_bind (act_get (\<lambda>s. hm_get (port_map (ss_port_info s)) (nes_getter_for_incoming (endpoint_setup t)))) (\<lambda>info.
     case info of
       None \<Rightarrow> act_panic
     | Some local_info \<Rightarrow>
         (case todo_endpoint t of
            Accepting _ \<Rightarrow> act_ret ()
          | PeerInfoRecving ne \<Rightarrow>
              act_bind (if ev_writable ev \<and> \<not> sent_local_port t then send_local_port net index ne local_info else act_ret ()) (\<lambda>_.
              act_bind (if ev_readable ev \<and> recv_peer_port t = None then recv_setup_msg fuel net index local_info else act_ret ()) (\<lambda>_.
              act_modify (\<lambda>s. let t' = net_todos s ! index in
                if sent_local_port t' \<and> recv_peer_port t' \<noteq> None
                then s\<lparr>setup_incomplete := hs_remove (TokenNetEndpoint (of_nat index)) (setup_incomplete s)\<rparr> else s))))))"

definition net_setup_event :: "nat \<Rightarrow> 'w Net \<Rightarrow> 'w Os \<Rightarrow> Event \<Rightarrow> nat \<Rightarrow> ('w SetupState, unit, ConnectError) act" where
  "net_setup_event fuel net os ev index =
     act_bind (act_get net_todos) (\<lambda>todos.
     if \<not> index < length todos then act_panic
     else act_bind (accept_step os ev index) (\<lambda>go_on.
     if \<not> go_on then act_ret ()
     else act_bind (act_get (\<lambda>s. (net_todos s ! index, net_connect_to_retry s, setup_incomplete s))) (\<lambda>(t, retry, inc).
     case todo_endpoint t of
       Accepting _ \<Rightarrow> act_ret ()
     | PeerInfoRecving ne \<Rightarrow>
         if ev_error ev then
           if nes_endpoint_polarity (endpoint_setup t) = Passive
           then addr_err AcceptFailed (stream_local_addr net (ne_stream ne))
           else act_modify (\<lambda>s. s\<lparr>net_connect_to_retry := hs_insert index (net_connect_to_retry s)\<rparr>)
         else if index \<in> set retry then act_ret ()
         else if TokenNetEndpoint (of_nat index) \<notin> set inc then
           act_modify (\<lambda>s. if ev_readable ev
             then s\<lparr>net_polled_undrained := snd (VecSet_insert index (net_polled_undrained s))\<rparr> else s)
         else exchange_port_info fuel net ev index)))"

definition setup_event :: "nat \<Rightarrow> 'w Net \<Rightarrow> 'w Os \<Rightarrow> UdpTodo list \<Rightarrow> Event \<Rightarrow> ('w SetupState, unit, ConnectError) act" where
  "setup_event fuel net os udp_todos ev =
     (case TokenTarget_from (ev_token ev) of
        TokenUdpEndpoint index \<Rightarrow> udp_setup_event os udp_todos ev index
      | TokenNetEndpoint index \<Rightarrow> net_setup_event fuel net os ev (unat index))"

section \<open>The loop\<close>

text \<open>How long the poll may block; \<open>None\<close> inside is without limit.\<close>

definition setup_remaining :: "'w Net \<Rightarrow> nat option \<Rightarrow> ('w SetupState, nat option, ConnectError) act" where
  "setup_remaining net dl =
     act_bind (act_get (\<lambda>s. net_connect_to_retry s = [])) (\<lambda>is_empty. case dl of
       None \<Rightarrow> act_ret (if is_empty then None else Some RETRY_PERIOD)
     | Some d \<Rightarrow>
         act_bind (os_call (clock_now net)) (\<lambda>t.
         if t \<le> d then act_ret (Some (if is_empty then d - t else min (d - t) RETRY_PERIOD))
         else act_err Timeout))"

definition setup_step :: "nat \<Rightarrow> 'w Net \<Rightarrow> 'w Os \<Rightarrow> UdpTodo list \<Rightarrow> nat option \<Rightarrow> ('w SetupState, unit, ConnectError) act" where
  "setup_step fuel net os udp_todos dl =
     act_bind (setup_remaining net dl) (\<lambda>remaining.
     act_bind (os_call (poll_setup os remaining)) (\<lambda>r. case r of
       None \<Rightarrow> act_err PollFailed
     | Some events \<Rightarrow>
         act_bind (retry_all net os) (\<lambda>_.
         act_for events (setup_event fuel net os udp_todos))))"

fun setup_loop :: "nat \<Rightarrow> 'w Net \<Rightarrow> 'w Os \<Rightarrow> UdpTodo list \<Rightarrow> nat option \<Rightarrow> ('w SetupState, unit, ConnectError) act" where
  "setup_loop 0 net os udp_todos dl s = (if setup_incomplete s = [] then (Ok (), s) else (OutOfFuel, s))"
| "setup_loop (Suc fuel) net os udp_todos dl s =
     (if setup_incomplete s = [] then (Ok (), s)
      else act_bind (setup_step fuel net os udp_todos dl) (\<lambda>_. setup_loop fuel net os udp_todos dl) s)"

section \<open>The endpoint manager\<close>

definition finish_net :: "'w Os \<Rightarrow> nat \<Rightarrow> NetTodo \<Rightarrow> ('w SetupState, NetEndpointExt, ConnectError) act" where
  "finish_net os index t =
     (case todo_endpoint t of
        Accepting _ \<Rightarrow> act_panic
      | PeerInfoRecving ne \<Rightarrow>
          act_bind (token_of (TokenNetEndpoint (of_nat index))) (\<lambda>token.
          act_bind (os_unwrap (poll_reregister os (StreamSource (ne_stream ne)) token READABLE)) (\<lambda>_.
          act_ret \<lparr>net_endpoint = ne, net_getter_for_incoming = nes_getter_for_incoming (endpoint_setup t)\<rparr>)))"

definition finish_udp :: "'w Os \<Rightarrow> nat \<Rightarrow> UdpTodo \<Rightarrow> ('w SetupState, UdpEndpointExt, ConnectError) act" where
  "finish_udp os index t =
     act_bind (token_of (TokenUdpEndpoint (of_nat index))) (\<lambda>token.
     act_bind (os_unwrap (poll_reregister os (SocketSource (ut_sock t)) token READABLE)) (\<lambda>_.
     act_ret \<lparr>sock = ut_sock t, received_this_round = False, outgoing_payloads = [],
              udp_getter_for_incoming = ut_getter_for_incoming t\<rparr>))"

definition setup_finish :: "'w Os \<Rightarrow> UdpTodo list \<Rightarrow> ('w SetupState, EndpointManager, ConnectError) act" where
  "setup_finish os udp_todos =
     act_bind (act_get net_todos) (\<lambda>todos.
     act_bind (collect_todos (finish_net os) 0 todos) (\<lambda>net_exts.
     act_bind (collect_todos (finish_udp os) 0 udp_todos) (\<lambda>udp_exts.
     act_get (\<lambda>s. \<lparr>delayed_messages = [], undelayed_messages = ss_delayed s,
       net_endpoint_store = \<lparr>endpoint_exts = net_exts, polled_undrained = net_polled_undrained s\<rparr>,
       udp_endpoint_store = \<lparr>endpoint_exts = udp_exts, polled_undrained = \<lparr>vec = []\<rparr>\<rparr>\<rparr>))))"

definition all_targets :: "nat \<Rightarrow> nat \<Rightarrow> TokenTarget list" where
  "all_targets n_net n_udp = map (\<lambda>i. TokenNetEndpoint (of_nat i)) [0 ..< n_net] @ map (\<lambda>i. TokenUdpEndpoint (of_nat i)) [0 ..< n_udp]"

definition setup_endpoints_and_pair_ports :: "nat \<Rightarrow> 'w Net \<Rightarrow> 'w Os \<Rightarrow> NetEndpointSetup list \<Rightarrow> UdpEndpointSetup list \<Rightarrow> nat option \<Rightarrow>
    ('w SetupState, EndpointManager, ConnectError) act" where
  "setup_endpoints_and_pair_ports fuel net os net_setups udp_setups dl =
     act_bind (os_call (poll_new os)) (\<lambda>ok.
     if \<not> ok then act_err PollInitFailed
     else act_bind (os_call (clock_now net)) (\<lambda>t.
     act_bind (act_modify (\<lambda>s. s\<lparr>last_retry_at := t\<rparr>)) (\<lambda>_.
     act_bind (collect_todos (new_net_todo os) 0 net_setups) (\<lambda>todos.
     act_bind (collect_todos (new_udp_todo os) 0 udp_setups) (\<lambda>udp_todos.
     act_bind (act_modify (\<lambda>s. s\<lparr>net_todos := todos,
         setup_incomplete := all_targets (length todos) (length udp_todos)\<rparr>)) (\<lambda>_.
     act_bind (setup_loop fuel net os udp_todos dl) (\<lambda>_.
     setup_finish os udp_todos)))))))"

definition setup_init :: "PortInfoMap \<Rightarrow> 'w \<Rightarrow> 'w SetupState" where
  "setup_init m w = \<lparr>ss_world = w, ss_port_info = m, net_todos = [], net_connect_to_retry = [], setup_incomplete = [],
     net_polled_undrained = \<lparr>vec = []\<rparr>, ss_delayed = [], last_retry_at = 0\<rparr>"

end
