(* ===== verification/Consensus_Tree.thy ===== *)
theory Consensus_Tree
  imports Setup
begin

text \<open>
  Leader election and the construction of the consensus tree (\<open>init_neighborhood\<close> of
  \<open>src/runtime/setup.rs\<close>), as one connector performs it: an echo algorithm with
  extinction that elects the connector with the greatest identifier, followed by the
  announcement of the leader along a tree.
\<close>

record WaveState =
  ws_parent :: "nat option"
  ws_leader :: u32

definition wave_msg :: "u32 \<Rightarrow> Msg" where
  "wave_msg leader = SetupMsg (LeaderWave leader)"

text \<open>One iteration of the loop of \<open>do_wave\<close>, and the loop; the result is \<open>awaiting\<close>.\<close>

fun do_wave_loop :: "'w Net \<Rightarrow> WaveState \<Rightarrow> nat list \<Rightarrow> nat hash_set \<Rightarrow> ('w NetState, nat hash_set, ConnectError) act" where
  "do_wave_loop net ws [] awaiting = act_ret awaiting"
| "do_wave_loop net ws (index # it) awaiting =
     (if Some index \<noteq> ws_parent ws
      then act_bind (send_to_setup net index (wave_msg (ws_leader ws))) (\<lambda>_. do_wave_loop net ws it (hs_insert index awaiting))
      else do_wave_loop net ws it awaiting)"

definition do_wave :: "'w Net \<Rightarrow> WaveState \<Rightarrow> ('w NetState, nat hash_set, ConnectError) act" where
  "do_wave net ws = act_bind (act_get (\<lambda>s. index_iter (em s))) (\<lambda>it. do_wave_loop net ws it [])"

definition delay_msg :: "nat \<Rightarrow> Msg \<Rightarrow> ('w NetState, unit, ConnectError) act" where
  "delay_msg index msg = act_modify (\<lambda>s. s\<lparr>em := (em s)\<lparr>delayed_messages := delayed_messages (em s) @ [(index, msg)]\<rparr>\<rparr>)"

datatype ElectionStep = Elected WaveState | Continue WaveState "nat hash_set"

text \<open>What one message of the election leads to.\<close>

definition election_wave :: "'w Net \<Rightarrow> WaveState \<Rightarrow> nat hash_set \<Rightarrow> nat \<Rightarrow> u32 \<Rightarrow> ('w NetState, ElectionStep, ConnectError) act" where
  "election_wave net best_wave awaiting recv_index wave_leader =
     (if wave_leader < ws_leader best_wave then act_ret (Continue best_wave awaiting)
      else if wave_leader > ws_leader best_wave then
        let ws = \<lparr>ws_parent = Some recv_index, ws_leader = wave_leader\<rparr> in
        act_bind (do_wave net ws) (\<lambda>awaiting'.
        act_bind (if awaiting' = [] then send_to_setup net recv_index (wave_msg wave_leader) else act_ret ()) (\<lambda>_.
        act_ret (Continue ws awaiting')))
      else if recv_index \<notin> set awaiting then act_panic
      else
        let awaiting' = hs_remove recv_index awaiting in
        if awaiting' = [] then
          (case ws_parent best_wave of
             Some p \<Rightarrow> act_bind (send_to_setup net p (wave_msg wave_leader)) (\<lambda>_. act_ret (Continue best_wave awaiting'))
           | None \<Rightarrow> act_ret (Elected best_wave))
        else act_ret (Continue best_wave awaiting'))"

definition election_step :: "nat \<Rightarrow> 'w Net \<Rightarrow> u32 \<Rightarrow> nat option \<Rightarrow> WaveState \<Rightarrow> nat hash_set \<Rightarrow>
    ('w NetState, ElectionStep, ConnectError) act" where
  "election_step fuel net cid dl best_wave awaiting =
     act_bind (try_recv_any_setup fuel net dl) (\<lambda>(recv_index, msg). case msg of
       SetupMsg (LeaderAnnounce tree_leader) \<Rightarrow>
         act_bind (act_assert (tree_leader \<ge> ws_leader best_wave)) (\<lambda>_.
         act_bind (act_assert (tree_leader \<noteq> cid)) (\<lambda>_.
         act_ret (Elected \<lparr>ws_parent = Some recv_index, ws_leader = tree_leader\<rparr>)))
     | SetupMsg (LeaderWave wave_leader) \<Rightarrow> election_wave net best_wave awaiting recv_index wave_leader
     | SetupMsg YouAreMyParent \<Rightarrow> act_err SetupAlgMisbehavior
     | SetupMsg (MyPortInfo _) \<Rightarrow> act_err SetupAlgMisbehavior
     | CommMsg c \<Rightarrow> act_bind (delay_msg recv_index (CommMsg c)) (\<lambda>_. act_ret (Continue best_wave awaiting)))"

fun election_loop :: "nat \<Rightarrow> 'w Net \<Rightarrow> u32 \<Rightarrow> nat option \<Rightarrow> WaveState \<Rightarrow> nat hash_set \<Rightarrow>
    ('w NetState, WaveState, ConnectError) act" where
  "election_loop 0 net cid dl best_wave awaiting s = (OutOfFuel, s)"
| "election_loop (Suc fuel) net cid dl best_wave awaiting s =
     act_bind (election_step fuel net cid dl best_wave awaiting) (\<lambda>r. case r of
       Elected ws \<Rightarrow> act_ret ws
     | Continue ws awaiting' \<Rightarrow> election_loop fuel net cid dl ws awaiting') s"

text \<open>The messages that start the construction of the tree; the result is \<open>awaiting\<close>.\<close>

fun announce_leader :: "'w Net \<Rightarrow> WaveState \<Rightarrow> nat list \<Rightarrow> nat hash_set \<Rightarrow> ('w NetState, nat hash_set, ConnectError) act" where
  "announce_leader net ws [] awaiting = act_ret awaiting"
| "announce_leader net ws (index # it) awaiting =
     (if Some index = ws_parent ws
      then act_bind (send_to_setup net index (SetupMsg YouAreMyParent)) (\<lambda>_. announce_leader net ws it awaiting)
      else act_bind (send_to_setup net index (SetupMsg (LeaderAnnounce (ws_leader ws)))) (\<lambda>_.
           announce_leader net ws it (hs_insert index awaiting)))"

fun tree_loop :: "nat \<Rightarrow> 'w Net \<Rightarrow> nat option \<Rightarrow> nat hash_set \<Rightarrow> nat list \<Rightarrow> ('w NetState, nat list, ConnectError) act" where
  "tree_loop fuel net dl [] childs s = (Ok childs, s)"
| "tree_loop 0 net dl (a # awaiting) childs s = (OutOfFuel, s)"
| "tree_loop (Suc fuel) net dl (a # awaiting) childs s =
     act_bind (try_recv_any_setup fuel net dl) (\<lambda>(recv_index, msg). case msg of
       SetupMsg (LeaderAnnounce _) \<Rightarrow>
         if recv_index \<in> set (a # awaiting)
         then tree_loop fuel net dl (hs_remove recv_index (a # awaiting)) childs
         else act_err SetupAlgMisbehavior
     | SetupMsg YouAreMyParent \<Rightarrow>
         if recv_index \<in> set (a # awaiting)
         then tree_loop fuel net dl (hs_remove recv_index (a # awaiting)) (childs @ [recv_index])
         else act_err SetupAlgMisbehavior
     | SetupMsg (MyPortInfo _) \<Rightarrow> tree_loop fuel net dl (a # awaiting) childs
     | SetupMsg (LeaderWave _) \<Rightarrow> tree_loop fuel net dl (a # awaiting) childs
     | CommMsg c \<Rightarrow> act_bind (delay_msg recv_index (CommMsg c)) (\<lambda>_. tree_loop fuel net dl (a # awaiting) childs)) s"

definition init_neighborhood :: "nat \<Rightarrow> 'w Net \<Rightarrow> u32 \<Rightarrow> nat option \<Rightarrow> ('w NetState, Neighborhood, ConnectError) act" where
  "init_neighborhood fuel net cid dl =
     act_bind (act_get (\<lambda>s. num_net_endpoints (em s))) (\<lambda>n.
     if n = 0 then act_ret \<lparr>parent = None, children = VecSet_new []\<rparr>
     else
       let ws0 = \<lparr>ws_parent = None, ws_leader = cid\<rparr> in
       act_bind (do_wave net ws0) (\<lambda>awaiting.
       act_bind (act_modify (\<lambda>s. s\<lparr>em := undelay_all (em s)\<rparr>)) (\<lambda>_.
       act_bind (election_loop fuel net cid dl ws0 awaiting) (\<lambda>ws.
       act_bind (act_get (\<lambda>s. index_iter (em s))) (\<lambda>it.
       act_bind (announce_leader net ws it []) (\<lambda>awaiting'.
       act_bind (act_modify (\<lambda>s. s\<lparr>em := undelay_all (em s)\<rparr>)) (\<lambda>_.
       act_bind (tree_loop fuel net dl awaiting' []) (\<lambda>childs.
       act_ret \<lparr>parent = ws_parent ws, children = VecSet_new childs\<rparr>))))))))"

section \<open>Connecting\<close>

text \<open>
  \<open>connect_inner\<close> works on a copy of the connector, which replaces it on success.
\<close>

definition connect_inner :: "nat \<Rightarrow> 'w Net \<Rightarrow> 'w Os \<Rightarrow> 's ConnectorUnphased \<Rightarrow> ConnectorSetup \<Rightarrow> nat option \<Rightarrow>
    ('w, 's Connector, ConnectError) act" where
  "connect_inner fuel net os cu setup0 timeout w =
     (let (dl, w0) = (case timeout of None \<Rightarrow> (None, w)
          | Some to \<Rightarrow> let (t, w1) = clock_now net w in (Some (t + to), w1));
          (r, ss) = setup_endpoints_and_pair_ports fuel net os (net_endpoint_setups setup0) (udp_endpoint_setups setup0) dl
             (setup_init (port_info (cu_ips cu)) w0) in
      case r of
        Err e \<Rightarrow> (Err e, ss_world ss)
      | Panic \<Rightarrow> (Panic, ss_world ss)
      | OutOfFuel \<Rightarrow> (OutOfFuel, ss_world ss)
      | Ok m \<Rightarrow>
          (let (r', s) = init_neighborhood fuel net (idm_connector_id (id_manager (cu_ips cu))) dl \<lparr>world = ss_world ss, em = m\<rparr> in
           case r' of
             Err e \<Rightarrow> (Err e, world s)
           | Panic \<Rightarrow> (Panic, world s)
           | OutOfFuel \<Rightarrow> (OutOfFuel, world s)
           | Ok nbh \<Rightarrow>
               (Ok \<lparr>unphased = cu\<lparr>cu_ips := (cu_ips cu)\<lparr>port_info := ss_port_info ss\<rparr>\<rparr>,
                    phased = PhCommunication \<lparr>round_index = 0, endpoint_manager = em s, neighborhood = nbh,
                      native_batches = [NativeBatch_default], round_result = Inr None\<rparr>\<rparr>, world s)))"

definition connect :: "nat \<Rightarrow> 'w Net \<Rightarrow> 'w Os \<Rightarrow> nat option \<Rightarrow> ('s Connector \<times> 'w, unit, ConnectError) act" where
  "connect fuel net os timeout = (\<lambda>(c, w).
     case phased c of
       PhCommunication _ \<Rightarrow> (Err AlreadyConnected, c, w)
     | PhSetup setup0 \<Rightarrow>
         (case connect_inner fuel net os (unphased c) setup0 timeout w of
            (Ok connected, w') \<Rightarrow> (Ok (), connected, w')
          | (Err e, w') \<Rightarrow> (Err e, c, w')
          | (Panic, w') \<Rightarrow> (Panic, c, w')
          | (OutOfFuel, w') \<Rightarrow> (OutOfFuel, c, w')))"

end
