(* ===== verification/Setup_Invariant.thy ===== *)
theory Setup_Invariant
  imports Setup
begin

text \<open>
  What the setup of the endpoints does to the port table: known ports keep their owner,
  polarity and route, learned ports are entered consistently, and when the loop is over
  every network port knows its peer. The peers that answer are assumed to be honest about
  the owners of their ports and to have other connector identifiers (the source asks the
  callers for unique connector identifiers).
\<close>

section \<open>What the network delivers\<close>

text \<open>
  One call into the outside world, of those that the setup makes. What may arrive is stated
  for the worlds that such calls lead to.
\<close>

inductive world_call :: "'w Net \<Rightarrow> 'w Os \<Rightarrow> 'w \<Rightarrow> 'w \<Rightarrow> bool" for net os where
  "world_call net os w (snd (clock_now net w))"
| "world_call net os w (snd (stream_read net h w))"
| "serialize net (SetupMsg m) = Some bytes \<Longrightarrow> world_call net os w (snd (stream_write net h bytes w))"
| "world_call net os w (snd (poll_new os w))"
| "world_call net os w (snd (poll_register os src token interest w))"
| "world_call net os w (snd (poll_deregister os src w))"
| "world_call net os w (snd (poll_reregister os src token interest w))"
| "world_call net os w (snd (poll_setup os t w))"
| "world_call net os w (snd (tcp_connect os addr w))"
| "world_call net os w (snd (tcp_bind os addr w))"
| "world_call net os w (snd (tcp_accept os h w))"
| "world_call net os w (snd (udp_bind os addr w))"
| "world_call net os w (snd (udp_connect os h addr w))"

abbreviation worlds :: "'w Net \<Rightarrow> 'w Os \<Rightarrow> 'w \<Rightarrow> 'w \<Rightarrow> bool" where
  "worlds net os \<equiv> (world_call net os)\<^sup>*\<^sup>*"

text \<open>
  The endpoints with the bytes that they may hold: nothing at first, then what is left by
  receiving; a new connection keeps the bytes of the old one.
\<close>

inductive received :: "'w Net \<Rightarrow> 'w Os \<Rightarrow> 'w \<Rightarrow> NetEndpoint \<Rightarrow> bool" for net os w0 where
  start: "ne_inbox ne = [] \<Longrightarrow> received net os w0 ne"
| recv: "received net os w0 ne \<Longrightarrow> worlds net os w0 w \<Longrightarrow> try_recv fuel net ne w = (r, ne', w') \<Longrightarrow>
    received net os w0 ne'"
| retry: "received net os w0 ne \<Longrightarrow> worlds net os w0 w \<Longrightarrow> tcp_connect os addr w = (Some h, w') \<Longrightarrow>
    received net os w0 (ne\<lparr>ne_stream := h\<rparr>)"

text \<open>A peer may present this port: some endpoint receives it in some world that the setup can reach.\<close>

definition delivers :: "'w Net \<Rightarrow> 'w Os \<Rightarrow> 'w \<Rightarrow> MyPortInfo \<Rightarrow> bool" where
  "delivers net os w0 pi \<longleftrightarrow> (\<exists>fuel ne w ne' w'. received net os w0 ne \<and> worlds net os w0 w \<and>
     try_recv fuel net ne w = (Ok (Some (SetupMsg (MyPortInfo pi))), ne', w'))"

lemma worlds_call:
  assumes "worlds net os w0 w"
  shows "worlds net os w0 (snd (clock_now net w))" "worlds net os w0 (snd (stream_read net h w))"
    "worlds net os w0 (snd (poll_new os w))" "worlds net os w0 (snd (poll_register os src token interest w))"
    "worlds net os w0 (snd (poll_deregister os src w))" "worlds net os w0 (snd (poll_reregister os src token interest w))"
    "worlds net os w0 (snd (poll_setup os t w))" "worlds net os w0 (snd (tcp_connect os addr w))"
    "worlds net os w0 (snd (tcp_bind os addr w))" "worlds net os w0 (snd (tcp_accept os h w))"
    "worlds net os w0 (snd (udp_bind os addr w))" "worlds net os w0 (snd (udp_connect os h addr w))"
  using assms by (blast intro: rtranclp.rtrancl_into_rtrancl world_call.intros)+

lemma worlds_send:
  assumes "worlds net os w0 w" "net_endpoint_send net ne (SetupMsg m) w = (r, w')"
  shows "worlds net os w0 w'"
proof (cases "serialize net (SetupMsg m)")
  case (Some bytes)
  have "worlds net os w0 (snd (stream_write net (ne_stream ne) bytes w))"
    using assms(1) world_call.intros(3) [OF Some] by (rule rtranclp.rtrancl_into_rtrancl)
  with assms Some show ?thesis by (auto simp: net_endpoint_send_def split: if_splits prod.splits bool.splits)
qed (use assms in \<open>simp add: net_endpoint_send_def\<close>)

lemma worlds_read_loop:
  "worlds net os w0 w \<Longrightarrow> read_loop fuel net h inbx w = (r, inbx', w') \<Longrightarrow> worlds net os w0 w'"
proof (induction fuel arbitrary: inbx w)
  case (Suc fuel)
  have next_w: "worlds net os w0 w1" if "stream_read net h w = (x, w1)" for x w1
    using worlds_call(2) [OF Suc.prems(1), of h] that by simp
  obtain bytes outcome w1 where read: "stream_read net h w = ((bytes, outcome), w1)" by (metis prod_cases3 surj_pair)
  from next_w [OF read] Suc read show ?case by (cases outcome) (auto split: if_splits)
qed simp

lemma worlds_try_recv: "worlds net os w0 w \<Longrightarrow> try_recv fuel net ne w = (r, ne', w') \<Longrightarrow> worlds net os w0 w'"
  by (auto simp: try_recv_def split: prod.splits res.splits Deserialized.splits dest: worlds_read_loop)

section \<open>The invariant\<close>

definition peer_info_ok :: "(PortId \<Rightarrow> ComponentId) \<Rightarrow> IdAndPortState \<Rightarrow> MyPortInfo \<Rightarrow> bool" where
  "peer_info_ok own ips pi \<longleftrightarrow> mpi_owner pi = own (mpi_port pi) \<and>
     (mpi_port pi \<in> dom (info_of (port_info ips)) \<or>
      fst (id_parts (mpi_port pi)) \<noteq> idm_connector_id (id_manager ips) \<and>
      (\<forall>i. mpi_owner pi = ComponentId i \<longrightarrow> connector_id i \<noteq> idm_connector_id (id_manager ips)))"

text \<open>
  The assumption on the peers, for a setup that starts in the world \<open>w0\<close>: every port has one
  owner \<open>own\<close>, and a peer that presents a port names its owner; a port of this connector is
  presented only if the connector knows it already. Peers that run this code under other
  connector identifiers behave so, and the documentation of \<open>Connector::new\<close> says that
  correctness requires such identifiers.
\<close>

definition peers_honest :: "(PortId \<Rightarrow> ComponentId) \<Rightarrow> IdAndPortState \<Rightarrow> 'w Net \<Rightarrow> 'w Os \<Rightarrow> 'w \<Rightarrow> bool" where
  "peers_honest own ips net os w0 \<longleftrightarrow>
     (\<forall>p info. info_of (port_info ips) p = Some info \<longrightarrow> own p = owner info) \<and>
     (\<forall>pi. delivers net os w0 pi \<longrightarrow> peer_info_ok own ips pi)"

definition table_ok :: "(PortId \<Rightarrow> ComponentId) \<Rightarrow> IdAndPortState \<Rightarrow> PortInfoMap \<Rightarrow> bool" where
  "table_ok own ips m \<longleftrightarrow> ips_base (ips\<lparr>port_info := m\<rparr>) \<and> (\<forall>p info. info_of m p = Some info \<longrightarrow> own p = owner info)"

text \<open>Peers are only ever added.\<close>

definition ports_kept :: "PortInfoMap \<Rightarrow> PortInfoMap \<Rightarrow> bool" where
  "ports_kept m m' \<longleftrightarrow> (\<forall>p info. info_of m p = Some info \<longrightarrow>
     (\<exists>info'. info_of m' p = Some info' \<and> owner info' = owner info \<and> polarity info' = polarity info \<and>
        route info' = route info \<and> (peer info \<noteq> None \<longrightarrow> peer info' \<noteq> None)))"

definition has_peer :: "PortInfoMap \<Rightarrow> PortId \<Rightarrow> bool" where
  "has_peer m p \<longleftrightarrow> (\<exists>info. info_of m p = Some info \<and> peer info \<noteq> None)"

definition new_ports_paired :: "PortInfoMap \<Rightarrow> PortInfoMap \<Rightarrow> bool" where
  "new_ports_paired m m' \<longleftrightarrow> (\<forall>p \<in> dom (info_of m'). p \<notin> dom (info_of m) \<longrightarrow> has_peer m' p)"

lemma ports_kept_refl [simp]: "ports_kept m m"
  by (simp add: ports_kept_def)

lemma ports_keptD:
  assumes "ports_kept m m'" "info_of m p = Some info"
  obtains info' where "info_of m' p = Some info'" "owner info' = owner info" "polarity info' = polarity info"
    "route info' = route info" "peer info \<noteq> None \<Longrightarrow> peer info' \<noteq> None"
  using assms unfolding ports_kept_def by blast

lemma ports_kept_trans:
  assumes "ports_kept m m'" "ports_kept m' m''"
  shows "ports_kept m m''"
  unfolding ports_kept_def
proof (intro allI impI)
  fix p info
  assume "info_of m p = Some info"
  with assms(1) obtain i where i: "info_of m' p = Some i" "owner i = owner info" "polarity i = polarity info"
    "route i = route info" "peer info \<noteq> None \<Longrightarrow> peer i \<noteq> None" by (rule ports_keptD) blast
  from assms(2) i(1) obtain j where "info_of m'' p = Some j" "owner j = owner i" "polarity j = polarity i"
    "route j = route i" "peer i \<noteq> None \<Longrightarrow> peer j \<noteq> None" by (rule ports_keptD) blast
  with i show "\<exists>j. info_of m'' p = Some j \<and> owner j = owner info \<and> polarity j = polarity info \<and>
      route j = route info \<and> (peer info \<noteq> None \<longrightarrow> peer j \<noteq> None)" by simp
qed

lemma has_peer_kept: "has_peer m p \<Longrightarrow> ports_kept m m' \<Longrightarrow> has_peer m' p"
  unfolding has_peer_def ports_kept_def by metis

lemma new_ports_paired_trans:
  "new_ports_paired m m' \<Longrightarrow> ports_kept m' m'' \<Longrightarrow> new_ports_paired m' m'' \<Longrightarrow> new_ports_paired m m''"
  unfolding new_ports_paired_def by (meson has_peer_kept)

lemma learn_peer_spec:
  assumes learn: "learn_peer index getter pi m = Some m'"
    and ok: "table_ok own ips m" and known: "ports_kept (port_info ips) m" and pi: "peer_info_ok own ips pi"
  shows "table_ok own ips m'" "ports_kept m m'" "new_ports_paired m m'" "has_peer m' getter"
proof -
  obtain info where info: "info_of m getter = Some info"
    using learn by (auto simp: learn_peer_def bind_eq_Some_conv)
  define m1 where "m1 = insert_port getter (info\<lparr>peer := Some (mpi_port pi)\<rparr>) m"
  define m2 where "m2 = owned_extend (mpi_owner pi) [mpi_port pi] m1"
  have m': "m' = (if info_of m1 (mpi_port pi) = None
      then insert_port (mpi_port pi) \<lparr>owner = mpi_owner pi, peer = Some getter, polarity = mpi_polarity pi, route = NetEndpoint index\<rparr> m2
      else m2)"
    using learn info by (simp add: learn_peer_def m1_def m2_def Let_def split: if_splits) auto
  have t: "tables_wf m" "ownership_ok m" "ids_ok (ips\<lparr>port_info := m\<rparr>)"
    and own: "\<And>p info. info_of m p = Some info \<Longrightarrow> own p = owner info"
    using ok by (simp_all add: table_ok_def ips_base_def)
  show kept: "ports_kept m m'"
    using info by (auto simp: ports_kept_def m' m2_def m1_def table_simps)
  show "new_ports_paired m m'" "has_peer m' getter"
    using info by (auto simp: new_ports_paired_def has_peer_def m' m2_def m1_def table_simps split: if_splits)
  have own': "own p = owner i" if "info_of m' p = Some i" for p i
    using that own info pi by (auto simp: m' m2_def m1_def table_simps peer_info_ok_def split: if_splits)
  have dom: "mpi_port pi \<in> dom (info_of m')"
    by (auto simp: m' m2_def m1_def table_simps)
  have o1: "ownership_ok m1"
    using t(2) info unfolding ownership_ok_def m1_def by (auto simp: table_simps split: if_splits)
  have o2: "ownership_ok m'"
  proof (cases "info_of m1 (mpi_port pi)")
    case None
    then show ?thesis using o1 unfolding ownership_ok_def m' m2_def by (auto simp: table_simps split: if_splits)
  next
    case (Some i)
    have "owner i = mpi_owner pi"
      using Some own info pi by (auto simp: m1_def table_simps peer_info_ok_def split: if_splits)
    with Some o1 show ?thesis unfolding ownership_ok_def m' m2_def by (auto simp: table_simps split: if_splits)
  qed
  have known_pi: "mpi_port pi \<in> dom (info_of m)" "mpi_owner pi \<in> dom (map_of (owned m))"
    if d: "mpi_port pi \<in> dom (info_of (port_info ips))"
  proof -
    obtain i0 where "info_of (port_info ips) (mpi_port pi) = Some i0" using d by blast
    then obtain i where i: "info_of m (mpi_port pi) = Some i"
      using known unfolding ports_kept_def by blast
    then show "mpi_port pi \<in> dom (info_of m)" by blast
    have "mpi_owner pi = owner i" using own [OF i] pi by (simp add: peer_info_ok_def)
    then have "mpi_port pi \<in> set (ports_owned_by m (mpi_owner pi))"
      using t(2) i unfolding ownership_ok_def by metis
    then show "mpi_owner pi \<in> dom (map_of (owned m))"
      by (cases "map_of (owned m) (mpi_owner pi)") (auto simp: ports_owned_by_def)
  qed
  have "dom (info_of m') = insert (mpi_port pi) (dom (info_of m))"
    using info by (auto simp: m' m2_def m1_def table_simps split: if_splits)
  moreover have "dom (map_of (owned m')) = insert (mpi_owner pi) (dom (map_of (owned m)))"
    by (auto simp: m' m2_def m1_def owned_extend_def insert_port_def update_conv' split: if_splits)
  ultimately have doms: "p \<in> dom (info_of m') \<Longrightarrow> p \<noteq> mpi_port pi \<Longrightarrow> p \<in> dom (info_of m)"
    "c \<in> dom (map_of (owned m')) \<Longrightarrow> c \<noteq> mpi_owner pi \<Longrightarrow> c \<in> dom (map_of (owned m))" for p c
    by blast+
  have "ids_ok (ips\<lparr>port_info := m'\<rparr>)"
    unfolding ids_ok_def
  proof (intro conjI ballI allI impI)
    fix p
    assume p: "p \<in> dom (info_of (port_info (ips\<lparr>port_info := m'\<rparr>)))" "fst (id_parts p) = idm_connector_id (id_manager (ips\<lparr>port_info := m'\<rparr>))"
    then have "p \<in> dom (info_of m)"
      using doms(1) known_pi(1) pi unfolding peer_info_ok_def by (cases "p = mpi_port pi") auto
    with t(3) p(2) show "port_allocated (id_manager (ips\<lparr>port_info := m'\<rparr>)) p" by (simp add: ids_ok_def)
  next
    fix i
    assume i: "ComponentId i \<in> dom (map_of (owned (port_info (ips\<lparr>port_info := m'\<rparr>))))"
      "connector_id i = idm_connector_id (id_manager (ips\<lparr>port_info := m'\<rparr>))"
    then have "ComponentId i \<in> dom (map_of (owned m))"
      using doms(2) known_pi(2) pi unfolding peer_info_ok_def by (cases "ComponentId i = mpi_owner pi") auto
    with t(3) i(2) show "component_allocated (id_manager (ips\<lparr>port_info := m'\<rparr>)) (ComponentId i)" by (simp add: ids_ok_def)
  qed
  moreover have "tables_wf m'" using t(1) by (simp add: m' m2_def m1_def table_simps)
  ultimately show "table_ok own ips m'"
    using o2 own' by (simp add: table_ok_def ips_base_def)
qed

text \<open>
  The port \<open>g\<close> has the peer that a message from the network named, of the other polarity,
  and the table knows this peer.
\<close>

definition paired_with :: "'w Net \<Rightarrow> 'w Os \<Rightarrow> 'w \<Rightarrow> PortInfoMap \<Rightarrow> PortId \<Rightarrow> bool" where
  "paired_with net os w0 m g \<longleftrightarrow> (\<exists>info pi. info_of m g = Some info \<and> delivers net os w0 pi \<and>
     peer info = Some (mpi_port pi) \<and> mpi_polarity pi \<noteq> polarity info \<and> mpi_port pi \<in> dom (info_of m))"

text \<open>
  The table after learning: only network ports have changed, and each port that is new
  was presented by the peer at one of the endpoints, with this owner and polarity; it is
  reached through this endpoint, and its peer is the network port of the endpoint.
\<close>

definition ports_learned :: "'w Net \<Rightarrow> 'w Os \<Rightarrow> 'w \<Rightarrow> NetEndpointSetup list \<Rightarrow> PortInfoMap \<Rightarrow> PortInfoMap \<Rightarrow> bool" where
  "ports_learned net os w0 setups m0 m \<longleftrightarrow>
     (\<forall>p \<in> dom (info_of m0). p \<notin> nes_getter_for_incoming ` set setups \<longrightarrow> info_of m p = info_of m0 p) \<and>
     (\<forall>p info. p \<notin> dom (info_of m0) \<longrightarrow> info_of m p = Some info \<longrightarrow>
        (\<exists>pi i. delivers net os w0 pi \<and> mpi_port pi = p \<and> i < length setups \<and>
           owner info = mpi_owner pi \<and> polarity info = mpi_polarity pi \<and> route info = NetEndpoint i \<and>
           (p \<notin> nes_getter_for_incoming ` set setups \<longrightarrow> peer info = Some (nes_getter_for_incoming (setups ! i)))))"

lemma paired_with_has_peer: "paired_with net os w0 m g \<Longrightarrow> has_peer m g"
  by (auto simp: paired_with_def has_peer_def)

lemma info_of_learn_peer:
  assumes "learn_peer index getter pi m = Some m'"
  obtains info where "info_of m getter = Some info"
    "\<And>p. info_of m' p = (if p = getter then Some (info\<lparr>peer := Some (mpi_port pi)\<rparr>)
       else if p = mpi_port pi \<and> info_of m p = None then
         Some \<lparr>owner = mpi_owner pi, peer = Some getter, polarity = mpi_polarity pi, route = NetEndpoint index\<rparr>
       else info_of m p)"
proof -
  obtain info where info: "info_of m getter = Some info"
    using assms by (auto simp: learn_peer_def bind_eq_Some_conv)
  define m1 where "m1 = insert_port getter (info\<lparr>peer := Some (mpi_port pi)\<rparr>) m"
  have m': "m' = (if info_of m1 (mpi_port pi) = None
      then insert_port (mpi_port pi) \<lparr>owner = mpi_owner pi, peer = Some getter, polarity = mpi_polarity pi, route = NetEndpoint index\<rparr>
        (owned_extend (mpi_owner pi) [mpi_port pi] m1)
      else owned_extend (mpi_owner pi) [mpi_port pi] m1)"
    using assms info by (simp add: learn_peer_def m1_def Let_def split: if_splits) auto
  show thesis
    by (rule that [OF info]) (auto simp: m' m1_def table_simps)
qed

lemma paired_with_learn:
  assumes learn: "learn_peer index getter pi m = Some m'" and pi: "delivers net os w0 pi"
    and pol: "\<And>info. info_of m getter = Some info \<Longrightarrow> mpi_polarity pi \<noteq> polarity info"
  shows "paired_with net os w0 m' getter" "paired_with net os w0 m g \<Longrightarrow> paired_with net os w0 m' g"
proof -
  obtain info where info: "info_of m getter = Some info"
    and m': "\<And>p. info_of m' p = (if p = getter then Some (info\<lparr>peer := Some (mpi_port pi)\<rparr>)
       else if p = mpi_port pi \<and> info_of m p = None then
         Some \<lparr>owner = mpi_owner pi, peer = Some getter, polarity = mpi_polarity pi, route = NetEndpoint index\<rparr>
       else info_of m p)"
    by (rule info_of_learn_peer [OF learn]) blast
  have dom: "mpi_port pi \<in> dom (info_of m')" "q \<in> dom (info_of m) \<Longrightarrow> q \<in> dom (info_of m')" for q
    by (auto simp: m' dom_def)
  have "info_of m' getter = Some (info\<lparr>peer := Some (mpi_port pi)\<rparr>)" by (simp add: m')
  then show getter: "paired_with net os w0 m' getter"
    unfolding paired_with_def
    by (rule_tac x = "info\<lparr>peer := Some (mpi_port pi)\<rparr>" in exI, rule_tac x = pi in exI)
      (use dom(1) pol [OF info] pi in auto)
  assume old: "paired_with net os w0 m g"
  then obtain infog pig where g: "info_of m g = Some infog" "delivers net os w0 pig" "peer infog = Some (mpi_port pig)"
      "mpi_polarity pig \<noteq> polarity infog" "mpi_port pig \<in> dom (info_of m)"
    unfolding paired_with_def by blast
  show "paired_with net os w0 m' g"
  proof (cases "g = getter")
    case False
    then have "info_of m' g = Some infog" using g(1) by (simp add: m')
    with g dom(2) show ?thesis unfolding paired_with_def by blast
  qed (use getter in simp)
qed

lemma ports_learned_learn:
  assumes learn: "learn_peer i (nes_getter_for_incoming (setups ! i)) pi m = Some m'" and pi: "delivers net os w0 pi"
    and i: "i < length setups" and old: "ports_learned net os w0 setups m0 m" and kept: "ports_kept m0 m"
  shows "ports_learned net os w0 setups m0 m'"
proof -
  let ?g = "nes_getter_for_incoming (setups ! i)" and ?G = "nes_getter_for_incoming ` set setups"
  obtain info where info: "info_of m ?g = Some info"
    and m': "\<And>p. info_of m' p = (if p = ?g then Some (info\<lparr>peer := Some (mpi_port pi)\<rparr>)
       else if p = mpi_port pi \<and> info_of m p = None then
         Some \<lparr>owner = mpi_owner pi, peer = Some ?g, polarity = mpi_polarity pi, route = NetEndpoint i\<rparr>
       else info_of m p)"
    by (rule info_of_learn_peer [OF learn]) blast
  have g: "?g \<in> ?G" using i by simp
  have "info_of m p \<noteq> None" if "p \<in> dom (info_of m0)" for p
    using kept that by (fastforce simp: ports_kept_def)
  then have same: "info_of m' p = info_of m p" if "p \<in> dom (info_of m0)" "p \<notin> ?G" for p
    using that g by (metis m')
  have "\<exists>pi' j. delivers net os w0 pi' \<and> mpi_port pi' = p \<and> j < length setups \<and> owner info' = mpi_owner pi' \<and>
      polarity info' = mpi_polarity pi' \<and> route info' = NetEndpoint j \<and>
      (p \<notin> ?G \<longrightarrow> peer info' = Some (nes_getter_for_incoming (setups ! j)))"
    if p: "p \<notin> dom (info_of m0)" "info_of m' p = Some info'" for p info'
  proof (cases "p \<noteq> ?g \<and> p = mpi_port pi \<and> info_of m p = None")
    case True
    then have "mpi_port pi = p" "p \<noteq> ?g" "info_of m p = None" by blast+
    then have "info_of m' p = Some \<lparr>owner = mpi_owner pi, peer = Some ?g, polarity = mpi_polarity pi, route = NetEndpoint i\<rparr>"
      using m' [of p] by simp
    with p(2) have "info' = \<lparr>owner = mpi_owner pi, peer = Some ?g, polarity = mpi_polarity pi, route = NetEndpoint i\<rparr>"
      by simp
    with True pi i show ?thesis by (intro exI [of _ pi] exI [of _ i]) simp
  next
    case False
    then obtain info0 where "info_of m p = Some info0" "owner info' = owner info0" "polarity info' = polarity info0"
        "route info' = route info0" "p \<notin> ?G \<Longrightarrow> peer info' = peer info0"
      using p(2) info g by (auto simp: m' split: if_splits)
    with old p(1) show ?thesis unfolding ports_learned_def by metis
  qed
  with same old show ?thesis by (auto simp: ports_learned_def)
qed

section \<open>The loop keeps it\<close>

text \<open>
  An endpoint that is not incomplete any more has received its peer's port, and then the
  table knows the peer. What an endpoint holds has been received.
\<close>

definition todo_ok :: "'w Net \<Rightarrow> 'w Os \<Rightarrow> 'w \<Rightarrow> PortInfoMap \<Rightarrow> TokenTarget hash_set \<Rightarrow> nat \<Rightarrow> NetTodo \<Rightarrow> bool" where
  "todo_ok net os w0 m incomplete i t \<longleftrightarrow>
     (recv_peer_port t \<noteq> None \<longrightarrow> paired_with net os w0 m (nes_getter_for_incoming (endpoint_setup t))) \<and>
     (TokenNetEndpoint (of_nat i) \<notin> set incomplete \<longrightarrow> recv_peer_port t \<noteq> None)"

definition endpoint_received :: "'w Net \<Rightarrow> 'w Os \<Rightarrow> 'w \<Rightarrow> NetTodoEndpoint \<Rightarrow> bool" where
  "endpoint_received net os w0 te \<longleftrightarrow> (\<forall>ne. te = PeerInfoRecving ne \<longrightarrow> received net os w0 ne)"

definition setup_ok :: "'w Net \<Rightarrow> 'w Os \<Rightarrow> 'w \<Rightarrow> (PortId \<Rightarrow> ComponentId) \<Rightarrow> IdAndPortState \<Rightarrow> NetEndpointSetup list \<Rightarrow>
    'w SetupState \<Rightarrow> bool" where
  "setup_ok net os w0 own ips setups s \<longleftrightarrow> table_ok own ips (ss_port_info s) \<and> ports_kept (port_info ips) (ss_port_info s) \<and>
     new_ports_paired (port_info ips) (ss_port_info s) \<and> ports_learned net os w0 setups (port_info ips) (ss_port_info s) \<and>
     worlds net os w0 (ss_world s) \<and> (\<forall>t \<in> set (net_todos s). endpoint_received net os w0 (todo_endpoint t)) \<and>
     map endpoint_setup (net_todos s) = setups \<and> length setups < 2 ^ 64 \<and>
     (\<forall>i < length (net_todos s). todo_ok net os w0 (ss_port_info s) (setup_incomplete s) i (net_todos s ! i)) \<and>
     (\<forall>(i, msg) \<in> set (ss_delayed s). i < length setups \<and> msg_wf msg)"

lemma setup_ok_world:
  "setup_ok net os w0 own ips setups s \<Longrightarrow> worlds net os w0 w \<Longrightarrow> setup_ok net os w0 own ips setups (s\<lparr>ss_world := w\<rparr>)"
  by (simp add: setup_ok_def)

lemma setup_ok_worlds: "setup_ok net os w0 own ips setups s \<Longrightarrow> worlds net os w0 (ss_world s)"
  by (simp add: setup_ok_def)

lemma setup_ok_frame [simp]:
  "setup_ok net os w0 own ips setups (s\<lparr>last_retry_at := t\<rparr>) = setup_ok net os w0 own ips setups s"
  "setup_ok net os w0 own ips setups (s\<lparr>net_connect_to_retry := r\<rparr>) = setup_ok net os w0 own ips setups s"
  "setup_ok net os w0 own ips setups (s\<lparr>net_polled_undrained := v\<rparr>) = setup_ok net os w0 own ips setups s"
  by (simp_all add: setup_ok_def)

lemma wp_os_call [simp, wp_rules]:
  "wp (os_call f) Q E s \<longleftrightarrow> Q (fst (f (ss_world s))) (s\<lparr>ss_world := snd (f (ss_world s))\<rparr>)"
  by (simp add: wp_def os_call_def Let_def split: prod.split)

lemma wp_os_unwrap [simp, wp_rules]:
  "wp (os_unwrap f) Q E s \<longleftrightarrow> (fst (f (ss_world s)) \<longrightarrow> Q () (s\<lparr>ss_world := snd (f (ss_world s))\<rparr>))"
  by (simp add: os_unwrap_def)

lemma wp_addr_err [simp, wp_rules]:
  "wp (addr_err f addr) Q E s \<longleftrightarrow> (\<forall>a. addr (ss_world s) = Some a \<longrightarrow> E (f a) s)"
  by (auto simp: addr_err_def wp_def split: option.split)

lemma wp_token_of [simp, wp_rules]:
  "wp (token_of t) Q E s \<longleftrightarrow> (\<forall>x. TokenTarget_into t = Some x \<longrightarrow> Q x s)"
  by (auto simp: token_of_def unwrap_def split: option.split)

text \<open>Nothing is claimed of the state after an error, which \<open>connect\<close> discards.\<close>

abbreviation wp_ok :: "('s, 'a, 'e) act \<Rightarrow> ('a \<Rightarrow> 's \<Rightarrow> bool) \<Rightarrow> 's \<Rightarrow> bool" where
  "wp_ok m Q s \<equiv> wp m Q (\<lambda>_ _. True) s"

lemma ball_update: "\<forall>x \<in> set xs. P x \<Longrightarrow> P y \<Longrightarrow> \<forall>x \<in> set (xs[i := y]). P x"
  using set_update_subset_insert [of xs i y] by blast

lemma setup_ok_set_todo:
  assumes "setup_ok net os w0 own ips setups s" "i < length (net_todos s)"
    and "endpoint_setup t = endpoint_setup (net_todos s ! i)" "recv_peer_port t = recv_peer_port (net_todos s ! i)"
    and "endpoint_received net os w0 (todo_endpoint t)"
  shows "setup_ok net os w0 own ips setups (s\<lparr>net_todos := (net_todos s)[i := t]\<rparr>)"
proof -
  have "map endpoint_setup ((net_todos s)[i := t]) = map endpoint_setup (net_todos s)"
    using assms(2,3) by (simp add: map_update list_update_same_conv)
  moreover have "\<forall>t \<in> set ((net_todos s)[i := t]). endpoint_received net os w0 (todo_endpoint t)"
    by (rule ball_update) (use assms(1,5) in \<open>simp_all add: setup_ok_def\<close>)
  ultimately show ?thesis using assms by (auto simp: setup_ok_def todo_ok_def nth_list_update)
qed

lemma setup_ok_world_todo:
  assumes "setup_ok net os w0 own ips setups s" "worlds net os w0 w" "i < length (net_todos s)"
    and "endpoint_setup t = endpoint_setup (net_todos s ! i)" "recv_peer_port t = recv_peer_port (net_todos s ! i)"
    and "endpoint_received net os w0 (todo_endpoint t)"
  shows "setup_ok net os w0 own ips setups (s\<lparr>ss_world := w, net_todos := (net_todos s)[i := t]\<rparr>)"
  using setup_ok_set_todo [of net os w0 own ips setups "s\<lparr>ss_world := w\<rparr>"] setup_ok_world [OF assms(1,2)] assms(3-) by simp

lemma wp_set_todo [simp, wp_rules]:
  "wp (set_todo i t) Q E s \<longleftrightarrow> Q () (s\<lparr>net_todos := (net_todos s)[i := t]\<rparr>)"
  by (simp add: set_todo_def)

lemma setup_ok_retry:
  assumes ok: "setup_ok net os w0 own ips setups s" and i: "i < length (net_todos s)" "todo_endpoint (net_todos s ! i) = PeerInfoRecving ne"
    and con: "fst (tcp_connect os addr (ss_world s)) = Some h"
  shows "setup_ok net os w0 own ips setups (s\<lparr>ss_world := snd (tcp_connect os addr (ss_world s)),
    net_todos := (net_todos s)[i := (net_todos s ! i)\<lparr>todo_endpoint := PeerInfoRecving (ne\<lparr>ne_stream := h\<rparr>)\<rparr>]\<rparr>)"
proof -
  have "received net os w0 ne" using ok i by (auto simp: setup_ok_def endpoint_received_def)
  moreover have "tcp_connect os addr (ss_world s) = (Some h, snd (tcp_connect os addr (ss_world s)))"
    using con by (metis prod.collapse)
  ultimately have "received net os w0 (ne\<lparr>ne_stream := h\<rparr>)"
    using setup_ok_worlds [OF ok] by (blast intro: received.retry)
  with i show ?thesis
    by (intro setup_ok_world_todo [OF ok worlds_call(8) [OF setup_ok_worlds [OF ok]]]) (simp_all add: endpoint_received_def)
qed

lemma retry_connect_ok:
  assumes "setup_ok net os w0 own ips setups s"
  shows "wp_ok (retry_connect os i) (\<lambda>_. setup_ok net os w0 own ips setups) s"
proof -
  have "setup_ok net os w0 own ips setups
      (s'\<lparr>ss_world := snd (poll_register os src token interest (ss_world s'))\<rparr>)"
    if "setup_ok net os w0 own ips setups s'" for s' src token interest
    by (rule setup_ok_world [OF that worlds_call(4) [OF setup_ok_worlds [OF that]]])
  from this [OF setup_ok_retry [OF assms]] show ?thesis
    by (auto simp: retry_connect_def Let_def split: NetTodoEndpoint.split option.split)
qed

lemma retry_all_ok:
  "setup_ok net os w0 own ips setups s \<Longrightarrow> wp_ok (retry_all net os) (\<lambda>_. setup_ok net os w0 own ips setups) s"
  by (auto simp: retry_all_def intro!: wp_for retry_connect_ok setup_ok_world worlds_call intro: setup_ok_worlds)

lemma udp_setup_event_ok:
  "setup_ok net os w0 own ips setups s \<Longrightarrow> wp_ok (udp_setup_event os udp_todos ev i) (\<lambda>_. setup_ok net os w0 own ips setups) s"
  by (auto simp: udp_setup_event_def setup_ok_def todo_ok_def)

lemma accept_step_ok:
  "setup_ok net os w0 own ips setups s \<Longrightarrow> i < length (net_todos s) \<Longrightarrow>
     wp_ok (accept_step os ev i) (\<lambda>_ s'. setup_ok net os w0 own ips setups s' \<and> length (net_todos s') = length (net_todos s)) s"
  by (auto simp: accept_step_def endpoint_received_def received.start split: NetTodoEndpoint.split AcceptOutcome.split
      intro!: setup_ok_world_todo worlds_call setup_ok_world intro: setup_ok_worlds)

lemma wp_send_local_port:
  "wp_ok (send_local_port net i ne info) Q s \<longleftrightarrow>
     (case net_endpoint_send net ne (SetupMsg (MyPortInfo \<lparr>mpi_polarity = polarity info,
         mpi_port = nes_getter_for_incoming (endpoint_setup (net_todos s ! i)), mpi_owner = owner info\<rparr>)) (ss_world s) of
        (Ok _, w) \<Rightarrow> Q () (s\<lparr>ss_world := w, net_todos := (net_todos s)[i := (net_todos s ! i)\<lparr>sent_local_port := True\<rparr>]\<rparr>)
      | _ \<Rightarrow> True)"
  by (simp add: send_local_port_def act_get_def act_bind_def wp_def set_todo_def act_modify_def split: prod.split res.split)

lemma send_local_port_ok:
  assumes "setup_ok net os w0 own ips setups s" "i < length (net_todos s)"
  shows "wp_ok (send_local_port net i ne info)
    (\<lambda>_ s'. setup_ok net os w0 own ips setups s' \<and> length (net_todos s') = length (net_todos s) \<and>
       ss_port_info s' = ss_port_info s) s"
proof -
  have "endpoint_received net os w0 (todo_endpoint (net_todos s ! i))"
    using assms by (simp add: setup_ok_def)
  with assms worlds_send [OF setup_ok_worlds [OF assms(1)], of ne] show ?thesis
    by (auto simp: wp_send_local_port split: prod.split res.split intro!: setup_ok_world_todo)
qed

lemma handle_setup_msg_ok:
  assumes ok: "setup_ok net os w0 own ips setups s" and i: "i < length (net_todos s)"
    and info: "info_of (ss_port_info s) (nes_getter_for_incoming (endpoint_setup (net_todos s ! i))) = Some info"
    and msg: "\<And>m. maybe_msg = Some m \<Longrightarrow> msg_wf m" "\<And>pi. maybe_msg = Some (SetupMsg (MyPortInfo pi)) \<Longrightarrow> delivers net os w0 pi"
    and honest: "peers_honest own ips net os w0"
  shows "wp_ok (handle_setup_msg i info maybe_msg)
    (\<lambda>_ s'. setup_ok net os w0 own ips setups s' \<and> length (net_todos s') = length (net_todos s)) s"
proof (cases "\<exists>pi. maybe_msg = Some (SetupMsg (MyPortInfo pi))")
  case True
  then obtain pi where pi: "maybe_msg = Some (SetupMsg (MyPortInfo pi))" ..
  let ?t = "net_todos s ! i"
  have "setup_ok net os w0 own ips setups (s\<lparr>net_todos := (net_todos s)[i := ?t\<lparr>recv_peer_port := Some (mpi_port pi)\<rparr>], ss_port_info := m\<rparr>)"
    if learn: "learn_peer i (nes_getter_for_incoming (endpoint_setup ?t)) pi (ss_port_info s) = Some m"
      and pol: "mpi_polarity pi \<noteq> polarity info" for m
  proof -
    have "peer_info_ok own ips pi" using msg(2) [OF pi] honest by (simp add: peers_honest_def)
    moreover have "table_ok own ips (ss_port_info s)" "ports_kept (port_info ips) (ss_port_info s)"
      using ok by (simp_all add: setup_ok_def)
    ultimately have l: "table_ok own ips m" "ports_kept (ss_port_info s) m" "new_ports_paired (ss_port_info s) m"
      using learn_peer_spec [OF learn] by blast+
    have p: "paired_with net os w0 m (nes_getter_for_incoming (endpoint_setup ?t))"
      "paired_with net os w0 (ss_port_info s) g \<Longrightarrow> paired_with net os w0 m g" for g
      using paired_with_learn [OF learn msg(2) [OF pi]] pol info by simp_all
    have setups: "i < length setups" "setups ! i = endpoint_setup ?t"
      using ok i by (auto simp: setup_ok_def)
    have "ports_learned net os w0 setups (port_info ips) m"
      using ports_learned_learn [OF _ msg(2) [OF pi] setups(1)] learn setups(2) ok by (simp add: setup_ok_def)
    moreover have "map endpoint_setup ((net_todos s)[i := ?t\<lparr>recv_peer_port := Some (mpi_port pi)\<rparr>]) = map endpoint_setup (net_todos s)"
      using i by (simp add: map_update list_update_same_conv)
    moreover have "\<forall>t \<in> set ((net_todos s)[i := ?t\<lparr>recv_peer_port := Some (mpi_port pi)\<rparr>]). endpoint_received net os w0 (todo_endpoint t)"
      by (rule ball_update) (use ok i in \<open>simp_all add: setup_ok_def\<close>)
    ultimately show ?thesis using l p ok i
      by (auto simp: setup_ok_def todo_ok_def nth_list_update intro: ports_kept_trans new_ports_paired_trans)
  qed
  then show ?thesis by (auto simp: handle_setup_msg_def pi bind_eq_Some_conv)
next
  case False
  with ok i msg(1) show ?thesis
    by (cases maybe_msg) (auto simp: handle_setup_msg_def setup_ok_def split: Msg.split SetupMsg.split)
qed

lemma try_recv_delivers:
  "try_recv fuel net ne w = (Ok (Some (SetupMsg (MyPortInfo pi))), ne', w') \<Longrightarrow> received net os w0 ne \<Longrightarrow>
     worlds net os w0 w \<Longrightarrow> delivers net os w0 pi"
  unfolding delivers_def by blast

lemma recv_setup_msg_ok:
  assumes ok: "setup_ok net os w0 own ips setups s" and i: "i < length (net_todos s)" and net: "net_wf net" "peers_honest own ips net os w0"
    and info: "info_of (ss_port_info s) (nes_getter_for_incoming (endpoint_setup (net_todos s ! i))) = Some info"
  shows "wp_ok (recv_setup_msg fuel net i info)
    (\<lambda>_ s'. setup_ok net os w0 own ips setups s' \<and> length (net_todos s') = length (net_todos s)) s"
proof (cases "todo_endpoint (net_todos s ! i)")
  case (PeerInfoRecving ne)
  let ?t = "net_todos s ! i"
  obtain r ne' w where recv: "try_recv fuel net ne (ss_world s) = (r, ne', w)" by (metis prod_cases3)
  show ?thesis
  proof (cases r)
    case (Ok m)
    define s1 where "s1 = s\<lparr>ss_world := w, net_todos := (net_todos s)[i := ?t\<lparr>todo_endpoint := PeerInfoRecving ne'\<rparr>]\<rparr>"
    define s2 where "s2 = (if m \<noteq> None \<and> ne_inbox ne' \<noteq> []
        then s1\<lparr>net_polled_undrained := snd (VecSet_insert i (net_polled_undrained s1))\<rparr> else s1)"
    have got: "received net os w0 ne" "worlds net os w0 (ss_world s)"
      using ok i PeerInfoRecving by (auto simp: setup_ok_def endpoint_received_def)
    have "received net os w0 ne'" "worlds net os w0 w"
      using received.recv [OF got recv] worlds_try_recv [OF got(2) recv] by simp_all
    with i have "setup_ok net os w0 own ips setups s1"
      unfolding s1_def by (intro setup_ok_world_todo [OF ok]) (simp_all add: endpoint_received_def)
    then have s2: "setup_ok net os w0 own ips setups s2" "length (net_todos s2) = length (net_todos s)"
      by (auto simp: s2_def s1_def)
    have msg: "m = Some x \<Longrightarrow> msg_wf x" "m = Some (SetupMsg (MyPortInfo pi)) \<Longrightarrow> delivers net os w0 pi" for x pi
      using try_recv_wf [OF net(1), of fuel ne] try_recv_delivers [OF _ got] recv Ok by auto
    have info2: "info_of (ss_port_info s2) (nes_getter_for_incoming (endpoint_setup (net_todos s2 ! i))) = Some info"
      using info i by (simp add: s2_def s1_def)
    have "wp_ok (handle_setup_msg i info m) (\<lambda>_ s'. setup_ok net os w0 own ips setups s' \<and> length (net_todos s') = length (net_todos s2)) s2"
      using s2 i msg by (intro handle_setup_msg_ok [OF _ _ info2 _ _ net(2)]) auto
    moreover have "recv_setup_msg fuel net i info s = handle_setup_msg i info m s2"
      using recv Ok PeerInfoRecving
      by (simp add: recv_setup_msg_def act_bind_def act_get_def set_todo_def act_modify_def s2_def s1_def)
    ultimately show ?thesis using s2(2) by (simp add: wp_def)
  qed (use recv PeerInfoRecving in \<open>auto simp: recv_setup_msg_def addr_err_def wp_def act_bind_def act_get_def split: option.splits\<close>)
qed (use ok in \<open>simp add: recv_setup_msg_def\<close>)

lemma wp_if: "(b \<Longrightarrow> wp m Q E s) \<Longrightarrow> (\<not> b \<Longrightarrow> wp m' Q E s) \<Longrightarrow> wp (if b then m else m') Q E s"
  by simp

lemma usize_inj:
  assumes "(of_nat i :: usize) = of_nat j" "i < 2 ^ 64" "j < 2 ^ 64"
  shows "i = j"
proof -
  have "unat (of_nat j :: usize) = i" by (rule of_nat_inverse [OF assms(1)]) (use assms(2) in simp)
  moreover have "unat (of_nat j :: usize) = j" by (rule of_nat_inverse [OF refl]) (use assms(3) in simp)
  ultimately show ?thesis by simp
qed

lemma exchange_port_info_ok:
  assumes ok: "setup_ok net os w0 own ips setups s" and i: "i < length (net_todos s)" and net: "net_wf net" "peers_honest own ips net os w0"
  shows "wp_ok (exchange_port_info fuel net ev i) (\<lambda>_. setup_ok net os w0 own ips setups) s"
proof -
  let ?I = "\<lambda>s'. setup_ok net os w0 own ips setups s' \<and> length (net_todos s') = length (net_todos s)"
  have fin: "setup_ok net os w0 own ips setups
      (if sent_local_port (net_todos s' ! i) \<and> recv_peer_port (net_todos s' ! i) \<noteq> None
       then s'\<lparr>setup_incomplete := hs_remove (TokenNetEndpoint (of_nat i)) (setup_incomplete s')\<rparr> else s')"
    if "?I s'" for s'
  proof -
    have small: "length (net_todos s') < 2 ^ 64"
      using that by (metis length_map setup_ok_def)
    have "j = i" if "j < length (net_todos s')" "(of_nat j :: usize) = of_nat i" for j
      using that small i \<open>?I s'\<close> by (intro usize_inj) auto
    with that i show ?thesis by (auto simp: setup_ok_def todo_ok_def)
  qed
  have recv: "wp_ok (if b then recv_setup_msg fuel net i info else act_ret ())
      (\<lambda>_. wp_ok (act_modify (\<lambda>s. let t' = net_todos s ! i in
                if sent_local_port t' \<and> recv_peer_port t' \<noteq> None
                then s\<lparr>setup_incomplete := hs_remove (TokenNetEndpoint (of_nat i)) (setup_incomplete s)\<rparr> else s))
        (\<lambda>_. setup_ok net os w0 own ips setups)) s'"
    if I: "?I s' \<and> ss_port_info s' = ss_port_info s"
      and info: "info_of (ss_port_info s) (nes_getter_for_incoming (endpoint_setup (net_todos s ! i))) = Some info" for s' b info
  proof (rule wp_mono)
    have "endpoint_setup (net_todos s' ! i) = endpoint_setup (net_todos s ! i)"
      using I ok i by (metis setup_ok_def nth_map)
    then show "wp_ok (if b then recv_setup_msg fuel net i info else act_ret ()) (\<lambda>_. ?I) s'"
      using recv_setup_msg_ok [OF _ _ net, of setups s' i info] I i info by auto
  qed (simp_all only: wp_modify Let_def fin)
  have send: "wp_ok (if b then send_local_port net i ne info else act_ret ())
      (\<lambda>_ s'. ?I s' \<and> ss_port_info s' = ss_port_info s) s" for b ne info
    using send_local_port_ok [OF ok i] ok by auto
  show ?thesis
  proof (cases "info_of (ss_port_info s) (nes_getter_for_incoming (endpoint_setup (net_todos s ! i)))")
    case (Some info)
    show ?thesis
    proof (cases "todo_endpoint (net_todos s ! i)")
      case (PeerInfoRecving ne)
      show ?thesis
        unfolding exchange_port_info_def wp_bind wp_get Some PeerInfoRecving option.case NetTodoEndpoint.case
        by (rule wp_mono [OF send]) (simp_all only: recv Some)
    qed (simp add: exchange_port_info_def Some ok)
  qed (simp add: exchange_port_info_def)
qed

lemma net_setup_event_ok:
  assumes ok: "setup_ok net os w0 own ips setups s" and net: "net_wf net" "peers_honest own ips net os w0"
  shows "wp_ok (net_setup_event fuel net os ev i) (\<lambda>_. setup_ok net os w0 own ips setups) s"
proof (cases "i < length (net_todos s)")
  case True
  let ?I = "\<lambda>s'. setup_ok net os w0 own ips setups s' \<and> length (net_todos s') = length (net_todos s)"
  have "wp_ok (exchange_port_info fuel net ev i) (\<lambda>_. setup_ok net os w0 own ips setups) s'" if "?I s'" for s'
    using exchange_port_info_ok [OF _ _ net] that True by simp
  then show ?thesis
    using True
    by (auto simp: net_setup_event_def intro!: wp_mono [OF accept_step_ok [OF ok True]] split: NetTodoEndpoint.split)
qed (simp add: net_setup_event_def)

lemma setup_event_ok:
  assumes "setup_ok net os w0 own ips setups s" "net_wf net" "peers_honest own ips net os w0"
  shows "wp_ok (setup_event fuel net os udp_todos ev) (\<lambda>_. setup_ok net os w0 own ips setups) s"
  using assms by (auto simp: setup_event_def udp_setup_event_ok net_setup_event_ok split: TokenTarget.split)

lemma setup_remaining_ok:
  "setup_ok net os w0 own ips setups s \<Longrightarrow> wp_ok (setup_remaining net dl) (\<lambda>_. setup_ok net os w0 own ips setups) s"
  by (auto simp: setup_remaining_def intro!: setup_ok_world worlds_call intro: setup_ok_worlds split: option.split)

lemma poll_setup_ok:
  "setup_ok net os w0 own ips setups s \<Longrightarrow>
     setup_ok net os w0 own ips setups (s\<lparr>ss_world := snd (poll_setup os t (ss_world s))\<rparr>)"
  by (blast intro: setup_ok_world worlds_call setup_ok_worlds)

lemma setup_step_ok:
  assumes "setup_ok net os w0 own ips setups s" "net_wf net" "peers_honest own ips net os w0"
  shows "wp_ok (setup_step fuel net os udp_todos dl) (\<lambda>_. setup_ok net os w0 own ips setups) s"
  unfolding setup_step_def wp_bind wp_os_call
  by (rule wp_mono [OF setup_remaining_ok [OF assms(1)]])
    (auto simp: poll_setup_ok assms(2,3) intro!: wp_mono [OF retry_all_ok] wp_for setup_event_ok split: option.split)

lemma setup_loop_ok:
  assumes "net_wf net" "peers_honest own ips net os w0" "setup_ok net os w0 own ips setups s"
  shows "wp_ok (setup_loop fuel net os udp_todos dl) (\<lambda>_ s'. setup_ok net os w0 own ips setups s' \<and> setup_incomplete s' = []) s"
  using assms(3)
proof (induction fuel arbitrary: s)
  case (Suc fuel)
  show ?case
  proof (cases "setup_incomplete s = []")
    case False
    then have "setup_loop (Suc fuel) net os udp_todos dl s =
        act_bind (setup_step fuel net os udp_todos dl) (\<lambda>_. setup_loop fuel net os udp_todos dl) s" by simp
    moreover have "wp_ok (act_bind (setup_step fuel net os udp_todos dl) (\<lambda>_. setup_loop fuel net os udp_todos dl))
        (\<lambda>_ s'. setup_ok net os w0 own ips setups s' \<and> setup_incomplete s' = []) s"
      unfolding wp_bind by (rule wp_mono [OF setup_step_ok [OF Suc.prems assms(1,2)]]) (simp_all add: Suc.IH)
    ultimately show ?thesis by (simp only: wp_def)
  qed (use Suc.prems in \<open>simp add: wp_def\<close>)
qed (simp add: wp_def)

section \<open>The result\<close>

lemma wp_collect_todos:
  assumes "I s" "\<And>j x s. x \<in> set xs \<Longrightarrow> I s \<Longrightarrow> wp_ok (f j x) (\<lambda>y s'. I s' \<and> P x y) s"
  shows "wp_ok (collect_todos f k xs) (\<lambda>ys s'. I s' \<and> list_all2 P xs ys) s"
  using assms
proof (induction xs arbitrary: k s)
  case (Cons x xs)
  have "wp_ok (f k x) (\<lambda>y s'. I s' \<and> P x y) s" using Cons.prems by simp
  then show ?case
    by (auto elim!: wp_mono intro!: wp_mono [OF Cons.IH] Cons.prems(2))
qed simp

definition em_ok :: "EndpointManager \<Rightarrow> bool" where
  "em_ok m \<longleftrightarrow> em_wf m \<and> (\<forall>(i, msg) \<in> set (delayed_messages m) \<union> set (undelayed_messages m). i < num_net_endpoints m)"

lemma setup_finish_ok:
  assumes "setup_ok net os w0 own ips setups s" "setup_incomplete s = []"
  shows "wp_ok (setup_finish os udp_todos) (\<lambda>m s'. ss_port_info s' = ss_port_info s \<and> em_ok m \<and>
    num_net_endpoints m = length setups) s"
proof -
  let ?I = "\<lambda>s'. ss_port_info s' = ss_port_info s \<and> ss_delayed s' = ss_delayed s"
  have net: "wp_ok (finish_net os j t) (\<lambda>y s'. ?I s' \<and> True) s'" if "?I s'" for j t s'
    using that by (auto simp: finish_net_def split: NetTodoEndpoint.split)
  have udp: "wp_ok (finish_udp os j t) (\<lambda>y s'. ?I s' \<and> True) s'" if "?I s'" for j t s'
    using that by (auto simp: finish_udp_def)
  have len: "length setups = length (net_todos s)"
    using assms(1) by (metis length_map setup_ok_def)
  have fin: "em_ok \<lparr>delayed_messages = [], undelayed_messages = ss_delayed s,
       net_endpoint_store = \<lparr>endpoint_exts = exts, polled_undrained = v\<rparr>,
       udp_endpoint_store = \<lparr>endpoint_exts = uexts, polled_undrained = u\<rparr>\<rparr>"
    if "list_all2 (\<lambda>_ _. True) (net_todos s) exts" for exts uexts v u
    using assms(1) len list_all2_lengthD [OF that]
    by (auto simp: em_ok_def em_wf_def num_net_endpoints_def setup_ok_def)
  have s: "?I s" by simp
  show ?thesis
    unfolding setup_finish_def wp_bind wp_get
    by (rule wp_mono [OF wp_collect_todos [where I = ?I, OF s net]], assumption,
        rule wp_mono [OF wp_collect_todos [where I = ?I, OF _ udp]])
      (use len in \<open>auto simp: num_net_endpoints_def fin dest: list_all2_lengthD\<close>)
qed

lemma setup_endpoints_ok:
  assumes base: "ips_base ips" and net: "net_wf net" "peers_honest own ips net os w0" and len: "length setups < 2 ^ 64"
    and w: "worlds net os w0 w"
  shows "wp_ok (setup_endpoints_and_pair_ports fuel net os setups usetups dl)
    (\<lambda>m s'. table_ok own ips (ss_port_info s') \<and> ports_kept (port_info ips) (ss_port_info s') \<and>
       new_ports_paired (port_info ips) (ss_port_info s') \<and>
       ports_learned net os w0 setups (port_info ips) (ss_port_info s') \<and>
       (\<forall>es \<in> set setups. paired_with net os w0 (ss_port_info s') (nes_getter_for_incoming es)) \<and>
       em_ok m \<and> num_net_endpoints m = length setups)
    (setup_init (port_info ips) w)"
proof -
  let ?P = "\<lambda>es t. endpoint_setup t = es \<and> recv_peer_port t = None \<and> endpoint_received net os w0 (todo_endpoint t)"
  let ?I = "\<lambda>s. ss_port_info s = port_info ips \<and> ss_delayed s = [] \<and> worlds net os w0 (ss_world s)"
  have new_net: "wp_ok (new_net_todo os j es) (\<lambda>t s'. ?I s' \<and> ?P es t) s" if "?I s" for j es s
    using that by (auto simp: new_net_todo_def endpoint_received_def received.start intro!: worlds_call split: option.split)
  have new_udp: "wp_ok (new_udp_todo os j es) (\<lambda>t s'. ?I s' \<and> True) s" if "?I s" for j es s
    using that by (auto simp: new_udp_todo_def intro!: worlds_call split: option.split)
  have start: "setup_ok net os w0 own ips setups (s\<lparr>net_todos := todos, setup_incomplete := all_targets (length todos) n\<rparr>)"
    if "?I s" "list_all2 ?P setups todos" for s todos n
  proof -
    have "map endpoint_setup todos = setups"
      "\<forall>t \<in> set todos. recv_peer_port t = None \<and> endpoint_received net os w0 (todo_endpoint t)"
      using that(2) by (induction rule: list_all2_induct) auto
    moreover have "TokenNetEndpoint (of_nat i) \<in> set (all_targets (length todos) n)" if "i < length todos" for i
      using that by (auto simp: all_targets_def)
    ultimately show ?thesis
      using that base net(2) len
      by (auto simp: setup_ok_def table_ok_def peers_honest_def todo_ok_def new_ports_paired_def ports_learned_def)
  qed
  have last: "paired_with net os w0 (ss_port_info s) (nes_getter_for_incoming es)"
    if "setup_ok net os w0 own ips setups s" "setup_incomplete s = []" "es \<in> set setups" for s es
  proof -
    have "es \<in> endpoint_setup ` set (net_todos s)"
      using that(1,3) by (auto simp: setup_ok_def)
    then obtain i where "i < length (net_todos s)" "es = endpoint_setup (net_todos s ! i)"
      by (auto simp: in_set_conv_nth)
    with that(1,2) show ?thesis by (auto simp: setup_ok_def todo_ok_def)
  qed
  have loop: "wp_ok (act_bind (setup_loop fuel net os uts dl) (\<lambda>_. setup_finish os uts))
    (\<lambda>m s'. table_ok own ips (ss_port_info s') \<and> ports_kept (port_info ips) (ss_port_info s') \<and>
       new_ports_paired (port_info ips) (ss_port_info s') \<and>
       ports_learned net os w0 setups (port_info ips) (ss_port_info s') \<and>
       (\<forall>es \<in> set setups. paired_with net os w0 (ss_port_info s') (nes_getter_for_incoming es)) \<and>
       em_ok m \<and> num_net_endpoints m = length setups) s" if "setup_ok net os w0 own ips setups s" for s uts
    unfolding wp_bind
  proof (rule wp_mono [OF setup_loop_ok [OF net that]])
    fix s' :: "'a SetupState"
    assume s': "setup_ok net os w0 own ips setups s' \<and> setup_incomplete s' = []"
    with last [of s'] show "wp_ok (setup_finish os uts)
      (\<lambda>m s'. table_ok own ips (ss_port_info s') \<and> ports_kept (port_info ips) (ss_port_info s') \<and>
       new_ports_paired (port_info ips) (ss_port_info s') \<and>
       ports_learned net os w0 setups (port_info ips) (ss_port_info s') \<and>
       (\<forall>es \<in> set setups. paired_with net os w0 (ss_port_info s') (nes_getter_for_incoming es)) \<and>
       em_ok m \<and> num_net_endpoints m = length setups) s'"
      by (intro wp_mono [OF setup_finish_ok]) (auto simp: setup_ok_def)
  qed simp
  show ?thesis
    unfolding setup_endpoints_and_pair_ports_def wp_bind wp_os_call
    apply (rule wp_if)
    apply simp
    unfolding wp_bind wp_os_call wp_modify
    apply (rule wp_mono [OF wp_collect_todos [where I = ?I and P = ?P, OF _ new_net]])
    apply (simp add: setup_init_def w worlds_call)
    apply assumption
    apply (rule wp_mono [OF wp_collect_todos [where I = ?I and P = "\<lambda>_ _. True", OF _ new_udp]])
    apply simp
    apply assumption
    apply (rule loop [unfolded wp_bind])
    apply (rule start)
    apply simp_all
    done
qed

end
