(* ===== verification/Tree_Invariant.thy ===== *)
theory Tree_Invariant
  imports Consensus_Tree Setup_Invariant
begin

text \<open>
  What the election and the construction of the tree give to one connector: the elected
  leader is never smaller than the connector itself, and it is the connector itself exactly
  when there is no parent; the parent and the children are distinct endpoints. The reaction
  to a wave is also given as a function without effects, which the theory of the whole
  network builds on.
\<close>

section \<open>The endpoint manager\<close>

lemma net_exts_length [simp]:
  "num_net_endpoints (set_net_undrained v m) = num_net_endpoints m"
  "num_net_endpoints (set_udp_undrained v m) = num_net_endpoints m"
  "num_net_endpoints (set_net_endpoint i ne m) = num_net_endpoints m"
  "num_net_endpoints (undelay_all m) = num_net_endpoints m"
  by (simp_all add: num_net_endpoints_def set_net_undrained_def set_udp_undrained_def set_net_endpoint_def undelay_all_def)

lemma mark_events_length [simp]: "num_net_endpoints (fold mark_event ts m) = num_net_endpoints m"
  by (induction ts arbitrary: m) (auto simp: mark_event_def split: TokenTarget.splits)

lemma poll_length: "poll_and_populate net dl s = (r, s') \<Longrightarrow> num_net_endpoints (em s') = num_net_endpoints (em s)"
  by (auto simp: poll_and_populate_def split: prod.splits option.splits)

lemma try_recv_loop_length:
  "try_recv_undrained_loop n fuel net s = (r, s') \<Longrightarrow> num_net_endpoints (em s') = num_net_endpoints (em s) \<and>
     (\<forall>i msg. r = Ok (Some (i, msg)) \<longrightarrow> i < num_net_endpoints (em s))"
proof (induction n arbitrary: s)
  case 0
  then show ?case by (auto split: if_splits)
next
  case (Suc n)
  show ?case
  proof (cases "VecSet_pop (polled_undrained (net_endpoint_store (em s)))")
    case (Some ir)
    obtain index rest where ir: "ir = (index, rest)" by (cases ir)
    let ?exts = "endpoint_exts (net_endpoint_store (em s))" and ?s1 = "s\<lparr>em := set_net_undrained rest (em s)\<rparr>"
    obtain r1 ne w where recv: "try_recv fuel net (net_endpoint (?exts ! index)) (world s) = (r1, ne, w)"
      by (metis prod_cases3)
    note eq = Suc.prems [unfolded try_recv_undrained_loop.simps Some ir option.case prod.case Let_def]
    show ?thesis
    proof (cases "index < length ?exts \<and> r1 = Ok None")
      case True
      with eq recv have "try_recv_undrained_loop n fuel net (?s1\<lparr>world := w, em := set_net_endpoint index ne (em ?s1)\<rparr>) = (r, s')"
        by simp
      from Suc.IH [OF this] show ?thesis by simp
    next
      case False
      with eq recv show ?thesis
        by (cases r1) (auto simp: num_net_endpoints_def set_net_undrained_def set_net_endpoint_def split: if_splits)
    qed
  qed (use Suc.prems in auto)
qed

definition recv_ok :: "('w, 'z) NetState_scheme \<Rightarrow> ('w, 'z) NetState_scheme \<Rightarrow> bool" where
  "recv_ok s s' \<longleftrightarrow> (em_ok (em s) \<longrightarrow> em_ok (em s')) \<and> num_net_endpoints (em s') = num_net_endpoints (em s)"

lemma net_frame_recv_ok:
  "net_frame s s' \<Longrightarrow> num_net_endpoints (em s') = num_net_endpoints (em s) \<Longrightarrow> recv_ok s s'"
  by (simp add: recv_ok_def em_ok_def em_wf_def net_frame_def)

lemma recv_setup_loop_ok:
  "recv_setup_loop fuel net dl s = (r, s') \<Longrightarrow> net_wf net \<Longrightarrow>
     recv_ok s s' \<and> (\<forall>i msg. r = Ok (i, msg) \<longrightarrow> i < num_net_endpoints (em s) \<and> msg_wf msg)"
proof (induction fuel arbitrary: s)
  case (Suc fuel)
  obtain r1 s1 where one: "try_recv_undrained_net fuel net s = (r1, s1)" by fastforce
  obtain r2 s2 where two: "poll_and_populate net dl s1 = (r2, s2)" by fastforce
  have len: "num_net_endpoints (em s1) = num_net_endpoints (em s)" "\<And>i msg. r1 = Ok (Some (i, msg)) \<Longrightarrow> i < num_net_endpoints (em s)"
    using try_recv_loop_length one unfolding try_recv_undrained_net_def by blast+
  have f1: "recv_ok s s1" using try_recv_net_frame(1) [OF one] len(1) by (rule net_frame_recv_ok)
  have f2: "recv_ok s s2"
    using net_frame_recv_ok [OF poll_frame [OF two] poll_length [OF two]] f1 by (simp add: recv_ok_def)
  show ?case
  proof (cases "r1 = Ok None \<and> (\<exists>u. r2 = Ok u)")
    case True
    with Suc.prems(1) one two have "recv_setup_loop fuel net dl s2 = (r, s')" by auto
    from Suc.IH [OF this Suc.prems(2)] f2 show ?thesis by (auto simp: recv_ok_def)
  next
    case False
    with Suc.prems one two f1 f2 len(2) try_recv_net_frame(2) [OF one] show ?thesis
      by (auto split: res.splits option.splits prod.splits)
  qed
qed (auto simp: recv_ok_def)

definition em_ready :: "nat \<Rightarrow> EndpointManager \<Rightarrow> bool" where
  "em_ready n m \<longleftrightarrow> em_ok m \<and> num_net_endpoints m = n"

lemma em_ready_delay:
  "em_ready n m \<Longrightarrow> i < n \<Longrightarrow> msg_wf msg \<Longrightarrow> em_ready n (m\<lparr>delayed_messages := delayed_messages m @ [(i, msg)]\<rparr>)"
  by (auto simp: em_ready_def em_ok_def em_wf_def num_net_endpoints_def)

lemma em_ready_undelay: "em_ready n m \<Longrightarrow> em_ready n (undelay_all m)"
  by (auto simp: em_ready_def em_ok_def em_wf_def num_net_endpoints_def undelay_all_def)

lemma try_recv_any_setup_ok:
  assumes net: "net_wf net" and ready: "em_ready n (em s)"
  shows "wp_ok (try_recv_any_setup fuel net dl) (\<lambda>(i, msg) s'. em_ready n (em s') \<and> i < n \<and> msg_wf msg) s"
proof (cases "undelayed_messages (em s) = []")
  note ok = ready [unfolded em_ready_def]
  case True
  obtain r s' where "recv_setup_loop fuel net dl s = (r, s')" by fastforce
  with recv_setup_loop_ok [OF this net] True ok show ?thesis
    by (auto simp: wp_def try_recv_any_setup_def vec_pop_def recv_ok_def em_ready_def split: res.split)
next
  case False
  obtain us i msg where "undelayed_messages (em s) = us @ [(i, msg)]"
    using False by (metis append_butlast_last_id surj_pair)
  with ready show ?thesis
    by (auto simp: wp_def try_recv_any_setup_def vec_pop_def em_ready_def em_ok_def em_wf_def num_net_endpoints_def)
qed

lemma send_to_setup_ok:
  "wp_ok (send_to_setup net i msg) (\<lambda>_ s'. em s' = em s) s"
  by (auto simp: wp_def send_to_setup_def split: prod.split res.split dest: send_to_frame simp: send_frame_def)

section \<open>Reactions without effects\<close>

definition waits :: "nat \<Rightarrow> WaveState \<Rightarrow> nat hash_set" where
  "waits n ws = fold hs_insert (filter (\<lambda>j. Some j \<noteq> ws_parent ws) [0 ..< n]) []"

definition wave_react :: "nat \<Rightarrow> WaveState \<Rightarrow> nat hash_set \<Rightarrow> nat \<Rightarrow> u32 \<Rightarrow> (ElectionStep \<times> nat list) option" where
  "wave_react n best_wave awaiting recv_index wave_leader =
     (if wave_leader < ws_leader best_wave then Some (Continue best_wave awaiting, [])
      else if wave_leader > ws_leader best_wave then
        let ws = \<lparr>ws_parent = Some recv_index, ws_leader = wave_leader\<rparr> in
        Some (Continue ws (waits n ws), filter (\<lambda>j. j \<noteq> recv_index) [0 ..< n] @ (if waits n ws = [] then [recv_index] else []))
      else if recv_index \<notin> set awaiting then None
      else if hs_remove recv_index awaiting = [] then
        (case ws_parent best_wave of
           Some p \<Rightarrow> Some (Continue best_wave [], [p])
         | None \<Rightarrow> Some (Elected best_wave, []))
      else Some (Continue best_wave (hs_remove recv_index awaiting), []))"

lemma set_waits [simp]: "set (waits n ws) = {j. j < n \<and> Some j \<noteq> ws_parent ws}" and distinct_waits [simp]: "distinct (waits n ws)"
proof -
  have "set (fold hs_insert xs acc) = set xs \<union> set acc \<and> (distinct acc \<longrightarrow> distinct (fold hs_insert xs acc))" for xs acc :: "nat list"
    by (induction xs arbitrary: acc) auto
  from this [of "filter (\<lambda>j. Some j \<noteq> ws_parent ws) [0 ..< n]" "[]"]
  show "set (waits n ws) = {j. j < n \<and> Some j \<noteq> ws_parent ws}" "distinct (waits n ws)"
    by (auto simp: waits_def)
qed

definition send_waves :: "'w Net \<Rightarrow> u32 \<Rightarrow> nat list \<Rightarrow> ('w NetState, unit, ConnectError) act" where
  "send_waves net leader out = act_for out (\<lambda>i. send_to_setup net i (wave_msg leader))"

lemma do_wave_loop_react:
  "do_wave_loop net ws it acc s =
     act_bind (send_waves net (ws_leader ws) (filter (\<lambda>j. Some j \<noteq> ws_parent ws) it))
       (\<lambda>_. act_ret (fold hs_insert (filter (\<lambda>j. Some j \<noteq> ws_parent ws) it) acc)) s"
  by (induction it arbitrary: acc s) (auto simp: send_waves_def act_bind_def act_ret_def split: prod.split res.split)

lemma do_wave_react:
  "do_wave net ws s = act_bind (send_waves net (ws_leader ws) (filter (\<lambda>j. Some j \<noteq> ws_parent ws) [0 ..< num_net_endpoints (em s)]))
     (\<lambda>_. act_ret (waits (num_net_endpoints (em s)) ws)) s"
  by (simp add: do_wave_def do_wave_loop_react act_bind_def act_get_def index_iter_def waits_def)

text \<open>The election reacts to a wave as \<open>wave_react\<close> says, and sends what it says.\<close>

lemma election_wave_react:
  "election_wave net ws awaiting i l s =
     (case wave_react (num_net_endpoints (em s)) ws awaiting i l of
        None \<Rightarrow> (Panic, s)
      | Some (st, out) \<Rightarrow> act_bind (send_waves net l out) (\<lambda>_. act_ret st) s)"
  by (auto simp: election_wave_def wave_react_def do_wave_react send_waves_def Let_def act_bind_def act_ret_def act_panic_def
      act_for_append split: prod.split res.split option.split)

section \<open>The election\<close>

definition wave_ok :: "u32 \<Rightarrow> nat \<Rightarrow> WaveState \<Rightarrow> bool" where
  "wave_ok cid n ws \<longleftrightarrow> (case ws_parent ws of None \<Rightarrow> ws_leader ws = cid | Some p \<Rightarrow> cid < ws_leader ws \<and> p < n)"

lemma wave_react_ok:
  assumes "wave_react n ws awaiting i l = Some (st, out)" "wave_ok cid n ws" "i < n"
  shows "case st of Elected ws' \<Rightarrow> wave_ok cid n ws' | Continue ws' _ \<Rightarrow> wave_ok cid n ws'"
  using assms by (auto simp: wave_react_def wave_ok_def Let_def split: if_splits option.splits)

lemma send_waves_ok: "wp_ok (send_waves net l out) (\<lambda>_ s'. em s' = em s) s"
  unfolding send_waves_def
  by (rule wp_for [where I = "\<lambda>s'. em s' = em s"]) (auto intro: wp_mono [OF send_to_setup_ok])

lemma election_step_ok:
  assumes net: "net_wf net" and ok: "em_ready n (em s)" and ws: "wave_ok cid n ws"
  shows "wp_ok (election_step fuel net cid dl ws awaiting)
    (\<lambda>st s'. em_ready n (em s') \<and>
       (case st of Elected ws' \<Rightarrow> wave_ok cid n ws' | Continue ws' _ \<Rightarrow> wave_ok cid n ws')) s"
proof -
  let ?Q = "\<lambda>st s'. em_ready n (em s') \<and>
       (case st of Elected ws' \<Rightarrow> wave_ok cid n ws' | Continue ws' _ \<Rightarrow> wave_ok cid n ws')"
  have wave: "wp_ok (election_wave net ws awaiting i l) ?Q s'"
    if s': "em_ready n (em s')" and i: "i < n" for s' i l
  proof (cases "wave_react n ws awaiting i l")
    case (Some so)
    obtain st out where so: "so = (st, out)" by (cases so)
    have "wp_ok (act_bind (send_waves net l out) (\<lambda>_. act_ret st)) ?Q s'"
      using wave_react_ok [OF Some [unfolded so] ws i] s' by (auto intro: wp_mono [OF send_waves_ok])
    with Some so s' show ?thesis by (simp add: wp_def election_wave_react em_ready_def)
  qed (use s' in \<open>simp add: wp_def election_wave_react em_ready_def\<close>)
  have announce: "wave_ok cid n \<lparr>ws_parent = Some i, ws_leader = l\<rparr>" if "i < n" "ws_leader ws \<le> l" "l \<noteq> cid" for i l
    using ws that by (auto simp: wave_ok_def split: option.splits)
  show ?thesis
    unfolding election_step_def wp_bind
    by (rule wp_mono [OF try_recv_any_setup_ok [OF net ok]])
      (auto simp: ws announce delay_msg_def em_ready_delay
        split: Msg.split SetupMsg.split intro!: wave)
qed

lemma election_loop_ok:
  assumes "net_wf net" "em_ready n (em s)" "wave_ok cid n ws"
  shows "wp_ok (election_loop fuel net cid dl ws awaiting)
    (\<lambda>ws' s'. em_ready n (em s') \<and> wave_ok cid n ws') s"
  using assms(2,3)
proof (induction fuel arbitrary: ws awaiting s)
  case (Suc fuel)
  let ?k = "\<lambda>r. case r of Elected ws \<Rightarrow> act_ret ws | Continue ws a \<Rightarrow> election_loop fuel net cid dl ws a"
  have "wp_ok (act_bind (election_step fuel net cid dl ws awaiting) ?k)
      (\<lambda>ws' s'. em_ready n (em s') \<and> wave_ok cid n ws') s"
    unfolding wp_bind
    by (rule wp_mono [OF election_step_ok [OF assms(1) Suc.prems]]) (auto split: ElectionStep.splits intro!: Suc.IH)
  then show ?case by (simp only: wp_def election_loop.simps)
qed (simp add: wp_def)

section \<open>The tree\<close>

lemma announce_leader_ok:
  "wp_ok (announce_leader net ws it acc)
    (\<lambda>awaiting s'. em s' = em s \<and> set awaiting = set acc \<union> {j \<in> set it. Some j \<noteq> ws_parent ws}) s"
proof (induction it arbitrary: acc s)
  case (Cons i it)
  have rest: "wp_ok (announce_leader net ws it acc')
      (\<lambda>awaiting s2. em s2 = em s \<and> set awaiting = set acc \<union> {j \<in> set (i # it). Some j \<noteq> ws_parent ws}) s1"
    if "em s1 = em s" "set acc' = set acc \<union> {j. j = i \<and> Some j \<noteq> ws_parent ws}" for s1 acc'
    by (rule wp_mono [OF Cons.IH]) (use that in auto)
  show ?case
    by (auto intro!: wp_mono [OF send_to_setup_ok] rest [simplified])
qed simp

lemma tree_loop_ok:
  assumes "net_wf net" "em_ready n (em s)"
  shows "wp_ok (tree_loop fuel net dl awaiting childs)
    (\<lambda>cs s'. em_ready n (em s') \<and> (\<exists>new. cs = childs @ new \<and> distinct new \<and> set new \<subseteq> set awaiting)) s"
  using assms(2)
proof (induction fuel arbitrary: awaiting childs s)
  case 0
  then show ?case by (cases awaiting) (auto simp: wp_def)
next
  case (Suc fuel)
  show ?case
  proof (cases awaiting)
    case (Cons a rest)
    let ?Q = "\<lambda>cs s'. em_ready n (em s') \<and> (\<exists>new. cs = childs @ new \<and> distinct new \<and> set new \<subseteq> set awaiting)"
    have same: "wp_ok (tree_loop fuel net dl awaiting childs) ?Q s'" if "em_ready n (em s')" for s'
      using Suc.IH [OF that, of awaiting childs] .
    have gone: "wp_ok (tree_loop fuel net dl (hs_remove i awaiting) childs) ?Q s'" if "em_ready n (em s')" for s' i
      by (rule wp_mono [OF Suc.IH [OF that]]) auto
    have child: "wp_ok (tree_loop fuel net dl (hs_remove i awaiting) (childs @ [i])) ?Q s'"
      if s': "em_ready n (em s')" and i: "i \<in> set awaiting" for s' i
    proof (rule wp_mono [OF Suc.IH [OF s']])
      fix cs and t :: "'a NetState"
      assume "em_ready n (em t) \<and> (\<exists>new. cs = (childs @ [i]) @ new \<and> distinct new \<and> set new \<subseteq> set (hs_remove i awaiting))"
      then obtain new where new: "em_ready n (em t)" "cs = childs @ (i # new)" "distinct (i # new)" "set (i # new) \<subseteq> set awaiting"
        using i by auto
      show "?Q cs t" using new by blast
    qed simp
    have "wp_ok (act_bind (try_recv_any_setup fuel net dl) (\<lambda>(recv_index, msg). case msg of
       SetupMsg (LeaderAnnounce _) \<Rightarrow>
         if recv_index \<in> set awaiting then tree_loop fuel net dl (hs_remove recv_index awaiting) childs else act_err SetupAlgMisbehavior
     | SetupMsg YouAreMyParent \<Rightarrow>
         if recv_index \<in> set awaiting
         then tree_loop fuel net dl (hs_remove recv_index awaiting) (childs @ [recv_index]) else act_err SetupAlgMisbehavior
     | SetupMsg (MyPortInfo _) \<Rightarrow> tree_loop fuel net dl awaiting childs
     | SetupMsg (LeaderWave _) \<Rightarrow> tree_loop fuel net dl awaiting childs
     | CommMsg c \<Rightarrow> act_bind (delay_msg recv_index (CommMsg c)) (\<lambda>_. tree_loop fuel net dl awaiting childs))) ?Q s"
      unfolding wp_bind
    proof (rule wp_mono [OF try_recv_any_setup_ok [OF assms(1) Suc.prems]], goal_cases)
      case (1 im s')
      obtain i msg where im: "im = (i, msg)" by (cases im)
      with 1 have ok: "em_ready n (em s')" "i < n" "msg_wf msg" by auto
      show ?case
      proof (cases msg)
        case (CommMsg c)
        with ok have "em_ready n (em (s'\<lparr>em := (em s')\<lparr>delayed_messages := delayed_messages (em s') @ [(i, CommMsg c)]\<rparr>\<rparr>))"
          by (simp add: em_ready_delay)
        from same [OF this] show ?thesis by (simp add: im CommMsg delay_msg_def)
      next
        case (SetupMsg sm)
        with ok same gone child show ?thesis by (cases sm) (auto simp: im)
      qed
    qed simp
    then show ?thesis unfolding Cons by (simp only: wp_def tree_loop.simps)
  qed (use Suc.prems in \<open>simp add: wp_def\<close>)
qed

definition nbh_ok :: "nat \<Rightarrow> Neighborhood \<Rightarrow> bool" where
  "nbh_ok n nbh \<longleftrightarrow> VecSet_wf (children nbh) \<and> (\<forall>j \<in> set (vec (children nbh)). j < n \<and> parent nbh \<noteq> Some j) \<and>
     (\<forall>p. parent nbh = Some p \<longrightarrow> p < n)"

lemma init_neighborhood_ok:
  assumes net: "net_wf net" and ready: "em_ready n (em s)"
  shows "wp_ok (init_neighborhood fuel net cid dl) (\<lambda>nbh s'. em_ready n (em s') \<and> nbh_ok n nbh) s"
proof (cases "n = 0")
  case True
  with ready set_VecSet_new [of "[] :: nat list"] VecSet_wf_new [of "[] :: nat list"] show ?thesis
    by (simp add: init_neighborhood_def em_ready_def nbh_ok_def)
next
  case False
  let ?ws0 = "\<lparr>ws_parent = None, ws_leader = cid\<rparr>"
  have n: "num_net_endpoints (em s') = n" if "em_ready n (em s')" for s' :: "'a NetState"
    using that by (simp add: em_ready_def)
  have wave: "wp_ok (do_wave net ?ws0) (\<lambda>_ s'. em s' = em s) s"
  proof -
    have "wp_ok (act_bind (send_waves net cid (filter (\<lambda>j. Some j \<noteq> None) [0 ..< n])) (\<lambda>_. act_ret (waits n ?ws0)))
        (\<lambda>_ s'. em s' = em s) s"
      by (auto intro: wp_mono [OF send_waves_ok])
    then show ?thesis using n [OF ready] by (simp add: wp_def do_wave_react)
  qed
  have tree: "wp_ok (act_bind (tree_loop fuel net dl awaiting []) (\<lambda>childs.
       act_ret \<lparr>parent = ws_parent ws, children = VecSet_new childs\<rparr>)) (\<lambda>nbh s'. em_ready n (em s') \<and> nbh_ok n nbh) s'"
    if "em_ready n (em s')" "set awaiting = {j \<in> set [0 ..< n]. Some j \<noteq> ws_parent ws}" "wave_ok cid n ws" for s' ws awaiting
    unfolding wp_bind
    by (rule wp_mono [OF tree_loop_ok [OF net that(1)]])
      (use that(2,3) in \<open>auto simp: nbh_ok_def set_VecSet_new VecSet_wf_new wave_ok_def subset_eq split: option.splits\<close>)
  have announce: "wp_ok (act_bind (announce_leader net ws [0 ..< n] []) (\<lambda>awaiting'.
       act_bind (act_modify (\<lambda>s. s\<lparr>em := undelay_all (em s)\<rparr>)) (\<lambda>_.
       act_bind (tree_loop fuel net dl awaiting' []) (\<lambda>childs.
       act_ret \<lparr>parent = ws_parent ws, children = VecSet_new childs\<rparr>)))) (\<lambda>nbh s'. em_ready n (em s') \<and> nbh_ok n nbh) s'"
    if s': "em_ready n (em s')" and ws: "wave_ok cid n ws" for s' ws
    unfolding wp_bind [of "announce_leader net ws [0 ..< n] []"]
  proof (rule wp_mono [OF announce_leader_ok], goal_cases)
    case (1 awaiting s2)
    with s' have "em_ready n (em (s2\<lparr>em := undelay_all (em s2)\<rparr>))" by (simp add: em_ready_undelay)
    from tree [OF this _ ws, of awaiting] 1 show ?case by simp
  qed simp
  have "wp_ok (act_bind (do_wave net ?ws0) (\<lambda>awaiting.
       act_bind (act_modify (\<lambda>s. s\<lparr>em := undelay_all (em s)\<rparr>)) (\<lambda>_.
       act_bind (election_loop fuel net cid dl ?ws0 awaiting) (\<lambda>ws.
       act_bind (act_get (\<lambda>s. index_iter (em s))) (\<lambda>it.
       act_bind (announce_leader net ws it []) (\<lambda>awaiting'.
       act_bind (act_modify (\<lambda>s. s\<lparr>em := undelay_all (em s)\<rparr>)) (\<lambda>_.
       act_bind (tree_loop fuel net dl awaiting' []) (\<lambda>childs.
       act_ret \<lparr>parent = ws_parent ws, children = VecSet_new childs\<rparr>))))))))
      (\<lambda>nbh s'. em_ready n (em s') \<and> nbh_ok n nbh) s"
    unfolding wp_bind [of "do_wave net ?ws0"]
  proof (rule wp_mono [OF wave], goal_cases)
    case (1 awaiting s1)
    define s2 where "s2 = s1\<lparr>em := undelay_all (em s1)\<rparr>"
    have "em_ready n (em s2)" using 1 ready by (simp add: s2_def em_ready_undelay)
    from election_loop_ok [OF net this, of cid ?ws0]
    have "wp_ok (election_loop fuel net cid dl ?ws0 awaiting) (\<lambda>ws' s'. em_ready n (em s') \<and> wave_ok cid n ws') s2"
      by (simp add: wave_ok_def)
    then show ?case
      unfolding wp_bind [of "act_modify _"] wp_modify wp_bind [of "election_loop _ _ _ _ _ _"] wp_bind [of "act_get _"] wp_get s2_def [symmetric]
      by (rule wp_mono) (use announce n in \<open>auto simp: index_iter_def simp del: wp_bind\<close>)
  qed simp
  with False n [OF ready] show ?thesis
    unfolding init_neighborhood_def Let_def wp_bind [of "act_get _"] wp_get by (simp only: if_False)
qed

end
