(* ===== verification/Connector_Properties.thy ===== *)
theory Connector_Properties
  imports Sync_Properties Tree_Invariant
begin

text \<open>
  The life of a connector: what \<open>connect\<close> establishes, and an invariant of every
  connector that a user can reach by calling the operations of the library in any order.
\<close>

section \<open>Ports without a peer\<close>

definition unpaired :: "PortInfoMap \<Rightarrow> PortId set" where
  "unpaired m = {p. \<exists>info. info_of m p = Some info \<and> peer info = None}"

lemma unpaired_insert: "unpaired (insert_port p info m) = (if peer info = None then insert p (unpaired m) else unpaired m - {p})"
  by (auto simp: unpaired_def table_simps)

lemma unpaired_owned [simp]:
  "unpaired (owned_extend cid ps m) = unpaired m" "unpaired (m\<lparr>owned := f\<rparr>) = unpaired m"
  by (simp_all add: unpaired_def table_simps)

lemma unpaired_port_pair:
  assumes "nonsync_new_port_pair cid ips = Some (ports, ips')"
  shows "unpaired (port_info ips') \<subseteq> unpaired (port_info ips)"
proof -
  obtain p q where "ports = (p, q)" by (cases ports)
  with nonsync_new_port_pair_Some [of cid ips p q ips'] assms show ?thesis by (auto simp: unpaired_insert)
qed

lemma unpaired_move_ports:
  assumes "move_ports cid cid' ps m = Some m'"
  shows "unpaired m' = unpaired m"
proof -
  have "set_owners ps cid' (port_map m) = Some (port_map m')"
    using assms by (auto simp: move_ports_def bind_eq_Some_conv Let_def)
  then have "info_of m' p = (if p \<in> set ps then map_option (owner_update (\<lambda>_. cid')) (info_of m p) else info_of m p)" for p
    using set_owners_spec by fastforce
  then show ?thesis by (auto simp: unpaired_def)
qed

lemma unpaired_callbacks:
  "nonsync_callbacks ctx ctx' \<Longrightarrow> unpaired (port_info (npc_ips ctx')) \<subseteq> unpaired (port_info (npc_ips ctx))"
proof (induction rule: nonsync_callbacks.induct)
  case (port_pair ctx ctx' ports ips')
  with unpaired_port_pair [OF port_pair.hyps(2)] show ?case by auto
next
  case (component ctx ctx' moved st ips' unrun')
  obtain cid idm m where "move_ports (npc_proto_component_id ctx') cid moved (port_info (npc_ips ctx')) = Some m"
    "ips' = (npc_ips ctx')\<lparr>port_info := m, id_manager := idm\<rparr>"
    using component.hyps(2) by (fastforce simp: nonsync_new_component_def bind_eq_Some_conv split: option.splits)
  with component.IH unpaired_move_ports show ?case by force
qed simp

lemma unpaired_nonsync_phase:
  "nonsync_phase fuel interp unrun ips bpcs = Ok (ips', bpcs') \<Longrightarrow> interp_ok interp \<Longrightarrow>
     unpaired (port_info ips') \<subseteq> unpaired (port_info ips)"
proof (induction fuel arbitrary: unrun ips bpcs)
  case 0
  then show ?case by (cases unrun) auto
next
  case (Suc fuel)
  show ?case
  proof (cases unrun)
    case (Cons x xs)
    obtain cid component where last: "last (x # xs) = (cid, component)" by fastforce
    note eq = Suc.prems(1) [unfolded Cons nonsync_phase.simps(3) last Let_def prod.case]
    obtain blocker component' ctx where run: "nonsync_run interp component
        \<lparr>npc_ips = ips, npc_proto_component_id = cid, npc_unrun_components = butlast (x # xs)\<rparr> = Some (blocker, component', ctx)"
      using eq by (auto split: option.splits)
    have "nonsync_callbacks \<lparr>npc_ips = ips, npc_proto_component_id = cid, npc_unrun_components = butlast (x # xs)\<rparr> ctx"
      using run Suc.prems(2) by (auto simp: interp_ok_def)
    from unpaired_callbacks [OF this] have le: "unpaired (port_info (npc_ips ctx)) \<subseteq> unpaired (port_info ips)" by simp
    obtain bpcs1 where "nonsync_phase fuel interp (npc_unrun_components ctx) (npc_ips ctx) bpcs1 = Ok (ips', bpcs')"
      using eq run by (cases blocker) (auto split: if_splits)
    from Suc.IH [OF this Suc.prems(2)] le show ?thesis by blast
  qed (use Suc.prems in auto)
qed

section \<open>Connecting\<close>

lemma connect_Ok_cases:
  assumes "connect fuel net os timeout (c, w) = (Ok (), c', w')" "phased c = PhSetup st"
  obtains dl w0 m ss nbh s where "worlds net os w w0"
    "setup_endpoints_and_pair_ports fuel net os (net_endpoint_setups st) (udp_endpoint_setups st) dl
       (setup_init (port_info (cu_ips (unphased c))) w0) = (Ok m, ss)"
    "init_neighborhood fuel net (idm_connector_id (id_manager (cu_ips (unphased c)))) dl \<lparr>world = ss_world ss, em = m\<rparr> = (Ok nbh, s)"
    "c' = \<lparr>unphased = (unphased c)\<lparr>cu_ips := (cu_ips (unphased c))\<lparr>port_info := ss_port_info ss\<rparr>\<rparr>,
       phased = PhCommunication \<lparr>round_index = 0, endpoint_manager = em s, neighborhood = nbh,
         native_batches = [NativeBatch_default], round_result = Inr None\<rparr>\<rparr>"
proof -
  obtain dl w0 where dl: "(case timeout of None \<Rightarrow> (None, w)
      | Some to \<Rightarrow> case clock_now net w of (t, w1) \<Rightarrow> (Some (t + to), w1)) = (dl, w0)" by fastforce
  have w0: "worlds net os w w0"
    using dl worlds_call(1) [of net os w w] by (auto split: option.splits prod.splits)
  obtain r ss where r: "setup_endpoints_and_pair_ports fuel net os (net_endpoint_setups st) (udp_endpoint_setups st) dl
       (setup_init (port_info (cu_ips (unphased c))) w0) = (r, ss)" by fastforce
  have ok: "connect_inner fuel net os (unphased c) st timeout w = (Ok c', w')"
    using assms by (auto simp: connect_def split: prod.splits res.splits)
  note inner = ok [unfolded connect_inner_def Let_def, unfolded dl prod.case r]
  obtain m where m: "r = Ok m" using inner by (cases r) auto
  obtain r' s where r': "init_neighborhood fuel net (idm_connector_id (id_manager (cu_ips (unphased c)))) dl
      \<lparr>world = ss_world ss, em = m\<rparr> = (r', s)" by fastforce
  obtain nbh where nbh: "r' = Ok nbh" using inner m r' by (cases r') auto
  show thesis
    using that [OF w0 r [unfolded m] r' [unfolded nbh]] inner m r' nbh by auto
qed

text \<open>
  What a successful \<open>connect\<close> establishes. The peers are assumed to name their own ports in
  what they send to a connector that connects in the world \<open>w\<close>.
\<close>

lemma connect_spec:
  assumes inv: "conn_inv c" and st: "phased c = PhSetup st" "length (net_endpoint_setups st) < 2 ^ 64"
    and net: "net_wf net" "peers_honest own (cu_ips (unphased c)) net os w"
    and ok: "connect fuel net os timeout (c, w) = (Ok (), c', w')"
  obtains m comm where "unphased c' = (unphased c)\<lparr>cu_ips := (cu_ips (unphased c))\<lparr>port_info := m\<rparr>\<rparr>"
    "phased c' = PhCommunication comm" "conn_inv c'"
    "ports_kept (port_info (cu_ips (unphased c))) m" "new_ports_paired (port_info (cu_ips (unphased c))) m"
    "ports_learned net os w (net_endpoint_setups st) (port_info (cu_ips (unphased c))) m"
    "\<forall>es \<in> set (net_endpoint_setups st). paired_with net os w m (nes_getter_for_incoming es)"
    "num_net_endpoints (endpoint_manager comm) = length (net_endpoint_setups st)"
    "nbh_ok (length (net_endpoint_setups st)) (neighborhood comm)"
    "round_index comm = 0" "native_batches comm = [NativeBatch_default]" "round_result comm = Inr None"
proof -
  let ?ips = "cu_ips (unphased c)" and ?n = "length (net_endpoint_setups st)"
  obtain dl w0 m ss nbh s where w0: "worlds net os w w0"
    and one: "setup_endpoints_and_pair_ports fuel net os (net_endpoint_setups st) (udp_endpoint_setups st) dl
       (setup_init (port_info ?ips) w0) = (Ok m, ss)"
    and two: "init_neighborhood fuel net (idm_connector_id (id_manager ?ips)) dl \<lparr>world = ss_world ss, em = m\<rparr> = (Ok nbh, s)"
    and c': "c' = \<lparr>unphased = (unphased c)\<lparr>cu_ips := ?ips\<lparr>port_info := ss_port_info ss\<rparr>\<rparr>,
       phased = PhCommunication \<lparr>round_index = 0, endpoint_manager = em s, neighborhood = nbh,
         native_batches = [NativeBatch_default], round_result = Inr None\<rparr>\<rparr>"
    by (rule connect_Ok_cases [OF ok st(1)])
  have base: "ips_base ?ips" and comps: "comps_ok (id_manager ?ips) (native_component_id (unphased c)) (proto_components (unphased c))"
    using inv by (simp_all add: conn_inv_def)
  note t = wp_resultD(1) [OF setup_endpoints_ok [OF base net st(2) w0] one]
  have "em_ready ?n (em \<lparr>world = ss_world ss, em = m\<rparr>)" using t by (simp add: em_ready_def)
  note n = wp_resultD(1) [OF init_neighborhood_ok [OF net(1) this] two]
  have "conn_inv c'"
    using t n comps by (simp add: conn_inv_def c' phase_ok_def table_ok_def em_ready_def em_ok_def)
  then show thesis using t n by (intro that) (auto simp: c' em_ready_def)
qed

section \<open>Reachable connectors\<close>

text \<open>
  A step of the user. Panics and exhausted fuel end the run; everything else, errors
  included, goes on. For \<open>connect\<close> the peers that answer are assumed honest, and the number
  of endpoints to fit the machine.
\<close>

inductive user_step :: "'w Net \<Rightarrow> 'w Os \<Rightarrow> 's Interp \<Rightarrow> 's Connector \<times> 'w \<Rightarrow> 's Connector \<times> 'w \<Rightarrow> bool"
  for net os interp where
  new_port_pair: "connector_new_port_pair c = Some (ports, c') \<Longrightarrow> user_step net os interp (c, w) (c', w)"
| add_component: "add_component interp module_name ident ports c = (r, c') \<Longrightarrow> user_step net os interp (c, w) (c', w)"
| new_net_port: "new_net_port pol addr epol c = (r, c') \<Longrightarrow> user_step net os interp (c, w) (c', w)"
| new_udp: "new_udp_mediator_component la pa c = (r, c') \<Longrightarrow> user_step net os interp (c, w) (c', w)"
| next_batch: "next_batch c = (r, c') \<Longrightarrow> user_step net os interp (c, w) (c', w)"
| put: "connector_put port payload c = (r, c') \<Longrightarrow> user_step net os interp (c, w) (c', w)"
| get: "connector_get port c = (r, c') \<Longrightarrow> user_step net os interp (c, w) (c', w)"
| connect: "connect fuel net os timeout (c, w) = (r, c', w') \<Longrightarrow> r \<noteq> Panic \<Longrightarrow> r \<noteq> OutOfFuel \<Longrightarrow>
    peers_honest own (cu_ips (unphased c)) net os w \<Longrightarrow>
    (\<And>st. phased c = PhSetup st \<Longrightarrow> length (net_endpoint_setups st) < 2 ^ 64) \<Longrightarrow> user_step net os interp (c, w) (c', w')"
| sync: "sync fuel net interp timeout (c, w) = (r, c', w') \<Longrightarrow> r \<noteq> Panic \<Longrightarrow> r \<noteq> OutOfFuel \<Longrightarrow>
    user_step net os interp (c, w) (c', w')"

inductive reachable :: "'w Net \<Rightarrow> 'w Os \<Rightarrow> 's Interp \<Rightarrow> 's Connector \<times> 'w \<Rightarrow> bool" for net os interp where
  start: "Connector_new pd conn_id = Some c \<Longrightarrow> reachable net os interp (c, w)"
| step: "reachable net os interp cw \<Longrightarrow> user_step net os interp cw cw' \<Longrightarrow> reachable net os interp cw'"

text \<open>
  Before \<open>connect\<close> only the network ports may lack a peer, and afterwards no port does.
\<close>

definition pairing_ok :: "'s Connector \<Rightarrow> bool" where
  "pairing_ok c \<longleftrightarrow> (case phased c of
     PhSetup st \<Rightarrow> unpaired (port_info (cu_ips (unphased c))) \<subseteq> nes_getter_for_incoming ` set (net_endpoint_setups st)
   | PhCommunication _ \<Rightarrow> unpaired (port_info (cu_ips (unphased c))) = {})"

lemma pairing_ok_frame:
  assumes "pairing_ok c" "unpaired (port_info (cu_ips (unphased c'))) \<subseteq> unpaired (port_info (cu_ips (unphased c)))"
    and "case phased c of PhSetup st \<Rightarrow> phased c' = PhSetup st | PhCommunication _ \<Rightarrow> \<exists>comm. phased c' = PhCommunication comm"
  shows "pairing_ok c'"
  using assms by (auto simp: pairing_ok_def split: ConnectorPhased.splits)

lemma pairing_ok_connect:
  assumes inv: "conn_inv c" "pairing_ok c" and net: "net_wf net" "peers_honest own (cu_ips (unphased c)) net os w"
    and len: "\<And>st. phased c = PhSetup st \<Longrightarrow> length (net_endpoint_setups st) < 2 ^ 64"
    and run: "connect fuel net os timeout (c, w) = (r, c', w')"
  shows "conn_inv c' \<and> pairing_ok c'"
proof (cases "\<exists>st. phased c = PhSetup st \<and> r = Ok ()")
  case True
  then obtain st where st: "phased c = PhSetup st" and r: "r = Ok ()" by blast
  from connect_spec [OF inv(1) st len [OF st] net run [unfolded r]] obtain m comm where
    c': "unphased c' = (unphased c)\<lparr>cu_ips := (cu_ips (unphased c))\<lparr>port_info := m\<rparr>\<rparr>" "phased c' = PhCommunication comm" "conn_inv c'"
    and m: "ports_kept (port_info (cu_ips (unphased c))) m" "new_ports_paired (port_info (cu_ips (unphased c))) m"
      "\<forall>es \<in> set (net_endpoint_setups st). has_peer m (nes_getter_for_incoming es)"
    using paired_with_has_peer by metis
  have "p \<notin> unpaired m" for p
  proof
    assume p: "p \<in> unpaired m"
    then have no: "\<not> has_peer m p" by (auto simp: unpaired_def has_peer_def)
    then have "p \<in> dom (info_of (port_info (cu_ips (unphased c))))"
      using m(2) p by (auto simp: new_ports_paired_def unpaired_def)
    then have "p \<in> unpaired (port_info (cu_ips (unphased c)))"
      using m(1) no by (auto simp: unpaired_def has_peer_def elim: ports_keptD)
    with inv(2) st m(3) no show False by (auto simp: pairing_ok_def)
  qed
  then show ?thesis using c' by (auto simp: pairing_ok_def)
next
  case False
  with run have "c' = c"
    by (auto simp: connect_def split: ConnectorPhased.splits prod.splits res.splits)
  with inv show ?thesis by simp
qed

lemma pairing_ok_sync:
  assumes inv: "conn_inv c" "pairing_ok c" and ok: "interp_ok interp" "net_wf net"
    and run: "sync fuel net interp timeout (c, w) = (r, c', w')" "r \<noteq> Panic" "r \<noteq> OutOfFuel"
  shows "pairing_ok c'"
proof (cases "\<exists>comm. phased c = PhCommunication comm \<and> (\<forall>u. round_result comm \<noteq> Inl (Unrecoverable u))")
  case True
  then obtain comm where comm: "phased c = PhCommunication comm" and usable: "\<forall>u. round_result comm \<noteq> Inl (Unrecoverable u)" by blast
  obtain cr cu' comm' where cs: "connected_sync fuel net interp timeout (unphased c, comm, w) = (cr, cu', comm', w')"
      "cr \<noteq> Panic" "cr \<noteq> OutOfFuel" "unphased c' = cu'"
      "phased c' = PhCommunication (comm'\<lparr>round_result := (case cr of Ok x \<Rightarrow> Inr x | Err e \<Rightarrow> Inl e),
         round_index := round_index comm' + 1\<rparr>)"
    by (rule sync_comm_cases [OF run comm usable])
  from cs(1-3) have "unpaired (port_info (cu_ips cu')) \<subseteq> unpaired (port_info (cu_ips (unphased c)))"
  proof (cases rule: connected_sync_cases)
    case (success ips bpcs dl w1 s0 s predicate states ended)
    from round_decided [OF inv(1) comm usable ok success(4-6)] have "rips (rs_rctx s) = ips"
      by (auto simp: step_ok_def round_ok_def rctx_ok_def)
    with unpaired_nonsync_phase [OF success(4) ok(1)] success(2) show ?thesis by simp
  qed simp_all
  then show ?thesis using cs(4,5) comm by (intro pairing_ok_frame [OF inv(2)]) simp_all
next
  case False
  with run(1) have "c' = c" by (auto simp: sync_def split: ConnectorPhased.splits)
  with inv show ?thesis by simp
qed

lemma pairing_ok_put_get:
  "connector_put port payload c = (r, c') \<Longrightarrow> pairing_ok c \<Longrightarrow> pairing_ok c'"
  "connector_get port c = (r, c') \<Longrightarrow> pairing_ok c \<Longrightarrow> pairing_ok c'"
  "next_batch c = (r', c') \<Longrightarrow> pairing_ok c \<Longrightarrow> pairing_ok c'"
  by (auto simp: connector_put_def connector_get_def next_batch_def set_last_batch_def pairing_ok_def port_op_access_Ok(2)
      split: res.splits prod.splits if_splits ConnectorPhased.splits)

lemma pairing_ok_new_net_port:
  "new_net_port pol addr epol c = (r, c') \<Longrightarrow> pairing_ok c \<Longrightarrow> pairing_ok c'"
  by (auto simp: new_net_port_def pairing_ok_def act_option_def Let_def unpaired_insert bind_eq_Some_conv
      split: ConnectorPhased.splits option.splits prod.splits) blast

lemma pairing_ok_new_udp:
  assumes "new_udp_mediator_component la pa c = (r, c')" "pairing_ok c"
  shows "pairing_ok c'"
proof (cases r)
  case (Ok x)
  obtain st where st: "phased c = PhSetup st"
    using assms(1) Ok by (cases "phased c") (auto simp: new_udp_mediator_component_def)
  then have "(\<exists>st'. phased c' = PhSetup st' \<and> net_endpoint_setups st' = net_endpoint_setups st) \<and>
      unpaired (port_info (cu_ips (unphased c'))) \<subseteq> unpaired (port_info (cu_ips (unphased c)))"
    using assms(1) Ok
    by (auto simp: new_udp_mediator_component_def act_option_Ok_iff bind_eq_Some_conv Let_def unpaired_insert)
  with assms(2) st show ?thesis by (auto simp: pairing_ok_def)
qed (use assms in \<open>auto simp: new_udp_mediator_component_def act_option_def split: ConnectorPhased.splits option.splits prod.splits\<close>)

lemma add_component_not_Ok:
  "add_component interp module_name ident ports c = (r, c') \<Longrightarrow> r \<noteq> Ok () \<Longrightarrow> c' = c"
  by (auto simp: add_component_def Let_def act_bind_def act_defs split: option.splits res.splits if_splits prod.splits)

lemma pairing_ok_add_component:
  assumes "add_component interp module_name ident ports c = (r, c')" "pairing_ok c"
  shows "pairing_ok c'"
proof (cases "r = Ok ()")
  case True
  obtain new_cid idm m where
      "move_ports (native_component_id (unphased c)) new_cid ports (port_info (cu_ips (unphased c))) = Some m"
    and "cu_ips (unphased c') = (cu_ips (unphased c))\<lparr>port_info := m, id_manager := idm\<rparr>"
      "phased c' = (case phased c of
              PhCommunication comm \<Rightarrow> PhCommunication (comm\<lparr>native_batches := map (batch_forget ports) (native_batches comm)\<rparr>)
            | PhSetup st \<Rightarrow> PhSetup st)"
    using assms(1) unfolding True add_component_def Let_def
    by (auto simp: act_bind_Ok_iff act_option_Ok_iff bind_eq_Some_conv act_err_def act_res_def split: option.splits if_splits)
  with unpaired_move_ports [of _ new_cid ports _ m] show ?thesis
    by (intro pairing_ok_frame [OF assms(2)]) (auto split: ConnectorPhased.splits)
qed (use assms add_component_not_Ok in blast)

lemma conn_inv_step:
  assumes "user_step net os interp cw cw'" "interp_ok interp" "net_wf net" "conn_inv (fst cw)" "pairing_ok (fst cw)"
  shows "conn_inv (fst cw') \<and> pairing_ok (fst cw')"
  using assms
proof (induction rule: user_step.induct)
  case (new_port_pair c ports c' w)
  then obtain ips' where "nonsync_new_port_pair (native_component_id (unphased c)) (cu_ips (unphased c)) = Some (ports, ips')"
    "c' = c\<lparr>unphased := (unphased c)\<lparr>cu_ips := ips'\<rparr>\<rparr>"
    by (auto simp: connector_new_port_pair_def bind_eq_Some_conv)
  with unpaired_port_pair have "pairing_ok c'"
    by (intro pairing_ok_frame [OF new_port_pair.prems(4) [simplified]]) (auto split: ConnectorPhased.splits)
  with new_port_pair conn_inv_new_port_pair show ?case by (cases ports) auto
next
  case (add_component mn ident ports c r c' w)
  have "conn_inv c'"
  proof (cases "r = Ok ()")
    case False
    with add_component add_component_not_Ok [OF add_component.hyps] show ?thesis by simp
  qed (use add_component conn_inv_add_component in auto)
  with add_component pairing_ok_add_component show ?case by auto
next
  case (new_net_port pol addr epol c r c' w)
  with conn_inv_new_net_port pairing_ok_new_net_port show ?case by auto
next
  case (new_udp la pa c r c' w)
  with conn_inv_udp_mediator pairing_ok_new_udp show ?case by auto
next
  case (next_batch c r c' w)
  with conn_inv_next_batch pairing_ok_put_get(3) show ?case by auto
next
  case (put port payload c r c' w)
  with conn_inv_put pairing_ok_put_get(1) show ?case by auto
next
  case (get port c r c' w)
  with conn_inv_get pairing_ok_put_get(2) show ?case by auto
next
  case (connect fuel timeout c w r c' w' own)
  with pairing_ok_connect [of c net own os w fuel timeout r c' w'] show ?case by simp
next
  case (sync fuel timeout c w r c' w')
  with conn_inv_sync pairing_ok_sync show ?case by auto
qed

lemma reachable_ok:
  assumes "reachable net os interp cw" "interp_ok interp" "net_wf net"
  shows "conn_inv (fst cw) \<and> pairing_ok (fst cw)"
  using assms
proof (induction rule: reachable.induct)
  case (start pd conn_id c w)
  then have "pairing_ok c"
    by (auto simp: Connector_new_def bind_eq_Some_conv pairing_ok_def unpaired_def PortInfoMap_default_def)
  with start conn_inv_new show ?case by auto
next
  case (step cw cw')
  with conn_inv_step show ?case by blast
qed

section \<open>Properties\<close>

text \<open>For the witnesses: an operating system that grants everything, and a fresh connector.\<close>

definition quiet_os :: "unit Os" where
  "quiet_os = \<lparr>poll_new = \<lambda>w. (True, w), poll_register = \<lambda>_ _ _ w. (True, w), poll_deregister = \<lambda>_ w. (True, w),
     poll_reregister = \<lambda>_ _ _ w. (True, w), poll_setup = \<lambda>_ w. (Some [], w), tcp_connect = \<lambda>_ w. (None, w), tcp_bind = \<lambda>_ w. (None, w),
     tcp_accept = \<lambda>_ w. (AcceptError, w), listener_addr = \<lambda>_ _. Some (SocketAddr [] 0), udp_bind = \<lambda>_ w. (None, w),
     udp_connect = \<lambda>_ _ w. (True, w), udp_addr = \<lambda>_ _. Some (SocketAddr [] 0)\<rparr>"

definition fresh_connector :: "unit Connector" where
  "fresh_connector = \<lparr>unphased = \<lparr>proto_description = empty_pd, proto_components = [],
       cu_ips = sample_ips,
       native_component_id = sample_cid\<rparr>,
     phased = PhSetup \<lparr>net_endpoint_setups = [], udp_endpoint_setups = []\<rparr>\<rparr>"

lemma fresh_connector_new: "Connector_new empty_pd 7 = Some fresh_connector"
  by (simp add: Connector_new_def fresh_connector_def IdManager_new_def new_component_id_def U32Stream_next_def u32_MAX_def sample_ips_def)

text \<open>
  A UDP mediator does not have symmetric channels: the ports \<open>nout\<close> and \<open>uout\<close> are both
  putters whose peer is \<open>uin\<close>, so they share their speculative variable.
\<close>

lemma udp_mediator_shares_variable:
  "\<exists>c' :: unit Connector. new_udp_mediator_component la pa fresh_connector = (Ok (PortId (MkId 7 1), PortId (MkId 7 0)), c') \<and>
     spec_var_for (port_info (cu_ips (unphased c'))) (PortId (MkId 7 1)) = Some (SpecVar (PortId (MkId 7 2))) \<and>
     spec_var_for (port_info (cu_ips (unphased c'))) (PortId (MkId 7 3)) = Some (SpecVar (PortId (MkId 7 2))) \<and>
     \<not> channels_ok (port_info (cu_ips (unphased c')))"
proof -
  obtain c' where c': "new_udp_mediator_component la pa fresh_connector = (Ok (PortId (MkId 7 1), PortId (MkId 7 0)), c')"
    and ports: "\<exists>i1 i3. info_of (port_info (cu_ips (unphased c'))) (PortId (MkId 7 1)) = Some i1 \<and> polarity i1 = Putter \<and> peer i1 = Some (PortId (MkId 7 2)) \<and>
      info_of (port_info (cu_ips (unphased c'))) (PortId (MkId 7 3)) = Some i3 \<and> polarity i3 = Putter \<and> peer i3 = Some (PortId (MkId 7 2))"
    by (simp add: new_udp_mediator_component_def fresh_connector_def act_option_def sample_ips_def new_port_id_def new_component_id_def
        IdManager_new_def U32Stream_next_def u32_MAX_def Let_def table_simps)
  let ?m = "port_info (cu_ips (unphased c'))"
  have v: "spec_var_for ?m (PortId (MkId 7 1)) = Some (SpecVar (PortId (MkId 7 2)))"
    "spec_var_for ?m (PortId (MkId 7 3)) = Some (SpecVar (PortId (MkId 7 2)))"
    using ports by (auto simp: spec_var_for_Putter)
  have "\<not> channels_ok ?m"
    using spec_var_for_eq_iff [OF _ _ v] ports by auto
  with c' v show ?thesis by blast
qed

text \<open>
  And a network with one peer, of identifier 3, which presents its port, echoes the wave of
  the connector (of identifier 7) and takes it as its parent. The world holds the bytes that
  have not been read; a byte stands for a message.
\<close>

abbreviation peer_info :: MyPortInfo where
  "peer_info \<equiv> \<lparr>mpi_polarity = Getter, mpi_port = PortId (MkId 3 0), mpi_owner = ComponentId (MkId 3 0)\<rparr>"

definition peer_net :: "u8 list Net" where
  "peer_net = \<lparr>stream_read = \<lambda>_ w. ((w, ReadWouldBlock), []), stream_write = \<lambda>_ _ w. (True, w),
     stream_local_addr = \<lambda>_ _. Some (SocketAddr [] 0), sock_recv = \<lambda>_ w. (None, w), sock_send = \<lambda>_ _ w. (True, w),
     poll_events = \<lambda>_ w. (Some [0], w), clock_now = \<lambda>w. (0, w), serialize = \<lambda>_. Some [],
     deserialize = \<lambda>bs. (case bs of [] \<Rightarrow> DeUnexpectedEof
       | b # _ \<Rightarrow> DeOk (SetupMsg (if b = 1 then MyPortInfo peer_info else if b = 2 then LeaderWave 7 else YouAreMyParent)) 1)\<rparr>"

definition peer_os :: "u8 list Os" where
  "peer_os = \<lparr>poll_new = \<lambda>w. (True, w), poll_register = \<lambda>_ _ _ w. (True, w), poll_deregister = \<lambda>_ w. (True, w),
     poll_reregister = \<lambda>_ _ _ w. (True, w),
     poll_setup = \<lambda>_ w. (Some [\<lparr>ev_token = 0, ev_error = False, ev_readable = True, ev_writable = True\<rparr>], w),
     tcp_connect = \<lambda>_ w. (Some 0, w), tcp_bind = \<lambda>_ w. (None, w), tcp_accept = \<lambda>_ w. (AcceptError, w),
     listener_addr = \<lambda>_ _. Some (SocketAddr [] 0), udp_bind = \<lambda>_ w. (None, w), udp_connect = \<lambda>_ _ w. (True, w),
     udp_addr = \<lambda>_ _. Some (SocketAddr [] 0)\<rparr>"

definition net_connector :: "unit Connector" where
  "net_connector = snd (new_net_port Putter (SocketAddr [] 0) Active fresh_connector)"

lemma net_connector_eq: "net_connector = fresh_connector\<lparr>
    unphased := (unphased fresh_connector)\<lparr>cu_ips := sample_ips\<lparr>
      port_info := \<lparr>port_map = [(PortId (MkId 7 0), \<lparr>owner = sample_cid, peer = None, polarity = Putter, route = LocalComponent\<rparr>)],
         owned = [(sample_cid, [PortId (MkId 7 0)])]\<rparr>,
      id_manager := (id_manager sample_ips)\<lparr>port_suffix_stream := \<lparr>snext = 1\<rparr>\<rparr>\<rparr>\<rparr>,
    phased := PhSetup \<lparr>net_endpoint_setups = [\<lparr>nes_getter_for_incoming = PortId (MkId 7 0), nes_sock_addr = SocketAddr [] 0,
      nes_endpoint_polarity = Active\<rparr>], udp_endpoint_setups = []\<rparr>\<rparr>"
  by (simp add: net_connector_def new_net_port_def fresh_connector_def act_option_def sample_ips_def new_port_id_def IdManager_new_def
      U32Stream_next_def u32_MAX_def Let_def insert_port_def owned_extend_def PortInfoMap_default_def ports_owned_by_def)

lemma token_0: "TokenTarget_into (TokenNetEndpoint 0) = Some 0" "TokenTarget_from 0 = TokenNetEndpoint 0"
  by (simp_all add: TokenTarget_into_def TokenTarget_from_def HALFWAY_INDEX_def)

abbreviation net_setup :: NetEndpointSetup where
  "net_setup \<equiv> \<lparr>nes_getter_for_incoming = PortId (MkId 7 0), nes_sock_addr = SocketAddr [] 0, nes_endpoint_polarity = Active\<rparr>"

definition net_ports :: PortInfoMap where
  "net_ports = \<lparr>port_map = [(PortId (MkId 7 0), \<lparr>owner = sample_cid, peer = Some (PortId (MkId 3 0)), polarity = Putter, route = LocalComponent\<rparr>),
       (PortId (MkId 3 0), \<lparr>owner = ComponentId (MkId 3 0), peer = Some (PortId (MkId 7 0)), polarity = Getter, route = NetEndpoint 0\<rparr>)],
     owned = [(sample_cid, [PortId (MkId 7 0)]), (ComponentId (MkId 3 0), [PortId (MkId 3 0)])]\<rparr>"

abbreviation net_todo :: "u8 list \<Rightarrow> bool \<Rightarrow> PortId option \<Rightarrow> NetTodo" where
  "net_todo bytes sent recvd \<equiv> \<lparr>todo_endpoint = PeerInfoRecving \<lparr>ne_inbox = bytes, ne_stream = 0\<rparr>,
      endpoint_setup = net_setup, sent_local_port = sent, recv_peer_port = recvd\<rparr>"

lemma VecSet_insert_first: "VecSet_insert x \<lparr>vec = []\<rparr> = (True, \<lparr>vec = [x]\<rparr>)"
  by (simp add: VecSet_insert_def binary_search_def bisect.simps vec_insert_def)

lemma peer_setup_step:
  assumes "setup_incomplete s = [TokenNetEndpoint 0]" "net_todos s = [net_todo [] False None]" "last_retry_at s = 0" "ss_world s = [1, 2, 3]"
    "net_connect_to_retry s = []" "ss_port_info s = port_info (cu_ips (unphased net_connector))"
    "net_polled_undrained s = \<lparr>vec = []\<rparr>"
  shows "setup_step (Suc fuel) peer_net peer_os [] None s = (Ok (), s\<lparr>ss_world := [], setup_incomplete := [],
    net_todos := [net_todo [2, 3] True (Some (PortId (MkId 3 0)))], ss_port_info := net_ports, net_polled_undrained := \<lparr>vec = [0]\<rparr>\<rparr>)"
  using assms
  by (simp add: setup_step_def setup_remaining_def retry_all_def act_bind_def act_defs os_call_def peer_os_def peer_net_def RETRY_PERIOD_def
    setup_event_def token_0 net_setup_event_def accept_step_def exchange_port_info_def send_local_port_def net_endpoint_send_def
    net_connector_eq set_todo_def recv_setup_msg_def try_recv_def handle_setup_msg_def learn_peer_def
    insert_port_def owned_extend_def ports_owned_by_def VecSet_insert_first net_ports_def)

lemma peer_os_simps:
  "poll_new peer_os w = (True, w)" "poll_register peer_os src tok i w = (True, w)" "poll_reregister peer_os src tok i w = (True, w)"
  "tcp_connect peer_os addr w = (Some 0, w)" "clock_now peer_net w = (0, w)"
  by (simp_all add: peer_os_def peer_net_def)

lemma peer_net_simps: "serialize peer_net m = Some []" "stream_write peer_net i bs w = (True, w)"
  by (simp_all add: peer_net_def)

lemma peer_setup:
  "\<exists>ss. setup_endpoints_and_pair_ports (Suc (Suc fuel)) peer_net peer_os [net_setup] [] None
     (setup_init (port_info (cu_ips (unphased net_connector))) [1, 2, 3]) =
   (Ok \<lparr>delayed_messages = [], undelayed_messages = [],
       net_endpoint_store = \<lparr>endpoint_exts = [\<lparr>net_endpoint = \<lparr>ne_inbox = [2, 3], ne_stream = 0\<rparr>, net_getter_for_incoming = PortId (MkId 7 0)\<rparr>],
         polled_undrained = \<lparr>vec = [0]\<rparr>\<rparr>,
       udp_endpoint_store = \<lparr>endpoint_exts = [], polled_undrained = \<lparr>vec = []\<rparr>\<rparr>\<rparr>, ss) \<and> ss_world ss = [] \<and> ss_port_info ss = net_ports"
  by (simp add: setup_endpoints_and_pair_ports_def act_bind_def os_call_def os_unwrap_def token_of_def act_defs new_net_todo_def token_0
      all_targets_def setup_init_def peer_setup_step peer_os_simps setup_finish_def finish_net_def)

abbreviation peer_store :: "u8 list \<Rightarrow> NetEndpointExt EndpointStore" where
  "peer_store bs \<equiv> \<lparr>endpoint_exts = [\<lparr>net_endpoint = \<lparr>ne_inbox = bs, ne_stream = 0\<rparr>, net_getter_for_incoming = PortId (MkId 7 0)\<rparr>],
     polled_undrained = (if bs = [] then \<lparr>vec = []\<rparr> else \<lparr>vec = [0]\<rparr>)\<rparr>"

lemma peer_recv:
  "try_recv_any_setup (Suc (Suc fuel)) peer_net None \<lparr>world = [], em = \<lparr>delayed_messages = dm, undelayed_messages = [],
       net_endpoint_store = peer_store (b # bs), udp_endpoint_store = u\<rparr>\<rparr> =
    (Ok (0, SetupMsg (if b = 1 then MyPortInfo peer_info else if b = 2 then LeaderWave 7 else YouAreMyParent)),
     \<lparr>world = [], em = \<lparr>delayed_messages = dm, undelayed_messages = [], net_endpoint_store = peer_store bs, udp_endpoint_store = u\<rparr>\<rparr>)"
  by (simp add: try_recv_any_setup_def vec_pop_def try_recv_undrained_net_def VecSet_pop_def peer_net_def try_recv_def
      set_net_endpoint_def set_net_undrained_def VecSet_insert_first)

lemma peer_neighborhood:
  "\<exists>s. init_neighborhood (Suc (Suc (Suc fuel))) peer_net 7 None
     \<lparr>world = [], em = \<lparr>delayed_messages = [], undelayed_messages = [],
       net_endpoint_store = \<lparr>endpoint_exts = [\<lparr>net_endpoint = \<lparr>ne_inbox = [2, 3], ne_stream = 0\<rparr>, net_getter_for_incoming = PortId (MkId 7 0)\<rparr>],
         polled_undrained = \<lparr>vec = [0]\<rparr>\<rparr>,
       udp_endpoint_store = \<lparr>endpoint_exts = [], polled_undrained = \<lparr>vec = []\<rparr>\<rparr>\<rparr>\<rparr> =
   (Ok \<lparr>parent = None, children = \<lparr>vec = [0]\<rparr>\<rparr>, s)"
  by (simp add: init_neighborhood_def Let_def act_bind_def act_defs num_net_endpoints_def do_wave_def index_iter_def send_to_setup_def send_to_def
     net_endpoint_send_def undelay_all_def peer_net_simps election_step_def peer_recv [of _ _ 2 "[3]", simplified] peer_recv [of _ _ 3 "[]", simplified] election_wave_def VecSet_new_def wave_msg_def)
lemma net_connector_new: "new_net_port Putter (SocketAddr [] 0) Active fresh_connector = (Ok (PortId (MkId 7 0)), net_connector)"
  by (simp add: net_connector_def new_net_port_def fresh_connector_def act_option_def sample_ips_def new_port_id_def IdManager_new_def
      U32Stream_next_def u32_MAX_def)

lemma net_connector_inv: "conn_inv net_connector"
  using conn_inv_new_net_port [OF conn_inv_new [OF fresh_connector_new] net_connector_new] .

lemma peer_net_wf: "net_wf peer_net"
  by (auto simp: net_wf_def peer_net_def msg_wf_def split: list.splits)

definition net_owner :: "PortId \<Rightarrow> ComponentId" where
  "net_owner p = (if p = PortId (MkId 7 0) then sample_cid else ComponentId (MkId 3 0))"

lemma delivers_decoded:
  "delivers net os w pi \<Longrightarrow> \<exists>bytes n. deserialize net bytes = DeOk (SetupMsg (MyPortInfo pi)) n"
  unfolding delivers_def by (force simp: try_recv_def split: prod.splits res.splits Deserialized.splits)

lemma peer_net_delivers: "delivers peer_net os w pi \<Longrightarrow> pi = peer_info"
proof -
  assume "delivers peer_net os w pi"
  from delivers_decoded [OF this] obtain bytes n where "deserialize peer_net bytes = DeOk (SetupMsg (MyPortInfo pi)) n" by blast
  then show ?thesis by (cases bytes) (auto simp: peer_net_def split: if_splits)
qed

lemma peer_net_honest: "peers_honest net_owner (cu_ips (unphased net_connector)) peer_net peer_os w"
  by (auto simp: peers_honest_def peer_info_ok_def net_connector_eq fresh_connector_def sample_ips_def IdManager_new_def net_owner_def
      dest!: peer_net_delivers)

definition net_connected :: "unit Connector" where
  "net_connected = fst (snd (connect 5 peer_net peer_os None (net_connector, [1, 2, 3])))"

lemma net_connect_eq: "\<exists>s :: u8 list NetState. connect 5 peer_net peer_os None (net_connector, [1, 2, 3]) =
    (Ok (), \<lparr>unphased = (unphased net_connector)\<lparr>cu_ips := (cu_ips (unphased net_connector))\<lparr>port_info := net_ports\<rparr>\<rparr>,
       phased = PhCommunication \<lparr>round_index = 0, endpoint_manager = em s, neighborhood = \<lparr>parent = None, children = \<lparr>vec = [0]\<rparr>\<rparr>,
         native_batches = [NativeBatch_default], round_result = Inr None\<rparr>\<rparr>, world s)"
proof -
  obtain ss where ss: "setup_endpoints_and_pair_ports 5 peer_net peer_os [net_setup] [] None
     (setup_init (port_info (cu_ips (unphased net_connector))) [1, 2, 3]) =
   (Ok \<lparr>delayed_messages = [], undelayed_messages = [], net_endpoint_store = peer_store [2, 3],
       udp_endpoint_store = \<lparr>endpoint_exts = [], polled_undrained = \<lparr>vec = []\<rparr>\<rparr>\<rparr>, ss)" "ss_world ss = []" "ss_port_info ss = net_ports"
    using peer_setup [of 3] by (auto simp: numeral_eq_Suc)
  obtain s where s: "init_neighborhood 5 peer_net 7 None
     \<lparr>world = [], em = \<lparr>delayed_messages = [], undelayed_messages = [], net_endpoint_store = peer_store [2, 3],
       udp_endpoint_store = \<lparr>endpoint_exts = [], polled_undrained = \<lparr>vec = []\<rparr>\<rparr>\<rparr>\<rparr> =
   (Ok \<lparr>parent = None, children = \<lparr>vec = [0]\<rparr>\<rparr>, s)"
    using peer_neighborhood [of 2] by (auto simp: numeral_eq_Suc)
  have "idm_connector_id (id_manager (cu_ips (unphased net_connector))) = 7"
    "phased net_connector = PhSetup \<lparr>net_endpoint_setups = [net_setup], udp_endpoint_setups = []\<rparr>"
    by (simp_all add: net_connector_eq fresh_connector_def sample_ips_def IdManager_new_def)
  with ss s show ?thesis by (intro exI [of _ s]) (simp add: connect_def connect_inner_def)
qed

lemma net_connects: "\<exists>w. connect 5 peer_net peer_os None (net_connector, [1, 2, 3]) = (Ok (), net_connected, w)"
  using net_connect_eq unfolding net_connected_def by (metis fst_conv snd_conv)

lemma net_connected_ports: "port_info (cu_ips (unphased net_connected)) = net_ports" "is_connected net_connected"
  using net_connect_eq by (elim exE, simp add: net_connected_def is_connected_def)+

text \<open>
  C6: a successful \<open>connect\<close> pairs every network port with the port that its peer presented.
  All ports that were known keep their owner, polarity and route, and all but the network
  ports stay as they were. Every network port has as its peer a port that arrived from the
  network with the other polarity and that the table knows. Every port that is new in the
  table arrived from the network; it has the owner and polarity it was presented with, is
  reached through one of the endpoints, and its peer is the network port of this endpoint
  (unless it is a network port itself).
  The connector has one endpoint per network port and is ready for its first round with a
  single empty batch; nothing but the port table changes in the rest of it. The peers that
  answer are assumed to have other connector identifiers and to tell the truth about the
  owners of their ports (\<open>peers_honest\<close>).
\<close>

theorem connect_pairs_ports:
  assumes "conn_inv c" "phased c = PhSetup st" "length (net_endpoint_setups st) < 2 ^ 64"
    and "net_wf net" "peers_honest own (cu_ips (unphased c)) net os w"
    and "connect fuel net os timeout (c, w) = (Ok (), c', w')"
  shows "\<exists>m comm. unphased c' = (unphased c)\<lparr>cu_ips := (cu_ips (unphased c))\<lparr>port_info := m\<rparr>\<rparr> \<and>
    phased c' = PhCommunication comm \<and> ips_base (cu_ips (unphased c')) \<and>
    ports_kept (port_info (cu_ips (unphased c))) m \<and>
    ports_learned net os w (net_endpoint_setups st) (port_info (cu_ips (unphased c))) m \<and>
    (\<forall>es \<in> set (net_endpoint_setups st). paired_with net os w m (nes_getter_for_incoming es)) \<and>
    num_net_endpoints (endpoint_manager comm) = length (net_endpoint_setups st) \<and>
    round_index comm = 0 \<and> native_batches comm = [NativeBatch_default] \<and> round_result comm = Inr None"
  by (rule connect_spec [OF assms]) (auto simp: conn_inv_def)

theorem connect_pairs_ports_witness:
  "\<exists>comm. phased net_connected = PhCommunication comm \<and> num_net_endpoints (endpoint_manager comm) = 1 \<and>
     (\<exists>info. info_of (port_info (cu_ips (unphased net_connected))) (PortId (MkId 7 0)) = Some info \<and>
        peer info = Some (PortId (MkId 3 0)))"
proof -
  obtain w where "connect 5 peer_net peer_os None (net_connector, [1, 2, 3]) = (Ok (), net_connected, w)"
    using net_connects ..
  from connect_pairs_ports [OF net_connector_inv _ _ peer_net_wf peer_net_honest this] show ?thesis
    by (auto simp: net_connector_eq fresh_connector_def paired_with_def dest!: peer_net_delivers)
qed

text \<open>
  C5: every connector that a user can reach satisfies the invariant, in whatever order the
  operations are called and whether they succeed or return errors: the two port tables
  agree, identifiers are fresh and distinct, a batch is always selected, and the batches
  mention only ports of the native with the right polarity. A call that panics or does not
  end within its fuel ends the run, and each \<open>connect\<close> is one whose peers are honest
  (\<open>peers_honest\<close>): what can arrive from the network while it runs names ports of other
  connectors with their owners. A lying peer could enter an entry that breaks the tables.
\<close>

theorem reachable_inv:
  assumes "reachable net os interp (c, w)" "interp_ok interp" "net_wf net"
  shows "conn_inv c"
  using reachable_ok [OF assms] by simp

text \<open>
  C7: in every connected connector that a user can reach, by a \<open>connect\<close> with honest peers
  as above, all ports have a speculative variable: the lookup of the peer of a putter, which
  the source unwraps, succeeds.
\<close>

theorem reachable_spec_vars:
  assumes "reachable net os interp (c, w)" "interp_ok interp" "net_wf net" "is_connected c"
    and "p \<in> dom (info_of (port_info (cu_ips (unphased c))))"
  shows "spec_var_for (port_info (cu_ips (unphased c))) p \<noteq> None"
proof -
  obtain info where info: "info_of (port_info (cu_ips (unphased c))) p = Some info" using assms(5) by blast
  have "peer info \<noteq> None"
    using reachable_ok [OF assms(1-3)] assms(4) info
    by (auto simp: pairing_ok_def unpaired_def is_connected_def split: ConnectorPhased.splits)
  then show ?thesis
    using info by (cases "polarity info") (auto simp: spec_var_for_Getter spec_var_for_Putter)
qed

lemma idle_net_connected_reachable: "\<exists>w. reachable peer_net peer_os idle_interp (net_connected, w)"
proof -
  obtain w where con: "connect 5 peer_net peer_os None (net_connector, [1, 2, 3]) = (Ok (), net_connected, w)"
    using net_connects ..
  have "user_step peer_net peer_os idle_interp (net_connector, [1, 2, 3]) (net_connected, w)"
    by (rule user_step.connect [OF con _ _ peer_net_honest]) (auto simp: net_connector_eq fresh_connector_def)
  moreover have "user_step peer_net peer_os idle_interp (fresh_connector, [1, 2, 3]) (net_connector, [1, 2, 3])"
    by (rule user_step.new_net_port [OF net_connector_new])
  moreover have "reachable peer_net peer_os idle_interp (fresh_connector, [1, 2, 3])"
    by (rule reachable.start [OF fresh_connector_new])
  ultimately show ?thesis by (meson reachable.step)
qed

theorem reachable_inv_witness: "conn_inv net_connected"
  using idle_net_connected_reachable reachable_inv [OF _ idle_interp_ok peer_net_wf] by blast

theorem reachable_spec_vars_witness:
  "spec_var_for (port_info (cu_ips (unphased net_connected))) (PortId (MkId 7 0)) \<noteq> None"
proof -
  obtain w where "reachable peer_net peer_os idle_interp (net_connected, w)" using idle_net_connected_reachable ..
  from reachable_spec_vars [OF this idle_interp_ok peer_net_wf net_connected_ports(2), of "PortId (MkId 7 0)"]
  show ?thesis by (simp add: net_connected_ports(1) net_ports_def)
qed

text \<open>
  C10: operations that return an error leave the connector as it was; \<open>sync\<close>, which records
  the failure of the round, is treated on its own.
\<close>

theorem errors_leave_unchanged:
  assumes "connect fuel net os timeout (c, w) = (Err e1, c', w') \<or> add_component interp module_name ident ports c = (Err e2, c') \<or>
    connector_put port payload c = (Err e3, c') \<or> connector_get port c = (Err e4, c') \<or> next_batch c = (Err e5, c') \<or>
    new_net_port pol addr epol c = (Err e6, c') \<or> new_udp_mediator_component la pa c = (Err e7, c')"
  shows "c' = c"
proof -
  have "connect fuel net os timeout (c, w) = (Err e1, c', w') \<Longrightarrow> c' = c"
    by (auto simp: connect_def split: ConnectorPhased.splits prod.splits res.splits)
  moreover have "add_component interp module_name ident ports c = (Err e2, c') \<Longrightarrow> c' = c"
    using add_component_not_Ok by blast
  moreover have "connector_put port payload c = (Err e3, c') \<Longrightarrow> c' = c" "connector_get port c = (Err e4, c') \<Longrightarrow> c' = c"
    by (auto simp: connector_put_def connector_get_def split: res.splits if_splits)
  moreover have "next_batch c = (Err e5, c') \<Longrightarrow> c' = c" "new_net_port pol addr epol c = (Err e6, c') \<Longrightarrow> c' = c"
    "new_udp_mediator_component la pa c = (Err e7, c') \<Longrightarrow> c' = c"
    by (auto simp: next_batch_def new_net_port_def new_udp_mediator_component_def act_option_def
        split: ConnectorPhased.splits option.splits)
  ultimately show ?thesis using assms by blast
qed

theorem errors_leave_unchanged_witness:
  "snd (connector_put (PortId (MkId 7 0)) [] net_connector) = net_connector"
proof -
  have "connector_put (PortId (MkId 7 0)) [] net_connector = (Err NotConnected, snd (connector_put (PortId (MkId 7 0)) [] net_connector))"
    by (simp add: connector_put_def port_op_access_def net_connector_eq fresh_connector_def)
  from errors_leave_unchanged [OF disjI2 [OF disjI2 [OF disjI1 [OF this]]]] show ?thesis .
qed

text \<open>A port that the native may hand over for a parameter of polarity \<open>pol\<close>.\<close>

abbreviation movable :: "PortInfoMap \<Rightarrow> ComponentId \<Rightarrow> Polarity \<Rightarrow> PortId \<Rightarrow> bool" where
  "movable m cid pol p \<equiv> \<exists>info. info_of m p = Some info \<and> owner info = cid \<and> polarity info = pol"

lemma check_moved_ports_Err:
  "check_moved_ports m cid it = Err e \<Longrightarrow>
     \<exists>i pol p. i < length it \<and> it ! i = (pol, p) \<and> (\<forall>j < i. movable m cid (fst (it ! j)) (snd (it ! j))) \<and>
       (e = UnknownPort p \<and> \<not> (\<exists>info. info_of m p = Some info \<and> owner info = cid) \<or>
        e = WrongPortPolarity p pol \<and> (\<exists>info. info_of m p = Some info \<and> owner info = cid \<and> polarity info \<noteq> pol))"
proof (induction m cid it rule: check_moved_ports.induct)
  case (2 m cid pol p it)
  show ?case
  proof (cases "movable m cid pol p")
    case True
    then have "check_moved_ports m cid it = Err e" using "2.prems" by auto
    from "2.IH" [OF _ _ _ this] True obtain i pol' p' where i: "i < length it" "it ! i = (pol', p')"
      "\<forall>j < i. movable m cid (fst (it ! j)) (snd (it ! j))"
      "e = UnknownPort p' \<and> \<not> (\<exists>info. info_of m p' = Some info \<and> owner info = cid) \<or>
        e = WrongPortPolarity p' pol' \<and> (\<exists>info. info_of m p' = Some info \<and> owner info = cid \<and> polarity info \<noteq> pol')"
      by blast
    from i(3) True have "\<forall>j < Suc i. movable m cid (fst (((pol, p) # it) ! j)) (snd (((pol, p) # it) ! j))"
      by (simp add: nth_Cons split: nat.split)
    with i show ?thesis by (intro exI [of _ "Suc i"] exI [of _ pol'] exI [of _ p']) simp
  next
    case False
    with "2.prems" have "e = UnknownPort p \<and> \<not> (\<exists>info. info_of m p = Some info \<and> owner info = cid) \<or>
        e = WrongPortPolarity p pol \<and> (\<exists>info. info_of m p = Some info \<and> owner info = cid \<and> polarity info \<noteq> pol)"
      by (auto split: option.splits if_splits)
    then show ?thesis by (intro exI [of _ 0] exI [of _ pol] exI [of _ p]) simp
  qed
qed simp

lemma check_moved_ports_total: "check_moved_ports m cid it \<noteq> Panic" "check_moved_ports m cid it \<noteq> OutOfFuel"
  by (induction m cid it rule: check_moved_ports.induct) (auto split: option.splits)

lemma act_option_outcome: "act_option f s = (r, s') \<Longrightarrow> (\<exists>x. r = Ok x) \<or> r = Panic"
  by (auto simp: act_option_def split: option.splits)

lemma bind_res_Err_iff: "bind_res m f = Err e \<longleftrightarrow> m = Err e \<or> (\<exists>x. m = Ok x \<and> f x = Err e)"
  by (cases m) auto

lemma component_polarities_Err:
  "component_polarities pd module_name ident = Err e \<Longrightarrow> e \<in> {NoSuchModule, NoSuchComponent, NonPortTypeParameters}"
proof -
  have get: "arena_get xs i \<noteq> Err e'" for xs :: "'x list" and i and e' :: AddComponentError
    by (simp add: arena_get_def)
  have 1: "check_port_params h ps = Err e \<Longrightarrow> e = NonPortTypeParameters" for h ps
  proof (induction ps)
    case (Cons p ps)
    then obtain v where v: "arena_get (heap_variables h) p = (Ok v :: (Variable, AddComponentError) res)"
      by (auto simp: bind_res_Err_iff get)
    with Cons show ?case
      by (cases "var_parser_type v"; cases "hd (var_parser_type v)") auto
  qed simp
  have 2: "collect_polarities h ps \<noteq> Err e" for h ps
  proof (induction ps)
    case (Cons p ps)
    have "(case v of PtInput # _ \<Rightarrow> bind_res (collect_polarities h ps) (\<lambda>r. Ok (Getter # r))
      | PtOutput # _ \<Rightarrow> bind_res (collect_polarities h ps) (\<lambda>r. Ok (Putter # r)) | _ \<Rightarrow> Panic) \<noteq> Err e" for v
      using Cons by (cases v; cases "hd v") (auto simp: bind_res_Err_iff)
    then show ?case by (auto simp: bind_res_Err_iff get)
  qed simp
  have 3: "get_definition_ident h ds i \<noteq> (Err e :: (AstId option, AddComponentError) res)" for h ds i
    by (induction ds) (auto simp: bind_res_Err_iff get split: if_splits)
  assume "component_polarities pd module_name ident = Err e"
  then show ?thesis
    by (auto simp: component_polarities_def unwrap_def bind_res_Err_iff get 2 3 dest: 1 split: option.splits if_splits)
qed

text \<open>
  C9: adding a component succeeds, or panics on exhausted identifiers or a broken
  description, only when its ports are distinct and, unless the lookup of the component
  panics, belong to the native and have the polarities that the component asks for; and
  every error says what is wrong with the
  arguments: the first port that repeats an earlier one, the number of parameters of the
  component, the first port that cannot be handed over because it is not the native's, or
  because its polarity is not the one of its parameter, which the error names, or what is
  wrong with the name of the component.
\<close>

theorem add_component_outcome:
  assumes "add_component interp module_name ident ports c = (r, c')"
  shows "case r of
      Ok _ \<Rightarrow> distinct ports \<and> (\<exists>pols. component_polarities (proto_description (unphased c)) module_name ident = Ok pols \<and>
          list_all2 (movable (port_info (cu_ips (unphased c))) (native_component_id (unphased c))) pols ports)
    | Err (DuplicatePort p) \<Rightarrow> (\<exists>us vs. ports = us @ p # vs \<and> distinct us \<and> p \<in> set us)
    | Err (WrongNumberOfParamaters n) \<Rightarrow> distinct ports \<and>
          (\<exists>pols. component_polarities (proto_description (unphased c)) module_name ident = Ok pols \<and>
             n = length pols \<and> n \<noteq> length ports)
    | Err (UnknownPort p) \<Rightarrow> distinct ports \<and>
          (\<exists>pols i. component_polarities (proto_description (unphased c)) module_name ident = Ok pols \<and>
             length pols = length ports \<and> i < length ports \<and> ports ! i = p \<and>
             (\<forall>j < i. movable (port_info (cu_ips (unphased c))) (native_component_id (unphased c)) (pols ! j) (ports ! j)) \<and>
             \<not> (\<exists>info. info_of (port_info (cu_ips (unphased c))) p = Some info \<and> owner info = native_component_id (unphased c)))
    | Err (WrongPortPolarity p pol) \<Rightarrow> distinct ports \<and>
          (\<exists>pols i. component_polarities (proto_description (unphased c)) module_name ident = Ok pols \<and>
             length pols = length ports \<and> i < length ports \<and> ports ! i = p \<and> pols ! i = pol \<and>
             (\<forall>j < i. movable (port_info (cu_ips (unphased c))) (native_component_id (unphased c)) (pols ! j) (ports ! j)) \<and>
             (\<exists>info. info_of (port_info (cu_ips (unphased c))) p = Some info \<and> owner info = native_component_id (unphased c) \<and>
                polarity info \<noteq> pol))
    | Err e \<Rightarrow> distinct ports \<and> component_polarities (proto_description (unphased c)) module_name ident = Err e
    | Panic \<Rightarrow> distinct ports \<and> (component_polarities (proto_description (unphased c)) module_name ident = Panic \<or>
          (\<exists>pols. component_polarities (proto_description (unphased c)) module_name ident = Ok pols \<and>
             list_all2 (movable (port_info (cu_ips (unphased c))) (native_component_id (unphased c))) pols ports))
    | OutOfFuel \<Rightarrow> component_polarities (proto_description (unphased c)) module_name ident = OutOfFuel"
proof -
  let ?m = "port_info (cu_ips (unphased c))" and ?ncid = "native_component_id (unphased c)"
    and ?cp = "component_polarities (proto_description (unphased c)) module_name ident"
  show ?thesis
  proof (cases "duplicate_port ports")
    case (Some p)
    with duplicate_port_first [of ports] have "\<exists>us vs. ports = us @ p # vs \<and> distinct us \<and> p \<in> set us" by simp
    moreover have "r = Err (DuplicatePort p)" using Some assms by (simp add: add_component_def)
    ultimately show ?thesis by simp
  next
    case None
    with duplicate_port_first [of ports] have dist: "distinct ports" by simp
    note eq = assms [unfolded add_component_def Let_def None option.case]
    show ?thesis
    proof (cases ?cp)
      case (Err e)
      with eq dist component_polarities_Err [OF Err] show ?thesis by (auto simp: act_bind_def act_res_def)
    next
      case (Ok pols)
      show ?thesis
      proof (cases "length pols = length ports")
        case False
        with eq dist Ok show ?thesis by (auto simp: act_bind_def act_res_def act_err_def)
      next
        case len: True
        then have "\<not> length pols \<noteq> length ports" by simp
        note eq' = eq [unfolded act_bind_def act_res_def Ok prod.case res.case if_not_P [OF this]]
        show ?thesis
        proof (cases "check_moved_ports ?m ?ncid (zip pols ports)")
          case (Err e)
          with eq' have "r = Err e" by simp
          moreover from check_moved_ports_Err [OF Err] len obtain i where
            "i < length ports" "\<forall>j < i. movable ?m ?ncid (pols ! j) (ports ! j)"
            "e = UnknownPort (ports ! i) \<and> \<not> (\<exists>info. info_of ?m (ports ! i) = Some info \<and> owner info = ?ncid) \<or>
             e = WrongPortPolarity (ports ! i) (pols ! i) \<and>
               (\<exists>info. info_of ?m (ports ! i) = Some info \<and> owner info = ?ncid \<and> polarity info \<noteq> pols ! i)"
            by auto
          ultimately show ?thesis using dist len Ok by auto
        next
          case (Ok u)
          then have "list_all2 (movable ?m ?ncid) pols ports"
            using check_moved_ports_Ok [of ?m ?ncid "zip pols ports"] len by (auto simp: list_all2_iff)
          moreover have "r = Ok () \<or> r = Panic"
            using act_option_outcome [OF eq' [unfolded Ok res.case prod.case]] by auto
          ultimately show ?thesis using dist \<open>?cp = Ok pols\<close> by auto
        next
          case Panic
          then show ?thesis using check_moved_ports_total [of ?m ?ncid "zip pols ports"] by simp
        next
          case OutOfFuel
          then show ?thesis using check_moved_ports_total [of ?m ?ncid "zip pols ports"] by simp
        qed
      qed
    qed (use eq dist in \<open>auto simp: act_bind_def act_res_def\<close>)
  qed
qed

theorem add_component_outcome_witness:
  "component_polarities empty_pd [1] [2] = Err NoSuchModule \<and>
   (\<exists>us vs. [PortId (MkId 7 0), PortId (MkId 7 1), PortId (MkId 7 0)] = us @ PortId (MkId 7 0) # vs \<and> PortId (MkId 7 0) \<in> set us)"
proof
  have "add_component idle_interp [1] [2] [] fresh_connector = (Err NoSuchModule, fresh_connector)"
    by (simp add: add_component_def fresh_connector_def duplicate_port_def component_polarities_def empty_pd_def act_bind_def act_res_def)
  from add_component_outcome [OF this] show "component_polarities empty_pd [1] [2] = Err NoSuchModule"
    by (simp add: fresh_connector_def)
  have "duplicate_port [PortId (MkId 7 0), PortId (MkId 7 1), PortId (MkId 7 0)] = Some (PortId (MkId 7 0))"
    by code_simp
  then have "add_component idle_interp [1] [2] [PortId (MkId 7 0), PortId (MkId 7 1), PortId (MkId 7 0)] fresh_connector =
      (Err (DuplicatePort (PortId (MkId 7 0))), fresh_connector)"
    by (simp add: add_component_def)
  from add_component_outcome [OF this]
  show "\<exists>us vs. [PortId (MkId 7 0), PortId (MkId 7 1), PortId (MkId 7 0)] = us @ PortId (MkId 7 0) # vs \<and> PortId (MkId 7 0) \<in> set us"
    by auto
qed

text \<open>
  C8: the role of a connector in the consensus tree. When the neighborhood has been
  built, the children are listed in order and without repetition, the parent and the
  children are endpoints of the connector, and the parent is not a child.
\<close>

theorem neighborhood_wf:
  assumes "net_wf net" "em_ok (em s)" "init_neighborhood fuel net cid dl s = (Ok nbh, s')"
  shows "VecSet_wf (children nbh) \<and> num_net_endpoints (em s') = num_net_endpoints (em s) \<and>
    (\<forall>j \<in> set (vec (children nbh)). j < num_net_endpoints (em s) \<and> parent nbh \<noteq> Some j) \<and>
    (\<forall>p. parent nbh = Some p \<longrightarrow> p < num_net_endpoints (em s))"
proof -
  have "em_ready (num_net_endpoints (em s)) (em s)" using assms(2) by (simp add: em_ready_def)
  from wp_resultD(1) [OF init_neighborhood_ok [OF assms(1) this] assms(3)]
  show ?thesis by (simp add: nbh_ok_def em_ready_def)
qed

theorem neighborhood_wf_witness: "VecSet_wf \<lparr>vec = [0 :: nat]\<rparr>"
proof -
  obtain s where s: "init_neighborhood (Suc (Suc (Suc 0))) peer_net 7 None
     \<lparr>world = [], em = \<lparr>delayed_messages = [], undelayed_messages = [], net_endpoint_store = peer_store [2, 3],
       udp_endpoint_store = \<lparr>endpoint_exts = [], polled_undrained = \<lparr>vec = []\<rparr>\<rparr>\<rparr>\<rparr> =
   (Ok \<lparr>parent = None, children = \<lparr>vec = [0]\<rparr>\<rparr>, s)"
    using peer_neighborhood [of 0] by auto
  from neighborhood_wf [OF peer_net_wf _ s] show ?thesis by (simp add: em_ok_def em_wf_def)
qed

end
