(* ===== verification/Evaluator_Properties.thy ===== *)
theory Evaluator_Properties
  imports Component_Run Connector_Properties
begin

text \<open>
  What holds of the evaluator as a whole: its frames stay linked, calls restore their caller,
  and a session whose components run it keeps the invariants of the runtime. A small program
  serves as the concrete input of the properties.
\<close>

section \<open>A small program\<close>

text \<open>
  \<open>u32 five() { return 5; }\<close> and \<open>primitive main() { u32 x = five(); }\<close> as the compiler leaves
  them in the arenas; the component is definition 1.
\<close>

definition sample_heap :: ProtoHeap where
  "sample_heap = \<lparr>
     heap_variables = [\<lparr>var_parser_type = [PtOther], var_unique_id_in_scope = 0\<rparr>],
     heap_definitions = [DefFunction [102] [] 3, DefComponent [109] [] 0],
     heap_statements =
       [St_Block \<lparr>bs_statements = [1], bs_nested = [], bs_first_unique_id_in_scope = 0, bs_next_unique_id_in_scope = 1, bs_next = 1\<rparr>,
        St_Expression 0 2, St_EndBlock 0 (- 1),
        St_Block \<lparr>bs_statements = [4], bs_nested = [], bs_first_unique_id_in_scope = 0, bs_next_unique_id_in_scope = 0, bs_next = 4\<rparr>,
        St_Return [3], St_EndBlock 3 (- 1)],
     heap_expressions =
       [Ex_Assignment 1 AO_Set 2, Ex_Variable (Some 0) False, Ex_Call M_UserFunction [] 0 0, Ex_Literal (LitInteger 5) 0]\<rparr>"

definition sample_call_pd :: ProtocolDescription where
  "sample_call_pd = \<lparr>modules = [\<lparr>md_name = None, md_definitions = [0, 1]\<rparr>], pd_heap = sample_heap,
     pd_types = [(0, [[\<lparr>expr_type = [CTP_UInt32], field_or_monomorph_idx = - 1\<rparr>]]),
                 (1, [[\<lparr>expr_type = [CTP_UInt32], field_or_monomorph_idx = 0\<rparr>]])]\<rparr>"

definition sample_cfg :: EvalCfg where
  "sample_cfg = \<lparr>cfg_debug = True, cfg_max_fn = 4096, cfg_fuel = 10\<rparr>"

definition sample_main :: Prompt where
  "sample_main = \<lparr>
     frames = [\<lparr>fr_definition = 1, fr_monomorph_idx = 0, fr_position = 0, expr_stack = [], expr_values = [], max_stack_size = 1\<rparr>],
     prompt_store = \<lparr>stack = [VPrevStackBoundary (- 1), VUnassigned], cur_stack_boundary = 0, heap_regions = [], free_regions = []\<rparr>\<rparr>"

definition sample_next :: "Prompt \<Rightarrow> Prompt" where
  "sample_next p = (case step sample_cfg sample_call_pd p CtxNone of Ok (_, p', _) \<Rightarrow> p' | _ \<Rightarrow> p)"

lemma sample_start:
  "(Prompt_new sample_cfg sample_call_pd 1 0 ValueGroup_default :: (Prompt, EvalError) res) = Ok sample_main"
  by code_simp

text \<open>The states at the call, after it, in front of the return and after it.\<close>

definition sample_before :: Prompt where "sample_before = sample_next sample_main"
definition sample_called :: Prompt where "sample_called = sample_next sample_before"
definition sample_inside :: Prompt where "sample_inside = sample_next sample_called"
definition sample_returned :: Prompt where "sample_returned = sample_next sample_inside"

lemma sample_steps:
  "step sample_cfg sample_call_pd sample_main CtxNone = Ok (EC_Stepping, sample_before, CtxNone)"
  "step sample_cfg sample_call_pd sample_before CtxNone = Ok (EC_Stepping, sample_called, CtxNone)"
  "step sample_cfg sample_call_pd sample_called CtxNone = Ok (EC_Stepping, sample_inside, CtxNone)"
  "step sample_cfg sample_call_pd sample_inside CtxNone = Ok (EC_Stepping, sample_returned, CtxNone)"
  by code_simp+

lemma sample_sizes:
  "length (frames sample_before) = 1" "length (frames sample_called) = 2"
  "length (frames sample_inside) = 2" "length (frames sample_returned) = 1"
  by code_simp+

section \<open>The states of a component\<close>

lemma view_provide:
  "returns (\<lambda>(v', st'). frame_view st' = frame_view st) (provide_value fuel v g st :: (Value \<times> Store, 'e) res)"
  "returns (\<lambda>st'. frame_view st' = frame_view st) (provide_values fuel vs g tgt st :: (Store, 'e) res)"
proof (induction fuel arbitrary: v vs tgt st rule: less_induct)
  case (less fuel)
  {
    case 1
    show ?case
    proof (cases fuel)
      case (Suc f)
      have "frame_view st' = frame_view st1" if "provide_values f ws g to st1 = (Ok st' :: (Store, 'e) res)" for ws to st1 st'
        using returnsD [OF less.IH(2) [of f] that] Suc by simp
      then show ?thesis
        by (simp add: Let_def Suc split: prod.split)
          (intro allI impI returns_rules; auto dest!: view_alloc)
    qed (simp add: returns_rules)
  next
    case 2
    show ?case
    proof (induction vs arbitrary: st)
      case (Cons v vs)
      have one: "returns (\<lambda>(v', st'). frame_view st' = frame_view st) (case fuel of 0 \<Rightarrow> OutOfFuel | Suc f \<Rightarrow> (provide_value f v g st :: (Value \<times> Store, 'e) res))"
        using less.IH(1) by (auto simp: returns_rules split: nat.splits)
      have rest: "returns (\<lambda>st'. frame_view st' = frame_view st) (provide_values fuel vs g tgt st1 :: (Store, 'e) res)"
        if "frame_view st1 = frame_view st" for st1
        using Cons [of st1] that by simp
      show ?case unfolding provide_values.simps
        by (intro returns_rules rest) (use returnsD [OF one] in fastforce)+
    qed (simp add: returns_rules)
  }
qed

lemma into_store_stack:
  "into_store_loop fuel vs g st = Ok st' \<Longrightarrow> (\<exists>ws. stack st' = stack st @ ws) \<and> cur_stack_boundary st' = cur_stack_boundary st"
proof (induction vs arbitrary: st)
  case (Cons v vs)
  then show ?case by (fastforce simp: outcome_simps frame_view_def dest!: returnsD [OF view_provide(1)])
qed simp

lemma Prompt_new_ok: "Prompt_new cfg pd d m args = (Ok p :: (Prompt, 'e) res) \<Longrightarrow> prompt_ok p \<and> frames p \<noteq> []"
proof -
  assume "Prompt_new cfg pd d m args = (Ok p :: (Prompt, 'e) res)"
  then obtain f st where st: "into_store_loop (cfg_fuel cfg) (gvalues args) args Store_new = (Ok st :: (Store, 'e) res)"
    and p: "p = \<lparr>frames = [f], prompt_store = reserve_stack (max_stack_size f) st\<rparr>"
    by (simp add: Prompt_new_def group_into_store_def outcome_simps) blast
  from into_store_stack [OF st] obtain ws where "stack st = VPrevStackBoundary (- 1) # ws" "cur_stack_boundary st = 0"
    by (auto simp: Store_new_def)
  with view_reserve [of "max_stack_size f" st] show ?thesis
    by (auto simp: p prompt_ok_def store_chain_def)
qed

text \<open>The states of a component from its creation on, whatever the contexts of its steps are.\<close>

inductive component_runs :: "EvalCfg \<Rightarrow> ProtocolDescription \<Rightarrow> Prompt \<Rightarrow> bool" for cfg pd where
  create: "(Prompt_new cfg pd d m args :: (Prompt, EvalError) res) = Ok p \<Longrightarrow> component_runs cfg pd p"
| step: "component_runs cfg pd p \<Longrightarrow> step cfg pd p ctx = Ok (cont, p', ctx') \<Longrightarrow> component_runs cfg pd p'"

lemma component_runs_ok: "component_runs cfg pd p \<Longrightarrow> frames p \<noteq> [] \<Longrightarrow> prompt_ok p"
proof (induction rule: component_runs.induct)
  case (step p ctx cont p' ctx')
  have "frames p \<noteq> []" using step.hyps(2) by (auto simp: step_def)
  with step step_ok [OF _ step.hyps(2)] show ?case by (blast intro: frame_step_prompt_ok)
qed (simp add: Prompt_new_ok)


section \<open>A session\<close>

text \<open>
  \<open>primitive forward(in<msg> a, out<msg> b) { sync { put(b, get(a)); } }\<close>, a connector of the
  native with two channels to it and without a network, and one round in which the native
  puts a message on one channel and gets it from the other.
\<close>

definition fwd_heap :: ProtoHeap where
  "fwd_heap = \<lparr>
     heap_variables = [\<lparr>var_parser_type = [PtInput], var_unique_id_in_scope = 0\<rparr>, \<lparr>var_parser_type = [PtOutput], var_unique_id_in_scope = 1\<rparr>],
     heap_definitions = [DefComponent [102] [0, 1] 0],
     heap_statements =
       [St_Block \<lparr>bs_statements = [1], bs_nested = [Some 2], bs_first_unique_id_in_scope = 0, bs_next_unique_id_in_scope = 2, bs_next = 1\<rparr>,
        St_Synchronous 2,
        St_Block \<lparr>bs_statements = [3], bs_nested = [], bs_first_unique_id_in_scope = 2, bs_next_unique_id_in_scope = 2, bs_next = 3\<rparr>,
        St_Expression 0 4, St_EndBlock 2 5, St_EndSynchronous 6, St_EndBlock 0 (- 1)],
     heap_expressions =
       [Ex_Call M_Put [1, 2] (- 1) 0, Ex_Variable (Some 1) False, Ex_Call M_Get [3] (- 1) 0, Ex_Variable (Some 0) False]\<rparr>"


definition fwd_pd :: ProtocolDescription where
  "fwd_pd = \<lparr>modules = [\<lparr>md_name = None, md_definitions = [0]\<rparr>], pd_heap = fwd_heap, pd_types = [(0, [[]])]\<rparr>"

definition fwd_cfg :: EvalCfg where
  "fwd_cfg = \<lparr>cfg_debug = True, cfg_max_fn = 4096, cfg_fuel = 20\<rparr>"
definition lone_os :: "unit Os" where
  "lone_os = \<lparr>poll_new = \<lambda>w. (True, w), poll_register = \<lambda>_ _ _ w. (True, w), poll_deregister = \<lambda>_ w. (True, w),
     poll_reregister = \<lambda>_ _ _ w. (True, w),
     poll_setup = \<lambda>_ w. (Some [], w),
     tcp_connect = \<lambda>_ w. (Some 0, w), tcp_bind = \<lambda>_ w. (None, w), tcp_accept = \<lambda>_ w. (AcceptError, w),
     listener_addr = \<lambda>_ _. Some (SocketAddr [] 0), udp_bind = \<lambda>_ w. (None, w), udp_connect = \<lambda>_ _ w. (True, w),
     udp_addr = \<lambda>_ _. Some (SocketAddr [] 0)\<rparr>"

abbreviation fwd_port :: "u32 \<Rightarrow> PortId" where "fwd_port n \<equiv> PortId (MkId 7 n)"

definition fwd_new :: "Prompt Connector" where "fwd_new = the (Connector_new fwd_pd 7)"
definition fwd_one :: "Prompt Connector" where "fwd_one = snd (the (connector_new_port_pair fwd_new))"
definition fwd_two :: "Prompt Connector" where "fwd_two = snd (the (connector_new_port_pair fwd_one))"
definition fwd_added :: "Prompt Connector" where
  "fwd_added = snd (add_component (evaluator fwd_cfg fwd_pd) [] [102] [fwd_port 1, fwd_port 2] fwd_two)"
definition fwd_connected :: "Prompt Connector" where
  "fwd_connected = fst (snd (connect 5 quiet_net lone_os None (fwd_added, ())))"
definition fwd_ready :: "Prompt Connector" where
  "fwd_ready = snd (connector_get (fwd_port 3) (snd (connector_put (fwd_port 0) [11, 22] fwd_connected)))"
definition fwd_synced :: "Prompt Connector" where
  "fwd_synced = fst (snd (sync 20 quiet_net (evaluator fwd_cfg fwd_pd) None (fwd_ready, ())))"

text \<open>For the execution in the kernel: tests of bounds without unary numbers.\<close>

lemma saturating_add_code [code]: "saturating_add a b = (let s = a + b in if s < a then u32_MAX else s)"
proof -
  have "unat a + unat b - 2 ^ 32 < unat a" if "\<not> unat a + unat b < 2 ^ 32"
    using unsigned_less [where 'a = nat, of b] that by simp
  then show ?thesis by (simp add: saturating_add_def Let_def word_less_nat_alt unat_plus_if')
qed

lemma native_branches_loop_code [code]:
  "native_branches_loop m native_cid nvar index [] branches rctx = Some (branches, rctx)"
  "native_branches_loop m native_cid nvar index (batch # batches) branches rctx = do {
     oassert (int index < 65535);
     r \<leftarrow> native_predicate m native_cid nvar (SpecVal (of_nat index)) batch;
     case r of
       None \<Rightarrow> native_branches_loop m native_cid nvar (Suc index) batches branches rctx
     | Some predicate \<Rightarrow> do {
         rctx1 \<leftarrow> send_puts m predicate (to_put batch) rctx;
         let branch = \<lparr>nb_index = index, nb_gotten = [], nb_to_get = to_get batch\<rparr>;
         rctx2 \<leftarrow> (if is_ended branch then rc_submit (SubLocalComponent native_cid) predicate rctx1 else Some rctx1);
         oassert (hm_get branches predicate = None);
         native_branches_loop m native_cid nvar (Suc index) batches (hm_insert predicate branch branches) rctx2
       }
   }"
  by (simp_all only: native_branches_loop.simps) simp

lemma fwd_setup:
  "Connector_new fwd_pd 7 = Some fwd_new"
  "connector_new_port_pair fwd_new = Some ((fwd_port 0, fwd_port 1), fwd_one)"
  "connector_new_port_pair fwd_one = Some ((fwd_port 2, fwd_port 3), fwd_two)"
  "add_component (evaluator fwd_cfg fwd_pd) [] [102] [fwd_port 1, fwd_port 2] fwd_two = (Ok (), fwd_added)"
  by code_simp+

lemma fwd_connects: "connect 5 quiet_net lone_os None (fwd_added, ()) = (Ok (), fwd_connected, ())"
  by code_simp

lemma fwd_prepared:
  "connector_put (fwd_port 0) [11, 22] fwd_connected = (Ok (), snd (connector_put (fwd_port 0) [11, 22] fwd_connected))"
  "connector_get (fwd_port 3) (snd (connector_put (fwd_port 0) [11, 22] fwd_connected)) = (Ok (), fwd_ready)"
  by code_simp+

lemma fwd_sync:
  "sync 20 quiet_net (evaluator fwd_cfg fwd_pd) None (fwd_ready, ()) = (Ok 0, fwd_synced, ()) \<and>
   gotten fwd_synced (fwd_port 3) = Ok [11, 22] \<and> is_connected fwd_synced"
  by code_simp

lemma fwd_reachable: "reachable quiet_net lone_os (evaluator fwd_cfg fwd_pd) (fwd_synced, ())"
proof -
  let ?R = "reachable quiet_net lone_os (evaluator fwd_cfg fwd_pd)"
  have "?R (fwd_new, ())" by (rule reachable.start [OF fwd_setup(1)])
  then have "?R (fwd_one, ())" by (rule reachable.step) (rule user_step.new_port_pair [OF fwd_setup(2)])
  then have "?R (fwd_two, ())" by (rule reachable.step) (rule user_step.new_port_pair [OF fwd_setup(3)])
  then have "?R (fwd_added, ())" by (rule reachable.step) (rule user_step.add_component [OF fwd_setup(4)])
  moreover have "user_step quiet_net lone_os (evaluator fwd_cfg fwd_pd) (fwd_added, ()) (fwd_connected, ())"
  proof (rule user_step.connect [OF fwd_connects])
    define own where "own = (\<lambda>p. case info_of (port_info (cu_ips (unphased fwd_added))) p of Some info \<Rightarrow> owner info | None \<Rightarrow> ComponentId (MkId 0 0))"
    show "peers_honest own (cu_ips (unphased fwd_added)) quiet_net lone_os ()"
      by (auto simp: peers_honest_def own_def dest!: delivers_decoded) (simp_all add: quiet_net_def)
    have "phased fwd_added = PhSetup \<lparr>net_endpoint_setups = [], udp_endpoint_setups = []\<rparr>" by code_simp
    then show "length (net_endpoint_setups st) < 2 ^ 64" if "phased fwd_added = PhSetup st" for st
      using that by simp
  qed simp_all
  ultimately have "?R (fwd_connected, ())" by (rule reachable.step)
  then have "?R (snd (connector_put (fwd_port 0) [11, 22] fwd_connected), ())"
    by (rule reachable.step) (rule user_step.put [OF fwd_prepared(1)])
  then have "?R (fwd_ready, ())" by (rule reachable.step) (rule user_step.get [OF fwd_prepared(2)])
  then show ?thesis
    by (rule reachable.step) (rule user_step.sync [OF fwd_sync [THEN conjunct1]]; simp)
qed

section \<open>Properties\<close>

text \<open>
  C16: the evaluator of the source keeps the contract under which the runtime runs component
  code, for every description, every kind of build and every amount of fuel: outside
  synchronous blocks it changes the runtime by its two callbacks only, and inside it only
  marks ports as used and never touches the inbox of its branch.
\<close>

theorem evaluator_keeps_contract: "interp_ok (evaluator cfg pd)"
  by (rule evaluator_ok)

text \<open>
  C15: in a session whose components run the evaluator, every connector that a user can reach
  satisfies the invariant of the connector, and once it is connected each of its ports has a
  speculative variable. As for the runtime alone, each \<open>connect\<close> is one whose peers are honest
  (\<open>peers_honest\<close>), and a panic or exhausted fuel ends the run.
\<close>

theorem evaluator_session_inv:
  assumes "reachable net os (evaluator cfg pd) (c, w)" "net_wf net"
  shows "conn_inv c \<and> (is_connected c \<longrightarrow> (\<forall>p \<in> dom (info_of (port_info (cu_ips (unphased c)))).
    spec_var_for (port_info (cu_ips (unphased c))) p \<noteq> None))"
proof -
  have ok: "conn_inv c" "pairing_ok c" using reachable_ok [OF assms(1) evaluator_ok assms(2)] by auto
  have "spec_var_for (port_info (cu_ips (unphased c))) p \<noteq> None"
    if "is_connected c" "info_of (port_info (cu_ips (unphased c))) p = Some info" for p info
  proof -
    from ok(2) that have "peer info \<noteq> None"
      by (auto simp: pairing_ok_def unpaired_def is_connected_def split: ConnectorPhased.splits)
    with that(2) show ?thesis by (cases "polarity info") (auto simp: spec_var_for_Getter spec_var_for_Putter)
  qed
  with ok(1) show ?thesis by blast
qed

theorem evaluator_session_inv_witness:
  "conn_inv fwd_synced \<and> gotten fwd_synced (fwd_port 3) = Ok [11, 22]"
  using evaluator_session_inv [OF fwd_reachable quiet_net_wf] fwd_sync by blast

text \<open>
  C19: from its creation on, whatever code a component runs, the boundaries on its stack form
  a chain with one link for each frame; so every return finds the boundary of its caller and
  the last one finds the bottom of the stack.
\<close>

theorem component_frames_linked:
  assumes "component_runs cfg pd p" "frames p \<noteq> []"
  shows "frame_chain (stack (prompt_store p)) (cur_stack_boundary (prompt_store p)) (length (frames p))"
  using component_runs_ok [OF assms] by (simp add: prompt_ok_def store_chain_def)

theorem component_frames_linked_witness:
  "frame_chain (stack (prompt_store sample_inside)) (cur_stack_boundary (prompt_store sample_inside)) 2"
proof -
  have "component_runs sample_cfg sample_call_pd sample_inside"
    using component_runs.step [OF component_runs.step [OF component_runs.step [OF component_runs.create [OF sample_start] sample_steps(1)]
      sample_steps(2)] sample_steps(3)] .
  from component_frames_linked [OF this] sample_sizes show ?thesis by fastforce
qed

text \<open>
  C17: a call of a function and all that it runs leave the part of the stack below it as it was
  when the call was made, and the return to the caller restores exactly this part.
\<close>

theorem call_returns_to_caller:
  assumes p: "prompt_ok p" and call: "step cfg pd p ctx = Ok (cont, p1, ctx1)" "length (frames p1) = Suc (length (frames p))"
    and runs: "runs_above cfg pd (length (frames p)) p1 p2"
    and ret: "step cfg pd p2 ctx2 = Ok (cont3, p3, ctx3)" "length (frames p3) = length (frames p)"
  shows "stack (prompt_store p3) = take (cur_stack_boundary (prompt_store p1)) (stack (prompt_store p1)) \<and>
    cur_stack_boundary (prompt_store p3) = cur_stack_boundary (prompt_store p) \<and>
    length (stack (prompt_store p3)) = length (stack (prompt_store p)) \<and> prompt_ok p3"
proof -
  let ?s = "\<lambda>p. stack (prompt_store p)" and ?b = "\<lambda>p. cur_stack_boundary (prompt_store p)" and ?n = "length (frames p)"
  have n: "0 < ?n" using p by (cases "frames p") (auto simp: prompt_ok_def store_chain_def)
  from step_ok [OF p call(1)] call(2) have c: "called (prompt_store p) (prompt_store p1)" and ok1: "prompt_ok p1"
    using frame_step_prompt_ok [OF p, of cont p1] n by (force simp: frame_step_def)+
  then have "pending ?n (?b p1) (take (Suc (?b p1)) (?s p1)) p1"
    using call(2) by (auto simp: pending_def called_def)
  from pending_runs [OF runs this n]
  have p2: "prompt_ok p2" "?n < length (frames p2)" "take (Suc (?b p1)) (?s p2) = take (Suc (?b p1)) (?s p1)"
    "link (?s p2) (?b p2) (length (frames p2) - Suc ?n) = ?b p1"
    by (auto simp: pending_def)
  from step_ok [OF p2(1) ret(1)] have fs: "frame_step p2 cont3 p3" by simp
  with p2(2) ret(2) n obtain st where r: "stack_kept (prompt_store p2) st" "returned st (prompt_store p3)" "length (frames p2) = Suc ?n"
    unfolding frame_step_def by force
  with p2(4) have b: "?b p2 = ?b p1" "cur_stack_boundary st = ?b p1" by (auto simp: stack_kept_def)
  from r(1) b p2(3) have t: "take (Suc (?b p1)) (stack st) = take (Suc (?b p1)) (?s p1)" by (simp add: stack_kept_def)
  have s3: "?s p3 = take (?b p1) (?s p1)"
    using r(2) b t by (simp add: returned_def) (metis min.absorb1 lessI less_imp_le_nat take_take)
  have "stack st ! ?b p1 = ?s p1 ! ?b p1" using t by (metis lessI nth_take)
  with r(2) b c have b3: "?b p3 = ?b p" by (simp add: returned_def called_def)
  have "prompt_ok p3" using frame_step_prompt_ok [OF p2(1) fs] n ret(2) by force
  moreover have "length (?s p3) = length (?s p)" using s3 c by (simp add: called_def)
  ultimately show ?thesis using s3 b3 by blast
qed


lemma sample_prompt_ok: "prompt_ok sample_before"
  by code_simp

theorem call_returns_to_caller_witness:
  "stack (prompt_store sample_returned) = take (cur_stack_boundary (prompt_store sample_called)) (stack (prompt_store sample_called))"
proof -
  have "runs_above sample_cfg sample_call_pd (length (frames sample_before)) sample_called sample_inside"
    by (rule runs_above.step [OF runs_above.start sample_steps(3)]) (simp_all add: sample_sizes)
  from call_returns_to_caller [OF sample_prompt_ok sample_steps(2) _ this sample_steps(4)] sample_sizes
  show ?thesis by simp
qed

end
