(* ===== verification/Expr_Semantics.thy ===== *)
theory Expr_Semantics
  imports Executor_Step
begin

text \<open>
  A recursive definition of what an expression evaluates to, and the proof that the machine
  of \<open>src/protocol/eval/executor.rs\<close> computes it: serializing an expression and running the
  instructions from the back evaluates the subexpressions from the last to the first, then
  the node itself, and leaves the instructions below alone.
\<close>

section \<open>Recursive evaluation\<close>

definition bind_adv :: "(ExprOutcome, 'e) res \<Rightarrow> (Frame \<Rightarrow> Store \<Rightarrow> EvalContext \<Rightarrow> (ExprOutcome, 'e) res) \<Rightarrow> (ExprOutcome, 'e) res" where
  "bind_adv m f = bind_res m (\<lambda>r. case r of Advance fr st ctx \<Rightarrow> f fr st ctx | Yield cont fr pushed st ctx \<Rightarrow> Ok (Yield cont fr pushed st ctx))"

lemma bind_adv_cong [fundef_cong]:
  assumes "m = m'" "\<And>fr st ctx. m' = Ok (Advance fr st ctx) \<Longrightarrow> f fr st ctx = f' fr st ctx"
  shows "bind_adv m f = bind_adv m' f'"
  unfolding bind_adv_def using assms by (auto intro!: bind_res_cong split: ExprOutcome.splits)

fun ref_eval :: "nat \<Rightarrow> EvalCfg \<Rightarrow> ProtocolDescription \<Rightarrow> AstId \<Rightarrow> Frame \<Rightarrow> Store \<Rightarrow> EvalContext \<Rightarrow> (ExprOutcome, EvalError) res"
and ref_children :: "nat \<Rightarrow> EvalCfg \<Rightarrow> ProtocolDescription \<Rightarrow> bool \<Rightarrow> AstId list \<Rightarrow> Frame \<Rightarrow> Store \<Rightarrow> EvalContext \<Rightarrow> (ExprOutcome, EvalError) res" where
  "ref_eval 0 cfg pd expr_id fr st ctx = OutOfFuel"
| "ref_eval (Suc fuel) cfg pd expr_id fr st ctx =
     bind_res (arena_get (heap_expressions (pd_heap pd)) expr_id) (\<lambda>e.
     bind_res (debug_assert cfg (literal_complete e)) (\<lambda>_.
     bind_adv (ref_children fuel cfg pd True (rev (pushed_children e)) fr st ctx) (\<lambda>fr1 st1 ctx1.
     bind_adv (ref_children fuel cfg pd False (rev (plain_children e)) fr1 st1 ctx1) (\<lambda>fr2 st2 ctx2.
     case e of
       Ex_Conditional _ true_expression false_expression \<Rightarrow>
         bind_res (pop_back fr2) (\<lambda>(test, fr3).
         bind_res (unwrap (as_bool test)) (\<lambda>b.
         case fuel of 0 \<Rightarrow> OutOfFuel
         | Suc f \<Rightarrow> ref_eval f cfg pd (if b then true_expression else false_expression) fr3 st2 ctx2))
     | _ \<Rightarrow> eval_expr cfg pd expr_id fr2 st2 ctx2))))"
| "ref_children fuel cfg pd pushed [] fr st ctx = Ok (Advance fr st ctx)"
| "ref_children fuel cfg pd pushed (e # es) fr st ctx =
     bind_adv (case fuel of 0 \<Rightarrow> OutOfFuel | Suc f \<Rightarrow> ref_eval f cfg pd e fr st ctx) (\<lambda>fr1 st1 ctx1.
     bind_res (if pushed then push_val_to_front fr1 else Ok fr1) (\<lambda>fr2.
     ref_children fuel cfg pd pushed es fr2 st1 ctx1))"

section \<open>Instructions do not look at the pending ones\<close>

abbreviation with_stack :: "ExprInstruction list \<Rightarrow> Frame \<Rightarrow> Frame" where
  "with_stack s fr \<equiv> fr\<lparr>expr_stack := s\<rparr>"

fun same_but_stack :: "ExprInstruction list \<Rightarrow> ExprOutcome \<Rightarrow> ExprOutcome \<Rightarrow> bool" where
  "same_but_stack s (Advance fr st ctx) r \<longleftrightarrow> r = Advance (with_stack s fr) st ctx"
| "same_but_stack s (Yield cont fr pushed st ctx) r \<longleftrightarrow> (\<exists>s'. r = Yield cont (with_stack (s @ s') fr) pushed st ctx)"

definition sim :: "ExprInstruction list \<Rightarrow> (ExprOutcome, 'e) res \<Rightarrow> (ExprOutcome, 'e) res \<Rightarrow> bool" where
  "sim s m m' \<longleftrightarrow> (\<forall>r. m = Ok r \<longrightarrow> (\<exists>r'. m' = Ok r' \<and> same_but_stack s r r')) \<and> (\<forall>e. m = Err e \<longrightarrow> m' = Err e) \<and> (m = Panic \<longrightarrow> m' = Panic)"

named_theorems sim_rules

lemma sim_bind [sim_rules]: "(\<And>x. m = Ok x \<Longrightarrow> sim s (f x) (g x)) \<Longrightarrow> sim s (bind_res m f) (bind_res m g)"
  by (cases m) (auto simp: sim_def)

lemma sim_stop [sim_rules]: "sim s Panic Panic" "sim s (Err e) (Err e)" "sim s OutOfFuel m"
  by (simp_all add: sim_def)

lemma sim_Ok: "same_but_stack s r r' \<Longrightarrow> sim s (Ok r) (Ok r')"
  by (simp add: sim_def)

lemma sim_if [sim_rules]: "(b \<Longrightarrow> sim s m n) \<Longrightarrow> (\<not> b \<Longrightarrow> sim s m' n') \<Longrightarrow> sim s (if b then m else m') (if b then n else n')"
  by simp

lemma sim_prod [sim_rules]: "(\<And>a b. x = (a, b) \<Longrightarrow> sim s (f a b) (g a b)) \<Longrightarrow> sim s (case x of (a, b) \<Rightarrow> f a b) (case x of (a, b) \<Rightarrow> g a b)"
  by (cases x) simp

lemma sim_option [sim_rules]:
  "(v = None \<Longrightarrow> sim s m n) \<Longrightarrow> (\<And>x. v = Some x \<Longrightarrow> sim s (f x) (g x)) \<Longrightarrow>
   sim s (case v of None \<Rightarrow> m | Some x \<Rightarrow> f x) (case v of None \<Rightarrow> n | Some x \<Rightarrow> g x)"
  by (cases v) simp_all

lemma sim_ref [sim_rules]:
  "(\<And>a. v = VRef a \<Longrightarrow> sim s (f a) (g a)) \<Longrightarrow> sim s m n \<Longrightarrow>
   sim s (case v of VRef a \<Rightarrow> f a | _ \<Rightarrow> m) (case v of VRef a \<Rightarrow> g a | _ \<Rightarrow> n)"
  by (cases v) simp_all

text \<open>Operations on the deque of values commute with replacing the pending instructions.\<close>

named_theorems stack_free

lemma with_stack_values [stack_free]: "fr\<lparr>expr_stack := s, expr_values := vs\<rparr> = with_stack s (fr\<lparr>expr_values := vs\<rparr>)"
  by simp

lemma bind_res_assoc [stack_free]: "bind_res (bind_res m f) g = bind_res m (\<lambda>x. bind_res (f x) g)"
  by (cases m) simp_all

lemma bind_prod [stack_free]: "bind_res (case x of (a, b) \<Rightarrow> f a b) g = (case x of (a, b) \<Rightarrow> bind_res (f a b) g)"
  by (cases x) simp

lemma pop_back_stack [stack_free]: "pop_back (with_stack s fr) = bind_res (pop_back fr) (\<lambda>(v, fr'). Ok (v, with_stack s fr'))"
  by (simp add: pop_back_def stack_free)

lemma pop_front_stack [stack_free]: "pop_front (with_stack s fr) = bind_res (pop_front fr) (\<lambda>(v, fr'). Ok (v, with_stack s fr'))"
  by (simp add: pop_front_def stack_free split: list.split)

lemma transfer_stack [stack_free]:
  "transfer_expression_values_front_into_heap cfg n (with_stack s fr) st =
   bind_res (transfer_expression_values_front_into_heap cfg n fr st) (\<lambda>(pos, fr', st'). Ok (pos, with_stack s fr', st'))"
  by (simp add: transfer_expression_values_front_into_heap_def stack_free split: prod.split)

lemma push_stack [stack_free]:
  "push_back v (with_stack s fr) = with_stack s (push_back v fr)"
  "push_front v (with_stack s fr) = with_stack s (push_front v fr)"
  "frame_expr_data pd (with_stack s fr) u = frame_expr_data pd fr u"
  by (simp_all add: push_back_def push_front_def frame_expr_data_def)

lemma push_val_stack [stack_free]:
  "push_val_to_front (with_stack s fr) = bind_res (push_val_to_front fr) (\<lambda>fr'. Ok (with_stack s fr'))"
  by (simp add: push_val_to_front_def stack_free)

lemma push_arguments_stack [stack_free]:
  "push_arguments fuel n (with_stack s fr) st =
     bind_res (push_arguments fuel n fr st) (\<lambda>(fr', st'). Ok (with_stack s fr', st'))"
  by (induction n arbitrary: fr st) (auto simp: stack_free intro!: bind_res_cong split: prod.split)

section \<open>Each node\<close>

named_theorems node_sim

lemma retry_stack: "retry e (with_stack s fr) = with_stack (s @ [EvalExpr e]) (retry e fr)"
  by (simp add: retry_def)

lemmas sim_simps = stack_free retry_stack prod.case bind_res.simps

lemma sim_assignment [node_sim]: "sim s (eval_assignment cfg op fr st ctx) (eval_assignment cfg op (with_stack s fr) st ctx)"
  unfolding eval_assignment_def Let_def by (simp only: sim_simps) (intro sim_rules sim_Ok; auto intro: exI [of _ "[]"])

lemma sim_binding [node_sim]: "sim s (eval_binding cfg fr st ctx) (eval_binding cfg (with_stack s fr) st ctx)"
  unfolding eval_binding_def Let_def by (simp only: sim_simps) (intro sim_rules sim_Ok; auto intro: exI [of _ "[]"])

lemma sim_unary [node_sim]: "sim s (eval_unary cfg op fr st ctx) (eval_unary cfg op (with_stack s fr) st ctx)"
  unfolding eval_unary_def Let_def by (simp only: sim_simps) (intro sim_rules sim_Ok; auto intro: exI [of _ "[]"])

lemma sim_binary [node_sim]: "sim s (eval_binary cfg op fr st ctx) (eval_binary cfg op (with_stack s fr) st ctx)"
  unfolding eval_binary_def Let_def by (simp only: sim_simps) (intro sim_rules sim_Ok; auto intro: exI [of _ "[]"])

lemma sim_indexing [node_sim]: "sim s (eval_indexing cfg i fr st ctx) (eval_indexing cfg i (with_stack s fr) st ctx)"
  unfolding eval_indexing_def construct_array_error_def Let_def by (simp only: sim_simps) (intro sim_rules sim_Ok; auto intro: exI [of _ "[]"])

lemma sim_slicing [node_sim]: "sim s (eval_slicing cfg i j fr st ctx) (eval_slicing cfg i j (with_stack s fr) st ctx)"
  unfolding eval_slicing_def construct_array_error_def Let_def by (simp only: sim_simps) (intro sim_rules sim_Ok; auto intro: exI [of _ "[]"])

lemma sim_select [node_sim]: "sim s (eval_select cfg pd u fr st ctx) (eval_select cfg pd u (with_stack s fr) st ctx)"
  unfolding eval_select_def Let_def by (simp only: sim_simps) (intro sim_rules sim_Ok; auto intro: exI [of _ "[]"])

lemma sim_cast [node_sim]: "sim s (eval_cast cfg pd i u fr st ctx) (eval_cast cfg pd i u (with_stack s fr) st ctx)"
  unfolding eval_cast_def Let_def by (simp only: sim_simps) (intro sim_rules sim_Ok; auto intro: exI [of _ "[]"])

lemma sim_variable [node_sim]: "sim s (eval_variable pd d b fr st ctx) (eval_variable pd d b (with_stack s fr) st ctx)"
  unfolding eval_variable_def Let_def by (simp only: sim_simps) (intro sim_rules sim_Ok; auto intro: exI [of _ "[]"])

lemma sim_get [node_sim]: "sim s (eval_get i fr st ctx) (eval_get i (with_stack s fr) st ctx)"
  unfolding eval_get_def Let_def by (simp only: sim_simps) (intro sim_rules sim_Ok; auto intro: exI [of _ "[]"])

lemma sim_put [node_sim]: "sim s (eval_put cfg i fr st ctx) (eval_put cfg i (with_stack s fr) st ctx)"
  unfolding eval_put_def Let_def by (simp only: sim_simps) (intro sim_rules sim_Ok; auto intro: exI [of _ "[]"])

lemma sim_fires [node_sim]: "sim s (eval_fires i fr st ctx) (eval_fires i (with_stack s fr) st ctx)"
  unfolding eval_fires_def Let_def by (simp only: sim_simps) (intro sim_rules sim_Ok; auto intro: exI [of _ "[]"])

lemma sim_create [node_sim]: "sim s (eval_create cfg i fr st ctx) (eval_create cfg i (with_stack s fr) st ctx)"
  unfolding eval_create_def Let_def by (simp only: sim_simps) (intro sim_rules sim_Ok; auto intro: exI [of _ "[]"])

lemma sim_length [node_sim]: "sim s (eval_length cfg fr st ctx) (eval_length cfg (with_stack s fr) st ctx)"
  unfolding eval_length_def Let_def by (simp only: sim_simps) (intro sim_rules sim_Ok; auto intro: exI [of _ "[]"])

lemma sim_assert [node_sim]: "sim s (eval_assert  fr st ctx) (eval_assert  (with_stack s fr) st ctx)"
  unfolding eval_assert_def Let_def by (simp only: sim_simps) (intro sim_rules sim_Ok; auto intro: exI [of _ "[]"])

lemma sim_user_function [node_sim]: "sim s (eval_user_function cfg pd n d u fr st ctx) (eval_user_function cfg pd n d u (with_stack s fr) st ctx)"
  unfolding eval_user_function_def Let_def by (simp only: sim_simps) (intro sim_rules sim_Ok; auto intro: exI [of _ "[]"])


lemma sim_user_component [node_sim]:
  "sim s (eval_user_component cfg h i d fr st ctx) (eval_user_component cfg h i d (with_stack s fr) st ctx)"
  by (simp add: eval_user_component_def) (intro conjI impI sim_rules sim_Ok; simp)

lemma sim_literal [node_sim]: "sim s (eval_literal cfg pd l u fr st ctx) (eval_literal cfg pd l u (with_stack s fr) st ctx)"
  unfolding eval_literal_def Let_def by (cases l; simp only: Literal.case sim_simps; intro sim_rules sim_Ok; simp)

lemma sim_call [node_sim]: "sim s (eval_call cfg pd e m args d u fr st ctx) (eval_call cfg pd e m args d u (with_stack s fr) st ctx)"
  by (cases m) (simp_all add: eval_call_def node_sim)

definition conditional :: "Expression \<Rightarrow> bool" where
  "conditional e \<longleftrightarrow> (case e of Ex_Conditional _ _ _ \<Rightarrow> True | _ \<Rightarrow> False)"

lemma sim_expr:
  assumes "arena_get (heap_expressions (pd_heap pd)) e = (Ok x :: (Expression, EvalError) res)" "\<not> conditional x"
  shows "sim s (eval_expr cfg pd e fr st ctx) (eval_expr cfg pd e (with_stack s fr) st ctx)"
  using assms by (cases x) (simp_all add: eval_expr_def conditional_def node_sim)

lemma sim_push: "sim s (exec_instruction cfg pd PushValToFront fr st ctx) (exec_instruction cfg pd PushValToFront (with_stack s fr) st ctx)"
  by (simp add: exec_instruction_def, simp only: sim_simps) (intro sim_rules sim_Ok; simp)

section \<open>What the machine does with the instructions of an expression\<close>

definition continue_with ::
  "EvalCfg \<Rightarrow> ProtocolDescription \<Rightarrow> ExprInstruction list \<Rightarrow> ExprInstruction list \<Rightarrow> nat \<Rightarrow> (ExprOutcome, EvalError) res \<Rightarrow> (ExprOutcome, EvalError) res" where
  "continue_with cfg pd es left m r = bind_res r (\<lambda>x. case x of
     Advance fr st ctx \<Rightarrow> run_exprs m cfg pd (with_stack es fr) st ctx
   | Yield cont fr pushed st ctx \<Rightarrow> Ok (Yield cont (with_stack (es @ left) fr) pushed st ctx))"

text \<open>
  The instructions \<open>code\<close> on top of \<open>es\<close> compute \<open>r\<close>: after some number of instructions only
  \<open>es\<close> are left, or the machine stops as \<open>r\<close> says, with \<open>es\<close> still pending.
\<close>

definition machine ::
  "EvalCfg \<Rightarrow> ProtocolDescription \<Rightarrow> ExprInstruction list \<Rightarrow> ExprInstruction list \<Rightarrow> Frame \<Rightarrow> Store \<Rightarrow> EvalContext \<Rightarrow>
   (ExprOutcome, EvalError) res \<Rightarrow> bool" where
  "machine cfg pd es code fr st ctx r \<longleftrightarrow>
     (\<exists>k left. \<forall>m. run_exprs (k + m) cfg pd (with_stack (es @ code) fr) st ctx = continue_with cfg pd es left m r)"

lemma machine_Nil: "machine cfg pd es [] fr st ctx (Ok (Advance fr st ctx))"
  unfolding machine_def by (rule exI [of _ 0]) (simp add: continue_with_def)

lemma machine_one:
  assumes "sim es r (exec_instruction cfg pd i (with_stack es fr) st ctx)" "r \<noteq> OutOfFuel"
  shows "machine cfg pd es [i] fr st ctx r"
proof -
  have "\<exists>left. \<forall>m. run_exprs (1 + m) cfg pd (with_stack (es @ [i]) fr) st ctx = continue_with cfg pd es left m r"
  proof (cases r)
    case (Ok x)
    then show ?thesis using assms by (cases x) (auto simp: sim_def continue_with_def)
  qed (use assms in \<open>auto simp: sim_def continue_with_def\<close>)
  then show ?thesis unfolding machine_def by blast
qed

lemma machine_bind:
  assumes B: "machine cfg pd (es @ A) B fr st ctx r"
    and A: "\<And>fr1 st1 ctx1. r = Ok (Advance fr1 st1 ctx1) \<Longrightarrow> machine cfg pd es A fr1 st1 ctx1 (f fr1 st1 ctx1)"
  shows "machine cfg pd es (A @ B) fr st ctx (bind_adv r f)"
proof -
  from B obtain k left where k: "\<And>m. run_exprs (k + m) cfg pd (with_stack (es @ A @ B) fr) st ctx = continue_with cfg pd (es @ A) left m r"
    by (auto simp: machine_def)
  show ?thesis
  proof (cases "\<exists>fr1 st1 ctx1. r = Ok (Advance fr1 st1 ctx1)")
    case True
    then obtain fr1 st1 ctx1 where r: "r = Ok (Advance fr1 st1 ctx1)" by blast
    from A [OF r] obtain k1 left1 where k1: "\<And>m. run_exprs (k1 + m) cfg pd (with_stack (es @ A) fr1) st1 ctx1 =
        continue_with cfg pd es left1 m (f fr1 st1 ctx1)" by (auto simp: machine_def)
    have "run_exprs ((k + k1) + m) cfg pd (with_stack (es @ A @ B) fr) st ctx = continue_with cfg pd es left1 m (bind_adv r f)" for m
      using k [of "k1 + m"] k1 [of m] by (simp add: r continue_with_def bind_adv_def add.assoc)
    then show ?thesis unfolding machine_def by blast
  next
    case False
    have "run_exprs (k + m) cfg pd (with_stack (es @ A @ B) fr) st ctx = continue_with cfg pd es (A @ left) m (bind_adv r f)" for m
      using k [of m] False by (cases r) (auto simp: continue_with_def bind_adv_def split: ExprOutcome.splits)
    then show ?thesis unfolding machine_def by blast
  qed
qed


section \<open>Serialized expressions\<close>

lemma serialize_append:
  "serialize_expression n cfg h e es = (Ok xs :: (ExprInstruction list, 'e) res) \<Longrightarrow>
     \<exists>code. xs = es @ code \<and> (\<forall>es'. serialize_expression n cfg h e es' = (Ok (es' @ code) :: (ExprInstruction list, 'e) res))"
  "serialize_children n cfg h p ids es = (Ok xs :: (ExprInstruction list, 'e) res) \<Longrightarrow>
     \<exists>code. xs = es @ code \<and> (\<forall>es'. serialize_children n cfg h p ids es' = (Ok (es' @ code) :: (ExprInstruction list, 'e) res))"
proof (induction n arbitrary: e es p ids xs rule: less_induct)
  case (less n)
  {
    case 1
    then obtain f where n: "n = Suc f" by (cases n) auto
    from 1 n obtain x es1 where x: "arena_get (heap_expressions h) e = (Ok x :: (Expression, 'e) res)"
      and plain: "serialize_children f cfg h False (plain_children x) (es @ [EvalExpr e]) = (Ok es1 :: (ExprInstruction list, 'e) res)"
      and pushed: "serialize_children f cfg h True (pushed_children x) es1 = (Ok xs :: (ExprInstruction list, 'e) res)"
      and lit: "debug_assert cfg (literal_complete x) = (Ok () :: (unit, 'e) res)"
      by (auto simp: outcome_simps)
    from less.IH(2) [OF _ plain] n obtain A where A: "es1 = es @ EvalExpr e # A"
      "\<forall>es'. serialize_children f cfg h False (plain_children x) es' = (Ok (es' @ A) :: (ExprInstruction list, 'e) res)" by auto
    from less.IH(2) [OF _ pushed] n obtain B where B: "xs = es1 @ B"
      "\<forall>es'. serialize_children f cfg h True (pushed_children x) es' = (Ok (es' @ B) :: (ExprInstruction list, 'e) res)" by auto
    from x A B lit n show ?case by (intro exI [of _ "EvalExpr e # A @ B"]) simp
  next
    case 2
    then show ?case
    proof (induction ids arbitrary: es)
      case (Cons e ids)
      then obtain f es1 where n: "n = Suc f"
        and one: "serialize_expression f cfg h e (if p then es @ [PushValToFront] else es) = (Ok es1 :: (ExprInstruction list, 'e) res)"
        and rest: "serialize_children n cfg h p ids es1 = (Ok xs :: (ExprInstruction list, 'e) res)"
        by (auto simp: outcome_simps split: nat.splits)
      from less.IH(1) [OF _ one] n obtain A where A: "es1 = (if p then es @ [PushValToFront] else es) @ A"
        "\<forall>es'. serialize_expression f cfg h e es' = (Ok (es' @ A) :: (ExprInstruction list, 'e) res)" by blast
      from Cons.IH [OF rest] obtain B where "xs = es1 @ B"
        "\<forall>es'. serialize_children n cfg h p ids es' = (Ok (es' @ B) :: (ExprInstruction list, 'e) res)" by blast
      with A n show ?case by (intro exI [of _ "(if p then [PushValToFront] else []) @ A @ B"]) simp
    qed simp
  }
qed

lemma serialize_onto:
  assumes "serialize_expression n cfg h e [] = (Ok code :: (ExprInstruction list, 'e) res)"
  shows "serialize_expression n cfg h e es = (Ok (es @ code) :: (ExprInstruction list, 'e) res)"
  using serialize_append(1) [OF assms] by auto

lemma serialized_expressionE:
  assumes "serialize_expression n cfg h e [] = (Ok code :: (ExprInstruction list, 'e) res)"
  obtains f x A B where "n = Suc f" "arena_get (heap_expressions h) e = (Ok x :: (Expression, 'e) res)"
    "debug_assert cfg (literal_complete x) = (Ok () :: (unit, 'e) res)"
    "serialize_children f cfg h False (plain_children x) [] = (Ok A :: (ExprInstruction list, 'e) res)"
    "serialize_children f cfg h True (pushed_children x) [] = (Ok B :: (ExprInstruction list, 'e) res)"
    "code = [EvalExpr e] @ A @ B"
proof -
  from assms obtain f where n: "n = Suc f" by (cases n) auto
  from assms n obtain x es1 where x: "arena_get (heap_expressions h) e = (Ok x :: (Expression, 'e) res)"
    "debug_assert cfg (literal_complete x) = (Ok () :: (unit, 'e) res)"
    and c: "serialize_children f cfg h False (plain_children x) [EvalExpr e] = (Ok es1 :: (ExprInstruction list, 'e) res)"
      "serialize_children f cfg h True (pushed_children x) es1 = (Ok code :: (ExprInstruction list, 'e) res)"
    by (auto simp: outcome_simps)
  from serialize_append(2) [OF c(1)] serialize_append(2) [OF c(2)] obtain A B where
    "es1 = [EvalExpr e] @ A" "serialize_children f cfg h False (plain_children x) [] = (Ok A :: (ExprInstruction list, 'e) res)"
    "code = es1 @ B" "serialize_children f cfg h True (pushed_children x) [] = (Ok B :: (ExprInstruction list, 'e) res)"
    by (metis append_Nil)
  with n x show ?thesis using that by simp
qed

lemma serialize_children_append:
  "serialize_children n cfg h p (xs @ ys) es = bind_res (serialize_children n cfg h p xs es) (serialize_children n cfg h p ys)"
  by (induction xs arbitrary: es) (auto simp: bind_res_assoc intro!: bind_res_cong)

lemma serialized_snocE:
  assumes "serialize_children n cfg h p (ids @ [e]) [] = (Ok code :: (ExprInstruction list, 'e) res)"
  obtains f A B where "n = Suc f" "serialize_children n cfg h p ids [] = (Ok A :: (ExprInstruction list, 'e) res)"
    "serialize_expression f cfg h e [] = (Ok B :: (ExprInstruction list, 'e) res)"
    "code = A @ (if p then [PushValToFront] else []) @ B"
proof -
  from assms obtain A where A: "serialize_children n cfg h p ids [] = (Ok A :: (ExprInstruction list, 'e) res)"
    and last: "serialize_children n cfg h p [e] A = (Ok code :: (ExprInstruction list, 'e) res)"
    by (auto simp: serialize_children_append outcome_simps simp del: serialize_children.simps)
  from last obtain f where n: "n = Suc f" by (cases n) auto
  with last have one: "serialize_expression f cfg h e (if p then A @ [PushValToFront] else A) = (Ok code :: (ExprInstruction list, 'e) res)"
    by (auto simp: outcome_simps)
  from serialize_append(1) [OF one] obtain B where "code = (if p then A @ [PushValToFront] else A) @ B"
    "serialize_expression f cfg h e [] = (Ok B :: (ExprInstruction list, 'e) res)" by (metis append_Nil)
  with A n show ?thesis using that by simp
qed

text \<open>
  The branches of the conditionals can be serialized: their trees have no cycles and no
  dangling references. The other expressions are serialized before they run.
\<close>

definition serialized :: "EvalCfg \<Rightarrow> ProtoHeap \<Rightarrow> AstId \<Rightarrow> bool" where
  "serialized cfg h e \<longleftrightarrow> (case (serialize_expression (cfg_fuel cfg) cfg h e [] :: (ExprInstruction list, EvalError) res) of Ok _ \<Rightarrow> True | _ \<Rightarrow> False)"

definition branches_serialized :: "EvalCfg \<Rightarrow> ProtoHeap \<Rightarrow> bool" where
  "branches_serialized cfg h \<longleftrightarrow> list_all (\<lambda>x. case x of Ex_Conditional _ t f \<Rightarrow> serialized cfg h t \<and> serialized cfg h f | _ \<Rightarrow> True) (heap_expressions h)"

lemma serializedE:
  assumes "serialized cfg h e"
  obtains code where "serialize_expression (cfg_fuel cfg) cfg h e [] = (Ok code :: (ExprInstruction list, EvalError) res)"
  using assms by (auto simp: serialized_def split: res.splits)

section \<open>The machine computes the recursive evaluation\<close>

lemma machine_node:
  assumes x: "arena_get (heap_expressions (pd_heap pd)) e = (Ok x :: (Expression, EvalError) res)" "\<not> conditional x"
    and r: "eval_expr cfg pd e fr st ctx \<noteq> OutOfFuel"
  shows "machine cfg pd es [EvalExpr e] fr st ctx (eval_expr cfg pd e fr st ctx)"
  by (rule machine_one) (use sim_expr [OF x] r in \<open>simp_all add: exec_instruction_def\<close>)

lemma machine_push: "machine cfg pd es [PushValToFront] fr st ctx (bind_res (push_val_to_front fr) (\<lambda>fr'. Ok (Advance fr' st ctx)))"
proof (rule machine_one)
  show "sim es (bind_res (push_val_to_front fr) (\<lambda>fr'. Ok (Advance fr' st ctx))) (exec_instruction cfg pd PushValToFront (with_stack es fr) st ctx)"
    using sim_push [of es cfg pd fr st ctx] by (simp add: exec_instruction_def)
qed (simp add: push_val_to_front_def pop_back_def)

text \<open>A conditional replaces its instruction by those of the branch that it takes.\<close>

lemma machine_conditional:
  assumes x: "arena_get (heap_expressions (pd_heap pd)) e = (Ok (Ex_Conditional c t f) :: (Expression, EvalError) res)"
    and code: "\<And>b. serialize_expression (cfg_fuel cfg) cfg (pd_heap pd) (if b then t else f) [] = (Ok (code b) :: (ExprInstruction list, EvalError) res)"
    and branch: "\<And>b test fr3. pop_back fr = (Ok (test, fr3) :: (_, EvalError) res) \<Longrightarrow> as_bool test = Some b \<Longrightarrow>
      machine cfg pd es (code b) fr3 st ctx (R b fr3)"
  shows "machine cfg pd es [EvalExpr e] fr st ctx (bind_res (pop_back fr) (\<lambda>(test, fr3). bind_res (unwrap (as_bool test)) (\<lambda>b. R b fr3)))"
proof -
  have exec: "exec_instruction cfg pd (EvalExpr e) (with_stack es fr) st ctx =
      bind_res (pop_back fr) (\<lambda>(test, fr3). bind_res (unwrap (as_bool test)) (\<lambda>b. Ok (Advance (with_stack (es @ code b) fr3) st ctx)))"
    unfolding exec_instruction_def ExprInstruction.case eval_expr_def x bind_res.simps Expression.case eval_conditional_def frame_serialize_def
    by (simp only: sim_simps) (rule bind_res_cong [OF refl], auto simp: serialize_onto [OF code] intro!: bind_res_cong)
  show ?thesis
  proof (cases "\<exists>test fr3 b. pop_back fr = (Ok (test, fr3) :: (_, EvalError) res) \<and> as_bool test = Some b")
    case True
    then obtain test fr3 b where tb: "pop_back fr = (Ok (test, fr3) :: (_, EvalError) res)" "as_bool test = Some b" by blast
    from branch [OF tb] obtain k left where k: "\<And>m. run_exprs (k + m) cfg pd (with_stack (es @ code b) fr3) st ctx =
        continue_with cfg pd es left m (R b fr3)" by (auto simp: machine_def)
    have "run_exprs (Suc k + m) cfg pd (with_stack (es @ [EvalExpr e]) fr) st ctx = continue_with cfg pd es left m (R b fr3)" for m
      using k [of m] exec by (simp add: tb)
    with tb show ?thesis unfolding machine_def by (intro exI [of _ "Suc k"] exI [of _ left]) simp
  next
    case False
    then have "run_exprs (1 + m) cfg pd (with_stack (es @ [EvalExpr e]) fr) st ctx = Panic"
      "bind_res (pop_back fr) (\<lambda>(test, fr3). bind_res (unwrap (as_bool test)) (\<lambda>b. R b fr3)) = Panic" for m
      using exec by (auto simp: pop_back_def unwrap_def split: option.splits)
    then show ?thesis unfolding machine_def continue_with_def by (metis bind_res.simps(3))
  qed
qed


lemma bind_adv_not_out: "bind_adv m f \<noteq> OutOfFuel \<Longrightarrow> m \<noteq> OutOfFuel \<and> (\<forall>fr st ctx. m = Ok (Advance fr st ctx) \<longrightarrow> f fr st ctx \<noteq> OutOfFuel)"
  by (auto simp: bind_adv_def)

lemma machine_evaluates:
  assumes ok: "branches_serialized cfg (pd_heap pd)"
  shows "ref_eval f cfg pd e fr st ctx \<noteq> OutOfFuel \<Longrightarrow>
      serialize_expression n cfg (pd_heap pd) e [] = (Ok code :: (ExprInstruction list, EvalError) res) \<Longrightarrow>
      machine cfg pd es code fr st ctx (ref_eval f cfg pd e fr st ctx)"
    and "ref_children f cfg pd p (rev ids) fr st ctx \<noteq> OutOfFuel \<Longrightarrow>
      serialize_children n cfg (pd_heap pd) p ids [] = (Ok code :: (ExprInstruction list, EvalError) res) \<Longrightarrow>
      machine cfg pd es code fr st ctx (ref_children f cfg pd p (rev ids) fr st ctx)"
proof (induction f arbitrary: e fr st ctx n code es p ids rule: less_induct)
  case (less f)
  {
    case 1
    then obtain g where f: "f = Suc g" by (cases f) auto
    from 1(2) obtain n' x A B where x: "arena_get (heap_expressions (pd_heap pd)) e = (Ok x :: (Expression, EvalError) res)"
      and lit: "debug_assert cfg (literal_complete x) = (Ok () :: (unit, EvalError) res)"
      and A: "serialize_children n' cfg (pd_heap pd) False (plain_children x) [] = (Ok A :: (ExprInstruction list, EvalError) res)"
      and B: "serialize_children n' cfg (pd_heap pd) True (pushed_children x) [] = (Ok B :: (ExprInstruction list, EvalError) res)"
      and code: "code = [EvalExpr e] @ A @ B"
      by (rule serialized_expressionE)
    define node where "node = (\<lambda>fr2 st2 ctx2. case x of
       Ex_Conditional _ true_expression false_expression \<Rightarrow>
         bind_res (pop_back fr2) (\<lambda>(test, fr3).
         bind_res (unwrap (as_bool test)) (\<lambda>b.
         case g of 0 \<Rightarrow> OutOfFuel
         | Suc f \<Rightarrow> ref_eval f cfg pd (if b then true_expression else false_expression) fr3 st2 ctx2))
     | _ \<Rightarrow> eval_expr cfg pd e fr2 st2 ctx2)"
    have ref: "ref_eval f cfg pd e fr st ctx = bind_adv (ref_children g cfg pd True (rev (pushed_children x)) fr st ctx) (\<lambda>fr1 st1 ctx1.
       bind_adv (ref_children g cfg pd False (rev (plain_children x)) fr1 st1 ctx1) node)"
      by (simp add: f x lit node_def)
    have nd: "machine cfg pd es [EvalExpr e] fr2 st2 ctx2 (node fr2 st2 ctx2)" if "node fr2 st2 ctx2 \<noteq> OutOfFuel" for fr2 st2 ctx2
    proof (cases "conditional x")
      case False
      then have "node fr2 st2 ctx2 = eval_expr cfg pd e fr2 st2 ctx2" by (cases x) (simp_all add: node_def conditional_def)
      with machine_node [OF x False] that show ?thesis by simp
    next
      case True
      then obtain c t u where c: "x = Ex_Conditional c t u" by (cases x) (auto simp: conditional_def)
      from ok arena_get_in [OF x] have "serialized cfg (pd_heap pd) (if b then t else u)" for b
        by (fastforce simp: branches_serialized_def list_all_iff c)
      then have "\<exists>code. serialize_expression (cfg_fuel cfg) cfg (pd_heap pd) (if b then t else u) [] = (Ok code :: (ExprInstruction list, EvalError) res)" for b
        by (rule serializedE) blast
      then obtain br where br: "\<And>b. serialize_expression (cfg_fuel cfg) cfg (pd_heap pd) (if b then t else u) [] = (Ok (br b) :: (ExprInstruction list, EvalError) res)"
        by metis
      have "machine cfg pd es [EvalExpr e] fr2 st2 ctx2 (bind_res (pop_back fr2) (\<lambda>(test, fr3). bind_res (unwrap (as_bool test)) (\<lambda>b.
          case g of 0 \<Rightarrow> OutOfFuel | Suc f \<Rightarrow> ref_eval f cfg pd (if b then t else u) fr3 st2 ctx2)))"
      proof (rule machine_conditional [OF x [unfolded c] br])
        fix b test fr3
        assume tb: "pop_back fr2 = (Ok (test, fr3) :: (_, EvalError) res)" "as_bool test = Some b"
        from that obtain g' where g: "g = Suc g'" "ref_eval g' cfg pd (if b then t else u) fr3 st2 ctx2 \<noteq> OutOfFuel"
          by (cases g) (auto simp: node_def c tb)
        then show "machine cfg pd es (br b) fr3 st2 ctx2 (case g of 0 \<Rightarrow> OutOfFuel | Suc f \<Rightarrow> ref_eval f cfg pd (if b then t else u) fr3 st2 ctx2)"
          using less.IH(1) [OF _ g(2) br] f by simp
      qed
      then show ?thesis by (simp add: node_def c)
    qed
    note out = bind_adv_not_out [OF 1(1) [unfolded ref]]
    have "machine cfg pd es (([EvalExpr e] @ A) @ B) fr st ctx (ref_eval f cfg pd e fr st ctx)"
      unfolding ref
    proof (rule machine_bind)
      show "machine cfg pd (es @ [EvalExpr e] @ A) B fr st ctx (ref_children g cfg pd True (rev (pushed_children x)) fr st ctx)"
        by (rule less.IH(2) [OF _ _ B]) (use f out in auto)
      fix fr1 st1 ctx1
      assume "ref_children g cfg pd True (rev (pushed_children x)) fr st ctx = Ok (Advance fr1 st1 ctx1)"
      with out have "bind_adv (ref_children g cfg pd False (rev (plain_children x)) fr1 st1 ctx1) node \<noteq> OutOfFuel" by blast
      note out1 = bind_adv_not_out [OF this]
      show "machine cfg pd es ([EvalExpr e] @ A) fr1 st1 ctx1 (bind_adv (ref_children g cfg pd False (rev (plain_children x)) fr1 st1 ctx1) node)"
      proof (rule machine_bind)
        show "machine cfg pd (es @ [EvalExpr e]) A fr1 st1 ctx1 (ref_children g cfg pd False (rev (plain_children x)) fr1 st1 ctx1)"
          by (rule less.IH(2) [OF _ _ A]) (use f out1 in auto)
      qed (use nd out1 in blast)
    qed
    then show ?case by (simp add: code)
  next
    case 2
    then show ?case
    proof (induction ids arbitrary: fr st ctx code rule: rev_induct)
      case Nil
      then show ?case by (simp add: machine_Nil)
    next
      case (snoc e ids)
      from snoc.prems(2) obtain n' A B where n: "n = Suc n'"
        and A: "serialize_children n cfg (pd_heap pd) p ids [] = (Ok A :: (ExprInstruction list, EvalError) res)"
        and B: "serialize_expression n' cfg (pd_heap pd) e [] = (Ok B :: (ExprInstruction list, EvalError) res)"
        and code: "code = A @ (if p then [PushValToFront] else []) @ B"
        by (rule serialized_snocE)
      from snoc.prems(1) obtain g where f: "f = Suc g" by (cases f) (auto simp: bind_adv_def)
      have ref: "ref_children f cfg pd p (rev (ids @ [e])) fr st ctx = bind_adv (ref_eval g cfg pd e fr st ctx) (\<lambda>fr1 st1 ctx1.
          bind_adv (bind_res (if p then push_val_to_front fr1 else Ok fr1) (\<lambda>fr2. Ok (Advance fr2 st1 ctx1)))
            (\<lambda>fr2 st2 ctx2. ref_children f cfg pd p (rev ids) fr2 st2 ctx2))"
        by (simp add: f bind_adv_def bind_res_assoc)
      note out = bind_adv_not_out [OF snoc.prems(1) [unfolded ref]]
      have "machine cfg pd es ((A @ (if p then [PushValToFront] else [])) @ B) fr st ctx (ref_children f cfg pd p (rev (ids @ [e])) fr st ctx)"
        unfolding ref
      proof (rule machine_bind)
        show "machine cfg pd (es @ A @ (if p then [PushValToFront] else [])) B fr st ctx (ref_eval g cfg pd e fr st ctx)"
          by (rule less.IH(1) [OF _ _ B]) (use f out in auto)
        fix fr1 st1 ctx1
        assume "ref_eval g cfg pd e fr st ctx = Ok (Advance fr1 st1 ctx1)"
        with out have o: "bind_adv (bind_res (if p then push_val_to_front fr1 else Ok fr1) (\<lambda>fr2. Ok (Advance fr2 st1 ctx1)))
            (\<lambda>fr2 st2 ctx2. ref_children f cfg pd p (rev ids) fr2 st2 ctx2) \<noteq> OutOfFuel" by blast
        show "machine cfg pd es (A @ (if p then [PushValToFront] else [])) fr1 st1 ctx1
          (bind_adv (bind_res (if p then push_val_to_front fr1 else Ok fr1) (\<lambda>fr2. Ok (Advance fr2 st1 ctx1)))
            (\<lambda>fr2 st2 ctx2. ref_children f cfg pd p (rev ids) fr2 st2 ctx2))"
        proof (rule machine_bind)
          show "machine cfg pd (es @ A) (if p then [PushValToFront] else []) fr1 st1 ctx1
              (bind_res (if p then push_val_to_front fr1 else Ok fr1) (\<lambda>fr2. Ok (Advance fr2 st1 ctx1)))"
            by (simp add: machine_push machine_Nil)
        qed (use bind_adv_not_out [OF o] snoc.IH [OF _ A] in blast)
      qed
      then show ?case by (simp add: code)
    qed
  }
qed


section \<open>Properties\<close>

text \<open>For the witness: \<open>(true ? 5 : 7) + 3\<close>.\<close>

definition expr_heap :: ProtoHeap where
  "expr_heap = \<lparr>heap_variables = [], heap_definitions = [], heap_statements = [],
     heap_expressions = [Ex_Binary 1 BO_Add 5, Ex_Conditional 2 3 4, Ex_Literal LitTrue 0,
       Ex_Literal (LitInteger 5) 0, Ex_Literal (LitInteger 7) 0, Ex_Literal (LitInteger 3) 0]\<rparr>"

definition expr_pd :: ProtocolDescription where
  "expr_pd = \<lparr>modules = [], pd_heap = expr_heap, pd_types = [(0, [[\<lparr>expr_type = [CTP_UInt32], field_or_monomorph_idx = - 1\<rparr>]])]\<rparr>"

definition expr_cfg :: EvalCfg where
  "expr_cfg = \<lparr>cfg_debug = True, cfg_max_fn = 4096, cfg_fuel = 8\<rparr>"

definition expr_frame :: Frame where
  "expr_frame = \<lparr>fr_definition = 0, fr_monomorph_idx = 0, fr_position = 0, expr_stack = [], expr_values = [], max_stack_size = 0\<rparr>"

text \<open>
  C18: the machine computes the recursive evaluation of an expression. After an expression has
  been prepared, running its instructions gives, for all large enough numbers of steps, what
  evaluating the subexpressions from the last to the first and then the node gives: the same
  values, store and context, or the same yield, error or panic. The fields of a struct
  literal count in the order of the definition, so they are evaluated in the reverse of this
  order.
\<close>

theorem expressions_evaluate:
  assumes "branches_serialized cfg (pd_heap pd)" "expr_stack fr = []"
    and prepared: "prepare_single_expression cfg (pd_heap pd) e fr = (Ok fr' :: (Frame, EvalError) res)"
    and "ref_eval f cfg pd e (fr\<lparr>expr_values := []\<rparr>) st ctx \<noteq> OutOfFuel"
  shows "\<exists>k. \<forall>m \<ge> k. (case ref_eval f cfg pd e (fr\<lparr>expr_values := []\<rparr>) st ctx of
      Ok (Advance fr1 st1 ctx1) \<Rightarrow> run_exprs m cfg pd fr' st ctx = Ok (Advance (fr1\<lparr>expr_stack := []\<rparr>) st1 ctx1)
    | Ok (Yield cont fr1 pushed st1 ctx1) \<Rightarrow> \<exists>left. run_exprs m cfg pd fr' st ctx = Ok (Yield cont (fr1\<lparr>expr_stack := left\<rparr>) pushed st1 ctx1)
    | r \<Rightarrow> run_exprs m cfg pd fr' st ctx = r)"
proof -
  from prepared assms(2) obtain code where
    code: "serialize_expression (cfg_fuel cfg) cfg (pd_heap pd) e [] = (Ok code :: (ExprInstruction list, EvalError) res)"
    and fr': "fr' = with_stack code (fr\<lparr>expr_values := []\<rparr>)"
    by (auto simp: prepare_single_expression_def frame_serialize_def debug_assert_def outcome_simps split: if_splits)
  from machine_evaluates(1) [OF assms(1,4) code, of "[]"] obtain k left where
    k: "\<And>m. run_exprs (k + m) cfg pd fr' st ctx = continue_with cfg pd [] left m (ref_eval f cfg pd e (fr\<lparr>expr_values := []\<rparr>) st ctx)"
    by (auto simp: machine_def fr')
  have empty: "run_exprs m cfg pd (with_stack [] fr1) st1 ctx1 = Ok (Advance (with_stack [] fr1) st1 ctx1)" for m fr1 st1 ctx1
    by (cases m) simp_all
  have step: "case ref_eval f cfg pd e (fr\<lparr>expr_values := []\<rparr>) st ctx of
      Ok (Advance fr1 st1 ctx1) \<Rightarrow> run_exprs (k + m) cfg pd fr' st ctx = Ok (Advance (fr1\<lparr>expr_stack := []\<rparr>) st1 ctx1)
    | Ok (Yield cont fr1 pushed st1 ctx1) \<Rightarrow> \<exists>left. run_exprs (k + m) cfg pd fr' st ctx = Ok (Yield cont (fr1\<lparr>expr_stack := left\<rparr>) pushed st1 ctx1)
    | r \<Rightarrow> run_exprs (k + m) cfg pd fr' st ctx = r" for m
  proof (cases "ref_eval f cfg pd e (fr\<lparr>expr_values := []\<rparr>) st ctx")
    case (Ok x)
    then show ?thesis using k [of m] empty [of m] by (cases x) (auto simp: continue_with_def)
  qed (use k [of m] assms(4) in \<open>simp_all add: continue_with_def\<close>)
  show ?thesis
  proof (intro exI [of _ k] allI impI)
    fix m assume "k \<le> m"
    then obtain j where m: "m = k + j" using le_Suc_ex by blast
    show "case ref_eval f cfg pd e (fr\<lparr>expr_values := []\<rparr>) st ctx of
        Ok (Advance fr1 st1 ctx1) \<Rightarrow> run_exprs m cfg pd fr' st ctx = Ok (Advance (fr1\<lparr>expr_stack := []\<rparr>) st1 ctx1)
      | Ok (Yield cont fr1 pushed st1 ctx1) \<Rightarrow> \<exists>left. run_exprs m cfg pd fr' st ctx = Ok (Yield cont (fr1\<lparr>expr_stack := left\<rparr>) pushed st1 ctx1)
      | r \<Rightarrow> run_exprs m cfg pd fr' st ctx = r"
      unfolding m by (rule step)
  qed
qed

theorem expressions_evaluate_witness:
  "\<exists>fr' k. prepare_single_expression expr_cfg expr_heap 0 expr_frame = (Ok fr' :: (Frame, EvalError) res) \<and>
     (\<forall>m \<ge> k. run_exprs m expr_cfg expr_pd fr' Store_new CtxNone = Ok (Advance (expr_frame\<lparr>expr_values := [VUInt32 8]\<rparr>) Store_new CtxNone))"
proof -
  have ref: "ref_eval 8 expr_cfg expr_pd 0 (expr_frame\<lparr>expr_values := []\<rparr>) Store_new CtxNone =
      Ok (Advance (expr_frame\<lparr>expr_values := [VUInt32 8]\<rparr>) Store_new CtxNone)" by code_simp
  have 1: "branches_serialized expr_cfg (pd_heap expr_pd)" by code_simp
  have 2: "prepare_single_expression expr_cfg (pd_heap expr_pd) 0 expr_frame = (Ok (expr_frame\<lparr>expr_stack := [EvalExpr 0, EvalExpr 1, EvalExpr 2, EvalExpr 5]\<rparr>) :: (Frame, EvalError) res)"
    by code_simp
  have 3: "expr_stack expr_frame = []" "expr_frame\<lparr>expr_values := vs, expr_stack := []\<rparr> = expr_frame\<lparr>expr_values := vs\<rparr>" for vs
    by (simp_all add: expr_frame_def)
  have 4: "pd_heap expr_pd = expr_heap" by (simp add: expr_pd_def)
  from expressions_evaluate [OF 1 3(1) 2, of 8 Store_new CtxNone] obtain k where
    "\<forall>m \<ge> k. run_exprs m expr_cfg expr_pd (expr_frame\<lparr>expr_stack := [EvalExpr 0, EvalExpr 1, EvalExpr 2, EvalExpr 5]\<rparr>) Store_new CtxNone =
       Ok (Advance (expr_frame\<lparr>expr_values := [VUInt32 8]\<rparr>) Store_new CtxNone)"
    unfolding ref res.case ExprOutcome.case 3(2) by blast
  with 2 show ?thesis unfolding 4 by blast
qed

end
