(* ===== verification/Election_Network.thy ===== *)
theory Election_Network
  imports Tree_Invariant "HOL-Library.Multiset"
begin

text \<open>
  The election as a distributed algorithm: a network of connectors, each reacting to
  messages as \<open>wave_react\<close> does (which is what \<open>election_wave\<close> does, by
  \<open>election_wave_react\<close>) and to announcements as \<open>election_step\<close> does. Messages may be
  delayed and reordered at will. The theory shows that the assertions of the source cannot
  fail, that all connectors agree on the connector with the greatest identifier, that the
  parents lead to it, and that the election cannot get stuck.
\<close>

section \<open>The network\<close>

text \<open>\<open>wire T v i\<close> is the other end of the endpoint \<open>i\<close> of the connector \<open>v\<close>.\<close>

record 'n Topology =
  ident :: "'n \<Rightarrow> u32"
  deg :: "'n \<Rightarrow> nat"
  wire :: "'n \<Rightarrow> nat \<Rightarrow> 'n \<times> nat"

definition links :: "'n Topology \<Rightarrow> ('n \<times> 'n) set" where
  "links T = {(v, fst (wire T v i)) | v i. i < deg T v}"

definition topology_ok :: "'n Topology \<Rightarrow> bool" where
  "topology_ok T \<longleftrightarrow> inj (ident T) \<and> (\<forall>v w. (v, w) \<in> (links T)\<^sup>*) \<and>
     (\<forall>v i u j. i < deg T v \<longrightarrow> wire T v i = (u, j) \<longrightarrow> j < deg T u \<and> wire T u j = (v, i))"

text \<open>
  \<open>sent\<close>, \<open>recd\<close>, \<open>joins\<close> and \<open>fins\<close> record the past and are not read by any
  step: the waves that a connector sent and received on each endpoint, the waves that it
  joined with the endpoint they came from (none for its own), newest first, and the
  connectors that finished, newest first.
\<close>

record 'n ElectionNet =
  started :: "'n set"
  waves :: "'n \<Rightarrow> WaveState"
  awaits :: "'n \<Rightarrow> nat hash_set"
  results :: "'n \<Rightarrow> WaveState option"
  flight :: "('n \<times> nat \<times> SetupMsg) multiset"
  sent :: "('n \<times> nat \<times> u32) set"
  recd :: "('n \<times> nat \<times> u32) set"
  joins :: "('n \<times> u32 \<times> nat option) list"
  fins :: "'n list"

definition posted :: "'n Topology \<Rightarrow> 'n \<Rightarrow> (nat \<times> SetupMsg) list \<Rightarrow> ('n \<times> nat \<times> SetupMsg) multiset" where
  "posted T v out = mset (map (\<lambda>(i, m). case wire T v i of (u, j) \<Rightarrow> (u, j, m)) out)"

definition send_out :: "'n Topology \<Rightarrow> 'n \<Rightarrow> u32 \<Rightarrow> nat list \<Rightarrow> 'n ElectionNet \<Rightarrow> 'n ElectionNet" where
  "send_out T v l out s = s\<lparr>flight := flight s + posted T v (map (\<lambda>j. (j, LeaderWave l)) out),
     sent := sent s \<union> {(v, j, l) | j. j \<in> set out}\<rparr>"

definition announce_out :: "nat \<Rightarrow> WaveState \<Rightarrow> (nat \<times> SetupMsg) list" where
  "announce_out n ws = map (\<lambda>i. (i, if Some i = ws_parent ws then YouAreMyParent else LeaderAnnounce (ws_leader ws))) [0 ..< n]"

definition finish :: "'n Topology \<Rightarrow> 'n \<Rightarrow> WaveState \<Rightarrow> 'n ElectionNet \<Rightarrow> 'n ElectionNet" where
  "finish T v ws s = s\<lparr>results := (results s)(v := Some ws), flight := flight s + posted T v (announce_out (deg T v) ws),
     fins := v # fins s\<rparr>"

definition start_node :: "'n Topology \<Rightarrow> 'n \<Rightarrow> 'n ElectionNet \<Rightarrow> 'n ElectionNet" where
  "start_node T v s = (let ws = \<lparr>ws_parent = None, ws_leader = ident T v\<rparr> in
     send_out T v (ident T v) [0 ..< deg T v]
       (s\<lparr>started := insert v (started s), waves := (waves s)(v := ws), awaits := (awaits s)(v := waits (deg T v) ws),
          joins := (v, ident T v, None) # joins s\<rparr>))"

definition take_wave :: "'n \<Rightarrow> nat \<Rightarrow> u32 \<Rightarrow> 'n ElectionNet \<Rightarrow> 'n ElectionNet" where
  "take_wave v i l s = s\<lparr>flight := flight s - {#(v, i, LeaderWave l)#}, recd := insert (v, i, l) (recd s),
     joins := (if ws_leader (waves s v) < l then (v, l, Some i) # joins s else joins s)\<rparr>"

definition after_wave :: "'n Topology \<Rightarrow> 'n \<Rightarrow> ElectionStep \<Rightarrow> 'n ElectionNet \<Rightarrow> 'n ElectionNet" where
  "after_wave T v st s = (case st of
     Continue ws a \<Rightarrow> s\<lparr>waves := (waves s)(v := ws), awaits := (awaits s)(v := a)\<rparr>
   | Elected ws \<Rightarrow> finish T v ws s)"

inductive net_step :: "'n Topology \<Rightarrow> 'n ElectionNet \<Rightarrow> 'n ElectionNet \<Rightarrow> bool" for T where
  start: "v \<notin> started s \<Longrightarrow> net_step T s (start_node T v s)"
| wave: "(v, i, LeaderWave l) \<in># flight s \<Longrightarrow> v \<in> started s \<Longrightarrow> results s v = None \<Longrightarrow>
    wave_react (deg T v) (waves s v) (awaits s v) i l = Some (st, out) \<Longrightarrow>
    net_step T s (after_wave T v st (send_out T v l out (take_wave v i l s)))"
| announcement: "(v, i, LeaderAnnounce l) \<in># flight s \<Longrightarrow> v \<in> started s \<Longrightarrow> results s v = None \<Longrightarrow>
    ws_leader (waves s v) \<le> l \<Longrightarrow> l \<noteq> ident T v \<Longrightarrow>
    net_step T s (finish T v \<lparr>ws_parent = Some i, ws_leader = l\<rparr> (s\<lparr>flight := flight s - {#(v, i, LeaderAnnounce l)#}\<rparr>))"
| late: "(v, i, m) \<in># flight s \<Longrightarrow> results s v \<noteq> None \<Longrightarrow> net_step T s (s\<lparr>flight := flight s - {#(v, i, m)#}\<rparr>)"

definition net_init :: "'n ElectionNet" where
  "net_init = \<lparr>started = {}, waves = \<lambda>_. \<lparr>ws_parent = None, ws_leader = 0\<rparr>, awaits = \<lambda>_. [], results = \<lambda>_. None, flight = {#},
     sent = {}, recd = {}, joins = [], fins = []\<rparr>"

inductive net_reachable :: "'n Topology \<Rightarrow> 'n ElectionNet \<Rightarrow> bool" for T where
  init: "net_reachable T net_init"
| step: "net_reachable T s \<Longrightarrow> net_step T s s' \<Longrightarrow> net_reachable T s'"

section \<open>The invariant\<close>

fun joins_ok :: "'n Topology \<Rightarrow> ('n \<times> u32 \<times> nat option) list \<Rightarrow> bool" where
  "joins_ok T [] \<longleftrightarrow> True"
| "joins_ok T ((v, l, q) # js) \<longleftrightarrow> joins_ok T js \<and> (\<forall>q'. (v, l, q') \<notin> set js) \<and>
     (case q of None \<Rightarrow> l = ident T v | Some p \<Rightarrow> p < deg T v \<and> (\<exists>q'. (fst (wire T v p), l, q') \<in> set js))"

definition arrival :: "'n Topology \<Rightarrow> 'n \<Rightarrow> nat \<Rightarrow> 'm \<Rightarrow> 'n \<times> nat \<times> 'm" where
  "arrival T v i m = (fst (wire T v i), snd (wire T v i), m)"

definition complete :: "'n Topology \<Rightarrow> 'n ElectionNet \<Rightarrow> 'n \<Rightarrow> u32 \<Rightarrow> bool" where
  "complete T s v l \<longleftrightarrow> (\<forall>j < deg T v. (v, j, l) \<in> recd s)"

definition inv_current :: "'n ElectionNet \<Rightarrow> bool" where
  "inv_current s \<longleftrightarrow> (\<forall>v \<in> started s. (v, ws_leader (waves s v), ws_parent (waves s v)) \<in> set (joins s))"

definition inv_joins :: "'n Topology \<Rightarrow> 'n ElectionNet \<Rightarrow> bool" where
  "inv_joins T s \<longleftrightarrow> joins_ok T (joins s) \<and>
     (\<forall>v l q. (v, l, q) \<in> set (joins s) \<longrightarrow> v \<in> started s \<and> l \<le> ws_leader (waves s v) \<and> ident T v \<le> l \<and>
        (\<forall>p. q = Some p \<longrightarrow> (v, p, l) \<in> recd s))"

definition inv_sent :: "'n Topology \<Rightarrow> 'n ElectionNet \<Rightarrow> bool" where
  "inv_sent T s \<longleftrightarrow> (\<forall>v i l. (v, i, l) \<in> sent s \<longrightarrow>
     i < deg T v \<and> (\<exists>q. (v, l, q) \<in> set (joins s) \<and> (q = Some i \<longrightarrow> complete T s v l)))"

definition inv_recd :: "'n Topology \<Rightarrow> 'n ElectionNet \<Rightarrow> bool" where
  "inv_recd T s \<longleftrightarrow> (\<forall>v i l. (v, i, l) \<in> recd s \<longrightarrow>
     i < deg T v \<and> v \<in> started s \<and> l \<le> ws_leader (waves s v) \<and> arrival T v i l \<in> sent s)"

definition inv_awaits :: "'n Topology \<Rightarrow> 'n ElectionNet \<Rightarrow> bool" where
  "inv_awaits T s \<longleftrightarrow> (\<forall>v \<in> started s. results s v = None \<longrightarrow>
     set (awaits s v) = {i. i < deg T v \<and> Some i \<noteq> ws_parent (waves s v) \<and> (v, i, ws_leader (waves s v)) \<notin> recd s})"

definition inv_flight :: "'n Topology \<Rightarrow> 'n ElectionNet \<Rightarrow> bool" where
  "inv_flight T s \<longleftrightarrow> (\<forall>v i l. count (flight s) (v, i, LeaderWave l) \<le> 1 \<and>
     ((v, i, LeaderWave l) \<in># flight s \<longrightarrow> i < deg T v \<and> arrival T v i l \<in> sent s \<and> (v, i, l) \<notin> recd s))"

definition wave_inv :: "'n Topology \<Rightarrow> 'n ElectionNet \<Rightarrow> bool" where
  "wave_inv T s \<longleftrightarrow> inv_current s \<and> inv_joins T s \<and> inv_sent T s \<and> inv_recd T s \<and> inv_awaits T s \<and> inv_flight T s"

lemma wave_invD:
  assumes "wave_inv T s"
  shows "inv_current s" "inv_joins T s" "inv_sent T s" "inv_recd T s" "inv_awaits T s" "inv_flight T s"
  using assms by (simp_all add: wave_inv_def)

lemma inv_currentD: "inv_current s \<Longrightarrow> v \<in> started s \<Longrightarrow> (v, ws_leader (waves s v), ws_parent (waves s v)) \<in> set (joins s)"
  by (simp add: inv_current_def)

lemma inv_joinsD:
  assumes "inv_joins T s" "(v, l, q) \<in> set (joins s)"
  shows "v \<in> started s" "l \<le> ws_leader (waves s v)" "ident T v \<le> l" "q = Some p \<Longrightarrow> (v, p, l) \<in> recd s"
  using assms unfolding inv_joins_def by blast+

lemma inv_sentD:
  assumes "inv_sent T s" "(v, i, l) \<in> sent s"
  shows "i < deg T v" "\<exists>q. (v, l, q) \<in> set (joins s) \<and> (q = Some i \<longrightarrow> complete T s v l)"
  using assms unfolding inv_sent_def by blast+

lemma inv_recdD:
  assumes "inv_recd T s" "(v, i, l) \<in> recd s"
  shows "i < deg T v" "v \<in> started s" "l \<le> ws_leader (waves s v)" "arrival T v i l \<in> sent s"
  using assms unfolding inv_recd_def by blast+

lemma inv_flightD:
  assumes "inv_flight T s"
  shows "count (flight s) (v, i, LeaderWave l) \<le> 1"
    and "(v, i, LeaderWave l) \<in># flight s \<Longrightarrow> i < deg T v" "(v, i, LeaderWave l) \<in># flight s \<Longrightarrow> arrival T v i l \<in> sent s"
    and "(v, i, LeaderWave l) \<in># flight s \<Longrightarrow> (v, i, l) \<notin> recd s"
  using assms unfolding inv_flight_def by blast+

lemma joins_unique:
  assumes "joins_ok T js" "(v, l, q) \<in> set js" "(v, l, q') \<in> set js"
  shows "q = q'"
  using assms by (induction T js rule: joins_ok.induct) auto

lemma wire_back:
  assumes "topology_ok T" "i < deg T v"
  shows "wire T (fst (wire T v i)) (snd (wire T v i)) = (v, i)" "snd (wire T v i) < deg T (fst (wire T v i))"
proof -
  have "\<forall>v i u j. i < deg T v \<longrightarrow> wire T v i = (u, j) \<longrightarrow> j < deg T u \<and> wire T u j = (v, i)"
    using assms(1) unfolding topology_ok_def by (elim conjE)
  with assms(2) show "wire T (fst (wire T v i)) (snd (wire T v i)) = (v, i)" "snd (wire T v i) < deg T (fst (wire T v i))"
    by (metis surjective_pairing)+
qed

lemma arrival_back:
  assumes "topology_ok T" "i < deg T v" "arrival T v i m = (u, j, m')"
  shows "arrival T u j m = (v, i, m)" "j < deg T u" "m' = m"
  using wire_back [OF assms(1,2)] assms(3) by (auto simp: arrival_def)

lemma arrival_inj:
  "topology_ok T \<Longrightarrow> i < deg T v \<Longrightarrow> j < deg T v \<Longrightarrow> arrival T v i m = arrival T v j m' \<Longrightarrow> i = j \<and> m = m'"
  using wire_back(1) by (metis (no_types, lifting) arrival_def prod.inject prod.collapse)

text \<open>What \<open>send_out\<close> puts into the network.\<close>

lemma count_posted_waves:
  assumes T: "topology_ok T" and out: "distinct out" "\<forall>j \<in> set out. j < deg T v"
  shows "count (posted T v (map (\<lambda>j. (j, LeaderWave l)) out)) x = (if \<exists>j \<in> set out. x = arrival T v j (LeaderWave l) then 1 else 0)"
proof -
  have eq: "posted T v (map (\<lambda>j. (j, LeaderWave l)) out) = mset (map (\<lambda>j. arrival T v j (LeaderWave l)) out)"
    by (simp add: posted_def arrival_def case_prod_beta comp_def)
  have "inj_on (\<lambda>j. arrival T v j (LeaderWave l)) (set out)"
  proof (rule inj_onI)
    fix x y
    assume "x \<in> set out" "y \<in> set out" "arrival T v x (LeaderWave l) = arrival T v y (LeaderWave l)"
    moreover from this out(2) have "x < deg T v" "y < deg T v" by auto
    ultimately show "x = y" using arrival_inj [OF T] by metis
  qed
  then have "distinct (map (\<lambda>j. arrival T v j (LeaderWave l)) out)"
    using out(1) by (simp add: distinct_map)
  then have "count (mset (map (\<lambda>j. arrival T v j (LeaderWave l)) out)) x =
      (if x \<in> set (map (\<lambda>j. arrival T v j (LeaderWave l)) out) then 1 else 0)"
    unfolding distinct_count_atmost_1 by blast
  then show ?thesis unfolding eq by auto
qed

section \<open>Receiving a wave\<close>

lemma wave_react_cases:
  assumes "wave_react n ws a i l = Some (st, out)"
  obtains (less) "l < ws_leader ws" "st = Continue ws a" "out = []"
    | (greater) "ws_leader ws < l" "st = Continue \<lparr>ws_parent = Some i, ws_leader = l\<rparr> (waits n \<lparr>ws_parent = Some i, ws_leader = l\<rparr>)"
        "out = filter (\<lambda>j. j \<noteq> i) [0 ..< n] @ (if waits n \<lparr>ws_parent = Some i, ws_leader = l\<rparr> = [] then [i] else [])"
    | (more) "l = ws_leader ws" "i \<in> set a" "hs_remove i a \<noteq> []" "st = Continue ws (hs_remove i a)" "out = []"
    | (echo) p where "l = ws_leader ws" "i \<in> set a" "hs_remove i a = []" "ws_parent ws = Some p" "st = Continue ws []" "out = [p]"
    | (win) "l = ws_leader ws" "i \<in> set a" "hs_remove i a = []" "ws_parent ws = None" "st = Elected ws" "out = []"
  using assms by (auto simp: wave_react_def Let_def split: if_splits option.splits)

text \<open>
  A message is received and the reaction sent. \<open>fresh_out\<close> is what makes the sent waves
  new: the connector has not sent this wave on these endpoints before.
\<close>

definition fresh_out :: "'n Topology \<Rightarrow> 'n \<Rightarrow> u32 \<Rightarrow> nat list \<Rightarrow> 'n ElectionNet \<Rightarrow> bool" where
  "fresh_out T v l out s \<longleftrightarrow> distinct out \<and> (\<forall>j \<in> set out. j < deg T v \<and> (v, j, l) \<notin> sent s)"

lemma recd_take [simp]: "recd (take_wave v i l s) = insert (v, i, l) (recd s)"
  and sent_take [simp]: "sent (take_wave v i l s) = sent s"
  and joins_take [simp]: "joins (take_wave v i l s) = (if ws_leader (waves s v) < l then (v, l, Some i) # joins s else joins s)"
  and flight_take [simp]: "flight (take_wave v i l s) = flight s - {#(v, i, LeaderWave l)#}"
  and other_take [simp]: "started (take_wave v i l s) = started s" "waves (take_wave v i l s) = waves s" "awaits (take_wave v i l s) = awaits s"
    "results (take_wave v i l s) = results s" "fins (take_wave v i l s) = fins s"
  by (simp_all add: take_wave_def)

lemma send_simps [simp]: "recd (send_out T v l out s) = recd s" "joins (send_out T v l out s) = joins s"
  "started (send_out T v l out s) = started s" "waves (send_out T v l out s) = waves s" "awaits (send_out T v l out s) = awaits s"
  "results (send_out T v l out s) = results s" "fins (send_out T v l out s) = fins s"
  "sent (send_out T v l out s) = sent s \<union> {(v, j, l) | j. j \<in> set out}"
  "flight (send_out T v l out s) = flight s + posted T v (map (\<lambda>j. (j, LeaderWave l)) out)"
  by (simp_all add: send_out_def)

lemma inv_flight_send:
  assumes T: "topology_ok T" and flight: "inv_flight T s"
    and recd: "\<And>u k m. (u, k, m) \<in> recd s \<Longrightarrow> arrival T u k m \<in> sent s" and fresh: "fresh_out T v l out s"
  shows "inv_flight T (send_out T v l out s)"
  unfolding inv_flight_def
proof (intro allI conjI impI)
  fix u k m
  have out: "distinct out" "\<forall>j \<in> set out. j < deg T v" using fresh by (simp_all add: fresh_out_def)
  note posted = count_posted_waves [OF T out, of l "(u, k, LeaderWave m)"]
  have new: "k < deg T u" "arrival T u k m \<in> {(v, j, l) | j. j \<in> set out}" "(u, k, LeaderWave m) \<notin># flight s" "(u, k, m) \<notin> recd s"
    if "j \<in> set out" "(u, k, LeaderWave m) = arrival T v j (LeaderWave l)" for j
  proof -
    have j: "j < deg T v" "(v, j, l) \<notin> sent s" using that(1) fresh by (auto simp: fresh_out_def)
    have m: "m = l" and bk: "arrival T u k l = (v, j, l)" and "k < deg T u"
      using arrival_back [OF T j(1), of "LeaderWave l" u k] that(2) by (auto simp: arrival_def)
    then show "k < deg T u" "arrival T u k m \<in> {(v, j, l) | j. j \<in> set out}" using that(1) by auto
    show "(u, k, LeaderWave m) \<notin># flight s"
      using inv_flightD(3) [OF flight, of u k m] bk m j(2) by auto
    show "(u, k, m) \<notin> recd s"
      using recd [of u k m] bk m j(2) by auto
  qed
  show "count (flight (send_out T v l out s)) (u, k, LeaderWave m) \<le> 1"
    using inv_flightD(1) [OF flight, of u k m] new(3) posted by (auto simp: not_in_iff)
  assume "(u, k, LeaderWave m) \<in># flight (send_out T v l out s)"
  then have "(u, k, LeaderWave m) \<in># flight s \<or> (\<exists>j \<in> set out. (u, k, LeaderWave m) = arrival T v j (LeaderWave l))"
    using posted by (auto simp: count_greater_zero_iff [symmetric] simp del: count_greater_zero_iff split: if_splits)
  then show "k < deg T u" "arrival T u k m \<in> sent (send_out T v l out s)" "(u, k, m) \<notin> recd (send_out T v l out s)"
    using inv_flightD(2-4) [OF flight, of u k m] new by auto
qed

lemma inv_flight_take:
  assumes "inv_flight T s"
  shows "inv_flight T (take_wave v i l s)"
  unfolding inv_flight_def
proof (intro allI conjI impI)
  fix u k m
  note c = inv_flightD(1) [OF assms, of u k m]
  show "count (flight (take_wave v i l s)) (u, k, LeaderWave m) \<le> 1" using c by simp
  assume "(u, k, LeaderWave m) \<in># flight (take_wave v i l s)"
  then have "0 < count (flight s - {#(v, i, LeaderWave l)#}) (u, k, LeaderWave m)"
    by (simp only: flight_take count_greater_zero_iff)
  then have "0 < count (flight s) (u, k, LeaderWave m)" "(u, k, m) \<noteq> (v, i, l)"
    using c by (auto split: if_splits)
  then have "(u, k, LeaderWave m) \<in># flight s" "(u, k, m) \<noteq> (v, i, l)" by (simp_all only: count_greater_zero_iff not_False_eq_True)
  with inv_flightD(2-4) [OF assms, of u k m]
  show "k < deg T u" "arrival T u k m \<in> sent (take_wave v i l s)" "(u, k, m) \<notin> recd (take_wave v i l s)" by simp_all
qed

lemma count_posted_announce [simp]: "count (posted T v (announce_out n ws)) (u, k, LeaderWave m) = 0"
  by (auto simp: posted_def announce_out_def count_eq_zero_iff split: prod.splits if_splits)

lemma inv_flight_sub:
  assumes "inv_flight T s" "\<And>u k m. count (flight s') (u, k, LeaderWave m) \<le> count (flight s) (u, k, LeaderWave m)"
    "sent s' = sent s" "recd s' = recd s"
  shows "inv_flight T s'"
  unfolding inv_flight_def assms(3,4)
proof (intro allI conjI impI)
  fix u k m
  show "count (flight s') (u, k, LeaderWave m) \<le> 1"
    using assms(2) [of u k m] inv_flightD(1) [OF assms(1), of u k m] by simp
  assume "(u, k, LeaderWave m) \<in># flight s'"
  then have "0 < count (flight s') (u, k, LeaderWave m)" by (simp only: count_greater_zero_iff)
  then have "0 < count (flight s) (u, k, LeaderWave m)" using assms(2) [of u k m] by (rule order.strict_trans2)
  then have "(u, k, LeaderWave m) \<in># flight s" by (simp only: count_greater_zero_iff)
  with inv_flightD(2-4) [OF assms(1)] show "k < deg T u" "arrival T u k m \<in> sent s" "(u, k, m) \<notin> recd s" by blast+
qed

text \<open>The reaction to a wave is fresh, and the assertion on \<open>awaiting\<close> holds.\<close>

lemma wave_react_fresh:
  assumes inv: "wave_inv T s" and v: "v \<in> started s"
    and msg: "(v, i, LeaderWave l) \<in># flight s"
    and react: "wave_react (deg T v) (waves s v) (awaits s v) i l = Some (st, out)"
  shows "fresh_out T v l out (take_wave v i l s)"
  using react
proof (cases rule: wave_react_cases)
  case greater
  have "(v, j, l) \<notin> sent s" for j
    using inv_sentD(2) [OF wave_invD(3) [OF inv], of v j l] inv_joinsD(2) [OF wave_invD(2) [OF inv], of v l] greater(1) by fastforce
  moreover have "i < deg T v" using inv_flightD(2) [OF wave_invD(6) [OF inv] msg] .
  ultimately show ?thesis using greater(3) by (auto simp: fresh_out_def)
next
  case (echo p)
  have cur: "(v, l, Some p) \<in> set (joins s)"
    using inv_currentD [OF wave_invD(1) [OF inv] v] echo(1,4) by simp
  then have p: "p < deg T v"
    using inv_joinsD(4) [OF wave_invD(2) [OF inv] cur, of p] inv_recdD(1) [OF wave_invD(4) [OF inv], of v p l] by blast
  have "(v, p, l) \<notin> sent s"
  proof
    assume "(v, p, l) \<in> sent s"
    then obtain q where q: "(v, l, q) \<in> set (joins s)" "q = Some p \<longrightarrow> complete T s v l"
      using inv_sentD(2) [OF wave_invD(3) [OF inv]] by blast
    moreover have "joins_ok T (joins s)" using wave_invD(2) [OF inv] by (simp add: inv_joins_def)
    ultimately have "complete T s v l" using joins_unique [OF _ cur q(1)] by auto
    then show False
      using inv_flightD(2,4) [OF wave_invD(6) [OF inv] msg] by (auto simp: complete_def)
  qed
  with p show ?thesis using echo(6) by (simp add: fresh_out_def)
qed (simp_all add: fresh_out_def)

lemma wave_react_total:
  assumes inv: "wave_inv T s" and v: "v \<in> started s" "results s v = None" and msg: "(v, i, LeaderWave l) \<in># flight s"
  shows "wave_react (deg T v) (waves s v) (awaits s v) i l \<noteq> None"
proof (cases "l = ws_leader (waves s v)")
  case True
  have m: "i < deg T v" "(v, i, l) \<notin> recd s" using inv_flightD(2,4) [OF wave_invD(6) [OF inv] msg] .
  have "ws_parent (waves s v) \<noteq> Some i"
    using inv_joinsD(4) [OF wave_invD(2) [OF inv] inv_currentD [OF wave_invD(1) [OF inv] v(1)], of i] m(2) True by auto
  then have "i \<in> set (awaits s v)"
    using wave_invD(5) [OF inv] v m True by (auto simp: inv_awaits_def)
  then show ?thesis using True by (auto simp: wave_react_def split: option.splits)
qed (auto simp: wave_react_def Let_def)

text \<open>What is known when a wave is received, and the state afterwards.\<close>

definition wave_recv :: "'n Topology \<Rightarrow> 'n ElectionNet \<Rightarrow> 'n \<Rightarrow> nat \<Rightarrow> u32 \<Rightarrow> ElectionStep \<Rightarrow> nat list \<Rightarrow> bool" where
  "wave_recv T s v i l st out \<longleftrightarrow> topology_ok T \<and> wave_inv T s \<and> v \<in> started s \<and> results s v = None \<and>
     (v, i, LeaderWave l) \<in># flight s \<and> wave_react (deg T v) (waves s v) (awaits s v) i l = Some (st, out)"

definition wave_after :: "'n Topology \<Rightarrow> 'n ElectionNet \<Rightarrow> 'n \<Rightarrow> nat \<Rightarrow> u32 \<Rightarrow> ElectionStep \<Rightarrow> nat list \<Rightarrow> 'n ElectionNet" where
  "wave_after T s v i l st out = after_wave T v st (send_out T v l out (take_wave v i l s))"

definition joined_wave :: "WaveState \<Rightarrow> nat \<Rightarrow> u32 \<Rightarrow> WaveState" where
  "joined_wave ws i l = (if ws_leader ws < l then \<lparr>ws_parent = Some i, ws_leader = l\<rparr> else ws)"

lemma wave_after_fields:
  assumes "wave_react (deg T v) (waves s v) (awaits s v) i l = Some (st, out)"
  shows "started (wave_after T s v i l st out) = started s"
    and "waves (wave_after T s v i l st out) = (waves s)(v := joined_wave (waves s v) i l)"
    and "joins (wave_after T s v i l st out) = (if ws_leader (waves s v) < l then (v, l, Some i) # joins s else joins s)"
    and "recd (wave_after T s v i l st out) = insert (v, i, l) (recd s)"
    and "sent (wave_after T s v i l st out) = sent s \<union> {(v, j, l) | j. j \<in> set out}"
  using assms
  by (cases rule: wave_react_cases; simp add: wave_after_def after_wave_def finish_def joined_wave_def fun_eq_iff)+

lemma wave_recvD:
  assumes "wave_recv T s v i l st out"
  shows "topology_ok T" "wave_inv T s" "v \<in> started s" "results s v = None" "(v, i, LeaderWave l) \<in># flight s"
    "wave_react (deg T v) (waves s v) (awaits s v) i l = Some (st, out)"
    and "i < deg T v" "arrival T v i l \<in> sent s" "(v, i, l) \<notin> recd s" "ident T v \<le> ws_leader (waves s v)"
    and "(v, ws_leader (waves s v), ws_parent (waves s v)) \<in> set (joins s)"
proof -
  show r: "topology_ok T" "wave_inv T s" "v \<in> started s" "results s v = None" "(v, i, LeaderWave l) \<in># flight s"
    "wave_react (deg T v) (waves s v) (awaits s v) i l = Some (st, out)"
    using assms by (simp_all add: wave_recv_def)
  show "i < deg T v" "arrival T v i l \<in> sent s" "(v, i, l) \<notin> recd s"
    using inv_flightD(2-4) [OF wave_invD(6) [OF r(2)] r(5)] .
  show cur: "(v, ws_leader (waves s v), ws_parent (waves s v)) \<in> set (joins s)"
    using inv_currentD [OF wave_invD(1) [OF r(2)] r(3)] .
  show "ident T v \<le> ws_leader (waves s v)" using inv_joinsD(3) [OF wave_invD(2) [OF r(2)] cur] .
qed

lemma wave_keeps_current: "wave_recv T s v i l st out \<Longrightarrow> inv_current (wave_after T s v i l st out)"
  using wave_recvD [of T s v i l st out] wave_invD(1) [of T s] wave_after_fields [of T v s i l st out]
  by (auto simp: inv_current_def joined_wave_def)

lemma wave_keeps_joins:
  assumes r: "wave_recv T s v i l st out"
  shows "inv_joins T (wave_after T s v i l st out)"
proof -
  note d = wave_recvD [OF r] and f = wave_after_fields [OF wave_recvD(6) [OF r]]
  note old = wave_invD(2) [OF d(2)]
  have "joins_ok T (joins (wave_after T s v i l st out))"
  proof (cases "ws_leader (waves s v) < l")
    case True
    have "(v, l, q) \<notin> set (joins s)" for q using inv_joinsD(2) [OF old, of v l q] True by auto
    moreover have "\<exists>q. (fst (wire T v i), l, q) \<in> set (joins s)"
      using inv_sentD(2) [OF wave_invD(3) [OF d(2)], of "fst (wire T v i)" "snd (wire T v i)" l] d(8) by (auto simp: arrival_def)
    ultimately show ?thesis using True d(7) old by (simp add: f inv_joins_def)
  qed (use old in \<open>simp add: f inv_joins_def\<close>)
  moreover have "u \<in> started s \<and> m \<le> ws_leader (((waves s)(v := joined_wave (waves s v) i l)) u) \<and> ident T u \<le> m \<and>
      (\<forall>p. q = Some p \<longrightarrow> (u, p, m) \<in> insert (v, i, l) (recd s))"
    if "(u, m, q) \<in> set (joins (wave_after T s v i l st out))" for u m q
  proof (cases "(u, m, q) \<in> set (joins s)")
    case True
    with inv_joinsD [OF old True] show ?thesis by (auto simp: joined_wave_def)
  next
    case False
    with that have "u = v" "m = l" "q = Some i" "ws_leader (waves s v) < l" by (auto simp: f split: if_splits)
    with d(3,10) show ?thesis by (auto simp: joined_wave_def)
  qed
  ultimately show ?thesis unfolding inv_joins_def by (simp only: f) blast
qed

lemma wave_keeps_recd:
  assumes r: "wave_recv T s v i l st out"
  shows "inv_recd T (wave_after T s v i l st out)"
proof -
  note d = wave_recvD [OF r] and f = wave_after_fields [OF wave_recvD(6) [OF r]]
  have "j < deg T u \<and> u \<in> started s \<and> m \<le> ws_leader (((waves s)(v := joined_wave (waves s v) i l)) u) \<and>
      arrival T u j m \<in> sent s \<union> {(v, j, l) | j. j \<in> set out}" if "(u, j, m) \<in> insert (v, i, l) (recd s)" for u j m
  proof (cases "(u, j, m) \<in> recd s")
    case True
    with inv_recdD [OF wave_invD(4) [OF d(2)] True] show ?thesis by (auto simp: joined_wave_def)
  qed (use that d in \<open>auto simp: joined_wave_def\<close>)
  then show ?thesis unfolding inv_recd_def by (simp only: f) blast
qed

text \<open>When the last awaited reply arrives, all neighbors have been heard of.\<close>

lemma last_reply_completes:
  assumes r: "wave_recv T s v i l st out" and l: "l = ws_leader (waves s v)" and a: "hs_remove i (awaits s v) = []" and j: "j < deg T v"
  shows "(v, j, l) \<in> insert (v, i, l) (recd s)"
proof -
  note d = wave_recvD [OF r]
  have set: "set (awaits s v) = {i. i < deg T v \<and> Some i \<noteq> ws_parent (waves s v) \<and> (v, i, l) \<notin> recd s}"
    using wave_invD(5) [OF d(2)] d(3,4) l by (simp add: inv_awaits_def)
  have sub: "set (awaits s v) \<subseteq> {i}"
    using a by (metis Diff_eq_empty_iff list.set(1) set_removeAll)
  have par: "(v, p, l) \<in> recd s" if "ws_parent (waves s v) = Some p" for p
    using inv_joinsD(4) [OF wave_invD(2) [OF d(2)] d(11) that] l by simp
  show ?thesis using set sub par j by (cases "Some j = ws_parent (waves s v)") auto
qed

lemma wave_keeps_sent:
  assumes r: "wave_recv T s v i l st out"
  shows "inv_sent T (wave_after T s v i l st out)"
proof -
  define s' where "s' = wave_after T s v i l st out"
  note d = wave_recvD [OF r] and f = wave_after_fields [OF wave_recvD(6) [OF r], folded s'_def]
  have mono: "complete T s u m \<Longrightarrow> complete T s' u m" for u m by (simp add: complete_def f)
  have new: "j < deg T v \<and> (\<exists>q. (v, l, q) \<in> set (joins s') \<and> (q = Some j \<longrightarrow> complete T s' v l))" if j: "j \<in> set out" for j
    using d(6)
  proof (cases rule: wave_react_cases)
    case greater
    have "complete T s' v l" if "j = i"
    proof -
      have "waits (deg T v) \<lparr>ws_parent = Some i, ws_leader = l\<rparr> = []" using j greater(3) that by (auto split: if_splits)
      then have "{k. k < deg T v \<and> k \<noteq> i} = {}"
        using set_waits [of "deg T v" "\<lparr>ws_parent = Some i, ws_leader = l\<rparr>"] by simp
      then show ?thesis by (auto simp: complete_def f)
    qed
    moreover have "j < deg T v" using j greater(3) d(7) by (auto split: if_splits)
    ultimately show ?thesis using greater(1) by (auto simp: f)
  next
    case (echo p)
    have "complete T s' v l"
      using last_reply_completes [OF r echo(1,3)] by (simp add: complete_def f)
    moreover have "p < deg T v"
      using wave_react_fresh [OF d(2,3,5,6)] echo(6) by (simp add: fresh_out_def)
    ultimately show ?thesis using echo(1,6) d(11) j by (auto simp: f)
  qed (use j in simp_all)
  have "j < deg T u \<and> (\<exists>q. (u, m, q) \<in> set (joins s') \<and> (q = Some j \<longrightarrow> complete T s' u m))"
    if "(u, j, m) \<in> sent s \<union> {(v, j, l) | j. j \<in> set out}" for u j m
  proof (cases "(u, j, m) \<in> sent s")
    case True
    from inv_sentD [OF wave_invD(3) [OF d(2)] True] mono show ?thesis by (auto simp: f)
  qed (use that new in auto)
  then have "inv_sent T s'" unfolding inv_sent_def f(5) by blast
  then show ?thesis by (simp add: s'_def)
qed

lemma awaits_continue [simp]: "awaits (wave_after T s v i l (Continue ws a) out) v = a"
  by (simp add: wave_after_def after_wave_def)

lemma wave_keeps_awaits:
  assumes r: "wave_recv T s v i l st out"
  shows "inv_awaits T (wave_after T s v i l st out)"
proof -
  define s' where "s' = wave_after T s v i l st out"
  note d = wave_recvD [OF r] and f = wave_after_fields [OF wave_recvD(6) [OF r], folded s'_def]
  note old = wave_invD(5) [OF d(2)]
  have other: "awaits s' u = awaits s u" "results s' u = results s u" if "u \<noteq> v" for u
    using that by (auto simp: s'_def wave_after_def after_wave_def finish_def split: ElectionStep.split)
  have self: "set (awaits s' v) = {k. k < deg T v \<and> Some k \<noteq> ws_parent (waves s' v) \<and> (v, k, ws_leader (waves s' v)) \<notin> recd s'}"
    if "results s' v = None"
    using d(6)
  proof (cases rule: wave_react_cases)
    case less
    with old d(3,4) show ?thesis by (auto simp: f inv_awaits_def joined_wave_def s'_def wave_after_def after_wave_def)
  next
    case greater
    have "(v, k, l) \<notin> recd s" for k using inv_recdD(3) [OF wave_invD(4) [OF d(2)], of v k l] greater(1) by auto
    with greater show ?thesis by (auto simp: f joined_wave_def s'_def wave_after_def after_wave_def)
  next
    case more
    with old d(3,4) show ?thesis by (auto simp: f inv_awaits_def joined_wave_def s'_def wave_after_def after_wave_def)
  next
    case (echo p)
    have "set (awaits s' v) = set (awaits s v) - {i}"
      using echo(3,5) by (metis awaits_continue list.set(1) s'_def set_removeAll)
    with echo old d(3,4) show ?thesis by (auto simp: f inv_awaits_def joined_wave_def)
  next
    case win
    with that show ?thesis by (simp add: s'_def wave_after_def after_wave_def finish_def)
  qed
  have "set (awaits s' u) = {k. k < deg T u \<and> Some k \<noteq> ws_parent (waves s' u) \<and> (u, k, ws_leader (waves s' u)) \<notin> recd s'}"
    if "u \<in> started s" "results s' u = None" for u
    using self old other [of u] that by (cases "u = v") (auto simp: f inv_awaits_def)
  then have "inv_awaits T s'" unfolding inv_awaits_def f(1) by blast
  then show ?thesis by (simp add: s'_def)
qed

lemma wave_keeps_flight:
  assumes r: "wave_recv T s v i l st out"
  shows "inv_flight T (wave_after T s v i l st out)"
proof -
  note d = wave_recvD [OF r]
  have recd: "arrival T u k m \<in> sent (take_wave v i l s)" if "(u, k, m) \<in> recd (take_wave v i l s)" for u k m
    using that d(8) inv_recdD(4) [OF wave_invD(4) [OF d(2)], of u k m] by auto
  have "inv_flight T (send_out T v l out (take_wave v i l s))"
    by (rule inv_flight_send [OF d(1) inv_flight_take [OF wave_invD(6) [OF d(2)]] recd wave_react_fresh [OF d(2,3,5,6)]])
  then show ?thesis
    by (rule inv_flight_sub) (auto simp: wave_after_def after_wave_def finish_def split: ElectionStep.split)
qed

lemma wave_keeps_inv: "wave_recv T s v i l st out \<Longrightarrow> wave_inv T (wave_after T s v i l st out)"
  by (simp add: wave_inv_def wave_keeps_current wave_keeps_joins wave_keeps_sent wave_keeps_recd wave_keeps_awaits wave_keeps_flight)

section \<open>The other steps\<close>

lemma start_keeps_inv:
  assumes T: "topology_ok T" and inv: "wave_inv T s" and v: "v \<notin> started s"
  shows "wave_inv T (start_node T v s)"
proof -
  define s1 where "s1 = s\<lparr>started := insert v (started s), waves := (waves s)(v := \<lparr>ws_parent = None, ws_leader = ident T v\<rparr>),
     awaits := (awaits s)(v := waits (deg T v) \<lparr>ws_parent = None, ws_leader = ident T v\<rparr>), joins := (v, ident T v, None) # joins s\<rparr>"
  define s' where "s' = start_node T v s"
  have s': "s' = send_out T v (ident T v) [0 ..< deg T v] s1" by (simp add: s'_def start_node_def s1_def Let_def)
  have f: "started s' = insert v (started s)" "waves s' = (waves s)(v := \<lparr>ws_parent = None, ws_leader = ident T v\<rparr>)"
    "awaits s' = (awaits s)(v := waits (deg T v) \<lparr>ws_parent = None, ws_leader = ident T v\<rparr>)" "joins s' = (v, ident T v, None) # joins s"
    "recd s' = recd s" "results s' = results s" "sent s' = sent s \<union> {(v, j, ident T v) | j. j < deg T v}"
    by (auto simp: s' s1_def)
  have no_join: "(v, l, q) \<notin> set (joins s)" for l q using inv_joinsD(1) [OF wave_invD(2) [OF inv]] v by blast
  have no_recd: "(v, j, l) \<notin> recd s" for j l using inv_recdD(2) [OF wave_invD(4) [OF inv]] v by blast
  have no_sent: "(v, j, l) \<notin> sent s" for j l using inv_sentD(2) [OF wave_invD(3) [OF inv]] no_join by blast
  have "inv_current s'"
    using wave_invD(1) [OF inv] v by (auto simp: inv_current_def f)
  moreover have "inv_joins T s'"
    using wave_invD(2) [OF inv] no_join unfolding inv_joins_def f by auto
  moreover have "inv_sent T s'"
    using wave_invD(3) [OF inv] unfolding inv_sent_def f complete_def by auto meson
  moreover have "inv_recd T s'"
    using wave_invD(4) [OF inv] no_recd unfolding inv_recd_def f by auto
  moreover have "inv_awaits T s'"
    using wave_invD(5) [OF inv] no_recd unfolding inv_awaits_def f by auto
  moreover have "inv_flight T s'"
    unfolding s'
  proof (rule inv_flight_send [OF T])
    show "inv_flight T s1" by (rule inv_flight_sub [OF wave_invD(6) [OF inv]]) (simp_all add: s1_def)
    show "arrival T u k m \<in> sent s1" if "(u, k, m) \<in> recd s1" for u k m
      using that inv_recdD(4) [OF wave_invD(4) [OF inv], of u k m] by (simp add: s1_def)
    show "fresh_out T v (ident T v) [0 ..< deg T v] s1"
      using no_sent by (simp add: fresh_out_def s1_def)
  qed
  ultimately show ?thesis by (simp add: wave_inv_def s'_def)
qed

lemma finish_keeps_inv:
  assumes "wave_inv T s" "results s v = None" "flight s' = flight s - {#m#}" "s' = s\<lparr>flight := flight s'\<rparr>"
  shows "wave_inv T (finish T v ws s')"
proof -
  have f: "started (finish T v ws s') = started s" "waves (finish T v ws s') = waves s" "awaits (finish T v ws s') = awaits s"
    "joins (finish T v ws s') = joins s" "recd (finish T v ws s') = recd s" "sent (finish T v ws s') = sent s"
    "results (finish T v ws s') = (results s)(v := Some ws)"
    by (subst assms(4), simp add: finish_def)+
  have "inv_flight T (finish T v ws s')"
    by (rule inv_flight_sub [OF wave_invD(6) [OF assms(1)]]) (use f assms(3) in \<open>auto simp: finish_def\<close>)
  then show ?thesis
    using wave_invD(1-5) [OF assms(1)] unfolding wave_inv_def
    by (auto simp: inv_current_def inv_joins_def inv_sent_def inv_recd_def inv_awaits_def complete_def f)
qed

lemma late_keeps_inv:
  assumes "wave_inv T s"
  shows "wave_inv T (s\<lparr>flight := flight s - {#m#}\<rparr>)"
proof -
  have "inv_flight T (s\<lparr>flight := flight s - {#m#}\<rparr>)"
    by (rule inv_flight_sub [OF wave_invD(6) [OF assms]]) auto
  with assms show ?thesis
    by (simp add: wave_inv_def inv_current_def inv_joins_def inv_sent_def inv_recd_def inv_awaits_def complete_def)
qed

lemma wave_inv_init: "wave_inv T net_init"
  by (simp add: wave_inv_def inv_current_def inv_joins_def inv_sent_def inv_recd_def inv_awaits_def inv_flight_def net_init_def)

lemma net_step_wave_inv:
  assumes "net_step T s s'" "topology_ok T" "wave_inv T s"
  shows "wave_inv T s'"
  using assms
proof (induction rule: net_step.induct)
  case (start v s)
  then show ?case by (simp add: start_keeps_inv)
next
  case (wave v i l s st out)
  then have "wave_recv T s v i l st out" by (simp add: wave_recv_def)
  from wave_keeps_inv [OF this] show ?case by (simp add: wave_after_def)
next
  case (announcement v i l s)
  then show ?case by (intro finish_keeps_inv) simp_all
next
  case (late v i m s)
  then show ?case by (simp add: late_keeps_inv)
qed

section \<open>Results\<close>

fun fins_ok :: "'n Topology \<Rightarrow> ('n \<Rightarrow> WaveState option) \<Rightarrow> 'n list \<Rightarrow> bool" where
  "fins_ok T res [] \<longleftrightarrow> True"
| "fins_ok T res (v # vs) \<longleftrightarrow> v \<notin> set vs \<and> fins_ok T res vs \<and>
     (\<exists>ws. res v = Some ws \<and> (\<forall>p. ws_parent ws = Some p \<longrightarrow> p < deg T v \<and> fst (wire T v p) \<in> set vs))"

definition inv_results :: "'n Topology \<Rightarrow> 'n ElectionNet \<Rightarrow> bool" where
  "inv_results T s \<longleftrightarrow> (\<forall>v ws. results s v = Some ws \<longrightarrow> (\<exists>r. results s r = Some \<lparr>ws_parent = None, ws_leader = ws_leader ws\<rparr>) \<and>
     (ws_parent ws = None \<longleftrightarrow> ws_leader ws = ident T v) \<and> (ws_parent ws = None \<longrightarrow> (v, ident T v, None) \<in> set (joins s) \<and> complete T s v (ident T v)))"

definition inv_messages :: "'n Topology \<Rightarrow> 'n ElectionNet \<Rightarrow> bool" where
  "inv_messages T s \<longleftrightarrow>
     (\<forall>v i l. (v, i, LeaderAnnounce l) \<in># flight s \<longrightarrow> i < deg T v \<and>
        (\<exists>r. results s r = Some \<lparr>ws_parent = None, ws_leader = l\<rparr>) \<and> results s (fst (wire T v i)) \<noteq> None) \<and>
     (\<forall>v i. (v, i, YouAreMyParent) \<in># flight s \<longrightarrow> results s v \<noteq> None) \<and>
     (\<forall>v i p. (v, i, MyPortInfo p) \<notin># flight s)"

definition result_inv :: "'n Topology \<Rightarrow> 'n ElectionNet \<Rightarrow> bool" where
  "result_inv T s \<longleftrightarrow> inv_results T s \<and> inv_messages T s \<and> fins_ok T (results s) (fins s) \<and> (\<forall>v. results s v \<noteq> None \<longleftrightarrow> v \<in> set (fins s))"

lemma fins_ok_cong: "fins_ok T res vs \<Longrightarrow> (\<And>u. u \<in> set vs \<Longrightarrow> res' u = res u) \<Longrightarrow> fins_ok T res' vs"
  by (induction vs) auto

lemma in_posted_announce:
  "x \<in># posted T v (announce_out n ws) \<longleftrightarrow>
     (\<exists>i < n. x = arrival T v i (if Some i = ws_parent ws then YouAreMyParent else LeaderAnnounce (ws_leader ws)))"
  by (auto simp: posted_def announce_out_def arrival_def image_iff case_prod_beta Bex_def)

lemma in_posted_waves: "x \<in># posted T v (map (\<lambda>j. (j, LeaderWave l)) out) \<longleftrightarrow> (\<exists>j \<in> set out. x = arrival T v j (LeaderWave l))"
  by (auto simp: posted_def arrival_def image_iff case_prod_beta)

text \<open>A connector that finishes, on its own or by an announcement.\<close>

lemma finish_keeps_results:
  assumes T: "topology_ok T" and inv: "result_inv T s" and v: "results s v = None"
    and s': "results s' = results s" "fins s' = fins s" "joins s' = joins s" "recd s \<subseteq> recd s'"
      "\<And>x. x \<in># flight s' \<Longrightarrow> x \<in># flight s \<or> (\<exists>u k l. x = (u, k, LeaderWave l))"
    and ws: "ws_parent ws = None \<longleftrightarrow> ws_leader ws = ident T v" "ws_parent ws = None \<Longrightarrow> (v, ident T v, None) \<in> set (joins s) \<and> complete T s' v (ident T v)"
      "\<And>p. ws_parent ws = Some p \<Longrightarrow> p < deg T v \<and> results s (fst (wire T v p)) \<noteq> None \<and>
         (\<exists>r. results s r = Some \<lparr>ws_parent = None, ws_leader = ws_leader ws\<rparr>)"
  shows "result_inv T (finish T v ws s')"
proof -
  let ?t = "finish T v ws s'"
  have old: "inv_results T s" "inv_messages T s" "fins_ok T (results s) (fins s)" "\<And>v. results s v \<noteq> None \<longleftrightarrow> v \<in> set (fins s)"
    using inv by (simp_all add: result_inv_def)
  have f: "results ?t = (results s)(v := Some ws)" "fins ?t = v # fins s" "joins ?t = joins s" "recd ?t = recd s'"
    "flight ?t = flight s' + posted T v (announce_out (deg T v) ws)"
    using s' by (simp_all add: finish_def)
  have root: "\<exists>r. results ?t r = Some \<lparr>ws_parent = None, ws_leader = l\<rparr>" if "\<exists>r. results s r = Some \<lparr>ws_parent = None, ws_leader = l\<rparr>" for l
    using that v unfolding f by (metis fun_upd_other option.distinct(1))
  have mine: "\<exists>r. results ?t r = Some \<lparr>ws_parent = None, ws_leader = ws_leader ws\<rparr>"
  proof (cases "ws_parent ws")
    case None
    then show ?thesis unfolding f by (intro exI [of _ v]) (cases ws; simp)
  qed (use ws(3) root in blast)
  have "inv_results T ?t"
  proof -
    have "complete T ?t u (ident T u)" if "complete T s u (ident T u)" for u
      using that s'(4) by (auto simp: complete_def f)
    moreover have "complete T ?t v (ident T v)" if "ws_parent ws = None"
      using ws(2) [OF that] by (simp add: complete_def f)
    ultimately have all: "(u, ident T u, None) \<in> set (joins s) \<and> complete T ?t u (ident T u)"
      if "results ?t u = Some w" "ws_parent w = None" for u w
      using that old(1) ws(2) unfolding inv_results_def f(1) by (cases "u = v") auto
    have "\<exists>r. results ?t r = Some \<lparr>ws_parent = None, ws_leader = ws_leader w\<rparr>" "ws_parent w = None \<longleftrightarrow> ws_leader w = ident T u"
      if "results ?t u = Some w" for u w
    proof -
      show "\<exists>r. results ?t r = Some \<lparr>ws_parent = None, ws_leader = ws_leader w\<rparr>"
      proof (cases "u = v")
        case True
        with that mine show ?thesis by (simp add: f)
      next
        case False
        with that old(1) have "\<exists>r. results s r = Some \<lparr>ws_parent = None, ws_leader = ws_leader w\<rparr>"
          by (simp add: f inv_results_def)
        then show ?thesis by (rule root)
      qed
      show "ws_parent w = None \<longleftrightarrow> ws_leader w = ident T u"
        using that old(1) ws(1) by (cases "u = v") (auto simp: f inv_results_def)
    qed
    with all show ?thesis unfolding inv_results_def f(3) by blast
  qed
  moreover have "inv_messages T ?t"
    unfolding inv_messages_def
  proof (intro conjI allI impI)
    fix u k l
    assume "(u, k, LeaderAnnounce l) \<in># flight ?t"
    then consider (old) "(u, k, LeaderAnnounce l) \<in># flight s"
      | (new) i where "i < deg T v" "(u, k, LeaderAnnounce l) = arrival T v i (LeaderAnnounce (ws_leader ws))"
      using s'(5) by (auto simp: f in_posted_announce arrival_def split: if_splits)
    then have "k < deg T u \<and> (\<exists>r. results ?t r = Some \<lparr>ws_parent = None, ws_leader = l\<rparr>) \<and> results ?t (fst (wire T u k)) \<noteq> None"
    proof cases
      case old
      with \<open>inv_messages T s\<close> root show ?thesis unfolding inv_messages_def f(1) by (metis fun_upd_apply option.distinct(1))
    next
      case new
      from arrival_back [OF T new(1) new(2) [symmetric]] mine show ?thesis by (auto simp: arrival_def f)
    qed
    then show "k < deg T u" "\<exists>r. results ?t r = Some \<lparr>ws_parent = None, ws_leader = l\<rparr>" "results ?t (fst (wire T u k)) \<noteq> None" by blast+
  next
    fix u k
    assume "(u, k, YouAreMyParent) \<in># flight ?t"
    then consider (old) "(u, k, YouAreMyParent) \<in># flight s"
      | (new) i where "Some i = ws_parent ws" "u = fst (wire T v i)"
      using s'(5) by (auto simp: f in_posted_announce arrival_def split: if_splits)
    then show "results ?t u \<noteq> None"
    proof cases
      case old
      with \<open>inv_messages T s\<close> show ?thesis unfolding inv_messages_def f(1) by auto
    next
      case new
      with ws(3) [of i] show ?thesis unfolding f(1) by auto
    qed
  next
    fix u k p
    show "(u, k, MyPortInfo p) \<notin># flight ?t"
      using s'(5) [of "(u, k, MyPortInfo p)"] \<open>inv_messages T s\<close>
      by (auto simp: f in_posted_announce arrival_def inv_messages_def split: if_splits)
  qed
  moreover have "fins_ok T (results ?t) (fins ?t)"
  proof -
    have "v \<notin> set (fins s)" using old(4) v by blast
    moreover from this have "fins_ok T (results ?t) (fins s)"
      by (intro fins_ok_cong [OF old(3)]) (auto simp: f)
    ultimately show ?thesis using ws(3) old(4) by (auto simp: f)
  qed
  ultimately show ?thesis using old(4) by (auto simp: result_inv_def f)
qed

text \<open>Steps in which no connector finishes.\<close>

lemma result_inv_frame:
  assumes inv: "result_inv T s" and s': "results s' = results s" "fins s' = fins s" "set (joins s) \<subseteq> set (joins s')" "recd s \<subseteq> recd s'"
      "\<And>x. x \<in># flight s' \<Longrightarrow> x \<in># flight s \<or> (\<exists>u k l. x = (u, k, LeaderWave l))"
  shows "result_inv T s'"
proof -
  have "complete T s u l \<Longrightarrow> complete T s' u l" for u l using s'(4) by (auto simp: complete_def)
  moreover have "inv_results T s" using inv by (simp add: result_inv_def)
  ultimately have "inv_results T s'" using s'(3) unfolding inv_results_def s'(1) by blast
  moreover have "inv_messages T s'"
    using inv s'(1,5) unfolding result_inv_def inv_messages_def by (metis SetupMsg.distinct prod.inject)
  ultimately show ?thesis using inv s'(1,2) by (simp add: result_inv_def)
qed

lemma wave_result_inv:
  assumes r: "wave_recv T s v i l st out" and inv: "result_inv T s"
  shows "result_inv T (wave_after T s v i l st out)"
proof (cases st)
  case (Continue ws a)
  show ?thesis
  proof (rule result_inv_frame [OF inv])
    show "results (wave_after T s v i l st out) = results s" "fins (wave_after T s v i l st out) = fins s"
      by (simp_all add: wave_after_def after_wave_def Continue)
    show "set (joins s) \<subseteq> set (joins (wave_after T s v i l st out))" "recd s \<subseteq> recd (wave_after T s v i l st out)"
      using wave_after_fields [OF wave_recvD(6) [OF r]] by auto
    show "x \<in># flight s \<or> (\<exists>u k l. x = (u, k, LeaderWave l))" if "x \<in># flight (wave_after T s v i l st out)" for x
      using that by (auto simp: wave_after_def after_wave_def Continue in_posted_waves arrival_def dest: in_diffD)
  qed
next
  case (Elected ws)
  note d = wave_recvD [OF r]
  from d(6) have w: "l = ws_leader (waves s v)" "hs_remove i (awaits s v) = []" "ws_parent (waves s v) = None" "ws = waves s v" "out = []"
    by (cases rule: wave_react_cases; simp add: Elected)+
  have join: "(v, ws_leader ws, None) \<in> set (joins s)" using d(11) w(3,4) by simp
  have leader: "ws_leader ws = ident T v"
  proof -
    have "joins_ok T js \<Longrightarrow> (v, l', None) \<in> set js \<Longrightarrow> l' = ident T v" for js l'
      by (induction T js rule: joins_ok.induct) auto
    then show ?thesis using join wave_invD(2) [OF d(2)] by (auto simp: inv_joins_def)
  qed
  let ?s' = "send_out T v l out (take_wave v i l s)"
  have "complete T ?s' v (ident T v)"
    using last_reply_completes [OF r w(1,2)] leader w(1,4) by (simp add: complete_def)
  then have "result_inv T (finish T v ws ?s')"
    using join leader w
    by (intro finish_keeps_results [OF d(1) inv d(4)]) (auto simp: posted_def dest: in_diffD)
  then show ?thesis by (simp add: wave_after_def after_wave_def Elected)
qed

lemma net_step_result_inv:
  assumes "net_step T s s'" "topology_ok T" "wave_inv T s" "result_inv T s"
  shows "result_inv T s'"
  using assms
proof (induction rule: net_step.induct)
  case (start v s)
  show ?case
    by (rule result_inv_frame [OF start.prems(3)]) (auto simp: start_node_def Let_def in_posted_waves arrival_def)
next
  case (wave v i l s st out)
  then have "wave_recv T s v i l st out" by (simp add: wave_recv_def)
  from wave_result_inv [OF this] wave show ?case by (simp add: wave_after_def)
next
  case (announcement v i l s)
  let ?s' = "s\<lparr>flight := flight s - {#(v, i, LeaderAnnounce l)#}\<rparr>" and ?ws = "\<lparr>ws_parent = Some i, ws_leader = l\<rparr>"
  have "inv_messages T s" using announcement.prems(3) by (simp add: result_inv_def)
  with announcement.hyps(1) have m: "i < deg T v" "\<exists>r. results s r = Some \<lparr>ws_parent = None, ws_leader = l\<rparr>"
    "results s (fst (wire T v i)) \<noteq> None"
    unfolding inv_messages_def by blast+
  show ?case
  proof (rule finish_keeps_results [OF announcement.prems(1,3) announcement.hyps(3)])
    show "x \<in># flight s \<or> (\<exists>u k l. x = (u, k, LeaderWave l))" if "x \<in># flight ?s'" for x
      using that by (auto dest: in_diffD)
    show "ws_parent ?ws = None \<longleftrightarrow> ws_leader ?ws = ident T v" using announcement.hyps(5) by simp
  qed (use m in simp_all)
next
  case (late v i m s)
  show ?case
    by (rule result_inv_frame [OF late.prems(3)]) (auto dest: in_diffD)
qed

lemma net_reachable_inv:
  assumes "net_reachable T s" "topology_ok T"
  shows "wave_inv T s \<and> result_inv T s"
  using assms
proof (induction rule: net_reachable.induct)
  case init
  show ?case using wave_inv_init [of T] by (simp add: result_inv_def inv_results_def inv_messages_def net_init_def)
next
  case (step s s')
  with net_step_wave_inv net_step_result_inv show ?case by blast
qed

section \<open>The winner\<close>

lemma joins_root: "joins_ok T js \<Longrightarrow> (v, l, q) \<in> set js \<Longrightarrow> \<exists>u. ident T u = l"
  by (induction T js arbitrary: v q rule: joins_ok.induct) (auto split: option.splits)

lemma joined_complete:
  assumes T: "topology_ok T" and inv: "wave_inv T s" and r: "complete T s r l" "l = ident T r"
  shows "joins_ok T js \<Longrightarrow> set js \<subseteq> set (joins s) \<Longrightarrow> (v, l, q) \<in> set js \<Longrightarrow> complete T s v l"
proof (induction js arbitrary: v q)
  case (Cons x js)
  show ?case
  proof (cases "(v, l, q) \<in> set js")
    case True
    obtain u m q1 where x: "x = (u, m, q1)" by (cases x)
    have "joins_ok T js" using Cons.prems(1) unfolding x by simp
    then show ?thesis using Cons.IH True Cons.prems(2) by auto
  next
    case False
    then have x: "x = (v, l, q)" using Cons.prems(3) by auto
    show ?thesis
    proof (cases q)
      case None
      have "ident T v = ident T r" using Cons.prems(1) r(2) unfolding x None by simp
      then have "v = r" using T by (simp add: topology_ok_def inj_eq)
      with r(1) show ?thesis by simp
    next
      case (Some p)
      let ?u = "fst (wire T v p)" and ?k = "snd (wire T v p)"
      obtain q' where p: "p < deg T v" "(?u, l, q') \<in> set js" "joins_ok T js"
        using Cons.prems(1) unfolding x Some by auto
      have "complete T s ?u l" using Cons.IH [OF p(3) _ p(2)] Cons.prems(2) by auto
      then have "(?u, ?k, l) \<in> recd s" using wire_back(2) [OF T p(1)] by (simp add: complete_def)
      then have "(v, p, l) \<in> sent s"
        using inv_recdD(4) [OF wave_invD(4) [OF inv]] wire_back(1) [OF T p(1)] by (fastforce simp: arrival_def)
      then obtain q2 where q2: "(v, l, q2) \<in> set (joins s)" "q2 = Some p \<longrightarrow> complete T s v l"
        using inv_sentD(2) [OF wave_invD(3) [OF inv]] by blast
      have "(v, l, Some p) \<in> set (joins s)" using Cons.prems(2) unfolding x Some by simp
      moreover have "joins_ok T (joins s)" using wave_invD(2) [OF inv] by (simp add: inv_joins_def)
      ultimately have "q2 = Some p" using joins_unique q2(1) by metis
      with q2(2) show ?thesis by simp
    qed
  qed
qed simp

lemma winner_max:
  assumes T: "topology_ok T" and inv: "wave_inv T s" and r: "complete T s r (ident T r)" "(r, ident T r, None) \<in> set (joins s)"
  shows "ident T u \<le> ident T r"
proof -
  let ?l = "ident T r"
  have ok: "joins_ok T (joins s)" using wave_invD(2) [OF inv] by (simp add: inv_joins_def)
  have "\<exists>q. (w, ?l, q) \<in> set (joins s)" if "(r, w) \<in> (links T)\<^sup>*" for w
    using that
  proof (induction rule: rtrancl_induct)
    case base
    with r(2) show ?case by blast
  next
    case (step v w)
    then obtain q i where v: "(v, ?l, q) \<in> set (joins s)" "i < deg T v" "w = fst (wire T v i)" by (auto simp: links_def)
    have "complete T s v ?l" by (rule joined_complete [OF T inv r(1) refl ok _ v(1)]) simp
    then have "(v, i, ?l) \<in> recd s" using v(2) by (simp add: complete_def)
    then have "(w, snd (wire T v i), ?l) \<in> sent s"
      using inv_recdD(4) [OF wave_invD(4) [OF inv]] v(3) by (auto simp: arrival_def)
    then show ?case using inv_sentD(2) [OF wave_invD(3) [OF inv]] by blast
  qed
  moreover have "(r, u) \<in> (links T)\<^sup>*" using T by (simp add: topology_ok_def)
  ultimately show ?thesis using inv_joinsD(3) [OF wave_invD(2) [OF inv]] by blast
qed

text \<open>All that finish agree on the greatest identifier.\<close>

lemma results_max:
  assumes "net_reachable T s" "topology_ok T" "results s v = Some ws"
  shows "ident T u \<le> ws_leader ws" "\<exists>r. results s r = Some \<lparr>ws_parent = None, ws_leader = ws_leader ws\<rparr> \<and> ident T r = ws_leader ws"
    "ws_parent ws = None \<longleftrightarrow> ident T v = ws_leader ws"
proof -
  have inv: "wave_inv T s" "inv_results T s" using net_reachable_inv [OF assms(1,2)] by (simp_all add: result_inv_def)
  then obtain r where r: "results s r = Some \<lparr>ws_parent = None, ws_leader = ws_leader ws\<rparr>"
    using assms(3) unfolding inv_results_def by blast
  then have l: "ws_leader ws = ident T r" "complete T s r (ident T r)" "(r, ident T r, None) \<in> set (joins s)"
    using inv(2) unfolding inv_results_def by fastforce+
  show "ident T u \<le> ws_leader ws" using winner_max [OF assms(2) inv(1) l(2,3)] l(1) by simp
  show "\<exists>r. results s r = Some \<lparr>ws_parent = None, ws_leader = ws_leader ws\<rparr> \<and> ident T r = ws_leader ws"
    using r l(1) by auto
  show "ws_parent ws = None \<longleftrightarrow> ident T v = ws_leader ws"
    using inv(2) assms(3) unfolding inv_results_def by auto
qed

definition parents :: "'n Topology \<Rightarrow> 'n ElectionNet \<Rightarrow> ('n \<times> 'n) set" where
  "parents T s = {(v, fst (wire T v p)) | v p ws. results s v = Some ws \<and> ws_parent ws = Some p}"

lemma fins_root:
  "fins_ok T (results s) vs \<Longrightarrow> v \<in> set vs \<Longrightarrow> \<exists>r ws. (v, r) \<in> (parents T s)\<^sup>* \<and> results s r = Some ws \<and> ws_parent ws = None"
proof (induction vs arbitrary: v)
  case (Cons u vs)
  show ?case
  proof (cases "v \<in> set vs")
    case False
    with Cons.prems(2) have "v = u" by simp
    with Cons.prems(1) obtain ws where ws: "results s v = Some ws"
      "\<forall>p. ws_parent ws = Some p \<longrightarrow> fst (wire T v p) \<in> set vs" by auto
    show ?thesis
    proof (cases "ws_parent ws")
      case (Some p)
      have "fins_ok T (results s) vs" using Cons.prems(1) by simp
      from Cons.IH [OF this ws(2) [rule_format, OF Some]] obtain r w where
        r: "(fst (wire T v p), r) \<in> (parents T s)\<^sup>*" "results s r = Some w" "ws_parent w = None" by blast
      have "(v, fst (wire T v p)) \<in> parents T s" using ws(1) Some by (auto simp: parents_def)
      with r show ?thesis by (meson converse_rtrancl_into_rtrancl)
    qed (use ws in blast)
  qed (use Cons in auto)
qed simp

section \<open>A network of two\<close>

definition pair_net :: "bool Topology" where
  "pair_net = \<lparr>ident = \<lambda>v. if v then 7 else 3, deg = \<lambda>_. 1, wire = \<lambda>v i. (\<not> v, 0)\<rparr>"

lemma pair_net_ok: "topology_ok pair_net"
proof -
  have "(v, w) \<in> (links pair_net)\<^sup>*" for v w
  proof (cases "v = w")
    case False
    then have "(v, w) \<in> links pair_net" by (auto simp: links_def pair_net_def)
    then show ?thesis by blast
  qed simp
  then show ?thesis by (auto simp: topology_ok_def pair_net_def inj_def)
qed

definition pair_result :: "bool ElectionNet" where
  "pair_result = \<lparr>started = {False, True}, waves = (\<lambda>_. \<lparr>ws_parent = None, ws_leader = 0\<rparr>)
       (True := \<lparr>ws_parent = None, ws_leader = 7\<rparr>, False := \<lparr>ws_parent = Some 0, ws_leader = 7\<rparr>),
     awaits = (\<lambda>_. [])(True := [0], False := []), results = [True \<mapsto> \<lparr>ws_parent = None, ws_leader = 7\<rparr>],
     flight = {#(True, 0, LeaderWave 3), (False, 0, LeaderAnnounce 7)#},
     sent = {(False, 0, 3), (True, 0, 7), (False, 0, 7)}, recd = {(False, 0, 7), (True, 0, 7)},
     joins = [(False, 7, Some 0), (True, 7, None), (False, 3, None)], fins = [True]\<rparr>"

lemma pair_simps: "ident pair_net v = (if v then 7 else 3)" "deg pair_net v = Suc 0" "wire pair_net v i = (\<not> v, 0)"
  by (simp_all add: pair_net_def)

lemma pair_reachable: "net_reachable pair_net pair_result"
proof -
  have w1: "waits (Suc 0) \<lparr>ws_parent = None, ws_leader = l\<rparr> = [0]" "waits (Suc 0) \<lparr>ws_parent = Some 0, ws_leader = l\<rparr> = []" for l
    by (simp_all add: waits_def)
  let ?w = "\<lparr>ws_parent = Some 0, ws_leader = 7\<rparr>" and ?e = "\<lparr>ws_parent = None, ws_leader = 7\<rparr>"
  define s2 where "s2 = \<lparr>started = {False, True}, waves = (\<lambda>_. \<lparr>ws_parent = None, ws_leader = 0\<rparr>)
       (False := \<lparr>ws_parent = None, ws_leader = 3\<rparr>, True := ?e), awaits = (\<lambda>_. [])(False := [0], True := [0]), results = \<lambda>_. None,
     flight = {#(True, 0, LeaderWave 3), (False, 0, LeaderWave 7)#},
     sent = {(False, 0, 3), (True, 0, 7)}, recd = {}, joins = [(True, 7, None), (False, 3, None)], fins = []\<rparr>"
  define s3 where "s3 = \<lparr>started = {False, True}, waves = (\<lambda>_. \<lparr>ws_parent = None, ws_leader = 0\<rparr>)
       (True := ?e, False := ?w), awaits = (\<lambda>_. [])(True := [0], False := []), results = \<lambda>_. None,
     flight = {#(True, 0, LeaderWave 3), (True, 0, LeaderWave 7)#},
     sent = {(False, 0, 3), (True, 0, 7), (False, 0, 7)}, recd = {(False, 0, 7)},
     joins = [(False, 7, Some 0), (True, 7, None), (False, 3, None)], fins = []\<rparr>"
  have "net_reachable pair_net (start_node pair_net False net_init)"
    by (rule net_reachable.step [OF net_reachable.init net_step.start]) (simp add: net_init_def)
  moreover have "net_step pair_net (start_node pair_net False net_init) (start_node pair_net True (start_node pair_net False net_init))"
    by (rule net_step.start) (simp add: start_node_def net_init_def Let_def)
  moreover have "start_node pair_net True (start_node pair_net False net_init) = s2"
    by (auto simp: start_node_def net_init_def Let_def send_out_def posted_def pair_simps w1 s2_def)
  ultimately have r2: "net_reachable pair_net s2" by (metis net_reachable.step)
  have "net_step pair_net s2 (after_wave pair_net False (Continue ?w []) (send_out pair_net False 7 [0] (take_wave False 0 7 s2)))"
    by (rule net_step.wave) (auto simp: s2_def wave_react_def pair_simps w1)
  moreover have "after_wave pair_net False (Continue ?w []) (send_out pair_net False 7 [0] (take_wave False 0 7 s2)) = s3"
    by (auto simp: s2_def s3_def after_wave_def send_out_def take_wave_def posted_def pair_simps fun_eq_iff)
  ultimately have r3: "net_reachable pair_net s3" using r2 by (metis net_reachable.step)
  have "net_step pair_net s3 (after_wave pair_net True (Elected ?e) (send_out pair_net True 7 [] (take_wave True 0 7 s3)))"
    by (rule net_step.wave) (auto simp: s3_def wave_react_def pair_simps)
  moreover have "after_wave pair_net True (Elected ?e) (send_out pair_net True 7 [] (take_wave True 0 7 s3)) = pair_result"
    by (auto simp: s3_def after_wave_def finish_def send_out_def take_wave_def posted_def announce_out_def pair_simps pair_result_def)
  ultimately show ?thesis using r3 by (metis net_reachable.step)
qed

section \<open>Properties\<close>

lemma announce_leader_out:
  "announce_leader net ws it acc s =
     act_bind (act_for (map (\<lambda>i. (i, if Some i = ws_parent ws then YouAreMyParent else LeaderAnnounce (ws_leader ws))) it)
         (\<lambda>(i, m). send_to_setup net i (SetupMsg m)))
       (\<lambda>_. act_ret (fold hs_insert (filter (\<lambda>i. Some i \<noteq> ws_parent ws) it) acc)) s"
  by (induction it arbitrary: acc s) (auto simp: act_bind_def act_ret_def split: prod.split res.split)

text \<open>
  C14: the code of one connector implements its part of the network. Reacting to a wave,
  it panics exactly when \<open>wave_react\<close> is undefined, and otherwise sends the waves and
  takes the step that \<open>wave_react\<close> says; when the election is over, it sends the
  messages of \<open>announce_out\<close> and awaits an answer from every neighbor but the parent.
\<close>

theorem election_implements_network:
  "election_wave net ws awaiting i l s =
     (case wave_react (num_net_endpoints (em s)) ws awaiting i l of
        None \<Rightarrow> (Panic, s)
      | Some (st, out) \<Rightarrow> act_bind (send_waves net l out) (\<lambda>_. act_ret st) s) \<and>
   announce_leader net ws (index_iter (em s)) [] s =
     act_bind (act_for (announce_out (num_net_endpoints (em s)) ws) (\<lambda>(j, m). send_to_setup net j (SetupMsg m)))
       (\<lambda>_. act_ret (waits (num_net_endpoints (em s)) ws)) s"
proof (intro conjI)
  show "announce_leader net ws (index_iter (em s)) [] s =
    act_bind (act_for (announce_out (num_net_endpoints (em s)) ws) (\<lambda>(j, m). send_to_setup net j (SetupMsg m)))
       (\<lambda>_. act_ret (waits (num_net_endpoints (em s)) ws)) s"
    unfolding announce_leader_out announce_out_def index_iter_def waits_def by (rule refl)
qed (rule election_wave_react)

text \<open>
  C11: the distributed election agrees. In a connected network whose connectors have
  different identifiers, every connector that finishes has learned the greatest identifier,
  whatever the order in which messages arrive; it has no parent exactly when it is the
  leader; and the parents lead from it to the leader.
\<close>

theorem election_agreement:
  assumes "topology_ok T" "net_reachable T s" "results s v = Some ws"
  shows "(\<forall>u. ident T u \<le> ws_leader ws) \<and> (ws_parent ws = None \<longleftrightarrow> ident T v = ws_leader ws) \<and>
    (\<exists>r. ident T r = ws_leader ws \<and> (v, r) \<in> (parents T s)\<^sup>*)"
proof -
  have "fins_ok T (results s) (fins s)" "v \<in> set (fins s)"
    using net_reachable_inv [OF assms(2,1)] assms(3) by (auto simp: result_inv_def)
  from fins_root [OF this] obtain r w where r: "(v, r) \<in> (parents T s)\<^sup>*" "results s r = Some w" "ws_parent w = None" by blast
  have "ident T r = ws_leader w" "\<forall>u. ident T u \<le> ws_leader w"
    using results_max [OF assms(2,1) r(2)] r(3) by blast+
  moreover obtain r' where "ident T r' = ws_leader ws" using results_max(2) [OF assms(2,1,3)] by blast
  ultimately have "ident T r = ws_leader ws"
    using results_max(1) [OF assms(2,1,3), of r] by (metis order_antisym)
  then show ?thesis using results_max [OF assms(2,1,3)] r(1) by blast
qed

theorem election_agreement_witness: "\<forall>u. ident pair_net u \<le> 7"
  using election_agreement [OF pair_net_ok pair_reachable, of True] by (simp add: pair_result_def)

text \<open>
  C13: the assertions of the election cannot fail in a connected network of connectors with
  different identifiers that all run this code (\<open>topology_ok\<close>, \<open>net_reachable\<close>). Whatever
  message is under way to a connector that has not finished, the reply to a wave was awaited, an announced leader is not smaller
  than the best wave so far and is not the connector itself, and no other message can
  arrive, so that neither a panic nor \<open>SetupAlgMisbehavior\<close> is possible.
\<close>

theorem election_never_panics:
  assumes "topology_ok T" "net_reachable T s" "(v, i, m) \<in># flight s" "v \<in> started s" "results s v = None"
  shows "case m of
      LeaderWave l \<Rightarrow> wave_react (deg T v) (waves s v) (awaits s v) i l \<noteq> None
    | LeaderAnnounce l \<Rightarrow> ws_leader (waves s v) \<le> l \<and> l \<noteq> ident T v
    | _ \<Rightarrow> False"
proof -
  have inv: "wave_inv T s" "inv_messages T s" using net_reachable_inv [OF assms(2,1)] by (simp_all add: result_inv_def)
  show ?thesis
  proof (cases m)
    case (LeaderWave l)
    with wave_react_total [OF inv(1) assms(4,5)] assms(3) show ?thesis by simp
  next
    case (LeaderAnnounce l)
    with inv(2) assms(3) obtain r where r: "results s r = Some \<lparr>ws_parent = None, ws_leader = l\<rparr>"
      unfolding inv_messages_def by blast
    have "joins_ok T (joins s)" using wave_invD(2) [OF inv(1)] by (simp add: inv_joins_def)
    from joins_root [OF this inv_currentD [OF wave_invD(1) [OF inv(1)] assms(4)]]
    obtain u where "ident T u = ws_leader (waves s v)" by blast
    with results_max(1) [OF assms(2,1) r, of u] have "ws_leader (waves s v) \<le> l" by simp
    moreover have "l \<noteq> ident T v"
    proof
      assume "l = ident T v"
      with results_max(3) [OF assms(2,1) r] have "ident T r = ident T v" by simp
      with assms(1) have "r = v" by (simp add: topology_ok_def inj_eq)
      with r assms(5) show False by simp
    qed
    ultimately show ?thesis by (simp add: LeaderAnnounce)
  qed (use inv(2) assms(3,5) in \<open>auto simp: inv_messages_def\<close>)
qed

theorem election_never_panics_witness: "ws_leader (waves pair_result False) \<le> 7"
  using election_never_panics [OF pair_net_ok pair_reachable, of False 0 "LeaderAnnounce 7"] by (simp add: pair_result_def)

end
