(* ===== verification/Election_Progress.thy ===== *)
theory Election_Progress
  imports Election_Network
begin

text \<open>
  The election cannot get stuck: when every connector has started and no message is left in
  the network, every connector has finished.
\<close>

section \<open>Nothing is forgotten\<close>

definition inv_sends :: "'n Topology \<Rightarrow> 'n ElectionNet \<Rightarrow> bool" where
  "inv_sends T s \<longleftrightarrow> (\<forall>v l q i. (v, l, q) \<in> set (joins s) \<longrightarrow> i < deg T v \<longrightarrow> q \<noteq> Some i \<longrightarrow> (v, i, l) \<in> sent s)"

definition inv_arrives :: "'n Topology \<Rightarrow> 'n ElectionNet \<Rightarrow> bool" where
  "inv_arrives T s \<longleftrightarrow> (\<forall>v i l. (v, i, l) \<in> sent s \<longrightarrow>
     arrival T v i (LeaderWave l) \<in># flight s \<or> arrival T v i l \<in> recd s \<or> results s (fst (wire T v i)) \<noteq> None)"

definition inv_echoes :: "'n Topology \<Rightarrow> 'n ElectionNet \<Rightarrow> bool" where
  "inv_echoes T s \<longleftrightarrow> (\<forall>v \<in> started s. results s v = None \<longrightarrow> complete T s v (ws_leader (waves s v)) \<longrightarrow>
     (\<exists>p. ws_parent (waves s v) = Some p \<and> (v, p, ws_leader (waves s v)) \<in> sent s))"

definition inv_tells :: "'n Topology \<Rightarrow> 'n ElectionNet \<Rightarrow> bool" where
  "inv_tells T s \<longleftrightarrow> (\<forall>v ws i. results s v = Some ws \<longrightarrow> i < deg T v \<longrightarrow>
     results s (fst (wire T v i)) \<noteq> None \<or> arrival T v i (LeaderAnnounce (ws_leader ws)) \<in># flight s)"

definition live_inv :: "'n Topology \<Rightarrow> 'n ElectionNet \<Rightarrow> bool" where
  "live_inv T s \<longleftrightarrow> inv_sends T s \<and> inv_arrives T s \<and> inv_echoes T s \<and> inv_tells T s"

lemma live_invD: "live_inv T s \<Longrightarrow> inv_sends T s" "live_inv T s \<Longrightarrow> inv_arrives T s" "live_inv T s \<Longrightarrow> inv_echoes T s"
  "live_inv T s \<Longrightarrow> inv_tells T s"
  by (simp_all add: live_inv_def)

text \<open>Both kinds of messages survive a step that takes another message or one for a connector that has finished.\<close>

lemma inv_arrives_step:
  assumes inv: "inv_arrives T s" and res: "\<And>u. results s u \<noteq> None \<Longrightarrow> results s' u \<noteq> None" and recd: "recd s \<subseteq> recd s'"
    and keep: "\<And>u k l. (u, k, LeaderWave l) \<in># flight s \<Longrightarrow> (u, k, LeaderWave l) \<in># flight s' \<or> (u, k, l) \<in> recd s' \<or> results s' u \<noteq> None"
    and new: "\<And>v i l. (v, i, l) \<in> sent s' \<Longrightarrow> (v, i, l) \<notin> sent s \<Longrightarrow> arrival T v i (LeaderWave l) \<in># flight s'"
  shows "inv_arrives T s'"
  unfolding inv_arrives_def
proof (intro allI impI)
  fix v i l
  assume sent: "(v, i, l) \<in> sent s'"
  show "arrival T v i (LeaderWave l) \<in># flight s' \<or> arrival T v i l \<in> recd s' \<or> results s' (fst (wire T v i)) \<noteq> None"
  proof (cases "(v, i, l) \<in> sent s")
    case True
    with inv have "arrival T v i (LeaderWave l) \<in># flight s \<or> arrival T v i l \<in> recd s \<or> results s (fst (wire T v i)) \<noteq> None"
      by (simp add: inv_arrives_def)
    then show ?thesis using keep [of "fst (wire T v i)" "snd (wire T v i)" l] res recd by (auto simp: arrival_def)
  qed (use new sent in blast)
qed

lemma inv_tells_step:
  assumes inv: "inv_tells T s" and res: "\<And>u w. results s u = Some w \<Longrightarrow> results s' u = Some w"
    and keep: "\<And>u k l. (u, k, LeaderAnnounce l) \<in># flight s \<Longrightarrow> (u, k, LeaderAnnounce l) \<in># flight s' \<or> results s' u \<noteq> None"
    and new: "\<And>v ws i. results s' v = Some ws \<Longrightarrow> results s v = None \<Longrightarrow> i < deg T v \<Longrightarrow>
        results s' (fst (wire T v i)) \<noteq> None \<or> arrival T v i (LeaderAnnounce (ws_leader ws)) \<in># flight s'"
  shows "inv_tells T s'"
  unfolding inv_tells_def
proof (intro allI impI)
  fix v ws i
  assume v: "results s' v = Some ws" and i: "i < deg T v"
  show "results s' (fst (wire T v i)) \<noteq> None \<or> arrival T v i (LeaderAnnounce (ws_leader ws)) \<in># flight s'"
  proof (cases "results s v")
    case (Some w)
    with res v have "w = ws" by force
    with inv Some i have "results s (fst (wire T v i)) \<noteq> None \<or> arrival T v i (LeaderAnnounce (ws_leader ws)) \<in># flight s"
      by (simp add: inv_tells_def)
    then show ?thesis
      using keep [of "fst (wire T v i)" "snd (wire T v i)" "ws_leader ws"] res by (auto simp: arrival_def)
  qed (use new v i in blast)
qed

lemma in_diff_other: "x \<in># A \<Longrightarrow> x \<noteq> y \<Longrightarrow> x \<in># A - {#y#}"
  by (simp add: in_diff_count)

lemma finish_tells:
  "i < deg T v \<Longrightarrow> Some i \<noteq> ws_parent ws \<Longrightarrow> arrival T v i (LeaderAnnounce (ws_leader ws)) \<in># flight (finish T v ws s)"
  by (auto simp: finish_def in_posted_announce)

lemma wave_live_inv:
  assumes r: "wave_recv T s v i l st out" and inv: "live_inv T s"
  shows "live_inv T (wave_after T s v i l st out)"
proof -
  define s' where "s' = wave_after T s v i l st out"
  note d = wave_recvD [OF r] and f = wave_after_fields [OF wave_recvD(6) [OF r], folded s'_def]
  have fl: "x \<in># flight s'" if "x \<in># flight s - {#(v, i, LeaderWave l)#} \<or> (\<exists>j \<in> set out. x = arrival T v j (LeaderWave l))" for x
    using that by (auto simp: s'_def wave_after_def after_wave_def finish_def in_posted_waves split: ElectionStep.split)
  have res: "results s' = (case st of Continue _ _ \<Rightarrow> results s | Elected ws \<Rightarrow> (results s)(v := Some ws))"
    by (simp add: s'_def wave_after_def after_wave_def finish_def split: ElectionStep.split)
  have "inv_sends T s'"
    using d(6)
  proof (cases rule: wave_react_cases)
    case greater
    then have "(v, j, l) \<in> sent s'" if "j < deg T v" "j \<noteq> i" for j using that by (auto simp: f)
    with live_invD(1) [OF inv] greater(1) show ?thesis unfolding inv_sends_def f(3) by (auto simp: f)
  qed (use live_invD(1) [OF inv] in \<open>auto simp: inv_sends_def f\<close>)
  moreover have "inv_arrives T s'"
  proof (rule inv_arrives_step [OF live_invD(2) [OF inv]])
    show "results s' u \<noteq> None" if "results s u \<noteq> None" for u using that by (auto simp: res split: ElectionStep.split)
    show "(u, k, LeaderWave m) \<in># flight s' \<or> (u, k, m) \<in> recd s' \<or> results s' u \<noteq> None" if "(u, k, LeaderWave m) \<in># flight s" for u k m
    proof (cases "(u, k, m) = (v, i, l)")
      case False
      with that have "(u, k, LeaderWave m) \<in># flight s - {#(v, i, LeaderWave l)#}" by (intro in_diff_other) auto
      with fl show ?thesis by blast
    qed (simp add: f)
    show "arrival T u j (LeaderWave m) \<in># flight s'" if "(u, j, m) \<in> sent s'" "(u, j, m) \<notin> sent s" for u j m
      using that fl [of "arrival T u j (LeaderWave m)"] by (auto simp: f)
  qed (auto simp: f)
  moreover have "inv_tells T s'"
  proof (rule inv_tells_step [OF live_invD(4) [OF inv]])
    show "results s' u = Some w" if "results s u = Some w" for u w
      using that d(4) by (auto simp: res split: ElectionStep.split)
    show "(u, k, LeaderAnnounce m) \<in># flight s' \<or> results s' u \<noteq> None" if "(u, k, LeaderAnnounce m) \<in># flight s" for u k m
      using fl in_diff_other [OF that, of "(v, i, LeaderWave l)"] by auto
    show "results s' (fst (wire T u j)) \<noteq> None \<or> arrival T u j (LeaderAnnounce (ws_leader w)) \<in># flight s'"
      if u: "results s' u = Some w" "results s u = None" "j < deg T u" for u w j
      using d(6)
    proof (cases rule: wave_react_cases)
      case win
      then have "u = v" "w = waves s v" using u(1,2) by (auto simp: res split: if_splits)
      with finish_tells [of j T v w] u(3) win(4,5) show ?thesis by (simp add: s'_def wave_after_def after_wave_def)
    qed (use u in \<open>simp_all add: res\<close>)
  qed
  moreover have "inv_echoes T s'"
  proof -
    have "\<exists>p. ws_parent (waves s' u) = Some p \<and> (u, p, ws_leader (waves s' u)) \<in> sent s'"
      if u: "u \<in> started s'" "results s' u = None" "complete T s' u (ws_leader (waves s' u))" for u
    proof (cases "u = v")
      case False
      with u have "complete T s u (ws_leader (waves s u))" "results s u = None" "u \<in> started s"
        by (auto simp: f complete_def res split: ElectionStep.splits)
      with live_invD(3) [OF inv] False show ?thesis by (auto simp: inv_echoes_def f)
    next
      case True
      show ?thesis
        using d(6)
      proof (cases rule: wave_react_cases)
        case less
        then have same: "joined_wave (waves s v) i l = waves s v" by (simp add: joined_wave_def)
        then have "complete T s v (ws_leader (waves s v))" using u(3) less(1) by (auto simp: True f complete_def)
        with live_invD(3) [OF inv] d(3,4) same show ?thesis by (auto simp: True inv_echoes_def f)
      next
        case greater
        have "(v, j, l) \<notin> recd s" for j using inv_recdD(3) [OF wave_invD(4) [OF d(2)], of v j l] greater(1) by auto
        then have "j = i" if "j < deg T v" for j
          using u(3) greater(1) that by (auto simp: True f complete_def joined_wave_def)
        then have "set (waits (deg T v) \<lparr>ws_parent = Some i, ws_leader = l\<rparr>) = {}" by auto
        then have "waits (deg T v) \<lparr>ws_parent = Some i, ws_leader = l\<rparr> = []" by (simp only: set_empty)
        then show ?thesis using greater by (auto simp: True f joined_wave_def)
      next
        case more
        then obtain j where "j \<in> set (hs_remove i (awaits s v))" by (cases "hs_remove i (awaits s v)") auto
        then have "j \<in> set (awaits s v)" "j \<noteq> i" by auto
        then have "j < deg T v" "(v, j, l) \<notin> recd s'"
          using wave_invD(5) [OF d(2)] d(3,4) more(1) by (auto simp: inv_awaits_def f)
        with u(3) more(1) show ?thesis by (auto simp: True f(2) complete_def joined_wave_def)
      next
        case (echo p)
        then show ?thesis by (auto simp: True f joined_wave_def)
      next
        case win
        with u(2) show ?thesis by (simp add: True res)
      qed
    qed
    then show ?thesis unfolding inv_echoes_def by blast
  qed
  ultimately show ?thesis by (simp add: live_inv_def s'_def)
qed

lemma start_live_inv:
  assumes T: "topology_ok T" and deg: "0 < deg T v" and wave: "wave_inv T s" and inv: "live_inv T s" and v: "v \<notin> started s"
  shows "live_inv T (start_node T v s)"
proof -
  define s' where "s' = start_node T v s"
  have f: "started s' = insert v (started s)" "waves s' = (waves s)(v := \<lparr>ws_parent = None, ws_leader = ident T v\<rparr>)"
    "joins s' = (v, ident T v, None) # joins s" "recd s' = recd s" "results s' = results s"
    "sent s' = sent s \<union> {(v, j, ident T v) | j. j < deg T v}"
    "flight s' = flight s + posted T v (map (\<lambda>j. (j, LeaderWave (ident T v))) [0 ..< deg T v])"
    by (auto simp: s'_def start_node_def Let_def)
  have no_recd: "(v, j, l) \<notin> recd s" for j l using inv_recdD(2) [OF wave_invD(4) [OF wave]] v by blast
  have "inv_sends T s'" using live_invD(1) [OF inv] by (auto simp: inv_sends_def f)
  moreover have "inv_arrives T s'"
    by (rule inv_arrives_step [OF live_invD(2) [OF inv]]) (auto simp: f in_posted_waves)
  moreover have "inv_tells T s'"
    by (rule inv_tells_step [OF live_invD(4) [OF inv]]) (auto simp: f)
  moreover have "inv_echoes T s'"
  proof -
    have "\<not> complete T s' v l" for l using deg no_recd by (auto simp: complete_def f)
    then show ?thesis
      using live_invD(3) [OF inv] v unfolding inv_echoes_def f complete_def by auto
  qed
  ultimately show ?thesis by (simp add: live_inv_def s'_def)
qed

lemma announcement_live_inv:
  assumes inv: "live_inv T s" and msgs: "inv_messages T s" and msg: "(v, i, LeaderAnnounce l) \<in># flight s" and v: "results s v = None"
  shows "live_inv T (finish T v \<lparr>ws_parent = Some i, ws_leader = l\<rparr> (s\<lparr>flight := flight s - {#(v, i, LeaderAnnounce l)#}\<rparr>))"
proof -
  let ?ws = "\<lparr>ws_parent = Some i, ws_leader = l\<rparr>" and ?s1 = "s\<lparr>flight := flight s - {#(v, i, LeaderAnnounce l)#}\<rparr>"
  define s' where "s' = finish T v ?ws ?s1"
  have f: "started s' = started s" "waves s' = waves s" "joins s' = joins s" "recd s' = recd s" "sent s' = sent s"
    "results s' = (results s)(v := Some ?ws)"
    by (auto simp: s'_def finish_def)
  have fl: "x \<in># flight s'" if "x \<in># flight s" "x \<noteq> (v, i, LeaderAnnounce l)" for x
    using in_diff_other [OF that] by (simp add: s'_def finish_def)
  have "inv_sends T s'" using live_invD(1) [OF inv] by (auto simp: inv_sends_def f)
  moreover have "inv_arrives T s'"
    by (rule inv_arrives_step [OF live_invD(2) [OF inv]]) (auto simp: f intro: fl)
  moreover have "inv_tells T s'"
  proof (rule inv_tells_step [OF live_invD(4) [OF inv]])
    show "(u, k, LeaderAnnounce m) \<in># flight s' \<or> results s' u \<noteq> None" if "(u, k, LeaderAnnounce m) \<in># flight s" for u k m
      using fl [OF that] by (auto simp: f)
    show "results s' (fst (wire T u j)) \<noteq> None \<or> arrival T u j (LeaderAnnounce (ws_leader w)) \<in># flight s'"
      if u: "results s' u = Some w" "results s u = None" "j < deg T u" for u w j
    proof -
      have uv: "u = v" "w = ?ws" using u(1,2) by (auto simp: f split: if_splits)
      show ?thesis
      proof (cases "j = i")
        case True
        have "results s (fst (wire T v i)) \<noteq> None" using msgs msg unfolding inv_messages_def by blast
        then show ?thesis by (auto simp: uv True f)
      next
        case False
        with finish_tells [of j T v ?ws ?s1] u(3) show ?thesis by (simp add: uv s'_def)
      qed
    qed
  qed (use v in \<open>auto simp: f\<close>)
  moreover have "inv_echoes T s'"
    using live_invD(3) [OF inv] by (auto simp: inv_echoes_def f complete_def)
  ultimately show ?thesis by (simp add: live_inv_def s'_def)
qed

lemma late_live_inv:
  assumes inv: "live_inv T s" and v: "results s v \<noteq> None"
  shows "live_inv T (s\<lparr>flight := flight s - {#(v, i, m)#}\<rparr>)"
proof -
  let ?s' = "s\<lparr>flight := flight s - {#(v, i, m)#}\<rparr>"
  have fl: "(u, k, x) \<in># flight ?s' \<or> results ?s' u \<noteq> None" if "(u, k, x) \<in># flight s" for u k x
    using in_diff_other [OF that, of "(v, i, m)"] v by auto
  have "inv_arrives T ?s'"
    by (rule inv_arrives_step [OF live_invD(2) [OF inv]]) (use fl in auto)
  moreover have "inv_tells T ?s'"
    by (rule inv_tells_step [OF live_invD(4) [OF inv]]) (use fl in auto)
  ultimately show ?thesis
    using live_invD(1,3) [OF inv] by (simp add: live_inv_def inv_sends_def inv_echoes_def complete_def)
qed

lemma reachable_live_inv:
  assumes "net_reachable T s" "topology_ok T" "\<forall>v. 0 < deg T v"
  shows "live_inv T s"
  using assms
proof (induction rule: net_reachable.induct)
  case init
  show ?case by (simp add: live_inv_def inv_sends_def inv_arrives_def inv_echoes_def inv_tells_def net_init_def)
next
  case (step s s')
  have inv: "wave_inv T s" "result_inv T s" "live_inv T s" using net_reachable_inv [OF step.hyps(1) step.prems(1)] step.IH step.prems by auto
  from step.hyps(2) show ?case
  proof cases
    case (start v)
    with start_live_inv [OF step.prems(1) _ inv(1,3)] step.prems(2) show ?thesis by simp
  next
    case (wave v i l st out)
    then have "wave_recv T s v i l st out" using step.prems(1) inv(1) by (simp add: wave_recv_def)
    from wave_live_inv [OF this inv(3)] wave(1) show ?thesis by (simp add: wave_after_def)
  next
    case (announcement v i l)
    with announcement_live_inv [OF inv(3)] inv(2) show ?thesis by (simp add: result_inv_def)
  next
    case (late v i m)
    with late_live_inv [OF inv(3)] show ?thesis by simp
  qed
qed

section \<open>Silence means success\<close>

lemma joins_ok_split:
  "joins_ok T (us @ (v, l, q) # vs) \<Longrightarrow> (\<forall>q'. (v, l, q') \<notin> set vs) \<and> joins_ok T vs \<and>
     (\<forall>p. q = Some p \<longrightarrow> (\<exists>q'. (fst (wire T v p), l, q') \<in> set vs))"
proof (induction us)
  case Nil
  then show ?case by (auto split: option.splits)
next
  case (Cons x us)
  then show ?case by (cases x) auto
qed

lemma joins_first: "joins_ok T js \<Longrightarrow> (v, l, q) \<in> set js \<Longrightarrow> \<exists>u. ident T u = l \<and> (u, l, None) \<in> set js"
proof (induction js arbitrary: v q)
  case (Cons x js)
  obtain u m q' where x: "x = (u, m, q')" by (cases x)
  show ?case
  proof (cases "(v, l, q) \<in> set js")
    case False
    with Cons.prems x have "u = v" "m = l" "q' = q" by auto
    with Cons x show ?thesis by (cases q) auto
  qed (use Cons x in auto)
qed simp

text \<open>In a silent network in which nobody has finished, the greatest wave is everywhere and complete.\<close>

lemma silent_complete:
  assumes T: "topology_ok T" and wave: "wave_inv T s" and live: "live_inv T s"
    and recv: "\<And>v i l. (v, i, l) \<in> sent s \<Longrightarrow> arrival T v i l \<in> recd s"
    and none: "\<And>v. results s v = None" and started: "\<And>v. v \<in> started s"
    and all: "\<And>v. \<exists>q. (v, m, q) \<in> set (joins s)" and leader: "\<And>v. ws_leader (waves s v) = m"
  shows "joins s = us @ (v, m, q) # vs \<Longrightarrow> complete T s v m"
proof (induction "length us" arbitrary: us v q vs rule: less_induct)
  case less
  have ok: "joins_ok T (joins s)" using wave_invD(2) [OF wave] by (simp add: inv_joins_def)
  show ?case
    unfolding complete_def
  proof (intro allI impI)
    fix i
    assume i: "i < deg T v"
    let ?w = "fst (wire T v i)" and ?k = "snd (wire T v i)"
    note wb = wire_back [OF T i]
    obtain qw where qw: "(?w, m, qw) \<in> set (joins s)" using all by blast
    have "(?w, ?k, m) \<in> sent s"
    proof (cases "qw = Some ?k")
      case False
      with live_invD(1) [OF live] qw wb(2) show ?thesis by (auto simp: inv_sends_def)
    next
      case True
      obtain us1 us2 where split: "joins s = us1 @ (?w, m, Some ?k) # us2"
        using qw True by (metis split_list)
      have v: "\<exists>q'. (v, m, q') \<in> set us2"
        using joins_ok_split [OF ok [unfolded split]] wb(1) by auto
      have "length us1 < length us"
      proof (rule ccontr)
        assume "\<not> length us1 < length us"
        then obtain xs where "us1 = us @ xs" "xs @ (?w, m, Some ?k) # us2 = (v, m, q) # vs"
          using split less.prems by (force simp: append_eq_append_conv2)
        then have "set us2 \<subseteq> set vs" by (cases xs) auto
        with v joins_ok_split [OF ok [unfolded less.prems]] show False by blast
      qed
      then have "complete T s ?w m" using less.hyps split by blast
      then obtain p where p: "ws_parent (waves s ?w) = Some p" "(?w, p, m) \<in> sent s"
        using live_invD(3) [OF live] none started leader unfolding inv_echoes_def by metis
      have "(?w, m, ws_parent (waves s ?w)) \<in> set (joins s)"
        using inv_currentD [OF wave_invD(1) [OF wave] started] leader by metis
      with joins_unique [OF ok _ qw] True p show ?thesis by auto
    qed
    from recv [OF this] wb(1) show "(v, i, m) \<in> recd s" by (simp add: arrival_def)
  qed
qed

text \<open>
  C12: the election cannot get stuck. In a connected network in which every connector has
  started and no message is under way, every connector knows the result.
\<close>

theorem election_never_stuck:
  assumes T: "topology_ok T" and deg: "\<forall>v. 0 < deg T v" and reach: "net_reachable T s"
    and started: "\<forall>v. v \<in> started s" and silent: "flight s = {#}"
  shows "results s v \<noteq> None"
proof -
  have wave: "wave_inv T s" using net_reachable_inv [OF reach T] by simp
  have live: "live_inv T s" using reachable_live_inv [OF reach T deg] .
  have links: "(u, v) \<in> (links T)\<^sup>*" for u using T by (simp add: topology_ok_def)
  have "\<exists>u. results s u \<noteq> None"
  proof (rule ccontr)
    assume "\<not> (\<exists>u. results s u \<noteq> None)"
    then have none: "results s u = None" for u by simp
    have recv: "arrival T u i l \<in> recd s" if "(u, i, l) \<in> sent s" for u i l
      using live_invD(2) [OF live] that silent none by (auto simp: inv_arrives_def)
    have ok: "joins_ok T (joins s)" using wave_invD(2) [OF wave] by (simp add: inv_joins_def)
    define m where "m = Max (range (ident T))"
    have max: "ident T u \<le> m" for u by (simp add: m_def)
    have "m \<in> range (ident T)" unfolding m_def by (rule Max_in) auto
    then obtain r where r: "ident T r = m" by auto
    have cur: "(u, ws_leader (waves s u), ws_parent (waves s u)) \<in> set (joins s)" for u
      using inv_currentD [OF wave_invD(1) [OF wave]] started by blast
    have lead: "ws_leader (waves s u) \<le> m" for u
      using joins_root [OF ok cur] max by metis
    have lead_r: "ws_leader (waves s r) = m"
      using inv_joinsD(3) [OF wave_invD(2) [OF wave] cur, of r] lead [of r] r by auto
    have all: "\<exists>q. (u, m, q) \<in> set (joins s)" if "(r, u) \<in> (links T)\<^sup>*" for u
      using that
    proof (induction rule: rtrancl_induct)
      case base
      then show ?case using cur [of r] lead_r by auto
    next
      case (step u w)
      then obtain q i where u: "(u, m, q) \<in> set (joins s)" "i < deg T u" "w = fst (wire T u i)" by (auto simp: links_def)
      show ?case
      proof (cases "q = Some i")
        case True
        obtain us vs where "joins s = us @ (u, m, Some i) # vs" using u(1) True by (metis split_list)
        with joins_ok_split [of T us u m "Some i" vs] ok u(3) show ?thesis by auto
      next
        case False
        with live_invD(1) [OF live] u(1,2) have "(u, i, m) \<in> sent s" by (auto simp: inv_sends_def)
        from recv [OF this] have "(w, snd (wire T u i), m) \<in> recd s" by (simp add: arrival_def u(3))
        from inv_recdD(3) [OF wave_invD(4) [OF wave] this] lead [of w] have "ws_leader (waves s w) = m" by auto
        with cur [of w] show ?thesis by auto
      qed
    qed
    have everyone: "\<exists>q. (u, m, q) \<in> set (joins s)" for u using all T by (simp add: topology_ok_def)
    have leader: "ws_leader (waves s u) = m" for u
      using everyone [of u] inv_joinsD(2) [OF wave_invD(2) [OF wave], of u m] lead [of u] by (meson order_antisym)
    obtain us vs q where "joins s = us @ (r, m, q) # vs" using everyone by (metis split_list)
    from silent_complete [OF T wave live recv none _ everyone leader this] started
    have "complete T s r m" by blast
    then obtain p where p: "ws_parent (waves s r) = Some p"
      using live_invD(3) [OF live] none started leader unfolding inv_echoes_def by metis
    obtain u where u: "ident T u = m" "(u, m, None) \<in> set (joins s)" using joins_first [OF ok] everyone by blast
    then have "u = r" using r T by (metis injD topology_ok_def)
    with joins_unique [OF ok _ u(2), of "Some p"] cur [of r] leader p show False by auto
  qed
  then obtain u where "results s u \<noteq> None" ..
  from links [of u] this show ?thesis
  proof (induction rule: converse_rtrancl_induct)
    case (step u w)
    then obtain i ws where i: "i < deg T u" "w = fst (wire T u i)" "results s u = Some ws" by (auto simp: links_def)
    with live_invD(4) [OF live] silent have "results s w \<noteq> None" by (auto simp: inv_tells_def)
    with step.IH show ?case by blast
  qed
qed

lemma pair_silent:
  "net_reachable pair_net (pair_result\<lparr>results := [True \<mapsto> \<lparr>ws_parent = None, ws_leader = 7\<rparr>, False \<mapsto> \<lparr>ws_parent = Some 0, ws_leader = 7\<rparr>],
     flight := {#}, fins := [False, True]\<rparr>)"
proof -
  let ?w = "\<lparr>ws_parent = Some 0, ws_leader = 7\<rparr>"
  define s1 where "s1 = pair_result\<lparr>results := [True \<mapsto> \<lparr>ws_parent = None, ws_leader = 7\<rparr>, False \<mapsto> ?w],
     flight := {#(True, 0, LeaderWave 3), (True, 0, YouAreMyParent)#}, fins := [False, True]\<rparr>"
  have "net_step pair_net pair_result (finish pair_net False ?w (pair_result\<lparr>flight := flight pair_result - {#(False, 0, LeaderAnnounce 7)#}\<rparr>))"
    by (rule net_step.announcement) (simp_all add: pair_result_def pair_simps)
  moreover have "finish pair_net False ?w (pair_result\<lparr>flight := flight pair_result - {#(False, 0, LeaderAnnounce 7)#}\<rparr>) = s1"
    by (simp add: finish_def posted_def announce_out_def pair_simps pair_result_def s1_def)
  ultimately have r1: "net_reachable pair_net s1" using pair_reachable by (metis net_reachable.step)
  define s2 where "s2 = s1\<lparr>flight := {#(True, 0, YouAreMyParent)#}\<rparr>"
  have "net_step pair_net s1 (s1\<lparr>flight := flight s1 - {#(True, 0, LeaderWave 3)#}\<rparr>)"
    by (rule net_step.late) (simp_all add: s1_def)
  then have r2: "net_reachable pair_net s2" using r1 by (auto simp: s2_def s1_def dest: net_reachable.step)
  have "net_step pair_net s2 (s2\<lparr>flight := flight s2 - {#(True, 0, YouAreMyParent)#}\<rparr>)"
    by (rule net_step.late) (simp_all add: s2_def s1_def)
  with r2 have "net_reachable pair_net (s2\<lparr>flight := flight s2 - {#(True, 0, YouAreMyParent)#}\<rparr>)" by (rule net_reachable.step)
  then show ?thesis by (simp add: s2_def s1_def pair_result_def)
qed

theorem election_never_stuck_witness:
  "results (pair_result\<lparr>results := [True \<mapsto> \<lparr>ws_parent = None, ws_leader = 7\<rparr>, False \<mapsto> \<lparr>ws_parent = Some 0, ws_leader = 7\<rparr>],
     flight := {#}, fins := [False, True]\<rparr>) False \<noteq> None"
  by (rule election_never_stuck [OF pair_net_ok _ pair_silent]) (auto simp: pair_simps pair_result_def)

end
