(* ===== verification/Eval_Typing.thy ===== *)
theory Eval_Typing
  imports Eval_Cast
begin

text \<open>
  Types of values, as the type checker of the protocol language establishes them, and what
  the operators of \<open>src/protocol/eval/value.rs\<close> do on well-typed operands: equality decides
  equality of the denoted trees, and a binary operator returns a value of its result type
  or panics on an arithmetic error, and never reaches an \<open>unreachable!\<close> branch.
\<close>

section \<open>Types\<close>

datatype ValTy = TyInput | TyOutput | TyMessage | TyBool | TyChar | TyString | TyInt IntType | TyEnum |
  TyArray ValTy | TyStruct "ValTy list" | TyUnion "u64 \<Rightarrow> ValTy list"

fun scalar_type :: "Value \<Rightarrow> ValTy option" where
  "scalar_type (VInput _) = Some TyInput"
| "scalar_type (VOutput _) = Some TyOutput"
| "scalar_type (VBool _) = Some TyBool"
| "scalar_type (VChar _) = Some TyChar"
| "scalar_type (VEnum _) = Some TyEnum"
| "scalar_type v = map_option (\<lambda>(ty, _). TyInt ty) (int_view v)"

text \<open>The types of the elements of a value of kind \<open>k\<close> with \<open>n\<close> elements.\<close>

fun elem_types :: "ValTy \<Rightarrow> Value \<Rightarrow> nat \<Rightarrow> ValTy list option" where
  "elem_types TyMessage k n = (case k of VMessage _ \<Rightarrow> Some (replicate n (TyInt IUInt8)) | _ \<Rightarrow> None)"
| "elem_types TyString k n = (case k of VString _ \<Rightarrow> Some (replicate n TyChar) | _ \<Rightarrow> None)"
| "elem_types (TyArray ty) k n = (case k of VArray _ \<Rightarrow> Some (replicate n ty) | _ \<Rightarrow> None)"
| "elem_types (TyStruct tys) k n = (case k of VStruct _ \<Rightarrow> Some tys | _ \<Rightarrow> None)"
| "elem_types (TyUnion f) k n = (case k of VUnion tag _ \<Rightarrow> Some (f tag) | _ \<Rightarrow> None)"
| "elem_types _ k n = None"

inductive typed :: "ValTy \<Rightarrow> vtree \<Rightarrow> bool" where
  leaf: "scalar_type v = Some ty \<Longrightarrow> typed ty (Leaf v)"
| node: "elem_types ty k (length ts) = Some tys \<Longrightarrow> list_all2 typed tys ts \<Longrightarrow> typed ty (Node k ts)"

inductive_simps typed_leaf [simp]: "typed ty (Leaf v)"
inductive_simps typed_node [simp]: "typed ty (Node k ts)"

lemma scalar_typeD:
  "scalar_type r = Some TyInput \<Longrightarrow> \<exists>v. r = VInput v"
  "scalar_type r = Some TyOutput \<Longrightarrow> \<exists>v. r = VOutput v"
  "scalar_type r = Some TyBool \<Longrightarrow> \<exists>v. r = VBool v"
  "scalar_type r = Some TyChar \<Longrightarrow> \<exists>v. r = VChar v"
  "scalar_type r = Some TyEnum \<Longrightarrow> \<exists>v. r = VEnum v"
  "scalar_type r = Some (TyInt IUInt8) \<Longrightarrow> \<exists>v. r = VUInt8 v"
  "scalar_type r = Some (TyInt IUInt16) \<Longrightarrow> \<exists>v. r = VUInt16 v"
  "scalar_type r = Some (TyInt IUInt32) \<Longrightarrow> \<exists>v. r = VUInt32 v"
  "scalar_type r = Some (TyInt IUInt64) \<Longrightarrow> \<exists>v. r = VUInt64 v"
  "scalar_type r = Some (TyInt ISInt8) \<Longrightarrow> \<exists>v. r = VSInt8 v"
  "scalar_type r = Some (TyInt ISInt16) \<Longrightarrow> \<exists>v. r = VSInt16 v"
  "scalar_type r = Some (TyInt ISInt32) \<Longrightarrow> \<exists>v. r = VSInt32 v"
  "scalar_type r = Some (TyInt ISInt64) \<Longrightarrow> \<exists>v. r = VSInt64 v"
  by (cases r; simp)+

lemma scalar_no_elems: "scalar_type v = Some ty \<Longrightarrow> elem_types ty k n = None"
  by (cases v) auto

lemma scalar_pair:
  "scalar_type l = Some ty \<Longrightarrow> scalar_type r = Some ty \<Longrightarrow> heap_operands l r = None \<and> scalar_equal l r = Some (l = r)"
  by (cases l) (auto dest!: scalar_typeD)

lemma heap_kind:
  assumes "get_heap_pos v = Some p" "with_heap_pos v 0 = Some k" "elem_types ty k n = Some tys"
  shows "(case ty of
      TyMessage \<Rightarrow> v = VMessage p \<and> k = VMessage 0
    | TyString \<Rightarrow> v = VString p \<and> k = VString 0
    | TyArray _ \<Rightarrow> v = VArray p \<and> k = VArray 0
    | TyStruct _ \<Rightarrow> v = VStruct p \<and> k = VStruct 0
    | TyUnion _ \<Rightarrow> (\<exists>tag. v = VUnion tag p \<and> k = VUnion tag 0)
    | _ \<Rightarrow> False)"
  using assms by (cases v) (auto split: ValTy.splits elim: elem_types.elims)

lemma heap_pair:
  assumes "get_heap_pos l = Some p" "with_heap_pos l 0 = Some k" "elem_types ty k n = Some tys"
    and "get_heap_pos r = Some q" "with_heap_pos r 0 = Some k'" "elem_types ty k' m = Some tys'"
  shows "heap_operands l r = Some (p, q)" "union_tags_differ l r \<longleftrightarrow> k \<noteq> k'"
  using heap_kind [OF assms(1-3)] heap_kind [OF assms(4-6)] by (cases ty; auto)+

section \<open>Equality\<close>

text \<open>The two operators are written separately in the source; one is the negation of the other.\<close>

lemma inequality_heap_not_equality:
  assumes "\<And>f l r. fuel = Suc f \<Longrightarrow>
    (apply_inequality_operator f st l r :: (bool, 'e) res) = bind_res (apply_equality_operator f st l r) (\<lambda>b. Ok (\<not> b))"
  shows "(eval_inequality_heap fuel st ls rs :: (bool, 'e) res) = bind_res (eval_equality_heap fuel st ls rs) (\<lambda>b. Ok (\<not> b))"
proof (induction ls arbitrary: rs)
  case (Cons l ls)
  show ?case
  proof (cases rs)
    case rs: (Cons r rs')
    show ?thesis
    proof (cases fuel)
      case (Suc f)
      from Cons.IH [of rs'] assms [OF Suc, of l r] Suc rs show ?thesis
        by (cases "apply_equality_operator f st l r :: (bool, 'e) res") auto
    qed (simp add: rs)
  qed simp
qed simp

lemma inequality_not_equality:
  "(apply_inequality_operator fuel st l r :: (bool, 'e) res) = bind_res (apply_equality_operator fuel st l r) (\<lambda>b. Ok (\<not> b))"
proof (induction fuel arbitrary: l r rule: less_induct)
  case (less fuel)
  have heap: "(eval_inequality_heap f st ls rs :: (bool, 'e) res) = bind_res (eval_equality_heap f st ls rs) (\<lambda>b. Ok (\<not> b))"
    if "fuel = Suc f" for f ls rs
    by (rule inequality_heap_not_equality) (use less that in simp)
  have bind: "bind_res (bind_res m f) g = bind_res m (\<lambda>x. bind_res (f x) g)" for m :: "('a, 'e) res" and f :: "'a \<Rightarrow> ('b, 'e) res" and g :: "'b \<Rightarrow> (bool, 'e) res"
    by (cases m) auto
  show ?case
    by (cases fuel) (auto simp: heap bind intro!: ext arg_cong2 [of _ _ _ _ bind_res] split: option.splits)
qed

section \<open>Deciding equality\<close>

lemma equality_owned:
  "owned st l t F \<Longrightarrow> typed ty t \<Longrightarrow> owned st r u G \<Longrightarrow> typed ty u \<Longrightarrow> depth t \<le> fuel \<Longrightarrow>
     apply_equality_operator fuel st l r = (Ok (t = u) :: (bool, 'e) res)"
  and equality_owned_all:
  "owned_all st ls ts F \<Longrightarrow> list_all2 typed tys ts \<Longrightarrow> owned_all st rs us G \<Longrightarrow> list_all2 typed tys us \<Longrightarrow> fold max (map depth ts) 0 < fuel \<Longrightarrow>
     eval_equality_heap fuel st ls rs = (Ok (ts = us) :: (bool, 'e) res)"
proof (induction arbitrary: ty r u G fuel and tys rs us G fuel rule: owned_owned_all.inducts)
  case (leaf v)
  then have st: "scalar_type v = Some ty" by simp
  from leaf.prems(2) have r: "u = Leaf r" "scalar_type r = Some ty"
    by (cases rule: owned.cases; use leaf.prems(3) scalar_no_elems [OF st] in simp)+
  have "maybe_read_ref st v = (Ok v :: (Value, 'e) res)" "maybe_read_ref st r = (Ok r :: (Value, 'e) res)"
    using owned_maybe_read_ref [OF owned_owned_all.leaf [OF leaf(1,2)]] owned_maybe_read_ref [OF leaf.prems(2)] by auto
  with scalar_pair [OF st r(2)] r(1) leaf.prems(4) show ?case by (cases fuel) auto
next
  case (node v p k ts F)
  from node.prems(1) obtain tys where tys: "elem_types ty k (length ts) = Some tys" "list_all2 typed tys ts" by auto
  from node.prems(2) obtain q k' us G' where r: "get_heap_pos r = Some q" "with_heap_pos r 0 = Some k'" "live st q"
      "owned_all st (heap_regions st ! unat q) us G'" "u = Node k' us"
    by (cases rule: owned.cases) (use node.prems(3) tys(1) scalar_no_elems in force)+
  from node.prems(3) r(5) obtain tys' where tys': "elem_types ty k' (length us) = Some tys'" "list_all2 typed tys' us" by auto
  note pair = heap_pair [OF node(1,2) tys(1) r(1,2) tys'(1)]
  have reads: "maybe_read_ref st v = (Ok v :: (Value, 'e) res)" "maybe_read_ref st r = (Ok r :: (Value, 'e) res)"
    using owned_maybe_read_ref [OF owned_owned_all.node [OF node(1-4)]] owned_maybe_read_ref [OF node.prems(2)] by auto
  obtain f where f: "fuel = Suc f" "fold max (map depth ts) 0 < f" using node.prems(4) by (cases fuel) auto
  have len: "length (heap_regions st ! unat p) = length ts" "length (heap_regions st ! unat q) = length us"
    using owned_all_length [OF node(4)] owned_all_length [OF r(4)] by simp_all
  show ?case
  proof (cases "k = k' \<and> length ts = length us")
    case True
    with tys tys' have "list_all2 typed tys us" by simp
    from node(5) [OF tys(2) r(4) this f(2)] have "eval_equality_heap f st (heap_regions st ! unat p) (heap_regions st ! unat q) =
      (Ok (ts = us) :: (bool, 'e) res)" .
    with True f(1) reads pair r(3,5) node(3) len show ?thesis by (simp add: region_live)
  next
    case False
    with f(1) reads pair r(3,5) node(3) len show ?thesis by (auto simp: region_live)
  qed
next
  case owned_nil
  then show ?case by (auto simp: owned_all_simps)
next
  case (owned_cons v t F vs ts G)
  from owned_cons.prems(1) obtain ty tys' where tys: "tys = ty # tys'" "typed ty t" "list_all2 typed tys' ts"
    by (auto simp: list_all2_Cons2)
  from owned_cons.prems(3) tys(1) obtain u us' where us: "us = u # us'" "typed ty u" "list_all2 typed tys' us'"
    by (auto simp: list_all2_Cons1)
  from owned_cons.prems(2) us(1) obtain r rs' H H' where rs: "rs = r # rs'" "owned st r u H" "owned_all st rs' us' H'"
    by (cases rs) (auto simp: owned_all_simps)
  obtain f where f: "fuel = Suc f" "depth t \<le> f" "fold max (map depth ts) 0 < fuel"
    using owned_cons.prems(4) fold_max_Cons [of "depth t" "map depth ts"] by (cases fuel) auto
  have "apply_equality_operator f st v r = (Ok (t = u) :: (bool, 'e) res)"
    by (rule owned_cons(2) [OF tys(2) rs(2) us(2) f(2)])
  moreover have "eval_equality_heap fuel st vs rs' = (Ok (ts = us') :: (bool, 'e) res)"
    by (rule owned_cons(4) [OF tys(3) rs(3) us(3) f(3)])
  ultimately show ?case using rs(1) us(1) f(1) by simp
qed

lemma read_extends:
  assumes "store_wf st" "extends st st'" "maybe_read_ref st v = (Ok w :: (Value, 'e) res)"
  shows "maybe_read_ref st' v = (Ok w :: (Value, 'e) res)"
proof (cases "\<exists>p i. v = VRef (Heap p i)")
  case True
  then obtain p i where v: "v = VRef (Heap p i)" by blast
  with assms(3) have "unat p < length (heap_regions st)" "heap_regions st ! unat p \<noteq> []"
    by (auto simp: maybe_read_ref_def read_ref_def region_def vec_get_def split: if_splits)
  with assms(1) have "live st p" by (auto simp: live_def store_wf_def)
  moreover from this have "live st' p" "heap_regions st' ! unat p = heap_regions st ! unat p" using assms(2) by (auto simp: extends_but_def)
  ultimately show ?thesis using assms(3) v by (simp add: maybe_read_ref_def read_ref_def region_live)
next
  case False
  with assms(2,3) show ?thesis
    by (auto simp: maybe_read_ref_def read_ref_def extends_but_def split: Value.splits ValueId.splits)
qed

lemma equality_reads:
  assumes "maybe_read_ref st l = (Ok l' :: (Value, 'e) res)" "maybe_read_ref st r = (Ok r' :: (Value, 'e) res)"
    and "maybe_read_ref st l' = (Ok l' :: (Value, 'e) res)" "maybe_read_ref st r' = (Ok r' :: (Value, 'e) res)"
  shows "(apply_equality_operator fuel st l r :: (bool, 'e) res) = apply_equality_operator fuel st l' r'"
  using assms by (cases fuel) simp_all

lemma equality_denotes:
  assumes "denotes st l t F" "denotes st r u G" "typed ty t" "typed ty u" "depth t \<le> fuel"
  shows "apply_equality_operator fuel st l r = (Ok (t = u) :: (bool, 'e) res)"
proof -
  obtain l' where l: "maybe_read_ref st l = (Ok l' :: (Value, 'e) res)" "owned st l' t F" using denotes_read [where 'e = 'e, OF assms(1)] by blast
  obtain r' where r: "maybe_read_ref st r = (Ok r' :: (Value, 'e) res)" "owned st r' u G" using denotes_read [where 'e = 'e, OF assms(2)] by blast
  show ?thesis
    using equality_reads [OF l(1) r(1) owned_maybe_read_ref [OF l(2)] owned_maybe_read_ref [OF r(2)]]
      equality_owned [OF l(2) assms(3) r(2) assms(4,5)] by simp
qed

text \<open>
  C26: on values of one type, equality decides whether they denote the same tree, without
  panicking, and inequality is its negation: two arrays, strings, structs or unions are
  equal exactly when their contents are, however they lie in the heap.
\<close>

theorem equality_decides:
  assumes "denotes st l t F" "denotes st r u G" "typed ty t" "typed ty u" "depth t \<le> fuel"
  shows "apply_equality_operator fuel st l r = (Ok (t = u) :: (bool, 'e) res) \<and>
    apply_inequality_operator fuel st l r = (Ok (t \<noteq> u) :: (bool, 'e) res)"
  using equality_denotes [where 'e = 'e, OF assms] by (simp add: inequality_not_equality)

lemma sample_typed: "typed TyString (Node (VString 0) [Leaf (VChar 104), Leaf (VChar 105)])"
  by (simp add: numeral_2_eq_2)

theorem equality_decides_witness:
  "apply_equality_operator 3 sample_store (VRef (Stack 0)) (VString 1) = (Ok True :: (bool, unit) res)"
  using equality_decides [OF sample_ref owned_denotes [OF sample_string] sample_typed sample_typed, of 3, where 'e = unit] by simp

section \<open>Concatenation\<close>

lemma clone_elements_owned:
  assumes "owned_all st vs ts F" "extends st st1" "store_wf st1" "length (heap_regions st1) + sum_list (map nodes ts) \<le> 2 ^ 32"
    and "live st src" "vs = drop k (heap_regions st ! unat src)" "fold max (map depth ts) 0 \<le> fuel"
  obtains cs st' H where
    "\<And>acc. clone_elements fuel src [k ..< length (heap_regions st ! unat src)] acc st1 = (Ok (acc @ cs, st') :: (Value list \<times> Store, 'e) res)"
    "extends st1 st'" "store_wf st'" "owned_all st' cs ts H" "distinct H" "\<forall>p \<in> set H. \<not> live st1 p"
    "length (heap_regions st') \<le> length (heap_regions st1) + sum_list (map nodes ts)"
  using assms
proof (induction ts arbitrary: vs F st1 k thesis)
  case Nil
  then have "vs = []" using owned_all_length [of st vs "[]"] by simp
  with Nil.prems(7) have "length (heap_regions st ! unat src) \<le> k" by simp
  with Nil.prems(4) show ?case by (intro Nil.prems(1) [of "[]" st1 "[]"]) (auto simp: owned_all_simps)
next
  case (Cons t ts)
  from Cons.prems(2) obtain v vs' F1 F2 where vs: "vs = v # vs'" "owned st v t F1" "owned_all st vs' ts F2"
    by (cases vs) (auto simp: owned_all_simps)
  note k = Cons_eq_drop [OF Cons.prems(7) [unfolded vs(1)]]
  have fuel: "depth t \<le> fuel" "fold max (map depth ts) 0 \<le> fuel"
    using Cons.prems(8) fold_max_Cons [of "depth t" "map depth ts"] by auto
  obtain c st2 where c: "\<forall>fuel \<ge> depth t. clone_value fuel v st1 = (Ok (c, st2) :: (Value \<times> Store, 'e) res)" "copied st1 t c st2"
    using clone_owned [OF vs(2) Cons.prems(3,4)] Cons.prems(5) by auto
  then obtain F' where F': "owned st2 c t F'" "distinct F'" "\<forall>p \<in> set F'. \<not> live st1 p"
    and st2: "extends st1 st2" "store_wf st2" "length (heap_regions st2) \<le> length (heap_regions st1) + nodes t"
    by (auto simp: copied_def)
  have "length (heap_regions st2) + sum_list (map nodes ts) \<le> 2 ^ 32" using st2(3) Cons.prems(5) by simp
  then obtain cs st' H where cs:
    "\<And>acc. clone_elements fuel src [Suc k ..< length (heap_regions st ! unat src)] acc st2 = (Ok (acc @ cs, st') :: (Value list \<times> Store, 'e) res)"
    "extends st2 st'" "store_wf st'" "owned_all st' cs ts H" "distinct H" "\<forall>p \<in> set H. \<not> live st2 p"
    "length (heap_regions st') \<le> length (heap_regions st2) + sum_list (map nodes ts)"
    using Cons.IH [OF _ vs(3) extends_trans [OF Cons.prems(3) st2(1)] st2(2) _ Cons.prems(6) k(3) fuel(2)] by blast
  have src: "live st1 src" "heap_regions st1 ! unat src = heap_regions st ! unat src"
    using Cons.prems(3,6) by (auto simp: extends_but_def)
  show ?case
  proof (rule Cons.prems(1) [of "c # cs" st' "F' @ H"])
    show "clone_elements fuel src [k ..< length (heap_regions st ! unat src)] acc st1 = (Ok (acc @ c # cs, st') :: (Value list \<times> Store, 'e) res)" for acc
      using k(1,2) src c(1) fuel(1) cs(1) by (simp add: upt_rec [of k] region_live vec_get_def)
    show "owned_all st' (c # cs) (t # ts) (F' @ H)"
      using owned_extends [OF F'(1) cs(2)] cs(4) by (auto intro: owned_cons)
    show "distinct (F' @ H)" using F'(2) cs(5,6) owned_live [OF F'(1)] by auto
    show "\<forall>p \<in> set (F' @ H). \<not> live st1 p" using F'(3) cs(6) st2(1) by (auto simp: extends_but_def)
  qed (use cs(2,3,7) st2 in \<open>auto intro: extends_trans\<close>)
qed

lemma concatenate_kind:
  assumes "get_heap_pos l = Some p" "with_heap_pos l 0 = Some k" "elem_types ty k n = Some tys"
    and "get_heap_pos r = Some q" "with_heap_pos r 0 = Some k'" "elem_types ty k' m = Some tys'"
    and "ty = TyMessage \<or> ty = TyString \<or> (\<exists>e. ty = TyArray e)"
  obtains mk where "concatenate_operands l r = Some (p, q, mk)" "\<forall>h. get_heap_pos (mk h) = Some h" "\<forall>h. with_heap_pos (mk h) 0 = Some k" "k = k'"
  using heap_kind [OF assms(1-3)] heap_kind [OF assms(4-6)] assms(7) by (cases ty; auto)

lemma elem_types_append:
  assumes "ty = TyMessage \<or> ty = TyString \<or> (\<exists>e. ty = TyArray e)"
    and "typed ty (Node k ts)" "typed ty (Node k us)"
  shows "typed ty (Node k (ts @ us))"
  using assms by (cases k) (auto simp: list_all2_conv_all_nth nth_append)

lemma concatenate_owned:
  assumes wf: "store_wf st" and l: "denotes st l t F" "typed ty t" and r: "denotes st r u G" "typed ty u"
    and ty: "ty = TyMessage \<or> ty = TyString \<or> (\<exists>e. ty = TyArray e)"
    and room: "length (heap_regions st) + nodes t + nodes u \<le> 2 ^ 32" and fuel: "depth t \<le> fuel" "depth u \<le> fuel"
  shows "\<exists>v st' k ts us H. apply_concatenate fuel st l r = (Ok (v, st') :: (Value \<times> Store, 'e) res) \<and> t = Node k ts \<and> u = Node k us \<and>
    store_wf st' \<and> extends st st' \<and> owned st' v (Node k (ts @ us)) H \<and> distinct H \<and> (\<forall>p \<in> set H. \<not> live st p)"
proof -
  obtain l' where l': "maybe_read_ref st l = (Ok l' :: (Value, 'e) res)" "owned st l' t F" using denotes_read [where 'e = 'e, OF l(1)] by blast
  obtain r' where r': "maybe_read_ref st r = (Ok r' :: (Value, 'e) res)" "owned st r' u G" using denotes_read [where 'e = 'e, OF r(1)] by blast
  have no_scalar: "scalar_type v \<noteq> Some ty" for v using ty scalar_no_elems [of v ty "VMessage 0"] scalar_no_elems [of v ty "VString 0"]
      scalar_no_elems [of v ty "VArray 0"] by auto
  from l'(2) l(2) obtain p k ts F' tys where lo: "get_heap_pos l' = Some p" "with_heap_pos l' 0 = Some k" "live st p"
      "owned_all st (heap_regions st ! unat p) ts F'" "t = Node k ts" "elem_types ty k (length ts) = Some tys"
    by (cases rule: owned.cases) (auto simp: no_scalar)
  from r'(2) r(2) obtain q k' us G' tys' where ro: "get_heap_pos r' = Some q" "with_heap_pos r' 0 = Some k'" "live st q"
      "owned_all st (heap_regions st ! unat q) us G'" "u = Node k' us" "elem_types ty k' (length us) = Some tys'"
    by (cases rule: owned.cases) (auto simp: no_scalar)
  obtain mk where mk: "concatenate_operands l' r' = Some (p, q, mk)" "\<forall>h. get_heap_pos (mk h) = Some h"
      "\<forall>h. with_heap_pos (mk h) 0 = Some k" "k = k'"
    by (rule concatenate_kind [OF lo(1,2,6) ro(1,2,6) ty])
  obtain tgt st1 where alloc: "alloc_heap st = (tgt, st1)" by fastforce
  have "length (heap_regions st) < 2 ^ 32" using room lo(5) by simp
  note fresh = alloc_heap_fresh [OF wf this alloc]
  have src: "live st1 p" "live st1 q" "heap_regions st1 ! unat p = heap_regions st ! unat p" "heap_regions st1 ! unat q = heap_regions st ! unat q"
    using fresh(4) lo(3) ro(3) by (auto simp: extends_but_def)
  have reads: "maybe_read_ref st1 l = (Ok l' :: (Value, 'e) res)" "maybe_read_ref st1 r = (Ok r' :: (Value, 'e) res)"
    using read_extends [OF wf fresh(4)] l'(1) r'(1) by auto
  have room1: "length (heap_regions st1) + sum_list (map nodes ts) \<le> 2 ^ 32"
    using room fresh(6) lo(5) by simp
  have f: "fold max (map depth ts) 0 \<le> fuel" "fold max (map depth us) 0 \<le> fuel" using fuel lo(5) ro(5) by auto
  obtain cs st2 H where cs:
    "\<And>acc. clone_elements fuel p [0 ..< length (heap_regions st ! unat p)] acc st1 = (Ok (acc @ cs, st2) :: (Value list \<times> Store, 'e) res)"
    "extends st1 st2" "store_wf st2" "owned_all st2 cs ts H" "distinct H" "\<forall>q \<in> set H. \<not> live st1 q"
    "length (heap_regions st2) \<le> length (heap_regions st1) + sum_list (map nodes ts)"
    by (rule clone_elements_owned [where 'e = 'e, OF lo(4) fresh(4,5) room1 lo(3) drop_0 [symmetric] f(1)]) (rule that)
  have room2: "length (heap_regions st2) + sum_list (map nodes us) \<le> 2 ^ 32"
    using room fresh(6) cs(7) lo(5) ro(5) by simp
  obtain ds st3 I where ds:
    "\<And>acc. clone_elements fuel q [0 ..< length (heap_regions st ! unat q)] acc st2 = (Ok (acc @ ds, st3) :: (Value list \<times> Store, 'e) res)"
    "extends st2 st3" "store_wf st3" "owned_all st3 ds us I" "distinct I" "\<forall>q \<in> set I. \<not> live st2 q"
    by (rule clone_elements_owned [where 'e = 'e, OF ro(4) extends_trans [OF fresh(4) cs(2)] cs(3) room2 ro(3) drop_0 [symmetric] f(2)]) (rule that)
  let ?st4 = "set_region tgt (cs @ ds) st3"
  have tgt: "live st3 tgt" "tgt \<notin> set H" "tgt \<notin> set I" using fresh(2) cs(2,6) ds(2,6) by (auto simp: extends_but_def)
  have "owned_all st3 (cs @ ds) (ts @ us) (H @ I)"
    using owned_all_extends [OF cs(4) ds(2)] ds(4) by (simp add: owned_all_append)
  then have "owned_all ?st4 (cs @ ds) (ts @ us) (H @ I)"
    using extends_set_region [of tgt st3 "cs @ ds"] tgt(2,3) by (auto elim: owned_all_extends)
  then have own: "owned ?st4 (mk tgt) (Node k (ts @ us)) ((H @ I) @ [tgt])"
    by (intro owned_owned_all.node [OF mk(2,3) [rule_format]]) (use tgt(1) in \<open>simp_all add: set_region_nth\<close>)
  have "apply_concatenate fuel st l r = (Ok (mk tgt, ?st4) :: (Value \<times> Store, 'e) res)"
    using alloc reads mk(1) src cs(1) [of "[]"] ds(1) [of cs] tgt(1) by (simp add: apply_concatenate_def region_live)
  moreover have "extends st ?st4"
    by (rule extends_set_fresh [OF extends_trans [OF extends_trans [OF fresh(4) cs(2)] ds(2)] fresh(1)])
  moreover have "store_wf ?st4" using ds(3) tgt(1) by (rule store_wf_set_region)
  moreover have "\<forall>p \<in> set ((H @ I) @ [tgt]). \<not> live st p"
    using cs(2,6) ds(6) fresh(1,4) by (auto simp: extends_but_def)
  moreover have "distinct ((H @ I) @ [tgt])"
    using cs(5) ds(5,6) tgt(2,3) owned_all_live [OF cs(4)] by auto
  ultimately show ?thesis using own lo(5) ro(5) mk(4) by blast
qed

section \<open>Binary operators\<close>

text \<open>The type of the result when both operands have type \<open>ty\<close>.\<close>

definition binop_type :: "BinaryOperator \<Rightarrow> ValTy \<Rightarrow> ValTy option" where
  "binop_type op ty =
     (case op of
        BO_Concatenate \<Rightarrow> (case ty of TyMessage \<Rightarrow> Some ty | TyString \<Rightarrow> Some ty | TyArray _ \<Rightarrow> Some ty | _ \<Rightarrow> None)
      | BO_LogicalOr \<Rightarrow> if ty = TyBool then Some TyBool else None
      | BO_LogicalAnd \<Rightarrow> if ty = TyBool then Some TyBool else None
      | BO_Equality \<Rightarrow> Some TyBool
      | BO_Inequality \<Rightarrow> Some TyBool
      | _ \<Rightarrow> (case ty of
           TyInt _ \<Rightarrow> Some (if op \<in> {BO_LessThan, BO_GreaterThan, BO_LessThanEqual, BO_GreaterThanEqual} then TyBool else ty)
         | _ \<Rightarrow> None))"

text \<open>
  The arithmetic errors: a division by zero, a quotient that the type does not have, and, in
  a debug build, a result or an amount of bits outside of the range.
\<close>

definition arith_error :: "bool \<Rightarrow> BinaryOperator \<Rightarrow> IntType \<Rightarrow> int \<Rightarrow> int \<Rightarrow> bool" where
  "arith_error debug op ty a b \<longleftrightarrow>
     (case op of
        BO_Add \<Rightarrow> debug \<and> \<not> in_range ty (a + b)
      | BO_Subtract \<Rightarrow> debug \<and> \<not> in_range ty (a - b)
      | BO_Multiply \<Rightarrow> debug \<and> \<not> in_range ty (a * b)
      | BO_Divide \<Rightarrow> b = 0 \<or> int_signed ty \<and> a = - (2 ^ (int_bits ty - 1)) \<and> b = -1
      | BO_Remainder \<Rightarrow> b = 0 \<or> int_signed ty \<and> a = - (2 ^ (int_bits ty - 1)) \<and> b = -1
      | BO_ShiftLeft \<Rightarrow> debug \<and> \<not> (0 \<le> b \<and> b < int (int_bits ty))
      | BO_ShiftRight \<Rightarrow> debug \<and> \<not> (0 \<le> b \<and> b < int (int_bits ty))
      | _ \<Rightarrow> False)"

definition arith_panics :: "bool \<Rightarrow> BinaryOperator \<Rightarrow> vtree \<Rightarrow> vtree \<Rightarrow> bool" where
  "arith_panics debug op t u \<longleftrightarrow>
     (case (t, u) of
        (Leaf l, Leaf r) \<Rightarrow>
          (case (int_view l, int_view r) of (Some (ty, a), Some (_, b)) \<Rightarrow> arith_error debug op ty a b | _ \<Rightarrow> False)
      | _ \<Rightarrow> False)"

lemma arith_panics_other:
  "op \<in> {BO_Concatenate, BO_LogicalOr, BO_LogicalAnd, BO_Equality, BO_Inequality} \<Longrightarrow> \<not> arith_panics debug op t u"
  by (auto simp: arith_panics_def arith_error_def split: vtree.splits option.splits)

lemma arith_panics_int:
  "int_view l = Some (ty, a) \<Longrightarrow> int_view r = Some (ty', b) \<Longrightarrow>
     arith_panics debug op (Leaf l) (Leaf r) \<longleftrightarrow> arith_error debug op ty a b"
  by (simp add: arith_panics_def)

lemma in_range_sdiv:
  assumes "in_range ty a" "in_range ty b" "b \<noteq> 0"
  shows "in_range ty (a sdiv b) \<longleftrightarrow> \<not> (int_signed ty \<and> a = - (2 ^ (int_bits ty - 1)) \<and> b = -1)"
proof (cases "int_signed ty")
  case True
  let ?m = "2 ^ (int_bits ty - 1) :: int"
  have a: "- ?m \<le> a" "a < ?m" using assms(1) True by (simp_all add: in_range_def)
  have q: "- \<bar>a\<bar> \<le> a sdiv b" "a sdiv b \<le> \<bar>a\<bar>" using sdiv_int_range [of a b] by simp_all
  have "a = - ?m \<and> b = -1" if "a sdiv b = ?m"
  proof -
    have neg: "a = - ?m" "a \<noteq> 0" using that q a by (auto simp: abs_if split: if_splits)
    then have "a sdiv b = - a" using that by simp
    with int_sdiv_negated_is_minus1 [OF neg(2), of b] neg(1) show ?thesis by simp
  qed
  moreover have "in_range ty (a sdiv b) \<longleftrightarrow> a sdiv b \<noteq> ?m"
    using True a q by (auto simp: in_range_def abs_if split: if_splits)
  ultimately show ?thesis using True by auto
next
  case False
  then have "0 \<le> a" "0 \<le> b" "a < 2 ^ int_bits ty" using assms(1,2) by (simp_all add: in_range_def)
  moreover from this have "0 \<le> a sdiv b" "a sdiv b \<le> a"
    using sdiv_int_range [of a b] assms(3) by (simp_all add: signed_divide_int_def sgn_if pos_imp_zdiv_nonneg_iff)
  ultimately show ?thesis using False by (simp add: in_range_def)
qed

lemma scalar_type_make [simp]: "scalar_type (int_make ty i) = Some (TyInt ty)" "get_heap_pos (int_make ty i) = None" "int_make ty i \<noteq> VRef a"
  by (cases ty; simp)+

lemma scalar_type_int: "scalar_type v = Some (TyInt ty) \<Longrightarrow> \<exists>i. int_view v = Some (ty, i)"
  by (cases v) auto

lemma owned_scalar: "scalar_type v = Some ty \<Longrightarrow> owned st v (Leaf v) []"
  by (rule owned_owned_all.leaf) (cases v; simp)+

lemma owned_typed_scalar: "owned st v t F \<Longrightarrow> typed ty t \<Longrightarrow> \<forall>k n. elem_types ty k n = None \<Longrightarrow> t = Leaf v \<and> scalar_type v = Some ty"
  by (cases rule: owned.cases) auto

definition result_ok :: "bool \<Rightarrow> BinaryOperator \<Rightarrow> ValTy \<Rightarrow> Store \<Rightarrow> vtree \<Rightarrow> vtree \<Rightarrow> (Value \<times> Store, 'e) res \<Rightarrow> bool" where
  "result_ok debug op ty st t u r \<longleftrightarrow>
     (if arith_panics debug op t u then r = Panic
      else \<exists>v st' w H. r = Ok (v, st') \<and> store_wf st' \<and> extends st st' \<and> owned st' v w H \<and> typed ty w \<and>
        distinct H \<and> (\<forall>p \<in> set H. \<not> live st p) \<and>
        (op = BO_Concatenate \<longrightarrow> (\<exists>k ts us. t = Node k ts \<and> u = Node k us \<and> w = Node k (ts @ us))))"

lemma result_ok_scalar:
  "store_wf st \<Longrightarrow> scalar_type v = Some ty \<Longrightarrow> op \<noteq> BO_Concatenate \<Longrightarrow> \<not> arith_panics debug op t u \<Longrightarrow>
     result_ok debug op ty st t u (Ok (v, st))"
  unfolding result_ok_def using owned_scalar [of v ty st] by fastforce

lemma int_op_ok:
  assumes wf: "store_wf st" and l: "int_view l = Some (i, a)" and r: "int_view r = Some (i, b)"
    and ty: "binop_type op (TyInt i) = Some ty" and op: "op \<notin> {BO_Equality, BO_Inequality}"
  shows "result_ok debug op ty st (Leaf l) (Leaf r)
    (bind_res (apply_int_op (binary_int_op debug op) l r) (\<lambda>v. Ok (v, st)) :: (Value \<times> Store, 'e) res)"
proof -
  have ok: "result_ok debug op ty st (Leaf l) (Leaf r) (Ok (v, st) :: (Value \<times> Store, 'e) res)"
    if "scalar_type v = Some ty" "\<not> arith_error debug op i a b" for v
    using that ty by (intro result_ok_scalar [OF wf]) (auto simp: arith_panics_int [OF l r] binop_type_def)
  have panic: "result_ok debug op ty st (Leaf l) (Leaf r) (Panic :: (Value \<times> Store, 'e) res)" if "arith_error debug op i a b"
    using that by (simp add: result_ok_def arith_panics_int [OF l r])
  note range = int_view_in_range [OF l] int_view_in_range [OF r]
  show ?thesis
    using l r ty op ok panic in_range_sdiv [OF range]
    by (cases op) (auto simp: binop_type_def apply_int_op_def int_bool_def rust_arith_def rust_div_def rust_rem_def rust_shl_def
        rust_shr_def shift_amount_def arith_error_def)
qed

text \<open>
  C24: binary operators are type sound. On two values of one type for which the operator is
  defined, the operator panics exactly on an arithmetic error of these operands: a division
  by zero or with overflow, and, in a debug build, an overflow of the other operators.
  Otherwise the result has the result type, owns distinct regions that were not in use
  before, a concatenation lists the elements of both operands, and the values of the store
  are as before.
\<close>

theorem binary_operator_sound:
  assumes wf: "store_wf st" and l: "denotes st l t F" "typed ty t" and r: "denotes st r u G" "typed ty u"
    and op: "binop_type op ty = Some ty'" and room: "length (heap_regions st) + nodes t + nodes u \<le> 2 ^ 32"
    and fuel: "depth t \<le> fuel" "depth u \<le> fuel"
  shows "if arith_panics debug op t u
    then apply_binary_operator debug fuel st l op r = (Panic :: (Value \<times> Store, 'e) res)
    else \<exists>v st' w H. apply_binary_operator debug fuel st l op r = (Ok (v, st') :: (Value \<times> Store, 'e) res) \<and>
      store_wf st' \<and> extends st st' \<and> owned st' v w H \<and> typed ty' w \<and>
      distinct H \<and> (\<forall>p \<in> set H. \<not> live st p) \<and>
      (op = BO_Concatenate \<longrightarrow> (\<exists>k ts us. t = Node k ts \<and> u = Node k us \<and> w = Node k (ts @ us)))"
proof -
  obtain l' where l': "maybe_read_ref st l = (Ok l' :: (Value, 'e) res)" "owned st l' t F" using denotes_read [where 'e = 'e, OF l(1)] by blast
  obtain r' where r': "maybe_read_ref st r = (Ok r' :: (Value, 'e) res)" "owned st r' u G" using denotes_read [where 'e = 'e, OF r(1)] by blast
  note scalar = owned_typed_scalar [OF l'(2) l(2)] owned_typed_scalar [OF r'(2) r(2)]
  have "result_ok debug op ty' st t u (apply_binary_operator debug fuel st l op r :: (Value \<times> Store, 'e) res)"
  proof -
    consider "op = BO_Concatenate" | "op = BO_LogicalOr \<or> op = BO_LogicalAnd" | "op = BO_Equality \<or> op = BO_Inequality"
      | i where "ty = TyInt i" "op \<notin> {BO_Concatenate, BO_LogicalOr, BO_LogicalAnd, BO_Equality, BO_Inequality}"
      using op by (cases op; cases ty) (auto simp: binop_type_def)
    then show ?thesis
    proof cases
      case 1
      with op have ty: "ty = TyMessage \<or> ty = TyString \<or> (\<exists>e. ty = TyArray e)" "ty' = ty"
        by (auto simp: binop_type_def split: ValTy.splits)
      obtain v st' k ts us H where c: "apply_concatenate fuel st l r = (Ok (v, st') :: (Value \<times> Store, 'e) res)" "t = Node k ts" "u = Node k us"
          "store_wf st'" "extends st st'" "owned st' v (Node k (ts @ us)) H" "distinct H" "\<forall>p \<in> set H. \<not> live st p"
        using concatenate_owned [where 'e = 'e, OF wf l r ty(1) room fuel] by blast
      have "typed ty (Node k (ts @ us))" using elem_types_append [OF ty(1)] l(2) r(2) c(2,3) by simp
      with c(4-8) have "\<exists>v' st'' w H. (Ok (v, st') :: (Value \<times> Store, 'e) res) = Ok (v', st'') \<and> store_wf st'' \<and> extends st st'' \<and>
          owned st'' v' w H \<and> typed ty w \<and> distinct H \<and> (\<forall>p \<in> set H. \<not> live st p) \<and>
          (op = BO_Concatenate \<longrightarrow> (\<exists>k ts us. t = Node k ts \<and> u = Node k us \<and> w = Node k (ts @ us)))"
        using c(2,3) by blast
      with c(1) 1 ty(2) show ?thesis
        by (simp add: apply_binary_operator_def result_ok_def arith_panics_other)
    next
      case 2
      with op have ty: "ty = TyBool" "ty' = TyBool" by (auto simp: binop_type_def split: if_splits)
      with scalar obtain a b where "l' = VBool a" "r' = VBool b" by (auto dest!: scalar_typeD(3))
      with 2 l'(1) r'(1) ty(2) show ?thesis
        by (auto simp: apply_binary_operator_def arith_panics_other intro!: result_ok_scalar wf)
    next
      case 3
      then have ty: "ty' = TyBool" using op by (auto simp: binop_type_def)
      have "apply_equality_operator fuel st l' r' = (Ok (t = u) :: (bool, 'e) res)"
        by (rule equality_owned [OF l'(2) l(2) r'(2) r(2) fuel(1)])
      with 3 l'(1) r'(1) ty show ?thesis
        by (auto simp: apply_binary_operator_def inequality_not_equality arith_panics_other intro!: result_ok_scalar wf)
    next
      case 4
      with scalar obtain a b where "int_view l' = Some (i, a)" "int_view r' = Some (i, b)" "t = Leaf l'" "u = Leaf r'"
        by (auto dest!: scalar_type_int)
      with int_op_ok [where 'e = 'e, OF wf, of l' i a r' b op ty' debug] op 4 l'(1) r'(1) show ?thesis
        by (cases op) (simp_all add: apply_binary_operator_def)
    qed
  qed
  then show ?thesis by (simp add: result_ok_def)
qed

theorem binary_operator_sound_witness:
  "(\<exists>v st' H. apply_binary_operator True 3 sample_store (VRef (Stack 0)) BO_Concatenate (VString 1) = (Ok (v, st') :: (Value \<times> Store, unit) res) \<and>
     owned st' v (Node (VString 0) [Leaf (VChar 104), Leaf (VChar 105), Leaf (VChar 104), Leaf (VChar 105)]) H) \<and>
   apply_binary_operator False 1 sample_store (VSInt8 128) BO_Divide (VSInt8 255) = (Panic :: (Value \<times> Store, unit) res)"
proof
  show "\<exists>v st' H. apply_binary_operator True 3 sample_store (VRef (Stack 0)) BO_Concatenate (VString 1) = (Ok (v, st') :: (Value \<times> Store, unit) res) \<and>
     owned st' v (Node (VString 0) [Leaf (VChar 104), Leaf (VChar 105), Leaf (VChar 104), Leaf (VChar 105)]) H"
    using binary_operator_sound [where 'e = unit, OF sample_store_wf sample_ref sample_typed owned_denotes [OF sample_string] sample_typed, of BO_Concatenate TyString 3 True]
    by (auto simp: binop_type_def sample_store_def [THEN arg_cong [where f = heap_regions]] arith_panics_other)
  have d: "denotes sample_store (VSInt8 x) (Leaf (VSInt8 x)) []" for x
    by (rule owned_denotes) (simp add: owned_scalar)
  show "apply_binary_operator False 1 sample_store (VSInt8 128) BO_Divide (VSInt8 255) = (Panic :: (Value \<times> Store, unit) res)"
    using binary_operator_sound [where 'e = unit and op = BO_Divide and debug = False and fuel = 1 and ty = "TyInt ISInt8"
        and ty' = "TyInt ISInt8", OF sample_store_wf d [of 128] _ d [of 255]]
    by (simp add: binop_type_def sample_store_def [THEN arg_cong [where f = heap_regions]] arith_panics_def arith_error_def)
qed

section \<open>Arithmetic\<close>

text \<open>
  \<open>j\<close> is the result of the operator on \<open>a\<close> and \<open>b\<close>, as a value of the type: sums, differences
  and products are congruent to the exact ones, quotients are truncated and remainders have
  the sign of the dividend, amounts of bits are taken modulo the width of the type, a shift
  to the right rounds down, and the bitwise operators work on each bit.
\<close>

fun int_result :: "IntType \<Rightarrow> BinaryOperator \<Rightarrow> int \<Rightarrow> int \<Rightarrow> int \<Rightarrow> bool" where
  "int_result ty BO_Add a b j \<longleftrightarrow> j mod 2 ^ int_bits ty = (a + b) mod 2 ^ int_bits ty"
| "int_result ty BO_Subtract a b j \<longleftrightarrow> j mod 2 ^ int_bits ty = (a - b) mod 2 ^ int_bits ty"
| "int_result ty BO_Multiply a b j \<longleftrightarrow> j mod 2 ^ int_bits ty = (a * b) mod 2 ^ int_bits ty"
| "int_result ty BO_Divide a b j \<longleftrightarrow> (\<exists>m. a = j * b + m \<and> \<bar>m\<bar> < \<bar>b\<bar> \<and> 0 \<le> a * m)"
| "int_result ty BO_Remainder a b j \<longleftrightarrow> (\<exists>q. a = q * b + j \<and> \<bar>j\<bar> < \<bar>b\<bar> \<and> 0 \<le> a * j)"
| "int_result ty BO_ShiftLeft a b j \<longleftrightarrow>
     j mod 2 ^ int_bits ty = (a * 2 ^ nat (b mod int (int_bits ty))) mod 2 ^ int_bits ty"
| "int_result ty BO_ShiftRight a b j \<longleftrightarrow> j = a div 2 ^ nat (b mod int (int_bits ty))"
| "int_result ty BO_BitwiseAnd a b j \<longleftrightarrow> (\<forall>n < int_bits ty. bit j n = (bit a n \<and> bit b n))"
| "int_result ty BO_BitwiseOr a b j \<longleftrightarrow> (\<forall>n < int_bits ty. bit j n = (bit a n \<or> bit b n))"
| "int_result ty BO_BitwiseXor a b j \<longleftrightarrow> (\<forall>n < int_bits ty. bit j n = (bit a n \<noteq> bit b n))"
| "int_result ty _ a b j \<longleftrightarrow> False"

fun int_exact :: "BinaryOperator \<Rightarrow> int \<Rightarrow> int \<Rightarrow> int option" where
  "int_exact BO_Add a b = Some (a + b)"
| "int_exact BO_Subtract a b = Some (a - b)"
| "int_exact BO_Multiply a b = Some (a * b)"
| "int_exact _ a b = None"

lemma signed_take_bit_mod: "signed_take_bit n (i :: int) mod 2 ^ Suc n = i mod 2 ^ Suc n"
  by (simp only: flip: take_bit_eq_mod) (simp add: take_bit_signed_take_bit)

lemma int_view_wraps: "\<exists>j. int_view (int_make ty i) = Some (ty, j) \<and> j mod 2 ^ int_bits ty = i mod 2 ^ int_bits ty"
  by (cases ty) (simp_all add: unsigned_of_int signed_of_int take_bit_eq_mod
      signed_take_bit_mod [of 7, simplified] signed_take_bit_mod [of 15, simplified]
      signed_take_bit_mod [of 31, simplified] signed_take_bit_mod [of 63, simplified])

lemma int_view_no_ref: "int_view v = Some (ty, i) \<Longrightarrow> maybe_read_ref st v = Ok v"
  by (cases v) (auto simp: maybe_read_ref_def)

lemma mod_eq_bit:
  assumes "j mod 2 ^ w = i mod (2 :: int) ^ w" "n < w"
  shows "bit j n = bit i n"
proof -
  have "take_bit w j = take_bit w i" using assms(1) by (simp add: take_bit_eq_mod)
  then show ?thesis using assms(2) by (metis bit_take_bit_iff)
qed

lemma smod_truncates:
  assumes "(b :: int) \<noteq> 0"
  shows "a = (a sdiv b) * b + a smod b" "\<bar>a smod b\<bar> < \<bar>b\<bar>" "0 \<le> a * (a smod b)"
proof -
  show "a = (a sdiv b) * b + a smod b" by (simp add: sdiv_mult_smod_eq)
  show "\<bar>a smod b\<bar> < \<bar>b\<bar>" using smod_int_range [OF assms, of a] by auto
  have "a * (a smod b) = \<bar>a\<bar> * (\<bar>a\<bar> mod \<bar>b\<bar>)" by (simp add: smod_int_alt_def abs_sgn)
  then show "0 \<le> a * (a smod b)" using assms by simp
qed

lemma in_range_smod:
  assumes "in_range ty a" "b \<noteq> 0"
  shows "in_range ty (a smod b)"
proof -
  have m: "0 \<le> \<bar>a\<bar> mod \<bar>b\<bar>" "\<bar>a\<bar> mod \<bar>b\<bar> \<le> \<bar>a\<bar>" using assms(2) by (simp_all add: zmod_le_nonneg_dividend)
  have "a smod b = sgn a * (\<bar>a\<bar> mod \<bar>b\<bar>)" by (simp add: smod_int_alt_def)
  with m assms(1) show ?thesis by (auto simp: in_range_def sgn_if split: if_splits)
qed

lemma in_range_div:
  assumes "in_range ty a"
  shows "in_range ty (a div 2 ^ n)"
proof -
  have "a \<le> a div 2 ^ n" if "a < 0"
    using that div_int_pos_iff zdiv_mono2_neg [of a 1 "2 ^ n"] by simp
  moreover have "a div 2 ^ n \<le> a \<and> 0 \<le> a div 2 ^ n" if "0 \<le> a"
    using that zdiv_mono2 [of a 1 "2 ^ n"] by (simp add: pos_imp_zdiv_nonneg_iff)
  moreover have "a div 2 ^ n < 0" if "a < 0" using that by (simp add: neg_imp_zdiv_neg_iff pos_imp_zdiv_neg_iff)
  ultimately show ?thesis
    using assms by (cases "a < 0") (force simp: in_range_def split: if_splits)+
qed

lemma int_op_exact:
  assumes "in_range ty a" "in_range ty b" "\<not> arith_error debug op ty a b"
    and op: "op \<in> {BO_Add, BO_Subtract, BO_Multiply, BO_Divide, BO_Remainder, BO_ShiftLeft, BO_ShiftRight,
      BO_BitwiseAnd, BO_BitwiseOr, BO_BitwiseXor}"
  shows "\<exists>v j. binary_int_op debug op ty a b = (Ok v :: (Value, 'e) res) \<and> int_view v = Some (ty, j) \<and> int_result ty op a b j \<and>
    (\<forall>i. int_exact op a b = Some i \<longrightarrow> in_range ty i \<longrightarrow> j = i)"
proof -
  have make: "\<exists>j. int_view (int_make ty i) = Some (ty, j) \<and> j mod 2 ^ int_bits ty = i mod 2 ^ int_bits ty \<and> (in_range ty i \<longrightarrow> j = i)" for i
    using int_view_wraps [of ty i] int_view_make [of ty i] by auto
  have bits: "bit j n = bit i n" if "j mod 2 ^ int_bits ty = i mod (2 :: int) ^ int_bits ty" "n < int_bits ty" for i j n
    by (rule mod_eq_bit [OF that])
  have exact: "int_view (int_make ty i) = Some (ty, i)" if "in_range ty i" for i
    by (rule int_view_make [OF that])
  show ?thesis
  proof (cases "op \<in> {BO_Divide, BO_Remainder, BO_ShiftRight}")
    case True
    then show ?thesis
      using assms(3) in_range_sdiv [OF assms(1,2)] smod_truncates [of b a] exact [of "a sdiv b"] exact [OF in_range_smod [OF assms(1), of b]]
        exact [OF in_range_div [OF assms(1)]]
      by (auto simp: arith_error_def rust_div_def rust_rem_def rust_shr_def shift_amount_def drop_bit_eq_div)
  next
    case False
    with op consider "op = BO_Add \<or> op = BO_Subtract \<or> op = BO_Multiply" | "op = BO_ShiftLeft"
      | "op = BO_BitwiseAnd \<or> op = BO_BitwiseOr \<or> op = BO_BitwiseXor" by auto
    then show ?thesis
    proof cases
      case 1
      then show ?thesis
        using assms(3) make [of "a + b"] make [of "a - b"] make [of "a * b"] by (auto simp: arith_error_def rust_arith_def)
    next
      case 2
      then show ?thesis
        using assms(3) make [of "push_bit (nat (b mod int (int_bits ty))) a"]
        by (auto simp: arith_error_def rust_shl_def shift_amount_def push_bit_eq_mult)
    next
      case 3
      define i where "i = (if op = BO_BitwiseAnd then and a b else if op = BO_BitwiseOr then or a b else xor a b)"
      obtain j where j: "int_view (int_make ty i) = Some (ty, j)" "j mod 2 ^ int_bits ty = i mod 2 ^ int_bits ty"
        using make [of i] by blast
      have "int_result ty op a b j"
        using 3 bits [OF j(2)] by (auto simp: i_def bit_simps)
      moreover have "binary_int_op debug op ty a b = (Ok (int_make ty i) :: (Value, 'e) res)" "int_exact op a b = None"
        using 3 by (auto simp: i_def)
      ultimately show ?thesis using j(1) by auto
    qed
  qed
qed

text \<open>
  C29: the arithmetic, shift and bitwise operators on integers. They panic exactly on the
  arithmetic errors; these are, in both builds, a division by zero and the overflowing
  division of the least value by -1, and, in a debug build, sums, differences and products
  that the type does not have and amounts of bits that are not below its width. Otherwise the
  result is exact, or, for sums, differences, products and shifts to the left in a release
  build, the value of the type that is congruent to the exact one.
\<close>

theorem integer_operators:
  assumes "int_view l = Some (ty, a)" "int_view r = Some (ty, b)"
    and "op \<in> {BO_Add, BO_Subtract, BO_Multiply, BO_Divide, BO_Remainder, BO_ShiftLeft, BO_ShiftRight,
      BO_BitwiseAnd, BO_BitwiseOr, BO_BitwiseXor}"
  shows "if arith_error debug op ty a b
    then apply_binary_operator debug fuel st l op r = (Panic :: (Value \<times> Store, 'e) res)
    else \<exists>v j. apply_binary_operator debug fuel st l op r = (Ok (v, st) :: (Value \<times> Store, 'e) res) \<and>
      int_view v = Some (ty, j) \<and> in_range ty j \<and> int_result ty op a b j \<and>
      (\<forall>i. int_exact op a b = Some i \<longrightarrow> in_range ty i \<longrightarrow> j = i)"
proof (cases "arith_error debug op ty a b")
  case True
  have "binary_int_op debug op ty a b = (Panic :: (Value, 'e) res)"
    using True assms(3) in_range_sdiv [OF int_view_in_range [OF assms(1)] int_view_in_range [OF assms(2)]]
    by (cases op; cases "b = 0")
      (auto simp: arith_error_def rust_arith_def rust_div_def rust_rem_def rust_shl_def rust_shr_def shift_amount_def)
  then have "apply_binary_operator debug fuel st l op r = (Panic :: (Value \<times> Store, 'e) res)"
    using assms by (auto simp: apply_binary_operator_def apply_int_op_def int_view_no_ref)
  with True show ?thesis by simp
next
  case False
  from int_op_exact [OF int_view_in_range [OF assms(1)] int_view_in_range [OF assms(2)] this assms(3)]
  obtain v j where v: "binary_int_op debug op ty a b = (Ok v :: (Value, 'e) res)" "int_view v = Some (ty, j)"
    "int_result ty op a b j" "\<forall>i. int_exact op a b = Some i \<longrightarrow> in_range ty i \<longrightarrow> j = i" by blast
  then have "apply_binary_operator debug fuel st l op r = (Ok (v, st) :: (Value \<times> Store, 'e) res)"
    using assms by (auto simp: apply_binary_operator_def apply_int_op_def int_view_no_ref)
  then have "\<exists>v j. apply_binary_operator debug fuel st l op r = (Ok (v, st) :: (Value \<times> Store, 'e) res) \<and>
      int_view v = Some (ty, j) \<and> in_range ty j \<and> int_result ty op a b j \<and>
      (\<forall>i. int_exact op a b = Some i \<longrightarrow> in_range ty i \<longrightarrow> j = i)"
    using v(2-4) int_view_in_range [OF v(2)] by blast
  with False show ?thesis by (simp only: if_False)
qed

theorem integer_operators_witness:
  "(\<exists>v j. apply_binary_operator False 1 Store_new (VUInt8 200) BO_Add (VUInt8 100) = (Ok (v, Store_new) :: (Value \<times> Store, unit) res) \<and>
     int_view v = Some (IUInt8, j) \<and> j mod 256 = 44) \<and>
   apply_binary_operator False 1 Store_new (VSInt8 128) BO_Divide (VSInt8 255) = (Panic :: (Value \<times> Store, unit) res)"
proof
  show "\<exists>v j. apply_binary_operator False 1 Store_new (VUInt8 200) BO_Add (VUInt8 100) = (Ok (v, Store_new) :: (Value \<times> Store, unit) res) \<and>
     int_view v = Some (IUInt8, j) \<and> j mod 256 = 44"
    using integer_operators [where 'e = unit, of "VUInt8 200" IUInt8 200 "VUInt8 100" 100 BO_Add False 1 Store_new]
    by (auto simp: arith_error_def)
  show "apply_binary_operator False 1 Store_new (VSInt8 128) BO_Divide (VSInt8 255) = (Panic :: (Value \<times> Store, unit) res)"
    using integer_operators [where 'e = unit, of "VSInt8 128" ISInt8 "- 128" "VSInt8 255" "- 1" BO_Divide False 1 Store_new]
    by (simp add: arith_error_def)
qed

end
