(* ===== verification/Input_Source.thy ===== *)
theory Input_Source
  imports Action_Monad
begin

text \<open>
  Source files and parse errors (\<open>src/protocol/input_source.rs\<close>): positions, the cursor
  over the bytes of a file with its check of line ends, and the error statements with the
  line, the columns and the source lines that they show. The second half describes the
  cursor after \<open>k\<close> bytes as a function of the file (\<open>source_at\<close>) and shows that neither the
  cursor nor the construction of an error at one of its positions can panic, for files
  of less than \<open>2 ^ 32 - 2\<close> bytes.

  An offset of type \<open>usize\<close> into a \<open>Vec\<close> cannot overflow and is a natural number. The
  parameter \<open>debug\<close> says whether debug assertions and checks of \<open>u32\<close> arithmetic are on. The
  table of line offsets, which the source builds once behind a lock, is a function of the
  file. The context of an error is the list of its bytes; the source decodes it for display.
\<close>

section \<open>Bytes and numbers\<close>

abbreviation byte :: "char \<Rightarrow> u8" where
  "byte c \<equiv> of_char c"

abbreviation newline :: u8 where
  "newline \<equiv> 10"

abbreviation carriage_return :: u8 where
  "carriage_return \<equiv> 13"

definition is_ascii :: "u8 \<Rightarrow> bool" where
  "is_ascii c \<longleftrightarrow> c < 128"

definition check :: "bool \<Rightarrow> bool \<Rightarrow> (unit, 'e) res" where
  "check debug b = (if debug \<and> \<not> b then Panic else Ok ())"

definition u32_add :: "bool \<Rightarrow> u32 \<Rightarrow> u32 \<Rightarrow> (u32, 'e) res" where
  "u32_add debug a b = (if debug \<and> 2 ^ 32 \<le> unat a + unat b then Panic else Ok (a + b))"

lemma u32_add_code [code]:
  "u32_add debug a b = (if debug \<and> 2 ^ 32 \<le> uint a + uint b then Panic else Ok (a + b))"
proof -
  have "uint a + uint b = int (unat a + unat b)" by simp
  then have "2 ^ 32 \<le> uint a + uint b \<longleftrightarrow> int (2 ^ 32) \<le> int (unat a + unat b)" by (simp only: of_nat_power of_nat_numeral)
  then have "2 ^ 32 \<le> uint a + uint b \<longleftrightarrow> 2 ^ 32 \<le> unat a + unat b" by (simp only: of_nat_le_iff)
  then show ?thesis by (simp only: u32_add_def)
qed

text \<open>An offset below \<open>u32::max_value()\<close>.\<close>

definition below_u32_max :: "nat \<Rightarrow> bool" where
  "below_u32_max n \<longleftrightarrow> n < 2 ^ 32 - 1"

lemma below_u32_max_code [code]: "below_u32_max n \<longleftrightarrow> int n < 2 ^ 32 - 1"
  by (simp add: below_u32_max_def)

definition u32_sub :: "bool \<Rightarrow> u32 \<Rightarrow> u32 \<Rightarrow> (u32, 'e) res" where
  "u32_sub debug a b = (if debug \<and> a < b then Panic else Ok (a - b))"

definition slice :: "'a list \<Rightarrow> nat \<Rightarrow> nat \<Rightarrow> ('a list, 'e) res" where
  "slice xs i j = (if i \<le> j \<and> j \<le> length xs then Ok (take (j - i) (drop i xs)) else Panic)"

section \<open>Positions, errors and sources\<close>

record InputPosition =
  ip_line :: u32
  ip_offset :: u32

record InputSpan =
  span_begin :: InputPosition
  span_end :: InputPosition

definition with_offset :: "bool \<Rightarrow> InputPosition \<Rightarrow> u32 \<Rightarrow> (InputPosition, 'e) res" where
  "with_offset debug p n =
     bind_res (u32_add debug (ip_offset p) n) (\<lambda>offset. Ok \<lparr>ip_line = ip_line p, ip_offset = offset\<rparr>)"

definition from_positions :: "InputPosition \<Rightarrow> InputPosition \<Rightarrow> InputSpan" where
  "from_positions begin_pos end_pos = \<lparr>span_begin = begin_pos, span_end = end_pos\<rparr>"

datatype StatementKind = SK_Info | SK_Error

datatype ContextKind = SingleLine | MultiLine

record ErrorStatement =
  statement_kind :: StatementKind
  context_kind :: ContextKind
  start_line :: u32
  start_column :: u32
  end_line :: u32
  end_column :: u32
  es_filename :: string
  es_context :: "u8 list"
  es_message :: string

datatype ParseError = ParseError (pe_statements: "ErrorStatement list")

record InputSource =
  filename :: string
  input :: "u8 list"
  src_line :: u32
  src_offset :: nat
  had_error :: "ParseError option"

definition InputSource_new :: "string \<Rightarrow> u8 list \<Rightarrow> InputSource" where
  "InputSource_new name bytes = \<lparr>filename = name, input = bytes, src_line = 1, src_offset = 0, had_error = None\<rparr>"

definition source_pos :: "InputSource \<Rightarrow> InputPosition" where
  "source_pos s = \<lparr>ip_line = src_line s, ip_offset = of_nat (src_offset s)\<rparr>"

definition source_next :: "InputSource \<Rightarrow> u8 option" where
  "source_next s = (if src_offset s < length (input s) then Some (input s ! src_offset s) else None)"

definition source_lookahead :: "InputSource \<Rightarrow> nat \<Rightarrow> u8 option" where
  "source_lookahead s n =
     (let offset_pos = src_offset s + n in
      if offset_pos < length (input s) then Some (input s ! offset_pos) else None)"

definition section_at_pos :: "InputSource \<Rightarrow> InputPosition \<Rightarrow> InputPosition \<Rightarrow> (u8 list, 'e) res" where
  "section_at_pos s a b = slice (input s) (unat (ip_offset a)) (unat (ip_offset b))"

definition section_at_span :: "InputSource \<Rightarrow> InputSpan \<Rightarrow> (u8 list, 'e) res" where
  "section_at_span s sp = slice (input s) (unat (ip_offset (span_begin sp))) (unat (ip_offset (span_end sp)))"

section \<open>The lookup of lines\<close>

text \<open>The offsets after the newlines among the bytes from index \<open>i\<close> on.\<close>

fun newline_offsets :: "bool \<Rightarrow> nat \<Rightarrow> u8 list \<Rightarrow> (u32 list, 'e) res" where
  "newline_offsets debug i [] = Ok []"
| "newline_offsets debug i (c # cs) =
     (if c = newline then
        bind_res (u32_add debug (of_nat i) 1) (\<lambda>offset.
        bind_res (newline_offsets debug (Suc i) cs) (\<lambda>offsets. Ok (offset # offsets)))
      else newline_offsets debug (Suc i) cs)"

definition get_lookup :: "bool \<Rightarrow> InputSource \<Rightarrow> (u32 list, 'e) res" where
  "get_lookup debug s =
     bind_res (newline_offsets debug 0 (input s)) (\<lambda>offsets.
     bind_res (u32_add debug (of_nat (length (input s))) 1) (\<lambda>last_offset.
     Ok ([0, 0] @ offsets @ [last_offset])))"

definition lookup_line_start_offset :: "bool \<Rightarrow> InputSource \<Rightarrow> u32 \<Rightarrow> (u32, 'e) res" where
  "lookup_line_start_offset debug s line_number =
     bind_res (get_lookup debug s) (\<lambda>lookup. vec_get lookup (unat line_number))"

definition lookup_line_end_offset :: "bool \<Rightarrow> InputSource \<Rightarrow> u32 \<Rightarrow> (u32, 'e) res" where
  "lookup_line_end_offset debug s line_number =
     bind_res (get_lookup debug s) (\<lambda>lookup.
     bind_res (u32_add debug line_number 1) (\<lambda>next_line.
     bind_res (vec_get lookup (unat next_line)) (\<lambda>next_start.
     bind_res (u32_sub debug next_start 1) (\<lambda>offset.
     let offset_usize = unat offset in
     if 0 < offset_usize \<and> offset_usize < length (input s) \<and> input s ! offset_usize = newline \<and>
        input s ! (offset_usize - 1) = carriage_return
     then u32_sub debug offset 1 else Ok offset))))"

section \<open>Error statements\<close>

definition create_context :: "InputSource \<Rightarrow> nat \<Rightarrow> nat \<Rightarrow> (u8 list, 'e) res" where
  "create_context s i j = slice (input s) i j"

definition from_source_at_pos ::
    "bool \<Rightarrow> StatementKind \<Rightarrow> InputSource \<Rightarrow> InputPosition \<Rightarrow> string \<Rightarrow> (ErrorStatement, 'e) res" where
  "from_source_at_pos debug kind s position msg =
     bind_res (lookup_line_start_offset debug s (ip_line position)) (\<lambda>line_start.
     bind_res (lookup_line_end_offset debug s (ip_line position)) (\<lambda>line_end.
     bind_res (create_context s (unat line_start) (unat line_end)) (\<lambda>ctx.
     bind_res (check debug (line_start \<le> ip_offset position)) (\<lambda>_.
     bind_res (u32_sub debug (ip_offset position) line_start) (\<lambda>distance.
     bind_res (u32_add debug distance 1) (\<lambda>column.
     bind_res (u32_add debug column 1) (\<lambda>next_column.
     Ok \<lparr>statement_kind = kind, context_kind = SingleLine,
         start_line = ip_line position, start_column = column, end_line = ip_line position, end_column = next_column,
         es_filename = filename s, es_context = ctx, es_message = msg\<rparr>)))))))"

definition from_source_at_span ::
    "bool \<Rightarrow> StatementKind \<Rightarrow> InputSource \<Rightarrow> InputSpan \<Rightarrow> string \<Rightarrow> (ErrorStatement, 'e) res" where
  "from_source_at_span debug kind s sp msg =
     bind_res (check debug (ip_line (span_begin sp) \<le> ip_line (span_end sp))) (\<lambda>_.
     bind_res (check debug (ip_offset (span_begin sp) \<le> ip_offset (span_end sp))) (\<lambda>_.
     bind_res (lookup_line_start_offset debug s (ip_line (span_begin sp))) (\<lambda>first_line_start.
     bind_res (lookup_line_start_offset debug s (ip_line (span_end sp))) (\<lambda>last_line_start.
     bind_res (lookup_line_end_offset debug s (ip_line (span_end sp))) (\<lambda>last_line_end.
     bind_res (create_context s (unat first_line_start) (unat last_line_end)) (\<lambda>ctx.
     bind_res (check debug (first_line_start \<le> ip_offset (span_begin sp))) (\<lambda>_.
     bind_res (u32_sub debug (ip_offset (span_begin sp)) first_line_start) (\<lambda>start_distance.
     bind_res (u32_add debug start_distance 1) (\<lambda>first_column.
     bind_res (u32_sub debug (ip_offset (span_end sp)) last_line_start) (\<lambda>end_distance.
     bind_res (u32_add debug end_distance 1) (\<lambda>last_column.
     Ok \<lparr>statement_kind = kind,
         context_kind = (if ip_line (span_begin sp) = ip_line (span_end sp) then SingleLine else MultiLine),
         start_line = ip_line (span_begin sp), start_column = first_column,
         end_line = ip_line (span_end sp), end_column = last_column,
         es_filename = filename s, es_context = ctx, es_message = msg\<rparr>)))))))))))"

definition new_error_at_pos :: "bool \<Rightarrow> InputSource \<Rightarrow> InputPosition \<Rightarrow> string \<Rightarrow> (ParseError, 'e) res" where
  "new_error_at_pos debug s p msg =
     bind_res (from_source_at_pos debug SK_Error s p msg) (\<lambda>statement. Ok (ParseError [statement]))"

definition new_error_at_span :: "bool \<Rightarrow> InputSource \<Rightarrow> InputSpan \<Rightarrow> string \<Rightarrow> (ParseError, 'e) res" where
  "new_error_at_span debug s sp msg =
     bind_res (from_source_at_span debug SK_Error s sp msg) (\<lambda>statement. Ok (ParseError [statement]))"

definition with_at_span ::
    "bool \<Rightarrow> ParseError \<Rightarrow> StatementKind \<Rightarrow> InputSource \<Rightarrow> InputSpan \<Rightarrow> string \<Rightarrow> (ParseError, 'e) res" where
  "with_at_span debug e kind s sp msg =
     bind_res (from_source_at_span debug kind s sp msg) (\<lambda>statement. Ok (ParseError (pe_statements e @ [statement])))"

definition with_info_at_span :: "bool \<Rightarrow> ParseError \<Rightarrow> InputSource \<Rightarrow> InputSpan \<Rightarrow> string \<Rightarrow> (ParseError, 'e) res" where
  "with_info_at_span debug e s sp msg = with_at_span debug e SK_Info s sp msg"

text \<open>The code that fails with a new error at a position or at a span.\<close>

definition fail_at_pos :: "bool \<Rightarrow> InputSource \<Rightarrow> InputPosition \<Rightarrow> string \<Rightarrow> ('a, ParseError) res" where
  "fail_at_pos debug s p msg = bind_res (new_error_at_pos debug s p msg) Err"

definition fail_at_span :: "bool \<Rightarrow> InputSource \<Rightarrow> InputSpan \<Rightarrow> string \<Rightarrow> ('a, ParseError) res" where
  "fail_at_span debug s sp msg = bind_res (new_error_at_span debug s sp msg) Err"

section \<open>Consuming a byte\<close>

definition set_error :: "bool \<Rightarrow> string \<Rightarrow> (InputSource, unit, 'e) act" where
  "set_error debug msg =
     act_bind (act_get (\<lambda>s. s)) (\<lambda>s.
     if had_error s = None
     then act_bind (act_res (new_error_at_pos debug s (source_pos s) msg)) (\<lambda>e.
          act_modify (\<lambda>s. s\<lparr>had_error := Some e\<rparr>))
     else act_ret ())"

definition step_offset :: "(InputSource, unit, 'e) act" where
  "step_offset = act_modify (\<lambda>s. s\<lparr>src_offset := src_offset s + 1\<rparr>)"

definition source_consume :: "bool \<Rightarrow> (InputSource, unit, 'e) act" where
  "source_consume debug =
     act_bind (act_get (\<lambda>s. s)) (\<lambda>s.
     act_bind (case source_next s of
         None \<Rightarrow> act_ret ()
       | Some c \<Rightarrow>
           if c = carriage_return then
             (if source_lookahead s 1 = Some newline then step_offset
              else act_bind step_offset (\<lambda>_. set_error debug ''Encountered carriage-feed without a following newline''))
           else if c = newline then
             act_bind (act_res (u32_add debug (src_line s) 1)) (\<lambda>next_line.
             act_bind (act_modify (\<lambda>s. s\<lparr>src_line := next_line\<rparr>)) (\<lambda>_. step_offset))
           else step_offset) (\<lambda>_.
     act_bind (act_get src_offset) (\<lambda>offset. act_res (check debug (below_u32_max offset)))))"

section \<open>The cursor as a function of the file\<close>

text \<open>
  The line number, the position and the start and end of the line of the byte with index
  \<open>k\<close>, and the error that a check of line ends reports first among the first \<open>k\<close> bytes.
\<close>

definition small_input :: "u8 list \<Rightarrow> bool" where
  "small_input bytes \<longleftrightarrow> length bytes < 2 ^ 32 - 2"

definition newlines :: "u8 list \<Rightarrow> nat" where
  "newlines bytes = length (filter (\<lambda>c. c = newline) bytes)"

definition pos_at :: "u8 list \<Rightarrow> nat \<Rightarrow> InputPosition" where
  "pos_at bytes k = \<lparr>ip_line = of_nat (1 + newlines (take k bytes)), ip_offset = of_nat k\<rparr>"

primrec line_start_at :: "u8 list \<Rightarrow> nat \<Rightarrow> nat" where
  "line_start_at bytes 0 = 0"
| "line_start_at bytes (Suc k) = (if bytes ! k = newline then Suc k else line_start_at bytes k)"

definition line_end_at :: "u8 list \<Rightarrow> nat \<Rightarrow> nat" where
  "line_end_at bytes k = k + length (takeWhile (\<lambda>c. c \<noteq> newline) (drop k bytes))"

definition text_end_at :: "u8 list \<Rightarrow> nat \<Rightarrow> nat" where
  "text_end_at bytes k =
     (let j = line_end_at bytes k in
      if 0 < j \<and> j < length bytes \<and> bytes ! (j - 1) = carriage_return then j - 1 else j)"

definition line_text :: "u8 list \<Rightarrow> nat \<Rightarrow> nat \<Rightarrow> u8 list" where
  "line_text bytes i k = take (text_end_at bytes k - line_start_at bytes i) (drop (line_start_at bytes i) bytes)"

definition column_at :: "u8 list \<Rightarrow> nat \<Rightarrow> nat" where
  "column_at bytes k = k - line_start_at bytes k + 1"

definition error_at :: "string \<Rightarrow> u8 list \<Rightarrow> nat \<Rightarrow> string \<Rightarrow> ParseError" where
  "error_at name bytes k msg = ParseError
     [\<lparr>statement_kind = SK_Error, context_kind = SingleLine,
       start_line = ip_line (pos_at bytes k), start_column = of_nat (column_at bytes k),
       end_line = ip_line (pos_at bytes k), end_column = of_nat (column_at bytes k + 1),
       es_filename = name, es_context = line_text bytes k k, es_message = msg\<rparr>]"

definition bad_cr :: "u8 list \<Rightarrow> nat \<Rightarrow> bool" where
  "bad_cr bytes k \<longleftrightarrow> bytes ! k = carriage_return \<and> \<not> (Suc k < length bytes \<and> bytes ! Suc k = newline)"

primrec cr_error :: "string \<Rightarrow> u8 list \<Rightarrow> nat \<Rightarrow> ParseError option" where
  "cr_error name bytes 0 = None"
| "cr_error name bytes (Suc k) = (case cr_error name bytes k of
      Some e \<Rightarrow> Some e
    | None \<Rightarrow> if bad_cr bytes k
        then Some (error_at name bytes (Suc k) ''Encountered carriage-feed without a following newline'') else None)"

definition source_at :: "string \<Rightarrow> u8 list \<Rightarrow> nat \<Rightarrow> InputSource" where
  "source_at name bytes k =
     \<lparr>filename = name, input = bytes, src_line = of_nat (1 + newlines (take k bytes)), src_offset = k,
      had_error = cr_error name bytes k\<rparr>"

lemma source_at_simps [simp]:
  "filename (source_at name bytes k) = name" "input (source_at name bytes k) = bytes"
  "src_offset (source_at name bytes k) = k" "had_error (source_at name bytes k) = cr_error name bytes k"
  "source_pos (source_at name bytes k) = pos_at bytes k"
  "source_next (source_at name bytes k) = (if k < length bytes then Some (bytes ! k) else None)"
  "source_lookahead (source_at name bytes k) n = (if k + n < length bytes then Some (bytes ! (k + n)) else None)"
  by (simp_all add: source_at_def source_pos_def source_next_def source_lookahead_def pos_at_def)

lemma InputSource_new_at: "InputSource_new name bytes = source_at name bytes 0"
  by (simp add: InputSource_new_def source_at_def newlines_def)

lemma newlines_take_Suc:
  "k < length bytes \<Longrightarrow> newlines (take (Suc k) bytes) = newlines (take k bytes) + (if bytes ! k = newline then 1 else 0)"
  by (simp add: newlines_def take_Suc_conv_app_nth)

lemma newlines_le: "newlines (take k bytes) \<le> k"
  unfolding newlines_def by (rule order_trans [OF length_filter_le]) simp

lemma unat_pos_at:
  assumes "k < 2 ^ 32 - 1"
  shows "unat (ip_offset (pos_at bytes k)) = k" "unat (ip_line (pos_at bytes k)) = 1 + newlines (take k bytes)"
  using assms newlines_le [of k bytes] by (simp_all add: pos_at_def unat_of_nat_u32 flip: of_nat_Suc)

lemma u32_add_of_nat:
  "a + b < 2 ^ 32 \<Longrightarrow> u32_add debug (of_nat a) (of_nat b) = Ok (of_nat (a + b))"
  by (simp add: u32_add_def unat_of_nat_u32)

lemma u32_add_of_nat_1:
  "Suc a < 2 ^ 32 \<Longrightarrow> u32_add debug (of_nat a) 1 = Ok (of_nat (Suc a))"
  using u32_add_of_nat [of a 1 debug] by (simp add: add.commute)

lemma u32_sub_of_nat:
  "b \<le> a \<Longrightarrow> a < 2 ^ 32 \<Longrightarrow> u32_sub debug (of_nat a) (of_nat b) = Ok (of_nat (a - b))"
  by (simp add: u32_sub_def word_less_nat_alt unat_of_nat_u32 of_nat_diff)

lemma u32_le_of_nat: "a < 2 ^ 32 \<Longrightarrow> b < 2 ^ 32 \<Longrightarrow> (of_nat a :: u32) \<le> of_nat b \<longleftrightarrow> a \<le> b"
  by (simp add: word_le_nat_alt unat_of_nat_u32)

subsection \<open>The table of lines\<close>

fun line_starts :: "nat \<Rightarrow> u8 list \<Rightarrow> nat list" where
  "line_starts i [] = []"
| "line_starts i (c # cs) = (if c = newline then Suc i # line_starts (Suc i) cs else line_starts (Suc i) cs)"

lemma newline_offsets_eq:
  "i + length cs < 2 ^ 32 \<Longrightarrow> newline_offsets debug i cs = Ok (map of_nat (line_starts i cs))"
  by (induction i cs rule: line_starts.induct) (simp_all add: u32_add_of_nat_1 del: of_nat_Suc)

lemma line_starts_append: "line_starts i (xs @ ys) = line_starts i xs @ line_starts (i + length xs) ys"
  by (induction i xs rule: line_starts.induct) simp_all

lemma length_line_starts: "length (line_starts i cs) = newlines cs"
  by (induction i cs rule: line_starts.induct) (simp_all add: newlines_def)

lemma hd_line_starts:
  "(line_starts i cs @ [i + length cs + 1]) ! 0 = i + length (takeWhile (\<lambda>c. c \<noteq> newline) cs) + 1"
proof (induction i cs rule: line_starts.induct)
  case (2 i c cs)
  then show ?case by (cases "c = newline") simp_all
qed simp

lemma last_line_starts:
  "k \<le> length bytes \<Longrightarrow> last (0 # line_starts 0 (take k bytes)) = line_start_at bytes k"
proof (induction k)
  case (Suc k)
  then show ?case
    by (auto simp: take_Suc_conv_app_nth line_starts_append)
qed simp

lemma get_lookup_eq:
  assumes "small_input (input s)"
  shows "get_lookup debug s = Ok (map of_nat (0 # 0 # line_starts 0 (input s) @ [length (input s) + 1]))"
  using assms by (simp add: get_lookup_def small_input_def newline_offsets_eq u32_add_of_nat_1 del: of_nat_Suc)

lemma lookup_at:
  assumes k: "k \<le> length bytes"
  defines "n \<equiv> newlines (take k bytes)"
    and "lookup \<equiv> 0 # 0 # line_starts 0 bytes @ [length bytes + 1]"
  shows "lookup ! (1 + n) = line_start_at bytes k" "lookup ! (2 + n) = line_end_at bytes k + 1" "2 + n < length lookup"
proof -
  let ?xs = "line_starts 0 (take k bytes)" and ?ys = "line_starts k (drop k bytes)"
  have split: "line_starts 0 bytes = ?xs @ ?ys"
    using line_starts_append [of 0 "take k bytes" "drop k bytes"] k by simp
  have n: "length ?xs = n" by (simp add: length_line_starts n_def)
  have "lookup ! (1 + n) = (0 # ?xs) ! n"
    using n by (simp add: lookup_def split nth_append nth_Cons')
  also have "\<dots> = line_start_at bytes k"
    using n last_line_starts [OF k] last_conv_nth [of "0 # ?xs"] by simp
  finally show "lookup ! (1 + n) = line_start_at bytes k" .
  have "lookup ! (2 + n) = (?ys @ [length bytes + 1]) ! 0"
    using n by (simp add: lookup_def split nth_append)
  then show "lookup ! (2 + n) = line_end_at bytes k + 1"
    using hd_line_starts [of k "drop k bytes"] k by (simp add: line_end_at_def)
  show "2 + n < length lookup"
    using n by (simp add: lookup_def split)
qed

lemma line_start_le: "line_start_at bytes k \<le> k"
  by (induction k) auto

lemma line_start_cases: "line_start_at bytes k = 0 \<or> bytes ! (line_start_at bytes k - 1) = newline"
  by (induction k) auto

lemma no_newline_between: "line_start_at bytes k \<le> i \<Longrightarrow> i < k \<Longrightarrow> bytes ! i \<noteq> newline"
  by (induction k) (auto split: if_splits simp: less_Suc_eq)

lemma line_start_at_eqI:
  "j \<le> k \<Longrightarrow> \<forall>i. j \<le> i \<and> i < k \<longrightarrow> bytes ! i \<noteq> newline \<Longrightarrow> line_start_at bytes k = line_start_at bytes j"
  by (induction k) (auto simp: le_Suc_eq)

lemma line_end_bounds: "k \<le> length bytes \<Longrightarrow> k \<le> line_end_at bytes k \<and> line_end_at bytes k \<le> length bytes"
  using length_takeWhile_le [of "\<lambda>c. c \<noteq> newline" "drop k bytes"] by (simp add: line_end_at_def)

lemma line_end_newline:
  "k \<le> length bytes \<Longrightarrow> line_end_at bytes k < length bytes \<Longrightarrow> bytes ! line_end_at bytes k = newline"
  using nth_length_takeWhile [of "\<lambda>c. c \<noteq> newline" "drop k bytes"]
  by (auto simp: line_end_at_def)

lemma line_start_text_end:
  assumes "k \<le> length bytes" "i \<le> k"
  shows "line_start_at bytes i \<le> text_end_at bytes k" "text_end_at bytes k \<le> length bytes"
proof -
  have b: "line_start_at bytes i \<le> i" "k \<le> line_end_at bytes k" "line_end_at bytes k \<le> length bytes"
    using line_start_le line_end_bounds [OF assms(1)] by auto
  show "text_end_at bytes k \<le> length bytes"
    using b by (auto simp: text_end_at_def Let_def)
  show "line_start_at bytes i \<le> text_end_at bytes k"
  proof (cases "line_start_at bytes i = line_end_at bytes k")
    case True
    then show ?thesis
      using line_start_cases [of bytes i] by (auto simp: text_end_at_def Let_def)
  next
    case False
    then show ?thesis using b assms(2) by (auto simp: text_end_at_def Let_def)
  qed
qed

subsection \<open>Errors at positions of the file\<close>

lemma lookup_line_start_at:
  assumes "small_input (input s)" "k \<le> length (input s)"
  shows "lookup_line_start_offset debug s (ip_line (pos_at (input s) k)) = Ok (of_nat (line_start_at (input s) k))"
proof -
  let ?n = "newlines (take k (input s))" and ?lookup = "0 # 0 # line_starts 0 (input s) @ [length (input s) + 1]"
  have k: "k < 2 ^ 32 - 1" using assms by (simp add: small_input_def)
  have "1 + ?n < length ?lookup" "?lookup ! (1 + ?n) = line_start_at (input s) k"
    using lookup_at [OF assms(2)] by simp_all
  then have "vec_get (map of_nat ?lookup) (1 + ?n) = Ok (of_nat (line_start_at (input s) k) :: u32)"
    unfolding vec_get_def by (simp only: length_map nth_map if_True)
  then show ?thesis
    unfolding lookup_line_start_offset_def get_lookup_eq [OF assms(1)] by (simp only: bind_res.simps unat_pos_at [OF k])
qed

lemma lookup_line_end_at:
  assumes "small_input (input s)" "k \<le> length (input s)"
  shows "lookup_line_end_offset debug s (ip_line (pos_at (input s) k)) = Ok (of_nat (text_end_at (input s) k))"
proof -
  let ?n = "newlines (take k (input s))" and ?lookup = "0 # 0 # line_starts 0 (input s) @ [length (input s) + 1]"
    and ?j = "line_end_at (input s) k"
  have len: "length (input s) < 2 ^ 32 - 2" using assms by (simp add: small_input_def)
  have k: "k < 2 ^ 32 - 2" using len assms by simp
  have j: "?j < 2 ^ 32 - 2" using line_end_bounds [OF assms(2)] len by simp
  have "2 + ?n < length ?lookup" "?lookup ! (2 + ?n) = ?j + 1"
    using lookup_at [OF assms(2)] by simp_all
  then have get: "vec_get (map of_nat ?lookup) (2 + ?n) = Ok (of_nat (?j + 1) :: u32)"
    unfolding vec_get_def by (simp only: length_map nth_map if_True)
  have Suc: "Suc (1 + ?n) < 2 ^ 32" using newlines_le [of k "input s"] k by simp
  have line: "u32_add debug (ip_line (pos_at (input s) k)) 1 = Ok (of_nat (2 + ?n))"
    unfolding pos_at_def InputPosition.simps
    using u32_add_of_nat_1 [OF Suc] by (simp del: of_nat_Suc of_nat_add)
  have n2: "unat (of_nat (2 + ?n) :: u32) = 2 + ?n"
    using newlines_le [of k "input s"] k by (intro unat_of_nat_u32) simp
  have sub: "u32_sub debug (of_nat (?j + 1)) 1 = Ok (of_nat ?j)"
    using u32_sub_of_nat [of 1 "?j + 1" debug] j by simp
  have uj: "unat (of_nat ?j :: u32) = ?j"
    using j by (intro unat_of_nat_u32) simp
  have sub2: "0 < ?j \<Longrightarrow> u32_sub debug (of_nat ?j) 1 = Ok (of_nat (?j - 1))"
    using u32_sub_of_nat [of 1 ?j debug] j by simp
  have nl: "?j < length (input s) \<Longrightarrow> input s ! ?j = newline"
    using line_end_newline [OF assms(2)] .
  show ?thesis
    unfolding lookup_line_end_offset_def get_lookup_eq [OF assms(1)] bind_res.simps line n2 get sub Let_def uj
    using nl by (simp add: text_end_at_def Let_def sub2 [simplified])
qed

lemma context_between:
  assumes "small_input (input s)" "k \<le> length (input s)" "i \<le> k"
  shows "create_context s (unat (of_nat (line_start_at (input s) i) :: u32)) (unat (of_nat (text_end_at (input s) k) :: u32))
    = Ok (line_text (input s) i k)"
  using line_start_text_end [OF assms(2,3)] assms(1)
  by (simp add: create_context_def slice_def line_text_def unat_of_nat_u32 small_input_def)

lemma column_steps:
  assumes "k < 2 ^ 32 - 2"
  shows "u32_sub debug (of_nat k) (of_nat (line_start_at bytes k)) = Ok (of_nat (k - line_start_at bytes k))"
    "u32_add debug (of_nat (k - line_start_at bytes k)) 1 = Ok (of_nat (column_at bytes k))"
    "u32_add debug (of_nat (column_at bytes k)) 1 = Ok (of_nat (column_at bytes k + 1))"
    "(of_nat (line_start_at bytes k) :: u32) \<le> of_nat k"
proof -
  have b: "line_start_at bytes k \<le> k" by (rule line_start_le)
  show "u32_sub debug (of_nat k) (of_nat (line_start_at bytes k)) = Ok (of_nat (k - line_start_at bytes k))"
    using b assms by (intro u32_sub_of_nat) simp_all
  show "u32_add debug (of_nat (k - line_start_at bytes k)) 1 = Ok (of_nat (column_at bytes k))"
    unfolding column_at_def Suc_eq_plus1 [symmetric] using assms by (intro u32_add_of_nat_1) simp
  show "u32_add debug (of_nat (column_at bytes k)) 1 = Ok (of_nat (column_at bytes k + 1))"
    unfolding Suc_eq_plus1 [symmetric] using assms b by (intro u32_add_of_nat_1) (simp add: column_at_def)
  show "(of_nat (line_start_at bytes k) :: u32) \<le> of_nat k"
    using b assms by (subst u32_le_of_nat) simp_all
qed

lemma from_source_at_pos_eq:
  assumes small: "small_input (input s)" and k: "k \<le> length (input s)"
  shows "from_source_at_pos debug kind s (pos_at (input s) k) msg = Ok
    \<lparr>statement_kind = kind, context_kind = SingleLine,
     start_line = ip_line (pos_at (input s) k), start_column = of_nat (column_at (input s) k),
     end_line = ip_line (pos_at (input s) k), end_column = of_nat (column_at (input s) k + 1),
     es_filename = filename s, es_context = line_text (input s) k k, es_message = msg\<rparr>"
proof -
  let ?a = "line_start_at (input s) k"
  have b: "?a \<le> k" "k < 2 ^ 32 - 2" using line_start_le k small by (auto simp: small_input_def)
  have off: "ip_offset (pos_at (input s) k) = of_nat k" by (simp add: pos_at_def)
  show ?thesis
    unfolding from_source_at_pos_def lookup_line_start_at [OF assms] lookup_line_end_at [OF assms] bind_res.simps
      context_between [OF assms order_refl] off column_steps [OF b(2)]
    using column_steps(4) [OF b(2)] by (simp add: check_def)
qed

lemma from_source_at_span_eq:
  assumes small: "small_input (input s)" and k: "k \<le> length (input s)" and i: "i \<le> k"
  shows "from_source_at_span debug kind s (from_positions (pos_at (input s) i) (pos_at (input s) k)) msg = Ok
    \<lparr>statement_kind = kind,
     context_kind = (if newlines (take i (input s)) = newlines (take k (input s)) then SingleLine else MultiLine),
     start_line = ip_line (pos_at (input s) i), start_column = of_nat (column_at (input s) i),
     end_line = ip_line (pos_at (input s) k), end_column = of_nat (column_at (input s) k),
     es_filename = filename s, es_context = line_text (input s) i k, es_message = msg\<rparr>"
proof -
  let ?a = "line_start_at (input s) i" and ?b = "line_start_at (input s) k"
  have i': "i \<le> length (input s)" using i k by simp
  have b: "?a \<le> i" "?b \<le> k" "k < 2 ^ 32 - 2" "i < 2 ^ 32 - 2"
    using line_start_le k small i by (auto simp: small_input_def intro: le_less_trans)
  have off: "ip_offset (pos_at (input s) k) = of_nat k" "ip_offset (pos_at (input s) i) = of_nat i"
    by (simp_all add: pos_at_def)
  have nl: "newlines (take i (input s)) \<le> newlines (take k (input s))"
    using i min_absorb1 [OF i] append_take_drop_id [of i "take k (input s)"]
    unfolding newlines_def by (metis filter_append le_add1 length_append take_take)
  have lines: "ip_line (pos_at (input s) i) \<le> ip_line (pos_at (input s) k)"
    "ip_line (pos_at (input s) i) = ip_line (pos_at (input s) k) \<longleftrightarrow> newlines (take i (input s)) = newlines (take k (input s))"
    using nl unat_pos_at(2) [of k "input s"] unat_pos_at(2) [of i "input s"] b by (auto simp: word_le_nat_alt word_unat_eq_iff)
  have le: "(of_nat i :: u32) \<le> of_nat k"
    using b i by (simp add: u32_le_of_nat)
  show ?thesis
    unfolding from_source_at_span_def from_positions_def InputSpan.simps lookup_line_start_at [OF small k]
      lookup_line_start_at [OF small i'] lookup_line_end_at [OF small k] bind_res.simps
      context_between [OF small k i] off column_steps [OF b(3)] column_steps [OF b(4)]
    using le lines column_steps(4) [OF b(4)] by (simp add: check_def)
qed

lemma new_error_at_eq:
  assumes "small_input (input s)" "k \<le> length (input s)"
  shows "new_error_at_pos debug s (pos_at (input s) k) msg = Ok (error_at (filename s) (input s) k msg)"
  by (simp add: new_error_at_pos_def from_source_at_pos_eq [OF assms] error_at_def)

lemma fail_at_pos_eq:
  assumes "small_input (input s)" "k \<le> length (input s)"
  shows "fail_at_pos debug s (pos_at (input s) k) msg = Err (error_at (filename s) (input s) k msg)"
  by (simp add: fail_at_pos_def new_error_at_eq [OF assms])

lemma fail_at_span_Err:
  assumes "small_input (input s)" "k \<le> length (input s)" "i \<le> k"
  shows "\<exists>e. fail_at_span debug s (from_positions (pos_at (input s) i) (pos_at (input s) k)) msg = Err e"
  by (simp add: fail_at_span_def new_error_at_span_def from_source_at_span_eq [OF assms])

subsection \<open>The cursor never panics\<close>

lemma source_consume_at:
  assumes small: "small_input bytes" and k: "k < length bytes"
  shows "source_consume debug (source_at name bytes k) = (Ok (), source_at name bytes (Suc k))"
proof -
  have b: "Suc k < 2 ^ 32 - 2" "k < 2 ^ 32 - 2" using small k by (simp_all add: small_input_def)
  have line: "u32_add debug (of_nat (Suc (newlines (take k bytes)))) 1 = Ok (of_nat (Suc (Suc (newlines (take k bytes)))))"
    using newlines_le [of k bytes] b by (intro u32_add_of_nat_1) simp
  let ?s = "\<lparr>filename = name, input = bytes, src_line = 1 + of_nat (newlines (take k bytes)), src_offset = Suc k,
    had_error = None\<rparr>"
  have err: "new_error_at_pos debug ?s (source_pos ?s) msg = Ok (error_at name bytes (Suc k) msg)"
    if "bytes ! k \<noteq> newline" for msg
  proof -
    have "source_pos ?s = pos_at bytes (Suc k)"
      using that k by (simp add: source_pos_def pos_at_def newlines_take_Suc)
    then show ?thesis
      using new_error_at_eq [of ?s "Suc k"] small k by simp
  qed
  show ?thesis
  proof (cases "bytes ! k = carriage_return")
    case True
    then have "bytes ! k \<noteq> newline" by simp
    then show ?thesis
      using True b k
      by (auto simp: below_u32_max_def err source_consume_def act_bind_def act_defs set_error_def step_offset_def check_def source_at_def
          newlines_take_Suc bad_cr_def source_next_def source_lookahead_def split: option.splits)
  next
    case False
    then show ?thesis
      using b k
      by (auto simp: below_u32_max_def line [simplified] source_consume_def act_bind_def act_defs step_offset_def check_def source_at_def
          newlines_take_Suc bad_cr_def source_next_def split: option.splits)
  qed
qed

lemma source_consume_end:
  assumes "small_input bytes"
  shows "source_consume debug (source_at name bytes (length bytes)) = (Ok (), source_at name bytes (length bytes))"
  using assms
  by (simp add: source_consume_def act_bind_def act_defs check_def small_input_def below_u32_max_def)

section \<open>What an error shows\<close>

lemma newlines_line_start:
  assumes "k \<le> length bytes"
  shows "newlines (take (line_start_at bytes k) bytes) = newlines (take k bytes)"
proof -
  let ?a = "line_start_at bytes k"
  have "take k bytes = take ?a bytes @ take (k - ?a) (drop ?a bytes)"
    using line_start_le [of bytes k] by (metis le_add_diff_inverse take_add)
  moreover have "newlines (take (k - ?a) (drop ?a bytes)) = 0"
    using no_newline_between [of bytes k] assms line_start_le [of bytes k]
    by (auto simp: newlines_def filter_empty_conv in_set_conv_nth)
  ultimately show ?thesis
    by (simp add: newlines_def)
qed

lemma newline_not_in_line_text:
  assumes "k \<le> length bytes"
  shows "newline \<notin> set (line_text bytes k k)"
proof
  assume "newline \<in> set (line_text bytes k k)"
  then obtain n where n: "n < text_end_at bytes k - line_start_at bytes k" "bytes ! (line_start_at bytes k + n) = newline"
    using line_start_text_end [OF assms order_refl]
    by (auto simp: line_text_def in_set_conv_nth)
  let ?i = "line_start_at bytes k + n"
  have "?i < line_end_at bytes k"
    using n(1) by (auto simp: text_end_at_def Let_def split: if_splits)
  moreover have "k \<le> ?i"
    using no_newline_between [of bytes k ?i] n(2) by (metis le_add1 not_less)
  ultimately have "?i - k < length (takeWhile (\<lambda>c. c \<noteq> newline) (drop k bytes))"
    by (simp add: line_end_at_def)
  from set_takeWhileD [OF nth_mem [OF this]] takeWhile_nth [OF this]
  have "drop k bytes ! (?i - k) \<noteq> newline" by simp
  then show False
    using n(2) \<open>k \<le> ?i\<close> assms by simp
qed

lemma after_line_text:
  assumes "k \<le> length bytes"
  defines "post \<equiv> drop (text_end_at bytes k) bytes"
  shows "post = [] \<or>
    (\<exists>rest. post = newline # rest \<and> (line_text bytes k k = [] \<or> last (line_text bytes k k) \<noteq> carriage_return)) \<or>
    (\<exists>rest. post = carriage_return # newline # rest)"
proof -
  let ?j = "line_end_at bytes k"
  have j: "?j \<le> length bytes" using line_end_bounds [OF assms(1)] by simp
  show ?thesis
  proof (cases "?j < length bytes")
    case True
    note nl = line_end_newline [OF assms(1) True]
    show ?thesis
    proof (cases "0 < ?j \<and> bytes ! (?j - 1) = carriage_return")
      case cr: True
      then have "post = bytes ! (?j - 1) # bytes ! ?j # drop (Suc ?j) bytes"
        using True Cons_nth_drop_Suc [of "?j - 1" bytes] Cons_nth_drop_Suc [of ?j bytes]
        by (simp add: post_def text_end_at_def)
      with cr nl show ?thesis by simp
    next
      case False
      then have "post = bytes ! ?j # drop (Suc ?j) bytes" and stop: "text_end_at bytes k = ?j"
        using True by (auto simp: post_def text_end_at_def Cons_nth_drop_Suc)
      moreover have "last (line_text bytes k k) \<noteq> carriage_return" if ne: "line_text bytes k k \<noteq> []"
      proof -
        let ?i = "line_start_at bytes k"
        have "?i < ?j" using ne stop by (simp add: line_text_def)
        moreover from this have "last (line_text bytes k k) = bytes ! (?j - 1)"
          using stop j True by (subst last_conv_nth [OF ne]) (simp add: line_text_def)
        ultimately show ?thesis using False by simp
      qed
      ultimately show ?thesis using nl by auto
    qed
  qed (use j in \<open>simp add: post_def text_end_at_def\<close>)
qed

text \<open>
  C37: an error at a position of a file shows the line of that position, for files of less
  than \<open>2 ^ 32 - 2\<close> bytes, whose offsets fit into their type. The context of the statement is a
  complete line of the file without its line end: what follows it is the end of the file, a
  carriage return and newline, or a newline, and in the last case the context does not end
  in a carriage return. The line number counts the line ends before it, and the column is the
  distance of the position from its start. The statement is built without a panic in both
  builds.
\<close>

theorem error_shows_line:
  assumes "small_input (input s)" "k \<le> length (input s)"
  shows "\<exists>stmt pre post. (from_source_at_pos debug kind s (pos_at (input s) k) msg :: (ErrorStatement, 'e) res) = Ok stmt \<and>
    input s = pre @ es_context stmt @ post \<and> newline \<notin> set (es_context stmt) \<and>
    (pre = [] \<or> last pre = newline) \<and>
    (post = [] \<or> (\<exists>rest. post = carriage_return # newline # rest) \<or>
       (\<exists>rest. post = newline # rest) \<and> (es_context stmt = [] \<or> last (es_context stmt) \<noteq> carriage_return)) \<and>
    unat (start_line stmt) = 1 + newlines pre \<and> newlines pre = newlines (take k (input s)) \<and>
    length pre \<le> k \<and> unat (start_column stmt) = k - length pre + 1 \<and>
    end_line stmt = start_line stmt \<and> end_column stmt = start_column stmt + 1 \<and>
    statement_kind stmt = kind \<and> es_filename stmt = filename s \<and> es_message stmt = msg"
proof -
  let ?b = "input s"
  let ?i = "line_start_at ?b k" and ?j = "text_end_at ?b k"
  let ?pre = "take ?i ?b" and ?post = "drop ?j ?b"
  have b: "?i \<le> k" "?i \<le> ?j" "?j \<le> length ?b" "k < 2 ^ 32 - 2"
    using line_start_le line_start_text_end [OF assms(2) order_refl] assms by (auto simp: small_input_def)
  have pre: "?pre = [] \<or> last ?pre = newline"
    using line_start_cases [of ?b k] b assms(2) take_Suc_conv_app_nth [of "?i - 1" ?b] by (cases ?i) auto
  have split: "?b = ?pre @ line_text ?b k k @ ?post"
    using b append_take_drop_id [of ?i ?b] append_take_drop_id [of "?j - ?i" "drop ?i ?b"]
    by (simp add: line_text_def)
  have "unat (of_nat (column_at ?b k) :: u32) = k - length ?pre + 1"
    using b assms(2) by (subst unat_of_nat_u32) (simp_all add: column_at_def min_absorb2)
  moreover have "unat (ip_line (pos_at ?b k)) = 1 + newlines ?pre"
    using unat_pos_at(2) [of k ?b] b newlines_line_start [OF assms(2)] by simp
  moreover have "length ?pre \<le> k" using b by simp
  moreover have "?post = [] \<or> (\<exists>rest. ?post = carriage_return # newline # rest) \<or>
      (\<exists>rest. ?post = newline # rest) \<and> (line_text ?b k k = [] \<or> last (line_text ?b k k) \<noteq> carriage_return)"
    using after_line_text [OF assms(2)] by blast
  ultimately show ?thesis
    unfolding from_source_at_pos_eq [OF assms]
    using split pre newline_not_in_line_text [OF assms(2)] newlines_line_start [OF assms(2)]
    by (intro exI [of _ ?post] exI [of _ ?pre] exI conjI) (rule refl | simp)+
qed

theorem error_shows_line_witness:
  "\<exists>stmt pre post. (from_source_at_pos True SK_Error (InputSource_new ''m'' [97, 10, 98, 99, 13, 10])
       (pos_at [97, 10, 98, 99, 13, 10] 3) ''msg'' :: (ErrorStatement, unit) res) = Ok stmt \<and>
    [97, 10, 98, 99, 13, 10] = pre @ es_context stmt @ post \<and> newlines pre = 1"
  using error_shows_line [of "InputSource_new ''m'' [97, 10, 98, 99, 13, 10]" 3 True SK_Error "''msg''"]
  by (auto simp: InputSource_new_def small_input_def newlines_def)

end
