(* ===== verification/Tokens.thy ===== *)
theory Tokens
  imports Input_Source
begin

text \<open>
  Tokens (\<open>src/protocol/parser/tokens.rs\<close>): their kinds in the order of the source, which
  separates the kinds of variable length, and those of one, two and three characters; the
  buffer of tokens with its tree of ranges; and the iterator with which the parser walks
  over a range. A token of variable length is followed by a \<open>SpanEnd\<close>.
\<close>

section \<open>Kinds of tokens\<close>

datatype TokenKind =
    TK_Ident | TK_Pragma | TK_Integer | TK_String | TK_Character | TK_LineComment | TK_BlockComment |
    TK_Exclamation | TK_Question | TK_Pound | TK_OpenAngle | TK_OpenCurly | TK_OpenParen | TK_OpenSquare |
    TK_CloseAngle | TK_CloseCurly | TK_CloseParen | TK_CloseSquare | TK_Colon | TK_Comma | TK_Dot |
    TK_SemiColon | TK_At | TK_Plus | TK_Minus | TK_Star | TK_Slash | TK_Percent | TK_Caret | TK_And | TK_Or |
    TK_Tilde | TK_Equal | TK_ColonColon | TK_DotDot | TK_ArrowRight | TK_AtEquals | TK_PlusPlus |
    TK_PlusEquals | TK_MinusMinus | TK_MinusEquals | TK_StarEquals | TK_SlashEquals | TK_PercentEquals |
    TK_CaretEquals | TK_AndAnd | TK_AndEquals | TK_OrOr | TK_OrEquals | TK_EqualEqual | TK_NotEqual |
    TK_ShiftLeft | TK_LessEquals | TK_ShiftRight | TK_GreaterEquals | TK_ShiftLeftEquals |
    TK_ShiftRightEquals | TK_SpanEnd

text \<open>The derived order is the order of the constructors.\<close>

primrec kind_index :: "TokenKind \<Rightarrow> nat" where
  "kind_index TK_Ident = 0"
| "kind_index TK_Pragma = 1"
| "kind_index TK_Integer = 2"
| "kind_index TK_String = 3"
| "kind_index TK_Character = 4"
| "kind_index TK_LineComment = 5"
| "kind_index TK_BlockComment = 6"
| "kind_index TK_Exclamation = 7"
| "kind_index TK_Question = 8"
| "kind_index TK_Pound = 9"
| "kind_index TK_OpenAngle = 10"
| "kind_index TK_OpenCurly = 11"
| "kind_index TK_OpenParen = 12"
| "kind_index TK_OpenSquare = 13"
| "kind_index TK_CloseAngle = 14"
| "kind_index TK_CloseCurly = 15"
| "kind_index TK_CloseParen = 16"
| "kind_index TK_CloseSquare = 17"
| "kind_index TK_Colon = 18"
| "kind_index TK_Comma = 19"
| "kind_index TK_Dot = 20"
| "kind_index TK_SemiColon = 21"
| "kind_index TK_At = 22"
| "kind_index TK_Plus = 23"
| "kind_index TK_Minus = 24"
| "kind_index TK_Star = 25"
| "kind_index TK_Slash = 26"
| "kind_index TK_Percent = 27"
| "kind_index TK_Caret = 28"
| "kind_index TK_And = 29"
| "kind_index TK_Or = 30"
| "kind_index TK_Tilde = 31"
| "kind_index TK_Equal = 32"
| "kind_index TK_ColonColon = 33"
| "kind_index TK_DotDot = 34"
| "kind_index TK_ArrowRight = 35"
| "kind_index TK_AtEquals = 36"
| "kind_index TK_PlusPlus = 37"
| "kind_index TK_PlusEquals = 38"
| "kind_index TK_MinusMinus = 39"
| "kind_index TK_MinusEquals = 40"
| "kind_index TK_StarEquals = 41"
| "kind_index TK_SlashEquals = 42"
| "kind_index TK_PercentEquals = 43"
| "kind_index TK_CaretEquals = 44"
| "kind_index TK_AndAnd = 45"
| "kind_index TK_AndEquals = 46"
| "kind_index TK_OrOr = 47"
| "kind_index TK_OrEquals = 48"
| "kind_index TK_EqualEqual = 49"
| "kind_index TK_NotEqual = 50"
| "kind_index TK_ShiftLeft = 51"
| "kind_index TK_LessEquals = 52"
| "kind_index TK_ShiftRight = 53"
| "kind_index TK_GreaterEquals = 54"
| "kind_index TK_ShiftLeftEquals = 55"
| "kind_index TK_ShiftRightEquals = 56"
| "kind_index TK_SpanEnd = 57"

lemma kind_index_eq_iff [simp]: "kind_index k = kind_index k' \<longleftrightarrow> k = k'"
proof
  have "inj kind_index"
  proof (rule inj_on_inverseI)
    fix k :: TokenKind
    show "(\<lambda>i. [TK_Ident, TK_Pragma, TK_Integer, TK_String, TK_Character, TK_LineComment, TK_BlockComment,
      TK_Exclamation, TK_Question, TK_Pound, TK_OpenAngle, TK_OpenCurly, TK_OpenParen, TK_OpenSquare,
      TK_CloseAngle, TK_CloseCurly, TK_CloseParen, TK_CloseSquare, TK_Colon, TK_Comma, TK_Dot, TK_SemiColon,
      TK_At, TK_Plus, TK_Minus, TK_Star, TK_Slash, TK_Percent, TK_Caret, TK_And, TK_Or, TK_Tilde, TK_Equal,
      TK_ColonColon, TK_DotDot, TK_ArrowRight, TK_AtEquals, TK_PlusPlus, TK_PlusEquals, TK_MinusMinus,
      TK_MinusEquals, TK_StarEquals, TK_SlashEquals, TK_PercentEquals, TK_CaretEquals, TK_AndAnd,
      TK_AndEquals, TK_OrOr, TK_OrEquals, TK_EqualEqual, TK_NotEqual, TK_ShiftLeft, TK_LessEquals,
      TK_ShiftRight, TK_GreaterEquals, TK_ShiftLeftEquals, TK_ShiftRightEquals, TK_SpanEnd] ! i) (kind_index k) = k" by (cases k) simp_all
  qed
  then show "kind_index k = kind_index k' \<Longrightarrow> k = k'" by (simp add: inj_eq)
qed simp

instantiation TokenKind :: linorder
begin

definition less_eq_TokenKind :: "TokenKind \<Rightarrow> TokenKind \<Rightarrow> bool" where
  "less_eq_TokenKind k k' \<longleftrightarrow> kind_index k \<le> kind_index k'"

definition less_TokenKind :: "TokenKind \<Rightarrow> TokenKind \<Rightarrow> bool" where
  "less_TokenKind k k' \<longleftrightarrow> kind_index k < kind_index k'"

instance
  by standard (auto simp: less_eq_TokenKind_def less_TokenKind_def)

end

definition has_span_end :: "TokenKind \<Rightarrow> bool" where
  "has_span_end k \<longleftrightarrow> k \<le> TK_BlockComment"

definition num_characters :: "bool \<Rightarrow> TokenKind \<Rightarrow> (u32, 'e) res" where
  "num_characters debug k =
     bind_res (check debug (\<not> has_span_end k \<and> k \<noteq> TK_SpanEnd)) (\<lambda>_.
     Ok (if k \<le> TK_Equal then 1 else if k \<le> TK_GreaterEquals then 2 else 3))"

text \<open>The tokens of variable length have no characters (\<open>unreachable!\<close>).\<close>

primrec token_chars :: "TokenKind \<Rightarrow> (string, 'e) res" where
  "token_chars TK_Ident = Panic"
| "token_chars TK_Pragma = Panic"
| "token_chars TK_Integer = Panic"
| "token_chars TK_String = Panic"
| "token_chars TK_Character = Panic"
| "token_chars TK_LineComment = Panic"
| "token_chars TK_BlockComment = Panic"
| "token_chars TK_Exclamation = Ok ''!''"
| "token_chars TK_Question = Ok ''?''"
| "token_chars TK_Pound = Ok ''#''"
| "token_chars TK_OpenAngle = Ok ''<''"
| "token_chars TK_OpenCurly = Ok ''{''"
| "token_chars TK_OpenParen = Ok ''(''"
| "token_chars TK_OpenSquare = Ok ''[''"
| "token_chars TK_CloseAngle = Ok ''>''"
| "token_chars TK_CloseCurly = Ok ''}''"
| "token_chars TK_CloseParen = Ok '')''"
| "token_chars TK_CloseSquare = Ok '']''"
| "token_chars TK_Colon = Ok '':''"
| "token_chars TK_Comma = Ok '',''"
| "token_chars TK_Dot = Ok ''.''"
| "token_chars TK_SemiColon = Ok '';''"
| "token_chars TK_At = Ok ''@''"
| "token_chars TK_Plus = Ok ''+''"
| "token_chars TK_Minus = Ok ''-''"
| "token_chars TK_Star = Ok ''*''"
| "token_chars TK_Slash = Ok ''/''"
| "token_chars TK_Percent = Ok ''%''"
| "token_chars TK_Caret = Ok ''^''"
| "token_chars TK_And = Ok ''&''"
| "token_chars TK_Or = Ok ''|''"
| "token_chars TK_Tilde = Ok ''~''"
| "token_chars TK_Equal = Ok ''=''"
| "token_chars TK_ColonColon = Ok ''::''"
| "token_chars TK_DotDot = Ok ''..''"
| "token_chars TK_ArrowRight = Ok ''->''"
| "token_chars TK_AtEquals = Ok ''@=''"
| "token_chars TK_PlusPlus = Ok ''++''"
| "token_chars TK_PlusEquals = Ok ''+=''"
| "token_chars TK_MinusMinus = Ok ''--''"
| "token_chars TK_MinusEquals = Ok ''-=''"
| "token_chars TK_StarEquals = Ok ''*=''"
| "token_chars TK_SlashEquals = Ok ''/=''"
| "token_chars TK_PercentEquals = Ok ''%=''"
| "token_chars TK_CaretEquals = Ok ''^=''"
| "token_chars TK_AndAnd = Ok ''&&''"
| "token_chars TK_AndEquals = Ok ''&=''"
| "token_chars TK_OrOr = Ok ''||''"
| "token_chars TK_OrEquals = Ok ''|=''"
| "token_chars TK_EqualEqual = Ok ''==''"
| "token_chars TK_NotEqual = Ok ''!=''"
| "token_chars TK_ShiftLeft = Ok ''<<''"
| "token_chars TK_LessEquals = Ok ''<=''"
| "token_chars TK_ShiftRight = Ok ''>>''"
| "token_chars TK_GreaterEquals = Ok ''>=''"
| "token_chars TK_ShiftLeftEquals = Ok ''<<=''"
| "token_chars TK_ShiftRightEquals = Ok ''>>=''"
| "token_chars TK_SpanEnd = Panic"

section \<open>Tokens, ranges and the buffer\<close>

record Token =
  tok_kind :: TokenKind
  tok_pos :: InputPosition

definition Token_new :: "TokenKind \<Rightarrow> InputPosition \<Rightarrow> Token" where
  "Token_new kind p = \<lparr>tok_kind = kind, tok_pos = p\<rparr>"

datatype TokenRangeKind = RK_Module | RK_Pragma | RK_Import | RK_Definition | RK_Code

text \<open>The indices of related ranges have type \<open>i32\<close>, with \<open>-1\<close> for no relation.\<close>

definition NO_RELATION :: int where
  "NO_RELATION = - 1"

record TokenRange =
  parent_idx :: int
  range_kind :: TokenRangeKind
  curly_depth :: u32
  range_start :: u32
  range_end :: u32
  num_child_ranges :: u32
  first_child_idx :: int
  last_child_idx :: int
  next_sibling_idx :: int

record TokenBuffer =
  tokens :: "Token list"
  ranges :: "TokenRange list"

definition TokenBuffer_new :: TokenBuffer where
  "TokenBuffer_new = \<lparr>tokens = [], ranges = []\<rparr>"

definition buffer_start_pos :: "TokenBuffer \<Rightarrow> TokenRange \<Rightarrow> (InputPosition, 'e) res" where
  "buffer_start_pos b r = bind_res (vec_get (tokens b) (unat (range_start r))) (\<lambda>t. Ok (tok_pos t))"

text \<open>The end of a token: the position of its \<open>SpanEnd\<close>, or its position plus its length.\<close>

definition end_of_last :: "bool \<Rightarrow> Token \<Rightarrow> (InputPosition, 'e) res" where
  "end_of_last debug t =
     (if tok_kind t = TK_SpanEnd then Ok (tok_pos t)
      else bind_res (num_characters debug (tok_kind t)) (\<lambda>n. with_offset debug (tok_pos t) n))"

text \<open>The subtraction happens at type \<open>usize\<close>: without checks it wraps and the index is out of range.\<close>

definition buffer_end_pos :: "bool \<Rightarrow> TokenBuffer \<Rightarrow> TokenRange \<Rightarrow> (InputPosition, 'e) res" where
  "buffer_end_pos debug b r =
     (if range_end r = 0 then Panic else
      bind_res (vec_get (tokens b) (unat (range_end r) - 1)) (\<lambda>last_token.
      bind_res (check debug (tok_kind last_token = TK_SpanEnd \<or> \<not> has_span_end (tok_kind last_token))) (\<lambda>_.
      end_of_last debug last_token)))"

section \<open>The iterator\<close>

record TokenIter =
  iter_tokens :: "Token list"
  iter_cur :: nat
  iter_end :: nat

definition TokenIter_new :: "TokenBuffer \<Rightarrow> nat \<Rightarrow> nat \<Rightarrow> TokenIter" where
  "TokenIter_new b i j = \<lparr>iter_tokens = tokens b, iter_cur = i, iter_end = j\<rparr>"

definition iter_range :: "TokenBuffer \<Rightarrow> TokenRange \<Rightarrow> TokenIter" where
  "iter_range b r = TokenIter_new b (unat (range_start r)) (unat (range_end r))"

definition next_including_comments :: "TokenIter \<Rightarrow> (TokenKind option, 'e) res" where
  "next_including_comments it =
     (if iter_end it \<le> iter_cur it then Ok None
      else bind_res (vec_get (iter_tokens it) (iter_cur it)) (\<lambda>t. Ok (Some (tok_kind t))))"

definition iter_consume :: "(TokenIter, unit, 'e) act" where
  "iter_consume =
     act_bind (act_get (\<lambda>it. it)) (\<lambda>it.
     act_bind (act_res (next_including_comments it)) (\<lambda>kind. case kind of
         None \<Rightarrow> act_ret ()
       | Some k \<Rightarrow> act_modify (\<lambda>it. it\<lparr>iter_cur := iter_cur it + (if has_span_end k then 2 else 1)\<rparr>)))"

definition is_comment :: "TokenKind \<Rightarrow> bool" where
  "is_comment k \<longleftrightarrow> k = TK_LineComment \<or> k = TK_BlockComment"

function iter_next :: "(TokenIter, TokenKind option, 'e) act" where
  "iter_next it = (case next_including_comments it of
      Ok (Some k) \<Rightarrow>
        if \<not> is_comment k then (Ok (Some k), it)
        else (case iter_consume it of
            (Ok _, it') \<Rightarrow> iter_next it'
          | (Err e, it') \<Rightarrow> (Err e, it')
          | (Panic, it') \<Rightarrow> (Panic, it')
          | (OutOfFuel, it') \<Rightarrow> (OutOfFuel, it'))
    | Ok None \<Rightarrow> (Ok None, it)
    | Err e \<Rightarrow> (Err e, it)
    | Panic \<Rightarrow> (Panic, it)
    | OutOfFuel \<Rightarrow> (OutOfFuel, it))"
  by pat_completeness auto
termination
  by (relation "measure (\<lambda>it. iter_end it - iter_cur it)")
    (auto simp: next_including_comments_def iter_consume_def act_bind_def act_defs vec_get_def split: if_splits)

declare iter_next.simps [simp del]

fun peek_from :: "Token list \<Rightarrow> nat list \<Rightarrow> (TokenKind option, 'e) res" where
  "peek_from ts [] = Ok None"
| "peek_from ts (i # is) = bind_res (vec_get ts i) (\<lambda>t.
     if \<not> is_comment (tok_kind t) \<and> tok_kind t \<noteq> TK_SpanEnd then Ok (Some (tok_kind t)) else peek_from ts is)"

definition iter_peek :: "TokenIter \<Rightarrow> (TokenKind option, 'e) res" where
  "iter_peek it = peek_from (iter_tokens it) [iter_cur it + 1 ..< iter_end it]"

definition last_valid_pos :: "bool \<Rightarrow> TokenIter \<Rightarrow> (InputPosition, 'e) res" where
  "last_valid_pos debug it =
     (if iter_cur it < iter_end it then bind_res (vec_get (iter_tokens it) (iter_cur it)) (\<lambda>t. Ok (tok_pos t))
      else if iter_cur it = 0 then Panic
      else bind_res (vec_get (iter_tokens it) (iter_cur it - 1)) (end_of_last debug))"

definition next_positions :: "bool \<Rightarrow> TokenIter \<Rightarrow> (InputPosition \<times> InputPosition, 'e) res" where
  "next_positions debug it =
     bind_res (check debug (iter_cur it < iter_end it)) (\<lambda>_.
     bind_res (vec_get (iter_tokens it) (iter_cur it)) (\<lambda>t.
     if has_span_end (tok_kind t) then
       bind_res (vec_get (iter_tokens it) (iter_cur it + 1)) (\<lambda>span_end.
       bind_res (check debug (tok_kind span_end = TK_SpanEnd)) (\<lambda>_.
       Ok (tok_pos t, tok_pos span_end)))
     else
       bind_res (num_characters debug (tok_kind t)) (\<lambda>offset.
       bind_res (with_offset debug (tok_pos t) offset) (\<lambda>end_pos.
       Ok (tok_pos t, end_pos)))))"

definition next_span :: "bool \<Rightarrow> TokenIter \<Rightarrow> (InputSpan, 'e) res" where
  "next_span debug it = bind_res (next_positions debug it) (\<lambda>(begin_pos, end_pos). Ok (from_positions begin_pos end_pos))"

definition iter_save :: "TokenIter \<Rightarrow> nat \<times> nat" where
  "iter_save it = (iter_cur it, iter_end it)"

definition iter_load :: "nat \<times> nat \<Rightarrow> TokenIter \<Rightarrow> TokenIter" where
  "iter_load saved it = it\<lparr>iter_cur := fst saved, iter_end := snd saved\<rparr>"

end
