(* ===== verification/Keywords.thy ===== *)
theory Keywords
  imports Input_Source
begin

text \<open>
  The reserved words of the language (\<open>src/protocol/parser/token_parsing.rs\<close>).
\<close>

abbreviation bytes_of :: "string \<Rightarrow> u8 list" where
  "bytes_of \<equiv> map of_char"

text \<open>A text in single quotes, as messages show it.\<close>

definition quoted :: "string \<Rightarrow> string" where
  "quoted s = CHR 0x27 # s @ [CHR 0x27]"

definition KW_LET :: "u8 list" where
  "KW_LET = bytes_of ''let''"

definition KW_AS :: "u8 list" where
  "KW_AS = bytes_of ''as''"

definition KW_STRUCT :: "u8 list" where
  "KW_STRUCT = bytes_of ''struct''"

definition KW_ENUM :: "u8 list" where
  "KW_ENUM = bytes_of ''enum''"

definition KW_UNION :: "u8 list" where
  "KW_UNION = bytes_of ''union''"

definition KW_FUNCTION :: "u8 list" where
  "KW_FUNCTION = bytes_of ''func''"

definition KW_PRIMITIVE :: "u8 list" where
  "KW_PRIMITIVE = bytes_of ''primitive''"

definition KW_COMPOSITE :: "u8 list" where
  "KW_COMPOSITE = bytes_of ''composite''"

definition KW_IMPORT :: "u8 list" where
  "KW_IMPORT = bytes_of ''import''"

definition KW_LIT_TRUE :: "u8 list" where
  "KW_LIT_TRUE = bytes_of ''true''"

definition KW_LIT_FALSE :: "u8 list" where
  "KW_LIT_FALSE = bytes_of ''false''"

definition KW_LIT_NULL :: "u8 list" where
  "KW_LIT_NULL = bytes_of ''null''"

definition KW_CAST :: "u8 list" where
  "KW_CAST = bytes_of ''cast''"

definition KW_FUNC_GET :: "u8 list" where
  "KW_FUNC_GET = bytes_of ''get''"

definition KW_FUNC_PUT :: "u8 list" where
  "KW_FUNC_PUT = bytes_of ''put''"

definition KW_FUNC_FIRES :: "u8 list" where
  "KW_FUNC_FIRES = bytes_of ''fires''"

definition KW_FUNC_CREATE :: "u8 list" where
  "KW_FUNC_CREATE = bytes_of ''create''"

definition KW_FUNC_LENGTH :: "u8 list" where
  "KW_FUNC_LENGTH = bytes_of ''length''"

definition KW_FUNC_ASSERT :: "u8 list" where
  "KW_FUNC_ASSERT = bytes_of ''assert''"

definition KW_STMT_CHANNEL :: "u8 list" where
  "KW_STMT_CHANNEL = bytes_of ''channel''"

definition KW_STMT_IF :: "u8 list" where
  "KW_STMT_IF = bytes_of ''if''"

definition KW_STMT_ELSE :: "u8 list" where
  "KW_STMT_ELSE = bytes_of ''else''"

definition KW_STMT_WHILE :: "u8 list" where
  "KW_STMT_WHILE = bytes_of ''while''"

definition KW_STMT_BREAK :: "u8 list" where
  "KW_STMT_BREAK = bytes_of ''break''"

definition KW_STMT_CONTINUE :: "u8 list" where
  "KW_STMT_CONTINUE = bytes_of ''continue''"

definition KW_STMT_GOTO :: "u8 list" where
  "KW_STMT_GOTO = bytes_of ''goto''"

definition KW_STMT_RETURN :: "u8 list" where
  "KW_STMT_RETURN = bytes_of ''return''"

definition KW_STMT_SYNC :: "u8 list" where
  "KW_STMT_SYNC = bytes_of ''synchronous''"

definition KW_STMT_NEW :: "u8 list" where
  "KW_STMT_NEW = bytes_of ''new''"

definition KW_TYPE_IN_PORT :: "u8 list" where
  "KW_TYPE_IN_PORT = bytes_of ''in''"

definition KW_TYPE_OUT_PORT :: "u8 list" where
  "KW_TYPE_OUT_PORT = bytes_of ''out''"

definition KW_TYPE_MESSAGE :: "u8 list" where
  "KW_TYPE_MESSAGE = bytes_of ''msg''"

definition KW_TYPE_BOOL :: "u8 list" where
  "KW_TYPE_BOOL = bytes_of ''bool''"

definition KW_TYPE_UINT8 :: "u8 list" where
  "KW_TYPE_UINT8 = bytes_of ''u8''"

definition KW_TYPE_UINT16 :: "u8 list" where
  "KW_TYPE_UINT16 = bytes_of ''u16''"

definition KW_TYPE_UINT32 :: "u8 list" where
  "KW_TYPE_UINT32 = bytes_of ''u32''"

definition KW_TYPE_UINT64 :: "u8 list" where
  "KW_TYPE_UINT64 = bytes_of ''u64''"

definition KW_TYPE_SINT8 :: "u8 list" where
  "KW_TYPE_SINT8 = bytes_of ''s8''"

definition KW_TYPE_SINT16 :: "u8 list" where
  "KW_TYPE_SINT16 = bytes_of ''s16''"

definition KW_TYPE_SINT32 :: "u8 list" where
  "KW_TYPE_SINT32 = bytes_of ''s32''"

definition KW_TYPE_SINT64 :: "u8 list" where
  "KW_TYPE_SINT64 = bytes_of ''s64''"

definition KW_TYPE_CHAR :: "u8 list" where
  "KW_TYPE_CHAR = bytes_of ''char''"

definition KW_TYPE_STRING :: "u8 list" where
  "KW_TYPE_STRING = bytes_of ''string''"

definition KW_TYPE_INFERRED :: "u8 list" where
  "KW_TYPE_INFERRED = bytes_of ''auto''"

lemmas keyword_defs =
  KW_LET_def KW_AS_def KW_STRUCT_def KW_ENUM_def KW_UNION_def KW_FUNCTION_def KW_PRIMITIVE_def
  KW_COMPOSITE_def KW_IMPORT_def KW_LIT_TRUE_def KW_LIT_FALSE_def KW_LIT_NULL_def KW_CAST_def KW_FUNC_GET_def
  KW_FUNC_PUT_def KW_FUNC_FIRES_def KW_FUNC_CREATE_def KW_FUNC_LENGTH_def KW_FUNC_ASSERT_def
  KW_STMT_CHANNEL_def KW_STMT_IF_def KW_STMT_ELSE_def KW_STMT_WHILE_def KW_STMT_BREAK_def
  KW_STMT_CONTINUE_def KW_STMT_GOTO_def KW_STMT_RETURN_def KW_STMT_SYNC_def KW_STMT_NEW_def
  KW_TYPE_IN_PORT_def KW_TYPE_OUT_PORT_def KW_TYPE_MESSAGE_def KW_TYPE_BOOL_def KW_TYPE_UINT8_def
  KW_TYPE_UINT16_def KW_TYPE_UINT32_def KW_TYPE_UINT64_def KW_TYPE_SINT8_def KW_TYPE_SINT16_def
  KW_TYPE_SINT32_def KW_TYPE_SINT64_def KW_TYPE_CHAR_def KW_TYPE_STRING_def KW_TYPE_INFERRED_def

definition is_reserved_definition_keyword :: "u8 list \<Rightarrow> bool" where
  "is_reserved_definition_keyword txt \<longleftrightarrow> txt \<in> {KW_STRUCT, KW_ENUM, KW_UNION,
    KW_FUNCTION, KW_PRIMITIVE, KW_COMPOSITE}"

definition is_reserved_statement_keyword :: "u8 list \<Rightarrow> bool" where
  "is_reserved_statement_keyword txt \<longleftrightarrow> txt \<in> {KW_IMPORT, KW_AS, KW_STMT_CHANNEL,
    KW_STMT_IF, KW_STMT_WHILE, KW_STMT_BREAK, KW_STMT_CONTINUE, KW_STMT_GOTO, KW_STMT_RETURN, KW_STMT_SYNC,
    KW_STMT_NEW}"

definition is_reserved_expression_keyword :: "u8 list \<Rightarrow> bool" where
  "is_reserved_expression_keyword txt \<longleftrightarrow> txt \<in> {KW_LET, KW_CAST, KW_LIT_TRUE,
    KW_LIT_FALSE, KW_LIT_NULL, KW_FUNC_GET, KW_FUNC_PUT, KW_FUNC_FIRES, KW_FUNC_CREATE, KW_FUNC_ASSERT,
    KW_FUNC_LENGTH}"

definition is_reserved_type_keyword :: "u8 list \<Rightarrow> bool" where
  "is_reserved_type_keyword txt \<longleftrightarrow> txt \<in> {KW_TYPE_IN_PORT, KW_TYPE_OUT_PORT,
    KW_TYPE_MESSAGE, KW_TYPE_BOOL, KW_TYPE_UINT8, KW_TYPE_UINT16, KW_TYPE_UINT32, KW_TYPE_UINT64,
    KW_TYPE_SINT8, KW_TYPE_SINT16, KW_TYPE_SINT32, KW_TYPE_SINT64, KW_TYPE_CHAR, KW_TYPE_STRING,
    KW_TYPE_INFERRED}"

definition is_reserved_keyword :: "u8 list \<Rightarrow> bool" where
  "is_reserved_keyword txt \<longleftrightarrow>
     is_reserved_definition_keyword txt \<or> is_reserved_statement_keyword txt \<or>
     is_reserved_expression_keyword txt \<or> is_reserved_type_keyword txt"

end
