(* ===== verification/Tokenizer.thy ===== *)
theory Tokenizer
  imports Tokens Keywords
begin

text \<open>
  The tokenizer (\<open>src/protocol/parser/pass_tokenizer.rs\<close>). One loop over the bytes of a file
  appends tokens to the buffer and builds the tree of token ranges: a range for every
  pragma, import and definition, and ranges of code for the tokens between them. The state
  is the tokenizer with its stack of open curly braces, the source and the buffer; it is kept
  when an error is returned.

  Every loop has the form \<open>while let Some(c) = source.next()\<close>. Its fuel is the number of
  bytes that are left, plus one: it runs out only if an iteration consumed nothing.
\<close>

section \<open>State\<close>

record PassTokenizer =
  curly_stack :: "InputPosition list"
  stack_idx :: nat

definition PassTokenizer_new :: PassTokenizer where
  "PassTokenizer_new = \<lparr>curly_stack = [], stack_idx = 0\<rparr>"

record Tokenizing =
  tokenizer :: PassTokenizer
  source :: InputSource
  target :: TokenBuffer

type_synonym 'a tok = "(Tokenizing, 'a, ParseError) act"

definition consume :: "bool \<Rightarrow> unit tok" where
  "consume debug s = (case source_consume debug (source s) of (r, src) \<Rightarrow> (r, s\<lparr>source := src\<rparr>))"

definition next_byte :: "u8 option tok" where
  "next_byte = act_get (\<lambda>s. source_next (source s))"

definition lookahead :: "nat \<Rightarrow> u8 option tok" where
  "lookahead n = act_get (\<lambda>s. source_lookahead (source s) n)"

definition cur_pos :: "InputPosition tok" where
  "cur_pos = act_get (\<lambda>s. source_pos (source s))"

definition num_tokens :: "u32 tok" where
  "num_tokens = act_get (\<lambda>s. of_nat (length (tokens (target s))))"

definition push_token :: "TokenKind \<Rightarrow> InputPosition \<Rightarrow> unit tok" where
  "push_token kind p =
     act_modify (\<lambda>s. s\<lparr>target := (target s)\<lparr>tokens := tokens (target s) @ [Token_new kind p]\<rparr>\<rparr>)"

definition tok_check :: "bool \<Rightarrow> bool \<Rightarrow> unit tok" where
  "tok_check debug b = act_res (check debug b)"

definition fail :: "bool \<Rightarrow> InputPosition \<Rightarrow> string \<Rightarrow> 'a tok" where
  "fail debug p msg = act_bind (act_get source) (\<lambda>src. act_res (fail_at_pos debug src p msg))"

datatype 'l flow = Continue 'l | Break 'l

fun while_bytes :: "nat \<Rightarrow> (u8 \<Rightarrow> 'l \<Rightarrow> 'l flow tok) \<Rightarrow> 'l \<Rightarrow> 'l tok" where
  "while_bytes 0 body l = act_out_of_fuel"
| "while_bytes (Suc fuel) body l =
     act_bind next_byte (\<lambda>c. case c of
         None \<Rightarrow> act_ret l
       | Some c \<Rightarrow> act_bind (body c l) (\<lambda>flow. case flow of
             Continue l' \<Rightarrow> while_bytes fuel body l'
           | Break l' \<Rightarrow> act_ret l'))"

definition loop_bytes :: "(u8 \<Rightarrow> 'l \<Rightarrow> 'l flow tok) \<Rightarrow> 'l \<Rightarrow> 'l tok" where
  "loop_bytes body l s = while_bytes (Suc (length (input (source s)) - src_offset (source s))) body l s"

section \<open>Classes of bytes\<close>

definition demarks_definition :: "u8 list \<Rightarrow> bool" where
  "demarks_definition ident \<longleftrightarrow>
     ident = KW_STRUCT \<or> ident = KW_ENUM \<or> ident = KW_UNION \<or>
     ident = KW_FUNCTION \<or> ident = KW_PRIMITIVE \<or> ident = KW_COMPOSITE"

definition demarks_import :: "u8 list \<Rightarrow> bool" where
  "demarks_import ident \<longleftrightarrow> ident = KW_IMPORT"

text \<open>\<open>is_ascii_whitespace\<close>: space, tab, newline, form feed and carriage return.\<close>

definition is_whitespace :: "u8 \<Rightarrow> bool" where
  "is_whitespace c \<longleftrightarrow> c = 32 \<or> c = 9 \<or> c = newline \<or> c = 12 \<or> c = carriage_return"

abbreviation quote :: u8 where
  "quote \<equiv> 39"

abbreviation double_quote :: u8 where
  "double_quote \<equiv> 34"

abbreviation backslash :: u8 where
  "backslash \<equiv> 92"

definition is_char_literal_start :: "u8 \<Rightarrow> bool" where
  "is_char_literal_start c \<longleftrightarrow> c = quote"

definition is_string_literal_start :: "u8 \<Rightarrow> bool" where
  "is_string_literal_start c \<longleftrightarrow> c = double_quote"

definition is_pragma_start_or_pound :: "u8 \<Rightarrow> bool" where
  "is_pragma_start_or_pound c \<longleftrightarrow> c = byte CHR ''#''"

definition is_identifier_start :: "u8 \<Rightarrow> bool" where
  "is_identifier_start c \<longleftrightarrow>
     (byte CHR ''a'' \<le> c \<and> c \<le> byte CHR ''z'') \<or> (byte CHR ''A'' \<le> c \<and> c \<le> byte CHR ''Z'') \<or> c = byte CHR ''_''"

definition is_identifier_remaining :: "u8 \<Rightarrow> bool" where
  "is_identifier_remaining c \<longleftrightarrow>
     (byte CHR ''0'' \<le> c \<and> c \<le> byte CHR ''9'') \<or> (byte CHR ''a'' \<le> c \<and> c \<le> byte CHR ''z'') \<or>
     (byte CHR ''A'' \<le> c \<and> c \<le> byte CHR ''Z'') \<or> c = byte CHR ''_''"

definition is_integer_literal_start :: "u8 \<Rightarrow> bool" where
  "is_integer_literal_start c \<longleftrightarrow> byte CHR ''0'' \<le> c \<and> c \<le> byte CHR ''9''"

definition maybe_number_remaining :: "u8 \<Rightarrow> bool" where
  "maybe_number_remaining c \<longleftrightarrow>
     (c = byte CHR ''o'' \<or> c = byte CHR ''O'' \<or> c = byte CHR ''x'' \<or> c = byte CHR ''X'') \<or>
     (byte CHR ''0'' \<le> c \<and> c \<le> byte CHR ''9'') \<or> (byte CHR ''A'' \<le> c \<and> c \<le> byte CHR ''F'') \<or>
     (byte CHR ''a'' \<le> c \<and> c \<le> byte CHR ''f'') \<or> c = byte CHR ''_''"

definition is_line_comment_start :: "u8 \<Rightarrow> bool tok" where
  "is_line_comment_start first_char =
     act_bind (lookahead 1) (\<lambda>c. act_ret (first_char = byte CHR ''/'' \<and> c = Some (byte CHR ''/'')))"

definition is_block_comment_start :: "u8 \<Rightarrow> bool tok" where
  "is_block_comment_start first_char =
     act_bind (lookahead 1) (\<lambda>c. act_ret (first_char = byte CHR ''/'' \<and> c = Some (byte CHR ''*'')))"

definition check_ascii :: "bool \<Rightarrow> unit tok" where
  "check_ascii debug =
     act_bind next_byte (\<lambda>c. case c of
         Some c \<Rightarrow> if \<not> is_ascii c
           then act_bind cur_pos (\<lambda>p. fail debug p ''encountered a non-ASCII character'') else act_ret ()
       | None \<Rightarrow> act_ret ())"

section \<open>Punctuation\<close>

text \<open>
  Consume the current byte; if the next one continues a longer token then go on with that
  one, otherwise the token is \<open>kind\<close>.
\<close>

definition punct :: "bool \<Rightarrow> (u8 \<times> TokenKind tok) list \<Rightarrow> TokenKind \<Rightarrow> TokenKind tok" where
  "punct debug longer kind =
     act_bind (consume debug) (\<lambda>_.
     act_bind next_byte (\<lambda>c. case c of
         None \<Rightarrow> act_ret kind
       | Some c \<Rightarrow> (case map_of longer c of Some m \<Rightarrow> m | None \<Rightarrow> act_ret kind)))"

definition slash :: "bool \<Rightarrow> TokenKind tok" where
  "slash debug =
     act_bind (consume debug) (\<lambda>_.
     act_bind next_byte (\<lambda>c.
     act_bind (tok_check debug (c \<noteq> Some (byte CHR ''/''))) (\<lambda>_.
     act_bind (tok_check debug (c \<noteq> Some (byte CHR ''*''))) (\<lambda>_.
     if c = Some (byte CHR ''='') then punct debug [] TK_SlashEquals else act_ret TK_Slash))))"

text \<open>The branches for the first byte; \<open>None\<close> is the last one.\<close>

definition punctuation :: "bool \<Rightarrow> u8 \<Rightarrow> TokenKind tok option" where
  "punctuation debug c =
     (let one = punct debug [] in
      if c = byte CHR ''!'' then Some (punct debug [(byte CHR ''='', one TK_NotEqual)] TK_Exclamation)
      else if c = byte CHR ''%'' then Some (punct debug [(byte CHR ''='', one TK_PercentEquals)] TK_Percent)
      else if c = byte CHR ''&'' then
        Some (punct debug [(byte CHR ''&'', one TK_AndAnd), (byte CHR ''='', one TK_AndEquals)] TK_And)
      else if c = byte CHR ''('' then Some (one TK_OpenParen)
      else if c = byte CHR '')'' then Some (one TK_CloseParen)
      else if c = byte CHR ''*'' then Some (punct debug [(byte CHR ''='', one TK_StarEquals)] TK_Star)
      else if c = byte CHR ''+'' then
        Some (punct debug [(byte CHR ''+'', one TK_PlusPlus), (byte CHR ''='', one TK_PlusEquals)] TK_Plus)
      else if c = byte CHR '','' then Some (one TK_Comma)
      else if c = byte CHR ''-'' then
        Some (punct debug [(byte CHR ''-'', one TK_MinusMinus), (byte CHR ''>'', one TK_ArrowRight),
          (byte CHR ''='', one TK_MinusEquals)] TK_Minus)
      else if c = byte CHR ''.'' then Some (punct debug [(byte CHR ''.'', one TK_DotDot)] TK_Dot)
      else if c = byte CHR ''/'' then Some (slash debug)
      else if c = byte CHR '':'' then Some (punct debug [(byte CHR '':'', one TK_ColonColon)] TK_Colon)
      else if c = byte CHR '';'' then Some (one TK_SemiColon)
      else if c = byte CHR ''<'' then
        Some (punct debug [(byte CHR ''<'', punct debug [(byte CHR ''='', one TK_ShiftLeftEquals)] TK_ShiftLeft),
          (byte CHR ''='', one TK_LessEquals)] TK_OpenAngle)
      else if c = byte CHR ''='' then Some (punct debug [(byte CHR ''='', one TK_EqualEqual)] TK_Equal)
      else if c = byte CHR ''>'' then
        Some (punct debug [(byte CHR ''>'', punct debug [(byte CHR ''='', one TK_ShiftRightEquals)] TK_ShiftRight),
          (byte CHR ''='', one TK_GreaterEquals)] TK_CloseAngle)
      else if c = byte CHR ''?'' then Some (one TK_Question)
      else if c = byte CHR ''@'' then Some (punct debug [(byte CHR ''='', one TK_AtEquals)] TK_At)
      else if c = byte CHR ''['' then Some (one TK_OpenSquare)
      else if c = byte CHR '']'' then Some (one TK_CloseSquare)
      else if c = byte CHR ''^'' then Some (punct debug [(byte CHR ''='', one TK_CaretEquals)] TK_Caret)
      else if c = byte CHR ''{'' then Some (one TK_OpenCurly)
      else if c = byte CHR ''|'' then
        Some (punct debug [(byte CHR ''|'', one TK_OrOr), (byte CHR ''='', one TK_OrEquals)] TK_Or)
      else if c = byte CHR ''}'' then Some (one TK_CloseCurly)
      else if c = byte CHR ''~'' then Some (one TK_Tilde)
      else None)"

definition maybe_parse_punctuation :: "bool \<Rightarrow> u8 \<Rightarrow> (TokenKind \<times> InputPosition) option tok" where
  "maybe_parse_punctuation debug first_char =
     act_bind (tok_check debug (first_char \<noteq> byte CHR ''#'')) (\<lambda>_.
     act_bind (tok_check debug (first_char \<noteq> quote)) (\<lambda>_.
     act_bind (tok_check debug (first_char \<noteq> double_quote)) (\<lambda>_.
     act_bind cur_pos (\<lambda>p.
     case punctuation debug first_char of
       None \<Rightarrow> act_bind (check_ascii debug) (\<lambda>_. act_ret None)
     | Some m \<Rightarrow>
         act_bind m (\<lambda>token_kind.
         act_bind (push_token token_kind p) (\<lambda>_.
         act_ret (Some (token_kind, p))))))))"

section \<open>Tokens of variable length\<close>

text \<open>The pair of tokens that every such routine appends.\<close>

definition push_span :: "TokenKind \<Rightarrow> InputPosition \<Rightarrow> InputPosition \<Rightarrow> unit tok" where
  "push_span kind begin_pos end_pos = act_bind (push_token kind begin_pos) (\<lambda>_. push_token TK_SpanEnd end_pos)"

definition consume_char_literal :: "bool \<Rightarrow> unit tok" where
  "consume_char_literal debug =
     act_bind cur_pos (\<lambda>begin_pos.
     act_bind next_byte (\<lambda>first.
     act_bind (tok_check debug (first = Some quote)) (\<lambda>_.
     act_bind (consume debug) (\<lambda>_.
     act_bind (loop_bytes (\<lambda>c prev_char.
         if \<not> is_ascii c
         then act_bind cur_pos (\<lambda>p. fail debug p ''non-ASCII character in char literal'')
         else act_bind (consume debug) (\<lambda>_.
           act_ret (if c = quote \<and> prev_char \<noteq> backslash then Break c else Continue c))) quote) (\<lambda>prev_char.
     if prev_char \<noteq> quote then fail debug begin_pos ''encountered unterminated character literal''
     else act_bind cur_pos (\<lambda>end_pos. push_span TK_Character begin_pos end_pos))))))"

definition consume_string_literal :: "bool \<Rightarrow> unit tok" where
  "consume_string_literal debug =
     act_bind cur_pos (\<lambda>begin_pos.
     act_bind next_byte (\<lambda>first.
     act_bind (tok_check debug (first = Some double_quote)) (\<lambda>_.
     act_bind (consume debug) (\<lambda>_.
     act_bind (loop_bytes (\<lambda>c prev_char.
         if \<not> is_ascii c
         then act_bind cur_pos (\<lambda>p. fail debug p ''non-ASCII character in string literal'')
         else act_bind (consume debug) (\<lambda>_.
           act_ret (if c = double_quote \<and> prev_char \<noteq> backslash then Break c
             else if prev_char = backslash \<and> c = backslash then Continue 0 else Continue c))) double_quote) (\<lambda>prev_char.
     if prev_char \<noteq> double_quote then fail debug begin_pos ''encountered unterminated string literal''
     else act_bind cur_pos (\<lambda>end_pos. push_span TK_String begin_pos end_pos))))))"

text \<open>The loops that consume the bytes of a class, and end before the first other byte.\<close>

definition consume_while :: "bool \<Rightarrow> (u8 \<Rightarrow> bool) \<Rightarrow> unit tok" where
  "consume_while debug P = loop_bytes (\<lambda>c _.
     if \<not> P c then act_ret (Break ()) else act_bind (consume debug) (\<lambda>_. act_ret (Continue ()))) ()"

definition consume_pragma_or_pound :: "bool \<Rightarrow> u8 \<Rightarrow> bool tok" where
  "consume_pragma_or_pound debug first_char =
     act_bind cur_pos (\<lambda>start_pos.
     act_bind (tok_check debug (first_char = byte CHR ''#'')) (\<lambda>_.
     act_bind (consume debug) (\<lambda>_.
     act_bind next_byte (\<lambda>next_char.
     if (case next_char of None \<Rightarrow> True | Some c \<Rightarrow> \<not> is_identifier_start c)
     then act_bind (push_token TK_Pound start_pos) (\<lambda>_. act_ret False)
     else
       act_bind (consume debug) (\<lambda>_.
       act_bind (consume_while debug is_identifier_remaining) (\<lambda>_.
       act_bind (check_ascii debug) (\<lambda>_.
       act_bind cur_pos (\<lambda>end_pos.
       act_bind (push_span TK_Pragma start_pos end_pos) (\<lambda>_.
       act_ret True)))))))))"

definition consume_line_comment :: "bool \<Rightarrow> unit tok" where
  "consume_line_comment debug =
     act_bind cur_pos (\<lambda>begin_pos.
     act_bind next_byte (\<lambda>first.
     act_bind (lookahead 1) (\<lambda>second.
     act_bind (tok_check debug (first = Some (byte CHR ''/'') \<and> second = Some (byte CHR ''/''))) (\<lambda>_.
     act_bind (consume debug) (\<lambda>_.
     act_bind (consume debug) (\<lambda>_.
     act_bind (loop_bytes (\<lambda>c (prev_char, cur_char).
         if c = newline then act_ret (Break (cur_char, c))
         else act_bind (consume debug) (\<lambda>_. act_ret (Continue (cur_char, c))))
       (byte CHR ''/'', byte CHR ''/'')) (\<lambda>(prev_char, cur_char).
     act_bind cur_pos (\<lambda>end_pos.
     act_bind (tok_check debug (ip_line begin_pos = ip_line end_pos)) (\<lambda>_.
     act_bind (if cur_char = newline
         then act_bind (act_res (u32_sub debug (ip_offset end_pos) (if prev_char = carriage_return then 2 else 1))) (\<lambda>offset.
              act_bind (consume debug) (\<lambda>_.
              act_ret (end_pos\<lparr>ip_offset := offset\<rparr>)))
         else act_bind next_byte (\<lambda>c. act_bind (tok_check debug (c = None)) (\<lambda>_. act_ret end_pos))) (\<lambda>end_pos'.
     push_span TK_LineComment begin_pos end_pos'))))))))))"

definition consume_block_comment :: "bool \<Rightarrow> unit tok" where
  "consume_block_comment debug =
     act_bind cur_pos (\<lambda>begin_pos.
     act_bind next_byte (\<lambda>first.
     act_bind (lookahead 1) (\<lambda>second.
     act_bind (tok_check debug (first = Some (byte CHR ''/'') \<and> second = Some (byte CHR ''*''))) (\<lambda>_.
     act_bind (consume debug) (\<lambda>_.
     act_bind (consume debug) (\<lambda>_.
     act_bind (loop_bytes (\<lambda>c (prev_char, is_closed).
         act_bind (consume debug) (\<lambda>_.
         act_ret (if prev_char = byte CHR ''*'' \<and> c = byte CHR ''/'' then Break (prev_char, True)
           else Continue (c, is_closed))))
       (byte CHR '' '', False)) (\<lambda>(prev_char, is_closed).
     if \<not> is_closed
     then act_bind cur_pos (\<lambda>p. fail debug p ''encountered unterminated block comment'')
     else act_bind cur_pos (\<lambda>end_pos. push_span TK_BlockComment begin_pos end_pos))))))))"

definition consume_identifier :: "bool \<Rightarrow> u8 list tok" where
  "consume_identifier debug =
     act_bind cur_pos (\<lambda>begin_pos.
     act_bind next_byte (\<lambda>first.
     act_bind (tok_check debug (case first of Some c \<Rightarrow> is_identifier_start c | None \<Rightarrow> False)) (\<lambda>_.
     act_bind (consume debug) (\<lambda>_.
     act_bind (consume_while debug is_identifier_remaining) (\<lambda>_.
     act_bind (check_ascii debug) (\<lambda>_.
     act_bind cur_pos (\<lambda>end_pos.
     act_bind (push_span TK_Ident begin_pos end_pos) (\<lambda>_.
     act_bind (act_get source) (\<lambda>src.
     act_res (section_at_pos src begin_pos end_pos))))))))))"

definition consume_number :: "bool \<Rightarrow> unit tok" where
  "consume_number debug =
     act_bind cur_pos (\<lambda>begin_pos.
     act_bind next_byte (\<lambda>first.
     act_bind (tok_check debug (case first of Some c \<Rightarrow> is_integer_literal_start c | None \<Rightarrow> False)) (\<lambda>_.
     act_bind (consume debug) (\<lambda>_.
     act_bind (consume_while debug maybe_number_remaining) (\<lambda>_.
     act_bind (check_ascii debug) (\<lambda>_.
     act_bind cur_pos (\<lambda>end_pos.
     push_span TK_Integer begin_pos end_pos)))))))"

definition consume_whitespace :: "bool \<Rightarrow> bool tok" where
  "consume_whitespace debug =
     act_bind next_byte (\<lambda>first.
     act_bind (tok_check debug (case first of Some c \<Rightarrow> is_whitespace c | None \<Rightarrow> False)) (\<lambda>_.
     loop_bytes (\<lambda>c has_newline.
       if \<not> is_whitespace c then act_ret (Break has_newline)
       else act_bind (consume debug) (\<lambda>_. act_ret (Continue (has_newline \<or> c = newline)))) False))"

section \<open>The tree of ranges\<close>

text \<open>
  Indices of ranges are stored with type \<open>i32\<close>: \<open>as_i32\<close> and \<open>as_usize\<close> are Rust's
  conversions of an index to that type and back.
\<close>

definition as_i32 :: "nat \<Rightarrow> int" where
  "as_i32 n = sint (of_nat n :: u32)"

definition as_usize :: "int \<Rightarrow> nat" where
  "as_usize i = nat (i mod 2 ^ 64)"

definition i32_add :: "bool \<Rightarrow> int \<Rightarrow> int \<Rightarrow> (int, 'e) res" where
  "i32_add debug a b = (if debug \<and> 2 ^ 31 \<le> a + b then Panic else Ok (sint (word_of_int (a + b) :: u32)))"

definition get_range :: "nat \<Rightarrow> TokenRange tok" where
  "get_range i = act_bind (act_get target) (\<lambda>b. act_res (vec_get (ranges b) i))"

definition num_ranges :: "nat tok" where
  "num_ranges = act_get (\<lambda>s. length (ranges (target s)))"

definition set_range :: "nat \<Rightarrow> TokenRange \<Rightarrow> unit tok" where
  "set_range i r = act_modify (\<lambda>s. s\<lparr>target := (target s)\<lparr>ranges := (ranges (target s))[i := r]\<rparr>\<rparr>)"

definition append_range :: "TokenRange \<Rightarrow> unit tok" where
  "append_range r = act_modify (\<lambda>s. s\<lparr>target := (target s)\<lparr>ranges := ranges (target s) @ [r]\<rparr>\<rparr>)"

definition cur_depth :: "u32 tok" where
  "cur_depth = act_get (\<lambda>s. of_nat (length (curly_stack (tokenizer s))))"

definition cur_range_idx :: "nat tok" where
  "cur_range_idx = act_get (\<lambda>s. stack_idx (tokenizer s))"

definition set_range_idx :: "nat \<Rightarrow> unit tok" where
  "set_range_idx i = act_modify (\<lambda>s. s\<lparr>tokenizer := (tokenizer s)\<lparr>stack_idx := i\<rparr>\<rparr>)"

definition link_sibling :: "int \<Rightarrow> int \<Rightarrow> unit tok" where
  "link_sibling sibling_idx next_idx =
     (if sibling_idx \<noteq> NO_RELATION then
        act_bind (get_range (as_usize sibling_idx)) (\<lambda>sibling.
        set_range (as_usize sibling_idx) (sibling\<lparr>next_sibling_idx := next_idx\<rparr>))
      else act_ret ())"

definition add_code_range :: "bool \<Rightarrow> int \<Rightarrow> u32 \<Rightarrow> u32 \<Rightarrow> int \<Rightarrow> unit tok" where
  "add_code_range debug parent code_start_idx code_end_idx next_sibling =
     act_bind num_ranges (\<lambda>len. let new_range_idx = as_i32 len in
     act_bind (get_range (as_usize parent)) (\<lambda>parent_range.
     act_bind (tok_check debug (range_end parent_range \<noteq> code_end_idx)) (\<lambda>_.
     act_bind (act_res (u32_add debug (num_child_ranges parent_range) 1)) (\<lambda>num_children.
     act_bind (set_range (as_usize parent) (parent_range\<lparr>last_child_idx := new_range_idx,
         range_end := code_end_idx, num_child_ranges := num_children\<rparr>)) (\<lambda>_.
     act_bind cur_depth (\<lambda>depth.
     act_bind (append_range \<lparr>parent_idx = parent, range_kind = RK_Code, curly_depth = depth,
         range_start = code_start_idx, range_end = code_end_idx, num_child_ranges = 0,
         first_child_idx = NO_RELATION, last_child_idx = NO_RELATION, next_sibling_idx = next_sibling\<rparr>) (\<lambda>_.
     link_sibling (last_child_idx parent_range) new_range_idx)))))))"

definition push_range :: "bool \<Rightarrow> TokenRangeKind \<Rightarrow> u32 \<Rightarrow> unit tok" where
  "push_range debug kind first_token_idx =
     act_bind num_ranges (\<lambda>len. let new_range_idx = as_i32 len in
     act_bind cur_range_idx (\<lambda>parent. let parent_i32 = as_i32 parent in
     act_bind (get_range parent) (\<lambda>parent_range.
     act_bind (if first_child_idx parent_range = NO_RELATION
         then set_range parent (parent_range\<lparr>first_child_idx := new_range_idx\<rparr>) else act_ret ()) (\<lambda>_.
     act_bind (if range_end parent_range \<noteq> first_token_idx
         then act_bind (act_res (i32_add debug new_range_idx 1)) (\<lambda>next_sibling.
              add_code_range debug parent_i32 (range_end parent_range) first_token_idx next_sibling)
         else act_ret ()) (\<lambda>_.
     act_bind num_ranges (\<lambda>new_stack_idx.
     act_bind (set_range_idx new_stack_idx) (\<lambda>_.
     act_bind cur_depth (\<lambda>depth.
     append_range \<lparr>parent_idx = parent_i32, range_kind = kind, curly_depth = depth,
       range_start = first_token_idx, range_end = first_token_idx, num_child_ranges = 0,
       first_child_idx = NO_RELATION, last_child_idx = NO_RELATION, next_sibling_idx = NO_RELATION\<rparr>))))))))"

definition pop_range :: "bool \<Rightarrow> u32 \<Rightarrow> unit tok" where
  "pop_range debug end_token_idx =
     act_bind cur_range_idx (\<lambda>idx. let popped_idx = as_i32 idx in
     act_bind (get_range idx) (\<lambda>popped_range.
     act_bind (tok_check debug (idx \<noteq> 0)) (\<lambda>_.
     act_bind (set_range idx (popped_range\<lparr>range_end := end_token_idx\<rparr>)) (\<lambda>_.
     act_bind (tok_check debug (range_start popped_range \<noteq> end_token_idx)) (\<lambda>_.
     let parent = as_usize (parent_idx popped_range) in
     act_bind (set_range_idx parent) (\<lambda>_.
     act_bind (get_range parent) (\<lambda>parent_range.
     act_bind (act_res (u32_add debug (num_child_ranges parent_range) 1)) (\<lambda>num_children.
     act_bind (set_range parent (parent_range\<lparr>
         first_child_idx := (if first_child_idx parent_range = NO_RELATION then popped_idx else first_child_idx parent_range),
         last_child_idx := popped_idx, range_end := end_token_idx, num_child_ranges := num_children\<rparr>)) (\<lambda>_.
     link_sibling (last_child_idx parent_range) popped_idx)))))))))"

section \<open>The main loop\<close>

definition push_curly :: "InputPosition \<Rightarrow> unit tok" where
  "push_curly p = act_modify (\<lambda>s. s\<lparr>tokenizer := (tokenizer s)\<lparr>curly_stack := curly_stack (tokenizer s) @ [p]\<rparr>\<rparr>)"

text \<open>Push and pop at the end of the vector.\<close>

definition pop_curly :: "InputPosition option tok" where
  "pop_curly s = (case rev (curly_stack (tokenizer s)) of
       [] \<Rightarrow> (Ok None, s)
     | p # ps \<Rightarrow> (Ok (Some p), s\<lparr>tokenizer := (tokenizer s)\<lparr>curly_stack := rev ps\<rparr>\<rparr>))"

text \<open>Ends the current range with the last token if the range is of the given kind.\<close>

definition pop_if :: "bool \<Rightarrow> (TokenRange \<Rightarrow> bool) \<Rightarrow> unit tok" where
  "pop_if debug P =
     act_bind cur_range_idx (\<lambda>idx.
     act_bind (get_range idx) (\<lambda>range.
     if P range then act_bind num_tokens (\<lambda>n. pop_range debug n) else act_ret ()))"

definition handle_punctuation :: "bool \<Rightarrow> TokenKind \<Rightarrow> InputPosition \<Rightarrow> unit tok" where
  "handle_punctuation debug token token_pos =
     (if token = TK_OpenCurly then push_curly token_pos
      else if token = TK_CloseCurly then
        act_bind (act_get (\<lambda>s. curly_stack (tokenizer s))) (\<lambda>stack.
        if stack = [] then fail debug token_pos (''unmatched closing curly brace '' @ quoted ''}'')
        else
          act_bind pop_curly (\<lambda>_.
          act_bind cur_depth (\<lambda>depth.
          pop_if debug (\<lambda>range. range_kind range = RK_Definition \<and> curly_depth range = depth))))
      else if token = TK_SemiColon then pop_if debug (\<lambda>range. range_kind range = RK_Import)
      else act_ret ())"

definition tokenize_byte :: "bool \<Rightarrow> u8 \<Rightarrow> unit tok" where
  "tokenize_byte debug c =
     act_bind num_tokens (\<lambda>token_index.
     if is_char_literal_start c then consume_char_literal debug
     else if is_string_literal_start c then consume_string_literal debug
     else if is_identifier_start c then
       act_bind (consume_identifier debug) (\<lambda>ident.
       if demarks_definition ident then push_range debug RK_Definition token_index
       else if demarks_import ident then push_range debug RK_Import token_index
       else act_ret ())
     else if is_integer_literal_start c then consume_number debug
     else if is_pragma_start_or_pound c then
       act_bind (consume_pragma_or_pound debug c) (\<lambda>was_pragma.
       if was_pragma then push_range debug RK_Pragma token_index else act_ret ())
     else act_bind (is_line_comment_start c) (\<lambda>line_comment.
       if line_comment then consume_line_comment debug
       else act_bind (is_block_comment_start c) (\<lambda>block_comment.
         if block_comment then consume_block_comment debug
         else if is_whitespace c then
           act_bind (consume_whitespace debug) (\<lambda>contained_newline.
           if contained_newline then pop_if debug (\<lambda>range. range_kind range = RK_Pragma) else act_ret ())
         else act_bind (maybe_parse_punctuation debug c) (\<lambda>was_punctuation. case was_punctuation of
             Some (token, token_pos) \<Rightarrow> handle_punctuation debug token token_pos
           | None \<Rightarrow> act_bind cur_pos (\<lambda>p. fail debug p ''unexpected character'')))))"

text \<open>The loop that closes the open ranges; every iteration leaves one range.\<close>

fun pop_all :: "nat \<Rightarrow> bool \<Rightarrow> unit tok" where
  "pop_all 0 debug = act_out_of_fuel"
| "pop_all (Suc fuel) debug =
     act_bind cur_range_idx (\<lambda>idx.
     if idx \<noteq> 0 then
       act_bind num_tokens (\<lambda>n. act_bind (pop_range debug n) (\<lambda>_. pop_all fuel debug))
     else act_ret ())"

text \<open>
  The check of the tree at the end of a debug build: \<open>follow_siblings\<close> returns the last child
  and the number of children that were reached.
\<close>

fun follow_siblings :: "nat \<Rightarrow> TokenRange list \<Rightarrow> int \<Rightarrow> int \<Rightarrow> int \<Rightarrow> u32 \<Rightarrow> (int \<times> u32, 'e) res" where
  "follow_siblings 0 rs parent child_idx last_valid counter = OutOfFuel"
| "follow_siblings (Suc fuel) rs parent child_idx last_valid counter =
     (if child_idx \<noteq> NO_RELATION then
        bind_res (vec_get rs (as_usize child_idx)) (\<lambda>child_range.
        bind_res (rassert (parent_idx child_range = parent)) (\<lambda>_.
        bind_res (u32_add True counter 1) (\<lambda>counter'.
        follow_siblings fuel rs parent (next_sibling_idx child_range) child_idx counter')))
      else Ok (last_valid, counter))"

definition check_children :: "TokenRange list \<Rightarrow> nat \<Rightarrow> (unit, 'e) res" where
  "check_children rs i =
     bind_res (vec_get rs i) (\<lambda>cur.
     if num_child_ranges cur = 0 then
       bind_res (rassert (first_child_idx cur = NO_RELATION)) (\<lambda>_. rassert (last_child_idx cur = NO_RELATION))
     else
       bind_res (rassert (first_child_idx cur \<noteq> NO_RELATION)) (\<lambda>_.
       bind_res (rassert (last_child_idx cur \<noteq> NO_RELATION)) (\<lambda>_.
       bind_res (follow_siblings (Suc (length rs)) rs (as_i32 i) (first_child_idx cur) (first_child_idx cur) 0)
         (\<lambda>(last_valid, counter).
       bind_res (rassert (last_child_idx cur = last_valid)) (\<lambda>_.
       rassert (num_child_ranges cur = counter))))))"

fun check_all :: "TokenRange list \<Rightarrow> nat list \<Rightarrow> (unit, 'e) res" where
  "check_all rs [] = Ok ()"
| "check_all rs (i # is) = bind_res (check_children rs i) (\<lambda>_. check_all rs is)"

definition check_tree :: "TokenRange list \<Rightarrow> (unit, 'e) res" where
  "check_tree rs = check_all rs [0 ..< length rs]"

definition module_range :: TokenRange where
  "module_range = \<lparr>parent_idx = NO_RELATION, range_kind = RK_Module, curly_depth = 0, range_start = 0, range_end = 0,
     num_child_ranges = 0, first_child_idx = NO_RELATION, last_child_idx = NO_RELATION, next_sibling_idx = NO_RELATION\<rparr>"

definition take_error :: "ParseError option tok" where
  "take_error s = (Ok (had_error (source s)), s\<lparr>source := (source s)\<lparr>had_error := None\<rparr>\<rparr>)"

definition add_last_code_range :: "bool \<Rightarrow> unit tok" where
  "add_last_code_range debug =
     act_bind (get_range 0) (\<lambda>module.
     act_bind num_tokens (\<lambda>last_token_idx.
     if range_end module \<noteq> last_token_idx
     then add_code_range debug 0 (range_end module) last_token_idx NO_RELATION else act_ret ()))"

definition finish_tokens :: "bool \<Rightarrow> unit tok" where
  "finish_tokens debug =
     act_bind take_error (\<lambda>err. case err of
       Some e \<Rightarrow> act_err e
     | None \<Rightarrow>
         act_bind (act_get (\<lambda>s. curly_stack (tokenizer s))) (\<lambda>stack.
         if stack \<noteq> [] then
           act_bind pop_curly (\<lambda>p.
           act_bind (act_res (unwrap p)) (\<lambda>last_unmatched_open.
           fail debug last_unmatched_open (''unmatched opening curly brace '' @ quoted ''{'')))
         else
           act_bind (act_bind num_ranges (\<lambda>n. pop_all (Suc n) debug)) (\<lambda>_.
           act_bind cur_range_idx (\<lambda>idx.
           act_bind (tok_check debug (idx = 0)) (\<lambda>_.
           act_bind (add_last_code_range debug) (\<lambda>_.
           if debug then act_bind (act_get target) (\<lambda>b. act_res (check_tree (ranges b))) else act_ret ()))))))"

definition tokenize :: "bool \<Rightarrow> unit tok" where
  "tokenize debug =
     act_bind (act_get (\<lambda>s. s)) (\<lambda>s.
     act_bind (tok_check debug (ip_offset (source_pos (source s)) = 0)) (\<lambda>_.
     act_bind (tok_check debug (tokens (target s) = [])) (\<lambda>_.
     act_bind (tok_check debug (ranges (target s) = [])) (\<lambda>_.
     act_bind (set_range_idx 0) (\<lambda>_.
     act_bind (append_range module_range) (\<lambda>_.
     act_bind (loop_bytes (\<lambda>c _. act_bind (tokenize_byte debug c) (\<lambda>_. act_ret (Continue ()))) ()) (\<lambda>_.
     finish_tokens debug)))))))"

end
