(* ===== verification/Tokenizer_Lexing.thy ===== *)
theory Tokenizer_Lexing
  imports Tokenizer
begin

text \<open>
  What the tokenizer consumes. A loop over bytes is described by a pure function over the
  list of the bytes that are left (\<open>scan\<close>), and every routine of the tokenizer by an
  equation: the offset after it, the tokens it appends or the position of its error. None
  of them panics or runs out of fuel, in either build.
\<close>

section \<open>Loops over bytes\<close>

definition at_offset :: "string \<Rightarrow> u8 list \<Rightarrow> PassTokenizer \<Rightarrow> TokenBuffer \<Rightarrow> nat \<Rightarrow> Tokenizing" where
  "at_offset name bs t b k = \<lparr>tokenizer = t, source = source_at name bs k, target = b\<rparr>"

lemma at_offset_simps [simp]:
  "tokenizer (at_offset name bs t b k) = t" "source (at_offset name bs t b k) = source_at name bs k"
  "target (at_offset name bs t b k) = b"
  by (simp_all add: at_offset_def)

lemma at_offset_update [simp]:
  "(at_offset name bs t b k)\<lparr>target := b'\<rparr> = at_offset name bs t b' k"
  "(at_offset name bs t b k)\<lparr>tokenizer := t'\<rparr> = at_offset name bs t' b k"
  by (simp_all add: at_offset_def)

text \<open>One step of a loop: leave it before or after the byte, go on, or fail at the byte.\<close>

datatype 'l scan_step = Stop 'l | Take 'l | TakeStop 'l | Bad

fun scan :: "(u8 \<Rightarrow> 'l \<Rightarrow> 'l scan_step) \<Rightarrow> 'l \<Rightarrow> u8 list \<Rightarrow> 'l option \<times> nat" where
  "scan f l [] = (Some l, 0)"
| "scan f l (c # cs) = (case f c l of
      Stop l' \<Rightarrow> (Some l', 0)
    | Take l' \<Rightarrow> (case scan f l' cs of (r, n) \<Rightarrow> (r, Suc n))
    | TakeStop l' \<Rightarrow> (Some l', 1)
    | Bad \<Rightarrow> (None, 0))"

lemma scan_bound: "scan f l cs = (r, n) \<Longrightarrow> n \<le> length cs"
  by (induction f l cs arbitrary: r n rule: scan.induct) (auto split: scan_step.splits prod.splits)

definition steps_like :: "string \<Rightarrow> u8 list \<Rightarrow> PassTokenizer \<Rightarrow> TokenBuffer \<Rightarrow> string \<Rightarrow>
    (u8 \<Rightarrow> 'l \<Rightarrow> 'l scan_step) \<Rightarrow> (u8 \<Rightarrow> 'l \<Rightarrow> 'l flow tok) \<Rightarrow> bool" where
  "steps_like name bs t b msg f body \<longleftrightarrow> (\<forall>k l. k < length bs \<longrightarrow>
     body (bs ! k) l (at_offset name bs t b k) = (case f (bs ! k) l of
         Stop l' \<Rightarrow> (Ok (Break l'), at_offset name bs t b k)
       | Take l' \<Rightarrow> (Ok (Continue l'), at_offset name bs t b (Suc k))
       | TakeStop l' \<Rightarrow> (Ok (Break l'), at_offset name bs t b (Suc k))
       | Bad \<Rightarrow> (Err (error_at name bs k msg), at_offset name bs t b k)))"

definition scanned :: "string \<Rightarrow> u8 list \<Rightarrow> PassTokenizer \<Rightarrow> TokenBuffer \<Rightarrow> string \<Rightarrow> nat \<Rightarrow>
    'l option \<times> nat \<Rightarrow> ('l, ParseError) res \<times> Tokenizing" where
  "scanned name bs t b msg k rn = (case rn of
      (Some l, n) \<Rightarrow> (Ok l, at_offset name bs t b (k + n))
    | (None, n) \<Rightarrow> (Err (error_at name bs (k + n) msg), at_offset name bs t b (k + n)))"

lemma while_bytes_scan:
  assumes "steps_like name bs t b msg f body"
  shows "length bs - k < fuel \<Longrightarrow> k \<le> length bs \<Longrightarrow>
    while_bytes fuel body l (at_offset name bs t b k) = scanned name bs t b msg k (scan f l (drop k bs))"
proof (induction fuel arbitrary: k l)
  case (Suc fuel)
  show ?case
  proof (cases "k < length bs")
    case True
    note body = assms [unfolded steps_like_def, rule_format, OF True]
    have "length bs - Suc k < fuel" "Suc k \<le> length bs" using Suc.prems True by simp_all
    note IH = Suc.IH [OF this]
    show ?thesis
      using True body
      by (auto simp: scanned_def act_bind_def next_byte_def act_get_def act_ret_def IH Cons_nth_drop_Suc [symmetric]
          split: scan_step.splits prod.splits option.splits)
  next
    case False
    then show ?thesis
      using Suc.prems by (simp add: scanned_def act_bind_def next_byte_def act_get_def act_ret_def)
  qed
qed simp

lemma loop_bytes_scan:
  "steps_like name bs t b msg f body \<Longrightarrow> k \<le> length bs \<Longrightarrow>
    loop_bytes body l (at_offset name bs t b k) = scanned name bs t b msg k (scan f l (drop k bs))"
  unfolding loop_bytes_def by (rule while_bytes_scan) simp_all

section \<open>The steps\<close>

named_theorems tok_simps \<open>the steps of the tokenizer at an offset of the file\<close>

lemma consume_at [tok_simps]:
  "small_input bs \<Longrightarrow> k < length bs \<Longrightarrow>
    consume debug (at_offset name bs t b k) = (Ok (), at_offset name bs t b (Suc k))"
  by (simp add: consume_def source_consume_at at_offset_def)

lemma fail_at [tok_simps]:
  "small_input bs \<Longrightarrow> i \<le> length bs \<Longrightarrow>
    fail debug (pos_at bs i) msg (at_offset name bs t b k) = (Err (error_at name bs i msg), at_offset name bs t b k)"
  using fail_at_pos_eq [of "source_at name bs k" i]
  by (simp add: fail_def act_bind_def act_get_def act_res_def)

lemma steps_at [tok_simps]:
  "next_byte (at_offset name bs t b k) = (Ok (if k < length bs then Some (bs ! k) else None), at_offset name bs t b k)"
  "lookahead n (at_offset name bs t b k) = (Ok (if k + n < length bs then Some (bs ! (k + n)) else None), at_offset name bs t b k)"
  "cur_pos (at_offset name bs t b k) = (Ok (pos_at bs k), at_offset name bs t b k)"
  "num_tokens (at_offset name bs t b k) = (Ok (of_nat (length (tokens b))), at_offset name bs t b k)"
  "push_token kind p (at_offset name bs t b k) =
     (Ok (), at_offset name bs t (b\<lparr>tokens := tokens b @ [Token_new kind p]\<rparr>) k)"
  by (simp_all add: next_byte_def lookahead_def cur_pos_def num_tokens_def push_token_def act_get_def act_modify_def)

lemma tok_check_True [tok_simps]: "tok_check debug True s = (Ok (), s)"
  by (simp add: tok_check_def check_def act_res_def)

lemma push_span_at [tok_simps]:
  "push_span kind p q (at_offset name bs t b k) =
     (Ok (), at_offset name bs t (b\<lparr>tokens := tokens b @ [Token_new kind p, Token_new TK_SpanEnd q]\<rparr>) k)"
  by (simp add: push_span_def act_bind_def tok_simps)

lemma check_ascii_at [tok_simps]:
  "small_input bs \<Longrightarrow> k \<le> length bs \<Longrightarrow> check_ascii debug (at_offset name bs t b k) =
     (if k < length bs \<and> \<not> is_ascii (bs ! k)
      then (Err (error_at name bs k ''encountered a non-ASCII character''), at_offset name bs t b k)
      else (Ok (), at_offset name bs t b k))"
  by (simp add: check_ascii_def act_bind_def tok_simps act_ret_def)

definition while_step :: "(u8 \<Rightarrow> bool) \<Rightarrow> u8 \<Rightarrow> unit \<Rightarrow> unit scan_step" where
  "while_step P c l = (if P c then Take () else Stop ())"

lemma scan_while_step: "scan (while_step P) l cs = (Some (), length (takeWhile P cs))"
  by (induction cs arbitrary: l) (simp_all add: while_step_def)

lemma consume_while_at:
  assumes "small_input bs" "k \<le> length bs"
  shows "consume_while debug P (at_offset name bs t b k) =
    (Ok (), at_offset name bs t b (k + length (takeWhile P (drop k bs))))"
proof -
  have "steps_like name bs t b msg (while_step P) (\<lambda>c _.
     if \<not> P c then act_ret (Break ()) else act_bind (consume debug) (\<lambda>_. act_ret (Continue ())))" for msg
    by (auto simp: steps_like_def while_step_def act_ret_def act_bind_def consume_at [OF assms(1)])
  from loop_bytes_scan [OF this assms(2)] show ?thesis
    by (simp add: consume_while_def scan_while_step scanned_def)
qed

text \<open>Where the bytes of a class that follow the byte \<open>k\<close> end.\<close>

definition run_end :: "(u8 \<Rightarrow> bool) \<Rightarrow> u8 list \<Rightarrow> nat \<Rightarrow> nat" where
  "run_end P bs k = Suc k + length (takeWhile P (drop (Suc k) bs))"

lemma run_end_bounds: "k < length bs \<Longrightarrow> Suc k \<le> run_end P bs k \<and> run_end P bs k \<le> length bs"
  using length_takeWhile_le [of P "drop (Suc k) bs"] by (simp add: run_end_def)

lemma consume_run_at [tok_simps]:
  "small_input bs \<Longrightarrow> k < length bs \<Longrightarrow>
    consume_while debug P (at_offset name bs t b (Suc k)) = (Ok (), at_offset name bs t b (run_end P bs k))"
  by (simp add: consume_while_at run_end_def)

definition add_span :: "TokenKind \<Rightarrow> InputPosition \<Rightarrow> InputPosition \<Rightarrow> TokenBuffer \<Rightarrow> TokenBuffer" where
  "add_span kind p q b = b\<lparr>tokens := tokens b @ [Token_new kind p, Token_new TK_SpanEnd q]\<rparr>"

lemma consume_number_at [tok_simps]:
  assumes "small_input bs" "k < length bs" "is_integer_literal_start (bs ! k)"
  defines "j \<equiv> run_end maybe_number_remaining bs k"
  shows "consume_number debug (at_offset name bs t b k) =
    (if j < length bs \<and> \<not> is_ascii (bs ! j)
     then (Err (error_at name bs j ''encountered a non-ASCII character''), at_offset name bs t b j)
     else (Ok (), at_offset name bs t (add_span TK_Integer (pos_at bs k) (pos_at bs j) b) j))"
  using assms(1-3) run_end_bounds [OF assms(2)]
  by (simp add: consume_number_def act_bind_def tok_simps j_def add_span_def)

lemma section_between:
  assumes "small_input bs" "i \<le> j" "j \<le> length bs"
  shows "section_at_pos (source_at name bs k) (pos_at bs i) (pos_at bs j) = Ok (take (j - i) (drop i bs))"
  using assms unat_pos_at(1) [of i bs] unat_pos_at(1) [of j bs]
  by (simp add: section_at_pos_def slice_def small_input_def)

lemma consume_identifier_at [tok_simps]:
  assumes "small_input bs" "k < length bs" "is_identifier_start (bs ! k)"
  defines "j \<equiv> run_end is_identifier_remaining bs k"
  shows "consume_identifier debug (at_offset name bs t b k) =
    (if j < length bs \<and> \<not> is_ascii (bs ! j)
     then (Err (error_at name bs j ''encountered a non-ASCII character''), at_offset name bs t b j)
     else (Ok (take (j - k) (drop k bs)), at_offset name bs t (add_span TK_Ident (pos_at bs k) (pos_at bs j) b) j))"
proof -
  have j: "k \<le> j" "j \<le> length bs" using run_end_bounds [OF assms(2)] by (auto simp: j_def dest: Suc_leD)
  with assms(1-3) show ?thesis
    by (simp add: consume_identifier_def act_bind_def tok_simps act_get_def act_res_def add_span_def
        section_between [OF assms(1) j] section_between [OF assms(1) less_imp_le [OF assms(2)] order_refl] flip: j_def)
qed

lemma consume_pragma_or_pound_at [tok_simps]:
  assumes "small_input bs" "k < length bs" "bs ! k = byte CHR ''#''"
  defines "j \<equiv> run_end is_identifier_remaining bs (Suc k)"
  shows "consume_pragma_or_pound debug (bs ! k) (at_offset name bs t b k) =
    (if \<not> (Suc k < length bs \<and> is_identifier_start (bs ! Suc k))
     then (Ok False, at_offset name bs t (b\<lparr>tokens := tokens b @ [Token_new TK_Pound (pos_at bs k)]\<rparr>) (Suc k))
     else if j < length bs \<and> \<not> is_ascii (bs ! j)
     then (Err (error_at name bs j ''encountered a non-ASCII character''), at_offset name bs t b j)
     else (Ok True, at_offset name bs t (add_span TK_Pragma (pos_at bs k) (pos_at bs j) b) j))"
proof (cases "Suc k < length bs \<and> is_identifier_start (bs ! Suc k)")
  case True
  then show ?thesis
    using assms(1-3) run_end_bounds [of "Suc k" bs]
    by (simp add: consume_pragma_or_pound_def act_bind_def tok_simps act_ret_def add_span_def j_def)
next
  case False
  then show ?thesis
    using assms(1-3)
    by (auto simp: consume_pragma_or_pound_def act_bind_def tok_simps act_ret_def)
qed

section \<open>White space and comments\<close>

definition white_step :: "u8 \<Rightarrow> bool \<Rightarrow> bool scan_step" where
  "white_step c l = (if is_whitespace c then Take (l \<or> c = newline) else Stop l)"

lemma scan_white_step:
  "scan white_step l cs =
     (Some (l \<or> newline \<in> set (takeWhile is_whitespace cs)), length (takeWhile is_whitespace cs))"
  by (induction cs arbitrary: l) (auto simp: white_step_def)

lemma consume_whitespace_at [tok_simps]:
  assumes "small_input bs" "k < length bs" "is_whitespace (bs ! k)"
  shows "consume_whitespace debug (at_offset name bs t b k) =
    (Ok (newline \<in> set (takeWhile is_whitespace (drop k bs))), at_offset name bs t b (run_end is_whitespace bs k))"
proof -
  have "steps_like name bs t b msg white_step (\<lambda>c has_newline.
     if \<not> is_whitespace c then act_ret (Break has_newline)
     else act_bind (consume debug) (\<lambda>_. act_ret (Continue (has_newline \<or> c = newline))))" for msg
    by (auto simp: steps_like_def white_step_def act_ret_def act_bind_def consume_at [OF assms(1)])
  note loop = loop_bytes_scan [OF this less_imp_le [OF assms(2)], unfolded scan_white_step scanned_def, simplified]
  have "takeWhile is_whitespace (drop k bs) = bs ! k # takeWhile is_whitespace (drop (Suc k) bs)"
    using assms(2,3) by (simp flip: Cons_nth_drop_Suc)
  then show ?thesis
    using assms(2,3) by (simp add: consume_whitespace_def act_bind_def tok_simps loop run_end_def)
qed

text \<open>
  A line comment ends before the newline. The position that the source records as its end
  is one byte further back, and two if a carriage return precedes the newline.
\<close>

definition line_step :: "u8 \<Rightarrow> u8 \<times> u8 \<Rightarrow> (u8 \<times> u8) scan_step" where
  "line_step c l = (if c = newline then Stop (snd l, c) else Take (snd l, c))"

definition comment_end :: "u8 list \<Rightarrow> nat \<Rightarrow> nat" where
  "comment_end bs j = (if j < length bs then j - (if bs ! (j - 1) = carriage_return then 2 else 1) else j)"

lemma scan_line_step:
  "scan line_step (p, c) cs = (let n = length (takeWhile (\<lambda>c. c \<noteq> newline) cs) in
     (Some (if n < length cs then ((c # cs) ! n, newline)
       else ((p # c # cs) ! n, (c # cs) ! n)), n))"
  by (induction cs arbitrary: p c) (auto simp: line_step_def Let_def)

lemma takeWhile_all_before: "i < length (takeWhile P xs) \<Longrightarrow> P (xs ! i)"
  by (metis nth_mem set_takeWhileD takeWhile_nth)

lemma pos_at_same_line:
  assumes "i \<le> j" "j \<le> length bs" "\<And>n. i \<le> n \<Longrightarrow> n < j \<Longrightarrow> bs ! n \<noteq> newline"
  shows "pos_at bs j = (pos_at bs i)\<lparr>ip_offset := of_nat j\<rparr>"
proof -
  have "newlines (take j bs) = newlines (take i bs)"
    using newlines_line_start [OF assms(2)] newlines_line_start [of i bs] line_start_at_eqI [OF assms(1), of bs] assms
    by (metis le_trans)
  then show ?thesis by (simp add: pos_at_def)
qed

lemma consume_line_comment_at [tok_simps]:
  assumes small: "small_input bs" and k: "Suc k < length bs" "bs ! k = byte CHR ''/''" "bs ! Suc k = byte CHR ''/''"
  defines "j \<equiv> line_end_at bs (k + 2)"
  shows "consume_line_comment debug (at_offset name bs t b k) =
    (Ok (), at_offset name bs t (add_span TK_LineComment (pos_at bs k) (pos_at bs (comment_end bs j)) b)
       (if j < length bs then Suc j else j))"
proof -
  let ?n = "length (takeWhile (\<lambda>c. c \<noteq> newline) (drop (k + 2) bs))"
  have j: "j = k + 2 + ?n" "k + 2 \<le> j" "j \<le> length bs"
    using line_end_bounds [of "k + 2" bs] k by (auto simp: j_def line_end_at_def)
  have len: "length bs < 2 ^ 32 - 2" using small by (simp add: small_input_def)
  have no_nl: "bs ! n \<noteq> newline" if "k \<le> n" "n < j" for n
  proof (cases "n < k + 2")
    case True
    then have "n = k \<or> n = Suc k" using that by auto
    then show ?thesis using k by auto
  next
    case False
    then have "n - (k + 2) < ?n" using that j by simp
    from takeWhile_all_before [OF this] have "bs ! (k + 2 + (n - (k + 2))) \<noteq> newline"
      using k by (subst (asm) nth_drop) simp_all
    moreover have "k + 2 + (n - (k + 2)) = n" using False by simp
    ultimately show ?thesis by (simp only: not_False_eq_True)
  qed
  then have pos: "pos_at bs i = (pos_at bs k)\<lparr>ip_offset := of_nat i\<rparr>" if "k \<le> i" "i \<le> j" for i
    using that j by (intro pos_at_same_line) auto
  have nl: "j < length bs \<Longrightarrow> bs ! j = newline"
    using line_end_newline [of "k + 2" bs] k by (simp add: j_def)
  let ?last = "if j < length bs then (bs ! (j - 1), newline)
    else ((byte CHR ''/'' # byte CHR ''/'' # drop (k + 2) bs) ! ?n, bs ! (j - 1))"
  have cons: "(byte CHR ''/'' # drop (k + 2) bs) ! ?n = bs ! (j - 1)"
    using k j by (cases ?n) auto
  have scan: "scan line_step (byte CHR ''/'', byte CHR ''/'') (drop (k + 2) bs) = (Some ?last, ?n)"
    unfolding scan_line_step Let_def cons using j k by auto
  have "steps_like name bs t b msg line_step (\<lambda>c (prev_char, cur_char).
         if c = newline then act_ret (Break (cur_char, c))
         else act_bind (consume debug) (\<lambda>_. act_ret (Continue (cur_char, c))))" for msg
    by (auto simp: steps_like_def line_step_def act_ret_def act_bind_def consume_at [OF small] split: prod.splits)
  note loop' = loop_bytes_scan [OF this, of "k + 2" "(byte CHR ''/'', byte CHR ''/'')", unfolded scan scanned_def]
  have loop: "loop_bytes (\<lambda>c (prev_char, cur_char).
         if c = newline then act_ret (Break (cur_char, c))
         else act_bind (consume debug) (\<lambda>_. act_ret (Continue (cur_char, c))))
       (byte CHR ''/'', byte CHR ''/'') (at_offset name bs t b (Suc (Suc k))) = (Ok ?last, at_offset name bs t b j)"
    using loop' k unfolding j(1) add_2_eq_Suc' by simp
  have sub: "u32_sub debug (of_nat j) (if c = carriage_return then 2 else 1)
      = Ok (of_nat (j - (if c = carriage_return then 2 else 1)))" for c
    using j(2,3) len
    by (simp add: u32_sub_of_nat [of 2 j, unfolded of_nat_numeral] u32_sub_of_nat [of 1 j, unfolded of_nat_1]
        del: of_nat_diff)
  have cur: "bs ! (j - 1) \<noteq> newline" using no_nl [of "j - 1"] j by simp
  have ends: "comment_end bs j \<le> j" "k \<le> comment_end bs j" using j by (auto simp: comment_end_def)
  show ?thesis
  proof (cases "j < length bs")
    case True
    then show ?thesis
      using small k pos [OF _ order_refl] pos [OF ends(2,1)] j(2,3)
      by (simp add: consume_line_comment_def act_bind_def tok_simps loop [simplified] sub act_res_def act_ret_def add_span_def
          comment_end_def)
  next
    case False
    then show ?thesis
      using small k pos [OF _ order_refl] j(2,3) cur
      by (simp add: consume_line_comment_def act_bind_def tok_simps loop [simplified] act_ret_def add_span_def comment_end_def)
  qed
qed

section \<open>Literals and block comments\<close>

text \<open>
  The number of bytes up to the first pair of bytes that ends a token; the second byte of
  a pair is the last one that is consumed. Without such a pair everything is.
\<close>

fun find_end :: "(u8 \<Rightarrow> u8 \<Rightarrow> bool) \<Rightarrow> u8 \<Rightarrow> u8 list \<Rightarrow> nat option" where
  "find_end Q p [] = None"
| "find_end Q p (c # cs) = (if Q p c then Some 1 else map_option Suc (find_end Q c cs))"

definition up_to :: "nat option \<Rightarrow> u8 list \<Rightarrow> nat" where
  "up_to e cs = (case e of Some n \<Rightarrow> n | None \<Rightarrow> length cs)"

definition ascii_run :: "u8 list \<Rightarrow> nat" where
  "ascii_run cs = length (takeWhile is_ascii cs)"

lemma up_to_simps [simp]:
  "up_to None cs = length cs" "up_to (Some n) cs = n"
  "up_to (map_option Suc e) (c # cs) = Suc (up_to e cs)"
  by (auto simp: up_to_def split: option.splits)

lemma ascii_run_simps [simp]:
  "ascii_run [] = 0" "ascii_run (c # cs) = (if is_ascii c then Suc (ascii_run cs) else 0)"
  by (simp_all add: ascii_run_def)

lemma find_end_Some_iff:
  "find_end Q p cs = Some n \<longleftrightarrow>
     0 < n \<and> n \<le> length cs \<and> Q ((p # cs) ! (n - 1)) (cs ! (n - 1)) \<and> (\<forall>i < n - 1. \<not> Q ((p # cs) ! i) (cs ! i))"
proof (induction cs arbitrary: p n)
  case (Cons c cs)
  show ?case
  proof (cases "Q p c")
    case True
    then show ?thesis
      by (auto simp: nth_Cons' split: if_splits)
  next
    case False
    then show ?thesis
      by (cases n; cases "n - 1") (auto simp: Cons.IH less_Suc_eq_0_disj)
  qed
qed auto

lemma find_end_bound: "up_to (find_end Q p cs) cs \<le> length cs"
  by (auto simp: up_to_def find_end_Some_iff split: option.split)

definition ends_char :: "u8 \<Rightarrow> u8 \<Rightarrow> bool" where
  "ends_char p c \<longleftrightarrow> c = quote \<and> p \<noteq> backslash"

definition ends_block :: "u8 \<Rightarrow> u8 \<Rightarrow> bool" where
  "ends_block p c \<longleftrightarrow> p = byte CHR ''*'' \<and> c = byte CHR ''/''"

text \<open>In a string, a backslash and the byte after it form a pair that does not end it.\<close>

fun string_end :: "u8 list \<Rightarrow> nat option" where
  "string_end [] = None"
| "string_end [c] = (if c = double_quote then Some 1 else None)"
| "string_end (c # d # cs) =
     (if c = double_quote then Some 1
      else if c = backslash then map_option (\<lambda>n. Suc (Suc n)) (string_end cs)
      else map_option Suc (string_end (d # cs)))"

lemma string_end_bound: "string_end cs = Some n \<Longrightarrow> 0 < n \<and> n \<le> length cs \<and> cs ! (n - 1) = double_quote"
  by (induction cs arbitrary: n rule: string_end.induct) (auto split: if_splits simp: nth_Cons')

definition char_step :: "u8 \<Rightarrow> u8 \<Rightarrow> u8 scan_step" where
  "char_step c p = (if \<not> is_ascii c then Bad else if ends_char p c then TakeStop c else Take c)"

definition string_step :: "u8 \<Rightarrow> u8 \<Rightarrow> u8 scan_step" where
  "string_step c p = (if \<not> is_ascii c then Bad
     else if c = double_quote \<and> p \<noteq> backslash then TakeStop c
     else if p = backslash \<and> c = backslash then Take 0 else Take c)"

definition block_step :: "u8 \<Rightarrow> u8 \<times> bool \<Rightarrow> (u8 \<times> bool) scan_step" where
  "block_step c l = (if ends_block (fst l) c then TakeStop (fst l, True) else Take (c, snd l))"

lemma scan_char_step:
  "scan char_step p cs = (let e = up_to (find_end ends_char p cs) cs; a = ascii_run cs in
     if a < e then (None, a) else (Some (last (p # take e cs)), e))"
  by (induction cs arbitrary: p) (auto simp: char_step_def Let_def)

lemma scan_block_Cons:
  "scan block_step (p, b) (c # cs) = (if ends_block p c then (Some (p, True), 1)
     else case scan block_step (c, b) cs of (r, n) \<Rightarrow> (r, Suc n))"
  by (simp add: block_step_def)

lemma scan_string_Cons:
  "scan string_step p (c # cs) = (if \<not> is_ascii c then (None, 0)
     else if c = double_quote \<and> p \<noteq> backslash then (Some c, 1)
     else case scan string_step (if p = backslash \<and> c = backslash then 0 else c) cs of (r, n) \<Rightarrow> (r, Suc n))"
  by (simp add: string_step_def)

lemma scan_block_step:
  "\<exists>q. scan block_step (p, False) cs =
     (Some (q, find_end ends_block p cs \<noteq> None), up_to (find_end ends_block p cs) cs)"
proof (induction cs arbitrary: p)
  case (Cons c cs)
  obtain q where "scan block_step (c, False) cs =
      (Some (q, find_end ends_block c cs \<noteq> None), up_to (find_end ends_block c cs) cs)"
    using Cons by blast
  then show ?case by (simp add: scan_block_Cons del: scan.simps(2))
qed simp

lemma scan_string_step:
  "p \<noteq> backslash \<Longrightarrow> \<exists>l. (l = double_quote \<longleftrightarrow> last (p # take (up_to (string_end cs) cs) cs) = double_quote) \<and>
     scan string_step p cs = (let e = up_to (string_end cs) cs; a = ascii_run cs in
       if a < e then (None, a) else (Some l, e))"
proof (induction cs arbitrary: p rule: string_end.induct)
  case (2 c)
  then show ?case by (auto simp: scan_string_Cons Let_def simp del: scan.simps(2))
next
  case (3 c d cs)
  consider "c = double_quote" | "c = backslash" "c \<noteq> double_quote" | "c \<noteq> double_quote" "c \<noteq> backslash" by blast
  then show ?case
  proof cases
    case 1
    then show ?thesis using 3(3) by (auto simp: scan_string_Cons Let_def simp del: scan.simps(2))
  next
    case 2
    let ?q = "if d = backslash then 0 else d"
    have "?q \<noteq> backslash" by simp
    from 3(1) [OF 2(2,1) this] obtain l where
      l: "l = double_quote \<longleftrightarrow> last (?q # take (up_to (string_end cs) cs) cs) = double_quote"
        "scan string_step ?q cs = (let e = up_to (string_end cs) cs; a = ascii_run cs in
          if a < e then (None, a) else (Some l, e))"
      by blast
    show ?thesis
      using 2 l 3(3)
      by (intro exI [of _ l]) (cases "string_end cs"; auto simp: scan_string_Cons Let_def is_ascii_def simp del: scan.simps(2) split: if_splits)
  next
    case 3
    define xs where "xs = d # cs"
    have xs: "string_end (c # xs) = map_option Suc (string_end xs)" "xs \<noteq> []"
      using 3 by (simp_all add: xs_def)
    from "3.IH"(2) [OF 3(1,2), of c] 3 obtain l where
      "l = double_quote \<longleftrightarrow> last (c # take (up_to (string_end xs) xs) xs) = double_quote"
        "scan string_step c xs = (let e = up_to (string_end xs) xs; a = ascii_run xs in
          if a < e then (None, a) else (Some l, e))"
      unfolding xs_def by blast
    then show ?thesis
      using 3 "3.prems" xs unfolding xs_def [symmetric]
      by (intro exI [of _ l]) (simp add: scan_string_Cons Let_def del: scan.simps(2))
  qed
qed simp

lemma up_to_string_end: "up_to (string_end cs) cs \<le> length cs"
  by (auto simp: up_to_def dest: string_end_bound split: option.split)

text \<open>
  The outcome of a literal that starts at the byte \<open>k\<close>: \<open>e\<close> bytes belong to it after the
  first, and it is complete if the last of its bytes is the quotation mark \<open>q\<close>.
\<close>

definition literal_outcome :: "string \<Rightarrow> u8 list \<Rightarrow> PassTokenizer \<Rightarrow> TokenBuffer \<Rightarrow> nat \<Rightarrow>
    TokenKind \<Rightarrow> u8 \<Rightarrow> nat \<Rightarrow> string \<Rightarrow> string \<Rightarrow> (unit, ParseError) res \<times> Tokenizing" where
  "literal_outcome name bs t b k kind q e ascii_msg end_msg =
     (let a = ascii_run (drop (Suc k) bs) in
      if a < e then (Err (error_at name bs (Suc k + a) ascii_msg), at_offset name bs t b (Suc k + a))
      else if last (q # take e (drop (Suc k) bs)) \<noteq> q
      then (Err (error_at name bs k end_msg), at_offset name bs t b (Suc k + e))
      else (Ok (), at_offset name bs t (add_span kind (pos_at bs k) (pos_at bs (Suc k + e)) b) (Suc k + e)))"

lemma consume_char_literal_at [tok_simps]:
  assumes "small_input bs" "k < length bs" "bs ! k = quote"
  defines "cs \<equiv> drop (Suc k) bs"
  shows "consume_char_literal debug (at_offset name bs t b k) =
    literal_outcome name bs t b k TK_Character quote (up_to (find_end ends_char quote cs) cs)
      ''non-ASCII character in char literal'' ''encountered unterminated character literal''"
proof -
  let ?msg = "''non-ASCII character in char literal''"
  have "steps_like name bs t b ?msg char_step (\<lambda>c prev_char.
         if \<not> is_ascii c then act_bind cur_pos (\<lambda>p. fail debug p ?msg)
         else act_bind (consume debug) (\<lambda>_.
           act_ret (if c = quote \<and> prev_char \<noteq> backslash then Break c else Continue c)))"
    using assms(1)
    by (auto simp: steps_like_def char_step_def ends_char_def act_ret_def act_bind_def tok_simps)
  note loop = loop_bytes_scan [OF this, of "Suc k", unfolded scan_char_step]
  show ?thesis
    using assms(1-3) find_end_bound [of ends_char quote cs]
    by (simp add: consume_char_literal_def act_bind_def tok_simps loop [simplified] scanned_def Let_def literal_outcome_def
        cs_def add_span_def)
qed

lemma consume_string_literal_at [tok_simps]:
  assumes "small_input bs" "k < length bs" "bs ! k = double_quote"
  defines "cs \<equiv> drop (Suc k) bs"
  shows "consume_string_literal debug (at_offset name bs t b k) =
    literal_outcome name bs t b k TK_String double_quote (up_to (string_end cs) cs)
      ''non-ASCII character in string literal'' ''encountered unterminated string literal''"
proof -
  let ?msg = "''non-ASCII character in string literal''"
  have "steps_like name bs t b ?msg string_step (\<lambda>c prev_char.
         if \<not> is_ascii c then act_bind cur_pos (\<lambda>p. fail debug p ?msg)
         else act_bind (consume debug) (\<lambda>_.
           act_ret (if c = double_quote \<and> prev_char \<noteq> backslash then Break c
             else if prev_char = backslash \<and> c = backslash then Continue 0 else Continue c)))"
    using assms(1)
    by (auto simp: steps_like_def string_step_def act_ret_def act_bind_def tok_simps)
  note loop = loop_bytes_scan [OF this, of "Suc k" double_quote]
  obtain l where l: "l = double_quote \<longleftrightarrow> last (double_quote # take (up_to (string_end cs) cs) cs) = double_quote"
     "scan string_step double_quote (drop (Suc k) bs) = (let e = up_to (string_end cs) cs; a = ascii_run cs in
       if a < e then (None, a) else (Some l, e))"
    using scan_string_step [of double_quote cs] by (auto simp: cs_def)
  show ?thesis
    using assms(1-3) l(1) up_to_string_end [of cs]
    by (simp add: consume_string_literal_def act_bind_def tok_simps loop [unfolded l(2), simplified] scanned_def Let_def
        literal_outcome_def add_span_def del: last.simps flip: cs_def)
qed

lemma consume_block_comment_at [tok_simps]:
  assumes "small_input bs" "Suc k < length bs" "bs ! k = byte CHR ''/''" "bs ! Suc k = byte CHR ''*''"
  defines "cs \<equiv> drop (k + 2) bs"
  shows "consume_block_comment debug (at_offset name bs t b k) =
    (case find_end ends_block (byte CHR '' '') cs of
       None \<Rightarrow> (Err (error_at name bs (length bs) ''encountered unterminated block comment''),
                at_offset name bs t b (length bs))
     | Some n \<Rightarrow> (Ok (), at_offset name bs t (add_span TK_BlockComment (pos_at bs k) (pos_at bs (k + 2 + n)) b) (k + 2 + n)))"
proof -
  have "steps_like name bs t b msg block_step (\<lambda>c (prev_char, is_closed).
         act_bind (consume debug) (\<lambda>_.
         act_ret (if prev_char = byte CHR ''*'' \<and> c = byte CHR ''/'' then Break (prev_char, True)
           else Continue (c, is_closed))))" for msg
    using assms(1)
    by (auto simp: steps_like_def block_step_def ends_block_def act_ret_def act_bind_def tok_simps)
  note loop = loop_bytes_scan [OF this, of "k + 2" "(byte CHR '' '', False)"]
  obtain q where q: "scan block_step (byte CHR '' '', False) (drop (k + 2) bs) =
      (Some (q, find_end ends_block (byte CHR '' '') cs \<noteq> None), up_to (find_end ends_block (byte CHR '' '') cs) cs)"
    using scan_block_step [of "byte CHR '' ''" cs] by (auto simp: cs_def)
  note loop' = loop [unfolded q scanned_def, simplified]
  have "find_end ends_block (byte CHR '' '') cs = Some n \<Longrightarrow> k + 2 + n \<le> length bs" for n
    using assms(2) by (auto simp: find_end_Some_iff cs_def)
  moreover have "Suc (Suc (length bs - 2)) = length bs" using assms(2) by simp
  ultimately show ?thesis
    using assms(1-4)
    by (auto simp: consume_block_comment_def act_bind_def tok_simps loop'
        add_span_def cs_def split: option.split)
qed

section \<open>Punctuation\<close>

text \<open>
  The reference for punctuation: of the tokens whose characters the text starts with, the
  longest one. \<open>starts_with\<close> is the method of slices.
\<close>

fun starts_with :: "'a list \<Rightarrow> 'a list \<Rightarrow> bool" where
  "starts_with [] ys = True"
| "starts_with (x # xs) [] = False"
| "starts_with (x # xs) (y # ys) = (x = y \<and> starts_with xs ys)"

lemma starts_with_iff: "starts_with xs ys \<longleftrightarrow> take (length xs) ys = xs"
  by (induction xs ys rule: starts_with.induct) auto

definition kind_bytes :: "TokenKind \<Rightarrow> u8 list" where
  "kind_bytes k = (case token_chars k :: (string, unit) res of Ok s \<Rightarrow> bytes_of s | _ \<Rightarrow> [])"

definition punct_kinds :: "TokenKind list" where
  "punct_kinds = [
     TK_ShiftLeftEquals, TK_ShiftRightEquals, TK_ColonColon, TK_DotDot, TK_ArrowRight, TK_AtEquals,
     TK_PlusPlus, TK_PlusEquals, TK_MinusMinus, TK_MinusEquals, TK_StarEquals, TK_SlashEquals,
     TK_PercentEquals, TK_CaretEquals, TK_AndAnd, TK_AndEquals, TK_OrOr, TK_OrEquals, TK_EqualEqual,
     TK_NotEqual, TK_ShiftLeft, TK_LessEquals, TK_ShiftRight, TK_GreaterEquals, TK_Exclamation, TK_Question,
     TK_OpenAngle, TK_OpenCurly, TK_OpenParen, TK_OpenSquare, TK_CloseAngle, TK_CloseCurly, TK_CloseParen,
     TK_CloseSquare, TK_Colon, TK_Comma, TK_Dot, TK_SemiColon, TK_At, TK_Plus, TK_Minus, TK_Star, TK_Slash,
     TK_Percent, TK_Caret, TK_And, TK_Or, TK_Tilde, TK_Equal]"

definition punct_at :: "u8 list \<Rightarrow> TokenKind option" where
  "punct_at cs = find (\<lambda>k. starts_with (kind_bytes k) cs) punct_kinds"

lemma kind_bytes_simps [simp]:
  "kind_bytes TK_Exclamation = [33]"
  "kind_bytes TK_Question = [63]"
  "kind_bytes TK_Pound = [35]"
  "kind_bytes TK_OpenAngle = [60]"
  "kind_bytes TK_OpenCurly = [123]"
  "kind_bytes TK_OpenParen = [40]"
  "kind_bytes TK_OpenSquare = [91]"
  "kind_bytes TK_CloseAngle = [62]"
  "kind_bytes TK_CloseCurly = [125]"
  "kind_bytes TK_CloseParen = [41]"
  "kind_bytes TK_CloseSquare = [93]"
  "kind_bytes TK_Colon = [58]"
  "kind_bytes TK_Comma = [44]"
  "kind_bytes TK_Dot = [46]"
  "kind_bytes TK_SemiColon = [59]"
  "kind_bytes TK_At = [64]"
  "kind_bytes TK_Plus = [43]"
  "kind_bytes TK_Minus = [45]"
  "kind_bytes TK_Star = [42]"
  "kind_bytes TK_Slash = [47]"
  "kind_bytes TK_Percent = [37]"
  "kind_bytes TK_Caret = [94]"
  "kind_bytes TK_And = [38]"
  "kind_bytes TK_Or = [124]"
  "kind_bytes TK_Tilde = [126]"
  "kind_bytes TK_Equal = [61]"
  "kind_bytes TK_ColonColon = [58, 58]"
  "kind_bytes TK_DotDot = [46, 46]"
  "kind_bytes TK_ArrowRight = [45, 62]"
  "kind_bytes TK_AtEquals = [64, 61]"
  "kind_bytes TK_PlusPlus = [43, 43]"
  "kind_bytes TK_PlusEquals = [43, 61]"
  "kind_bytes TK_MinusMinus = [45, 45]"
  "kind_bytes TK_MinusEquals = [45, 61]"
  "kind_bytes TK_StarEquals = [42, 61]"
  "kind_bytes TK_SlashEquals = [47, 61]"
  "kind_bytes TK_PercentEquals = [37, 61]"
  "kind_bytes TK_CaretEquals = [94, 61]"
  "kind_bytes TK_AndAnd = [38, 38]"
  "kind_bytes TK_AndEquals = [38, 61]"
  "kind_bytes TK_OrOr = [124, 124]"
  "kind_bytes TK_OrEquals = [124, 61]"
  "kind_bytes TK_EqualEqual = [61, 61]"
  "kind_bytes TK_NotEqual = [33, 61]"
  "kind_bytes TK_ShiftLeft = [60, 60]"
  "kind_bytes TK_LessEquals = [60, 61]"
  "kind_bytes TK_ShiftRight = [62, 62]"
  "kind_bytes TK_GreaterEquals = [62, 61]"
  "kind_bytes TK_ShiftLeftEquals = [60, 60, 61]"
  "kind_bytes TK_ShiftRightEquals = [62, 62, 61]"
  by (simp_all add: kind_bytes_def)

lemma find_longest:
  "find P ks = Some k \<Longrightarrow> sorted_wrt (\<lambda>x y. len y \<le> (len x :: nat)) ks \<Longrightarrow>
    k \<in> set ks \<and> P k \<and> (\<forall>k' \<in> set ks. P k' \<longrightarrow> len k' \<le> len k)"
  by (induction ks) (auto split: if_splits)

lemma punct_at_longest:
  assumes "punct_at cs = Some k"
  shows "k \<in> set punct_kinds" "starts_with (kind_bytes k) cs"
    "\<And>k'. k' \<in> set punct_kinds \<Longrightarrow> starts_with (kind_bytes k') cs \<Longrightarrow> length (kind_bytes k') \<le> length (kind_bytes k)"
proof -
  have "sorted_wrt (\<lambda>x y. length (kind_bytes y) \<le> length (kind_bytes x)) punct_kinds"
    by (simp add: punct_kinds_def)
  from find_longest [OF assms [unfolded punct_at_def] this]
  show "k \<in> set punct_kinds" "starts_with (kind_bytes k) cs"
    "\<And>k'. k' \<in> set punct_kinds \<Longrightarrow> starts_with (kind_bytes k') cs \<Longrightarrow> length (kind_bytes k') \<le> length (kind_bytes k)"
    by blast+
qed

lemma punct_step [tok_simps]:
  "small_input bs \<Longrightarrow> k < length bs \<Longrightarrow> punct debug longer kind (at_offset name bs t b k) =
    (case drop (Suc k) bs of
       [] \<Rightarrow> (Ok kind, at_offset name bs t b (Suc k))
     | d # _ \<Rightarrow> (case map_of longer d of
         Some m \<Rightarrow> m (at_offset name bs t b (Suc k)) | None \<Rightarrow> (Ok kind, at_offset name bs t b (Suc k))))"
  by (cases "Suc k < length bs")
    (simp_all add: punct_def act_bind_def tok_simps act_ret_def Cons_nth_drop_Suc [symmetric] split: option.split)

lemma slash_step [tok_simps]:
  "small_input bs \<Longrightarrow> k < length bs \<Longrightarrow> \<not> starts_with (bytes_of ''/'') (drop (Suc k) bs) \<Longrightarrow>
    \<not> starts_with (bytes_of ''*'') (drop (Suc k) bs) \<Longrightarrow>
    slash debug (at_offset name bs t b k) =
      (case drop (Suc k) bs of
         d # _ \<Rightarrow> if d = byte CHR ''='' then (Ok TK_SlashEquals, at_offset name bs t b (Suc (Suc k)))
           else (Ok TK_Slash, at_offset name bs t b (Suc k))
       | [] \<Rightarrow> (Ok TK_Slash, at_offset name bs t b (Suc k)))"
  by (cases "Suc k < length bs")
    (simp_all add: slash_def act_bind_def tok_simps act_ret_def Cons_nth_drop_Suc [symmetric] split: list.split)

text \<open>The bytes that start a token of punctuation.\<close>

definition punct_starts :: "u8 list" where
  "punct_starts = bytes_of ''!%&()*+,-./:;<=>?@[]^{|}~''"

lemma punctuation_at:
  assumes small: "small_input bs" and k: "k < length bs" "bs ! k \<in> set punct_starts"
    and slash: "bs ! k = byte CHR ''/'' \<Longrightarrow> \<not> starts_with (bytes_of ''/'') (drop (Suc k) bs) \<and>
      \<not> starts_with (bytes_of ''*'') (drop (Suc k) bs)"
  shows "\<exists>m kind. punctuation debug (bs ! k) = Some m \<and> punct_at (drop k bs) = Some kind \<and>
    m (at_offset name bs t b k) = (Ok kind, at_offset name bs t b (k + length (kind_bytes kind)))"
proof -
  obtain rest where rest: "drop (Suc k) bs = rest" by simp
  have cs: "drop k bs = bs ! k # rest" using k(1) rest by (simp flip: Cons_nth_drop_Suc)
  have next_byte: "Suc k < length bs \<and> drop (Suc (Suc k)) bs = rest'" if "rest = d # rest'" for d rest'
    using that rest by (metis drop_Suc_Cons drop_eq_Nil2 drop_Suc list.distinct(1) list.sel(3) not_less tl_drop)
  have step2: "\<And>longer kind. punct debug longer kind (at_offset name bs t b (Suc k)) =
    (case rest' of
       [] \<Rightarrow> (Ok kind, at_offset name bs t b (Suc (Suc k)))
     | d # _ \<Rightarrow> (case map_of longer d of
         Some m \<Rightarrow> m (at_offset name bs t b (Suc (Suc k))) | None \<Rightarrow> (Ok kind, at_offset name bs t b (Suc (Suc k)))))"
    if "rest = d # rest'" for d rest'
    using next_byte [OF that] small by (simp add: tok_simps)
  have step3: "\<And>kind. punct debug [] kind (at_offset name bs t b (Suc (Suc k))) = (Ok kind, at_offset name bs t b (Suc (Suc (Suc k))))"
    if "rest = d # e # rest'" for d e rest'
  proof -
    have "Suc (Suc k) < length bs"
      using next_byte [OF that] by (metis drop_eq_Nil2 list.distinct(1) not_less)
    then show "punct debug [] kind (at_offset name bs t b (Suc (Suc k))) = (Ok kind, at_offset name bs t b (Suc (Suc (Suc k))))" for kind
      using small by (simp add: tok_simps split: list.split)
  qed
  note step1 = punct_step [OF small k(1), unfolded rest]
  have "bs ! k \<in> {33, 37, 38, 40, 41, 42, 43, 44, 45, 46, 47, 58, 59, 60, 61, 62, 63, 64, 91, 93, 94, 123, 124, 125, 126}"
    using k(2) by (simp add: punct_starts_def)
  then have c: "bs ! k = 33 \<or> bs ! k = 37 \<or> bs ! k = 38 \<or> bs ! k = 40 \<or> bs ! k = 41 \<or> bs ! k = 42 \<or> bs ! k = 43 \<or>
      bs ! k = 44 \<or> bs ! k = 45 \<or> bs ! k = 46 \<or> bs ! k = 47 \<or> bs ! k = 58 \<or> bs ! k = 59 \<or> bs ! k = 60 \<or>
      bs ! k = 61 \<or> bs ! k = 62 \<or> bs ! k = 63 \<or> bs ! k = 64 \<or> bs ! k = 91 \<or> bs ! k = 93 \<or> bs ! k = 94 \<or>
      bs ! k = 123 \<or> bs ! k = 124 \<or> bs ! k = 125 \<or> bs ! k = 126"
    by simp
  note slash' = slash_step [OF small k(1), unfolded rest]
  note eval = Let_def punctuation_def punct_at_def punct_kinds_def step1 slash'
  consider "rest = []" | d where "rest = [d]" | d e rest' where "rest = d # e # rest'"
    by (metis neq_Nil_conv)
  then show ?thesis
  proof cases
    case 1
    show ?thesis using c unfolding cs 1 by (elim disjE) (simp_all add: eval 1)
  next
    case 2
    show ?thesis using c slash unfolding cs rest 2 by (elim disjE) (simp_all add: eval 2 step2 [OF 2] next_byte [OF 2])
  next
    case 3
    show ?thesis using c slash unfolding cs rest 3
      by (elim disjE) (simp_all add: eval 3 step2 [OF 3] step3 [OF 3] next_byte [OF 3])
  qed
qed

lemma punctuation_None: "c \<notin> set punct_starts \<Longrightarrow> punctuation debug c = None"
  by (simp add: punct_starts_def punctuation_def Let_def)

lemma maybe_parse_punctuation_at:
  assumes small: "small_input bs" and k: "k < length bs"
    and c: "bs ! k \<noteq> byte CHR ''#''" "bs ! k \<noteq> quote" "bs ! k \<noteq> double_quote"
    and slash: "bs ! k = byte CHR ''/'' \<Longrightarrow> \<not> starts_with (bytes_of ''/'') (drop (Suc k) bs) \<and>
      \<not> starts_with (bytes_of ''*'') (drop (Suc k) bs)"
  shows "maybe_parse_punctuation debug (bs ! k) (at_offset name bs t b k) =
    (if bs ! k \<in> set punct_starts then
       (case punct_at (drop k bs) of
          Some kind \<Rightarrow> (Ok (Some (kind, pos_at bs k)),
            at_offset name bs t (b\<lparr>tokens := tokens b @ [Token_new kind (pos_at bs k)]\<rparr>) (k + length (kind_bytes kind)))
        | None \<Rightarrow> (Panic, at_offset name bs t b k))
     else if \<not> is_ascii (bs ! k)
     then (Err (error_at name bs k ''encountered a non-ASCII character''), at_offset name bs t b k)
     else (Ok None, at_offset name bs t b k))"
proof (cases "bs ! k \<in> set punct_starts")
  case True
  from punctuation_at [OF small k True slash] obtain m kind where
    m: "punctuation debug (bs ! k) = Some m" "punct_at (drop k bs) = Some kind"
      "m (at_offset name bs t b k) = (Ok kind, at_offset name bs t b (k + length (kind_bytes kind)))"
    by blast
  then show ?thesis
    using True c by (simp add: maybe_parse_punctuation_def act_bind_def tok_simps act_ret_def)
next
  case False
  then show ?thesis
    using small k c
    by (simp add: maybe_parse_punctuation_def act_bind_def tok_simps act_ret_def punctuation_None)
qed

section \<open>Lexemes\<close>

text \<open>
  The lexical grammar. \<open>lexeme bs kind i j\<close>: the bytes from \<open>i\<close> up to \<open>j\<close> are a token of that
  kind. Identifiers, numbers and pragmas extend as far as possible, punctuation is the
  longest token that matches. A literal is closed by its quotation mark; the source
  also accepts one that reaches the end of the file, if the last byte is such a mark.
\<close>

definition closed_by :: "nat option \<Rightarrow> u8 \<Rightarrow> u8 list \<Rightarrow> nat \<Rightarrow> nat \<Rightarrow> bool" where
  "closed_by e q bs i j \<longleftrightarrow> bs ! i = q \<and> i < j \<and> bs ! (j - 1) = q \<and> (\<forall>n. i \<le> n \<and> n < j \<longrightarrow> is_ascii (bs ! n)) \<and>
     (case e of Some n \<Rightarrow> j = Suc i + n | None \<Rightarrow> j = length bs)"

definition comment_start :: "u8 list \<Rightarrow> bool" where
  "comment_start cs \<longleftrightarrow> starts_with (bytes_of ''//'') cs \<or> starts_with (bytes_of ''/*'') cs"

definition lexeme :: "u8 list \<Rightarrow> TokenKind \<Rightarrow> nat \<Rightarrow> nat \<Rightarrow> bool" where
  "lexeme bs kind i j \<longleftrightarrow> i < j \<and> j \<le> length bs \<and>
     (if kind = TK_Ident then is_identifier_start (bs ! i) \<and> j = run_end is_identifier_remaining bs i
      else if kind = TK_Pragma then bs ! i = byte CHR ''#'' \<and> Suc i < length bs \<and> is_identifier_start (bs ! Suc i) \<and>
        j = run_end is_identifier_remaining bs (Suc i)
      else if kind = TK_Integer then is_integer_literal_start (bs ! i) \<and> j = run_end maybe_number_remaining bs i
      else if kind = TK_String then closed_by (string_end (drop (Suc i) bs)) double_quote bs i j
      else if kind = TK_Character then closed_by (find_end ends_char quote (drop (Suc i) bs)) quote bs i j
      else if kind = TK_LineComment then starts_with (bytes_of ''//'') (drop i bs) \<and> j = line_end_at bs (i + 2)
      else if kind = TK_BlockComment then starts_with (bytes_of ''/*'') (drop i bs) \<and> i + 2 < j \<and>
        find_end ends_block (byte CHR '' '') (drop (i + 2) bs) = Some (j - (i + 2))
      else if kind = TK_Pound then bs ! i = byte CHR ''#'' \<and> j = Suc i \<and>
        \<not> (j < length bs \<and> is_identifier_start (bs ! j))
      else punct_at (drop i bs) = Some kind \<and> j = i + length (kind_bytes kind) \<and> \<not> comment_start (drop i bs))"

text \<open>The tokens of a lexeme, with the quirk of line comments, and the white space between lexemes.\<close>

definition emit :: "u8 list \<Rightarrow> TokenKind \<times> nat \<times> nat \<Rightarrow> Token list" where
  "emit bs lx = (case lx of (kind, i, j) \<Rightarrow>
     if has_span_end kind then [Token_new kind (pos_at bs i),
       Token_new TK_SpanEnd (pos_at bs (if kind = TK_LineComment then comment_end bs j else j))]
     else [Token_new kind (pos_at bs i)])"

definition blank :: "u8 list \<Rightarrow> nat \<Rightarrow> nat \<Rightarrow> bool" where
  "blank bs i j \<longleftrightarrow> i \<le> j \<and> (\<forall>n. i \<le> n \<and> n < j \<longrightarrow> is_whitespace (bs ! n))"

fun tiles :: "u8 list \<Rightarrow> nat \<Rightarrow> (TokenKind \<times> nat \<times> nat) list \<Rightarrow> nat \<Rightarrow> bool" where
  "tiles bs i [] k \<longleftrightarrow> blank bs i k"
| "tiles bs i ((kind, s, e) # lxs) k \<longleftrightarrow> blank bs i s \<and> lexeme bs kind s e \<and> tiles bs e lxs k"

lemma blank_refl [simp]: "blank bs i i"
  by (auto simp: blank_def)

lemma blank_trans: "blank bs i j \<Longrightarrow> blank bs j k \<Longrightarrow> blank bs i k"
  unfolding blank_def by (meson le_trans not_less)

lemma tiles_blank: "tiles bs i lxs j \<Longrightarrow> blank bs j k \<Longrightarrow> tiles bs i lxs k"
  by (induction bs i lxs j rule: tiles.induct) (auto intro: blank_trans)

lemma tiles_snoc: "tiles bs i lxs s \<Longrightarrow> lexeme bs kind s e \<Longrightarrow> tiles bs i (lxs @ [(kind, s, e)]) e"
  by (induction bs i lxs s rule: tiles.induct) auto

end
