(* ===== verification/Lexical_Grammar.thy ===== *)
theory Lexical_Grammar
  imports Tokenizer_Lexing
begin

text \<open>
  The lexical grammar is unambiguous: at most one lexeme starts at an offset of a file, no
  lexeme starts with white space, and so a file is divided into lexemes in at most one way.
\<close>

lemma has_span_end_iff:
  "has_span_end k \<longleftrightarrow> k \<in> {TK_Ident, TK_Pragma, TK_Integer, TK_String, TK_Character, TK_LineComment, TK_BlockComment}"
  by (cases k) (simp_all add: has_span_end_def less_eq_TokenKind_def)

lemma starts_with_two:
  "starts_with [c, d] (drop k bs) \<longleftrightarrow> Suc k < length bs \<and> bs ! k = c \<and> bs ! Suc k = d"
proof (cases "Suc k < length bs")
  case True
  then have "drop k bs = bs ! k # bs ! Suc k # drop (Suc (Suc k)) bs"
    by (simp add: Cons_nth_drop_Suc Suc_lessD)
  then show ?thesis using True by auto
next
  case False
  then have "length (drop k bs) < 2" by simp
  then show ?thesis using False by (cases "drop k bs"; cases "tl (drop k bs)") auto
qed

lemma comment_start_iff:
  "comment_start (drop k bs) \<longleftrightarrow>
     Suc k < length bs \<and> bs ! k = byte CHR ''/'' \<and> (bs ! Suc k = byte CHR ''/'' \<or> bs ! Suc k = byte CHR ''*'')"
  by (auto simp: comment_start_def starts_with_two)

section \<open>The first byte of a lexeme\<close>

lemma punct_kinds_start: "kind \<in> set punct_kinds \<Longrightarrow> \<exists>cs. kind_bytes kind = hd (kind_bytes kind) # cs \<and> hd (kind_bytes kind) \<in> set punct_starts"
  by (auto simp: punct_kinds_def punct_starts_def)

lemma punct_at_start:
  assumes "punct_at (drop k bs) = Some kind" "k < length bs"
  shows "bs ! k \<in> set punct_starts"
proof -
  obtain cs where cs: "kind_bytes kind = hd (kind_bytes kind) # cs" "hd (kind_bytes kind) \<in> set punct_starts"
    using punct_kinds_start [OF punct_at_longest(1) [OF assms(1)]] by blast
  have "starts_with (hd (kind_bytes kind) # cs) (bs ! k # drop (Suc k) bs)"
    using punct_at_longest(2) [OF assms(1)] cs(1) Cons_nth_drop_Suc [OF assms(2)] by metis
  then show ?thesis using cs(2) by simp
qed

lemma byte_classes:
  "is_identifier_start c \<Longrightarrow> c \<notin> set punct_starts \<and> \<not> is_integer_literal_start c \<and> \<not> is_whitespace c \<and> is_ascii c \<and>
     c \<noteq> quote \<and> c \<noteq> double_quote \<and> c \<noteq> byte CHR ''#'' \<and> c \<noteq> byte CHR ''/''"
  "is_integer_literal_start c \<Longrightarrow> c \<notin> set punct_starts \<and> \<not> is_whitespace c \<and> is_ascii c \<and>
     c \<noteq> quote \<and> c \<noteq> double_quote \<and> c \<noteq> byte CHR ''#'' \<and> c \<noteq> byte CHR ''/''"
  "c \<in> set punct_starts \<Longrightarrow> \<not> is_whitespace c \<and> is_ascii c \<and> c \<noteq> quote \<and> c \<noteq> double_quote \<and> c \<noteq> byte CHR ''#''"
  by (auto simp: is_identifier_start_def is_integer_literal_start_def is_whitespace_def is_ascii_def punct_starts_def
      word_le_nat_alt word_less_nat_alt)

text \<open>The only lexeme that can start at an offset, as a function.\<close>

definition lexeme_from :: "u8 list \<Rightarrow> nat \<Rightarrow> TokenKind \<times> nat" where
  "lexeme_from bs i = (let c = bs ! i; cs = drop (Suc i) bs in
     if is_identifier_start c then (TK_Ident, run_end is_identifier_remaining bs i)
     else if is_integer_literal_start c then (TK_Integer, run_end maybe_number_remaining bs i)
     else if c = byte CHR ''#'' then
       (if Suc i < length bs \<and> is_identifier_start (bs ! Suc i)
        then (TK_Pragma, run_end is_identifier_remaining bs (Suc i)) else (TK_Pound, Suc i))
     else if c = double_quote then (TK_String, Suc i + up_to (string_end cs) cs)
     else if c = quote then (TK_Character, Suc i + up_to (find_end ends_char quote cs) cs)
     else if starts_with (bytes_of ''//'') (drop i bs) then (TK_LineComment, line_end_at bs (i + 2))
     else if starts_with (bytes_of ''/*'') (drop i bs) then
       (TK_BlockComment, i + 2 + the (find_end ends_block (byte CHR '' '') (drop (i + 2) bs)))
     else (let kind = the (punct_at (drop i bs)) in (kind, i + length (kind_bytes kind))))"

lemma closed_by_end:
  assumes "closed_by eo q bs i j" "j \<le> length bs"
  shows "j = Suc i + up_to eo (drop (Suc i) bs)" "bs ! i = q"
  using assms by (auto simp: closed_by_def up_to_def split: option.splits)

lemma lexeme_from:
  assumes "lexeme bs kind i j"
  shows "lexeme_from bs i = (kind, j) \<and> is_ascii (bs ! i) \<and> \<not> is_whitespace (bs ! i)"
proof -
  have i: "i < length bs" "i < j" "j \<le> length bs" using assms by (auto simp: lexeme_def)
  have slash: "byte CHR ''/'' \<in> set punct_starts" by (simp add: punct_starts_def)
  consider "kind = TK_Ident" | "kind = TK_Pragma" | "kind = TK_Integer" | "kind = TK_String" | "kind = TK_Character"
    | "kind = TK_LineComment" | "kind = TK_BlockComment" | "kind = TK_Pound"
    | "kind \<notin> {TK_Ident, TK_Pragma, TK_Integer, TK_String, TK_Character, TK_LineComment, TK_BlockComment, TK_Pound}"
    by auto
  then show ?thesis
  proof cases
    case 1
    then have "is_identifier_start (bs ! i)" using assms by (simp add: lexeme_def)
    with byte_classes(1) [OF this] show ?thesis using assms 1 by (simp add: lexeme_def lexeme_from_def Let_def)
  next
    case 2
    then have "bs ! i = byte CHR ''#''" using assms by (simp add: lexeme_def)
    then show ?thesis
      using assms 2 byte_classes(1,2) [of "bs ! i"]
      by (auto simp: lexeme_def lexeme_from_def Let_def is_ascii_def is_whitespace_def)
  next
    case 3
    then have "is_integer_literal_start (bs ! i)" using assms by (simp add: lexeme_def)
    with byte_classes(2) [OF this] byte_classes(1) [of "bs ! i"] show ?thesis
      using assms 3 by (auto simp: lexeme_def lexeme_from_def Let_def)
  next
    case 4
    then have "closed_by (string_end (drop (Suc i) bs)) double_quote bs i j" using assms by (simp add: lexeme_def)
    from closed_by_end [OF this i(3)] have "j = Suc i + up_to (string_end (drop (Suc i) bs)) (drop (Suc i) bs)"
      "bs ! i = double_quote" by auto
    moreover from this have "\<not> is_identifier_start (bs ! i)" "\<not> is_integer_literal_start (bs ! i)"
      using byte_classes(1,2) [of "bs ! i"] by auto
    ultimately show ?thesis
      using 4 by (simp add: lexeme_from_def Let_def is_ascii_def is_whitespace_def)
  next
    case 5
    then have "closed_by (find_end ends_char quote (drop (Suc i) bs)) quote bs i j" using assms by (simp add: lexeme_def)
    from closed_by_end [OF this i(3)] have
      "j = Suc i + up_to (find_end ends_char quote (drop (Suc i) bs)) (drop (Suc i) bs)" "bs ! i = quote" by auto
    moreover from this have "\<not> is_identifier_start (bs ! i)" "\<not> is_integer_literal_start (bs ! i)"
      using byte_classes(1,2) [of "bs ! i"] by auto
    ultimately show ?thesis
      using 5 by (simp add: lexeme_from_def Let_def is_ascii_def is_whitespace_def)
  next
    case 6
    then have "starts_with (bytes_of ''//'') (drop i bs)" using assms by (simp add: lexeme_def)
    moreover from this have "bs ! i = byte CHR ''/''" by (simp add: starts_with_two)
    ultimately show ?thesis
      using assms 6 byte_classes(1,2) [of "bs ! i"] by (auto simp: lexeme_def lexeme_from_def Let_def is_ascii_def is_whitespace_def)
  next
    case 7
    then have "starts_with (bytes_of ''/*'') (drop i bs)" using assms by (simp add: lexeme_def)
    moreover from this have "bs ! i = byte CHR ''/''" "\<not> starts_with (bytes_of ''//'') (drop i bs)"
      by (simp_all add: starts_with_two)
    ultimately show ?thesis
      using assms 7 byte_classes(1,2) [of "bs ! i"] by (auto simp: lexeme_def lexeme_from_def Let_def is_ascii_def is_whitespace_def)
  next
    case 8
    then have "bs ! i = byte CHR ''#''" using assms by (simp add: lexeme_def)
    then show ?thesis
      using assms 8 byte_classes(1,2) [of "bs ! i"]
      by (auto simp: lexeme_def lexeme_from_def Let_def is_ascii_def is_whitespace_def)
  next
    case 9
    then have l: "punct_at (drop i bs) = Some kind" "j = i + length (kind_bytes kind)" "\<not> comment_start (drop i bs)"
      using assms by (simp_all add: lexeme_def)
    have c: "bs ! i \<in> set punct_starts" using punct_at_start [OF l(1) i(1)] .
    then show ?thesis
      using l byte_classes(3) [OF c] byte_classes(1,2) [of "bs ! i"]
      by (auto simp: lexeme_from_def Let_def comment_start_def)
  qed
qed

lemma lexeme_unique:
  "lexeme bs kind i j \<Longrightarrow> lexeme bs kind' i j' \<Longrightarrow> kind' = kind \<and> j' = j"
  using lexeme_from [of bs kind i j] lexeme_from [of bs kind' i j'] by simp

section \<open>Dividing a file\<close>

lemma tiles_not_blank:
  assumes "tiles bs k lxs n" "k < n" "\<not> is_whitespace (bs ! k)"
  obtains kind j lxs' where "lxs = (kind, k, j) # lxs'" "lexeme bs kind k j" "tiles bs j lxs' n"
proof (cases lxs)
  case Nil
  then show ?thesis using assms by (auto simp: blank_def)
next
  case (Cons lx lxs')
  obtain kind s e where lx: "lx = (kind, s, e)" by (cases lx)
  then have t: "blank bs k s" "lexeme bs kind s e" "tiles bs e lxs' n" using assms(1) Cons by simp_all
  have "s = k"
  proof (rule ccontr)
    assume "s \<noteq> k"
    then show False using t(1) assms(3) by (auto simp: blank_def)
  qed
  then show ?thesis using that t Cons lx by simp
qed

lemma tiles_lexeme:
  assumes "tiles bs k lxs n" "lexeme bs kind k j" "j \<le> n"
  obtains lxs' where "lxs = (kind, k, j) # lxs'" "tiles bs j lxs' n"
proof -
  have k: "k < n" "\<not> is_whitespace (bs ! k)"
    using assms(2,3) lexeme_from [OF assms(2)] by (auto simp: lexeme_def)
  from tiles_not_blank [OF assms(1) k] obtain kind' j' lxs'
    where l: "lxs = (kind', k, j') # lxs'" "lexeme bs kind' k j'" "tiles bs j' lxs' n" .
  with lexeme_unique [OF assms(2) l(2)] that show ?thesis by simp
qed

lemma tiles_after_blank:
  assumes "tiles bs k lxs n" "blank bs k k'" "k' \<le> n"
  shows "tiles bs k' lxs n"
proof (cases lxs)
  case Nil
  then show ?thesis using assms by (auto simp: blank_def)
next
  case (Cons lx lxs')
  obtain kind s e where lx: "lx = (kind, s, e)" by (cases lx)
  then have t: "blank bs k s" "lexeme bs kind s e" "tiles bs e lxs' n" using assms(1) Cons by simp_all
  have "k' \<le> s"
    using lexeme_from [OF t(2)] assms(2) t(1) by (auto simp: blank_def not_le [symmetric])
  then show ?thesis using assms(2) t Cons lx by (auto simp: blank_def)
qed

definition no_tiling :: "u8 list \<Rightarrow> nat \<Rightarrow> bool" where
  "no_tiling bs k \<longleftrightarrow> (\<forall>lxs. \<not> tiles bs k lxs (length bs))"

lemma no_tilingI:
  assumes "k < length bs" "\<not> is_whitespace (bs ! k)" "\<And>kind j. lexeme bs kind k j \<Longrightarrow> no_tiling bs j"
  shows "no_tiling bs k"
  unfolding no_tiling_def
proof (intro allI notI)
  fix lxs assume "tiles bs k lxs (length bs)"
  from tiles_not_blank [OF this assms(1,2)] assms(3) show False
    unfolding no_tiling_def by metis
qed

lemma no_tiling_non_ascii:
  assumes "k < length bs" "\<not> is_ascii (bs ! k)"
  shows "no_tiling bs k"
proof (rule no_tilingI)
  show "\<not> is_whitespace (bs ! k)" using assms(2) by (auto simp: is_whitespace_def is_ascii_def)
  show "no_tiling bs j" if "lexeme bs kind k j" for kind j using lexeme_from [OF that] assms(2) by simp
qed (rule assms(1))

lemma no_tiling_lexeme:
  assumes "lexeme bs kind k j" "no_tiling bs j"
  shows "no_tiling bs k"
proof (rule no_tilingI)
  show "k < length bs" "\<not> is_whitespace (bs ! k)"
    using assms(1) lexeme_from [OF assms(1)] by (auto simp: lexeme_def)
  show "no_tiling bs j'" if "lexeme bs kind' k j'" for kind' j'
    using lexeme_unique [OF assms(1) that] assms(2) by simp
qed

end
