(* ===== verification/Tokenizer_Steps.thy ===== *)
theory Tokenizer_Steps
  imports Lexical_Grammar
begin

text \<open>
  One iteration of the main loop of the tokenizer: it fails with an error at a position of
  the file, or consumes white space, or consumes one lexeme of the lexical grammar, appends
  its tokens and goes on with the tree of ranges.
\<close>

section \<open>Outcomes of the routines\<close>

definition fails_in :: "string \<Rightarrow> u8 list \<Rightarrow> ('a, ParseError) res \<times> Tokenizing \<Rightarrow> bool" where
  "fails_in name bs out \<longleftrightarrow> (\<exists>p msg. p \<le> length bs \<and> fst out = Err (error_at name bs p msg))"

lemma fails_inI: "p \<le> length bs \<Longrightarrow> fails_in name bs (Err (error_at name bs p msg), s)"
  by (auto simp: fails_in_def)

lemma fails_in_bind: "fails_in name bs (m s) \<Longrightarrow> fails_in name bs (act_bind m f s)"
proof -
  assume "fails_in name bs (m s)"
  then obtain p msg s' where "p \<le> length bs" "m s = (Err (error_at name bs p msg), s')"
    by (auto simp: fails_in_def) (metis prod.collapse)
  then show ?thesis by (auto simp: fails_in_def act_bind_def)
qed

lemma ascii_run_le: "ascii_run cs \<le> length cs"
  by (simp add: ascii_run_def length_takeWhile_le)

lemma ascii_run_nth: "i < ascii_run cs \<Longrightarrow> is_ascii (cs ! i)"
  unfolding ascii_run_def by (rule takeWhile_all_before)

lemma closed_byI:
  assumes k: "k < length bs" "bs ! k = q" "is_ascii q"
    and e: "e \<le> length bs - Suc k" "e = up_to eo (drop (Suc k) bs)"
    and run: "e \<le> ascii_run (drop (Suc k) bs)" and last: "last (q # take e (drop (Suc k) bs)) = q"
  shows "closed_by eo q bs k (Suc k + e)"
proof -
  have ascii: "is_ascii (bs ! n)" if "k \<le> n" "n < Suc k + e" for n
  proof (cases "n = k")
    case False
    then have "n - Suc k < ascii_run (drop (Suc k) bs)" "Suc k + (n - Suc k) = n" using that run by auto
    with ascii_run_nth [OF this(1)] k show ?thesis by simp
  qed (use k in simp)
  have "bs ! (k + e) = q"
  proof (cases e)
    case (Suc n)
    then have "last (take e (drop (Suc k) bs)) = q" using last e by (auto split: if_splits)
    moreover have "last (take e (drop (Suc k) bs)) = bs ! (k + e)"
      using Suc e k by (subst last_conv_nth) (auto simp: min_def)
    ultimately show ?thesis by simp
  qed (use k in simp)
  moreover have "case eo of Some n \<Rightarrow> Suc k + e = Suc k + n | None \<Rightarrow> Suc k + e = length bs"
    using e k by (auto simp: up_to_def split: option.splits)
  ultimately show ?thesis
    using ascii k unfolding closed_by_def by simp
qed

lemma not_closed_by:
  assumes k: "k < length bs" and e: "e \<le> length (drop (Suc k) bs)"
    and bad: "ascii_run (drop (Suc k) bs) < e \<or> last (q # take e (drop (Suc k) bs)) \<noteq> q"
  shows "\<not> closed_by eo q bs k (Suc k + e)"
proof
  let ?cs = "drop (Suc k) bs"
  assume closed: "closed_by eo q bs k (Suc k + e)"
  from bad show False
  proof
    assume run: "ascii_run ?cs < e"
    then have "ascii_run ?cs < length ?cs" using e by simp
    then have "\<not> is_ascii (?cs ! ascii_run ?cs)" unfolding ascii_run_def by (rule nth_length_takeWhile)
    moreover have "?cs ! ascii_run ?cs = bs ! (Suc k + ascii_run ?cs)" using k by (intro nth_drop) simp
    ultimately show False using closed run by (auto simp: closed_by_def)
  next
    assume last: "last (q # take e ?cs) \<noteq> q"
    then obtain n where n: "e = Suc n" by (cases e) auto
    then have "last (q # take e ?cs) = bs ! (k + e)"
      using e k by (subst last_ConsR, simp) (subst last_conv_nth, auto simp: min_def)
    then show False using closed last n by (simp add: closed_by_def)
  qed
qed

lemma literal_outcome_cases:
  assumes k: "k < length bs" "bs ! k = q" "is_ascii q"
    and e: "e \<le> length (drop (Suc k) bs)" "e = up_to eo (drop (Suc k) bs)"
  shows "fails_in name bs (literal_outcome name bs t b k kind q e m1 m2) \<and> \<not> closed_by eo q bs k (Suc k + e) \<or>
    closed_by eo q bs k (Suc k + e) \<and> Suc k + e \<le> length bs \<and>
    literal_outcome name bs t b k kind q e m1 m2 =
      (Ok (), at_offset name bs t (add_span kind (pos_at bs k) (pos_at bs (Suc k + e)) b) (Suc k + e))"
proof -
  let ?a = "ascii_run (drop (Suc k) bs)"
  have a: "Suc k + ?a \<le> length bs" using ascii_run_le [of "drop (Suc k) bs"] k by simp
  show ?thesis
  proof (cases "?a < e \<or> last (q # take e (drop (Suc k) bs)) \<noteq> q")
    case True
    then have "\<not> closed_by eo q bs k (Suc k + e)" using not_closed_by [OF k(1) e(1)] by blast
    with True show ?thesis using a k by (auto simp: literal_outcome_def Let_def intro!: fails_inI)
  next
    case False
    then show ?thesis
      using closed_byI [of k bs q e eo] assms by (auto simp: literal_outcome_def Let_def)
  qed
qed

section \<open>An iteration of the main loop\<close>

definition after_token :: "bool \<Rightarrow> u8 list \<Rightarrow> u32 \<Rightarrow> TokenKind \<times> nat \<times> nat \<Rightarrow> unit tok" where
  "after_token debug bs n lx = (case lx of (kind, i, j) \<Rightarrow>
     if kind = TK_Ident then
       (let ident = take (j - i) (drop i bs) in
        if demarks_definition ident then push_range debug RK_Definition n
        else if demarks_import ident then push_range debug RK_Import n else act_ret ())
     else if kind = TK_Pragma then push_range debug RK_Pragma n
     else handle_punctuation debug kind (pos_at bs i))"

definition after_blank :: "bool \<Rightarrow> bool \<Rightarrow> unit tok" where
  "after_blank debug contained_newline =
     (if contained_newline then pop_if debug (\<lambda>range. range_kind range = RK_Pragma) else act_ret ())"

definition add_tokens :: "Token list \<Rightarrow> TokenBuffer \<Rightarrow> TokenBuffer" where
  "add_tokens ts b = b\<lparr>tokens := tokens b @ ts\<rparr>"

definition consumes_lexeme :: "bool \<Rightarrow> string \<Rightarrow> u8 list \<Rightarrow> PassTokenizer \<Rightarrow> TokenBuffer \<Rightarrow> nat \<Rightarrow>
    (unit, ParseError) res \<times> Tokenizing \<Rightarrow> bool" where
  "consumes_lexeme debug name bs t b k out \<longleftrightarrow> (\<exists>kind j k'. lexeme bs kind k j \<and> blank bs j k' \<and> k' \<le> length bs \<and>
     out = after_token debug bs (of_nat (length (tokens b))) (kind, k, j)
       (at_offset name bs t (add_tokens (emit bs (kind, k, j)) b) k'))"

lemma consumes_lexemeI:
  "lexeme bs kind k j \<Longrightarrow> blank bs j k' \<Longrightarrow> k' \<le> length bs \<Longrightarrow>
   out = after_token debug bs (of_nat (length (tokens b))) (kind, k, j)
     (at_offset name bs t (add_tokens (emit bs (kind, k, j)) b) k') \<Longrightarrow>
   consumes_lexeme debug name bs t b k out"
  by (auto simp: consumes_lexeme_def)

definition iteration_ok :: "bool \<Rightarrow> string \<Rightarrow> u8 list \<Rightarrow> PassTokenizer \<Rightarrow> TokenBuffer \<Rightarrow> nat \<Rightarrow>
    (unit, ParseError) res \<times> Tokenizing \<Rightarrow> bool" where
  "iteration_ok debug name bs t b k out \<longleftrightarrow>
     fails_in name bs out \<and> no_tiling bs k \<or>
     (\<exists>k'. k < k' \<and> k' \<le> length bs \<and> blank bs k k' \<and>
        out = after_blank debug (newline \<in> set (takeWhile is_whitespace (drop k bs))) (at_offset name bs t b k')) \<or>
     consumes_lexeme debug name bs t b k out"

lemma emit_span: "has_span_end kind \<Longrightarrow> kind \<noteq> TK_LineComment \<Longrightarrow>
    add_span kind (pos_at bs i) (pos_at bs j) b = add_tokens (emit bs (kind, i, j)) b"
  by (simp add: add_span_def add_tokens_def emit_def)

lemma emit_punct: "\<not> has_span_end kind \<Longrightarrow>
    b\<lparr>tokens := tokens b @ [Token_new kind (pos_at bs i)]\<rparr> = add_tokens (emit bs (kind, i, j)) b"
  by (simp add: add_tokens_def emit_def)

lemma after_token_other:
  "kind \<notin> {TK_Ident, TK_Pragma, TK_OpenCurly, TK_CloseCurly, TK_SemiColon} \<Longrightarrow>
    after_token debug bs n (kind, i, j) s = (Ok (), s)"
  by (simp add: after_token_def handle_punctuation_def act_ret_def)

lemma punct_kinds_facts:
  "kind \<in> set punct_kinds \<Longrightarrow> \<not> has_span_end kind \<and> kind \<noteq> TK_Pound \<and> 0 < length (kind_bytes kind)"
  by (auto simp: punct_kinds_def has_span_end_iff)

text \<open>One lemma for each branch of the loop.\<close>

lemma run_lexeme:
  assumes "k < length bs" "k < j" "j \<le> length bs"
    and "out = (if j < length bs \<and> \<not> is_ascii (bs ! j) then (Err (error_at name bs j msg), s)
      else after_token debug bs (of_nat (length (tokens b))) (kind, k, j)
        (at_offset name bs t (add_tokens (emit bs (kind, k, j)) b) j))"
    and "lexeme bs kind k j"
  shows "fails_in name bs out \<and> no_tiling bs k \<or> consumes_lexeme debug name bs t b k out"
proof (cases "j < length bs \<and> \<not> is_ascii (bs ! j)")
  case True
  then have "no_tiling bs k" by (intro no_tiling_lexeme [OF assms(5) no_tiling_non_ascii]) simp_all
  with True show ?thesis using assms by (auto intro: fails_inI)
next
  case False
  then have "out = after_token debug bs (of_nat (length (tokens b))) (kind, k, j)
      (at_offset name bs t (add_tokens (emit bs (kind, k, j)) b) j)"
    using assms(4) by presburger
  from consumes_lexemeI [OF assms(5) blank_refl assms(3) this] show ?thesis ..
qed

lemma iteration_identifier:
  assumes small: "small_input bs" and k: "k < length bs" and c: "is_identifier_start (bs ! k)"
  shows "iteration_ok debug name bs t b k (tokenize_byte debug (bs ! k) (at_offset name bs t b k))"
proof -
  let ?j = "run_end is_identifier_remaining bs k"
  have not: "\<not> is_char_literal_start (bs ! k)" "\<not> is_string_literal_start (bs ! k)"
    using c by (auto simp: is_char_literal_start_def is_string_literal_start_def is_identifier_start_def)
  have "lexeme bs TK_Ident k ?j"
    using k c run_end_bounds [OF k, of is_identifier_remaining] by (simp add: lexeme_def)
  moreover have "tokenize_byte debug (bs ! k) (at_offset name bs t b k) =
      (if ?j < length bs \<and> \<not> is_ascii (bs ! ?j)
       then (Err (error_at name bs ?j ''encountered a non-ASCII character''), at_offset name bs t b ?j)
       else after_token debug bs (of_nat (length (tokens b))) (TK_Ident, k, ?j)
        (at_offset name bs t (add_tokens (emit bs (TK_Ident, k, ?j)) b) ?j))"
    using not c small k
    by (simp add: tokenize_byte_def act_bind_def tok_simps emit_span has_span_end_iff after_token_def Let_def)
  ultimately show ?thesis
    using run_lexeme [of k bs ?j] run_end_bounds [OF k, of is_identifier_remaining] k
    unfolding iteration_ok_def by (metis Suc_le_eq)
qed

lemma iteration_number:
  assumes small: "small_input bs" and k: "k < length bs" and c: "is_integer_literal_start (bs ! k)"
  shows "iteration_ok debug name bs t b k (tokenize_byte debug (bs ! k) (at_offset name bs t b k))"
proof -
  let ?j = "run_end maybe_number_remaining bs k"
  have not: "\<not> is_char_literal_start (bs ! k)" "\<not> is_string_literal_start (bs ! k)" "\<not> is_identifier_start (bs ! k)"
    using c by (auto simp: is_char_literal_start_def is_string_literal_start_def is_identifier_start_def
      is_integer_literal_start_def word_le_nat_alt)
  have "lexeme bs TK_Integer k ?j"
    using k c run_end_bounds [OF k, of maybe_number_remaining] by (simp add: lexeme_def)
  moreover have "tokenize_byte debug (bs ! k) (at_offset name bs t b k) =
      (if ?j < length bs \<and> \<not> is_ascii (bs ! ?j)
       then (Err (error_at name bs ?j ''encountered a non-ASCII character''), at_offset name bs t b ?j)
       else after_token debug bs (of_nat (length (tokens b))) (TK_Integer, k, ?j)
        (at_offset name bs t (add_tokens (emit bs (TK_Integer, k, ?j)) b) ?j))"
    using not c small k
    by (simp add: tokenize_byte_def act_bind_def tok_simps emit_span has_span_end_iff after_token_other)
  ultimately show ?thesis
    using run_lexeme [of k bs ?j] run_end_bounds [OF k, of maybe_number_remaining] k
    unfolding iteration_ok_def by (metis Suc_le_eq)
qed

lemma iteration_literal:
  assumes small: "small_input bs" and k: "k < length bs" and c: "bs ! k = quote \<or> bs ! k = double_quote"
  shows "iteration_ok debug name bs t b k (tokenize_byte debug (bs ! k) (at_offset name bs t b k))"
proof -
  let ?cs = "drop (Suc k) bs"
  define kind eo e m1 m2 where "kind = (if bs ! k = quote then TK_Character else TK_String)"
    and "eo = (if bs ! k = quote then find_end ends_char quote ?cs else string_end ?cs)"
    and "e = up_to eo ?cs"
    and "m1 = (if bs ! k = quote then ''non-ASCII character in char literal'' else ''non-ASCII character in string literal'')"
    and "m2 = (if bs ! k = quote then ''encountered unterminated character literal''
      else ''encountered unterminated string literal'')"
  have "tokenize_byte debug (bs ! k) (at_offset name bs t b k) =
      literal_outcome name bs t b k kind (bs ! k) e m1 m2"
    using c small k
    by (auto simp: tokenize_byte_def act_bind_def tok_simps is_char_literal_start_def is_string_literal_start_def
        kind_def eo_def e_def m1_def m2_def)
  moreover have "e \<le> length ?cs"
    using find_end_bound [of ends_char quote ?cs] up_to_string_end [of ?cs] by (simp add: e_def eo_def)
  moreover have "is_ascii (bs ! k)" using c by (auto simp: is_ascii_def)
  ultimately consider "fails_in name bs (tokenize_byte debug (bs ! k) (at_offset name bs t b k))"
        "\<not> closed_by eo (bs ! k) bs k (Suc k + e)"
    | "closed_by eo (bs ! k) bs k (Suc k + e)" "Suc k + e \<le> length bs"
      "tokenize_byte debug (bs ! k) (at_offset name bs t b k) =
        (Ok (), at_offset name bs t (add_span kind (pos_at bs k) (pos_at bs (Suc k + e)) b) (Suc k + e))"
    using literal_outcome_cases [OF k refl, of e eo name t b kind m1 m2] e_def by auto
  then show ?thesis
  proof cases
    case 2
    have "lexeme bs kind k (Suc k + e)"
      using 2(1,2) c by (auto simp: lexeme_def kind_def eo_def)
    moreover have "kind \<in> {TK_Character, TK_String}" by (simp add: kind_def)
    ultimately have "consumes_lexeme debug name bs t b k (tokenize_byte debug (bs ! k) (at_offset name bs t b k))"
      using 2 by (intro consumes_lexemeI [of _ _ _ "Suc k + e" "Suc k + e"])
        (auto simp: after_token_other emit_span has_span_end_iff)
    then show ?thesis by (simp add: iteration_ok_def)
  next
    case 1
    have "no_tiling bs k"
    proof (rule no_tilingI)
      fix kind' j assume l: "lexeme bs kind' k j"
      from lexeme_from [OF l] c have "kind' = kind" "j = Suc k + e"
        by (auto simp: lexeme_from_def Let_def kind_def e_def eo_def is_identifier_start_def is_integer_literal_start_def
            word_le_nat_alt split: if_splits)
      with l 1(2) c show "no_tiling bs j"
        by (auto simp: lexeme_def kind_def eo_def split: if_splits)
    qed (use k c in \<open>auto simp: is_whitespace_def\<close>)
    with 1 show ?thesis by (simp add: iteration_ok_def)
  qed
qed

lemma iteration_pound:
  assumes small: "small_input bs" and k: "k < length bs" and c: "bs ! k = byte CHR ''#''"
  shows "iteration_ok debug name bs t b k (tokenize_byte debug (bs ! k) (at_offset name bs t b k))"
proof -
  have not: "\<not> is_char_literal_start (bs ! k)" "\<not> is_string_literal_start (bs ! k)" "\<not> is_identifier_start (bs ! k)"
      "\<not> is_integer_literal_start (bs ! k)" "is_pragma_start_or_pound (bs ! k)"
    using c by (auto simp: is_char_literal_start_def is_string_literal_start_def is_identifier_start_def
      is_integer_literal_start_def is_pragma_start_or_pound_def)
  show ?thesis
  proof (cases "Suc k < length bs \<and> is_identifier_start (bs ! Suc k)")
    case True
    let ?j = "run_end is_identifier_remaining bs (Suc k)"
    have j: "k < ?j" "?j \<le> length bs"
      using run_end_bounds [of "Suc k" bs is_identifier_remaining] True by auto
    then have "lexeme bs TK_Pragma k ?j" using True c by (simp add: lexeme_def)
    moreover have "tokenize_byte debug (bs ! k) (at_offset name bs t b k) =
      (if ?j < length bs \<and> \<not> is_ascii (bs ! ?j)
       then (Err (error_at name bs ?j ''encountered a non-ASCII character''), at_offset name bs t b ?j)
       else after_token debug bs (of_nat (length (tokens b))) (TK_Pragma, k, ?j)
        (at_offset name bs t (add_tokens (emit bs (TK_Pragma, k, ?j)) b) ?j))"
      using not c small k True consume_pragma_or_pound_at [OF small k c, of debug name t b]
      by (simp add: tokenize_byte_def act_bind_def tok_simps emit_span has_span_end_iff after_token_def)
    ultimately show ?thesis
      using run_lexeme [OF k j] unfolding iteration_ok_def by metis
  next
    case False
    then have "lexeme bs TK_Pound k (Suc k)" using k c by (simp add: lexeme_def)
    moreover have "tokenize_byte debug (bs ! k) (at_offset name bs t b k) =
      after_token debug bs (of_nat (length (tokens b))) (TK_Pound, k, Suc k)
        (at_offset name bs t (add_tokens (emit bs (TK_Pound, k, Suc k)) b) (Suc k))"
      using not c small k False consume_pragma_or_pound_at [OF small k c, of debug name t b]
      by (simp add: tokenize_byte_def act_bind_def tok_simps emit_punct [where j = "Suc k"] has_span_end_iff
          after_token_other act_ret_def)
    ultimately have "consumes_lexeme debug name bs t b k (tokenize_byte debug (bs ! k) (at_offset name bs t b k))"
      using k by (intro consumes_lexemeI [of _ _ _ "Suc k" "Suc k"]) auto
    then show ?thesis by (simp add: iteration_ok_def)
  qed
qed

lemma iteration_comment:
  assumes small: "small_input bs" and k: "k < length bs" and c: "comment_start (drop k bs)"
  shows "iteration_ok debug name bs t b k (tokenize_byte debug (bs ! k) (at_offset name bs t b k))"
proof -
  from c have c': "Suc k < length bs" "bs ! k = byte CHR ''/''" "bs ! Suc k = byte CHR ''/'' \<or> bs ! Suc k = byte CHR ''*''"
    by (auto simp: comment_start_iff)
  have not: "\<not> is_char_literal_start (bs ! k)" "\<not> is_string_literal_start (bs ! k)" "\<not> is_identifier_start (bs ! k)"
      "\<not> is_integer_literal_start (bs ! k)" "\<not> is_pragma_start_or_pound (bs ! k)"
    using c' by (auto simp: is_char_literal_start_def is_string_literal_start_def is_identifier_start_def
      is_integer_literal_start_def is_pragma_start_or_pound_def)
  show ?thesis
  proof (cases "bs ! Suc k = byte CHR ''/''")
    case True
    let ?j = "line_end_at bs (k + 2)"
    let ?k = "if ?j < length bs then Suc ?j else ?j"
    have j: "k + 2 \<le> ?j" "?j \<le> length bs" "?j < length bs \<Longrightarrow> bs ! ?j = newline"
      using line_end_bounds [of "k + 2" bs] line_end_newline [of "k + 2" bs] c' by auto
    have "lexeme bs TK_LineComment k ?j"
      using j c' True by (simp add: lexeme_def starts_with_two)
    moreover have "blank bs ?j ?k"
      using j by (auto simp: blank_def is_whitespace_def less_Suc_eq)
    moreover have "tokenize_byte debug (bs ! k) (at_offset name bs t b k) =
      after_token debug bs (of_nat (length (tokens b))) (TK_LineComment, k, ?j)
        (at_offset name bs t (add_tokens (emit bs (TK_LineComment, k, ?j)) b) ?k)"
      using not c' True consume_line_comment_at [OF small c'(1,2) True, of debug name t b]
      by (simp add: tokenize_byte_def act_bind_def tok_simps is_line_comment_start_def act_ret_def after_token_other
          emit_def has_span_end_iff add_tokens_def add_span_def)
    ultimately have "consumes_lexeme debug name bs t b k (tokenize_byte debug (bs ! k) (at_offset name bs t b k))"
      using j by (intro consumes_lexemeI [of _ _ _ ?j ?k]) auto
    then show ?thesis by (simp add: iteration_ok_def)
  next
    case False
    then have star: "bs ! Suc k = byte CHR ''*''" using c' by simp
    have out: "tokenize_byte debug (bs ! k) (at_offset name bs t b k) = consume_block_comment debug (at_offset name bs t b k)"
      using not c' star
      by (simp add: tokenize_byte_def act_bind_def tok_simps is_line_comment_start_def is_block_comment_start_def act_ret_def)
    show ?thesis
    proof (cases "find_end ends_block (byte CHR '' '') (drop (k + 2) bs)")
      case None
      have "no_tiling bs k"
      proof (rule no_tilingI)
        fix kind j assume l: "lexeme bs kind k j"
        from lexeme_from [OF l] not c' star have "kind = TK_BlockComment"
          by (auto simp: lexeme_from_def Let_def starts_with_two split: if_splits)
        with l None show "no_tiling bs j" by (simp add: lexeme_def)
      qed (use k c' in \<open>auto simp: is_whitespace_def\<close>)
      then show ?thesis
        using None unfolding out consume_block_comment_at [OF small c'(1,2) star] by (simp add: iteration_ok_def fails_inI)
    next
      case (Some n)
      then have n: "0 < n" "k + 2 + n \<le> length bs" using c' by (auto simp: find_end_Some_iff)
      have "lexeme bs TK_BlockComment k (k + 2 + n)"
        using n c' star Some by (simp add: lexeme_def starts_with_two)
      moreover have "tokenize_byte debug (bs ! k) (at_offset name bs t b k) =
        after_token debug bs (of_nat (length (tokens b))) (TK_BlockComment, k, k + 2 + n)
          (at_offset name bs t (add_tokens (emit bs (TK_BlockComment, k, k + 2 + n)) b) (k + 2 + n))"
        unfolding out consume_block_comment_at [OF small c'(1,2) star] Some
        by (simp add: after_token_other emit_span has_span_end_iff)
      ultimately have "consumes_lexeme debug name bs t b k (tokenize_byte debug (bs ! k) (at_offset name bs t b k))"
        using n by (intro consumes_lexemeI [of _ _ _ "k + 2 + n" "k + 2 + n"]) auto
      then show ?thesis by (simp add: iteration_ok_def)
    qed
  qed
qed

lemma blank_run:
  assumes k: "k < length bs" "is_whitespace (bs ! k)"
  shows "blank bs k (run_end is_whitespace bs k)"
proof -
  have "is_whitespace (bs ! n)" if "k \<le> n" "n < run_end is_whitespace bs k" for n
  proof (cases "n = k")
    case False
    then have n: "n - Suc k < length (takeWhile is_whitespace (drop (Suc k) bs))" "Suc k + (n - Suc k) = n"
      using that by (auto simp: run_end_def)
    from takeWhile_all_before [OF n(1)] n(2) k show ?thesis by simp
  qed (use k in simp)
  then show ?thesis using run_end_bounds [OF k(1), of is_whitespace] by (auto simp: blank_def)
qed

lemma iteration_other:
  assumes small: "small_input bs" and k: "k < length bs"
    and not: "bs ! k \<noteq> quote" "bs ! k \<noteq> double_quote" "\<not> is_identifier_start (bs ! k)"
      "\<not> is_integer_literal_start (bs ! k)" "bs ! k \<noteq> byte CHR ''#''" "\<not> comment_start (drop k bs)"
  shows "iteration_ok debug name bs t b k (tokenize_byte debug (bs ! k) (at_offset name bs t b k))"
proof -
  note not' = not(1,2,5) [folded is_char_literal_start_def is_string_literal_start_def is_pragma_start_or_pound_def] not(3,4)
  have no_comment: "\<not> (bs ! k = byte CHR ''/'' \<and> Suc k < length bs \<and> bs ! Suc k = byte CHR ''/'')"
      "\<not> (bs ! k = byte CHR ''/'' \<and> Suc k < length bs \<and> bs ! Suc k = byte CHR ''*'')"
    using not(6) by (auto simp: comment_start_iff)
  show ?thesis
  proof (cases "is_whitespace (bs ! k)")
    case True
    have "bs ! k \<noteq> byte CHR ''/''" using True by (auto simp: is_whitespace_def)
    then have "tokenize_byte debug (bs ! k) (at_offset name bs t b k) =
      after_blank debug (newline \<in> set (takeWhile is_whitespace (drop k bs)))
        (at_offset name bs t b (run_end is_whitespace bs k))"
      using not' True small k
      by (simp add: tokenize_byte_def act_bind_def tok_simps is_line_comment_start_def is_block_comment_start_def
          act_ret_def after_blank_def)
    then show ?thesis
      using blank_run [OF k True] run_end_bounds [OF k, of is_whitespace] unfolding iteration_ok_def
      by (metis Suc_le_eq)
  next
    case not_white: False
    have slash: "bs ! k = byte CHR ''/'' \<Longrightarrow> \<not> starts_with (bytes_of ''/'') (drop (Suc k) bs) \<and>
        \<not> starts_with (bytes_of ''*'') (drop (Suc k) bs)"
      using no_comment by (cases "drop (Suc k) bs") (auto simp: nth_via_drop)
    note punct = maybe_parse_punctuation_at [OF small k not(5,1,2) slash, of debug name t b]
    have out: "tokenize_byte debug (bs ! k) (at_offset name bs t b k) =
        act_bind (maybe_parse_punctuation debug (bs ! k)) (\<lambda>was_punctuation. case was_punctuation of
             Some (token, token_pos) \<Rightarrow> handle_punctuation debug token token_pos
           | None \<Rightarrow> act_bind cur_pos (\<lambda>p. fail debug p ''unexpected character'')) (at_offset name bs t b k)"
      using not' not_white no_comment
      by (auto simp: tokenize_byte_def act_bind_def tok_simps is_line_comment_start_def is_block_comment_start_def act_ret_def)
    show ?thesis
    proof (cases "bs ! k \<in> set punct_starts")
      case True
      then obtain kind where kind: "punct_at (drop k bs) = Some kind"
        using punctuation_at [OF small k True slash] by blast
      note longest = punct_at_longest [OF kind]
      note facts = punct_kinds_facts [OF longest(1)]
      let ?j = "k + length (kind_bytes kind)"
      have "length (kind_bytes kind) \<le> length (drop k bs)"
        using longest(2) unfolding starts_with_iff by (metis length_take min.cobounded2 min.commute)
      then have j: "k < ?j" "?j \<le> length bs" using facts k by auto
      have "lexeme bs kind k ?j"
        using facts j kind not(6) by (auto simp: lexeme_def has_span_end_iff)
      moreover have "tokenize_byte debug (bs ! k) (at_offset name bs t b k) =
        after_token debug bs (of_nat (length (tokens b))) (kind, k, ?j)
          (at_offset name bs t (add_tokens (emit bs (kind, k, ?j)) b) ?j)"
        using True kind facts unfolding out
        by (simp add: act_bind_def punct after_token_def emit_punct [where j = ?j] has_span_end_iff)
      ultimately have "consumes_lexeme debug name bs t b k (tokenize_byte debug (bs ! k) (at_offset name bs t b k))"
        using j by (intro consumes_lexemeI [of _ _ _ ?j ?j]) auto
      then show ?thesis by (simp add: iteration_ok_def)
    next
      case False
      then have "fails_in name bs (tokenize_byte debug (bs ! k) (at_offset name bs t b k))"
        unfolding out using small k by (auto simp: act_bind_def punct tok_simps intro!: fails_inI)
      moreover have "no_tiling bs k"
      proof (rule no_tilingI)
        fix kind j assume l: "lexeme bs kind k j"
        then have "bs ! k \<in> set punct_starts"
          using not no_comment punct_at_start [of k bs kind] k
          by (auto simp: lexeme_def starts_with_two closed_by_def split: if_splits)
        with False show "no_tiling bs j" ..
      qed (use k not_white in auto)
      ultimately show ?thesis by (simp add: iteration_ok_def)
    qed
  qed
qed

lemma iteration:
  assumes "small_input bs" "k < length bs"
  shows "iteration_ok debug name bs t b k (tokenize_byte debug (bs ! k) (at_offset name bs t b k))"
proof -
  consider "is_identifier_start (bs ! k)" | "is_integer_literal_start (bs ! k)" | "bs ! k = quote \<or> bs ! k = double_quote"
    | "bs ! k = byte CHR ''#''" | "comment_start (drop k bs)"
    | "bs ! k \<noteq> quote" "bs ! k \<noteq> double_quote" "\<not> is_identifier_start (bs ! k)"
      "\<not> is_integer_literal_start (bs ! k)" "bs ! k \<noteq> byte CHR ''#''" "\<not> comment_start (drop k bs)"
    by blast
  then show ?thesis
  proof cases
    case 1 then show ?thesis by (rule iteration_identifier [OF assms])
  next
    case 2 then show ?thesis by (rule iteration_number [OF assms])
  next
    case 3 then show ?thesis by (rule iteration_literal [OF assms])
  next
    case 4 then show ?thesis by (rule iteration_pound [OF assms])
  next
    case 5 then show ?thesis by (rule iteration_comment [OF assms])
  next
    case 6 then show ?thesis by (rule iteration_other [OF assms])
  qed
qed

end
