(* ===== verification/Token_Ranges.thy ===== *)
theory Token_Ranges
  imports Tokenizer
begin

text \<open>
  The tree of token ranges. The tokenizer stores it with indices of parents, first and last
  children and next siblings. \<open>tree_ok rs st pend orph K n\<close> says that the list \<open>rs\<close> stores a
  tree: \<open>K i\<close> lists the children of the range \<open>i\<close>, \<open>st\<close> the open ranges from the
  current one to the module, \<open>n\<close> is the number of tokens. While a range is being linked,
  \<open>pend\<close> is the next child that the links of the current range may already name, and \<open>orph\<close> a
  closed range that is not yet in a list of children.
\<close>

section \<open>Indices\<close>

lemma as_i32_small: "n < 2 ^ 31 \<Longrightarrow> as_i32 n = int n"
  by (simp add: as_i32_def sint_uint signed_take_bit_int_eq_self_iff take_bit_nat_eq_self unsigned_of_nat)

lemma as_usize_int: "n < 2 ^ 64 \<Longrightarrow> as_usize (int n) = n"
  by (simp add: as_usize_def)

lemma i32_add_small: "n + 1 < 2 ^ 31 \<Longrightarrow> i32_add debug (int n) 1 = Ok (int (Suc n))"
  using as_i32_small [of "Suc n"] by (simp add: i32_add_def as_i32_def add.commute)

lemma NO_RELATION_neq [simp]: "int n \<noteq> NO_RELATION" "NO_RELATION \<noteq> int n"
  by (simp_all add: NO_RELATION_def)

section \<open>Well-formed trees\<close>

fun linked :: "TokenRange list \<Rightarrow> nat option \<Rightarrow> nat list \<Rightarrow> bool" where
  "linked rs after [] \<longleftrightarrow> True"
| "linked rs after [j] \<longleftrightarrow>
     next_sibling_idx (rs ! j) = NO_RELATION \<or> (\<exists>c. after = Some c \<and> next_sibling_idx (rs ! j) = int c)"
| "linked rs after (j # j' # js) \<longleftrightarrow> next_sibling_idx (rs ! j) = int j' \<and> linked rs after (j' # js)"

text \<open>The children cover the tokens from \<open>s\<close> up to \<open>e\<close>, one after the other.\<close>

fun tiled :: "TokenRange list \<Rightarrow> u32 \<Rightarrow> nat list \<Rightarrow> u32 \<Rightarrow> bool" where
  "tiled rs s [] e \<longleftrightarrow> s = e"
| "tiled rs s (j # js) e \<longleftrightarrow>
     range_start (rs ! j) = s \<and> s < range_end (rs ! j) \<and> tiled rs (range_end (rs ! j)) js e"

fun opened :: "nat list \<Rightarrow> nat \<Rightarrow> nat option" where
  "opened (c # p # st) i = (if i = p then Some c else opened (p # st) i)"
| "opened _ i = None"

fun chain :: "TokenRange list \<Rightarrow> nat list \<Rightarrow> bool" where
  "chain rs (c # p # st) \<longleftrightarrow>
     parent_idx (rs ! c) = int p \<and> range_start (rs ! c) = range_end (rs ! p) \<and> chain rs (p # st)"
| "chain rs _ \<longleftrightarrow> True"

definition child_of :: "nat list \<Rightarrow> nat option \<Rightarrow> nat \<Rightarrow> nat option" where
  "child_of st pend i = (if i = hd st then pend else opened st i)"

definition node_ok :: "TokenRange list \<Rightarrow> nat list \<Rightarrow> nat option \<Rightarrow> nat \<Rightarrow> bool" where
  "node_ok rs ks after i \<longleftrightarrow>
     num_child_ranges (rs ! i) = of_nat (length ks) \<and>
     last_child_idx (rs ! i) = (if ks = [] then NO_RELATION else int (last ks)) \<and>
     first_child_idx (rs ! i) = (case ks of k # _ \<Rightarrow> int k
       | [] \<Rightarrow> (case after of Some c \<Rightarrow> int c | None \<Rightarrow> NO_RELATION)) \<and>
     linked rs after ks"

definition kids_ok :: "TokenRange list \<Rightarrow> nat list \<Rightarrow> nat option \<Rightarrow> nat list \<Rightarrow> nat \<Rightarrow> bool" where
  "kids_ok rs st orph ks i \<longleftrightarrow> distinct ks \<and>
     (\<forall>j \<in> set ks. i < j \<and> j < length rs \<and> j \<notin> set st \<and> orph \<noteq> Some j \<and> parent_idx (rs ! j) = int i)"

definition open_ok :: "TokenRange list \<Rightarrow> nat list \<Rightarrow> nat \<Rightarrow> nat \<Rightarrow> bool" where
  "open_ok rs ks n i \<longleftrightarrow> next_sibling_idx (rs ! i) = NO_RELATION \<and>
     tiled rs (range_start (rs ! i)) ks (range_end (rs ! i)) \<and> unat (range_end (rs ! i)) \<le> n \<and>
     (i \<noteq> 0 \<longrightarrow> unat (range_start (rs ! i)) < n)"

definition closed_ok :: "TokenRange list \<Rightarrow> nat list \<Rightarrow> nat \<Rightarrow> nat \<Rightarrow> bool" where
  "closed_ok rs ks n i \<longleftrightarrow> range_start (rs ! i) < range_end (rs ! i) \<and> unat (range_end (rs ! i)) \<le> n \<and>
     (\<exists>m. m \<le> range_end (rs ! i) \<and> tiled rs (range_start (rs ! i)) ks m)"

definition orphan_ok :: "TokenRange list \<Rightarrow> nat list \<Rightarrow> nat option \<Rightarrow> bool" where
  "orphan_ok rs st orph \<longleftrightarrow> (\<forall>j. orph = Some j \<longrightarrow> hd st < j \<and> j < length rs \<and> j \<notin> set st \<and>
     parent_idx (rs ! j) = int (hd st) \<and> range_start (rs ! j) = range_end (rs ! hd st))"

definition tree_ok :: "TokenRange list \<Rightarrow> nat list \<Rightarrow> nat option \<Rightarrow> nat option \<Rightarrow> (nat \<Rightarrow> nat list) \<Rightarrow> nat \<Rightarrow> bool" where
  "tree_ok rs st pend orph K n \<longleftrightarrow>
     st \<noteq> [] \<and> last st = 0 \<and> sorted_wrt (>) st \<and> hd st < length rs \<and> chain rs st \<and>
     (\<forall>i. length rs \<le> i \<longrightarrow> K i = []) \<and>
     (\<forall>i < length rs. node_ok rs (K i) (child_of st pend i) i) \<and>
     (\<forall>i < length rs. kids_ok rs st orph (K i) i) \<and>
     (\<forall>j < length rs. j \<notin> set st \<longrightarrow> orph \<noteq> Some j \<longrightarrow> (\<exists>i < length rs. j \<in> set (K i))) \<and>
     (\<forall>i \<in> set st. open_ok rs (K i) n i) \<and>
     (\<forall>i < length rs. i \<notin> set st \<longrightarrow> closed_ok rs (K i) n i) \<and>
     orphan_ok rs st orph \<and>
     range_kind (rs ! 0) = RK_Module \<and> range_start (rs ! 0) = 0 \<and> parent_idx (rs ! 0) = NO_RELATION"

lemma tree_okD:
  assumes "tree_ok rs st pend orph K n"
  shows "st \<noteq> []" "last st = 0" "sorted_wrt (>) st" "hd st < length rs" "chain rs st"
    "length rs \<le> i \<Longrightarrow> K i = []"
    "i < length rs \<Longrightarrow> node_ok rs (K i) (child_of st pend i) i"
    "i < length rs \<Longrightarrow> kids_ok rs st orph (K i) i"
    "j < length rs \<Longrightarrow> j \<notin> set st \<Longrightarrow> orph \<noteq> Some j \<Longrightarrow> \<exists>i < length rs. j \<in> set (K i)"
    "i \<in> set st \<Longrightarrow> open_ok rs (K i) n i"
    "i < length rs \<Longrightarrow> i \<notin> set st \<Longrightarrow> closed_ok rs (K i) n i"
    "orphan_ok rs st orph"
    "range_kind (rs ! 0) = RK_Module" "range_start (rs ! 0) = 0" "parent_idx (rs ! 0) = NO_RELATION"
  using assms unfolding tree_ok_def by auto

lemma linked_cong:
  "(\<And>j. j \<in> set ks \<Longrightarrow> next_sibling_idx (rs' ! j) = next_sibling_idx (rs ! j)) \<Longrightarrow> linked rs' after ks = linked rs after ks"
  by (induction rs after ks rule: linked.induct) auto

lemma tiled_cong:
  "(\<And>j. j \<in> set ks \<Longrightarrow> range_start (rs' ! j) = range_start (rs ! j) \<and> range_end (rs' ! j) = range_end (rs ! j)) \<Longrightarrow>
    tiled rs' s ks e = tiled rs s ks e"
  by (induction ks arbitrary: s) auto

lemma chain_cong:
  "(\<And>j. j \<in> set st \<Longrightarrow> parent_idx (rs' ! j) = parent_idx (rs ! j) \<and> range_start (rs' ! j) = range_start (rs ! j)) \<Longrightarrow>
    (\<And>j. j \<in> set (tl st) \<Longrightarrow> range_end (rs' ! j) = range_end (rs ! j)) \<Longrightarrow> chain rs' st = chain rs st"
  by (induction rs st rule: chain.induct) auto

lemma tiled_snoc:
  "tiled rs s (ks @ [j]) e \<longleftrightarrow> (\<exists>m. tiled rs s ks m \<and> range_start (rs ! j) = m \<and> m < range_end (rs ! j) \<and> range_end (rs ! j) = e)"
  by (induction ks arbitrary: s) auto

lemma tiled_le: "tiled rs s ks e \<Longrightarrow> s \<le> e"
  by (induction ks arbitrary: s) (auto intro: order.trans less_imp_le)

lemma linked_snoc:
  assumes "linked rs after ks" "distinct ks"
    and "\<And>i. i \<in> set ks \<Longrightarrow> i \<noteq> last ks \<Longrightarrow> next_sibling_idx (rs' ! i) = next_sibling_idx (rs ! i)"
    and "ks \<noteq> [] \<Longrightarrow> next_sibling_idx (rs' ! last ks) = int j"
    and "next_sibling_idx (rs' ! j) = NO_RELATION \<or> (\<exists>c. after' = Some c \<and> next_sibling_idx (rs' ! j) = int c)"
  shows "linked rs' after' (ks @ [j])"
  using assms
proof (induction rs after ks rule: linked.induct)
  case (3 rs after i i' ks')
  have "linked rs' after' ((i' # ks') @ [j])"
    using 3 by (intro "3.IH") auto
  moreover have "next_sibling_idx (rs' ! i) = int i'"
    using 3 by (metis distinct.simps(2) last_ConsR last_in_set linked.simps(3) list.distinct(1) list.set_intros(1))
  ultimately show ?case by simp
qed simp_all

lemma opened_Some: "opened st i = Some c \<Longrightarrow> c \<in> set st \<and> i \<in> set (tl st)"
  by (induction st i rule: opened.induct) (auto split: if_splits)

lemma in_tl: "x \<in> set (tl xs) \<Longrightarrow> x \<in> set xs"
  by (cases xs) auto

lemma hd_max: "sorted_wrt (>) st \<Longrightarrow> i \<in> set st \<Longrightarrow> i \<le> hd (st :: nat list)"
  by (cases st) auto

lemma tree_ok_st_less: "tree_ok rs st pend orph K n \<Longrightarrow> i \<in> set st \<Longrightarrow> i < length rs"
  using hd_max [OF tree_okD(3)] tree_okD(4) le_less_trans by blast

lemma tree_ok_more_tokens:
  "tree_ok rs st pend orph K n \<Longrightarrow> n \<le> n' \<Longrightarrow> tree_ok rs st pend orph K n'"
  unfolding tree_ok_def open_ok_def closed_ok_def by (intro conjI) (auto intro: le_trans less_le_trans)

section \<open>The operations keep the tree\<close>

lemma linked_more: "linked rs None ks \<Longrightarrow> linked rs after ks"
  by (induction rs after ks rule: linked.induct) auto

lemma tree_ok_pend:
  assumes tree: "tree_ok rs st None None K n"
  defines "p \<equiv> hd st"
  shows "tree_ok (rs[p := (rs ! p)\<lparr>first_child_idx :=
      if first_child_idx (rs ! p) = NO_RELATION then int c else first_child_idx (rs ! p)\<rparr>]) st (Some c) None K n"
    (is "tree_ok ?rs st (Some c) None K n")
proof -
  note t = tree_okD [OF tree]
  have p: "p < length rs" "p \<in> set st" using t(1,4) by (simp_all add: p_def)
  have same: "next_sibling_idx (?rs ! i) = next_sibling_idx (rs ! i)" "range_start (?rs ! i) = range_start (rs ! i)"
    "range_end (?rs ! i) = range_end (rs ! i)" "parent_idx (?rs ! i) = parent_idx (rs ! i)"
    "range_kind (?rs ! i) = range_kind (rs ! i)" "num_child_ranges (?rs ! i) = num_child_ranges (rs ! i)"
    "last_child_idx (?rs ! i) = last_child_idx (rs ! i)" for i
    using p by (cases "i = p"; simp)+
  have "node_ok ?rs (K i) (child_of st (Some c) i) i" if "i < length rs" for i
  proof (cases "i = p")
    case True
    have "linked rs None (K p)" using t(7) [OF that] True by (simp add: node_ok_def child_of_def p_def)
    then have "linked ?rs (Some c) (K p)" unfolding linked_cong [OF same(1)] by (rule linked_more)
    then show ?thesis
      using t(7) [OF that] p True by (auto simp: node_ok_def child_of_def p_def split: list.splits)
  next
    case False
    then have eq: "first_child_idx (?rs ! i) = first_child_idx (rs ! i)" "child_of st (Some c) i = child_of st None i"
      by (simp_all add: child_of_def p_def)
    show ?thesis
      using t(7) [OF that] unfolding node_ok_def same linked_cong [OF same(1)] eq .
  qed
  note node = this
  have len: "length ?rs = length rs" by simp
  have tl: "tiled ?rs s ks e = tiled rs s ks e" for s ks e by (rule tiled_cong) (simp only: same simp_thms)
  have ch: "chain ?rs st = chain rs st" by (rule chain_cong) (simp_all only: same simp_thms)
  show ?thesis
    using tree node unfolding tree_ok_def kids_ok_def open_ok_def closed_ok_def orphan_ok_def len same tl ch by blast
qed

lemma tree_ok_leaf:
  assumes tree: "tree_ok rs st pend None K n"
    and r: "parent_idx r = int (hd st)" "range_start r = range_end (rs ! hd st)" "range_start r < range_end r"
      "unat (range_end r) \<le> n" "num_child_ranges r = 0" "first_child_idx r = NO_RELATION" "last_child_idx r = NO_RELATION"
  shows "tree_ok (rs @ [r]) st pend (Some (length rs)) K n"
proof -
  note t = tree_okD [OF tree]
  let ?l = "length rs"
  have less: "i \<in> set st \<Longrightarrow> i < ?l" for i using tree_ok_st_less [OF tree] .
  then have l: "?l \<notin> set st" by blast
  have kids: "j \<in> set (K i) \<Longrightarrow> j < ?l" for i j
    using t(6) [of i] t(8) [of i] by (cases "?l \<le> i") (auto simp: kids_ok_def)
  have lk: "linked (rs @ [r]) after (K i) = linked rs after (K i)" for after i
    using kids by (intro linked_cong) (auto simp: nth_append)
  have tl: "tiled (rs @ [r]) s (K i) e = tiled rs s (K i) e" for s e i
    using kids by (intro tiled_cong) (auto simp: nth_append)
  have Kl: "K ?l = []" using t(6) by simp
  have child: "child_of st pend ?l = None"
    using l t(4) in_tl [of ?l st] opened_Some [of st ?l] by (cases "opened st ?l") (auto simp: child_of_def)
  show ?thesis
    unfolding tree_ok_def
  proof (intro conjI allI impI ballI)
    fix i assume i: "i < length (rs @ [r])"
    show "node_ok (rs @ [r]) (K i) (child_of st pend i) i"
      using t(7) [of i] i r child Kl by (cases "i = ?l") (auto simp: node_ok_def nth_append lk)
    show "kids_ok (rs @ [r]) st (Some ?l) (K i) i"
      using t(8) [of i] i Kl kids [of _ i] by (cases "i = ?l") (auto simp: kids_ok_def nth_append intro: less_SucI)
    show "closed_ok (rs @ [r]) (K i) n i" if "i \<notin> set st"
      using t(11) [of i] i that r Kl by (cases "i = ?l") (auto simp: closed_ok_def nth_append tl)
  next
    fix i assume "i \<in> set st"
    then show "open_ok (rs @ [r]) (K i) n i"
      using t(10) [of i] less [of i] by (simp add: open_ok_def nth_append tl)
  next
    fix j assume "j < length (rs @ [r])" "j \<notin> set st" "Some ?l \<noteq> Some j"
    then show "\<exists>i < length (rs @ [r]). j \<in> set (K i)"
      using t(9) [of j] by (auto simp: less_Suc_eq)
  next
    show "chain (rs @ [r]) st"
      using t(5) less by (subst chain_cong [where rs = rs]) (auto simp: nth_append dest: in_tl)
    show "orphan_ok (rs @ [r]) st (Some ?l)"
      using t(4) l r by (simp add: orphan_ok_def nth_append)
  qed (use t(1-4,6,13-15) le_less_trans [OF le0 t(4)] less_SucI [OF t(4)] less in \<open>auto simp: nth_append\<close>)
qed

lemma tree_ok_open:
  assumes tree: "tree_ok rs st (Some (length rs)) None K n"
    and r: "parent_idx r = int (hd st)" "range_start r = range_end (rs ! hd st)" "range_end r = range_start r"
      "unat (range_start r) < n" "num_child_ranges r = 0" "first_child_idx r = NO_RELATION" "last_child_idx r = NO_RELATION"
      "next_sibling_idx r = NO_RELATION"
  shows "tree_ok (rs @ [r]) (length rs # st) None None K n"
proof -
  note t = tree_okD [OF tree]
  let ?l = "length rs"
  obtain p st' where st: "st = p # st'" using t(1) by (cases st) auto
  have less: "i \<in> set st \<Longrightarrow> i < ?l" for i using tree_ok_st_less [OF tree] .
  then have l: "?l \<notin> set st" by blast
  have kids: "j \<in> set (K i) \<Longrightarrow> j < ?l" for i j
    using t(6) [of i] t(8) [of i] by (cases "?l \<le> i") (auto simp: kids_ok_def)
  have lk: "linked (rs @ [r]) after (K i) = linked rs after (K i)" for after i
    using kids by (intro linked_cong) (auto simp: nth_append)
  have tl: "tiled (rs @ [r]) s (K i) e = tiled rs s (K i) e" for s e i
    using kids by (intro tiled_cong) (auto simp: nth_append)
  have Kl: "K ?l = []" using t(6) by simp
  have child: "child_of (?l # st) None i = (if i = ?l then None else child_of st (Some ?l) i)" for i
    by (simp add: child_of_def st)
  show ?thesis
    unfolding tree_ok_def
  proof (intro conjI allI impI ballI)
    fix i assume i: "i < length (rs @ [r])"
    show "node_ok (rs @ [r]) (K i) (child_of (?l # st) None i) i"
      using t(7) [of i] i r child Kl by (cases "i = ?l") (auto simp: node_ok_def nth_append lk)
    show "kids_ok (rs @ [r]) (?l # st) None (K i) i"
      using t(8) [of i] i Kl kids [of _ i] by (cases "i = ?l") (auto simp: kids_ok_def nth_append intro: less_SucI)
    show "closed_ok (rs @ [r]) (K i) n i" if "i \<notin> set (?l # st)"
      using t(11) [of i] i that by (simp add: closed_ok_def nth_append tl)
  next
    fix i assume "i \<in> set (?l # st)"
    then show "open_ok (rs @ [r]) (K i) n i"
      using t(10) [of i] less [of i] r Kl by (auto simp: open_ok_def nth_append tl)
  next
    fix j assume "j < length (rs @ [r])" "j \<notin> set (?l # st)"
    then show "\<exists>i < length (rs @ [r]). j \<in> set (K i)"
      using t(9) [of j] by (auto simp: less_Suc_eq)
  next
    have "chain (rs @ [r]) st"
      using t(5) less by (subst chain_cong [where rs = rs]) (auto simp: nth_append dest: in_tl)
    then show "chain (rs @ [r]) (?l # st)" using r less by (simp add: st nth_append)
  qed (use t(1-4,6,13-15) le_less_trans [OF le0 t(4)] less_SucI [OF t(4)] less in \<open>auto simp: nth_append orphan_ok_def\<close>)
qed

text \<open>The range \<open>j\<close> becomes the last child of \<open>p\<close>.\<close>

definition attach :: "nat \<Rightarrow> nat \<Rightarrow> TokenRange list \<Rightarrow> TokenRange list" where
  "attach p j rs =
     (let r = rs ! p;
          rs' = rs[p := r\<lparr>last_child_idx := int j, range_end := range_end (rs ! j),
            num_child_ranges := num_child_ranges r + 1\<rparr>];
          i = nat (last_child_idx r)
      in if last_child_idx r = NO_RELATION then rs' else rs'[i := (rs' ! i)\<lparr>next_sibling_idx := int j\<rparr>])"

lemma length_attach [simp]: "length (attach p j rs) = length rs"
  by (simp add: attach_def Let_def)

lemma attach_nth:
  assumes p: "p < length rs" and last: "last_child_idx (rs ! p) = (if ks = [] then NO_RELATION else int (last ks))"
    and ks: "\<forall>i \<in> set ks. i < length rs \<and> i \<noteq> p"
  shows "next_sibling_idx (attach p j rs ! i) = (if ks \<noteq> [] \<and> i = last ks then int j else next_sibling_idx (rs ! i))"
    "range_end (attach p j rs ! i) = (if i = p then range_end (rs ! j) else range_end (rs ! i))"
    "range_start (attach p j rs ! i) = range_start (rs ! i)" "parent_idx (attach p j rs ! i) = parent_idx (rs ! i)"
    "range_kind (attach p j rs ! i) = range_kind (rs ! i)" "first_child_idx (attach p j rs ! i) = first_child_idx (rs ! i)"
    "curly_depth (attach p j rs ! i) = curly_depth (rs ! i)"
    "num_child_ranges (attach p j rs ! i) = num_child_ranges (rs ! i) + (if i = p then 1 else 0)"
    "last_child_idx (attach p j rs ! i) = (if i = p then int j else last_child_idx (rs ! i))"
proof -
  have l: "ks \<noteq> [] \<Longrightarrow> last ks < length rs \<and> last ks \<noteq> p" using ks by auto
  show "next_sibling_idx (attach p j rs ! i) = (if ks \<noteq> [] \<and> i = last ks then int j else next_sibling_idx (rs ! i))"
    "range_end (attach p j rs ! i) = (if i = p then range_end (rs ! j) else range_end (rs ! i))"
    "range_start (attach p j rs ! i) = range_start (rs ! i)" "parent_idx (attach p j rs ! i) = parent_idx (rs ! i)"
    "range_kind (attach p j rs ! i) = range_kind (rs ! i)" "first_child_idx (attach p j rs ! i) = first_child_idx (rs ! i)"
    "curly_depth (attach p j rs ! i) = curly_depth (rs ! i)"
    "num_child_ranges (attach p j rs ! i) = num_child_ranges (rs ! i) + (if i = p then 1 else 0)"
    "last_child_idx (attach p j rs ! i) = (if i = p then int j else last_child_idx (rs ! i))"
    using p last l by (auto simp: attach_def Let_def nth_list_update)
qed

lemma tree_ok_attach:
  assumes tree: "tree_ok rs st pend (Some j) K n"
  defines "p \<equiv> hd st"
  assumes first: "K p = [] \<Longrightarrow> pend = Some j"
    and after: "next_sibling_idx (rs ! j) = NO_RELATION \<or> (\<exists>c. pend' = Some c \<and> next_sibling_idx (rs ! j) = int c)"
    and pend: "pend = None \<or> pend = Some j"
  shows "tree_ok (attach p j rs) st pend' None (K(p := K p @ [j])) n"
proof -
  note t = tree_okD [OF tree]
  let ?rs = "attach p j rs" and ?K = "K(p := K p @ [j])"
  have p: "p < length rs" "p \<in> set st" using t(1,4) by (simp_all add: p_def)
  have j: "p < j" "j < length rs" "j \<notin> set st" "parent_idx (rs ! j) = int p" "range_start (rs ! j) = range_end (rs ! p)"
    using t(12) by (auto simp: orphan_ok_def p_def)
  have kids: "k \<in> set (K i) \<Longrightarrow> i < length rs \<and> i < k \<and> k < length rs \<and> k \<notin> set st \<and> k \<noteq> j \<and> parent_idx (rs ! k) = int i" for i k
    using t(6) [of i] t(8) [of i] by (cases "length rs \<le> i") (auto simp: kids_ok_def)
  have child_p: "child_of st x p = x" for x by (simp add: child_of_def p_def)
  have np: "node_ok rs (K p) pend p" using t(7) [OF p(1)] by (simp add: child_of_def p_def)
  have ksp: "\<forall>i \<in> set (K p). i < length rs \<and> i \<noteq> p" using kids p by blast
  note same = attach_nth [OF p(1) _ ksp, of j]
  have last: "last_child_idx (rs ! p) = (if K p = [] then NO_RELATION else int (last (K p)))"
    using np by (simp add: node_ok_def)
  note same = same [OF last]
  have not_last: "k \<noteq> last (K p)" if "k \<notin> set (K p)" "K p \<noteq> []" for k using that by auto
  have disj: "k \<notin> set (K p)" if "k \<in> set (K i)" "i \<noteq> p" for k i
    using kids [OF that(1)] kids [of k p] that(2) by auto
  have lk: "linked ?rs after (K i) = linked rs after (K i)" if "i \<noteq> p" for after i
    using disj [OF _ that] not_last by (intro linked_cong) (auto simp: same)
  have tl: "tiled ?rs s (K i) e = tiled rs s (K i) e" for s e i
    using kids p(2) by (intro tiled_cong) (auto simp: same)
  have jn: "j \<notin> set (K p)" using kids [of j p] by blast
  have closed_j: "range_start (rs ! j) < range_end (rs ! j)" "unat (range_end (rs ! j)) \<le> n"
    using t(11) [OF j(2,3)] by (auto simp: closed_ok_def)
  show ?thesis
    unfolding tree_ok_def length_attach
  proof (intro conjI allI impI ballI)
    fix i assume i: "i < length rs"
    show "node_ok ?rs (?K i) (child_of st pend' i) i"
    proof (cases "i = p")
      case True
      have "linked ?rs pend' (K p @ [j])"
      proof (rule linked_snoc)
        show "linked rs pend (K p)" "distinct (K p)"
          using np t(8) [OF p(1)] by (auto simp: node_ok_def kids_ok_def)
        show "next_sibling_idx (?rs ! j) = NO_RELATION \<or> (\<exists>c. pend' = Some c \<and> next_sibling_idx (?rs ! j) = int c)"
          using after jn not_last by (auto simp: same)
      qed (auto simp: same)
      then show ?thesis
        using np True first by (auto simp: node_ok_def same child_p split: list.splits)
    next
      case False
      then have eq: "child_of st pend' i = child_of st pend i" by (simp add: child_of_def p_def)
      show ?thesis
        using t(7) [OF i] False unfolding node_ok_def eq by (simp add: same lk)
    qed
    show "kids_ok ?rs st None (?K i) i"
      using t(8) [OF i] j jn by (auto simp: kids_ok_def same)
    show "closed_ok ?rs (?K i) n i" if "i \<notin> set st"
      using t(11) [OF i that] that p by (auto simp: closed_ok_def same tl)
  next
    fix i assume i: "i \<in> set st"
    then have "i \<notin> set (K p)" using kids [of i p] by blast
    then show "open_ok ?rs (?K i) n i"
      using t(10) [OF i] closed_j j not_last [of i] tiled_snoc [of ?rs "range_start (rs ! p)" "K p" j "range_end (rs ! j)"]
      by (auto simp: open_ok_def same tl)
  next
    fix k assume k: "k < length rs" "k \<notin> set st"
    show "\<exists>i < length rs. k \<in> set (?K i)"
    proof (cases "k = j")
      case True
      then show ?thesis using p by (intro exI [of _ p]) simp
    next
      case False
      then obtain i where "i < length rs" "k \<in> set (K i)" using t(9) [OF k] by auto
      then show ?thesis by (intro exI [of _ i]) auto
    qed
  next
    have "p \<notin> set (tl st)"
      using t(1,3) by (cases st) (auto simp: p_def)
    then show "chain ?rs st"
      using t(5) by (subst chain_cong [where rs = rs]) (auto simp: same)
  qed (use t(1-4,6,13-15) p in \<open>auto simp: same orphan_ok_def\<close>)
qed

lemma tree_ok_close:
  assumes tree: "tree_ok rs (c # p # st) None None K n" and n: "n < 2 ^ 32"
  shows "tree_ok (rs[c := (rs ! c)\<lparr>range_end := of_nat n\<rparr>]) (p # st) (Some c) (Some c) K n"
    (is "tree_ok ?rs (p # st) (Some c) (Some c) K n")
proof -
  note t = tree_okD [OF tree]
  have c: "c < length rs" "p < c" "c \<notin> set (p # st)" "c \<noteq> 0" using t(3,4) by auto
  have un: "unat (of_nat n :: u32) = n" using n by (simp add: unat_of_nat)
  have same: "next_sibling_idx (?rs ! i) = next_sibling_idx (rs ! i)" "range_start (?rs ! i) = range_start (rs ! i)"
    "parent_idx (?rs ! i) = parent_idx (rs ! i)" "first_child_idx (?rs ! i) = first_child_idx (rs ! i)"
    "range_kind (?rs ! i) = range_kind (rs ! i)" "num_child_ranges (?rs ! i) = num_child_ranges (rs ! i)"
    "last_child_idx (?rs ! i) = last_child_idx (rs ! i)"
    "range_end (?rs ! i) = (if i = c then of_nat n else range_end (rs ! i))" for i
    using c by (cases "i = c"; simp)+
  have kids: "k \<in> set (K i) \<Longrightarrow> k \<noteq> c" for i k
    using t(6) [of i] t(8) [of i] by (cases "length rs \<le> i") (auto simp: kids_ok_def)
  have lk: "linked ?rs after ks = linked rs after ks" for after ks
    by (rule linked_cong) (simp only: same)
  have tl: "tiled ?rs s (K i) e = tiled rs s (K i) e" for s e i
    using kids by (intro tiled_cong) (auto simp: same)
  have open_c: "open_ok rs (K c) n c" using t(10) by simp
  have child: "child_of (p # st) (Some c) i = child_of (c # p # st) None i" for i
    using c opened_Some [of "p # st" c] by (cases "opened (p # st) c") (auto simp: child_of_def)
  have len: "length ?rs = length rs" by simp
  show ?thesis
    unfolding tree_ok_def len
  proof (intro conjI allI impI ballI)
    fix i assume i: "i < length rs"
    show "node_ok ?rs (K i) (child_of (p # st) (Some c) i) i"
      using t(7) [OF i] unfolding node_ok_def same lk child .
    show "kids_ok ?rs (p # st) (Some c) (K i) i"
      using t(8) [OF i] kids [of _ i] unfolding kids_ok_def same len by auto
    show "closed_ok ?rs (K i) n i" if "i \<notin> set (p # st)"
    proof (cases "i = c")
      case True
      have "range_start (rs ! c) < of_nat n" "range_end (rs ! c) \<le> of_nat n"
        using open_c c un by (auto simp: open_ok_def word_less_nat_alt word_le_nat_alt)
      then show ?thesis
        using True open_c un unfolding closed_ok_def same tl by (auto simp: open_ok_def)
    next
      case False
      then show ?thesis using t(11) [OF i] that unfolding closed_ok_def same tl by auto
    qed
  next
    fix i assume "i \<in> set (p # st)"
    then show "open_ok ?rs (K i) n i"
      using t(10) [of i] c unfolding open_ok_def same tl by auto
  next
    fix k assume "k < length rs" "k \<notin> set (p # st)" "Some c \<noteq> Some k"
    then show "\<exists>i < length rs. k \<in> set (K i)" using t(9) [of k] by auto
  next
    have "chain rs (p # st)" using t(5) by simp
    then show "chain ?rs (p # st)"
      using c in_tl [of _ "p # st"] by (subst chain_cong [where rs = rs]) (auto simp: same)
    show "orphan_ok ?rs (p # st) (Some c)"
      using c t(5) by (simp add: orphan_ok_def)
  qed (use t(1-4,6,13-15) c in \<open>auto simp: same\<close>)
qed

lemma tree_ok_start: "tree_ok [module_range] [0] None None (\<lambda>_. []) 0"
  by (simp add: tree_ok_def module_range_def node_ok_def kids_ok_def open_ok_def orphan_ok_def child_of_def)

end
