(* ===== verification/Tokenizer_Tree.thy ===== *)
theory Tokenizer_Tree
  imports Tokenizer_Steps Token_Ranges
begin

text \<open>
  The operations of the tokenizer on ranges compute the transitions of \<open>Token_Ranges\<close>, for
  files of less than \<open>2 ^ 31 - 2\<close> bytes, whose indices fit into an \<open>i32\<close>.
\<close>

abbreviation st_at :: "string \<Rightarrow> u8 list \<Rightarrow> InputPosition list \<Rightarrow> nat \<Rightarrow> Token list \<Rightarrow> TokenRange list \<Rightarrow> nat \<Rightarrow> Tokenizing" where
  "st_at name bs cs i ts rs k \<equiv>
     at_offset name bs \<lparr>curly_stack = cs, stack_idx = i\<rparr> \<lparr>tokens = ts, ranges = rs\<rparr> k"

text \<open>The kinds and starts of the ranges other than code, in the order in which they were opened.\<close>

definition special :: "TokenRange list \<Rightarrow> (TokenRangeKind \<times> u32) list" where
  "special rs = filter (\<lambda>(kind, _). kind \<noteq> RK_Code) (map (\<lambda>r. (range_kind r, range_start r)) rs)"

lemma map_list_update_same: "f x = f (xs ! i) \<Longrightarrow> map f (xs[i := x]) = map f xs"
  by (cases "i < length xs") (simp_all add: map_update list_update_same_conv list_update_beyond)

lemma special_update [simp]:
  "range_kind r = range_kind (rs ! i) \<Longrightarrow> range_start r = range_start (rs ! i) \<Longrightarrow> special (rs[i := r]) = special rs"
  unfolding special_def by (subst map_list_update_same) simp_all

lemma special_append [simp]:
  "special (rs @ [r]) = special rs @ (if range_kind r = RK_Code then [] else [(range_kind r, range_start r)])"
  by (simp add: special_def)

lemma special_attach [simp]: "special (attach p j rs) = special rs"
  by (simp add: attach_def Let_def)

named_theorems range_simps \<open>the primitive operations on ranges\<close>

lemma range_ops [range_simps]:
  "get_range j (st_at name bs cs i ts rs k) = (vec_get rs j, st_at name bs cs i ts rs k)"
  "num_ranges (st_at name bs cs i ts rs k) = (Ok (length rs), st_at name bs cs i ts rs k)"
  "set_range j r (st_at name bs cs i ts rs k) = (Ok (), st_at name bs cs i ts (rs[j := r]) k)"
  "append_range r (st_at name bs cs i ts rs k) = (Ok (), st_at name bs cs i ts (rs @ [r]) k)"
  "cur_depth (st_at name bs cs i ts rs k) = (Ok (of_nat (length cs)), st_at name bs cs i ts rs k)"
  "cur_range_idx (st_at name bs cs i ts rs k) = (Ok i, st_at name bs cs i ts rs k)"
  "set_range_idx i' (st_at name bs cs i ts rs k) = (Ok (), st_at name bs cs i' ts rs k)"
  by (simp_all add: get_range_def num_ranges_def set_range_def append_range_def cur_depth_def cur_range_idx_def
      set_range_idx_def act_bind_def act_defs)

lemma vec_get_Ok [range_simps]: "i < length xs \<Longrightarrow> vec_get xs i = Ok (xs ! i)"
  by (simp add: vec_get_def)

lemma link_sibling_at [range_simps]:
  assumes "lst = NO_RELATION \<or> (\<exists>l. lst = int l \<and> l < length rs)" "length rs < 2 ^ 31"
  shows "link_sibling lst n (st_at name bs cs i ts rs k) = (Ok (), st_at name bs cs i ts
    (if lst = NO_RELATION then rs else rs[nat lst := (rs ! nat lst)\<lparr>next_sibling_idx := n\<rparr>]) k)"
  using assms
  by (auto simp: link_sibling_def act_ret_def act_bind_def range_simps as_usize_int)

lemma num_children_small:
  assumes tree: "tree_ok rs st pend orph K n" and i: "i < length rs" and len: "length rs < 2 ^ 31"
  shows "u32_add debug (num_child_ranges (rs ! i)) 1 = Ok (num_child_ranges (rs ! i) + 1)"
proof -
  have "distinct (K i)" "set (K i) \<subseteq> {..<length rs}"
    using tree_okD(8) [OF tree i] by (auto simp: kids_ok_def)
  then have "length (K i) \<le> length rs"
    using card_mono [of "{..<length rs}" "set (K i)"] by (simp add: distinct_card)
  moreover have "num_child_ranges (rs ! i) = of_nat (length (K i))"
    using tree_okD(7) [OF tree i] by (simp add: node_ok_def)
  ultimately show ?thesis
    using len by (simp add: u32_add_def unat_of_nat)
qed

lemma last_child_small:
  assumes tree: "tree_ok rs st pend orph K n" and i: "i < length rs"
  shows "last_child_idx (rs ! i) = NO_RELATION \<or> (\<exists>l. last_child_idx (rs ! i) = int l \<and> l < length rs)"
  using tree_okD(7) [OF tree i] tree_okD(8) [OF tree i]
  by (cases "K i = []") (auto simp: node_ok_def kids_ok_def)

lemma pop_range_at:
  assumes tree: "tree_ok rs (c # p # st) None None K n" and len: "length rs < 2 ^ 31" and n: "n < 2 ^ 32"
  shows "pop_range debug (of_nat n) (st_at name bs cs c ts rs k) =
    (Ok (), st_at name bs cs p ts (attach p c (rs[c := (rs ! c)\<lparr>range_end := of_nat n\<rparr>])) k)"
proof -
  let ?rs = "rs[c := (rs ! c)\<lparr>range_end := of_nat n\<rparr>]"
  note t = tree_okD [OF tree]
  note closed = tree_ok_close [OF tree n]
  note t' = tree_okD [OF closed]
  have c: "c < length rs" "p < c" "p < length rs" "c \<noteq> p" using t(3,4) by auto
  have parent: "parent_idx (rs ! c) = int p" using t(5) by simp
  have start: "range_start (rs ! c) \<noteq> of_nat n"
    using t(10) [of c] c n by (auto simp: open_ok_def unat_of_nat)
  have p: "?rs ! p = rs ! p" using c by simp
  have first: "first_child_idx (rs ! p) \<noteq> NO_RELATION"
    using t'(7) [of p] c by (auto simp: node_ok_def child_of_def p split: list.splits)
  have num: "u32_add debug (num_child_ranges (rs ! p)) 1 = Ok (num_child_ranges (rs ! p) + 1)" for debug
    using num_children_small [OF tree c(3) len] .
  have last: "last_child_idx (rs ! p) = NO_RELATION \<or> (\<exists>l. last_child_idx (rs ! p) = int l \<and> l < length rs)"
    using last_child_small [OF tree c(3)] .
  show ?thesis
    using c len parent start first last
    by (simp add: pop_range_def act_bind_def range_simps Let_def tok_check_True as_i32_small as_usize_int act_res_def num
        attach_def tok_simps)
qed

definition code_range :: "nat \<Rightarrow> InputPosition list \<Rightarrow> u32 \<Rightarrow> u32 \<Rightarrow> int \<Rightarrow> TokenRange" where
  "code_range p cs s e next_sibling = \<lparr>parent_idx = int p, range_kind = RK_Code, curly_depth = of_nat (length cs),
     range_start = s, range_end = e, num_child_ranges = 0, first_child_idx = NO_RELATION,
     last_child_idx = NO_RELATION, next_sibling_idx = next_sibling\<rparr>"

definition open_range :: "nat \<Rightarrow> TokenRangeKind \<Rightarrow> InputPosition list \<Rightarrow> u32 \<Rightarrow> TokenRange" where
  "open_range p kind cs s = \<lparr>parent_idx = int p, range_kind = kind, curly_depth = of_nat (length cs),
     range_start = s, range_end = s, num_child_ranges = 0, first_child_idx = NO_RELATION,
     last_child_idx = NO_RELATION, next_sibling_idx = NO_RELATION\<rparr>"

lemma add_code_range_at:
  assumes tree: "tree_ok rs st pend None K n" and len: "length rs < 2 ^ 31"
    and e: "range_end (rs ! hd st) \<noteq> e"
  shows "add_code_range debug (int (hd st)) (range_end (rs ! hd st)) e nxt (st_at name bs cs i ts rs k) =
    (Ok (), st_at name bs cs i ts (attach (hd st) (length rs) (rs @ [code_range (hd st) cs (range_end (rs ! hd st)) e nxt])) k)"
proof -
  note t = tree_okD [OF tree]
  let ?p = "hd st"
  have p: "?p < length rs" by (rule t(4))
  have num: "u32_add debug (num_child_ranges (rs ! ?p)) 1 = Ok (num_child_ranges (rs ! ?p) + 1)" for debug
    using num_children_small [OF tree p len] .
  from last_child_small [OF tree p] consider "last_child_idx (rs ! ?p) = NO_RELATION"
    | l where "last_child_idx (rs ! ?p) = int l" "l < length rs" by blast
  then show ?thesis
  proof cases
    case 1
    then show ?thesis
      using p len e
      by (simp add: add_code_range_def act_bind_def range_simps Let_def tok_simps as_i32_small as_usize_int act_res_def num
          attach_def code_range_def list_update_append link_sibling_def act_ret_def nth_append)
  next
    case 2
    have "length rs < 2 ^ 64" using len by simp
    then show ?thesis
      using p len e 2
      by (simp add: add_code_range_def act_bind_def range_simps Let_def tok_simps as_i32_small as_usize_int act_res_def num
          attach_def code_range_def list_update_append link_sibling_def nth_append)
  qed
qed

lemma push_range_at:
  assumes tree: "tree_ok rs st None None K m" and len: "length rs + 1 < 2 ^ 31" and m: "m < n" "n < 2 ^ 32"
  shows "\<exists>rs' l K'. push_range debug kind (of_nat m) (st_at name bs cs (hd st) ts rs k) = (Ok (), st_at name bs cs l ts rs' k) \<and>
    tree_ok rs' (l # st) None None K' n \<and> length rs < length rs' \<and> length rs' \<le> length rs + 2 \<and>
    (kind \<noteq> RK_Code \<longrightarrow> special rs' = special rs @ [(kind, of_nat m)])"
proof -
  let ?p = "hd st" and ?len = "length rs"
  define rs1 where "rs1 = rs[?p := (rs ! ?p)\<lparr>first_child_idx :=
    if first_child_idx (rs ! ?p) = NO_RELATION then int ?len else first_child_idx (rs ! ?p)\<rparr>]"
  note t = tree_okD [OF tree]
  have p: "?p < ?len" by (rule t(4))
  have pend: "tree_ok rs1 st (Some ?len) None K m"
    unfolding rs1_def by (rule tree_ok_pend [OF tree])
  have len1: "length rs1 = ?len" by (simp add: rs1_def)
  have special1: "special rs1 = special rs" by (simp add: rs1_def)
  have rs1_cases: "if first_child_idx (rs ! ?p) = NO_RELATION
      then rs[?p := (rs ! ?p)\<lparr>first_child_idx := int ?len\<rparr>] = rs1 else rs = rs1"
    by (simp add: rs1_def)
  have end_m: "unat (range_end (rs ! ?p)) \<le> m" "unat (of_nat m :: u32) = m"
    using t(10) [of ?p] t(1) m by (auto simp: open_ok_def unat_of_nat)
  have end_p: "range_end (rs1 ! ?p) = range_end (rs ! ?p)" using p by (simp add: rs1_def)
  let ?open = "open_range ?p kind cs (of_nat m)"
  show ?thesis
  proof (cases "range_end (rs ! ?p) = of_nat m")
    case True
    have "push_range debug kind (of_nat m) (st_at name bs cs ?p ts rs k) =
        (Ok (), st_at name bs cs ?len ts (rs1 @ [?open]) k)"
      using p len True rs1_cases len1
      by (cases "first_child_idx (rs ! ?p) = NO_RELATION")
        (simp_all add: push_range_def act_bind_def range_simps Let_def as_i32_small act_ret_def open_range_def)
    moreover have "tree_ok (rs1 @ [?open]) (length rs1 # st) None None K n"
      using tree_ok_more_tokens [OF pend, of n] m True end_p end_m len1
      by (intro tree_ok_open) (simp_all add: open_range_def)
    ultimately show ?thesis
      using len1 special1 by (intro exI [of _ "rs1 @ [?open]"] exI [of _ ?len] exI [of _ K]) (simp add: open_range_def)
  next
    case False
    define code where "code = code_range ?p cs (range_end (rs ! ?p)) (of_nat m) (int (Suc ?len))"
    define rs2 where "rs2 = attach ?p ?len (rs1 @ [code])"
    let ?K = "K(?p := K ?p @ [?len])"
    have code: "parent_idx code = int ?p" "range_start code = range_end (rs1 ! ?p)" "range_end code = of_nat m"
      "num_child_ranges code = 0" "first_child_idx code = NO_RELATION" "last_child_idx code = NO_RELATION"
      "next_sibling_idx code = int (Suc ?len)"
      by (simp_all add: code_def code_range_def end_p)
    have lt: "range_end (rs ! ?p) < of_nat m"
      using False end_m by (metis nless_le word_le_nat_alt)
    have leaf: "tree_ok (rs1 @ [code]) st (Some ?len) (Some ?len) K m"
      using tree_ok_leaf [OF pend code(1,2) _ _ code(4-6)] lt end_p end_m code len1 by simp
    have len2: "length rs2 = Suc ?len" by (simp add: rs2_def len1)
    have tree2: "tree_ok rs2 st (Some (length rs2)) None ?K m"
      unfolding rs2_def [symmetric] len2 using tree_ok_attach [OF leaf, of "Some (Suc ?len)"] code(7) len1
      by (simp add: rs2_def nth_append)
    have add: "add_code_range debug (int ?p) (range_end (rs ! ?p)) (of_nat m) (int (Suc ?len)) (st_at name bs cs ?p ts rs1 k) =
        (Ok (), st_at name bs cs ?p ts rs2 k)"
      using add_code_range_at [OF pend] len False end_p by (simp add: rs2_def code_def len1)
    have "push_range debug kind (of_nat m) (st_at name bs cs ?p ts rs k) =
        (Ok (), st_at name bs cs (length rs2) ts (rs2 @ [?open]) k)"
      using p len False rs1_cases add
      by (cases "first_child_idx (rs ! ?p) = NO_RELATION")
        (simp_all add: push_range_def act_bind_def range_simps Let_def as_i32_small i32_add_small act_res_def act_ret_def
          open_range_def)
    moreover have "range_end (rs2 ! ?p) = of_nat m"
    proof -
      have p1: "?p < length (rs1 @ [code])" using p len1 by simp
      show ?thesis
        using tree_okD(8) [OF leaf p1] tree_okD(7) [OF leaf p1] p1 code(3) len1
        unfolding rs2_def by (subst attach_nth(2) [where ks = "K ?p"]) (auto simp: kids_ok_def node_ok_def nth_append)
    qed
    then have "tree_ok (rs2 @ [?open]) (length rs2 # st) None None ?K n"
      using tree_ok_more_tokens [OF tree2, of n] m end_m
      by (intro tree_ok_open) (simp_all add: open_range_def)
    ultimately show ?thesis
      using len2 special1 by (intro exI [of _ "rs2 @ [?open]"] exI [of _ "length rs2"] exI [of _ ?K])
        (simp add: open_range_def rs2_def code_def code_range_def)
  qed
qed

lemma tree_ok_popped:
  assumes tree: "tree_ok rs (c # p # st) None None K n" and n: "n < 2 ^ 32"
  shows "tree_ok (attach p c (rs[c := (rs ! c)\<lparr>range_end := of_nat n\<rparr>])) (p # st) None None (K(p := K p @ [c])) n"
proof -
  have "c < length rs" "c \<in> set (c # p # st)" using tree_okD(4) [OF tree] by auto
  then have "next_sibling_idx (rs[c := (rs ! c)\<lparr>range_end := of_nat n\<rparr>] ! c) = NO_RELATION"
    using tree_okD(10) [OF tree, of c] by (simp add: open_ok_def)
  then show ?thesis
    using tree_ok_attach [OF tree_ok_close [OF tree n], of None] by simp
qed

end
