(* ===== verification/Tokenizer_Loop.thy ===== *)
theory Tokenizer_Loop
  imports Tokenizer_Tree
begin

text \<open>
  The main loop of the tokenizer. Between two iterations the bytes so far are divided into
  lexemes, the buffer holds the tokens of these lexemes, the stack of the tokenizer holds
  the open curly braces among them, and the ranges form a tree.
\<close>

section \<open>Curly braces and ranges as functions of the lexemes\<close>

fun open_braces :: "u8 list \<Rightarrow> (TokenKind \<times> nat \<times> nat) list \<Rightarrow> InputPosition list \<Rightarrow> InputPosition list option" where
  "open_braces bs [] cs = Some cs"
| "open_braces bs ((kind, i, j) # lxs) cs =
     (if kind = TK_OpenCurly then open_braces bs lxs (cs @ [pos_at bs i])
      else if kind = TK_CloseCurly then (if cs = [] then None else open_braces bs lxs (butlast cs))
      else open_braces bs lxs cs)"

definition opens_range :: "u8 list \<Rightarrow> TokenKind \<times> nat \<times> nat \<Rightarrow> bool" where
  "opens_range bs lx = (case lx of (kind, i, j) \<Rightarrow>
     kind = TK_Pragma \<or>
     kind = TK_Ident \<and> (demarks_definition (take (j - i) (drop i bs)) \<or> demarks_import (take (j - i) (drop i bs))))"

definition range_opened :: "u8 list \<Rightarrow> TokenKind \<times> nat \<times> nat \<Rightarrow> TokenRangeKind option" where
  "range_opened bs lx = (case lx of (kind, i, j) \<Rightarrow>
     if kind = TK_Pragma then Some RK_Pragma
     else if kind = TK_Ident \<and> demarks_definition (take (j - i) (drop i bs)) then Some RK_Definition
     else if kind = TK_Ident \<and> demarks_import (take (j - i) (drop i bs)) then Some RK_Import
     else None)"

lemma opens_range_iff: "opens_range bs lx \<longleftrightarrow> range_opened bs lx \<noteq> None"
  by (auto simp: opens_range_def range_opened_def split: prod.split)

lemma range_opened_not_code: "range_opened bs lx = Some rkind \<Longrightarrow> rkind \<noteq> RK_Code"
  by (auto simp: range_opened_def split: prod.splits if_splits)

text \<open>The ranges that the lexemes open: their kinds and the indices of their first tokens.\<close>

fun openings :: "u8 list \<Rightarrow> nat \<Rightarrow> (TokenKind \<times> nat \<times> nat) list \<Rightarrow> (TokenRangeKind \<times> u32) list" where
  "openings bs n [] = []"
| "openings bs n (lx # lxs) =
     (case range_opened bs lx of None \<Rightarrow> [] | Some rkind \<Rightarrow> [(rkind, of_nat n)]) @ openings bs (n + length (emit bs lx)) lxs"

definition tokens_of :: "u8 list \<Rightarrow> (TokenKind \<times> nat \<times> nat) list \<Rightarrow> Token list" where
  "tokens_of bs lxs = concat (map (emit bs) lxs)"

lemma tokens_of_simps [simp]:
  "tokens_of bs [] = []" "tokens_of bs (lxs @ lxs') = tokens_of bs lxs @ tokens_of bs lxs'"
  "tokens_of bs (lx # lxs) = emit bs lx @ tokens_of bs lxs"
  by (simp_all add: tokens_of_def)

lemma open_braces_append:
  "open_braces bs (lxs @ lxs') cs = Option.bind (open_braces bs lxs cs) (open_braces bs lxs')"
  by (induction bs lxs cs rule: open_braces.induct) auto

lemma openings_append:
  "openings bs n (lxs @ lxs') = openings bs n lxs @ openings bs (n + length (tokens_of bs lxs)) lxs'"
  by (induction bs n lxs rule: openings.induct) (simp_all add: add.assoc)

lemma emit_length: "0 < length (emit bs lx) \<and> length (emit bs lx) \<le> 2"
  by (auto simp: emit_def split: prod.split)

definition loop_inv :: "u8 list \<Rightarrow> InputPosition list \<Rightarrow> nat \<Rightarrow> Token list \<Rightarrow> TokenRange list \<Rightarrow> nat \<Rightarrow>
    (TokenKind \<times> nat \<times> nat) list \<Rightarrow> bool" where
  "loop_inv bs cs i ts rs k lxs \<longleftrightarrow>
     k \<le> length bs \<and> tiles bs 0 lxs k \<and> ts = tokens_of bs lxs \<and> open_braces bs lxs [] = Some cs \<and>
     length ts \<le> 2 * k \<and> length rs \<le> 1 + k \<and> (length rs = 1 \<longleftrightarrow> \<not> list_ex (opens_range bs) lxs) \<and>
     special rs = (RK_Module, 0) # openings bs 0 lxs \<and>
     (\<exists>st K. hd st = i \<and> tree_ok rs st None None K (length ts))"

lemma loop_inv_start: "loop_inv bs [] 0 [] [module_range] 0 []"
  unfolding loop_inv_def by (auto intro!: exI [of _ "[0]"] exI [of _ "\<lambda>_. []"] tree_ok_start )
    (simp add: special_def module_range_def)

lemma loop_invD:
  assumes "loop_inv bs cs i ts rs k lxs"
  shows "k \<le> length bs" "tiles bs 0 lxs k" "ts = tokens_of bs lxs" "open_braces bs lxs [] = Some cs"
    "length ts \<le> 2 * k" "length rs \<le> 1 + k" "length rs = 1 \<longleftrightarrow> \<not> list_ex (opens_range bs) lxs"
    "special rs = (RK_Module, 0) # openings bs 0 lxs"
  using assms unfolding loop_inv_def by blast+

section \<open>Steps\<close>

definition i32_input :: "u8 list \<Rightarrow> bool" where
  "i32_input bs \<longleftrightarrow> length bs < 2 ^ 31 - 2"

lemma i32_input_small: "i32_input bs \<Longrightarrow> small_input bs"
  by (simp add: i32_input_def small_input_def)

text \<open>An open range other than the module can be closed.\<close>

lemma pop_if_at:
  assumes tree: "tree_ok rs st None None K (length ts)" and P: "\<forall>r. P r \<longrightarrow> range_kind r \<noteq> RK_Module"
    and small: "length rs < 2 ^ 31" "length ts < 2 ^ 32"
  shows "\<exists>rs' st' K'. pop_if debug P (st_at name bs cs (hd st) ts rs k) = (Ok (), st_at name bs cs (hd st') ts rs' k) \<and>
    tree_ok rs' st' None None K' (length ts) \<and> length rs' = length rs \<and> special rs' = special rs"
proof -
  note t = tree_okD [OF tree]
  show ?thesis
  proof (cases "P (rs ! hd st)")
    case True
    then have "hd st \<noteq> 0" using P t(13) by (cases "hd st = 0") auto
    then obtain c p st' where st: "st = c # p # st'"
      using t(1,2) by (cases st; cases "tl st") auto
    note tree' = tree [unfolded st]
    have "pop_if debug P (st_at name bs cs (hd st) ts rs k) =
        pop_range debug (of_nat (length ts)) (st_at name bs cs (hd st) ts rs k)"
      using True t(4) by (simp add: pop_if_def act_bind_def range_simps tok_simps)
    also have "\<dots> = (Ok (), st_at name bs cs p ts (attach p c (rs[c := (rs ! c)\<lparr>range_end := of_nat (length ts)\<rparr>])) k)"
      using pop_range_at [OF tree' small] st by simp
    finally show ?thesis
      using tree_ok_popped [OF tree' small(2)]
      by (intro exI [of _ "attach p c (rs[c := (rs ! c)\<lparr>range_end := of_nat (length ts)\<rparr>])"] exI [of _ "p # st'"]
          exI [of _ "K(p := K p @ [c])"]) simp
  next
    case False
    then have "pop_if debug P (st_at name bs cs (hd st) ts rs k) = (Ok (), st_at name bs cs (hd st) ts rs k)"
      using t(4) by (simp add: pop_if_def act_bind_def range_simps act_ret_def)
    then show ?thesis using tree by blast
  qed
qed

lemma pop_curly_at:
  "cs \<noteq> [] \<Longrightarrow> pop_curly (st_at name bs cs i ts rs k) = (Ok (Some (last cs)), st_at name bs (butlast cs) i ts rs k)"
  by (cases cs rule: rev_cases) (simp_all add: pop_curly_def)


definition continues :: "string \<Rightarrow> u8 list \<Rightarrow> nat \<Rightarrow> (TokenKind \<times> nat \<times> nat) list \<Rightarrow> ('a, ParseError) res \<times> Tokenizing \<Rightarrow> 'a \<Rightarrow> bool" where
  "continues name bs k lxs out x \<longleftrightarrow>
     (\<exists>cs i rs. out = (Ok x, st_at name bs cs i (tokens_of bs lxs) rs k) \<and> loop_inv bs cs i (tokens_of bs lxs) rs k lxs)"

definition rejects :: "string \<Rightarrow> u8 list \<Rightarrow> nat \<Rightarrow> InputPosition list \<Rightarrow> ('a, ParseError) res \<times> Tokenizing \<Rightarrow> bool" where
  "rejects name bs k cs out \<longleftrightarrow>
     fails_in name bs out \<and> (\<forall>lxs. tiles bs k lxs (length bs) \<longrightarrow> open_braces bs lxs cs = None)"

lemma loop_inv_lexeme:
  assumes inv: "loop_inv bs cs i ts rs k lxs" and lx: "lexeme bs kind k j" "blank bs j k'" "k' \<le> length bs"
    and cs: "open_braces bs [(kind, k, j)] cs = Some cs'"
    and tree: "tree_ok rs' st' None None K' (length ts + length (emit bs (kind, k, j)))"
    and rs: "length rs' \<le> 1 + k'" "length rs' = 1 \<longleftrightarrow> length rs = 1 \<and> \<not> opens_range bs (kind, k, j)"
      "special rs' = special rs @ (case range_opened bs (kind, k, j) of None \<Rightarrow> [] | Some rkind \<Rightarrow> [(rkind, of_nat (length ts))])"
  shows "loop_inv bs cs' (hd st') (tokens_of bs (lxs @ [(kind, k, j)])) rs' k' (lxs @ [(kind, k, j)])"
proof -
  note i = loop_invD [OF inv]
  have "k < j" "j \<le> k'" using lx by (auto simp: lexeme_def blank_def)
  then have "length (tokens_of bs (lxs @ [(kind, k, j)])) \<le> 2 * k'"
    using i(3,5) emit_length [of bs "(kind, k, j)"] by simp
  moreover have "tiles bs 0 (lxs @ [(kind, k, j)]) k'"
    using tiles_blank [OF tiles_snoc [OF i(2) lx(1)] lx(2)] .
  ultimately show ?thesis
    unfolding loop_inv_def using i(3,4,7,8) lx(3) cs tree rs
    by (auto simp: open_braces_append openings_append)
qed

lemma handle_punctuation_continues:
  assumes inv: "loop_inv bs cs i ts rs k lxs" and small: "i32_input bs"
    and lx: "lexeme bs kind k j" "blank bs j k'" "k' \<le> length bs"
    and kind: "\<not> opens_range bs (kind, k, j)" "kind = TK_CloseCurly \<Longrightarrow> cs \<noteq> []"
  shows "continues name bs k' (lxs @ [(kind, k, j)])
    (handle_punctuation debug kind (pos_at bs k) (st_at name bs cs i (ts @ emit bs (kind, k, j)) rs k')) ()"
proof -
  let ?lxs = "lxs @ [(kind, k, j)]" and ?ts = "ts @ emit bs (kind, k, j)"
  note v = loop_invD [OF inv]
  obtain st K where st: "hd st = i" "tree_ok rs st None None K (length ts)" using inv by (auto simp: loop_inv_def)
  have j: "k < j" "j \<le> k'" using lx by (auto simp: lexeme_def blank_def)
  have tree: "tree_ok rs st None None K (length ?ts)" by (rule tree_ok_more_tokens [OF st(2)]) simp
  have len: "length rs < 2 ^ 31" "length ?ts < 2 ^ 32"
    using v(5,6) j lx(3) small emit_length [of bs "(kind, k, j)"] by (simp_all add: i32_input_def)
  have ts: "?ts = tokens_of bs ?lxs" using v(3) by simp
  note inv' = loop_inv_lexeme [OF inv lx]
  have none: "range_opened bs (kind, k, j) = None" using kind(1) opens_range_iff by blast
  have same: "length rs' = length rs \<Longrightarrow> length rs' \<le> 1 + k' \<and> (length rs' = 1 \<longleftrightarrow> length rs = 1 \<and> \<not> opens_range bs (kind, k, j))"
    for rs' :: "TokenRange list" using v(6) j kind(1) by auto
  consider (op) "kind = TK_OpenCurly" | (cl) "kind = TK_CloseCurly" | (semi) "kind = TK_SemiColon"
    | (other) "kind \<notin> {TK_OpenCurly, TK_CloseCurly, TK_SemiColon}" by auto
  then show ?thesis
  proof cases
    case op
    have "loop_inv bs (cs @ [pos_at bs k]) (hd st) (tokens_of bs ?lxs) rs k' ?lxs"
      by (rule inv' [OF _ _ conjunct1 [OF same] conjunct2 [OF same]]) (use op tree none in simp_all)
    then show ?thesis
      using op ts st(1) by (auto simp: continues_def handle_punctuation_def push_curly_def act_modify_def)
  next
    case cl
    define P where "P = (\<lambda>range :: TokenRange. range_kind range = RK_Definition \<and> curly_depth range = of_nat (length (butlast cs)))"
    have "\<forall>r. P r \<longrightarrow> range_kind r \<noteq> RK_Module" by (auto simp: P_def)
    from pop_if_at [OF tree this len, of debug name bs "butlast cs" k']
    obtain rs' st' K' where pop: "pop_if debug P (st_at name bs (butlast cs) (hd st) ?ts rs k') =
        (Ok (), st_at name bs (butlast cs) (hd st') ?ts rs' k')"
      "tree_ok rs' st' None None K' (length ?ts)" "length rs' = length rs" "special rs' = special rs" by blast
    have "loop_inv bs (butlast cs) (hd st') (tokens_of bs ?lxs) rs' k' ?lxs"
      by (rule inv' [OF _ _ conjunct1 [OF same] conjunct2 [OF same]]) (use cl kind(2) pop none in simp_all)
    moreover have "handle_punctuation debug kind (pos_at bs k) (st_at name bs cs i ?ts rs k') =
        (Ok (), st_at name bs (butlast cs) (hd st') ?ts rs' k')"
      using cl kind(2) pop(1) st(1)
      by (simp add: handle_punctuation_def act_bind_def act_get_def pop_curly_at range_simps P_def)
    ultimately show ?thesis using ts by (auto simp: continues_def)
  next
    case semi
    have "\<forall>r :: TokenRange. range_kind r = RK_Import \<longrightarrow> range_kind r \<noteq> RK_Module" by auto
    from pop_if_at [OF tree this len, of debug name bs cs k']
    obtain rs' st' K' where pop: "pop_if debug (\<lambda>r. range_kind r = RK_Import) (st_at name bs cs (hd st) ?ts rs k') =
        (Ok (), st_at name bs cs (hd st') ?ts rs' k')"
      "tree_ok rs' st' None None K' (length ?ts)" "length rs' = length rs" "special rs' = special rs" by blast
    have "loop_inv bs cs (hd st') (tokens_of bs ?lxs) rs' k' ?lxs"
      by (rule inv' [OF _ _ conjunct1 [OF same] conjunct2 [OF same]]) (use semi pop none in simp_all)
    then show ?thesis
      using semi pop(1) st(1) ts by (auto simp: continues_def handle_punctuation_def)
  next
    case other
    have "loop_inv bs cs (hd st) (tokens_of bs ?lxs) rs k' ?lxs"
      by (rule inv' [OF _ _ conjunct1 [OF same] conjunct2 [OF same]]) (use other tree none in simp_all)
    then show ?thesis
      using other ts st(1) by (auto simp: continues_def handle_punctuation_def act_ret_def)
  qed
qed


text \<open>Every range other than the module and the code ranges starts with a lexeme of two bytes or more.\<close>

lemma opens_range_length:
  assumes "lexeme bs kind k j" "opens_range bs (kind, k, j)"
  shows "k + 2 \<le> j"
proof (cases "kind = TK_Pragma")
  case True
  then show ?thesis
    using assms(1) run_end_bounds [of "Suc k" bs is_identifier_remaining] by (auto simp: lexeme_def)
next
  case False
  then have "2 \<le> length (take (j - k) (drop k bs))"
    using assms(2)
    by (auto simp: opens_range_def demarks_definition_def demarks_import_def KW_STRUCT_def KW_ENUM_def KW_UNION_def
        KW_FUNCTION_def KW_PRIMITIVE_def KW_COMPOSITE_def KW_IMPORT_def simp del: length_take length_drop)
  then show ?thesis using assms(1) by (auto simp: lexeme_def)
qed

lemma push_range_continues:
  assumes inv: "loop_inv bs cs i ts rs k lxs" and small: "i32_input bs"
    and lx: "lexeme bs kind k j" "blank bs j k'" "k' \<le> length bs"
    and opened: "range_opened bs (kind, k, j) = Some rkind"
  shows "continues name bs k' (lxs @ [(kind, k, j)])
    (push_range debug rkind (of_nat (length ts)) (st_at name bs cs i (ts @ emit bs (kind, k, j)) rs k')) ()"
proof -
  let ?lxs = "lxs @ [(kind, k, j)]" and ?ts = "ts @ emit bs (kind, k, j)"
  note v = loop_invD [OF inv]
  have kind: "opens_range bs (kind, k, j)" using opened by (simp add: opens_range_iff)
  obtain st K where st: "hd st = i" "tree_ok rs st None None K (length ts)" using inv by (auto simp: loop_inv_def)
  have j: "k + 2 \<le> j" "j \<le> k'" using opens_range_length [OF lx(1) kind] lx(2) by (auto simp: blank_def)
  have bounds: "length rs + 1 < 2 ^ 31" "length ts < length ?ts" "length ?ts < 2 ^ 32"
    using v(5,6) j lx(3) small emit_length [of bs "(kind, k, j)"] by (simp_all add: i32_input_def)
  from push_range_at [OF st(2) bounds, of debug rkind name bs cs ?ts k']
  obtain rs' l K' where push: "push_range debug rkind (of_nat (length ts)) (st_at name bs cs (hd st) ?ts rs k') =
      (Ok (), st_at name bs cs l ?ts rs' k')"
    "tree_ok rs' (l # st) None None K' (length ?ts)" "length rs < length rs'" "length rs' \<le> length rs + 2"
    "special rs' = special rs @ [(rkind, of_nat (length ts))]" using range_opened_not_code [OF opened] by blast
  have kind': "kind \<noteq> TK_OpenCurly" "kind \<noteq> TK_CloseCurly" using kind by (auto simp: opens_range_def)
  have "length rs' \<noteq> 1" using push(3) tree_okD(4) [OF st(2)] by simp
  then have "loop_inv bs cs (hd (l # st)) (tokens_of bs ?lxs) rs' k' ?lxs"
    using kind kind' push(2,4,5) v(6) j opened by (intro loop_inv_lexeme [OF inv lx]) simp_all
  then show ?thesis
    using push(1) st(1) v(3) unfolding continues_def by auto
qed

lemma after_token_continues:
  assumes inv: "loop_inv bs cs i ts rs k lxs" and small: "i32_input bs"
    and lx: "lexeme bs kind k j" "blank bs j k'" "k' \<le> length bs"
    and close: "kind = TK_CloseCurly \<Longrightarrow> cs \<noteq> []"
  shows "continues name bs k' (lxs @ [(kind, k, j)])
    (after_token debug bs (of_nat (length ts)) (kind, k, j) (st_at name bs cs i (ts @ emit bs (kind, k, j)) rs k')) ()"
proof (cases "opens_range bs (kind, k, j)")
  case True
  then obtain rkind where opened: "range_opened bs (kind, k, j) = Some rkind" by (auto simp: opens_range_iff)
  have "after_token debug bs n (kind, k, j) = push_range debug rkind n" for n
    using opened by (auto simp: after_token_def range_opened_def Let_def split: if_splits)
  with push_range_continues [OF inv small lx opened] show ?thesis by simp
next
  case False
  note other = handle_punctuation_continues [OF inv small lx False close, of name debug]
  show ?thesis
    using False other by (auto simp: after_token_def opens_range_def Let_def handle_punctuation_def)
qed

lemma after_token_unmatched:
  assumes "lexeme bs TK_CloseCurly k j" "i32_input bs"
  shows "fails_in name bs (after_token debug bs n (TK_CloseCurly, k, j) (st_at name bs [] i ts rs k'))"
proof -
  have "k \<le> length bs" "small_input bs" using assms i32_input_small by (auto simp: lexeme_def)
  then show ?thesis
    by (simp add: after_token_def handle_punctuation_def act_bind_def act_get_def tok_simps fails_inI)
qed

lemma loop_inv_blank:
  assumes "loop_inv bs cs i ts rs k lxs" "blank bs k k'" "k' \<le> length bs" "hd st' = i'" "tree_ok rs' st' None None K' (length ts)"
    "length rs' = length rs" "special rs' = special rs"
  shows "loop_inv bs cs i' ts rs' k' lxs"
  using assms tiles_blank [of bs 0 lxs k k'] unfolding loop_inv_def blank_def by auto

text \<open>
  One iteration: it goes on after white space or a lexeme, or fails, and then the rest of the
  file has no division into lexemes whose curly braces match.
\<close>

lemma iteration_continues:
  assumes inv: "loop_inv bs cs i ts rs k lxs" and small: "i32_input bs" and k: "k < length bs"
    and out_def: "out = tokenize_byte debug (bs ! k) (st_at name bs cs i ts rs k)"
  shows "rejects name bs k cs out \<or>
    (\<exists>k'. k < k' \<and> k' \<le> length bs \<and> blank bs k k' \<and> continues name bs k' lxs out ()) \<or>
    (\<exists>kind j k'. lexeme bs kind k j \<and> blank bs j k' \<and> k' \<le> length bs \<and> continues name bs k' (lxs @ [(kind, k, j)]) out ())"
proof -
  note v = loop_invD [OF inv]
  from iteration [OF i32_input_small [OF small] k, of debug name "\<lparr>curly_stack = cs, stack_idx = i\<rparr>" "\<lparr>tokens = ts, ranges = rs\<rparr>"]
  consider "fails_in name bs out" "no_tiling bs k"
    | k' where "k < k'" "k' \<le> length bs" "blank bs k k'"
      "out = after_blank debug (newline \<in> set (takeWhile is_whitespace (drop k bs))) (st_at name bs cs i ts rs k')"
    | kind j k' where "lexeme bs kind k j" "blank bs j k'" "k' \<le> length bs"
      "out = after_token debug bs (of_nat (length ts)) (kind, k, j) (st_at name bs cs i (ts @ emit bs (kind, k, j)) rs k')"
    unfolding iteration_ok_def consumes_lexeme_def out_def add_tokens_def by auto
  then show ?thesis
  proof cases
    case 1
    then show ?thesis by (auto simp: rejects_def no_tiling_def)
  next
    case (2 k')
    obtain st K where st: "hd st = i" "tree_ok rs st None None K (length ts)" using inv by (auto simp: loop_inv_def)
    have len: "length rs < 2 ^ 31" "length ts < 2 ^ 32" using v(1,5,6) small by (simp_all add: i32_input_def)
    have P: "\<forall>r :: TokenRange. range_kind r = RK_Pragma \<longrightarrow> range_kind r \<noteq> RK_Module" by auto
    from pop_if_at [OF st(2) P len, of debug name bs cs k'] obtain rs' st' K' where pop:
      "pop_if debug (\<lambda>r. range_kind r = RK_Pragma) (st_at name bs cs i ts rs k') = (Ok (), st_at name bs cs (hd st') ts rs' k')"
      "tree_ok rs' st' None None K' (length ts)" "length rs' = length rs" "special rs' = special rs" using st(1) by blast
    note kept = loop_inv_blank [OF inv 2(3,2) refl pop(2,3,4)] loop_inv_blank [OF inv 2(3,2) st refl refl]
    have "continues name bs k' lxs out ()"
    proof (cases "newline \<in> set (takeWhile is_whitespace (drop k bs))")
      case True
      then have "out = (Ok (), st_at name bs cs (hd st') ts rs' k')" using 2(4) pop(1) by (simp add: after_blank_def)
      then show ?thesis using kept(1) v(3) unfolding continues_def by blast
    next
      case False
      then have "out = (Ok (), st_at name bs cs i ts rs k')" using 2(4) by (simp add: after_blank_def act_ret_def)
      then show ?thesis using kept(2) v(3) unfolding continues_def by blast
    qed
    then show ?thesis using 2 by blast
  next
    case (3 kind j k')
    show ?thesis
    proof (cases "kind = TK_CloseCurly \<and> cs = []")
      case True
      then have "fails_in name bs out" using after_token_unmatched [of bs k j] 3 small by simp
      moreover have "open_braces bs lxs' cs = None" if "tiles bs k lxs' (length bs)" for lxs'
      proof -
        have "j \<le> length bs" using 3(1) by (simp add: lexeme_def)
        from tiles_lexeme [OF that 3(1) this] obtain lxs'' where "lxs' = (kind, k, j) # lxs''" .
        then show ?thesis using True by simp
      qed
      ultimately show ?thesis by (simp add: rejects_def)
    next
      case False
      then have "continues name bs k' (lxs @ [(kind, k, j)]) out ()"
        using after_token_continues [OF inv small 3(1-3)] 3(4) by simp
      then show ?thesis using 3 by blast
    qed
  qed
qed

definition main_body :: "bool \<Rightarrow> u8 \<Rightarrow> unit \<Rightarrow> unit flow tok" where
  "main_body debug c u = act_bind (tokenize_byte debug c) (\<lambda>_. act_ret (Continue ()))"

lemma main_loop:
  "loop_inv bs cs i ts rs k lxs \<Longrightarrow> i32_input bs \<Longrightarrow> length bs - k < fuel \<Longrightarrow>
    rejects name bs k cs (while_bytes fuel (main_body debug) () (st_at name bs cs i ts rs k)) \<or>
    (\<exists>lxs'. continues name bs (length bs) (lxs @ lxs') (while_bytes fuel (main_body debug) () (st_at name bs cs i ts rs k)) ())"
proof (induction fuel arbitrary: cs i ts rs k lxs)
  case (Suc fuel)
  note v = loop_invD [OF Suc.prems(1)]
  let ?s = "st_at name bs cs i ts rs k"
  show ?case
  proof (cases "k < length bs")
    case False
    then have "k = length bs" using v(1) by simp
    then have "continues name bs (length bs) (lxs @ []) (while_bytes (Suc fuel) (main_body debug) () ?s) ()"
      using v(3) Suc.prems(1) by (auto simp: act_bind_def tok_simps act_ret_def continues_def)
    then show ?thesis by blast
  next
    case True
    let ?out = "tokenize_byte debug (bs ! k) ?s"
    have step: "while_bytes (Suc fuel) (main_body debug) () ?s = while_bytes fuel (main_body debug) () s'"
      if "?out = (Ok (), s')" for s'
      using True that by (simp add: act_bind_def tok_simps act_ret_def main_body_def)
    have fail: "fails_in name bs (while_bytes (Suc fuel) (main_body debug) () ?s)" if f: "fails_in name bs ?out"
    proof -
      obtain p msg s' where "p \<le> length bs" "?out = (Err (error_at name bs p msg), s')"
        using f unfolding fails_in_def by (metis prod.collapse)
      then show ?thesis using True by (simp add: act_bind_def tok_simps main_body_def fails_inI)
    qed
    from iteration_continues [OF Suc.prems(1,2) True refl, where name = name and debug = debug] consider
        "rejects name bs k cs ?out"
      | k' where "k < k'" "k' \<le> length bs" "blank bs k k'" "continues name bs k' lxs ?out ()"
      | kind j k' where "lexeme bs kind k j" "blank bs j k'" "k' \<le> length bs" "continues name bs k' (lxs @ [(kind, k, j)]) ?out ()"
      by blast
    then show ?thesis
    proof cases
      case 1
      then show ?thesis using fail unfolding rejects_def by blast
    next
      case (2 k')
      from 2(4) obtain cs' i' rs' where c: "?out = (Ok (), st_at name bs cs' i' (tokens_of bs lxs) rs' k')"
        "loop_inv bs cs' i' (tokens_of bs lxs) rs' k' lxs" by (auto simp: continues_def)
      have cs: "cs' = cs" using loop_invD(4) [OF c(2)] v(4) by simp
      have "length bs - k' < fuel" using Suc.prems(3) 2(1,2) by simp
      from Suc.IH [OF c(2) Suc.prems(2) this]
      show ?thesis
      proof (elim disjE)
        assume "rejects name bs k' cs' (while_bytes fuel (main_body debug) () (st_at name bs cs' i' (tokens_of bs lxs) rs' k'))"
        then have "rejects name bs k cs (while_bytes (Suc fuel) (main_body debug) () ?s)"
          unfolding step [OF c(1)] using tiles_after_blank [OF _ 2(3,2)] cs by (auto simp: rejects_def)
        then show ?thesis ..
      next
        assume "\<exists>lxs'. continues name bs (length bs) (lxs @ lxs') (while_bytes fuel (main_body debug) ()
          (st_at name bs cs' i' (tokens_of bs lxs) rs' k')) ()"
        then show ?thesis unfolding step [OF c(1)] ..
      qed
    next
      case (3 kind j k')
      from 3(4) obtain cs' i' rs' where c: "?out = (Ok (), st_at name bs cs' i' (tokens_of bs (lxs @ [(kind, k, j)])) rs' k')"
        "loop_inv bs cs' i' (tokens_of bs (lxs @ [(kind, k, j)])) rs' k' (lxs @ [(kind, k, j)])" by (auto simp: continues_def)
      have cs: "open_braces bs [(kind, k, j)] cs = Some cs'"
        using loop_invD(4) [OF c(2)] v(4) by (simp add: open_braces_append)
      have j: "k < j" "j \<le> k'" using 3(1,2) by (auto simp: lexeme_def blank_def)
      then have "length bs - k' < fuel" using Suc.prems(3) 3(3) by simp
      from Suc.IH [OF c(2) Suc.prems(2) this]
      show ?thesis
      proof (elim disjE)
        assume rej: "rejects name bs k' cs' (while_bytes fuel (main_body debug) ()
          (st_at name bs cs' i' (tokens_of bs (lxs @ [(kind, k, j)])) rs' k'))"
        have "open_braces bs lxs' cs = None" if "tiles bs k lxs' (length bs)" for lxs'
        proof -
          from tiles_lexeme [OF that 3(1)] j(2) 3(3) obtain lxs'' where l: "lxs' = (kind, k, j) # lxs''" "tiles bs j lxs'' (length bs)"
            by (metis le_trans)
          have "open_braces bs lxs'' cs' = None"
            using tiles_after_blank [OF l(2) 3(2,3)] rej by (auto simp: rejects_def)
          moreover have "open_braces bs lxs' cs = Option.bind (open_braces bs [(kind, k, j)] cs) (open_braces bs lxs'')"
            using open_braces_append [of bs "[(kind, k, j)]" lxs'' cs] l(1) by simp
          ultimately show ?thesis using cs by simp
        qed
        then have "rejects name bs k cs (while_bytes (Suc fuel) (main_body debug) () ?s)"
          unfolding step [OF c(1)] using rej by (auto simp: rejects_def)
        then show ?thesis ..
      next
        assume "\<exists>lxs'. continues name bs (length bs) ((lxs @ [(kind, k, j)]) @ lxs') (while_bytes fuel (main_body debug) ()
          (st_at name bs cs' i' (tokens_of bs (lxs @ [(kind, k, j)])) rs' k')) ()"
        then obtain lxs' where "continues name bs (length bs) (lxs @ ((kind, k, j) # lxs')) (while_bytes (Suc fuel) (main_body debug) () ?s) ()"
          unfolding step [OF c(1)] by auto
        then show ?thesis by blast
      qed
    qed
  qed
qed simp

end
