(* ===== verification/Tokenizer_Finish.thy ===== *)
theory Tokenizer_Finish
  imports Tokenizer_Loop
begin

text \<open>
  The end of the tokenizer: it closes the open ranges, adds the last range of code and, in a
  debug build, checks the tree of ranges.
\<close>

section \<open>The check of the tree\<close>

lemma linked_Cons:
  "linked rs None (j # ks) \<Longrightarrow>
    next_sibling_idx (rs ! j) = (case ks of [] \<Rightarrow> NO_RELATION | k # _ \<Rightarrow> int k) \<and> linked rs None ks"
  by (cases ks) auto

lemma follow_siblings_linked:
  assumes "linked rs None ks" "\<forall>j \<in> set ks. j < length rs \<and> parent_idx (rs ! j) = p"
    and "length ks < fuel" "c + length ks < 2 ^ 32" "length rs < 2 ^ 31"
  shows "follow_siblings fuel rs p (case ks of [] \<Rightarrow> NO_RELATION | k # _ \<Rightarrow> int k) l (of_nat c) =
    (Ok (if ks = [] then l else int (last ks), of_nat (c + length ks)) :: (_, 'e) res)"
  using assms
proof (induction ks arbitrary: fuel l c)
  case Nil
  then show ?case by (cases fuel) simp_all
next
  case (Cons j ks)
  obtain fuel' where fuel: "fuel = Suc fuel'" using Cons.prems(3) by (cases fuel) auto
  note links = linked_Cons [OF Cons.prems(1)]
  have "as_usize (int j) = j" using Cons.prems(2,5) by (intro as_usize_int) auto
  moreover have "u32_add True (of_nat c) 1 = (Ok (of_nat (Suc c)) :: (_, 'e) res)"
    using Cons.prems(4) by (intro u32_add_of_nat_1) simp
  moreover have "follow_siblings fuel' rs p (case ks of [] \<Rightarrow> NO_RELATION | k # _ \<Rightarrow> int k) (int j) (of_nat (Suc c)) =
      (Ok (if ks = [] then int j else int (last ks), of_nat (Suc c + length ks)) :: (_, 'e) res)"
    using links Cons.prems fuel by (intro Cons.IH) auto
  ultimately show ?case
    using links Cons.prems(2) fuel by (simp add: vec_get_Ok rassert_def)
qed

lemma check_children_ok:
  assumes tree: "tree_ok rs [0] None None K n" and i: "i < length rs" and len: "length rs < 2 ^ 31"
  shows "check_children rs i = (Ok () :: (_, 'e) res)"
proof -
  have "child_of [0] None i = None" by (simp add: child_of_def)
  then have node: "num_child_ranges (rs ! i) = of_nat (length (K i))"
    "last_child_idx (rs ! i) = (if K i = [] then NO_RELATION else int (last (K i)))"
    "first_child_idx (rs ! i) = (case K i of [] \<Rightarrow> NO_RELATION | k # _ \<Rightarrow> int k)"
    "linked rs None (K i)"
    using tree_okD(7) [OF tree i] by (auto simp: node_ok_def split: list.splits)
  have kids: "distinct (K i)" "\<forall>j \<in> set (K i). j < length rs \<and> parent_idx (rs ! j) = int i"
    using tree_okD(8) [OF tree i] by (auto simp: kids_ok_def)
  then have "set (K i) \<subseteq> {..<length rs}" by auto
  then have small: "length (K i) \<le> length rs"
    using card_mono [of "{..<length rs}" "set (K i)"] kids(1) by (simp add: distinct_card)
  have zero: "of_nat (length (K i)) = (0 :: u32) \<longleftrightarrow> K i = []"
    using small len by (simp add: word_of_nat_eq_0_iff nat_dvd_not_less dvd_imp_le) (auto dest!: dvd_imp_le)
  have "follow_siblings (Suc (length rs)) rs (int i) (case K i of [] \<Rightarrow> NO_RELATION | k # _ \<Rightarrow> int k) l (of_nat 0) =
      (Ok (if K i = [] then l else int (last (K i)), of_nat (0 + length (K i))) :: (_, 'e) res)" for l
    using node(4) kids(2) small len by (intro follow_siblings_linked) simp_all
  then show ?thesis
    using i len node zero
    by (cases "K i") (simp_all add: check_children_def vec_get_Ok as_i32_small rassert_def del: follow_siblings.simps)
qed

lemma check_all_ok: "\<forall>i \<in> set is. check_children rs i = (Ok () :: (_, 'e) res) \<Longrightarrow> check_all rs is = (Ok () :: (_, 'e) res)"
  by (induction "is") simp_all

lemma check_tree_ok:
  assumes "tree_ok rs [0] None None K n" "length rs < 2 ^ 31"
  shows "check_tree rs = Ok ()"
  unfolding check_tree_def by (rule check_all_ok) (simp add: check_children_ok [OF assms(1) _ assms(2)])

section \<open>Closing the ranges\<close>

lemma open_ranges_length:
  assumes tree: "tree_ok rs st pend orph K n"
  shows "length st \<le> length rs"
proof -
  have "distinct st" using tree_okD(3) [OF tree] by (induction st) auto
  moreover have "set st \<subseteq> {..<length rs}" using tree_ok_st_less [OF tree] by auto
  ultimately show ?thesis using card_mono [of "{..<length rs}" "set st"] by (simp add: distinct_card)
qed

lemma tree_ok_root: "tree_ok rs st pend orph K n \<Longrightarrow> hd st = 0 \<Longrightarrow> st = [0]"
proof -
  assume tree: "tree_ok rs st pend orph K n" and "hd st = 0"
  then obtain st' where st: "st = 0 # st'" using tree_okD(1) [OF tree] by (cases st) auto
  then have "st' = []" using tree_okD(3) [OF tree] by (cases st') auto
  then show ?thesis using st by simp
qed

lemma pop_all_at:
  assumes "tree_ok rs st None None K (length ts)" "length st \<le> fuel" "length rs < 2 ^ 31" "length ts < 2 ^ 32"
  shows "\<exists>rs' K'. pop_all fuel debug (st_at name bs cs (hd st) ts rs k) = (Ok (), st_at name bs cs 0 ts rs' k) \<and>
    tree_ok rs' [0] None None K' (length ts) \<and> length rs' = length rs \<and> special rs' = special rs"
  using assms
proof (induction fuel arbitrary: rs st K)
  case 0
  then show ?case using tree_okD(1) [OF "0.prems"(1)] by simp
next
  case (Suc fuel)
  note t = tree_okD [OF Suc.prems(1)]
  show ?case
  proof (cases "hd st = 0")
    case True
    then have "st = [0]" using tree_ok_root [OF Suc.prems(1)] by simp
    then show ?thesis
      using Suc.prems(1) True by (auto simp: act_bind_def range_simps act_ret_def)
  next
    case False
    then obtain c p st' where st: "st = c # p # st'"
      using t(1,2) by (cases st; cases "tl st") auto
    note tree = Suc.prems(1) [unfolded st]
    let ?rs = "attach p c (rs[c := (rs ! c)\<lparr>range_end := of_nat (length ts)\<rparr>])"
    have "length (p # st') \<le> fuel" "length ?rs < 2 ^ 31" using Suc.prems(2,3) st by simp_all
    from Suc.IH [OF tree_ok_popped [OF tree Suc.prems(4)] this Suc.prems(4)]
    obtain rs' K' where IH: "pop_all fuel debug (st_at name bs cs p ts ?rs k) = (Ok (), st_at name bs cs 0 ts rs' k)"
      "tree_ok rs' [0] None None K' (length ts)" "length rs' = length rs" "special rs' = special rs" by auto
    have "pop_all (Suc fuel) debug (st_at name bs cs (hd st) ts rs k) = pop_all fuel debug (st_at name bs cs p ts ?rs k)"
      using False pop_range_at [OF tree Suc.prems(3,4), of debug name bs cs ts k] st
      by (simp add: act_bind_def range_simps tok_simps)
    then show ?thesis using IH by auto
  qed
qed

section \<open>The last range\<close>

text \<open>
  A tree that covers all \<open>n\<close> tokens, and the one of a file without pragmas, imports and
  definitions: only the link from the module to its first child is missing.
\<close>

definition full_tree :: "TokenRange list \<Rightarrow> nat \<Rightarrow> bool" where
  "full_tree rs n \<longleftrightarrow> (\<exists>K. tree_ok rs [0] None None K n) \<and> range_end (rs ! 0) = of_nat n"

definition unlinked_tree :: "TokenRange list \<Rightarrow> nat \<Rightarrow> bool" where
  "unlinked_tree rs n \<longleftrightarrow> length rs = 2 \<and> first_child_idx (rs ! 0) = NO_RELATION \<and>
     full_tree (rs[0 := (rs ! 0)\<lparr>first_child_idx := 1\<rparr>]) n"

lemma check_unlinked_tree:
  assumes "unlinked_tree rs n"
  shows "check_tree rs = Panic"
proof -
  let ?r = "(rs ! 0)\<lparr>first_child_idx := 1\<rparr>"
  obtain r0 r1 where rs: "rs = [r0, r1]"
    using assms by (cases rs; cases "tl rs") (auto simp: unlinked_tree_def)
  obtain K where tree: "tree_ok [r0\<lparr>first_child_idx := 1\<rparr>, r1] [0] None None K n"
    using assms rs by (auto simp: unlinked_tree_def full_tree_def)
  have "first_child_idx r0 = NO_RELATION" using assms rs by (simp add: unlinked_tree_def)
  moreover have "num_child_ranges r0 \<noteq> 0"
  proof -
    have kids: "distinct (K 0)" "\<forall>j \<in> set (K 0). j = 1" using tree_okD(8) [OF tree, of 0] by (auto simp: kids_ok_def)
    have "K 0 \<noteq> []" using tree_okD(7) [OF tree, of 0] by (auto simp: node_ok_def child_of_def NO_RELATION_def)
    with kids have "K 0 = [1]" by (cases "K 0"; cases "tl (K 0)") auto
    then show ?thesis using tree_okD(7) [OF tree, of 0] by (simp add: node_ok_def)
  qed
  ultimately show ?thesis
    by (simp add: check_tree_def rs upt_conv_Cons check_children_def vec_get_Ok rassert_def)
qed


lemma one_range_iff:
  assumes tree: "tree_ok rs [0] None None K n"
  shows "length rs = 1 \<longleftrightarrow> K 0 = []"
proof
  assume "length rs = 1"
  then show "K 0 = []" using tree_okD(8) [OF tree, of 0] by (cases "K 0") (auto simp: kids_ok_def)
next
  assume none: "K 0 = []"
  show "length rs = 1"
  proof (rule ccontr)
    assume "length rs \<noteq> 1"
    then have "1 < length rs" using tree_okD(4) [OF tree] by (cases rs) auto
    from tree_okD(9) [OF tree this] obtain i where i: "i < length rs" "1 \<in> set (K i)" by auto
    then have "i = 0" using tree_okD(8) [OF tree i(1)] by (auto simp: kids_ok_def)
    then show False using i(2) none by simp
  qed
qed

lemma add_last_code_range_at:
  assumes tree: "tree_ok rs [0] None None K (length ts)" and len: "length rs < 2 ^ 31" and n: "length ts < 2 ^ 32"
  shows "\<exists>rs'. add_last_code_range debug (st_at name bs cs i ts rs k) = (Ok (), st_at name bs cs i ts rs' k) \<and>
    length rs' \<le> length rs + 1 \<and> special rs' = special rs \<and>
    (if length rs = 1 \<and> ts \<noteq> [] then unlinked_tree rs' (length ts) else full_tree rs' (length ts))"
proof -
  let ?n = "length ts" and ?l = "length rs"
  note t = tree_okD [OF tree]
  have l: "0 < ?l" using t(4) by simp
  have open0: "tiled rs 0 (K 0) (range_end (rs ! 0))" "unat (range_end (rs ! 0)) \<le> ?n"
    using t(10) [of 0] t(14) by (auto simp: open_ok_def)
  show ?thesis
  proof (cases "range_end (rs ! 0) = of_nat ?n")
    case True
    have "ts = []" if "?l = 1"
    proof -
      have "of_nat ?n = (0 :: u32)" using open0(1) True one_range_iff [OF tree] that by simp
      then show ?thesis using n unat_of_nat_u32 [of ?n] by simp
    qed
    then show ?thesis
      using True l tree by (auto simp: add_last_code_range_def act_bind_def range_simps tok_simps act_ret_def full_tree_def)
  next
    case False
    let ?code = "code_range 0 cs (range_end (rs ! 0)) (of_nat ?n) NO_RELATION"
    let ?rs = "attach 0 ?l (rs @ [?code])"
    have add: "add_last_code_range debug (st_at name bs cs i ts rs k) = (Ok (), st_at name bs cs i ts ?rs k)"
      using add_code_range_at [OF tree len, of "of_nat ?n" debug NO_RELATION name bs cs i ts k] False l
      by (simp add: add_last_code_range_def act_bind_def range_simps tok_simps)
    have less: "range_end (rs ! 0) < of_nat ?n"
      using False open0(2) n unat_of_nat_u32 [of ?n] by (metis order_le_less word_le_nat_alt)
    have leaf: "tree_ok (xs @ [?code]) [0] pend (Some ?l) K ?n"
      if "tree_ok xs [0] pend None K ?n" "length xs = ?l" "range_end (xs ! 0) = range_end (rs ! 0)" for xs pend
      using tree_ok_leaf [OF that(1), of ?code] that(2,3) less n by (simp add: code_range_def unat_of_nat_u32)
    have covers: "full_tree (attach 0 ?l (xs @ [?code])) ?n"
      if "tree_ok xs [0] pend None K ?n" "length xs = ?l" "range_end (xs ! 0) = range_end (rs ! 0)"
        "K 0 = [] \<Longrightarrow> pend = Some ?l" "pend = None \<or> pend = Some ?l" for xs pend
    proof -
      note lf = leaf [OF that(1-3)]
      have "next_sibling_idx ((xs @ [?code]) ! ?l) = NO_RELATION" using that(2) by (simp add: nth_append code_range_def)
      then have "tree_ok (attach 0 ?l (xs @ [?code])) [0] None None (K(0 := K 0 @ [?l])) ?n"
        using tree_ok_attach [OF lf, of None] that(4,5) by simp
      moreover have "range_end (attach 0 ?l (xs @ [?code]) ! 0) = of_nat ?n"
        using tree_okD(7,8) [OF lf, of 0] l that(2)
        by (subst attach_nth(2) [where ks = "K 0"]) (auto simp: node_ok_def kids_ok_def nth_append code_range_def)
      ultimately show ?thesis by (auto simp: full_tree_def)
    qed
    show ?thesis
    proof (cases "?l = 1")
      case False
      then have "full_tree ?rs ?n" using covers [OF tree] one_range_iff [OF tree] by simp
      then show ?thesis using add False by (intro exI [of _ ?rs]) (simp add: code_range_def)
    next
      case True
      then obtain r0 where r0: "rs = [r0]" by (cases rs) auto
      have none: "K 0 = []" using one_range_iff [OF tree] True by simp
      have links: "first_child_idx r0 = NO_RELATION" "last_child_idx r0 = NO_RELATION"
        using t(7) [of 0] none r0 by (auto simp: node_ok_def child_of_def)
      have "tree_ok [r0\<lparr>first_child_idx := 1\<rparr>] [0] (Some 1) None K ?n"
        using tree_ok_pend [OF tree, of 1] r0 links by simp
      from covers [OF this] have "full_tree (attach 0 1 [r0\<lparr>first_child_idx := 1\<rparr>, ?code]) ?n"
        using r0 True by simp
      then have "unlinked_tree ?rs ?n"
        using r0 links by (cases r0) (simp add: unlinked_tree_def attach_def Let_def code_range_def)
      moreover have "ts \<noteq> []" using less by auto
      ultimately show ?thesis using add True by (intro exI [of _ ?rs]) (simp add: code_range_def)
    qed
  qed
qed

end
