(* ===== verification/Tokenizer_Properties.thy ===== *)
theory Tokenizer_Properties
  imports Tokenizer_Finish
begin

text \<open>
  What the tokenizer guarantees for a whole file: it accepts exactly the texts of the lexical
  grammar, its tokens are those of the only division of the file into lexemes, and its
  ranges form a tree over the tokens.
\<close>

section \<open>The outcome for a file\<close>

definition run_tokenizer :: "bool \<Rightarrow> nat \<Rightarrow> string \<Rightarrow> u8 list \<Rightarrow> (unit, ParseError) res \<times> Tokenizing" where
  "run_tokenizer debug i name bs =
     tokenize debug \<lparr>tokenizer = \<lparr>curly_stack = [], stack_idx = i\<rparr>, source = InputSource_new name bs, target = TokenBuffer_new\<rparr>"

text \<open>
  A text of the language: lexemes and white space, matching curly braces, and no carriage
  return without a newline.
\<close>

definition valid_text :: "u8 list \<Rightarrow> (TokenKind \<times> nat \<times> nat) list \<Rightarrow> bool" where
  "valid_text bs lxs \<longleftrightarrow> tiles bs 0 lxs (length bs) \<and> open_braces bs lxs [] = Some [] \<and> (\<forall>i < length bs. \<not> bad_cr bs i)"

lemma tiles_unique:
  "tiles bs k lxs (length bs) \<Longrightarrow> tiles bs k lxs' (length bs) \<Longrightarrow> lxs' = lxs"
proof (induction lxs arbitrary: k lxs')
  case Nil
  show ?case
  proof (cases lxs')
    case (Cons lx l)
    obtain kind s e where "lx = (kind, s, e)" by (cases lx)
    then have "blank bs k s" "lexeme bs kind s e" using Nil.prems(2) Cons by simp_all
    then show ?thesis
      using Nil.prems(1) lexeme_from [of bs kind s e] by (auto simp: blank_def lexeme_def)
  qed simp
next
  case (Cons lx lxs)
  obtain kind s e where lx: "lx = (kind, s, e)" by (cases lx)
  then have t: "blank bs k s" "lexeme bs kind s e" "tiles bs e lxs (length bs)" using Cons.prems(1) by simp_all
  have e: "s \<le> length bs" "e \<le> length bs" using t(2) by (auto simp: lexeme_def)
  from tiles_lexeme [OF tiles_after_blank [OF Cons.prems(2) t(1) e(1)] t(2) e(2)]
  obtain l where "lxs' = (kind, s, e) # l" "tiles bs e l (length bs)" .
  with Cons.IH [OF t(3)] lx show ?case by simp
qed

lemma valid_text_unique: "valid_text bs lxs \<Longrightarrow> valid_text bs lxs' \<Longrightarrow> lxs' = lxs"
  using tiles_unique unfolding valid_text_def by blast

lemma cr_error_None: "cr_error name bs k = None \<longleftrightarrow> (\<forall>i < k. \<not> bad_cr bs i)"
  by (induction k) (auto simp: less_Suc_eq split: option.splits)

lemma cr_error_Some: "cr_error name bs k = Some e \<Longrightarrow> \<exists>p msg. p \<le> k \<and> e = error_at name bs p msg"
  by (induction k) (auto split: option.splits if_splits intro: le_SucI)

lemma open_braces_pos:
  assumes "tiles bs k lxs n" "open_braces bs lxs cs = Some cs'" "\<forall>p \<in> set cs. \<exists>i \<le> length bs. p = pos_at bs i"
  shows "\<forall>p \<in> set cs'. \<exists>i \<le> length bs. p = pos_at bs i"
  using assms
proof (induction bs lxs cs arbitrary: k rule: open_braces.induct)
  case (2 bs kind i j lxs cs)
  have i: "i \<le> length bs" and rest: "tiles bs j lxs n" using "2.prems"(1) by (auto simp: lexeme_def)
  have "cs \<noteq> []" if "kind = TK_CloseCurly" using "2.prems"(2) that by auto
  then consider "kind = TK_OpenCurly" | "kind \<noteq> TK_OpenCurly" "kind = TK_CloseCurly" "cs \<noteq> []"
    | "kind \<noteq> TK_OpenCurly" "kind \<noteq> TK_CloseCurly" by blast
  then show ?case
  proof cases
    case 1
    show ?thesis by (rule "2.IH"(1) [OF 1 rest]) (use 1 "2.prems"(2,3) i in auto)
  next
    case 2
    show ?thesis by (rule "2.IH"(2) [OF 2 rest]) (use 2 "2.prems"(2,3) in \<open>auto dest: in_set_butlastD\<close>)
  next
    case 3
    show ?thesis by (rule "2.IH"(3) [OF 3 rest]) (use 3 "2.prems"(2,3) in auto)
  qed
qed simp

lemma finish_cleared:
  assumes "cr_error name bs (length bs) = None"
  shows "take_error (st_at name bs cs i ts rs (length bs)) = (Ok None, st_at name bs cs i ts rs (length bs))"
proof -
  have "(source_at name bs (length bs))\<lparr>had_error := None\<rparr> = source_at name bs (length bs)"
    using assms by (simp add: source_at_def)
  then show ?thesis using assms by (simp add: take_error_def at_offset_def)
qed

definition code_only :: "u8 list \<Rightarrow> (TokenKind \<times> nat \<times> nat) list \<Rightarrow> bool" where
  "code_only bs lxs \<longleftrightarrow> lxs \<noteq> [] \<and> \<not> list_ex (opens_range bs) lxs"

lemma finish_at:
  assumes inv: "loop_inv bs cs i ts rs (length bs) lxs" and small: "i32_input bs"
    and out_def: "out = finish_tokens debug (st_at name bs cs i ts rs (length bs))"
  shows "fails_in name bs out \<and> \<not> valid_text bs lxs \<or>
    valid_text bs lxs \<and> (\<exists>rs'. (if code_only bs lxs then unlinked_tree rs' (length ts) else full_tree rs' (length ts)) \<and>
      special rs' = (RK_Module, 0) # openings bs 0 lxs \<and>
      out = (if debug \<and> code_only bs lxs then Panic else Ok (), st_at name bs [] 0 ts rs' (length bs)))"
proof -
  note v = loop_invD [OF inv]
  obtain st K where st: "hd st = i" "tree_ok rs st None None K (length ts)" using inv by (auto simp: loop_inv_def)
  have len: "length rs + 1 < 2 ^ 31" "length rs < 2 ^ 31" "length ts < 2 ^ 32"
    using v(5,6) small by (simp_all add: i32_input_def)
  consider e where "cr_error name bs (length bs) = Some e" | "cr_error name bs (length bs) = None" "cs \<noteq> []"
    | "cr_error name bs (length bs) = None" "cs = []" by (cases "cr_error name bs (length bs)") auto
  then show ?thesis
  proof cases
    case (1 e)
    then have "fails_in name bs out"
      using cr_error_Some [OF 1] by (auto simp: out_def finish_tokens_def act_bind_def take_error_def act_err_def fails_in_def)
    moreover have "\<not> (\<forall>i < length bs. \<not> bad_cr bs i)" using 1 cr_error_None [of name bs "length bs"] by simp
    ultimately show ?thesis by (simp add: valid_text_def)
  next
    case 2
    obtain p where p: "p \<le> length bs" "last cs = pos_at bs p"
      using open_braces_pos [OF v(2,4)] 2(2) by (metis empty_iff empty_set last_in_set)
    have "fails_in name bs out"
      using 2 p i32_input_small [OF small]
      by (simp add: out_def finish_tokens_def act_bind_def finish_cleared act_get_def pop_curly_at act_res_def tok_simps fails_inI)
    then show ?thesis using v(4) 2(2) by (simp add: valid_text_def)
  next
    case 3
    have valid: "valid_text bs lxs" using v(2,4) 3 cr_error_None [of name bs "length bs"] by (simp add: valid_text_def)
    have "length st \<le> Suc (length rs)" using open_ranges_length [OF st(2)] by simp
    from pop_all_at [OF st(2) this len(2,3), of debug name bs "[]" "length bs"] obtain rs1 K1 where closed:
      "pop_all (Suc (length rs)) debug (st_at name bs [] i ts rs (length bs)) = (Ok (), st_at name bs [] 0 ts rs1 (length bs))"
      "tree_ok rs1 [0] None None K1 (length ts)" "length rs1 = length rs" "special rs1 = special rs" using st(1) by blast
    from add_last_code_range_at [OF closed(2) _ len(3), of debug name bs "[]" 0 "length bs"] closed(3,4) v(8) len(2)
    obtain rs2 where last:
      "add_last_code_range debug (st_at name bs [] 0 ts rs1 (length bs)) = (Ok (), st_at name bs [] 0 ts rs2 (length bs))"
      "length rs2 \<le> length rs + 1"
      "if length rs = 1 \<and> ts \<noteq> [] then unlinked_tree rs2 (length ts) else full_tree rs2 (length ts)"
      "special rs2 = (RK_Module, 0) # openings bs 0 lxs" by auto
    have "ts \<noteq> [] \<longleftrightarrow> lxs \<noteq> []"
      using v(3) emit_length [of bs "hd lxs"] by (cases lxs) auto
    then have code: "length rs = 1 \<and> ts \<noteq> [] \<longleftrightarrow> code_only bs lxs" using v(7) by (auto simp: code_only_def)
    have check: "check_tree rs2 = (if code_only bs lxs then Panic else Ok () :: (unit, ParseError) res)"
    proof (cases "code_only bs lxs")
      case True
      then show ?thesis using last(3) code by (simp add: check_unlinked_tree)
    next
      case False
      then obtain K2 where "tree_ok rs2 [0] None None K2 (length ts)" using last(3) code by (auto simp: full_tree_def)
      then have "check_tree rs2 = (Ok () :: (unit, ParseError) res)" using check_tree_ok last(2) len(1) by force
      then show ?thesis using False by simp
    qed
    have "out = (if debug \<and> code_only bs lxs then Panic else Ok (), st_at name bs [] 0 ts rs2 (length bs))"
      using closed(1) last(1) 3 check
      by (simp add: out_def finish_tokens_def act_bind_def finish_cleared act_get_def range_simps tok_simps act_res_def act_ret_def
          del: pop_all.simps)
    then show ?thesis using valid last(3,4) code by auto
  qed
qed

lemma run_tokenizer_cases:
  assumes small: "i32_input bs"
  shows "fails_in name bs (run_tokenizer debug i name bs) \<and> (\<forall>lxs. \<not> valid_text bs lxs) \<or>
    (\<exists>lxs rs. valid_text bs lxs \<and>
      (if code_only bs lxs then unlinked_tree rs (length (tokens_of bs lxs)) else full_tree rs (length (tokens_of bs lxs))) \<and>
      special rs = (RK_Module, 0) # openings bs 0 lxs \<and>
      run_tokenizer debug i name bs = (if debug \<and> code_only bs lxs then Panic else Ok (),
        st_at name bs [] 0 (tokens_of bs lxs) rs (length bs)))"
proof -
  let ?s = "st_at name bs [] 0 [] [module_range] 0"
  let ?loop = "while_bytes (Suc (length bs)) (main_body debug) () ?s"
  have body: "(\<lambda>c _. act_bind (tokenize_byte debug c) (\<lambda>_. act_ret (Continue ()))) = main_body debug"
    by (intro ext) (simp add: main_body_def)
  have init: "\<lparr>tokenizer = \<lparr>curly_stack = [], stack_idx = i\<rparr>, source = InputSource_new name bs, target = TokenBuffer_new\<rparr> =
      st_at name bs [] i [] [] 0"
    by (simp add: at_offset_def InputSource_new_at TokenBuffer_new_def)
  have "ip_offset (pos_at bs 0) = 0" by (simp add: pos_at_def)
  then have run: "run_tokenizer debug i name bs = act_bind (\<lambda>_. ?loop) (\<lambda>_. finish_tokens debug) ?s"
    unfolding run_tokenizer_def init tokenize_def body
    by (simp add: act_bind_def act_get_def tok_simps range_simps loop_bytes_def del: while_bytes.simps)
  have "length bs - 0 < Suc (length bs)" by simp
  from main_loop [OF loop_inv_start small this, of name debug] show ?thesis
  proof (elim disjE exE)
    assume rej: "rejects name bs 0 [] ?loop"
    then have "fails_in name bs (run_tokenizer debug i name bs)"
      unfolding run rejects_def by (intro fails_in_bind) blast
    moreover have "\<not> valid_text bs lxs" for lxs using rej by (auto simp: rejects_def valid_text_def)
    ultimately show ?thesis by blast
  next
    fix lxs assume "continues name bs (length bs) ([] @ lxs) ?loop ()"
    then obtain cs i' rs where loop: "?loop = (Ok (), st_at name bs cs i' (tokens_of bs lxs) rs (length bs))"
      "loop_inv bs cs i' (tokens_of bs lxs) rs (length bs) lxs" by (auto simp: continues_def)
    have out: "run_tokenizer debug i name bs = finish_tokens debug (st_at name bs cs i' (tokens_of bs lxs) rs (length bs))"
      unfolding run act_bind_def loop(1) by simp
    have "tiles bs 0 lxs (length bs)" using loop_invD(2) [OF loop(2)] .
    then have "valid_text bs lxs' \<Longrightarrow> lxs' = lxs" for lxs' using tiles_unique unfolding valid_text_def by blast
    then show ?thesis
      using finish_at [OF loop(2) small refl, where name = name and debug = debug] unfolding out by blast
  qed
qed


section \<open>The tree of ranges\<close>

text \<open>
  \<open>K i\<close> are the children of the range \<open>i\<close>. The children of the module cover all \<open>n\<close> tokens; those
  of another range cover a part of it from its start, since a range that is closed does
  not get a last range of code.
\<close>

definition children_stored :: "TokenRange list \<Rightarrow> nat \<Rightarrow> nat list \<Rightarrow> bool" where
  "children_stored rs i ks \<longleftrightarrow>
     num_child_ranges (rs ! i) = of_nat (length ks) \<and>
     first_child_idx (rs ! i) = (case ks of [] \<Rightarrow> NO_RELATION | k # _ \<Rightarrow> int k) \<and>
     last_child_idx (rs ! i) = (if ks = [] then NO_RELATION else int (last ks)) \<and>
     linked rs None ks \<and> distinct ks \<and>
     (\<forall>j \<in> set ks. i < j \<and> j < length rs \<and> parent_idx (rs ! j) = int i)"

definition range_tree :: "TokenRange list \<Rightarrow> (nat \<Rightarrow> nat list) \<Rightarrow> nat \<Rightarrow> bool" where
  "range_tree rs K n \<longleftrightarrow>
     rs \<noteq> [] \<and> range_kind (rs ! 0) = RK_Module \<and> range_start (rs ! 0) = 0 \<and> range_end (rs ! 0) = of_nat n \<and>
     tiled rs 0 (K 0) (of_nat n) \<and>
     (\<forall>i < length rs. children_stored rs i (K i)) \<and>
     (\<forall>j < length rs. j \<noteq> 0 \<longrightarrow> (\<exists>i < j. j \<in> set (K i)) \<and>
        range_start (rs ! j) < range_end (rs ! j) \<and> unat (range_end (rs ! j)) \<le> n \<and>
        (\<exists>m. m \<le> range_end (rs ! j) \<and> tiled rs (range_start (rs ! j)) (K j) m))"

lemma full_tree_range_tree:
  assumes "full_tree rs n"
  shows "\<exists>K. range_tree rs K n"
proof -
  obtain K where tree: "tree_ok rs [0] None None K n" and e: "range_end (rs ! 0) = of_nat n"
    using assms by (auto simp: full_tree_def)
  note t = tree_okD [OF tree]
  have "children_stored rs i (K i)" if "i < length rs" for i
  proof -
    have "child_of [0] None i = None" by (simp add: child_of_def)
    then show ?thesis
      using t(7,8) [OF that] by (auto simp: node_ok_def kids_ok_def children_stored_def split: list.splits)
  qed
  moreover have "\<exists>i < j. j \<in> set (K i)" if j: "j < length rs" "j \<noteq> 0" for j
  proof -
    obtain i where "i < length rs" "j \<in> set (K i)" using t(9) [of j] j by auto
    then show ?thesis using t(8) [of i] by (auto simp: kids_ok_def)
  qed
  moreover have "tiled rs 0 (K 0) (of_nat n)" using t(10) [of 0] t(14) e by (simp add: open_ok_def)
  moreover have "rs \<noteq> []" using t(4) by auto
  ultimately show ?thesis
    using t(11,13,14) e unfolding range_tree_def closed_ok_def by (intro exI [of _ K]) auto
qed

section \<open>Samples\<close>

definition sample_import :: "u8 list" where
  "sample_import = bytes_of ''import a;''"

definition sample_code :: "u8 list" where
  "sample_code = bytes_of ''; ;''"

lemma sample_import_valid:
  "i32_input sample_import" "valid_text sample_import [(TK_Ident, 0, 6), (TK_Ident, 7, 8), (TK_SemiColon, 8, 9)]"
  "\<not> code_only sample_import [(TK_Ident, 0, 6), (TK_Ident, 7, 8), (TK_SemiColon, 8, 9)]"
  by (simp_all add: sample_import_def sample_code_def i32_input_def valid_text_def lexeme_def blank_def run_end_def is_identifier_start_def is_identifier_remaining_def code_only_def opens_range_def is_whitespace_def
      punct_at_def punct_kinds_def comment_start_def bad_cr_def All_less_Suc demarks_definition_def demarks_import_def
      KW_STRUCT_def KW_ENUM_def KW_UNION_def KW_FUNCTION_def KW_PRIMITIVE_def KW_COMPOSITE_def KW_IMPORT_def)

lemma sample_code_valid:
  "i32_input sample_code" "valid_text sample_code [(TK_SemiColon, 0, 1), (TK_SemiColon, 2, 3)]"
  "code_only sample_code [(TK_SemiColon, 0, 1), (TK_SemiColon, 2, 3)]"
  by (simp_all add: sample_import_def sample_code_def i32_input_def valid_text_def lexeme_def blank_def run_end_def is_identifier_start_def is_identifier_remaining_def code_only_def opens_range_def is_whitespace_def
      punct_at_def punct_kinds_def comment_start_def bad_cr_def All_less_Suc demarks_definition_def demarks_import_def
      KW_STRUCT_def KW_ENUM_def KW_UNION_def KW_FUNCTION_def KW_PRIMITIVE_def KW_COMPOSITE_def KW_IMPORT_def)

section \<open>Properties\<close>

text \<open>
  C20: The tokenizer accepts exactly the texts of the lexical grammar: for a file of less than
  \<open>2 ^ 31 - 2\<close> bytes it returns \<open>Ok\<close> if the file can be divided into lexemes and white space with
  matching curly braces and without stray carriage returns, and an error at a position of
  the file otherwise. It never panics in a release build and its loops always end.
\<close>

theorem tokenizer_accepts_language:
  assumes "i32_input bs"
  shows "if \<exists>lxs. valid_text bs lxs then \<exists>s. run_tokenizer False i name bs = (Ok (), s)
    else \<exists>p msg s. p \<le> length bs \<and> run_tokenizer False i name bs = (Err (error_at name bs p msg), s)"
proof -
  let ?out = "run_tokenizer False i name bs"
  have "\<exists>p msg s. p \<le> length bs \<and> ?out = (Err (error_at name bs p msg), s)" if "fails_in name bs ?out"
    using that by (cases ?out) (auto simp: fails_in_def)
  then show ?thesis using run_tokenizer_cases [OF assms, of name False i] by auto
qed

theorem tokenizer_accepts_language_witness:
  "\<exists>s. run_tokenizer False 0 ''a.pdl'' sample_import = (Ok (), s)"
  using tokenizer_accepts_language [OF sample_import_valid(1), of 0 "''a.pdl''"] sample_import_valid(2) by (auto split: if_splits)

text \<open>
  C22: When the tokenizer succeeds, there is exactly one division of the file into lexemes and
  white space whose curly braces match, and the buffer holds the tokens of its lexemes in
  order, each at the line and offset of its first byte; the tokenizer is ready for the next
  file.
\<close>

theorem tokens_of_lexemes:
  assumes "i32_input bs" "run_tokenizer debug i name bs = (Ok (), s)"
  shows "tokenizer s = \<lparr>curly_stack = [], stack_idx = 0\<rparr> \<and>
    (\<exists>!lxs. tiles bs 0 lxs (length bs) \<and> open_braces bs lxs [] = Some [] \<and> tokens (target s) = concat (map (emit bs) lxs))"
proof -
  obtain lxs rs where lxs: "valid_text bs lxs" "s = st_at name bs [] 0 (tokens_of bs lxs) rs (length bs)"
    using run_tokenizer_cases [OF assms(1), of name debug i] assms(2) by (auto simp: fails_in_def split: if_splits)
  have "lxs' = lxs" if "tiles bs 0 lxs' (length bs)" for lxs'
    using tiles_unique [OF _ that, of lxs] lxs(1) by (simp add: valid_text_def)
  then show ?thesis using lxs by (auto simp: valid_text_def tokens_of_def)
qed

theorem tokens_of_lexemes_witness:
  "\<exists>s. run_tokenizer True 0 ''a.pdl'' sample_import = (Ok (), s) \<and>
    (\<exists>!lxs. tiles sample_import 0 lxs (length sample_import) \<and> open_braces sample_import lxs [] = Some [] \<and>
       tokens (target s) = concat (map (emit sample_import) lxs))"
proof -
  obtain s where s: "run_tokenizer True 0 ''a.pdl'' sample_import = (Ok (), s)"
  proof -
    from run_tokenizer_cases [OF sample_import_valid(1), of "''a.pdl''" True 0] sample_import_valid(2)
    obtain lxs s where "valid_text sample_import lxs"
      "run_tokenizer True 0 ''a.pdl'' sample_import = (if code_only sample_import lxs then Panic else Ok (), s)" by force
    with valid_text_unique [OF sample_import_valid(2)] sample_import_valid(3) that show ?thesis by force
  qed
  from tokens_of_lexemes [OF sample_import_valid(1) s] s show ?thesis by blast
qed

text \<open>
  C21: For a valid file with a pragma, an import or a definition (or an empty file), in a debug
  build too, the ranges are a tree stored with parents, first and last children, siblings and
  counts; the children of the module cover all tokens without gaps, those of another
  range are consecutive from its start; and apart from code there is exactly one range for
  each pragma, import and definition keyword, which starts with its token.
\<close>

theorem token_ranges_form_tree:
  assumes "i32_input bs" "valid_text bs lxs" "\<not> code_only bs lxs"
  shows "\<exists>s K. run_tokenizer debug i name bs = (Ok (), s) \<and>
    range_tree (ranges (target s)) K (length (tokens (target s))) \<and>
    special (ranges (target s)) = (RK_Module, 0) # openings bs 0 lxs"
proof -
  from run_tokenizer_cases [OF assms(1), of name debug i] assms(2)
  obtain lxs' rs where lxs': "valid_text bs lxs'"
    "if code_only bs lxs' then unlinked_tree rs (length (tokens_of bs lxs')) else full_tree rs (length (tokens_of bs lxs'))"
    "special rs = (RK_Module, 0) # openings bs 0 lxs'"
    "run_tokenizer debug i name bs = (if debug \<and> code_only bs lxs' then Panic else Ok (),
       st_at name bs [] 0 (tokens_of bs lxs') rs (length bs))" by blast
  have "lxs' = lxs" using valid_text_unique [OF assms(2) lxs'(1)] .
  then show ?thesis using lxs'(2-4) assms(3) full_tree_range_tree by auto
qed

theorem token_ranges_form_tree_witness:
  "\<exists>s K. run_tokenizer True 0 ''a.pdl'' sample_import = (Ok (), s) \<and>
    range_tree (ranges (target s)) K (length (tokens (target s))) \<and>
    special (ranges (target s)) = [(RK_Module, 0), (RK_Import, 0)]"
proof -
  have "openings sample_import 0 [(TK_Ident, 0, 6), (TK_Ident, 7, 8), (TK_SemiColon, 8, 9)] = [(RK_Import, 0)]"
    by (simp add: sample_import_def range_opened_def demarks_definition_def demarks_import_def
        KW_STRUCT_def KW_ENUM_def KW_UNION_def KW_FUNCTION_def KW_PRIMITIVE_def KW_COMPOSITE_def KW_IMPORT_def)
  with token_ranges_form_tree [OF sample_import_valid, of True 0 "''a.pdl''"] show ?thesis by simp
qed

text \<open>
  C23: In a debug build the tokenizer panics on exactly the valid files that have a token but no
  pragma, import or definition: the last range of code is not linked from the module, and the
  check of the tree finds it.
\<close>

theorem code_only_files_panic:
  assumes "i32_input bs"
  shows "fst (run_tokenizer True i name bs) = Panic \<longleftrightarrow> (\<exists>lxs. valid_text bs lxs \<and> code_only bs lxs)"
proof -
  from run_tokenizer_cases [OF assms, of name True i] consider
      "fails_in name bs (run_tokenizer True i name bs)" "\<forall>lxs. \<not> valid_text bs lxs"
    | lxs where "valid_text bs lxs" "fst (run_tokenizer True i name bs) = (if code_only bs lxs then Panic else Ok ())" by auto
  then show ?thesis
  proof cases
    case (2 lxs)
    have "code_only bs lxs" if "valid_text bs lxs'" "code_only bs lxs'" for lxs'
      using valid_text_unique [OF 2(1) that(1)] that(2) by simp
    then show ?thesis using 2 by auto
  qed (auto simp: fails_in_def)
qed

theorem code_only_files_panic_witness:
  "fst (run_tokenizer True 0 ''a.pdl'' sample_code) = Panic \<and> fst (run_tokenizer True 0 ''a.pdl'' sample_import) \<noteq> Panic"
proof -
  have "\<not> code_only sample_import lxs" if "valid_text sample_import lxs" for lxs
    using valid_text_unique [OF sample_import_valid(2) that] sample_import_valid(3) by simp
  then show ?thesis
    using code_only_files_panic [OF sample_code_valid(1), of 0 "''a.pdl''"] sample_code_valid(2,3)
      code_only_files_panic [OF sample_import_valid(1), of 0 "''a.pdl''"] by blast
qed

end
