(* ===== verification/Spec2Isabelle.thy ===== *)
theory Spec2Isabelle
  imports Evaluator_Properties Expr_Semantics Election_Progress Eval_Typing Value_Groups Tokenizer_Properties
begin

text \<open>
  Verification of the Reowolf runtime (\<open>src/src\<close>).

  The program. A connector is the end of a distributed session. The native application
  creates ports, network ports, UDP mediators and protocol components in a setup phase
  (\<open>runtime/mod.rs\<close>, \<open>runtime/setup.rs\<close>), calls \<open>connect\<close>, which pairs the network ports
  with their peers and elects the root of a consensus tree among all connectors, and then
  calls \<open>sync\<close> for every synchronous round (\<open>runtime/communication.rs\<close>). In a round every
  component and the native speculate: each branch of the speculation carries a predicate
  that says which channels fire. Local solutions flow up the tree as predicates, the root
  decides, and the decision flows down; then exactly one branch of each component is
  committed, or none.

  Theories and sources, each importing those it calls:
    \<^item> \<open>Reo_Prelude\<close>: words, hash maps and sets as distinct lists in iteration order, option
      and list lemmas; the collections of simplification rules.
    \<^item> \<open>Common_Ids\<close> (\<open>common.rs\<close>, \<open>IdManager\<close> of \<open>mod.rs\<close>): identifiers, payloads, speculative
      variables. \<open>Errors\<close> (\<open>error.rs\<close>). \<open>Vec_Sets\<close> (\<open>VecSet\<close>, \<open>duplicate_port\<close> of \<open>mod.rs\<close>;
      \<open>collections/sets.rs\<close>).
    \<^item> \<open>Predicates\<close>, \<open>Solutions\<close>, \<open>Port_Info\<close>, \<open>Round_Ctx\<close> (\<open>mod.rs\<close>, \<open>communication.rs\<close>): the
      data of a round.
    \<^item> \<open>Native_Branches\<close>, \<open>Proto_Branches\<close> (\<open>communication.rs\<close>): the speculation of the native
      and of a protocol component.
    \<^item> \<open>Action_Monad\<close>: operations on a state that return, fail, panic or run out of fuel,
      with weakest preconditions.
    \<^item> \<open>Endpoints\<close>, \<open>Endpoint_Frames\<close> (\<open>endpoints.rs\<close>): receiving, delaying and sending of
      messages, the end of a round for UDP; what these operations leave unchanged.
    \<^item> \<open>Eval_Store\<close> (\<open>protocol/eval/store.rs\<close>, values of \<open>value.rs\<close>), \<open>Eval_Ops\<close>,
      \<open>Eval_Cast\<close> and \<open>Value_Groups\<close> (\<open>protocol/eval/value.rs\<close>): the store of a component and
      the operators on its values. \<open>Eval_Heap\<close>: which regions a value owns. \<open>Eval_Typing\<close>:
      what the operators do on well-typed values.
    \<^item> \<open>Ast\<close> (\<open>protocol/ast.rs\<close>, \<open>arena.rs\<close>): the syntax tree in its arenas. \<open>Protocol_Desc\<close>
      (\<open>protocol/mod.rs\<close>): the lookup of components.
    \<^item> \<open>Executor\<close>, \<open>Executor_Step\<close> (\<open>protocol/eval/executor.rs\<close>): frames, the serialized
      expressions, statements and the step of a prompt. \<open>Component_Run\<close> (\<open>protocol/mod.rs\<close>):
      the loops that run a component. \<open>Executor_Frames\<close>: what a step does to the stack and to
      the context. \<open>Expr_Semantics\<close>: recursive evaluation of expressions, which the machine of
      serialized instructions computes. \<open>Evaluator_Properties\<close>: sessions whose components run the evaluator.
    \<^item> \<open>Input_Source\<close> (\<open>protocol/input_source.rs\<close>): source files and parse errors. \<open>Tokens\<close>
      (\<open>parser/tokens.rs\<close>), \<open>Keywords\<close> (\<open>parser/token_parsing.rs\<close>): tokens, their iterator, the
      reserved words. \<open>Tokenizer\<close> (\<open>parser/pass_tokenizer.rs\<close>): the loop over the bytes of a file
      and the tree of token ranges. \<open>Tokenizer_Lexing\<close>, \<open>Lexical_Grammar\<close>, \<open>Tokenizer_Steps\<close>:
      what one iteration consumes, against an unambiguous lexical grammar. \<open>Token_Ranges\<close>,
      \<open>Tokenizer_Tree\<close>: the invariant of the tree and the operations that keep it.
      \<open>Tokenizer_Loop\<close>, \<open>Tokenizer_Finish\<close>, \<open>Tokenizer_Properties\<close>: the main loop, the end of
      the file and what holds for a whole file.
    \<^item> \<open>Connector\<close> (\<open>mod.rs\<close>, \<open>setup.rs\<close>, \<open>communication.rs\<close>): the operations of the user but
      \<open>connect\<close> and \<open>sync\<close>. \<open>Sync_Round\<close> (\<open>communication.rs\<close>): \<open>sync\<close>. \<open>Setup\<close>,
      \<open>Consensus_Tree\<close> (\<open>setup.rs\<close>): \<open>connect\<close>.
    \<^item> \<open>Round_Invariant\<close>, \<open>Sync_Properties\<close>: the invariant of a round and what \<open>sync\<close>
      guarantees. \<open>Setup_Invariant\<close>, \<open>Tree_Invariant\<close>: the same for the two halves of
      \<open>connect\<close>. \<open>Connector_Properties\<close>: the connectors that a user can reach.
    \<^item> \<open>Election_Network\<close>, \<open>Election_Progress\<close>: many connectors that elect a leader, with
      messages in flight and arbitrary scheduling.

  State. A struct is a record with the fields of the source. A \<open>HashMap\<close> is an association
  list with distinct keys in iteration order, which Rust leaves open: theorems take the
  containers that an operation is given in any order, while the containers that it builds
  have one order, with a new key last, so a run of the model is one of the possible runs of
  the source (\<open>native_collapse_determined\<close> shows that the committed batch does not depend on
  it). A \<open>BTreeMap\<close> is an association list sorted by key. The state that
  \<open>connected_sync\<close> and \<open>setup_endpoints_and_pair_ports\<close> thread through their loops is a
  record extended by the world. Operations return \<open>res\<close> values: \<open>Ok\<close>, \<open>Err\<close>, \<open>Panic\<close> for
  every \<open>unwrap\<close>, \<open>assert!\<close> and \<open>unreachable!\<close>, or \<open>OutOfFuel\<close>. The runtime is modelled as
  it is built with overflow checks: identifiers and the 16-bit values of the native branches
  panic when they are exhausted. The number of a round is unbounded. The evaluator and the
  tokenizer take the kind of build as an argument.

  Parameters. Sockets, the poll, the clock, datagrams and the decoding of frames
  (\<open>mio\<close>, \<open>bincode\<close>) are the fields of the records \<open>Net\<close> and \<open>Os\<close> over an abstract world
  \<open>'w\<close>; \<open>net_wf\<close> says what the code relies on: decoded messages are well formed.
  The runtime takes the interpreter of component code as the record \<open>Interp\<close> over an abstract
  component state \<open>'s\<close>; \<open>interp_ok\<close> and \<open>run_ok\<close> say that it changes the runtime through its
  callbacks only. The evaluator of the source is an instance (\<open>evaluator\<close>) that satisfies them
  (\<open>evaluator_keeps_contract\<close>). The other connectors of a session are assumed to run this code
  under other connector identifiers, as the documentation of \<open>Connector::new\<close> requires. For
  one connector this is \<open>peers_honest\<close>: whatever port can arrive from the network while it connects, in any world
  that its own calls lead to (\<open>delivers\<close>), belongs to another connector or is known already,
  and comes with its owner. The properties of reachable connectors are about sessions in
  which every \<open>connect\<close> has such peers; the code does not check what a peer tells it.

  What the lemmas show. Predicates form a partial order in which the union is the least
  upper bound, and the one-pass classification of \<open>assignment_union\<close> is exact. The solution
  storage holds exactly the compatible unions of one solution per child. Port tables keep
  the two-way ownership invariant, and where channels are symmetric two ports share a
  speculative variable exactly when they are the ends of one channel. The branches of native
  and components stay consistent with the solutions they have submitted, so committing a
  decided solution cannot panic in the native and selects one batch; the panic of a component
  without an ended branch for the solution is not excluded. A failed \<open>sync\<close> rolls back, a successful one performs one batch, and
  the invariant \<open>conn_inv\<close> holds for all connectors reachable by the calls of a user,
  successful or not. A successful \<open>connect\<close> pairs every network port with the port that its
  peer presented. The election agrees on the
  greatest identifier, its assertions cannot fail, and it cannot get stuck; the code of one
  connector refines its part of that network (\<open>election_implements_network\<close>).

  In the evaluator, copying, dropping and moving values between stores are exact and total on
  values that own trees of regions; equality decides equality of these trees; casts and
  integer operators are exact, wrap or panic as Rust says; and the binary operators are type
  sound, with panics on arithmetic errors only. The
  boundaries on the stack of a component always form a chain with one link for each frame,
  and a call leaves the part of the stack below it untouched. A complete session, in which a
  component written in the language forwards a message between two channels of the native,
  is executed in the kernel (\<open>fwd_sync\<close>).

  The tokenizer accepts exactly the texts of its lexical grammar, which is unambiguous; it
  returns the tokens of the only division of a file into lexemes, with ranges that form a
  tree over them. In a debug build it panics on the files that contain code only
  (\<open>code_only_files_panic\<close>), in a release build never, for files of less than
  \<open>2 ^ 31 - 2\<close> bytes, whose positions and indices fit into their types.

  Interfaces. The locales \<open>map_contract\<close> and \<open>set_contract\<close> of the prelude state what
  the clients of hash maps, ordered maps, sorted vectors and the two deduplicating
  containers rely on; each container is an interpretation of its contract.

  Fuel. Loops over sockets (\<open>read_loop\<close>, \<open>setup_loop\<close>, \<open>election_loop\<close>, \<open>undecided_loop\<close>)
  may wait for the network for ever, so they take fuel and return \<open>OutOfFuel\<close> when it is
  spent; theorems about their results hold for all fuel. The drain loop of a protocol
  component has the bound of \<open>proto_feed_terminates\<close>, for which it never runs out. Operations
  that follow heap positions need the depth of the tree that the value owns. The loops of the
  evaluator run code of the user, which may not end: \<open>cfg_fuel\<close> bounds them, a run that does not
  end within it is \<open>None\<close>, and the theorems hold for every amount. The loops of the tokenizer
  have the number of bytes that are left, plus one, and never run out of it. Loops
  over finite data are structural or have a measure.

  Not modelled. The passes of the compiler of the protocol language after the tokenizer, whose
  result, the protocol description, is an input of the model; the text of evaluation errors;
  logging, printing and the C bindings; the encoding of messages, which is done by a library.
\<close>

end
